(* ===== verification/Prelude.thy ===== *)
theory Prelude
  imports Main "HOL-Library.Word" "HOL-Library.Monad_Syntax"
begin

text \<open>
  Shared vocabulary of the development: the fixed-width C integers the streaming core uses,
  the byte order conversions of Platform.h, and generic facts on lists, options and words
  that several components need.  The host is taken to be little-endian, the branch of
  Platform.h that every supported desktop target compiles.
\<close>

unbundle bit_operations_syntax

section \<open>Options\<close>

lemma bind_Some_map_option [simp]: "Option.bind x (\<lambda>a. Some (f a)) = map_option f x"
  by (cases x) auto

lemma bind_map_option [simp]: "Option.bind (map_option f x) g = Option.bind x (\<lambda>a. g (f a))"
  by (cases x) auto

text \<open>Taking a monadic run apart without simplifying its parts.\<close>

lemma bind_SomeE:
  assumes "x \<bind> f = Some y"
  obtains a where "x = Some a" "f a = Some y"
  using assms by (cases x) auto

lemma case_prod_SomeE:
  assumes "(case p of (a, b) \<Rightarrow> f a b) = Some y"
  obtains a b where "p = (a, b)" "f a b = Some y"
  using assms by (cases p) auto

text \<open>
  The \<open>LC_ASSERT\<close> macro: in debug builds a failed assertion aborts the program.  The models
  are of the debug build in this respect: an abort is \<open>None\<close>, and each component proves
  that it never happens, so that the release build, which drops the checks, behaves alike.
\<close>

definition LC_ASSERT :: "bool \<Rightarrow> unit option" where
  "LC_ASSERT P = (if P then Some () else None)"

lemma LC_ASSERT_True [simp]: "LC_ASSERT True = Some ()" "P \<Longrightarrow> LC_ASSERT P = Some ()"
  by (simp_all add: LC_ASSERT_def)

lemma LC_ASSERT_Some [simp]: "LC_ASSERT P = Some u \<longleftrightarrow> P"
  by (simp add: LC_ASSERT_def)

section \<open>Lists\<close>

lemma foldl_invariant:
  assumes "P a" "\<And>a x. P a \<Longrightarrow> x \<in> set xs \<Longrightarrow> P (f a x)"
  shows "P (foldl f a xs)"
  using assms by (induction xs arbitrary: a) auto

definition nth_opt :: "'a list \<Rightarrow> nat \<Rightarrow> 'a option" where
  "nth_opt xs i = (if i < length xs then Some (xs ! i) else None)"

lemma nth_opt_Some [simp]: "i < length xs \<Longrightarrow> nth_opt xs i = Some (xs ! i)"
  by (simp add: nth_opt_def)

lemma nth_opt_eq_Some: "nth_opt xs i = Some x \<longleftrightarrow> i < length xs \<and> x = xs ! i"
  by (auto simp: nth_opt_def)

section \<open>C integers\<close>

type_synonym u8 = "8 word"
type_synonym u16 = "16 word"
type_synonym u32 = "32 word"
type_synonym u64 = "64 word"
type_synonym i32 = "32 word" \<comment> \<open>a C int: arithmetic of the word, compared through \<open>sint\<close>\<close>

named_theorems wf_intros \<open>preservation of component invariants\<close>
named_theorems byte_simps \<open>conversions between words and byte lists\<close>

section \<open>Bytes of words\<close>

text \<open>Memory image of an unsigned integer: least significant byte first, \<open>n\<close> bytes.\<close>

fun le_bytes :: "nat \<Rightarrow> 'a::len word \<Rightarrow> u8 list" where
  "le_bytes 0 w = []"
| "le_bytes (Suc n) w = ucast w # le_bytes n (drop_bit 8 w)"

fun of_le_bytes :: "u8 list \<Rightarrow> 'a::len word" where
  "of_le_bytes [] = 0"
| "of_le_bytes (b # bs) = ucast b OR push_bit 8 (of_le_bytes bs)"

lemma length_le_bytes [simp, byte_simps]: "length (le_bytes n w) = n"
  by (induction n arbitrary: w) auto

lemma ucast_ucast_low8: "(ucast (ucast (w :: 'a::len word) :: u8) :: 'a word) = w AND mask 8"
  by (rule bit_word_eqI) (auto simp: bit_simps)

lemma of_le_bytes_le_bytes [byte_simps]:
  "of_le_bytes (le_bytes n w) = (take_bit (8 * n) w :: 'a::len word)"
proof (induction n arbitrary: w)
  case 0
  show ?case by simp
next
  case (Suc n)
  have "of_le_bytes (le_bytes (Suc n) w)
      = (w AND mask 8) OR push_bit 8 (take_bit (8 * n) (drop_bit 8 w))"
    by (simp add: Suc.IH ucast_ucast_low8)
  also have "\<dots> = take_bit (8 * Suc n) w"
    by (rule bit_word_eqI) (auto simp: bit_simps)
  finally show ?case .
qed

lemma of_le_bytes_full [simp]:
  "of_le_bytes (le_bytes 2 w) = (w :: u16)"
  "of_le_bytes (le_bytes 4 v) = (v :: u32)"
  "of_le_bytes (le_bytes 8 x) = (x :: u64)"
  by (simp_all add: of_le_bytes_le_bytes take_bit_word_eq_self)

lemma take_bit_of_le_bytes:
  "take_bit (8 * length bs) (of_le_bytes bs :: 'a::len word) = of_le_bytes bs"
proof (induction bs)
  case Nil
  show ?case by simp
next
  case (Cons b bs)
  have "take_bit (8 * length (b # bs)) (of_le_bytes (b # bs))
      = ucast b OR push_bit 8 (take_bit (8 * length bs) (of_le_bytes bs :: 'a word))"
    by (rule bit_word_eqI) (auto simp: bit_simps dest: bit_imp_le_length)
  then show ?case by (simp add: Cons.IH)
qed

lemma le_bytes_of_le_bytes:
  "8 * length bs \<le> LENGTH('a::len) \<Longrightarrow> le_bytes (length bs) (of_le_bytes bs :: 'a word) = bs"
proof (induction bs)
  case Nil
  show ?case by simp
next
  case (Cons b bs)
  let ?x = "of_le_bytes bs :: 'a word"
  have len: "8 + 8 * length bs \<le> LENGTH('a)" using Cons.prems by simp
  have x: "?x = take_bit (8 * length bs) ?x" by (simp add: take_bit_of_le_bytes)
  have "ucast (ucast b OR push_bit 8 ?x) = b"
    using len by (intro bit_word_eqI) (auto simp: bit_simps)
  moreover have "drop_bit 8 (ucast b OR push_bit 8 ?x) = ?x"
  proof (rule bit_word_eqI)
    fix i assume "i < LENGTH('a)"
    then show "bit (drop_bit 8 (ucast b OR push_bit 8 ?x)) i = bit ?x i"
      using len by (subst (2) x, subst x) (auto simp: bit_simps dest: bit_imp_le_length)
  qed
  ultimately show ?case using Cons by simp
qed

text \<open>The compiler builtins behind \<open>BSWAP16\<close>, \<open>BSWAP32\<close> and \<open>BSWAP64\<close>.\<close>

definition BSWAP16 :: "u16 \<Rightarrow> u16" where "BSWAP16 w = of_le_bytes (rev (le_bytes 2 w))"
definition BSWAP32 :: "u32 \<Rightarrow> u32" where "BSWAP32 w = of_le_bytes (rev (le_bytes 4 w))"
definition BSWAP64 :: "u64 \<Rightarrow> u64" where "BSWAP64 w = of_le_bytes (rev (le_bytes 8 w))"

definition BE16 :: "u16 \<Rightarrow> u16" where "BE16 w = BSWAP16 w"
definition BE32 :: "u32 \<Rightarrow> u32" where "BE32 w = BSWAP32 w"
definition BE64 :: "u64 \<Rightarrow> u64" where "BE64 w = BSWAP64 w"
definition LE16 :: "u16 \<Rightarrow> u16" where "LE16 w = w"
definition LE32 :: "u32 \<Rightarrow> u32" where "LE32 w = w"
definition LE64 :: "u64 \<Rightarrow> u64" where "LE64 w = w"

lemma le_bytes_BE [byte_simps]:
  "le_bytes 2 (BE16 w) = rev (le_bytes 2 w)"
  "le_bytes 4 (BE32 v) = rev (le_bytes 4 v)"
  "le_bytes 8 (BE64 x) = rev (le_bytes 8 x)"
  using le_bytes_of_le_bytes [of "rev (le_bytes 2 w)", where 'a = 16]
    le_bytes_of_le_bytes [of "rev (le_bytes 4 v)", where 'a = 32]
    le_bytes_of_le_bytes [of "rev (le_bytes 8 x)", where 'a = 64]
  by (simp_all add: BE16_def BE32_def BE64_def BSWAP16_def BSWAP32_def BSWAP64_def)

lemma BE_involution [simp]:
  "BE16 (BE16 w) = w" "BE32 (BE32 v) = v" "BE64 (BE64 x) = x"
proof -
  have "BE16 (BE16 w) = of_le_bytes (rev (le_bytes 2 (BE16 w)))"
    by (simp add: BE16_def BSWAP16_def)
  then show "BE16 (BE16 w) = w" by (simp add: le_bytes_BE)
  have "BE32 (BE32 v) = of_le_bytes (rev (le_bytes 4 (BE32 v)))"
    by (simp add: BE32_def BSWAP32_def)
  then show "BE32 (BE32 v) = v" by (simp add: le_bytes_BE)
  have "BE64 (BE64 x) = of_le_bytes (rev (le_bytes 8 (BE64 x)))"
    by (simp add: BE64_def BSWAP64_def)
  then show "BE64 (BE64 x) = x" by (simp add: le_bytes_BE)
qed

lemma sint_nonneg_unat:
  assumes "0 \<le> sint (w :: 'a::len word)"
  shows "int (unat w) = sint w"
proof -
  have "(2 :: int) ^ (LENGTH('a) - 1) \<le> 2 ^ LENGTH('a)" by (rule power_increasing) simp_all
  with sint_lt [of w] have "sint w < 2 ^ LENGTH('a)" by linarith
  then have "uint w = sint w"
    using assms by (simp add: uint_sint take_bit_int_eq_self)
  then show ?thesis by simp
qed

lemma unat_uint_less: "unat x < n \<Longrightarrow> uint x < int n"
  by (metis of_nat_less_iff of_nat_unat)

lemma unat_uint_le: "unat x \<le> unat y \<Longrightarrow> uint x \<le> uint y"
  by (metis of_nat_le_iff of_nat_unat)

lemma sint_small_unat:
  assumes "unat (w :: i32) < 2 ^ 31"
  shows "sint w = int (unat w)"
proof -
  have "int (unat w) < int (2 ^ 31)" using assms by (simp only: of_nat_less_iff)
  then have "uint w < 2 ^ 31" by simp
  moreover have "0 \<le> uint w" by simp
  ultimately have "signed_take_bit 31 (uint w) = uint w"
    by (intro signed_take_bit_int_eq_self) (linarith | simp)+
  then show ?thesis by (simp add: sint_uint)
qed

lemma unat_plus_small:
  "unat p + n < 2 ^ 32 \<Longrightarrow> unat ((p :: u32) + of_nat n) = unat p + n"
  by (simp add: unat_word_ariths unat_of_nat)

text \<open>C's remainder takes the sign of the dividend.\<close>

definition c_mod :: "int \<Rightarrow> int \<Rightarrow> int" where
  "c_mod a b = sgn a * (\<bar>a\<bar> mod \<bar>b\<bar>)"

section \<open>Memory blocks\<close>

text \<open>
  A block of memory is the list of its cells.  Reading or writing outside the block is
  undefined behaviour of C and is the value \<open>None\<close>.
\<close>

definition mem_read :: "'a list \<Rightarrow> nat \<Rightarrow> nat \<Rightarrow> 'a list option" where
  "mem_read m i n = (if i + n \<le> length m then Some (take n (drop i m)) else None)"

definition mem_write :: "'a list \<Rightarrow> nat \<Rightarrow> 'a list \<Rightarrow> 'a list option" where
  "mem_write m i bs =
     (if i + length bs \<le> length m then Some (take i m @ bs @ drop (i + length bs) m) else None)"

lemma mem_write_length: "mem_write m i bs = Some m' \<Longrightarrow> length m' = length m"
  by (auto simp: mem_write_def split: if_splits)

lemma mem_read_write_same: "mem_write m i bs = Some m' \<Longrightarrow> mem_read m' i (length bs) = Some bs"
  by (auto simp: mem_write_def mem_read_def split: if_splits)

lemma mem_read_write_before:
  "mem_write m i bs = Some m' \<Longrightarrow> j + n \<le> i \<Longrightarrow> mem_read m' j n = mem_read m j n"
  by (auto simp: mem_write_def mem_read_def min_def drop_take split: if_splits)

lemma mem_write_take: "mem_write m i bs = Some m' \<Longrightarrow> take i m' = take i m"
  by (auto simp: mem_write_def min_def split: if_splits)

lemma mem_write_drop: "mem_write m i bs = Some m' \<Longrightarrow> i + length bs \<le> k \<Longrightarrow> drop k m' = drop k m"
  by (auto simp: mem_write_def min_def split: if_splits)

text \<open>To run a model on concrete inputs and keep only whether it succeeds.\<close>

lemma case_Some_ok: "(case x of None \<Rightarrow> False | Some _ \<Rightarrow> True) \<Longrightarrow> x \<noteq> None"
  and case_None_ok: "(case x of None \<Rightarrow> True | Some _ \<Rightarrow> False) \<Longrightarrow> x = None"
  by (cases x; simp)+

end
