(* ===== verification/ByteBuffer.thy ===== *)
theory ByteBuffer
  imports Prelude
begin

text \<open>
  ByteBuffer.c: a cursor over a caller's memory block with a configurable byte order.
  \<open>buffer\<close> is the caller's memory from the wrapped offset on, to the end of the
  allocation; \<open>bb_length\<close> is the length the caller declared.  Every operation returns
  \<open>None\<close> when it would touch memory outside the block (undefined behaviour of the C), and
  otherwise the C result with the new buffer.  The invariant \<open>bb_wf\<close> excludes \<open>None\<close>.
\<close>

section \<open>State and operations\<close>

definition BYTE_ORDER_LITTLE :: u32 where "BYTE_ORDER_LITTLE = 1"
definition BYTE_ORDER_BIG :: u32 where "BYTE_ORDER_BIG = 2"

record byte_buffer =
  buffer :: "u8 list"
  bb_length :: u32
  position :: u32
  byteOrder :: u32

definition BbInitializeWrappedBuffer :: "u8 list \<Rightarrow> i32 \<Rightarrow> i32 \<Rightarrow> i32 \<Rightarrow> byte_buffer option" where
  "BbInitializeWrappedBuffer data off len order =
     (if sint off < 0 \<or> int (length data) < sint off then None
      else Some \<lparr>buffer = drop (nat (sint off)) data, bb_length = len, position = 0, byteOrder = order\<rparr>)"

definition byteSwap64 :: "byte_buffer \<Rightarrow> u64 \<Rightarrow> u64" where
  "byteSwap64 buff l = (if byteOrder buff = BYTE_ORDER_BIG then BE64 l else LE64 l)"

definition byteSwap32 :: "byte_buffer \<Rightarrow> u32 \<Rightarrow> u32" where
  "byteSwap32 buff i = (if byteOrder buff = BYTE_ORDER_BIG then BE32 i else LE32 i)"

definition byteSwap16 :: "byte_buffer \<Rightarrow> u16 \<Rightarrow> u16" where
  "byteSwap16 buff s = (if byteOrder buff = BYTE_ORDER_BIG then BE16 s else LE16 s)"

text \<open>\<open>position + offset\<close> is an unsigned 32-bit sum, so a negative offset moves backwards.\<close>

definition BbAdvanceBuffer :: "byte_buffer \<Rightarrow> i32 \<Rightarrow> bool \<times> byte_buffer" where
  "BbAdvanceBuffer buff off =
     (if bb_length buff < position buff + off then (False, buff)
      else (True, buff\<lparr>position := position buff + off\<rparr>))"

definition BbRewindBuffer :: "byte_buffer \<Rightarrow> byte_buffer" where
  "BbRewindBuffer buff = buff\<lparr>position := 0\<rparr>"

text \<open>
  A negative length reaches \<open>memset\<close> or \<open>memcpy\<close> as a huge \<open>size_t\<close>: undefined behaviour.
\<close>

definition BbGetBytes :: "byte_buffer \<Rightarrow> i32 \<Rightarrow> (bool \<times> u8 list \<times> byte_buffer) option" where
  "BbGetBytes buff len =
     (if sint len < 0 then None
      else if bb_length buff < position buff + len then
        Some (False, replicate (unat len) 0, buff)
      else do {
        bs \<leftarrow> mem_read (buffer buff) (unat (position buff)) (unat len);
        Some (True, bs, buff\<lparr>position := position buff + len\<rparr>)
      })"

definition BbGet8 :: "byte_buffer \<Rightarrow> (bool \<times> u8 \<times> byte_buffer) option" where
  "BbGet8 buff = do {
     (ok, bs, buff') \<leftarrow> BbGetBytes buff 1;
     Some (ok, of_le_bytes bs, buff')
   }"

text \<open>Here \<open>sizeof\<close> makes the bounds check a 64-bit \<open>size_t\<close> sum, which does not wrap.\<close>

definition BbGet16 :: "byte_buffer \<Rightarrow> (bool \<times> u16 \<times> byte_buffer) option" where
  "BbGet16 buff =
     (if unat (bb_length buff) < unat (position buff) + 2 then Some (False, 0, buff)
      else do {
        bs \<leftarrow> mem_read (buffer buff) (unat (position buff)) 2;
        Some (True, byteSwap16 buff (of_le_bytes bs), buff\<lparr>position := position buff + 2\<rparr>)
      })"

definition BbGet32 :: "byte_buffer \<Rightarrow> (bool \<times> u32 \<times> byte_buffer) option" where
  "BbGet32 buff =
     (if unat (bb_length buff) < unat (position buff) + 4 then Some (False, 0, buff)
      else do {
        bs \<leftarrow> mem_read (buffer buff) (unat (position buff)) 4;
        Some (True, byteSwap32 buff (of_le_bytes bs), buff\<lparr>position := position buff + 4\<rparr>)
      })"

definition BbGet64 :: "byte_buffer \<Rightarrow> (bool \<times> u64 \<times> byte_buffer) option" where
  "BbGet64 buff =
     (if unat (bb_length buff) < unat (position buff) + 8 then Some (False, 0, buff)
      else do {
        bs \<leftarrow> mem_read (buffer buff) (unat (position buff)) 8;
        Some (True, byteSwap64 buff (of_le_bytes bs), buff\<lparr>position := position buff + 8\<rparr>)
      })"

definition BbPut32 :: "byte_buffer \<Rightarrow> u32 \<Rightarrow> (bool \<times> byte_buffer) option" where
  "BbPut32 buff i =
     (if unat (bb_length buff) < unat (position buff) + 4 then Some (False, buff)
      else do {
        m \<leftarrow> mem_write (buffer buff) (unat (position buff)) (le_bytes 4 (byteSwap32 buff i));
        Some (True, buff\<lparr>buffer := m, position := position buff + 4\<rparr>)
      })"

definition BbPut64 :: "byte_buffer \<Rightarrow> u64 \<Rightarrow> (bool \<times> byte_buffer) option" where
  "BbPut64 buff l =
     (if unat (bb_length buff) < unat (position buff) + 8 then Some (False, buff)
      else do {
        m \<leftarrow> mem_write (buffer buff) (unat (position buff)) (le_bytes 8 (byteSwap64 buff l));
        Some (True, buff\<lparr>buffer := m, position := position buff + 8\<rparr>)
      })"

definition BbPut16 :: "byte_buffer \<Rightarrow> u16 \<Rightarrow> (bool \<times> byte_buffer) option" where
  "BbPut16 buff s =
     (if unat (bb_length buff) < unat (position buff) + 2 then Some (False, buff)
      else do {
        m \<leftarrow> mem_write (buffer buff) (unat (position buff)) (le_bytes 2 (byteSwap16 buff s));
        Some (True, buff\<lparr>buffer := m, position := position buff + 2\<rparr>)
      })"

text \<open>The caller passes exactly the \<open>length\<close> bytes of \<open>data\<close>.\<close>

definition BbPutBytes :: "byte_buffer \<Rightarrow> u8 list \<Rightarrow> i32 \<Rightarrow> (bool \<times> byte_buffer) option" where
  "BbPutBytes buff data len =
     (if bb_length buff < position buff + len then Some (False, buff)
      else if sint len < 0 \<or> length data < unat len then None
      else do {
        m \<leftarrow> mem_write (buffer buff) (unat (position buff)) (take (unat len) data);
        Some (True, buff\<lparr>buffer := m, position := position buff + len\<rparr>)
      })"

definition BbPut8 :: "byte_buffer \<Rightarrow> u8 \<Rightarrow> (bool \<times> byte_buffer) option" where
  "BbPut8 buff c = BbPutBytes buff [c] 1"

section \<open>Well-formed buffers\<close>

text \<open>
  What a caller establishes by wrapping a block with its true, non-negative length: the
  declared window lies in the block and the cursor in the window.
\<close>

definition bb_wf :: "byte_buffer \<Rightarrow> bool" where
  "bb_wf b \<longleftrightarrow> unat (position b) \<le> unat (bb_length b) \<and> unat (bb_length b) \<le> length (buffer b)
     \<and> unat (bb_length b) < 2 ^ 31"

definition bb_room :: "byte_buffer \<Rightarrow> nat" where
  "bb_room b = unat (bb_length b) - unat (position b)"

lemma BbInitializeWrappedBuffer_wf:
  assumes "0 \<le> sint off" "0 \<le> sint len" "sint off + sint len \<le> int (length data)"
  shows "\<exists>b. BbInitializeWrappedBuffer data off len order = Some b \<and> bb_wf b"
proof -
  have "int (unat len) = sint len" "int (unat off) = sint off"
    using assms by (rule_tac [!] sint_nonneg_unat)
  then have len: "unat len = nat (sint len)" by linarith
  have "sint len < 2 ^ 31" using sint_lt [of len] by simp
  then show ?thesis
    using assms by (auto simp: BbInitializeWrappedBuffer_def bb_wf_def len)
qed

lemma bb_wf_position_bound: "bb_wf b \<Longrightarrow> unat (position b) < 2 ^ 31"
  by (simp add: bb_wf_def)

lemma bb_step_wf [wf_intros]:
  assumes "bb_wf b" "n \<le> bb_room b" "length m = length (buffer b)"
  shows "bb_wf (b\<lparr>buffer := m, position := position b + of_nat n\<rparr>)"
    and "bb_wf (b\<lparr>position := position b + of_nat n\<rparr>)"
    and "unat (position b + of_nat n) = unat (position b) + n"
proof -
  show eq: "unat (position b + of_nat n) = unat (position b) + n"
  proof (rule unat_plus_small)
    have "unat (position b) + n < 2 ^ 31"
      using assms unfolding bb_wf_def bb_room_def by linarith
    then show "unat (position b) + n < 2 ^ 32" by simp
  qed
  show "bb_wf (b\<lparr>buffer := m, position := position b + of_nat n\<rparr>)"
    and "bb_wf (b\<lparr>position := position b + of_nat n\<rparr>)"
    using assms by (auto simp: bb_wf_def bb_room_def eq)
qed

text \<open>
  Two buffers over the same window: same declaration, same block, and no byte outside the
  window changed.
\<close>

definition bb_same_window :: "byte_buffer \<Rightarrow> byte_buffer \<Rightarrow> bool" where
  "bb_same_window b b' \<longleftrightarrow> bb_length b' = bb_length b \<and> byteOrder b' = byteOrder b
     \<and> length (buffer b') = length (buffer b)
     \<and> drop (unat (bb_length b)) (buffer b') = drop (unat (bb_length b)) (buffer b)"

lemma bb_same_window_refl [simp]: "bb_same_window b b"
  by (simp add: bb_same_window_def)

lemma bb_same_window_trans: "bb_same_window b c \<Longrightarrow> bb_same_window c d \<Longrightarrow> bb_same_window b d"
  by (simp add: bb_same_window_def)

lemma bb_same_window_position [simp]: "bb_same_window b (b\<lparr>position := p\<rparr>)"
  by (simp add: bb_same_window_def)

lemma bb_same_window_write:
  assumes "bb_wf b" "length bs \<le> bb_room b" "mem_write (buffer b) (unat (position b)) bs = Some m"
  shows "bb_same_window b (b\<lparr>buffer := m, position := p\<rparr>)"
proof -
  have "unat (position b) + length bs \<le> unat (bb_length b)"
    using assms(1,2) unfolding bb_wf_def bb_room_def by linarith
  with assms(3) show ?thesis
    by (simp add: bb_same_window_def mem_write_length mem_write_drop)
qed

section \<open>The interface: fixed-width fields\<close>

text \<open>
  What a protocol encoder relies on: a \<open>put\<close> and a \<open>get\<close> of one field that either move
  the cursor by the field's width over its encoding, or, when the window is too short,
  report failure and change nothing.
\<close>

locale field_codec =
  fixes width :: nat
    and enc :: "u32 \<Rightarrow> 'v \<Rightarrow> u8 list"
    and dec :: "u32 \<Rightarrow> u8 list \<Rightarrow> 'v"
    and put :: "byte_buffer \<Rightarrow> 'v \<Rightarrow> (bool \<times> byte_buffer) option"
    and get :: "byte_buffer \<Rightarrow> (bool \<times> 'v \<times> byte_buffer) option"
    and zero :: 'v
  assumes enc_length: "length (enc order v) = width"
    and dec_enc: "dec order (enc order v) = v"
    and put_ok: "bb_wf b \<Longrightarrow> width \<le> bb_room b \<Longrightarrow>
      put b v = map_option (\<lambda>m. (True, b\<lparr>buffer := m, position := position b + of_nat width\<rparr>))
        (mem_write (buffer b) (unat (position b)) (enc (byteOrder b) v))"
    and put_short: "bb_wf b \<Longrightarrow> bb_room b < width \<Longrightarrow> put b v = Some (False, b)"
    and get_ok: "bb_wf b \<Longrightarrow> width \<le> bb_room b \<Longrightarrow>
      get b = map_option (\<lambda>bs. (True, dec (byteOrder b) bs, b\<lparr>position := position b + of_nat width\<rparr>))
        (mem_read (buffer b) (unat (position b)) width)"
    and get_short: "bb_wf b \<Longrightarrow> bb_room b < width \<Longrightarrow> get b = Some (False, zero, b)"
begin

lemma in_memory: "bb_wf b \<Longrightarrow> width \<le> bb_room b \<Longrightarrow> unat (position b) + width \<le> length (buffer b)"
  unfolding bb_wf_def bb_room_def by arith

lemma put_total:
  assumes "bb_wf b"
  obtains ok b' where "put b v = Some (ok, b')" "bb_wf b'" "ok \<longleftrightarrow> width \<le> bb_room b"
    "bb_same_window b b'"
proof (cases "width \<le> bb_room b")
  case True
  then obtain m where m: "mem_write (buffer b) (unat (position b)) (enc (byteOrder b) v) = Some m"
    using in_memory [OF assms] by (auto simp: mem_write_def enc_length)
  let ?b = "b\<lparr>buffer := m, position := position b + of_nat width\<rparr>"
  have "put b v = Some (True, ?b)" using assms True m by (simp add: put_ok)
  moreover have "bb_wf ?b"
    using assms True mem_write_length [OF m] by (intro bb_step_wf)
  moreover have "bb_same_window b ?b"
    using assms True m by (intro bb_same_window_write) (simp_all add: enc_length)
  ultimately show ?thesis using True that by blast
next
  case False
  with assms that show ?thesis by (auto simp: put_short)
qed

lemma get_total:
  assumes "bb_wf b"
  obtains ok v b' where "get b = Some (ok, v, b')" "bb_wf b'" "ok \<longleftrightarrow> width \<le> bb_room b"
    "buffer b' = buffer b" "bb_same_window b b'"
proof (cases "width \<le> bb_room b")
  case True
  with assms in_memory [OF assms] that show ?thesis
    by (auto simp: get_ok mem_read_def intro: bb_step_wf)
next
  case False
  with assms that show ?thesis by (auto simp: get_short)
qed

lemma put_then_get:
  assumes "bb_wf b" "put b v = Some (True, b')"
  shows "get (b'\<lparr>position := position b\<rparr>) = Some (True, v, b')"
proof -
  have room: "width \<le> bb_room b"
    using assms by (cases "width \<le> bb_room b") (auto simp: put_short)
  then obtain m where m: "mem_write (buffer b) (unat (position b)) (enc (byteOrder b) v) = Some m"
    and b': "b' = b\<lparr>buffer := m, position := position b + of_nat width\<rparr>"
    using assms by (auto simp: put_ok)
  have "bb_wf (b'\<lparr>position := position b\<rparr>)" "width \<le> bb_room (b'\<lparr>position := position b\<rparr>)"
    using assms(1) room mem_write_length [OF m] by (auto simp: b' bb_wf_def bb_room_def)
  moreover have "mem_read m (unat (position b)) width = Some (enc (byteOrder b) v)"
    using mem_read_write_same [OF m] by (simp add: enc_length)
  ultimately show ?thesis by (simp add: get_ok b' dec_enc)
qed

lemma put_frame:
  assumes "bb_wf b" "put b v = Some (ok, b')"
  shows "take (unat (position b)) (buffer b') = take (unat (position b)) (buffer b)"
    and "drop (unat (position b) + width) (buffer b') = drop (unat (position b) + width) (buffer b)"
proof -
  have "(take (unat (position b)) (buffer b') = take (unat (position b)) (buffer b)) \<and>
    (drop (unat (position b) + width) (buffer b') = drop (unat (position b) + width) (buffer b))"
  proof (cases "width \<le> bb_room b")
    case True
    with assms show ?thesis
      by (auto simp: put_ok mem_write_take mem_write_drop enc_length)
  next
    case False
    with assms show ?thesis by (simp add: put_short)
  qed
  then show "take (unat (position b)) (buffer b') = take (unat (position b)) (buffer b)"
    and "drop (unat (position b) + width) (buffer b') = drop (unat (position b) + width) (buffer b)"
    by auto
qed

end

definition swap_bytes :: "u32 \<Rightarrow> u8 list \<Rightarrow> u8 list" where
  "swap_bytes order bs = (if order = BYTE_ORDER_BIG then rev bs else bs)"

lemma swap_bytes_simps [simp]:
  "length (swap_bytes order bs) = length bs" "swap_bytes order (swap_bytes order bs) = bs"
  by (simp_all add: swap_bytes_def)

lemma byteSwap_bytes [byte_simps]:
  "le_bytes 2 (byteSwap16 b s) = swap_bytes (byteOrder b) (le_bytes 2 s)"
  "le_bytes 4 (byteSwap32 b i) = swap_bytes (byteOrder b) (le_bytes 4 i)"
  "le_bytes 8 (byteSwap64 b l) = swap_bytes (byteOrder b) (le_bytes 8 l)"
  by (simp_all add: byteSwap16_def byteSwap32_def byteSwap64_def swap_bytes_def byte_simps
      LE16_def LE32_def LE64_def)

lemma byteSwap_decode [byte_simps]:
  "length bs = 2 \<Longrightarrow> byteSwap16 b (of_le_bytes bs) = of_le_bytes (swap_bytes (byteOrder b) bs)"
  "length cs = 4 \<Longrightarrow> byteSwap32 b (of_le_bytes cs) = of_le_bytes (swap_bytes (byteOrder b) cs)"
  "length ds = 8 \<Longrightarrow> byteSwap64 b (of_le_bytes ds) = of_le_bytes (swap_bytes (byteOrder b) ds)"
  using le_bytes_of_le_bytes [of bs, where 'a = 16] le_bytes_of_le_bytes [of cs, where 'a = 32]
    le_bytes_of_le_bytes [of ds, where 'a = 64]
  by (simp_all add: byteSwap16_def byteSwap32_def byteSwap64_def swap_bytes_def LE16_def LE32_def
      LE64_def BE16_def BE32_def BE64_def BSWAP16_def BSWAP32_def BSWAP64_def)

interpretation f16: field_codec 2 "\<lambda>order v. swap_bytes order (le_bytes 2 v)"
  "\<lambda>order bs. of_le_bytes (swap_bytes order bs)" BbPut16 BbGet16 0
  by unfold_locales
    (auto simp: BbPut16_def BbGet16_def bb_wf_def bb_room_def byte_simps mem_read_def mem_write_def
      take_bit_word_eq_self)

interpretation f32: field_codec 4 "\<lambda>order v. swap_bytes order (le_bytes 4 v)"
  "\<lambda>order bs. of_le_bytes (swap_bytes order bs)" BbPut32 BbGet32 0
  by unfold_locales
    (auto simp: BbPut32_def BbGet32_def bb_wf_def bb_room_def byte_simps mem_read_def mem_write_def
      take_bit_word_eq_self)

interpretation f64: field_codec 8 "\<lambda>order v. swap_bytes order (le_bytes 8 v)"
  "\<lambda>order bs. of_le_bytes (swap_bytes order bs)" BbPut64 BbGet64 0
  by unfold_locales
    (auto simp: BbPut64_def BbGet64_def bb_wf_def bb_room_def byte_simps mem_read_def mem_write_def
      take_bit_word_eq_self)

lemma bb_short_iff:
  assumes "bb_wf b" "n < 2 ^ 31"
  shows "bb_length b < position b + of_nat n \<longleftrightarrow> bb_room b < n"
proof -
  have p: "unat (position b) \<le> unat (bb_length b)" "unat (bb_length b) < 2 ^ 31"
    using assms(1) by (simp_all add: bb_wf_def)
  have "unat (position b + of_nat n) = unat (position b) + n"
    using p assms(2) by (intro unat_plus_small) simp
  with p show ?thesis by (auto simp: word_less_nat_alt bb_room_def)
qed

lemma sint_of_nat_small: "n < 2 ^ 31 \<Longrightarrow> sint (of_nat n :: i32) = int n"
  using sint_small_unat [of "of_nat n"] by (simp add: unat_of_nat)

lemma BbGetBytes_wf:
  assumes "bb_wf b" "n < 2 ^ 31"
  shows "BbGetBytes b (of_nat n) =
    (if bb_room b < n then Some (False, replicate n 0, b)
     else map_option (\<lambda>bs. (True, bs, b\<lparr>position := position b + of_nat n\<rparr>))
       (mem_read (buffer b) (unat (position b)) n))"
  using assms
  by (auto simp: BbGetBytes_def bb_short_iff sint_of_nat_small unat_of_nat split: option.splits)

lemma BbPutBytes_wf:
  assumes "bb_wf b" "length bs < 2 ^ 31"
  shows "BbPutBytes b bs (of_nat (length bs)) =
    (if bb_room b < length bs then Some (False, b)
     else map_option (\<lambda>m. (True, b\<lparr>buffer := m, position := position b + of_nat (length bs)\<rparr>))
       (mem_write (buffer b) (unat (position b)) bs))"
  using assms
  by (auto simp: BbPutBytes_def bb_short_iff sint_of_nat_small unat_of_nat split: option.splits)

interpretation f8: field_codec 1 "\<lambda>order v. [v]" "\<lambda>order bs. of_le_bytes bs" BbPut8 BbGet8 0
proof
  fix b :: byte_buffer and v :: u8
  assume wf: "bb_wf b"
  show "1 \<le> bb_room b \<Longrightarrow> BbPut8 b v = map_option (\<lambda>m. (True, b\<lparr>buffer := m,
      position := position b + of_nat 1\<rparr>)) (mem_write (buffer b) (unat (position b)) [v])"
    and "bb_room b < 1 \<Longrightarrow> BbPut8 b v = Some (False, b)"
    using BbPutBytes_wf [OF wf, of "[v]"] by (auto simp: BbPut8_def)
  show "1 \<le> bb_room b \<Longrightarrow> BbGet8 b = map_option (\<lambda>bs. (True, of_le_bytes bs,
      b\<lparr>position := position b + of_nat 1\<rparr>)) (mem_read (buffer b) (unat (position b)) 1)"
    and "bb_room b < 1 \<Longrightarrow> BbGet8 b = Some (False, 0, b)"
    using BbGetBytes_wf [OF wf, of 1] by (auto simp: BbGet8_def split: option.splits)
qed simp_all

lemma BbAdvanceBuffer_spec:
  assumes "bb_wf b"
  shows "BbAdvanceBuffer b off =
    (let z = int (unat (position b)) + sint off
     in if 0 \<le> z \<and> z \<le> int (unat (bb_length b))
        then (True, b\<lparr>position := of_nat (nat z)\<rparr>) else (False, b))"
proof -
  define z where "z = uint (position b) + sint off"
  have len: "uint (bb_length b) < 2147483648" "uint (position b) \<le> uint (bb_length b)"
    using assms unat_uint_less [of "bb_length b" "2147483648"]
      unat_uint_le [of "position b" "bb_length b"]
    by (simp_all add: bb_wf_def)
  have off: "- (2147483648) \<le> sint off" "sint off < 2147483648"
    using sint_ge [of off] sint_lt [of off] by simp_all
  have "0 \<le> uint (position b)" by simp
  with off len have z: "- (2147483648) \<le> z" "z < 4294967296" unfolding z_def by linarith+
  have "uint (position b + off) = (uint (position b) + uint off) mod 4294967296"
    by (simp add: uint_word_ariths)
  moreover have "uint off = sint off mod 4294967296"
    unfolding uint_sint [of off] by (simp add: take_bit_eq_mod)
  ultimately have sum: "uint (position b + off) = z mod 4294967296"
    unfolding z_def by (simp only: mod_add_right_eq)
  show ?thesis
  proof (cases "0 \<le> z")
    case True
    then have u: "uint (position b + off) = z"
      using z sum by (simp only: mod_pos_pos_trivial)
    have "position b + off = of_int (uint (position b + off))" by (simp only: word_of_int_uint)
    also have "\<dots> = of_int (int (nat z))" using True u by simp
    finally have "position b + off = of_nat (nat z)" by (simp only: of_int_of_nat_eq)
    moreover have "bb_length b < position b + off \<longleftrightarrow> \<not> z \<le> uint (bb_length b)"
      using u by (auto simp: word_less_def)
    ultimately show ?thesis
      using True unfolding BbAdvanceBuffer_def Let_def z_def by simp
  next
    case False
    have "z mod 4294967296 = (z + 4294967296) mod 4294967296" by simp
    also have "\<dots> = z + 4294967296" using False z by (intro mod_pos_pos_trivial) linarith+
    finally have "uint (position b + off) = z + 4294967296" using sum by simp
    then have "bb_length b < position b + off" using len z by (simp add: word_less_def)
    then show ?thesis using False unfolding BbAdvanceBuffer_def Let_def z_def by simp
  qed
qed

section \<open>Histories of operations\<close>

datatype bb_op = Advance i32 | Rewind | GetBytes nat | Get8 | Get16 | Get32 | Get64
  | PutBytes "u8 list" | Put8 u8 | Put16 u16 | Put32 u32 | Put64 u64

fun bb_op_ok :: "bb_op \<Rightarrow> bool" where
  "bb_op_ok (GetBytes n) = (n < 2 ^ 31)"
| "bb_op_ok (PutBytes bs) = (length bs < 2 ^ 31)"
| "bb_op_ok _ = True"

fun bb_exec :: "byte_buffer \<Rightarrow> bb_op \<Rightarrow> byte_buffer option" where
  "bb_exec b (Advance off) = Some (snd (BbAdvanceBuffer b off))"
| "bb_exec b Rewind = Some (BbRewindBuffer b)"
| "bb_exec b (GetBytes n) = map_option (\<lambda>(_, _, b'). b') (BbGetBytes b (of_nat n))"
| "bb_exec b Get8 = map_option (\<lambda>(_, _, b'). b') (BbGet8 b)"
| "bb_exec b Get16 = map_option (\<lambda>(_, _, b'). b') (BbGet16 b)"
| "bb_exec b Get32 = map_option (\<lambda>(_, _, b'). b') (BbGet32 b)"
| "bb_exec b Get64 = map_option (\<lambda>(_, _, b'). b') (BbGet64 b)"
| "bb_exec b (PutBytes bs) = map_option snd (BbPutBytes b bs (of_nat (length bs)))"
| "bb_exec b (Put8 v) = map_option snd (BbPut8 b v)"
| "bb_exec b (Put16 v) = map_option snd (BbPut16 b v)"
| "bb_exec b (Put32 v) = map_option snd (BbPut32 b v)"
| "bb_exec b (Put64 v) = map_option snd (BbPut64 b v)"

fun bb_run :: "byte_buffer \<Rightarrow> bb_op list \<Rightarrow> byte_buffer option" where
  "bb_run b [] = Some b"
| "bb_run b (x # xs) = Option.bind (bb_exec b x) (\<lambda>b'. bb_run b' xs)"

lemma bb_exec_wf:
  assumes wf: "bb_wf b" and ok: "bb_op_ok x"
  shows "\<exists>b'. bb_exec b x = Some b' \<and> bb_wf b' \<and> bb_same_window b b'"
proof (cases x)
  case (Advance off)
  show ?thesis
  proof (cases "fst (BbAdvanceBuffer b off)")
    case True
    then have "bb_wf (snd (BbAdvanceBuffer b off))" "bb_same_window b (snd (BbAdvanceBuffer b off))"
      using wf by (auto simp: BbAdvanceBuffer_def bb_wf_def word_le_nat_alt not_less)
    then show ?thesis by (simp add: Advance)
  next
    case False
    with wf show ?thesis by (auto simp: Advance BbAdvanceBuffer_def split: if_splits)
  qed
next
  case Rewind
  with wf show ?thesis by (auto simp: BbRewindBuffer_def bb_wf_def)
next
  case (GetBytes n)
  have "n \<le> bb_room b \<Longrightarrow> unat (position b) + n \<le> length (buffer b)"
    using wf unfolding bb_wf_def bb_room_def by arith
  with wf ok show ?thesis
    by (auto simp: GetBytes BbGetBytes_wf mem_read_def not_less intro: bb_step_wf)
next
  case (PutBytes bs)
  show ?thesis
  proof (cases "bb_room b < length bs")
    case True
    with wf ok show ?thesis by (simp add: PutBytes BbPutBytes_wf)
  next
    case False
    then have "unat (position b) + length bs \<le> length (buffer b)"
      using wf unfolding bb_wf_def bb_room_def by arith
    then obtain m where m: "mem_write (buffer b) (unat (position b)) bs = Some m"
      by (simp add: mem_write_def)
    with False wf ok show ?thesis
      using mem_write_length [OF m]
      by (auto simp: PutBytes BbPutBytes_wf not_less intro!: bb_step_wf bb_same_window_write)
  qed
next
  case Get8 then show ?thesis using f8.get_total [OF wf] by (metis bb_exec.simps(4) option.simps(9) old.prod.case)
next
  case Get16 then show ?thesis using f16.get_total [OF wf] by (metis bb_exec.simps(5) option.simps(9) old.prod.case)
next
  case Get32 then show ?thesis using f32.get_total [OF wf] by (metis bb_exec.simps(6) option.simps(9) old.prod.case)
next
  case Get64 then show ?thesis using f64.get_total [OF wf] by (metis bb_exec.simps(7) option.simps(9) old.prod.case)
next
  case (Put8 v) then show ?thesis using f8.put_total [OF wf, of v] by (metis bb_exec.simps(9) option.simps(9) snd_conv)
next
  case (Put16 v) then show ?thesis using f16.put_total [OF wf, of v] by (metis bb_exec.simps(10) option.simps(9) snd_conv)
next
  case (Put32 v) then show ?thesis using f32.put_total [OF wf, of v] by (metis bb_exec.simps(11) option.simps(9) snd_conv)
next
  case (Put64 v) then show ?thesis using f64.put_total [OF wf, of v] by (metis bb_exec.simps(12) option.simps(9) snd_conv)
qed

lemma bb_run_wf:
  "bb_wf b \<Longrightarrow> list_all bb_op_ok xs \<Longrightarrow>
    \<exists>b'. bb_run b xs = Some b' \<and> bb_wf b' \<and> bb_same_window b b'"
proof (induction xs arbitrary: b)
  case Nil
  then show ?case by simp
next
  case (Cons x xs)
  then obtain c where c: "bb_exec b x = Some c" "bb_wf c" "bb_same_window b c"
    using bb_exec_wf [of b x] by auto
  with Cons obtain b' where "bb_run c xs = Some b'" "bb_wf b'" "bb_same_window c b'"
    by (metis list.pred_inject(2))
  with c show ?case by (auto intro: bb_same_window_trans)
qed

text \<open>
  Memory safety of the cursor: wrap any part of a block (a non-negative offset
  and length inside the block) and run any sequence of advances (also negative ones),
  rewinds, reads and writes.  No operation touches memory outside the declared window, the
  cursor stays in it, and the bytes behind the window keep their values.
\<close>

theorem bb_history_safe:
  assumes "0 \<le> sint off" "0 \<le> sint len" "sint off + sint len \<le> int (length data)"
    and "list_all bb_op_ok ops"
  shows "\<exists>b b'. BbInitializeWrappedBuffer data off len order = Some b
    \<and> bb_run b ops = Some b' \<and> bb_wf b' \<and> bb_same_window b b'"
  using BbInitializeWrappedBuffer_wf [OF assms(1-3), of order] bb_run_wf [OF _ assms(4)] by blast

theorem bb_history_safe_witness:
  "\<exists>b b'. BbInitializeWrappedBuffer [1, 2, 3, 4, 5, 6] 1 4 BYTE_ORDER_BIG = Some b
    \<and> bb_run b [Get16, Advance (- 1), Put32 7, Put16 9, Rewind] = Some b'
    \<and> bb_wf b' \<and> bb_same_window b b'"
  by (rule bb_history_safe) simp_all

section \<open>Records of fields\<close>

datatype bb_value = V8 u8 | V16 u16 | V32 u32 | V64 u64 | VBytes "u8 list"
datatype bb_shape = S8 | S16 | S32 | S64 | SBytes nat

fun bb_shape_of :: "bb_value \<Rightarrow> bb_shape" where
  "bb_shape_of (V8 _) = S8" | "bb_shape_of (V16 _) = S16" | "bb_shape_of (V32 _) = S32"
| "bb_shape_of (V64 _) = S64" | "bb_shape_of (VBytes bs) = SBytes (length bs)"

fun bb_encode :: "u32 \<Rightarrow> bb_value \<Rightarrow> u8 list" where
  "bb_encode order (V8 v) = [v]"
| "bb_encode order (V16 v) = swap_bytes order (le_bytes 2 v)"
| "bb_encode order (V32 v) = swap_bytes order (le_bytes 4 v)"
| "bb_encode order (V64 v) = swap_bytes order (le_bytes 8 v)"
| "bb_encode order (VBytes bs) = bs"

definition bb_size :: "bb_value \<Rightarrow> nat" where
  "bb_size v = length (bb_encode 0 v)"

fun bb_put_value :: "byte_buffer \<Rightarrow> bb_value \<Rightarrow> (bool \<times> byte_buffer) option" where
  "bb_put_value b (V8 v) = BbPut8 b v"
| "bb_put_value b (V16 v) = BbPut16 b v"
| "bb_put_value b (V32 v) = BbPut32 b v"
| "bb_put_value b (V64 v) = BbPut64 b v"
| "bb_put_value b (VBytes bs) = BbPutBytes b bs (of_nat (length bs))"

fun bb_get_value :: "byte_buffer \<Rightarrow> bb_shape \<Rightarrow> (bool \<times> bb_value \<times> byte_buffer) option" where
  "bb_get_value b S8 = map_option (\<lambda>(ok, v, b'). (ok, V8 v, b')) (BbGet8 b)"
| "bb_get_value b S16 = map_option (\<lambda>(ok, v, b'). (ok, V16 v, b')) (BbGet16 b)"
| "bb_get_value b S32 = map_option (\<lambda>(ok, v, b'). (ok, V32 v, b')) (BbGet32 b)"
| "bb_get_value b S64 = map_option (\<lambda>(ok, v, b'). (ok, V64 v, b')) (BbGet64 b)"
| "bb_get_value b (SBytes n) = map_option (\<lambda>(ok, v, b'). (ok, VBytes v, b')) (BbGetBytes b (of_nat n))"

text \<open>Writing and reading a record: the first field that does not fit ends it.\<close>

fun bb_put_all :: "byte_buffer \<Rightarrow> bb_value list \<Rightarrow> byte_buffer option" where
  "bb_put_all b [] = Some b"
| "bb_put_all b (v # vs) =
     (case bb_put_value b v of Some (True, b') \<Rightarrow> bb_put_all b' vs | _ \<Rightarrow> None)"

fun bb_get_all :: "byte_buffer \<Rightarrow> bb_shape list \<Rightarrow> (bb_value list \<times> byte_buffer) option" where
  "bb_get_all b [] = Some ([], b)"
| "bb_get_all b (s # ss) =
     (case bb_get_value b s of
        Some (True, v, b') \<Rightarrow> map_option (\<lambda>(vs, b''). (v # vs, b'')) (bb_get_all b' ss)
      | _ \<Rightarrow> None)"

lemma length_bb_encode [simp]: "length (bb_encode order v) = bb_size v"
  by (cases v) (simp_all add: bb_size_def)

lemma bb_size_cases [simp]:
  "bb_size (V8 a) = 1" "bb_size (V16 b) = 2" "bb_size (V32 c) = 4" "bb_size (V64 d) = 8"
  "bb_size (VBytes bs) = length bs"
  by (simp_all add: bb_size_def)

lemma bb_room_small: "bb_wf b \<Longrightarrow> n \<le> bb_room b \<Longrightarrow> n < 2 ^ 31"
  unfolding bb_wf_def bb_room_def by linarith

lemma bb_put_value_ok:
  assumes "bb_wf b" "bb_size v \<le> bb_room b"
  shows "bb_put_value b v = map_option
    (\<lambda>m. (True, b\<lparr>buffer := m, position := position b + of_nat (bb_size v)\<rparr>))
    (mem_write (buffer b) (unat (position b)) (bb_encode (byteOrder b) v))"
  using assms bb_room_small [OF assms]
  by (cases v) (simp_all add: f8.put_ok f16.put_ok f32.put_ok f64.put_ok BbPutBytes_wf not_less)

lemma bb_get_value_ok:
  assumes "bb_wf b" "bb_size v \<le> bb_room b"
    and "mem_read (buffer b) (unat (position b)) (bb_size v) = Some (bb_encode (byteOrder b) v)"
  shows "bb_get_value b (bb_shape_of v) =
    Some (True, v, b\<lparr>position := position b + of_nat (bb_size v)\<rparr>)"
  using assms bb_room_small [OF assms(1,2)]
  by (cases v) (simp_all add: f8.get_ok f16.get_ok f32.get_ok f64.get_ok BbGetBytes_wf not_less
      f16.dec_enc f32.dec_enc f64.dec_enc f8.dec_enc)

lemma bb_put_value_step:
  assumes "bb_wf b" "bb_size v \<le> bb_room b"
  obtains m where "mem_write (buffer b) (unat (position b)) (bb_encode (byteOrder b) v) = Some m"
    and "bb_put_value b v = Some (True, b\<lparr>buffer := m, position := position b + of_nat (bb_size v)\<rparr>)"
    and "bb_wf (b\<lparr>buffer := m, position := position b + of_nat (bb_size v)\<rparr>)"
    and "unat (position b + of_nat (bb_size v)) = unat (position b) + bb_size v"
proof -
  have "unat (position b) + bb_size v \<le> length (buffer b)"
    using assms unfolding bb_wf_def bb_room_def by linarith
  then obtain m where m: "mem_write (buffer b) (unat (position b)) (bb_encode (byteOrder b) v) = Some m"
    by (simp add: mem_write_def)
  with assms that mem_write_length [OF m] show ?thesis
    by (simp add: bb_put_value_ok bb_step_wf)
qed

lemma mem_read_take: "i + n \<le> k \<Longrightarrow> k \<le> length m \<Longrightarrow> mem_read m i n = mem_read (take k m) i n"
  by (simp add: mem_read_def min_def drop_take)

lemma bb_put_all_frame:
  "bb_wf b \<Longrightarrow> sum_list (map bb_size vs) \<le> bb_room b \<Longrightarrow> \<exists>b'. bb_put_all b vs = Some b' \<and> bb_wf b'
     \<and> unat (position b') = unat (position b) + sum_list (map bb_size vs)
     \<and> bb_length b' = bb_length b \<and> byteOrder b' = byteOrder b \<and> length (buffer b') = length (buffer b)
     \<and> take (unat (position b)) (buffer b') = take (unat (position b)) (buffer b)"
proof (induction vs arbitrary: b)
  case Nil
  then show ?case by simp
next
  case (Cons v vs)
  then have room: "bb_size v \<le> bb_room b" by simp
  obtain m where m: "mem_write (buffer b) (unat (position b)) (bb_encode (byteOrder b) v) = Some m"
    and put: "bb_put_value b v = Some (True, b\<lparr>buffer := m, position := position b + of_nat (bb_size v)\<rparr>)"
    and wf: "bb_wf (b\<lparr>buffer := m, position := position b + of_nat (bb_size v)\<rparr>)" (is "bb_wf ?c")
    and pos: "unat (position b + of_nat (bb_size v)) = unat (position b) + bb_size v"
    by (rule bb_put_value_step [OF Cons.prems(1) room])
  have "sum_list (map bb_size vs) \<le> bb_room ?c"
    using Cons.prems(2) by (simp add: bb_room_def pos)
  from Cons.IH [OF wf this] obtain b' where b': "bb_put_all ?c vs = Some b'" "bb_wf b'"
    "unat (position b') = unat (position ?c) + sum_list (map bb_size vs)"
    "bb_length b' = bb_length b" "byteOrder b' = byteOrder b" "length (buffer b') = length m"
    "take (unat (position ?c)) (buffer b') = take (unat (position ?c)) m"
    by auto
  have "take (unat (position b)) (buffer b') = take (unat (position b)) (buffer b)"
    using arg_cong [OF b'(7), of "take (unat (position b))"] mem_write_take [OF m] pos
    by (simp add: min_def)
  with b' put pos show ?case by (simp add: mem_write_length [OF m])
qed

lemma bb_roundtrip_general:
  "bb_wf b \<Longrightarrow> sum_list (map bb_size vs) \<le> bb_room b \<Longrightarrow>
    \<exists>b'. bb_put_all b vs = Some b' \<and>
      bb_get_all (b'\<lparr>position := position b\<rparr>) (map bb_shape_of vs) = Some (vs, b')"
proof (induction vs arbitrary: b)
  case Nil
  then show ?case by simp
next
  case (Cons v vs)
  then have room: "bb_size v \<le> bb_room b" by simp
  obtain m where m: "mem_write (buffer b) (unat (position b)) (bb_encode (byteOrder b) v) = Some m"
    and put: "bb_put_value b v = Some (True, b\<lparr>buffer := m, position := position b + of_nat (bb_size v)\<rparr>)"
    and wf: "bb_wf (b\<lparr>buffer := m, position := position b + of_nat (bb_size v)\<rparr>)" (is "bb_wf ?c")
    and pos: "unat (position b + of_nat (bb_size v)) = unat (position b) + bb_size v"
    by (rule bb_put_value_step [OF Cons.prems(1) room])
  have rest: "sum_list (map bb_size vs) \<le> bb_room ?c"
    using Cons.prems(2) by (simp add: bb_room_def pos)
  obtain b' where b': "bb_put_all ?c vs = Some b'"
    and get: "bb_get_all (b'\<lparr>position := position ?c\<rparr>) (map bb_shape_of vs) = Some (vs, b')"
    using Cons.IH [OF wf rest] by auto
  have fr: "bb_wf b'" "bb_length b' = bb_length b" "byteOrder b' = byteOrder b"
    "length (buffer b') = length m" "take (unat (position ?c)) (buffer b') = take (unat (position ?c)) m"
    using bb_put_all_frame [OF wf rest] b' by auto
  let ?d = "b'\<lparr>position := position b\<rparr>"
  have d: "bb_wf ?d" "bb_size v \<le> bb_room ?d"
    using Cons.prems(1) room fr mem_write_length [OF m] by (simp_all add: bb_wf_def bb_room_def)
  have inm: "unat (position b) + bb_size v \<le> length m"
    using Cons.prems(1) room mem_write_length [OF m] unfolding bb_wf_def bb_room_def by linarith
  let ?k = "unat (position b) + bb_size v"
  have eq: "take ?k (buffer b') = take ?k m" using fr(5) pos by simp
  have "mem_read (buffer b') (unat (position b)) (bb_size v)
      = mem_read (take ?k (buffer b')) (unat (position b)) (bb_size v)"
    using inm fr(4) by (intro mem_read_take) simp_all
  also have "\<dots> = mem_read m (unat (position b)) (bb_size v)"
    unfolding eq using inm by (intro mem_read_take [symmetric]) simp_all
  also have "\<dots> = Some (bb_encode (byteOrder b) v)"
    using mem_read_write_same [OF m] by simp
  finally have "bb_get_value ?d (bb_shape_of v) =
      Some (True, v, ?d\<lparr>position := position b + of_nat (bb_size v)\<rparr>)"
    using bb_get_value_ok [OF d] fr(3) by simp
  then show ?case using put b' get by simp
qed

text \<open>
  Property C36. Round trip of whole records: if the fields fit into the window, writing them
  one after the other succeeds, and reading the same sequence of field types back from the
  start returns exactly the values written, in either byte order, with the cursor where the
  writer left it.
\<close>

theorem bb_record_roundtrip:
  assumes "bb_wf b" "sum_list (map bb_size vs) \<le> bb_room b"
  shows "\<exists>b'. bb_put_all b vs = Some b' \<and>
    bb_get_all (b'\<lparr>position := position b\<rparr>) (map bb_shape_of vs) = Some (vs, b')"
  using assms by (rule bb_roundtrip_general)

theorem bb_record_roundtrip_witness:
  "let b = \<lparr>buffer = replicate 16 0, bb_length = 16, position = 0, byteOrder = BYTE_ORDER_BIG\<rparr>;
       vs = [V16 513, V8 7, V64 1311768467463790320, VBytes [1, 2, 3]]
   in bb_wf b \<and> (\<exists>b'. bb_put_all b vs = Some b' \<and>
        bb_get_all (b'\<lparr>position := position b\<rparr>) (map bb_shape_of vs) = Some (vs, b'))"
proof -
  let ?b = "\<lparr>buffer = replicate 16 0, bb_length = 16, position = 0, byteOrder = BYTE_ORDER_BIG\<rparr>"
  have "bb_wf ?b" by (simp add: bb_wf_def)
  then show ?thesis
    using bb_record_roundtrip [of ?b "[V16 513, V8 7, V64 1311768467463790320, VBytes [1, 2, 3]]"]
    by (simp add: bb_room_def Let_def)
qed

end
