(* ===== verification/LinkedBlockingQueue.thy ===== *)
theory LinkedBlockingQueue
  imports Prelude
begin

text \<open>
  LinkedBlockingQueue.c: the bounded producer/consumer queue between the receive threads
  and their consumers.  Entries are supplied by the caller and doubly linked through
  \<open>flink\<close> and \<open>blink\<close>, so the model has an explicit heap of entries; a queue operation is
  the critical section under the queue's mutex and returns \<open>None\<close> where the C would
  dereference an invalid pointer or fail an \<open>LC_ASSERT\<close>.  The first half refines the
  linked structure to a plain list with four flags; the second half is the condition
  variable protocol between the producers and a waiting consumer.
\<close>

section \<open>State and operations\<close>

type_synonym ptr = "nat option" \<comment> \<open>\<open>None\<close> is \<open>NULL\<close>\<close>

record 'a lbq_entry =
  flink :: ptr
  blink :: ptr
  data :: 'a

type_synonym 'a lbq_heap = "nat \<rightharpoonup> 'a lbq_entry"

record lbq =
  head :: ptr
  tail :: ptr
  sizeBound :: i32
  currentSize :: i32
  lifetimeSize :: i32
  shutdown :: bool
  draining :: bool
  pendingUserWake :: bool

datatype lbq_status = LBQ_SUCCESS | LBQ_INTERRUPTED | LBQ_BOUND_EXCEEDED | LBQ_NO_ELEMENT
  | LBQ_USER_WAKE

text \<open>The two platform calls may fail; their error codes are the arguments.\<close>

definition LbqInitializeLinkedBlockingQueue :: "i32 \<Rightarrow> i32 \<Rightarrow> i32 \<Rightarrow> i32 \<times> lbq" where
  "LbqInitializeLinkedBlockingQueue mutexErr condErr bound =
     (let q = \<lparr>head = None, tail = None, sizeBound = 0, currentSize = 0, lifetimeSize = 0,
               shutdown = False, draining = False, pendingUserWake = False\<rparr>
      in if mutexErr \<noteq> 0 then (mutexErr, q)
         else if condErr \<noteq> 0 then (condErr, q)
         else (0, q\<lparr>sizeBound := bound\<rparr>))"

definition LbqDestroyLinkedBlockingQueue :: "lbq \<Rightarrow> ptr option" where
  "LbqDestroyLinkedBlockingQueue q = do {
     _ \<leftarrow> LC_ASSERT (shutdown q \<or> draining q \<or> lifetimeSize q = 0);
     Some (head q)
   }"

definition LbqFlushQueueItems :: "lbq \<Rightarrow> (ptr \<times> lbq) option" where
  "LbqFlushQueueItems q =
     (if head q \<noteq> None then Some (head q, q\<lparr>head := None, tail := None, currentSize := 0\<rparr>)
      else do {
        _ \<leftarrow> LC_ASSERT (tail q = None);
        _ \<leftarrow> LC_ASSERT (currentSize q = 0);
        Some (head q, q)
      })"

text \<open>The signal operations set a flag under the mutex and then signal the condition variable.\<close>

definition LbqSignalQueueShutdown :: "lbq \<Rightarrow> lbq" where
  "LbqSignalQueueShutdown q = q\<lparr>shutdown := True\<rparr>"

definition LbqSignalQueueDrain :: "lbq \<Rightarrow> lbq" where
  "LbqSignalQueueDrain q = q\<lparr>draining := True\<rparr>"

definition LbqSignalQueueUserWake :: "lbq \<Rightarrow> lbq" where
  "LbqSignalQueueUserWake q = q\<lparr>pendingUserWake := True\<rparr>"

definition LbqGetItemCount :: "lbq \<Rightarrow> i32" where
  "LbqGetItemCount q = currentSize q"

text \<open>
  \<open>LbqOfferQueueItem\<close>: the boolean of the result says whether the condition variable is
  signalled after the mutex is released (only on the transition from empty to non-empty).
\<close>

definition LbqOfferQueueItem ::
  "lbq \<Rightarrow> 'a lbq_heap \<Rightarrow> 'a \<Rightarrow> nat \<Rightarrow> (lbq_status \<times> bool \<times> lbq \<times> 'a lbq_heap) option" where
  "LbqOfferQueueItem q h d a = do {
     e \<leftarrow> h a;
     let e = e\<lparr>flink := None, data := d\<rparr>;
     let h = h(a \<mapsto> e);
     if shutdown q \<or> draining q then Some (LBQ_INTERRUPTED, False, q, h)
     else if currentSize q = sizeBound q then Some (LBQ_BOUND_EXCEEDED, False, q, h)
     else do {
       let wasEmpty = (head q = None);
       (q, h) \<leftarrow>
         (if wasEmpty then do {
            _ \<leftarrow> LC_ASSERT (currentSize q = 0);
            _ \<leftarrow> LC_ASSERT (tail q = None);
            Some (q\<lparr>head := Some a, tail := Some a\<rparr>, h(a \<mapsto> e\<lparr>blink := None\<rparr>))
          }
          else do {
            _ \<leftarrow> LC_ASSERT (1 \<le> sint (currentSize q));
            t \<leftarrow> tail q;
            te \<leftarrow> h t;
            let h = h(t \<mapsto> te\<lparr>flink := Some a\<rparr>);
            e \<leftarrow> h a;
            Some (q\<lparr>tail := Some a\<rparr>, h(a \<mapsto> e\<lparr>blink := Some t\<rparr>))
          });
       Some (LBQ_SUCCESS, wasEmpty,
         q\<lparr>currentSize := currentSize q + 1, lifetimeSize := lifetimeSize q + 1\<rparr>, h)
     }
   }"

text \<open>The unlinking of the head entry, common to polling and waiting.\<close>

definition lbq_take_head :: "lbq \<Rightarrow> 'a lbq_heap \<Rightarrow> ('a \<times> lbq \<times> 'a lbq_heap) option" where
  "lbq_take_head q h = do {
     a \<leftarrow> head q;
     e \<leftarrow> h a;
     let q = q\<lparr>head := flink e, currentSize := currentSize q - 1\<rparr>;
     case flink e of
       None \<Rightarrow> do {
         _ \<leftarrow> LC_ASSERT (currentSize q = 0);
         Some (data e, q\<lparr>tail := None\<rparr>, h)
       }
     | Some b \<Rightarrow> do {
         _ \<leftarrow> LC_ASSERT (currentSize q \<noteq> 0);
         be \<leftarrow> h b;
         Some (data e, q, h(b \<mapsto> be\<lparr>blink := None\<rparr>))
       }
   }"

definition LbqPeekQueueElement :: "lbq \<Rightarrow> 'a lbq_heap \<Rightarrow> (lbq_status \<times> 'a option) option" where
  "LbqPeekQueueElement q h =
     (if shutdown q then Some (LBQ_INTERRUPTED, None)
      else case head q of
        None \<Rightarrow> Some (if draining q then LBQ_INTERRUPTED else LBQ_NO_ELEMENT, None)
      | Some a \<Rightarrow> do { e \<leftarrow> h a; Some (LBQ_SUCCESS, Some (data e)) })"

definition LbqPollQueueElement ::
  "lbq \<Rightarrow> 'a lbq_heap \<Rightarrow> (lbq_status \<times> 'a option \<times> lbq \<times> 'a lbq_heap) option" where
  "LbqPollQueueElement q h =
     (if shutdown q then Some (LBQ_INTERRUPTED, None, q, h)
      else if head q = None then
        Some (if draining q then LBQ_INTERRUPTED else LBQ_NO_ELEMENT, None, q, h)
      else do { (d, q, h) \<leftarrow> lbq_take_head q h; Some (LBQ_SUCCESS, Some d, q, h) })"

text \<open>
  One evaluation, under the mutex, of the waiting loop and what follows it: either the
  thread goes to sleep on the condition variable (which releases the mutex), or it leaves
  the loop and returns.
\<close>

datatype 'r waiting = Sleep | Return 'r

definition lbq_must_wait :: "lbq \<Rightarrow> bool" where
  "lbq_must_wait q \<longleftrightarrow> head q = None \<and> \<not> draining q \<and> \<not> shutdown q \<and> \<not> pendingUserWake q"

definition LbqWaitForQueueElement ::
  "lbq \<Rightarrow> 'a lbq_heap \<Rightarrow> (lbq_status \<times> 'a option \<times> lbq \<times> 'a lbq_heap) waiting option" where
  "LbqWaitForQueueElement q h =
     (if lbq_must_wait q then Some Sleep
      else if shutdown q then Some (Return (LBQ_INTERRUPTED, None, q, h))
      else if pendingUserWake q then
        Some (Return (LBQ_USER_WAKE, None, q\<lparr>pendingUserWake := False\<rparr>, h))
      else if draining q \<and> head q = None then Some (Return (LBQ_INTERRUPTED, None, q, h))
      else do {
        _ \<leftarrow> LC_ASSERT (head q \<noteq> None);
        (d, q, h) \<leftarrow> lbq_take_head q h;
        Some (Return (LBQ_SUCCESS, Some d, q, h))
      })"

section \<open>The linked structure represents a list\<close>

text \<open>\<open>dchain h prev p xs\<close>: from \<open>p\<close>, the heap links the entries of \<open>xs\<close>, both ways.\<close>

fun dchain :: "'a lbq_heap \<Rightarrow> ptr \<Rightarrow> ptr \<Rightarrow> (nat \<times> 'a) list \<Rightarrow> bool" where
  "dchain h prev p [] = (p = None)"
| "dchain h prev p (x # xs) =
     (p = Some (fst x) \<and>
      (case h (fst x) of None \<Rightarrow> False
       | Some e \<Rightarrow> blink e = prev \<and> data e = snd x \<and> dchain h (Some (fst x)) (flink e) xs))"

definition last_ptr :: "(nat \<times> 'a) list \<Rightarrow> ptr" where
  "last_ptr xs = (if xs = [] then None else Some (fst (last xs)))"

definition lbq_rep :: "lbq \<Rightarrow> 'a lbq_heap \<Rightarrow> (nat \<times> 'a) list \<Rightarrow> bool" where
  "lbq_rep q h xs \<longleftrightarrow> dchain h None (head q) xs \<and> tail q = last_ptr xs \<and> distinct (map fst xs)
     \<and> unat (currentSize q) = length xs \<and> length xs \<le> unat (sizeBound q)
     \<and> unat (sizeBound q) < 2 ^ 31"

lemma dchain_frame:
  "dchain h prev p xs \<Longrightarrow> a \<notin> fst ` set xs \<Longrightarrow> dchain (h(a \<mapsto> e)) prev p xs"
  by (induction h prev p xs rule: dchain.induct) (auto split: option.splits)

lemma dchain_set_blink:
  assumes "dchain h prev p (x # xs)" "x \<notin> set xs" "h (fst x) = Some e" "fst x \<notin> fst ` set xs"
  shows "dchain (h(fst x \<mapsto> e\<lparr>blink := prev'\<rparr>)) prev' p (x # xs)"
  using assms by (auto simp: dchain_frame split: option.splits)

lemma dchain_alloc: "dchain h prev p xs \<Longrightarrow> x \<in> set xs \<Longrightarrow> \<exists>e. h (fst x) = Some e \<and> data e = snd x"
  by (induction h prev p xs rule: dchain.induct) (auto split: option.splits)

lemma dchain_append_entry:
  assumes "dchain h prev p xs" "xs \<noteq> []" "distinct (map fst xs)" "a \<notin> fst ` set xs"
    and "h (fst (last xs)) = Some te" "flink ea = None" "blink ea = Some (fst (last xs))"
  shows "dchain (h(fst (last xs) \<mapsto> te\<lparr>flink := Some a\<rparr>, a \<mapsto> ea)) prev p (xs @ [(a, data ea)])"
  using assms
proof (induction xs arbitrary: prev p)
  case Nil
  then show ?case by simp
next
  case (Cons x xs)
  then obtain e where e: "h (fst x) = Some e" "blink e = prev" "data e = snd x"
    "dchain h (Some (fst x)) (flink e) xs" "p = Some (fst x)"
    by (auto split: option.splits)
  show ?case
  proof (cases "xs = []")
    case True
    with Cons.prems e show ?thesis by auto
  next
    case False
    then have "last xs \<in> set xs" by simp
    then have ne: "fst x \<noteq> fst (last xs)" "fst x \<noteq> a"
      using Cons.prems(3,4) False by (auto simp: rev_image_eqI)
    have prem: "distinct (map fst xs)" "a \<notin> fst ` set xs" "h (fst (last xs)) = Some te"
      "flink ea = None" "blink ea = Some (fst (last xs))"
      using Cons.prems False by simp_all
    have "dchain (h(fst (last xs) \<mapsto> te\<lparr>flink := Some a\<rparr>, a \<mapsto> ea)) (Some (fst x)) (flink e) (xs @ [(a, data ea)])"
      by (rule Cons.IH [OF e(4) False prem])
    with e ne False show ?thesis by (simp del: fun_upd_apply add: fun_upd_other)
  qed
qed

lemma lbq_rep_empty_iff: "lbq_rep q h xs \<Longrightarrow> head q = None \<longleftrightarrow> xs = []"
  by (cases xs) (auto simp: lbq_rep_def)

lemma lbq_rep_count:
  assumes "lbq_rep q h xs"
  shows "currentSize q = 0 \<longleftrightarrow> xs = []" "currentSize q = sizeBound q \<longleftrightarrow> length xs = unat (sizeBound q)"
    "sint (currentSize q) = int (length xs)"
proof -
  have l: "unat (currentSize q) = length xs" "length xs < 2 ^ 31"
    using assms by (auto simp: lbq_rep_def)
  show "currentSize q = 0 \<longleftrightarrow> xs = []" using l by (simp add: unat_eq_zero [symmetric])
  show "currentSize q = sizeBound q \<longleftrightarrow> length xs = unat (sizeBound q)"
    using l by (metis word_unat_eq_iff)
  show "sint (currentSize q) = int (length xs)" 
    using sint_small_unat [of "currentSize q"] l by (simp only:)
qed

section \<open>Every operation implements its list counterpart\<close>

definition fresh_entry :: "'a lbq_heap \<Rightarrow> nat \<Rightarrow> (nat \<times> 'a) list \<Rightarrow> bool" where
  "fresh_entry h a xs \<longleftrightarrow> h a \<noteq> None \<and> a \<notin> fst ` set xs"

definition offer_status :: "lbq \<Rightarrow> (nat \<times> 'a) list \<Rightarrow> lbq_status" where
  "offer_status q xs = (if shutdown q \<or> draining q then LBQ_INTERRUPTED
     else if length xs = unat (sizeBound q) then LBQ_BOUND_EXCEEDED else LBQ_SUCCESS)"

lemma dchain_cong: "(\<forall>x \<in> fst ` set xs. h x = h' x) \<Longrightarrow> dchain h prev p xs = dchain h' prev p xs"
  by (induction h prev p xs rule: dchain.induct) (auto split: option.splits)

lemma unat_inc_small: "unat (c :: i32) < 2 ^ 31 \<Longrightarrow> unat (c + 1) = unat c + 1"
  using unat_plus_small [of c 1] by simp

lemma unat_dec_pos: "0 < unat (c :: i32) \<Longrightarrow> unat (c - 1) = unat c - 1"
  by (metis unat_eq_zero unat_minus_one less_irrefl)

lemma LbqOffer_rep:
  assumes r: "lbq_rep q h xs" and f: "fresh_entry h a xs"
  obtains q' h' where
    "LbqOfferQueueItem q h d a
       = Some (offer_status q xs, offer_status q xs = LBQ_SUCCESS \<and> xs = [], q', h')"
    "lbq_rep q' h' (if offer_status q xs = LBQ_SUCCESS then xs @ [(a, d)] else xs)"
    "shutdown q' = shutdown q" "draining q' = draining q" "pendingUserWake q' = pendingUserWake q"
    "sizeBound q' = sizeBound q" "dom h' = dom h"
proof -
  obtain e where e: "h a = Some e" and na: "a \<notin> fst ` set xs" using f by (auto simp: fresh_entry_def)
  let ?e = "e\<lparr>flink := None, data := d\<rparr>"
  let ?h = "h(a \<mapsto> ?e)"
  have dc: "dchain ?h None (head q) xs" using r na by (simp add: lbq_rep_def dchain_frame)
  have cs: "unat (currentSize q) = length xs" "length xs \<le> unat (sizeBound q)" "unat (sizeBound q) < 2 ^ 31"
    "tail q = last_ptr xs" "distinct (map fst xs)" using r by (simp_all add: lbq_rep_def)
  have rep0: "lbq_rep q ?h xs" using dc cs by (simp add: lbq_rep_def)
  have full: "currentSize q = sizeBound q \<longleftrightarrow> length xs = unat (sizeBound q)"
    by (rule lbq_rep_count(2) [OF r])
  let ?G = "\<lambda>q' h'. LbqOfferQueueItem q h d a
       = Some (offer_status q xs, offer_status q xs = LBQ_SUCCESS \<and> xs = [], q', h') \<and>
    lbq_rep q' h' (if offer_status q xs = LBQ_SUCCESS then xs @ [(a, d)] else xs) \<and>
    shutdown q' = shutdown q \<and> draining q' = draining q \<and> pendingUserWake q' = pendingUserWake q \<and>
    sizeBound q' = sizeBound q \<and> dom h' = dom h"
  consider (closed) "shutdown q \<or> draining q"
    | (full) "\<not> (shutdown q \<or> draining q)" "length xs = unat (sizeBound q)"
    | (empty) "\<not> (shutdown q \<or> draining q)" "length xs \<noteq> unat (sizeBound q)" "xs = []"
    | (more) "\<not> (shutdown q \<or> draining q)" "length xs \<noteq> unat (sizeBound q)" "xs \<noteq> []"
    by blast
  then have "\<exists>q' h'. ?G q' h'"
  proof cases
    case closed
    then have "?G q ?h" using rep0 e by (auto simp: LbqOfferQueueItem_def offer_status_def)
    then show ?thesis by blast
  next
    case full
    then have "?G q ?h" using rep0 e \<open>currentSize q = sizeBound q \<longleftrightarrow> _\<close>
      by (auto simp: LbqOfferQueueItem_def offer_status_def)
    then show ?thesis by blast
  next
    case empty
    let ?q' = "q\<lparr>head := Some a, tail := Some a, currentSize := currentSize q + 1, lifetimeSize := lifetimeSize q + 1\<rparr>"
    have "currentSize q = 0" "head q = None" "tail q = None"
      using r empty(3) by (simp_all add: lbq_rep_def last_ptr_def unat_eq_zero)
    moreover have "0 < unat (sizeBound q)" using empty(2,3) by (metis gr0I list.size(3))
    ultimately have "?G ?q' (?h(a \<mapsto> ?e\<lparr>blink := None\<rparr>))"
      using e empty full cs(3)
      by (auto simp: LbqOfferQueueItem_def offer_status_def lbq_rep_def last_ptr_def)
    then show ?thesis by blast
  next
    case more
    let ?q' = "q\<lparr>tail := Some a, currentSize := currentSize q + 1, lifetimeSize := lifetimeSize q + 1\<rparr>"
    have t: "tail q = Some (fst (last xs))" using cs(4) more by (simp add: last_ptr_def)
    have hd: "head q \<noteq> None" using lbq_rep_empty_iff [OF r] more by simp
    obtain te where te: "h (fst (last xs)) = Some te"
      using dchain_alloc [of h None "head q" xs "last xs"] r more by (auto simp: lbq_rep_def)
    have ne: "a \<noteq> fst (last xs)" using na more by force
    have one: "1 \<le> sint (currentSize q)"
      using lbq_rep_count(3) [OF r] more by (simp add: Suc_leI)
    let ?h' = "?h(fst (last xs) \<mapsto> te\<lparr>flink := Some a\<rparr>, a \<mapsto> ?e\<lparr>blink := Some (fst (last xs))\<rparr>)"
    have te': "?h (fst (last xs)) = Some te" using te ne by simp
    have "dchain ?h' None (head q) (xs @ [(a, data (?e\<lparr>blink := Some (fst (last xs))\<rparr>))])"
      by (rule dchain_append_entry [OF dc more(3) cs(5) na te']) simp_all
    then have ch: "dchain ?h' None (head q) (xs @ [(a, d)])" by simp
    have run: "LbqOfferQueueItem q h d a = Some (LBQ_SUCCESS, False, ?q', ?h')"
      using e te ne t hd one more full by (auto simp: LbqOfferQueueItem_def Let_def fun_upd_twist)
    have lt: "length xs < unat (sizeBound q)" using cs(2) more(2) by simp
    then have "unat (currentSize q + 1) = length xs + 1"
      using unat_inc_small [of "currentSize q"] cs(1,3) by simp
    then have "lbq_rep ?q' ?h' (xs @ [(a, d)])"
      using ch cs(3,5) lt na unfolding lbq_rep_def by (auto simp: last_ptr_def)
    then have "?G ?q' ?h'" using run more te e by (auto simp: offer_status_def)
    then show ?thesis by blast
  qed
  then show ?thesis using that by blast
qed

lemma lbq_take_head_rep:
  assumes r: "lbq_rep q h ((a, d) # xs)"
  obtains q' h' where "lbq_take_head q h = Some (d, q', h')" "lbq_rep q' h' xs"
    "shutdown q' = shutdown q" "draining q' = draining q" "pendingUserWake q' = pendingUserWake q"
    "sizeBound q' = sizeBound q" "dom h' = dom h"
proof -
  obtain e where e: "head q = Some a" "h a = Some e" "data e = d" "dchain h (Some a) (flink e) xs"
    using r by (auto simp: lbq_rep_def split: option.splits)
  have cs: "unat (currentSize q) = length xs + 1" "length xs + 1 \<le> unat (sizeBound q)"
    "unat (sizeBound q) < 2 ^ 31" "tail q = last_ptr ((a, d) # xs)" "distinct (map fst xs)" "a \<notin> fst ` set xs"
    using r by (simp_all add: lbq_rep_def)
  have c': "unat (currentSize q - 1) = length xs" using unat_dec_pos [of "currentSize q"] cs(1) by simp
  show ?thesis
  proof (cases xs)
    case Nil
    then have "currentSize q - 1 = 0" using c' by (simp add: unat_eq_zero)
    with Nil e cs c' that [of "q\<lparr>head := None, currentSize := currentSize q - 1, tail := None\<rparr>" h]
    show ?thesis by (auto simp: lbq_take_head_def lbq_rep_def last_ptr_def)
  next
    case (Cons y ys)
    obtain be where be: "h (fst y) = Some be" "flink e = Some (fst y)" "dchain h (Some (fst y)) (flink be) ys" "data be = snd y"
      using e(4) Cons by (auto split: option.splits)
    have nz: "currentSize q - 1 \<noteq> 0" using c' Cons by auto
    have "dchain (h(fst y \<mapsto> be\<lparr>blink := None\<rparr>)) (Some (fst y)) (flink be) ys"
      using be(3) cs(5) Cons by (intro dchain_frame) auto
    then have ch: "dchain (h(fst y \<mapsto> be\<lparr>blink := None\<rparr>)) None (Some (fst y)) xs"
      using be Cons by simp
    let ?q' = "q\<lparr>head := Some (fst y), currentSize := currentSize q - 1\<rparr>"
    have "lbq_take_head q h = Some (d, ?q', h(fst y \<mapsto> be\<lparr>blink := None\<rparr>))"
      using e be nz by (simp add: lbq_take_head_def)
    moreover have "lbq_rep ?q' (h(fst y \<mapsto> be\<lparr>blink := None\<rparr>)) xs"
      using ch cs c' Cons unfolding lbq_rep_def by (auto simp: last_ptr_def)
    ultimately show ?thesis using that be(1) by auto
  qed
qed

section \<open>Histories\<close>

text \<open>
  Any sequence of queue operations by the threads that share a queue.  An offered entry is a
  newly allocated block with arbitrary contents, as the callers allocate them; the count in
  the state is the next free address.  A flush walks the chain it gets back.
\<close>

datatype 'a lbq_op = Offer 'a "'a lbq_entry" | Poll | Wait | Peek | Flush | Shutdown | Drain | UserWake

datatype 'a lbq_out = Status lbq_status "'a option" | Flushed "'a list" | Blocked | Signalled

type_synonym 'a lbq_state = "lbq \<times> 'a lbq_heap \<times> nat"

fun chain_data :: "nat \<Rightarrow> 'a lbq_heap \<Rightarrow> ptr \<Rightarrow> 'a list option" where
  "chain_data n h None = Some []"
| "chain_data 0 h (Some a) = None"
| "chain_data (Suc n) h (Some a) =
     do { e \<leftarrow> h a; ds \<leftarrow> chain_data n h (flink e); Some (data e # ds) }"

fun lbq_step :: "'a lbq_op \<Rightarrow> 'a lbq_state \<Rightarrow> ('a lbq_out \<times> 'a lbq_state) option" where
  "lbq_step (Offer d junk) (q, h, n) = do {
     (st, _, q, h) \<leftarrow> LbqOfferQueueItem q (h(n \<mapsto> junk)) d n;
     Some (Status st None, q, h, n + 1) }"
| "lbq_step Poll (q, h, n) = do {
     (st, d, q, h) \<leftarrow> LbqPollQueueElement q h; Some (Status st d, q, h, n) }"
| "lbq_step Wait (q, h, n) = do {
     w \<leftarrow> LbqWaitForQueueElement q h;
     (case w of Sleep \<Rightarrow> Some (Blocked, q, h, n)
      | Return (st, d, q, h) \<Rightarrow> Some (Status st d, q, h, n)) }"
| "lbq_step Peek (q, h, n) = do {
     (st, d) \<leftarrow> LbqPeekQueueElement q h; Some (Status st d, q, h, n) }"
| "lbq_step Flush (q, h, n) = do {
     let size = unat (LbqGetItemCount q);
     (p, q) \<leftarrow> LbqFlushQueueItems q;
     ds \<leftarrow> chain_data size h p;
     Some (Flushed ds, q, h, n) }"
| "lbq_step Shutdown (q, h, n) = Some (Signalled, LbqSignalQueueShutdown q, h, n)"
| "lbq_step Drain (q, h, n) = Some (Signalled, LbqSignalQueueDrain q, h, n)"
| "lbq_step UserWake (q, h, n) = Some (Signalled, LbqSignalQueueUserWake q, h, n)"

text \<open>The specification: a bounded FIFO list with three flags.\<close>

record 'a bqueue =
  contents :: "'a list"
  capacity :: nat
  closed :: bool
  ending :: bool
  wake :: bool

definition bq_get :: "lbq_status \<Rightarrow> 'a bqueue \<Rightarrow> 'a lbq_out \<times> 'a bqueue" where
  "bq_get otherwise_status b = (case contents b of
       [] \<Rightarrow> (Status (if ending b then LBQ_INTERRUPTED else otherwise_status) None, b)
     | d # ds \<Rightarrow> (Status LBQ_SUCCESS (Some d), b\<lparr>contents := ds\<rparr>))"

fun bq_step :: "'a lbq_op \<Rightarrow> 'a bqueue \<Rightarrow> 'a lbq_out \<times> 'a bqueue" where
  "bq_step (Offer d _) b =
     (if closed b \<or> ending b then (Status LBQ_INTERRUPTED None, b)
      else if length (contents b) = capacity b then (Status LBQ_BOUND_EXCEEDED None, b)
      else (Status LBQ_SUCCESS None, b\<lparr>contents := contents b @ [d]\<rparr>))"
| "bq_step Poll b = (if closed b then (Status LBQ_INTERRUPTED None, b) else bq_get LBQ_NO_ELEMENT b)"
| "bq_step Peek b =
     (if closed b then (Status LBQ_INTERRUPTED None, b) else (fst (bq_get LBQ_NO_ELEMENT b), b))"
| "bq_step Wait b =
     (if closed b then (Status LBQ_INTERRUPTED None, b)
      else if wake b then (Status LBQ_USER_WAKE None, b\<lparr>wake := False\<rparr>)
      else if contents b = [] \<and> \<not> ending b then (Blocked, b)
      else bq_get LBQ_NO_ELEMENT b)"
| "bq_step Flush b = (Flushed (contents b), b\<lparr>contents := []\<rparr>)"
| "bq_step Shutdown b = (Signalled, b\<lparr>closed := True\<rparr>)"
| "bq_step Drain b = (Signalled, b\<lparr>ending := True\<rparr>)"
| "bq_step UserWake b = (Signalled, b\<lparr>wake := True\<rparr>)"

fun implements :: "'a lbq_state \<Rightarrow> 'a bqueue \<Rightarrow> (nat \<times> 'a) list \<Rightarrow> bool" where
  "implements (q, h, n) b xs \<longleftrightarrow> lbq_rep q h xs \<and> map snd xs = contents b \<and> (\<forall>a \<in> fst ` set xs. a < n)
     \<and> capacity b = unat (sizeBound q) \<and> closed b = shutdown q \<and> ending b = draining q
     \<and> wake b = pendingUserWake q"

lemma lbq_rep_frame: "lbq_rep q h xs \<Longrightarrow> a \<notin> fst ` set xs \<Longrightarrow> lbq_rep q (h(a \<mapsto> e)) xs"
  by (simp add: lbq_rep_def dchain_frame)

lemma chain_data_dchain: "dchain h prev p xs \<Longrightarrow> chain_data (length xs) h p = Some (map snd xs)"
proof (induction xs arbitrary: prev p)
  case Nil
  then show ?case by simp
next
  case (Cons x xs)
  then show ?case by (auto split: option.splits)
qed

lemma take_head_implements:
  assumes "implements (q, h, n) b xs" "contents b = d # ds"
  obtains q' h' where "lbq_take_head q h = Some (d, q', h')"
    "implements (q', h', n) (b\<lparr>contents := ds\<rparr>) (tl xs)"
proof -
  obtain a where xs: "xs = (a, d) # tl xs" using assms by (cases xs) auto
  then have r: "lbq_rep q h ((a, d) # tl xs)" using assms(1) by simp
  have below: "\<forall>a \<in> fst ` set (tl xs). a < n" and ds: "map snd (tl xs) = ds"
    using assms xs by (metis implements.simps image_insert insertCI list.simps(15)) (use assms xs in \<open>cases xs, auto\<close>)
  show ?thesis
    by (rule lbq_take_head_rep [OF r]) (use assms(1) below ds in \<open>auto intro: that\<close>)
qed

definition simulates :: "'a lbq_op \<Rightarrow> 'a lbq_state \<Rightarrow> 'a bqueue \<Rightarrow> bool" where
  "simulates op s b \<longleftrightarrow> (\<exists>s' xs'. lbq_step op s = Some (fst (bq_step op b), s')
     \<and> implements s' (snd (bq_step op b)) xs')"

lemma simulatesI [intro?]:
  "lbq_step op s = Some (r, s') \<Longrightarrow> bq_step op b = (r, b') \<Longrightarrow> implements s' b' xs' \<Longrightarrow> simulates op s b"
  by (auto simp: simulates_def)

lemma simulates_offer:
  assumes i: "implements (q, h, n) b xs"
  shows "simulates (Offer d junk) (q, h, n) b"
proof -
  have na: "n \<notin> fst ` set xs" using i by auto
  have r: "lbq_rep q (h(n \<mapsto> junk)) xs" using i na by (simp add: lbq_rep_frame)
  have f: "fresh_entry (h(n \<mapsto> junk)) n xs" using na by (simp add: fresh_entry_def)
  have len: "length xs = length (contents b)" using i by (metis implements.simps length_map)
  show ?thesis
  proof (rule LbqOffer_rep [OF r f, of d])
    fix q' h'
    assume run: "LbqOfferQueueItem q (h(n \<mapsto> junk)) d n
         = Some (offer_status q xs, offer_status q xs = LBQ_SUCCESS \<and> xs = [], q', h')"
      and rep: "lbq_rep q' h' (if offer_status q xs = LBQ_SUCCESS then xs @ [(n, d)] else xs)"
      and flags: "shutdown q' = shutdown q" "draining q' = draining q" "pendingUserWake q' = pendingUserWake q"
        "sizeBound q' = sizeBound q"
    show ?thesis
    proof (rule simulatesI)
      show "lbq_step (Offer d junk) (q, h, n) = Some (Status (offer_status q xs) None, q', h', n + 1)"
        using run by simp
      show "bq_step (Offer d junk) b = (Status (offer_status q xs) None,
          if offer_status q xs = LBQ_SUCCESS then b\<lparr>contents := contents b @ [d]\<rparr> else b)"
        using i len by (simp add: offer_status_def)
      show "implements (q', h', n + 1)
          (if offer_status q xs = LBQ_SUCCESS then b\<lparr>contents := contents b @ [d]\<rparr> else b)
          (if offer_status q xs = LBQ_SUCCESS then xs @ [(n, d)] else xs)"
        using rep flags i by (auto simp: less_Suc_eq)
    qed
  qed
qed

lemma implements_head: "implements (q, h, n) b xs \<Longrightarrow> head q = None \<longleftrightarrow> contents b = []"
  using lbq_rep_empty_iff [of q h xs] by auto

lemma simulates_poll:
  assumes i: "implements (q, h, n) b xs"
  shows "simulates Poll (q, h, n) b"
proof (cases "contents b")
  case Nil
  then have "head q = None" using implements_head [OF i] by simp
  then show ?thesis using i Nil unfolding simulates_def
    by (intro exI [of _ "(q, h, n)"] exI [of _ xs]) (clarsimp simp: LbqPollQueueElement_def bq_get_def)
next
  case (Cons d ds)
  then have hd: "head q \<noteq> None" using implements_head [OF i] by simp
  obtain q' h' where t: "lbq_take_head q h = Some (d, q', h')"
    "implements (q', h', n) (b\<lparr>contents := ds\<rparr>) (tl xs)"
    by (rule take_head_implements [OF i Cons])
  show ?thesis
  proof (cases "shutdown q")
    case True
    then show ?thesis using i
      by (intro simulatesI [where s' = "(q, h, n)" and b' = b and xs' = xs]) (simp_all add: LbqPollQueueElement_def)
  next
    case False
    then show ?thesis using i Cons hd t
      by (intro simulatesI [where s' = "(q', h', n)" and b' = "b\<lparr>contents := ds\<rparr>" and xs' = "tl xs"])
         (simp_all add: LbqPollQueueElement_def bq_get_def)
  qed
qed

lemma simulates_wait:
  assumes i: "implements (q, h, n) b xs"
  shows "simulates Wait (q, h, n) b"
proof -
  have hd: "head q = None \<longleftrightarrow> contents b = []" by (rule implements_head [OF i])
  consider "shutdown q" | "\<not> shutdown q" "pendingUserWake q"
    | "\<not> shutdown q" "\<not> pendingUserWake q" "contents b = []"
    | d ds where "\<not> shutdown q" "\<not> pendingUserWake q" "contents b = d # ds"
    by (cases "contents b") auto
  then show ?thesis
  proof cases
    case 1
    then show ?thesis using i
      by (intro simulatesI [where s' = "(q, h, n)" and b' = b and xs' = xs])
         (simp_all add: LbqWaitForQueueElement_def lbq_must_wait_def)
  next
    case 2
    then show ?thesis using i
      by (intro simulatesI [where s' = "(q\<lparr>pendingUserWake := False\<rparr>, h, n)" and b' = "b\<lparr>wake := False\<rparr>" and xs' = xs])
         (simp_all add: LbqWaitForQueueElement_def lbq_must_wait_def lbq_rep_def)
  next
    case 3
    then show ?thesis using i hd unfolding simulates_def
      by (intro exI [of _ "(q, h, n)"] exI [of _ xs])
         (clarsimp simp: LbqWaitForQueueElement_def lbq_must_wait_def bq_get_def)
  next
    case 4
    obtain q' h' where t: "lbq_take_head q h = Some (d, q', h')"
      "implements (q', h', n) (b\<lparr>contents := ds\<rparr>) (tl xs)"
      by (rule take_head_implements [OF i 4(3)])
    have "head q \<noteq> None" using hd 4 by simp
    then show ?thesis using i 4 t
      by (intro simulatesI [where s' = "(q', h', n)" and b' = "b\<lparr>contents := ds\<rparr>" and xs' = "tl xs"])
         (simp_all add: LbqWaitForQueueElement_def lbq_must_wait_def bq_get_def)
  qed
qed

lemma simulates_peek:
  assumes i: "implements (q, h, n) b xs"
  shows "simulates Peek (q, h, n) b"
proof -
  have "head q = (case xs of [] \<Rightarrow> None | x # _ \<Rightarrow> Some (fst x))"
    using i by (cases xs) (auto simp: lbq_rep_def)
  moreover have "\<exists>e. xs \<noteq> [] \<longrightarrow> h (fst (List.hd xs)) = Some e \<and> data e = snd (List.hd xs)"
    using i dchain_alloc [of h None "head q" xs "List.hd xs"] by (auto simp: lbq_rep_def)
  moreover have "contents b = map snd xs" using i by simp
  ultimately show ?thesis using i unfolding simulates_def
    by (intro exI [of _ "(q, h, n)"] exI [of _ xs])
       (auto simp: LbqPeekQueueElement_def bq_get_def split: list.splits)
qed

lemma simulates_flush:
  assumes i: "implements (q, h, n) b xs"
  shows "simulates Flush (q, h, n) b"
proof -
  have r: "lbq_rep q h xs" and "contents b = map snd xs" using i by simp_all
  then have "chain_data (unat (currentSize q)) h (head q) = Some (contents b)"
    using chain_data_dchain [of h None "head q" xs] by (simp add: lbq_rep_def)
  moreover have "head q = None \<Longrightarrow> tail q = None \<and> currentSize q = 0"
    using r lbq_rep_empty_iff [OF r] lbq_rep_count(1) [OF r] by (auto simp: lbq_rep_def last_ptr_def)
  moreover have "lbq_rep (q\<lparr>head := None, tail := None, currentSize := 0\<rparr>) h []"
    using r by (simp add: lbq_rep_def last_ptr_def)
  moreover have "head q = None \<Longrightarrow> lbq_rep q h []" using r lbq_rep_empty_iff [OF r] by simp
  ultimately show ?thesis using i
    by (cases "head q = None";
        intro simulatesI [where s' = "(if head q = None then q else q\<lparr>head := None, tail := None, currentSize := 0\<rparr>, h, n)"
          and b' = "b\<lparr>contents := []\<rparr>" and xs' = "[]"])
       (auto simp: LbqFlushQueueItems_def LbqGetItemCount_def)
qed

lemma simulates_all:
  assumes i: "implements s b xs"
  shows "simulates op s b"
proof (cases s)
  case (fields q h n)
  with i have i': "implements (q, h, n) b xs" by simp
  have sig: "simulates Shutdown (q, h, n) b" "simulates Drain (q, h, n) b" "simulates UserWake (q, h, n) b"
    using i' by (auto intro!: simulatesI [where xs' = xs]
      simp: LbqSignalQueueShutdown_def LbqSignalQueueDrain_def LbqSignalQueueUserWake_def lbq_rep_def)
  show ?thesis unfolding fields
    by (cases op) (simp_all only: sig simulates_offer [OF i'] simulates_poll [OF i'] simulates_wait [OF i']
        simulates_peek [OF i'] simulates_flush [OF i'])
qed

fun lbq_run :: "'a lbq_op list \<Rightarrow> 'a lbq_state \<Rightarrow> ('a lbq_out list \<times> 'a lbq_state) option" where
  "lbq_run [] s = Some ([], s)"
| "lbq_run (op # ops) s =
     do { (r, s) \<leftarrow> lbq_step op s; (rs, s) \<leftarrow> lbq_run ops s; Some (r # rs, s) }"

fun bq_run :: "'a lbq_op list \<Rightarrow> 'a bqueue \<Rightarrow> 'a lbq_out list \<times> 'a bqueue" where
  "bq_run [] b = ([], b)"
| "bq_run (op # ops) b =
     (let (r, b) = bq_step op b; (rs, b) = bq_run ops b in (r # rs, b))"

lemma lbq_run_implements:
  assumes "implements s b xs"
  shows "\<exists>s' xs'. lbq_run ops s = Some (fst (bq_run ops b), s') \<and> implements s' (snd (bq_run ops b)) xs'"
  using assms
proof (induction ops arbitrary: s b xs)
  case Nil
  then show ?case by auto
next
  case (Cons op ops)
  obtain s' xs' where 1: "lbq_step op s = Some (fst (bq_step op b), s')" "implements s' (snd (bq_step op b)) xs'"
    using simulates_all [OF Cons.prems, of op] unfolding simulates_def by blast
  from Cons.IH [OF 1(2)] 1(1) show ?case
    by (auto simp del: implements.simps simp: Let_def split: prod.splits)
qed

definition lbq_start :: "i32 \<Rightarrow> 'a lbq_state" where
  "lbq_start bound = (snd (LbqInitializeLinkedBlockingQueue 0 0 bound), \<lambda>_. None, 0)"

definition bq_start :: "nat \<Rightarrow> 'a bqueue" where
  "bq_start cap = \<lparr>contents = [], capacity = cap, closed = False, ending = False, wake = False\<rparr>"

lemma implements_start:
  "unat bound < 2 ^ 31 \<Longrightarrow> implements (lbq_start bound) (bq_start (unat bound)) []"
  by (simp add: lbq_start_def bq_start_def LbqInitializeLinkedBlockingQueue_def Let_def lbq_rep_def last_ptr_def)

text \<open>
  Property C9.  The doubly linked, pointer-manipulating queue is a bounded FIFO list: for any
  sequence of offers, polls, waits, peeks, flushes, shutdowns, drains and user wakes on a
  newly initialised queue, every status code and every data item the C returns is the one the
  list specification returns, no assertion fails, and no invalid entry is dereferenced.
\<close>

theorem lbq_refines_bounded_fifo:
  assumes "unat bound < 2 ^ 31"
  shows "map_option fst (lbq_run ops (lbq_start bound)) = Some (fst (bq_run ops (bq_start (unat bound))))"
  using lbq_run_implements [OF implements_start [OF assms], of ops] by auto

theorem lbq_refines_bounded_fifo_witness:
  "map_option fst (lbq_run [Offer (7 :: nat) \<lparr>flink = Some 3, blink = Some 9, data = 0\<rparr>, Poll, Poll, Drain, Wait] (lbq_start 2))
     = Some [Status LBQ_SUCCESS None, Status LBQ_SUCCESS (Some 7), Status LBQ_NO_ELEMENT None, Signalled, Status LBQ_INTERRUPTED None]"
  by (subst lbq_refines_bounded_fifo) (simp_all add: bq_start_def bq_get_def)

section \<open>First in, first out\<close>

text \<open>
  The contract of a component that takes items in and hands items out: what it holds, what an
  operation adds, what it hands out.  No item is lost, duplicated or reordered.
\<close>

locale fifo_component =
  fixes step :: "'op \<Rightarrow> 's \<Rightarrow> 'r \<times> 's"
    and held :: "'s \<Rightarrow> 'x list"
    and given :: "'op \<Rightarrow> 'r \<Rightarrow> 'x list"
    and taken :: "'op \<Rightarrow> 'r \<Rightarrow> 'x list"
  assumes conserve: "step op s = (r, s') \<Longrightarrow> held s @ given op r = taken op r @ held s'"
begin

fun run :: "'op list \<Rightarrow> 's \<Rightarrow> 'r list \<times> 's" where
  "run [] s = ([], s)"
| "run (op # ops) s = (let (r, s) = step op s; (rs, s) = run ops s in (r # rs, s))"

lemma conserve_run:
  "held s @ concat (map2 given ops (fst (run ops s))) = concat (map2 taken ops (fst (run ops s))) @ held (snd (run ops s))"
proof (induction ops arbitrary: s)
  case Nil
  show ?case by simp
next
  case (Cons op ops)
  obtain r s' where st: "step op s = (r, s')" by fastforce
  obtain rs s'' where rs: "run ops s' = (rs, s'')" by fastforce
  have "held s @ given op r @ concat (map2 given ops rs)
      = taken op r @ held s' @ concat (map2 given ops rs)"
    using conserve [OF st] by (metis append.assoc)
  also have "\<dots> = taken op r @ concat (map2 taken ops rs) @ held s''"
    using Cons.IH [of s'] rs by simp
  finally show ?case using st rs by simp
qed

lemma taken_prefix:
  "\<exists>rest. held s @ concat (map2 given ops (fst (run ops s))) = concat (map2 taken ops (fst (run ops s))) @ rest"
  using conserve_run by blast

end

fun accepted_by :: "'a lbq_op \<Rightarrow> 'a lbq_out \<Rightarrow> 'a list" where
  "accepted_by (Offer d _) (Status LBQ_SUCCESS _) = [d]"
| "accepted_by _ _ = []"

fun delivered_by :: "'a lbq_op \<Rightarrow> 'a lbq_out \<Rightarrow> 'a list" where
  "delivered_by Poll (Status _ (Some d)) = [d]"
| "delivered_by Wait (Status _ (Some d)) = [d]"
| "delivered_by Flush (Flushed ds) = ds"
| "delivered_by _ _ = []"

interpretation lbq_fifo: fifo_component bq_step contents accepted_by delivered_by
proof
  fix op :: "'a lbq_op" and s r s'
  assume "bq_step op s = (r, s')"
  then show "contents s @ accepted_by op r = delivered_by op r @ contents s'"
    by (cases op) (auto simp: bq_get_def split: if_splits list.splits)
qed

lemma bq_run_eq: "bq_run ops b = lbq_fifo.run ops b"
  by (induction ops arbitrary: b) (simp_all split: prod.splits)

text \<open>
  Through any history of the C queue, the items whose offers succeeded are, in
  order, the items handed out so far (by poll, wait and flush) followed by the items still
  linked in the queue: nothing is lost, duplicated or reordered, and the stored count is
  exactly the number of items that remain.
\<close>

theorem lbq_history_fifo:
  assumes "unat bound < 2 ^ 31"
  shows "\<exists>outs q h n rest. lbq_run ops (lbq_start bound) = Some (outs, q, h, n)
     \<and> concat (map2 accepted_by ops outs) = concat (map2 delivered_by ops outs) @ rest
     \<and> chain_data (length rest) h (head q) = Some rest \<and> unat (LbqGetItemCount q) = length rest
     \<and> length rest \<le> unat bound"
proof -
  let ?b = "bq_start (unat bound)"
  obtain q h n xs where run: "lbq_run ops (lbq_start bound) = Some (fst (bq_run ops ?b), q, h, n)"
    and i: "implements (q, h, n) (snd (bq_run ops ?b)) xs"
    using lbq_run_implements [OF implements_start [OF assms], of ops] by (metis prod_cases3)
  have cap: "capacity (snd (bq_run ops b)) = capacity b" for b :: "'a bqueue"
  proof (induction ops arbitrary: b)
    case (Cons op ops)
    have "capacity (snd (bq_step op b)) = capacity b"
      by (cases op) (auto simp: bq_get_def split: list.splits)
    with Cons [of "snd (bq_step op b)"] show ?case by (auto simp: Let_def split: prod.splits)
  qed simp
  let ?rest = "contents (snd (bq_run ops ?b))"
  have "concat (map2 accepted_by ops (fst (bq_run ops ?b)))
      = concat (map2 delivered_by ops (fst (bq_run ops ?b))) @ ?rest"
    using lbq_fifo.conserve_run [of ?b ops] by (simp add: bq_run_eq bq_start_def)
  moreover have "chain_data (length xs) h (head q) = Some (map snd xs)"
    using i chain_data_dchain [of h None "head q" xs] by (simp add: lbq_rep_def)
  then have "chain_data (length ?rest) h (head q) = Some ?rest" using i by (metis implements.simps length_map)
  moreover have "unat (currentSize q) = length ?rest" "length ?rest \<le> unat bound"
    using i cap [of ?b] unfolding implements.simps lbq_rep_def
    by (metis length_map, metis bq_start_def bqueue.select_convs(2) length_map)
  ultimately show ?thesis using run by (auto simp: LbqGetItemCount_def)
qed

theorem lbq_history_fifo_witness:
  "\<exists>outs q h n rest. lbq_run [Offer (5 :: nat) \<lparr>flink = None, blink = None, data = 0\<rparr>, Poll] (lbq_start 3) = Some (outs, q, h, n)
     \<and> concat (map2 accepted_by [Offer 5 \<lparr>flink = None, blink = None, data = 0\<rparr>, Poll] outs)
         = concat (map2 delivered_by [Offer 5 \<lparr>flink = None, blink = None, data = 0\<rparr>, Poll] outs) @ rest
     \<and> chain_data (length rest) h (head q) = Some rest \<and> unat (LbqGetItemCount q) = length rest
     \<and> length rest \<le> unat (3 :: i32)"
  by (rule lbq_history_fifo) simp

section \<open>The condition variable protocol\<close>

text \<open>
  One consumer in \<open>LbqWaitForQueueElement\<close> and any number of other threads.  A thread that
  signals does so after it has released the mutex, so between its critical section and its
  signal any other step can happen; \<open>signals\<close> counts the threads in that window.  A signal
  with no sleeping waiter is lost, and a waiter may wake up spuriously.  The consumer's
  evaluation of the waiting condition and its falling asleep are one step, which is what the
  condition variable's release of the mutex provides.
\<close>

datatype consumer = Running | Sleeping

record 'a protocol =
  shared :: "'a lbq_state"
  signals :: nat
  waiter :: consumer

fun must_signal :: "'a lbq_op \<Rightarrow> lbq \<Rightarrow> 'a lbq_heap \<Rightarrow> nat \<Rightarrow> bool" where
  "must_signal (Offer d junk) q h n = (case LbqOfferQueueItem q (h(n \<mapsto> junk)) d n of
     Some (_, sig, _, _) \<Rightarrow> sig | None \<Rightarrow> False)"
| "must_signal Shutdown q h n = True"
| "must_signal Drain q h n = True"
| "must_signal UserWake q h n = True"
| "must_signal _ q h n = False"

inductive protocol_step :: "'a protocol \<Rightarrow> 'a protocol \<Rightarrow> bool" where
  other_thread: "op \<noteq> Wait \<Longrightarrow> lbq_step op (q, h, n) = Some (r, s') \<Longrightarrow> shared p = (q, h, n) \<Longrightarrow>
     protocol_step p (p\<lparr>shared := s', signals := signals p + (if must_signal op q h n then 1 else 0)\<rparr>)"
| signal: "0 < signals p \<Longrightarrow> protocol_step p (p\<lparr>signals := signals p - 1, waiter := Running\<rparr>)"
| spurious_wakeup: "waiter p = Sleeping \<Longrightarrow> protocol_step p (p\<lparr>waiter := Running\<rparr>)"
| sleep: "waiter p = Running \<Longrightarrow> shared p = (q, h, n) \<Longrightarrow> LbqWaitForQueueElement q h = Some Sleep \<Longrightarrow>
     protocol_step p (p\<lparr>waiter := Sleeping\<rparr>)"
| return: "waiter p = Running \<Longrightarrow> shared p = (q, h, n) \<Longrightarrow>
     LbqWaitForQueueElement q h = Some (Return (st, d, q', h')) \<Longrightarrow>
     protocol_step p (p\<lparr>shared := (q', h', n)\<rparr>)"

inductive reachable :: "i32 \<Rightarrow> 'a protocol \<Rightarrow> bool" for bound where
  start: "reachable bound \<lparr>shared = lbq_start bound, signals = 0, waiter = Running\<rparr>"
| move: "reachable bound p \<Longrightarrow> protocol_step p p' \<Longrightarrow> reachable bound p'"

text \<open>While the consumer sleeps, either it must wait, or a signal is on its way.\<close>

definition wakeup_pending :: "'a protocol \<Rightarrow> bool" where
  "wakeup_pending p \<longleftrightarrow>
     (waiter p = Sleeping \<longrightarrow> lbq_must_wait (fst (shared p)) \<or> 0 < signals p)"

definition represented :: "'a protocol \<Rightarrow> bool" where
  "represented p \<longleftrightarrow> (\<exists>b xs. implements (shared p) b xs)"

lemma step_implements:
  "implements s b xs \<Longrightarrow> lbq_step op s = Some (r, s') \<Longrightarrow> \<exists>b' xs'. implements s' b' xs'"
  using simulates_all [of s b xs op] unfolding simulates_def by (metis option.inject prod.inject)

lemma protocol_represented: "protocol_step p p' \<Longrightarrow> represented p \<Longrightarrow> represented p'"
proof (induction rule: protocol_step.induct)
  case (return p q h n st d q' h')
  then have "lbq_step Wait (q, h, n) = Some (Status st d, q', h', n)" by simp
  with return.prems return.hyps(2) show ?case
    unfolding represented_def by (metis protocol.select_convs(1) protocol.surjective protocol.update_convs(1) step_implements)
qed (auto simp: represented_def simp del: implements.simps lbq_step.simps intro: step_implements)

lemma offer_keeps_nonempty:
  assumes "LbqOfferQueueItem q h d n = Some (st, sig, q', h')"
  shows "lbq_must_wait q' \<or> \<not> lbq_must_wait q \<or> sig"
  using assms unfolding LbqOfferQueueItem_def lbq_must_wait_def
  by (auto split: if_splits simp: Let_def bind_eq_Some_conv)

lemma lbq_step_wakes:
  assumes "lbq_step op (q, h, n) = Some (r, q', h', n')" "op \<noteq> Wait"
    "lbq_must_wait q" "\<not> lbq_must_wait q'"
  shows "must_signal op q h n"
proof (cases op)
  case (Offer d junk)
  then show ?thesis using assms offer_keeps_nonempty [of q "h(n \<mapsto> junk)" d n]
    by (auto simp: bind_eq_Some_conv)
next
  case Poll
  then show ?thesis using assms
    by (auto simp: LbqPollQueueElement_def lbq_must_wait_def split: if_splits)
next
  case Peek
  then show ?thesis using assms by (auto simp: bind_eq_Some_conv)
next
  case Flush
  then show ?thesis using assms
    by (auto simp: LbqFlushQueueItems_def lbq_must_wait_def bind_eq_Some_conv Let_def split: if_splits)
qed (use assms in simp_all)

lemma lbq_step_changes_signalled:
  assumes "lbq_step op (q, h, n) = Some (r, q', h', n')" "op \<noteq> Wait" "\<not> lbq_must_wait q'"
  shows "\<not> lbq_must_wait q \<or> must_signal op q h n"
  using lbq_step_wakes [OF assms(1,2) _ assms(3)] by blast

lemma wakeup_pending_step: "protocol_step p p' \<Longrightarrow> wakeup_pending p \<Longrightarrow> wakeup_pending p'"
proof (induction rule: protocol_step.induct)
  case (other_thread op q h n r s' p)
  obtain q' h' n' where s': "s' = (q', h', n')" by (cases s')
  from lbq_step_changes_signalled [OF other_thread.hyps(2) [unfolded s'] other_thread.hyps(1)]
  show ?case using other_thread.prems other_thread.hyps(3) s' by (auto simp: wakeup_pending_def)
next
  case (sleep p q h n)
  then have "lbq_must_wait q"
    by (auto simp: LbqWaitForQueueElement_def bind_eq_Some_conv split: if_splits)
  with sleep.hyps show ?case by (simp add: wakeup_pending_def)
qed (auto simp: wakeup_pending_def)

lemma reachable_inv: "unat bound < 2 ^ 31 \<Longrightarrow> reachable bound p \<Longrightarrow> wakeup_pending p \<and> represented p"
proof (rotate_tac, induction rule: reachable.induct)
  case start
  then show ?case using implements_start [of bound]
    by (auto simp: wakeup_pending_def represented_def simp del: implements.simps)
next
  case (move p p')
  then show ?case using wakeup_pending_step protocol_represented by blast
qed



end
