(* ===== verification/RtspParser.thy ===== *)
theory RtspParser
  imports CString
begin

text \<open>
  RtspParser.c: the RTSP messages of the handshake.  The parser cuts a private,
  NUL-terminated copy of the received bytes with \<open>strtok_r\<close>, so the model works on the suffix
  of that block from the scanning position to its end; reading beyond the block is the value
  \<open>None\<close>.  Option items are a list of records; the union of request and response fields is a
  datatype.
\<close>

section \<open>C strings in memory\<close>

abbreviation NUL :: char where "NUL \<equiv> CHR 0x00"
abbreviation LF :: char where "LF \<equiv> CHR 0x0A"
abbreviation CR :: char where "CR \<equiv> CHR 0x0D"

text \<open>
  \<open>strncmp (s, prefix, strlen (prefix)) == 0\<close>: the comparison stops at the first difference,
  so it reads no further than that.
\<close>

fun startsWith :: "string \<Rightarrow> string \<Rightarrow> bool option" where
  "startsWith m [] = Some True"
| "startsWith [] (p # ps) = None"
| "startsWith (c # m) (p # ps) = (if c = p then startsWith m ps else Some False)"

fun char_at :: "string \<Rightarrow> nat \<Rightarrow> char option" where
  "char_at [] n = None"
| "char_at (c # m) 0 = Some c"
| "char_at (c # m) (Suc n) = char_at m n"

text \<open>
  \<open>strtok_r\<close> on the block from the saved position: the token with the memory behind its
  terminator and the new saved position, or no token.
\<close>

datatype token = NoToken | Token string (behind: string) (saved: string)

definition strtok_r :: "string \<Rightarrow> string \<Rightarrow> token option" where
  "strtok_r delim m =
     (let s = dropWhile (\<lambda>c. c \<in> set delim) m in
      case s of [] \<Rightarrow> None
      | c # _ \<Rightarrow>
          if c = NUL then Some NoToken
          else let tok = takeWhile (\<lambda>c. c \<notin> set delim \<and> c \<noteq> NUL) s;
                   rest = dropWhile (\<lambda>c. c \<notin> set delim \<and> c \<noteq> NUL) s
               in case rest of [] \<Rightarrow> None
                  | t # after \<Rightarrow> Some (Token tok after (if t = NUL then rest else after)))"

text \<open>
  \<open>atoi\<close>: blanks, a sign, digits; the value saturates at the bounds of a 64-bit long and is
  then converted to a 32-bit int.
\<close>

definition atoi :: "string \<Rightarrow> int" where
  "atoi s =
     (let s = dropWhile is_space s;
          neg = (s \<noteq> [] \<and> hd s = CHR ''-'');
          s = (if s \<noteq> [] \<and> (hd s = CHR ''-'' \<or> hd s = CHR ''+'') then tl s else s);
          v = digits_value (takeWhile is_digit s);
          v = (if neg then - v else v)
      in signed_take_bit 31 (min (2 ^ 63 - 1) (max (- (2 ^ 63)) v)))"

text \<open>The \<open>%d\<close> conversion.\<close>

definition show_int :: "int \<Rightarrow> string" where
  "show_int i = (if i < 0 then CHR ''-'' # show_nat (nat (- i)) else show_nat (nat i))"

section \<open>Messages\<close>

record option_item =
  item_flags :: u8
  option_name :: string
  content :: string

datatype start_line = Request (command: string) (target: string)
  | Response (statusString: string) (statusCode: int)

record rtsp_message =
  flags :: u8
  sequenceNumber :: int
  protocol :: string
  options :: "option_item list"
  payload :: "string option"
  payloadLength :: int
  start :: start_line

definition FLAG_ALLOCATED_OPTION_FIELDS :: u8 where "FLAG_ALLOCATED_OPTION_FIELDS = 0x1"
definition FLAG_ALLOCATED_MESSAGE_BUFFER :: u8 where "FLAG_ALLOCATED_MESSAGE_BUFFER = 0x2"
definition FLAG_ALLOCATED_OPTION_ITEMS :: u8 where "FLAG_ALLOCATED_OPTION_ITEMS = 0x4"
definition FLAG_ALLOCATED_PAYLOAD :: u8 where "FLAG_ALLOCATED_PAYLOAD = 0x8"
definition SEQ_INVALID :: int where "SEQ_INVALID = -1"

datatype rtsp_error = RTSP_ERROR_NO_MEMORY | RTSP_ERROR_MALFORMED

fun getOptionContent :: "option_item list \<Rightarrow> string \<Rightarrow> string option" where
  "getOptionContent [] opt = None"
| "getOptionContent (i # is) opt =
     (if option_name i = opt then Some (content i) else getOptionContent is opt)"

fun insertOption :: "option_item list \<Rightarrow> option_item \<Rightarrow> option_item list" where
  "insertOption [] new = [new]"
| "insertOption (i # is) new =
     (if option_name i = option_name new then i\<lparr>content := content new\<rparr> # is
      else i # insertOption is new)"

definition createRtspResponse ::
  "u8 \<Rightarrow> string \<Rightarrow> int \<Rightarrow> string \<Rightarrow> int \<Rightarrow> option_item list \<Rightarrow> string option \<Rightarrow> int \<Rightarrow> rtsp_message" where
  "createRtspResponse fl prot code status seq opts pay payLen =
     \<lparr>flags = fl, sequenceNumber = seq, protocol = prot, options = opts, payload = pay,
      payloadLength = payLen, start = Response status code\<rparr>"

definition createRtspRequest ::
  "u8 \<Rightarrow> string \<Rightarrow> string \<Rightarrow> string \<Rightarrow> int \<Rightarrow> option_item list \<Rightarrow> string option \<Rightarrow> int \<Rightarrow> rtsp_message" where
  "createRtspRequest fl cmd targ prot seq opts pay payLen =
     \<lparr>flags = fl, sequenceNumber = seq, protocol = prot, options = opts, payload = pay,
      payloadLength = payLen, start = Request cmd targ\<rparr>"

text \<open>What freeing a message releases, in order.\<close>

datatype block = MessageBuffer | OptionField string | OptionItem string | Payload

definition freeOptionList :: "option_item list \<Rightarrow> block list" where
  "freeOptionList is = concat (map (\<lambda>i.
     (if item_flags i AND FLAG_ALLOCATED_OPTION_FIELDS \<noteq> 0
      then [OptionField (option_name i), OptionField (content i)] else [])
     @ [OptionItem (option_name i)]) is)"

definition freeMessage :: "rtsp_message \<Rightarrow> block list" where
  "freeMessage m =
     (if flags m AND FLAG_ALLOCATED_MESSAGE_BUFFER \<noteq> 0 then [MessageBuffer] else [])
     @ (if flags m AND FLAG_ALLOCATED_OPTION_ITEMS \<noteq> 0 then freeOptionList (options m) else [])
     @ (if flags m AND FLAG_ALLOCATED_PAYLOAD \<noteq> 0 then [Payload] else [])"

section \<open>Parsing\<close>

text \<open>
  The test for the end of the headers behind a content token: \<open>Some None\<close> when the message
  goes on, \<open>Some (Some p)\<close> when it ends, with the payload \<open>p\<close> if there is one (the block
  without its final NUL).
\<close>

definition end_check :: "string \<Rightarrow> string option option option" where
  "end_check m = do {
     nl \<leftarrow> startsWith m [LF];
     short2 \<leftarrow> (if nl then map_option (\<lambda>c. c = NUL) (char_at m 1) else Some False);
     if short2 then Some (Some None)
     else do {
       nlcr \<leftarrow> startsWith m [LF, CR];
       short1 \<leftarrow> (if nlcr then map_option (\<lambda>c. c = NUL) (char_at m 2) else Some False);
       if short1 then Some (Some None)
       else do {
         crlf \<leftarrow> startsWith m [LF, CR, LF];
         if crlf then do {
           c \<leftarrow> char_at m 3;
           Some (Some (if c \<noteq> NUL then Some (butlast (drop 3 m)) else None))
         }
         else Some None
       }
     }
   }"

abbreviation delim :: string where "delim \<equiv> [CHR '' '', CR, LF]"
abbreviation end_delim :: string where "end_delim \<equiv> [CR, LF]"
abbreviation optDelim :: string where "optDelim \<equiv> [CHR '' '', CHR '':'', CR, LF]"

text \<open>What a token is: leading delimiters, the token, its terminator and the rest.\<close>

definition token_chars :: "string \<Rightarrow> string \<Rightarrow> bool" where
  "token_chars d tok \<longleftrightarrow> tok \<noteq> [] \<and> (\<forall>c \<in> set tok. c \<notin> set d \<and> c \<noteq> NUL)"

lemma strtok_r_TokenD:
  assumes "strtok_r d m = Some (Token tok after ctx)"
  shows "\<exists>pre t. m = pre @ tok @ t # after \<and> set pre \<subseteq> set d \<and> token_chars d tok \<and>
    (t = NUL \<and> ctx = NUL # after \<or> t \<in> set d \<and> t \<noteq> NUL \<and> ctx = after)"
proof -
  let ?P = "\<lambda>c. c \<in> set d" and ?Q = "\<lambda>c. c \<notin> set d \<and> c \<noteq> NUL"
  let ?s = "dropWhile ?P m"
  obtain c s' where s: "?s = c # s'"
    using assms by (cases ?s) (simp_all add: strtok_r_def)
  then have c: "c \<noteq> NUL" using assms by (auto simp: strtok_r_def)
  have "\<exists>t rest. dropWhile ?Q ?s = t # rest"
    using assms s c by (cases "dropWhile ?Q ?s") (simp_all only: strtok_r_def Let_def list.case if_False, simp_all)
  then obtain t rest where r: "dropWhile ?Q ?s = t # rest" by blast
  have eq: "Token (takeWhile ?Q ?s) rest (if t = NUL then t # rest else rest) = Token tok after ctx"
    using assms c r unfolding strtok_r_def Let_def s by (simp only: list.case if_False option.inject)
  then have tok: "tok = takeWhile ?Q ?s" and r: "dropWhile ?Q ?s = t # after"
    and ctx: "ctx = (if t = NUL then t # after else after)" using r by auto
  have "c \<notin> set d" using s(1) by (metis dropWhile_eq_Cons_conv)
  then have "tok \<noteq> []" using s c tok by simp
  moreover have "\<forall>c \<in> set tok. ?Q c" unfolding tok by (auto dest: set_takeWhileD)
  moreover have nq: "\<not> ?Q t" using hd_dropWhile [of ?Q ?s] r by simp
  moreover have "m = takeWhile ?P m @ tok @ t # after" using tok r by (metis takeWhile_dropWhile_id)
  moreover have "set (takeWhile ?P m) \<subseteq> set d" by (auto dest: set_takeWhileD)
  moreover have "t = NUL \<and> ctx = NUL # after \<or> t \<in> set d \<and> t \<noteq> NUL \<and> ctx = after"
    using nq ctx by (cases "t = NUL") simp_all
  ultimately show ?thesis unfolding token_chars_def by blast
qed

lemma strtok_r_intro:
  assumes "set pre \<subseteq> set d" "token_chars d tok" "t = NUL \<or> t \<in> set d"
  shows "strtok_r d (pre @ tok @ t # after) = Some (Token tok after (if t = NUL then t # after else after))"
proof -
  obtain c ts where tok: "tok = c # ts" "c \<notin> set d" "c \<noteq> NUL"
    using assms(2) by (cases tok) (auto simp: token_chars_def)
  have "dropWhile (\<lambda>c. c \<in> set d) (pre @ tok @ t # after) = tok @ t # after"
    using assms(1) tok by (subst dropWhile_append2) auto
  moreover have "takeWhile (\<lambda>c. c \<notin> set d \<and> c \<noteq> NUL) (tok @ t # after) = tok"
    using assms(2,3) by (subst takeWhile_append2) (auto simp: token_chars_def)
  moreover have "dropWhile (\<lambda>c. c \<notin> set d \<and> c \<noteq> NUL) (tok @ t # after) = t # after"
    using assms(2,3) by (subst dropWhile_append2) (auto simp: token_chars_def)
  ultimately show ?thesis using tok by (simp add: strtok_r_def)
qed

lemma strtok_r_shrinks:
  assumes "strtok_r d m = Some (Token tok after ctx)"
  shows "length ctx < length m"
proof -
  obtain pre t where m: "m = pre @ tok @ t # after" and tok: "token_chars d tok"
    and ctx: "ctx = NUL # after \<or> ctx = after"
    using strtok_r_TokenD [OF assms] by blast
  from ctx have "length ctx \<le> length after + 1" by (elim disjE) simp_all
  moreover have "0 < length tok" using tok by (simp add: token_chars_def)
  moreover have "length m = length pre + length tok + length after + 1" using m by simp
  ultimately show ?thesis by linarith
qed

text \<open>
  The option loop, one header per round: the name token, then the content token, and the end
  test.  \<open>alloc\<close> says which of the item allocations succeed.  The result is the option list
  with the payload once the end of the headers has been seen.
\<close>

datatype parsed_options = NoMemory | NotEnded | Ended "option_item list" "string option"

function parse_options :: "bool list \<Rightarrow> option_item list \<Rightarrow> string \<Rightarrow> parsed_options option" where
  "parse_options alloc opts m =
     (case strtok_r optDelim m of
        None \<Rightarrow> None
      | Some NoToken \<Rightarrow> Some NotEnded
      | Some (Token opt _ m1) \<Rightarrow>
          (case strtok_r end_delim m1 of
             None \<Rightarrow> None
           | Some NoToken \<Rightarrow> Some NotEnded
           | Some (Token tok after m2) \<Rightarrow>
               (if alloc = [] \<or> \<not> hd alloc then Some NoMemory
                else let opts = insertOption opts \<lparr>item_flags = 0, option_name = opt, content = tl tok\<rparr>
                     in case end_check after of
                          None \<Rightarrow> None
                        | Some None \<Rightarrow> parse_options (tl alloc) opts m2
                        | Some (Some p) \<Rightarrow> Some (Ended opts p))))"
  by pat_completeness auto
termination
  by (relation "measure (\<lambda>(_, _, m). length m)") (auto dest!: strtok_r_shrinks)

declare parse_options.simps [simp del]

text \<open>The start line: protocol, start line fields and the memory behind them.\<close>

definition parse_start :: "string \<Rightarrow> (rtsp_error + (string \<times> start_line \<times> string)) option" where
  "parse_start m = do {
     t \<leftarrow> strtok_r delim m;
     (case t of
        NoToken \<Rightarrow> Some (Inl RTSP_ERROR_MALFORMED)
      | Token tok _ m \<Rightarrow> do {
          response \<leftarrow> startsWith (tok @ [NUL]) ''RTSP'';
          if response then do {
            t \<leftarrow> strtok_r delim m;
            (case t of
               NoToken \<Rightarrow> Some (Inl RTSP_ERROR_MALFORMED)
             | Token code _ m \<Rightarrow> do {
                 t \<leftarrow> strtok_r end_delim m;
                 (case t of
                    NoToken \<Rightarrow> Some (Inl RTSP_ERROR_MALFORMED)
                  | Token status _ m \<Rightarrow> Some (Inr (tok, Response status (atoi code), m)))
               })
          }
          else do {
            t \<leftarrow> strtok_r delim m;
            (case t of
               NoToken \<Rightarrow> Some (Inl RTSP_ERROR_MALFORMED)
             | Token targ _ m \<Rightarrow> do {
                 t \<leftarrow> strtok_r delim m;
                 (case t of
                    NoToken \<Rightarrow> Some (Inl RTSP_ERROR_MALFORMED)
                  | Token prot _ m \<Rightarrow> Some (Inr (prot, Request tok targ, m)))
               })
          }
        })
   }"

definition parseRtspMessage ::
  "bool \<Rightarrow> bool list \<Rightarrow> string \<Rightarrow> (rtsp_error + rtsp_message) option" where
  "parseRtspMessage allocBuffer alloc bytes =
     (if \<not> allocBuffer then Some (Inl RTSP_ERROR_NO_MEMORY)
      else do {
        r \<leftarrow> parse_start (bytes @ [NUL]);
        (case r of
           Inl e \<Rightarrow> Some (Inl e)
         | Inr (prot, line, m) \<Rightarrow>
             if prot \<noteq> ''RTSP/1.0'' then Some (Inl RTSP_ERROR_MALFORMED)
             else do {
               r \<leftarrow> parse_options alloc [] m;
               (case r of
                  NoMemory \<Rightarrow> Some (Inl RTSP_ERROR_NO_MEMORY)
                | NotEnded \<Rightarrow> Some (Inl RTSP_ERROR_MALFORMED)
                | Ended opts p \<Rightarrow>
                    let seq = (case getOptionContent opts ''CSeq'' of
                                 Some s \<Rightarrow> atoi s | None \<Rightarrow> SEQ_INVALID);
                        fl = FLAG_ALLOCATED_MESSAGE_BUFFER OR FLAG_ALLOCATED_OPTION_ITEMS;
                        plen = (case p of Some s \<Rightarrow> int (length s) | None \<Rightarrow> 0)
                    in Some (Inr (case line of
                         Request cmd targ \<Rightarrow> createRtspRequest fl cmd targ prot seq opts p plen
                       | Response status code \<Rightarrow> createRtspResponse fl prot code status seq opts p plen)))
             })
      })"

section \<open>Serialising\<close>

definition MESSAGE_END_LENGTH :: int where "MESSAGE_END_LENGTH = 4"
definition CRLF_LENGTH :: int where "CRLF_LENGTH = 2"

text \<open>The status code is printed into a buffer of 16 bytes.\<close>

definition statusCodeStr :: "int \<Rightarrow> string" where
  "statusCodeStr code = take 15 (show_int code)"

definition getMessageLength :: "rtsp_message \<Rightarrow> int" where
  "getMessageLength msg =
     (let count = 1 + int (length (protocol msg));
          count = (case start msg of
              Request cmd targ \<Rightarrow> count + int (length cmd) + int (length targ) + MESSAGE_END_LENGTH
            | Response status code \<Rightarrow>
                count + int (length (statusCodeStr code)) + int (length status) + MESSAGE_END_LENGTH);
          count = count + (\<Sum>i \<leftarrow> options msg.
              int (length (option_name i)) + int (length (content i)) + MESSAGE_END_LENGTH);
          count = count + CRLF_LENGTH;
          count = count + payloadLength msg
      in signed_take_bit 31 count)"

text \<open>
  \<open>snprintf (p, size, "%s", s)\<close>: at most \<open>size\<close> bytes including the NUL; it returns the
  length it would have needed, or -1 when that is no int.
\<close>

definition snprintf_s :: "string \<Rightarrow> nat \<Rightarrow> nat \<Rightarrow> string \<Rightarrow> (int \<times> string) option" where
  "snprintf_s dest off n s = do {
     dest \<leftarrow> (if n = 0 then Some dest else mem_write dest off (take (n - 1) s @ [NUL]));
     Some (if length s < 2 ^ 31 then int (length s) else - 1, dest)
   }"

definition appendString :: "string \<Rightarrow> int \<Rightarrow> int \<Rightarrow> string \<Rightarrow> (bool \<times> string \<times> int \<times> int) option" where
  "appendString dest off remaining src = do {
     (ret, dest) \<leftarrow> snprintf_s dest (nat off) (nat (take_bit 64 remaining)) src;
     if ret < 0 \<or> ret \<ge> remaining then do {
       _ \<leftarrow> LC_ASSERT False;
       Some (False, dest, off, remaining)
     }
     else Some (True, dest, off + ret, remaining - ret)
   }"

fun appendStrings :: "string \<Rightarrow> int \<Rightarrow> int \<Rightarrow> string list \<Rightarrow> (bool \<times> string \<times> int \<times> int) option" where
  "appendStrings dest off remaining [] = Some (True, dest, off, remaining)"
| "appendStrings dest off remaining (s # ss) = do {
     (ok, dest, off, remaining) \<leftarrow> appendString dest off remaining s;
     if ok then appendStrings dest off remaining ss else Some (False, dest, off, remaining)
   }"

abbreviation crlf :: string where "crlf \<equiv> [CR, LF]"

definition start_pieces :: "rtsp_message \<Rightarrow> string list" where
  "start_pieces msg = (case start msg of
       Request cmd targ \<Rightarrow> [cmd, '' '', targ, '' '', protocol msg, crlf]
     | Response status code \<Rightarrow> [protocol msg, '' '', statusCodeStr code, '' '', status, crlf])"

definition option_pieces :: "option_item \<Rightarrow> string list" where
  "option_pieces i = [option_name i, '': '', content i, crlf]"

text \<open>
  \<open>malloc_ok\<close> says whether the allocation succeeds, \<open>junk\<close> gives the block's contents.  The
  result is \<open>NULL\<close> or the block and the length of the message in it.
\<close>

definition serializeRtspMessage ::
  "bool \<Rightarrow> (nat \<Rightarrow> char) \<Rightarrow> rtsp_message \<Rightarrow> (string \<times> int) option option" where
  "serializeRtspMessage malloc_ok junk msg =
     (let size = getMessageLength msg in
      if \<not> malloc_ok \<or> size < 0 then Some None
      else do {
        let mem = map junk [0..<nat size];
        (ok, mem, offset, size) \<leftarrow> appendStrings mem 0 size (start_pieces msg);
        if \<not> ok then Some None
        else do {
          (ok, mem, offset, size) \<leftarrow> appendStrings mem offset size (concat (map option_pieces (options msg)));
          if \<not> ok then Some None
          else do {
            (ok, mem, offset, size) \<leftarrow> appendStrings mem offset size [crlf];
            if \<not> ok then Some None
            else (case payload msg of
                Some p \<Rightarrow>
                  if payloadLength msg > size then Some None
                  else do {
                    bytes \<leftarrow> mem_read p 0 (nat (payloadLength msg));
                    mem \<leftarrow> mem_write mem (nat offset) bytes;
                    Some (Some (mem, offset + payloadLength msg))
                  }
              | None \<Rightarrow> Some (Some (mem, offset)))
          }
        }
      })"

section \<open>Serialised messages\<close>

text \<open>The bytes a message stands for.\<close>

definition message_text :: "rtsp_message \<Rightarrow> string" where
  "message_text msg = concat (start_pieces msg) @ concat (concat (map option_pieces (options msg))) @ crlf
     @ (case payload msg of Some p \<Rightarrow> p | None \<Rightarrow> [])"

definition payload_ok :: "rtsp_message \<Rightarrow> bool" where
  "payload_ok msg \<longleftrightarrow> payloadLength msg = (case payload msg of Some p \<Rightarrow> int (length p) | None \<Rightarrow> 0)"

lemma sum_option_pieces:
  "(\<Sum>i \<leftarrow> is. int (length (option_name i)) + int (length (content i)) + 4)
     = int (length (concat (concat (map option_pieces is))))"
  by (induction "is") (simp_all add: option_pieces_def)

lemma getMessageLength_text:
  assumes "payload_ok msg" "length (message_text msg) + 1 < 2 ^ 31"
  shows "getMessageLength msg = int (length (message_text msg)) + 1"
proof -
  have "getMessageLength msg = signed_take_bit 31 (int (length (message_text msg)) + 1)"
    using assms(1) unfolding getMessageLength_def message_text_def payload_ok_def Let_def MESSAGE_END_LENGTH_def
      CRLF_LENGTH_def sum_option_pieces
    by (simp add: start_pieces_def algebra_simps split: start_line.splits option.splits)
  also have "\<dots> = int (length (message_text msg)) + 1"
    using assms(2) by (intro signed_take_bit_int_eq_self) simp_all
  finally show ?thesis .
qed

lemma appendString_fits:
  assumes "off + length s < length dest" "length dest < 2 ^ 31" "remaining = int (length dest) - int off"
  shows "\<exists>d. appendString dest (int off) remaining s = Some (True, d, int (off + length s), remaining - int (length s))
     \<and> length d = length dest \<and> take (off + length s) d = take off dest @ s"
proof -
  have rem: "nat (take_bit 64 remaining) = length dest - off"
    using assms by (simp add: take_bit_int_eq_self nat_diff_distrib')
  let ?w = "s @ [NUL]"
  have w: "mem_write dest off (take (length dest - off - 1) s @ [NUL])
      = Some (take off dest @ ?w @ drop (off + length ?w) dest)"
    using assms(1) by (simp add: mem_write_def)
  have "snprintf_s dest off (length dest - off) s
      = Some (int (length s), take off dest @ ?w @ drop (off + length ?w) dest)"
    using assms(1,2) w by (simp add: snprintf_s_def)
  then have "appendString dest (int off) remaining s
      = Some (True, take off dest @ ?w @ drop (off + length ?w) dest, int (off + length s), remaining - int (length s))"
    using assms rem by (simp add: appendString_def)
  then show ?thesis using assms(1) by auto
qed

lemma appendStrings_fits:
  assumes "off + length (concat ss) < length dest" "length dest < 2 ^ 31"
    "remaining = int (length dest) - int off"
  shows "\<exists>d. appendStrings dest (int off) remaining ss
       = Some (True, d, int (off + length (concat ss)), remaining - int (length (concat ss)))
     \<and> length d = length dest \<and> take (off + length (concat ss)) d = take off dest @ concat ss"
  using assms
proof (induction ss arbitrary: dest off remaining)
  case Nil
  then show ?case by simp
next
  case (Cons s ss)
  have "off + length s < length dest" using Cons.prems(1) by simp
  from appendString_fits [OF this Cons.prems(2,3)] obtain d where
    d: "appendString dest (int off) remaining s = Some (True, d, int (off + length s), remaining - int (length s))"
      "length d = length dest" "take (off + length s) d = take off dest @ s" by blast
  have "off + length s + length (concat ss) < length d" "length d < 2 ^ 31"
    "remaining - int (length s) = int (length d) - int (off + length s)"
    using Cons.prems d(2) by simp_all
  from Cons.IH [OF this] obtain d' where
    d': "appendStrings d (int (off + length s)) (remaining - int (length s)) ss
       = Some (True, d', int (off + length s + length (concat ss)), remaining - int (length s) - int (length (concat ss)))"
      "length d' = length d" "take (off + length s + length (concat ss)) d' = take (off + length s) d @ concat ss"
    by blast
  then show ?case using d by (intro exI [of _ d']) (simp add: algebra_simps)
qed

lemma serialize_text:
  assumes "payload_ok msg" "length (message_text msg) + 1 < 2 ^ 31"
  shows "\<exists>mem. serializeRtspMessage True junk msg = Some (Some (mem, int (length (message_text msg))))
     \<and> length mem = length (message_text msg) + 1 \<and> take (length (message_text msg)) mem = message_text msg"
proof -
  let ?n = "length (message_text msg)"
  let ?a = "start_pieces msg" and ?b = "concat (map option_pieces (options msg))"
  let ?p = "case payload msg of Some p \<Rightarrow> p | None \<Rightarrow> []"
  let ?m = "map junk [0..<?n + 1]"
  have body: "message_text msg = concat ?a @ concat ?b @ crlf @ ?p" by (simp add: message_text_def)
  then have n: "?n = length (concat ?a) + length (concat ?b) + 2 + length ?p" by simp
  have size: "getMessageLength msg = int (?n + 1)" using getMessageLength_text [OF assms] by simp
  obtain d where d: "appendStrings ?m 0 (int (?n + 1)) ?a
       = Some (True, d, int (length (concat ?a)), int (?n + 1) - int (length (concat ?a)))"
      "length d = ?n + 1" "take (length (concat ?a)) d = concat ?a"
    using appendStrings_fits [of 0 ?a ?m "int (?n + 1)"] assms(2) n by auto
  obtain e where e: "appendStrings d (int (length (concat ?a))) (int (?n + 1) - int (length (concat ?a))) ?b
       = Some (True, e, int (length (concat ?a) + length (concat ?b)),
           int (?n + 1) - int (length (concat ?a)) - int (length (concat ?b)))"
      "length e = ?n + 1" "take (length (concat ?a) + length (concat ?b)) e = concat ?a @ concat ?b"
    using appendStrings_fits [of "length (concat ?a)" ?b d "int (?n + 1) - int (length (concat ?a))"] assms(2) n d
    by auto
  let ?k = "length (concat ?a) + length (concat ?b)"
  have nonneg: "(int (?n + 1) < 0) = False" by simp
  obtain f where f: "appendStrings e (int ?k) (int (?n + 1) - int (length (concat ?a)) - int (length (concat ?b))) [crlf]
       = Some (True, f, int (?k + 2), int (?n + 1) - int (length (concat ?a)) - int (length (concat ?b)) - 2)"
      "length f = ?n + 1" "take (?k + 2) f = concat ?a @ concat ?b @ crlf"
    using appendStrings_fits [of ?k "[crlf]" e "int (?n + 1) - int (length (concat ?a)) - int (length (concat ?b))"]
      assms(2) n e by auto
  show ?thesis
  proof (cases "payload msg")
    case None
    then have "?n = ?k + 2" using n by simp
    moreover have "serializeRtspMessage True junk msg = Some (Some (f, int (?k + 2)))"
      unfolding serializeRtspMessage_def size Let_def nonneg
      by (simp only: nonneg nat_int d(1) e(1) f(1) None bind.simps prod.case option.case simp_thms if_False)
    ultimately show ?thesis using f body None by simp
  next
    case (Some p)
    then have pl: "payloadLength msg = int (length p)" "?n = ?k + 2 + length p" using assms(1) n by (simp_all add: payload_ok_def)
    have "mem_read p 0 (length p) = Some p" by (simp add: mem_read_def)
    moreover have "mem_write f (?k + 2) p = Some (take (?k + 2) f @ p @ drop (?k + 2 + length p) f)"
      using f(2) pl by (simp add: mem_write_def)
    moreover have "\<not> payloadLength msg > int (?n + 1) - int (length (concat ?a)) - int (length (concat ?b)) - 2"
      using pl by simp
    ultimately have "serializeRtspMessage True junk msg
        = Some (Some (take (?k + 2) f @ p @ drop (?k + 2 + length p) f, int (?k + 2) + int (length p)))"
      unfolding serializeRtspMessage_def size Let_def
      by (simp only: nonneg nat_int d(1) e(1) f(1) Some pl(1) bind.simps prod.case option.case simp_thms if_False)
    then show ?thesis using f(2,3) body Some pl(2) by simp
  qed
qed

text \<open>
  Property C37.  Serialising never fails and never writes outside its buffer: for every
  message whose text fits an int, \<open>getMessageLength\<close> is exactly the size of the text plus the
  terminating NUL, no \<open>snprintf\<close> is truncated (the assertion in \<open>appendString\<close> holds), and the
  block returned holds the start line, the options, the empty line and the payload in order.
\<close>

theorem serialize_exact:
  assumes "payload_ok msg" "length (message_text msg) + 1 < 2 ^ 31"
  shows "\<exists>mem. serializeRtspMessage True junk msg = Some (Some (mem, int (length (message_text msg))))
     \<and> int (length mem) = getMessageLength msg \<and> take (length (message_text msg)) mem = message_text msg"
  using serialize_text [OF assms, of junk] getMessageLength_text [OF assms] by auto

definition example_request :: rtsp_message where
  "example_request = createRtspRequest 6 ''SETUP'' ''streamid=audio'' ''RTSP/1.0'' 3
     [\<lparr>item_flags = 0, option_name = ''CSeq'', content = ''3''\<rparr>,
      \<lparr>item_flags = 0, option_name = ''X-GS-ClientVersion'', content = ''14''\<rparr>] (Some ''ab'') 2"

theorem serialize_exact_witness:
  "\<exists>mem. serializeRtspMessage True (\<lambda>_. CHR ''?'') example_request
       = Some (Some (mem, int (length (message_text example_request))))
     \<and> int (length mem) = getMessageLength example_request
     \<and> take (length (message_text example_request)) mem = message_text example_request"
  by (rule serialize_exact)
     (simp_all add: payload_ok_def message_text_def example_request_def createRtspRequest_def start_pieces_def option_pieces_def)

section \<open>Option lists\<close>

text \<open>A store of values under keys, of which the last insertion counts.\<close>

locale keyed_store =
  fixes empty :: 's and lookup :: "'s \<Rightarrow> 'k \<Rightarrow> 'v option" and insert :: "'s \<Rightarrow> 'k \<Rightarrow> 'v \<Rightarrow> 's"
  assumes lookup_empty: "lookup empty k = None"
    and lookup_insert: "lookup (insert s k v) k' = (if k' = k then Some v else lookup s k')"
begin

definition insert_all :: "('k \<times> 'v) list \<Rightarrow> 's \<Rightarrow> 's" where
  "insert_all kvs s = foldl (\<lambda>s kv. insert s (fst kv) (snd kv)) s kvs"

lemma lookup_insert_all:
  "lookup (insert_all kvs s) k = (case map_of (rev kvs) k of Some v \<Rightarrow> Some v | None \<Rightarrow> lookup s k)"
  by (induction kvs arbitrary: s) (auto simp: insert_all_def lookup_insert map_add_def split: option.splits)

lemma lookup_all: "lookup (insert_all kvs empty) k = map_of (rev kvs) k"
  by (simp add: lookup_insert_all lookup_empty split: option.splits)

end

definition add_option :: "option_item list \<Rightarrow> string \<Rightarrow> string \<Rightarrow> option_item list" where
  "add_option opts name val = insertOption opts \<lparr>item_flags = 0, option_name = name, content = val\<rparr>"

lemma getOptionContent_insertOption:
  "getOptionContent (insertOption is new) k
     = (if k = option_name new then Some (content new) else getOptionContent is k)"
  by (induction "is") auto

interpretation options: keyed_store "[]" getOptionContent add_option
  by unfold_locales (auto simp: add_option_def getOptionContent_insertOption)

lemma insertOption_names:
  "map option_name (insertOption is new) = (if option_name new \<in> option_name ` set is
     then map option_name is else map option_name is @ [option_name new])"
  by (induction "is") auto

lemma insertOption_new: "option_name new \<notin> option_name ` set is \<Longrightarrow> insertOption is new = is @ [new]"
  by (induction "is") auto

lemma insertOption_all: "distinct (map option_name (opts @ is)) \<Longrightarrow> foldl insertOption opts is = opts @ is"
proof (induction "is" arbitrary: opts)
  case (Cons i "is")
  then show ?case using Cons.IH [of "opts @ [i]"] by (simp add: insertOption_new)
qed simp

text \<open>
  An option list behaves as a map with unique keys: after any sequence of
  insertions \<open>getOptionContent\<close> finds the last value inserted under a name, and no name
  occurs twice in the list.
\<close>

theorem options_last_insert_wins:
  "getOptionContent (foldl (\<lambda>s kv. insertOption s \<lparr>item_flags = 0, option_name = fst kv, content = snd kv\<rparr>) [] kvs) k
     = map_of (rev kvs) k
   \<and> distinct (map option_name
       (foldl (\<lambda>s kv. insertOption s \<lparr>item_flags = 0, option_name = fst kv, content = snd kv\<rparr>) [] kvs))"
proof
  show "getOptionContent (foldl (\<lambda>s kv. insertOption s \<lparr>item_flags = 0, option_name = fst kv, content = snd kv\<rparr>) [] kvs) k
      = map_of (rev kvs) k"
    using options.lookup_all [of kvs k] by (simp add: options.insert_all_def add_option_def)
  show "distinct (map option_name
       (foldl (\<lambda>s kv. insertOption s \<lparr>item_flags = 0, option_name = fst kv, content = snd kv\<rparr>) [] kvs))"
    by (rule rev_induct [of _ kvs]) (auto simp: insertOption_names)
qed

section \<open>Memory safety of the parser\<close>

text \<open>A block that ends in a line break and the final NUL, or what is left of it.\<close>

definition terminated :: "string \<Rightarrow> bool" where
  "terminated m \<longleftrightarrow> m \<noteq> [] \<and> last m = NUL \<and> (butlast m = [] \<or> last (butlast m) \<in> {CR, LF})"

lemma terminated_suffix: "terminated (xs @ ys) \<Longrightarrow> ys \<noteq> [] \<Longrightarrow> terminated ys"
  by (auto simp: terminated_def butlast_append split: if_splits)

lemma strtok_r_total:
  assumes "NUL \<in> set m" "NUL \<notin> set d"
  shows "strtok_r d m \<noteq> None"
proof -
  let ?Q = "\<lambda>c. c \<notin> set d \<and> c \<noteq> NUL"
  have "m = takeWhile (\<lambda>c. c \<in> set d) m @ dropWhile (\<lambda>c. c \<in> set d) m" by simp
  then have nul: "NUL \<in> set (dropWhile (\<lambda>c. c \<in> set d) m)"
    using assms by (metis Un_iff set_append set_takeWhileD)
  then obtain c s where s: "dropWhile (\<lambda>c. c \<in> set d) m = c # s"
    by (cases "dropWhile (\<lambda>c. c \<in> set d) m") auto
  have "dropWhile ?Q (c # s) \<noteq> []" using nul s by (auto simp: dropWhile_eq_Nil_conv)
  then show ?thesis unfolding strtok_r_def Let_def s
    by (auto simp only: list.case split: list.splits if_splits)
qed

lemma strtok_r_terminated:
  assumes "terminated m" "NUL \<notin> set d" "CR \<in> set d" "LF \<in> set d"
  shows "strtok_r d m = Some NoToken \<or>
    (\<exists>tok after ctx. strtok_r d m = Some (Token tok after ctx) \<and> terminated after \<and> terminated ctx)"
proof -
  have "NUL \<in> set m" using assms(1) by (metis last_in_set terminated_def)
  from strtok_r_total [OF this assms(2)] obtain t where t: "strtok_r d m = Some t" by blast
  show ?thesis
  proof (cases t)
    case NoToken
    with t show ?thesis by simp
  next
    case (Token tok after ctx)
    from strtok_r_TokenD [OF t [unfolded Token]] obtain pre c where
      m: "m = pre @ tok @ c # after" and tok: "token_chars d tok"
      and c: "c = NUL \<and> ctx = NUL # after \<or> c \<in> set d \<and> c \<noteq> NUL \<and> ctx = after" by blast
    have "after \<noteq> []"
    proof
      assume "after = []"
      then have "last (pre @ tok) \<in> {CR, LF}" "tok \<noteq> []"
        using assms(1) m tok by (auto simp: terminated_def butlast_append token_chars_def)
      then have "last tok \<in> set d" "last tok \<in> set tok" using assms by auto
      then show False using tok by (auto simp: token_chars_def)
    qed
    moreover have "terminated ((pre @ tok @ [c]) @ after)" "terminated ((pre @ tok) @ c # after)"
      using assms(1) m by simp_all
    ultimately have "terminated after" "terminated (c # after)" by (blast dest: terminated_suffix)+
    then show ?thesis using t Token c by auto
  qed
qed

lemma end_check_terminated:
  assumes "terminated m" shows "end_check m \<noteq> None"
proof -
  have "m \<noteq> []" "last m = NUL" using assms by (simp_all add: terminated_def)
  then show ?thesis
  proof (cases m)
    case (Cons a m1)
    then show ?thesis using \<open>last m = NUL\<close>
      by (cases m1; cases "tl m1"; cases "tl (tl m1)")
         (auto simp: end_check_def numeral_2_eq_2 numeral_3_eq_3 split: if_splits)
  qed simp
qed

lemma parse_options_terminated: "terminated m \<Longrightarrow> parse_options alloc opts m \<noteq> None"
proof (induction alloc opts m rule: parse_options.induct)
  case (1 alloc opts m)
  consider "strtok_r optDelim m = Some NoToken"
    | opt x m1 where "strtok_r optDelim m = Some (Token opt x m1)" "terminated m1"
    using strtok_r_terminated [of m optDelim] 1(2) by auto
  then show ?case
  proof cases
    case 1
    then show ?thesis by (subst parse_options.simps) simp
  next
    case 2
    note A = 2
    consider "strtok_r end_delim m1 = Some NoToken"
      | tok after m2 where "strtok_r end_delim m1 = Some (Token tok after m2)" "terminated after" "terminated m2"
      using strtok_r_terminated [of m1 end_delim] A(2) by auto
    then show ?thesis
    proof cases
      case 1
      then show ?thesis using A by (subst parse_options.simps) simp
    next
      case 2
      obtain r where r: "end_check after = Some r" using end_check_terminated [OF 2(2)] by blast
      show ?thesis
        using "1.IH" [OF A(1) refl 2(1) refl _ refl] A 2 r
        by (subst parse_options.simps) (auto simp: Let_def split: option.splits)
    qed
  qed
qed

lemma startsWith_total: "NUL \<in> set m \<Longrightarrow> NUL \<notin> set p \<Longrightarrow> startsWith m p \<noteq> None"
  by (induction m p rule: startsWith.induct) auto

lemma parse_start_terminated:
  assumes "terminated m"
  shows "\<exists>e. parse_start m = Some (Inl e)
     \<or> (\<exists>prot line m'. parse_start m = Some (Inr (prot, line, m')) \<and> terminated m')"
proof -
  have d: "NUL \<notin> set delim" "CR \<in> set delim" "LF \<in> set delim"
    and e: "NUL \<notin> set end_delim" "CR \<in> set end_delim" "LF \<in> set end_delim" by simp_all
  have pre: "\<exists>b. startsWith (tok @ [NUL]) ''RTSP'' = Some b" for tok
    using startsWith_total [of "tok @ [NUL]" "''RTSP''"] by auto
  consider "strtok_r delim m = Some NoToken"
    | tok a m1 where "strtok_r delim m = Some (Token tok a m1)" "terminated m1"
    using strtok_r_terminated [OF assms d] by blast
  then show ?thesis
  proof cases
    case 1
    then show ?thesis by (simp add: parse_start_def)
  next
    case 2
    note A = 2
    obtain b where b: "startsWith (tok @ [NUL]) ''RTSP'' = Some b" using pre by blast
    consider "strtok_r delim m1 = Some NoToken"
      | tok2 a2 m2 where "strtok_r delim m1 = Some (Token tok2 a2 m2)" "terminated m2"
      using strtok_r_terminated [OF A(2) d] by blast
    then show ?thesis
    proof cases
      case 1
      then show ?thesis using A b by (simp add: parse_start_def)
    next
      case 2
      show ?thesis
        using strtok_r_terminated [OF 2(2) d] strtok_r_terminated [OF 2(2) e] A(1) 2(1) b
        by (auto simp: parse_start_def)
    qed
  qed
qed

text \<open>
  Property C38.  Memory safety of the parser on line-terminated input: whatever the bytes, if
  the message is empty or its last byte is a carriage return or a line feed, the parser never
  reads beyond its copy of the message, and it returns a message or an error code.
\<close>

theorem parse_no_overread:
  assumes "bytes = [] \<or> last bytes \<in> {CR, LF}"
  shows "parseRtspMessage a alloc bytes \<noteq> None"
proof -
  have t: "terminated (bytes @ [NUL])" using assms by (auto simp: terminated_def)
  from parse_start_terminated [OF t] consider e where "parse_start (bytes @ [NUL]) = Some (Inl e)"
    | prot line m where "parse_start (bytes @ [NUL]) = Some (Inr (prot, line, m))" "terminated m"
    by blast
  then show ?thesis
  proof cases
    case 1
    then show ?thesis by (simp add: parseRtspMessage_def)
  next
    case 2
    obtain r where "parse_options alloc [] m = Some r" using parse_options_terminated [OF 2(2)] by blast
    then show ?thesis using 2
      by (cases r) (auto simp: parseRtspMessage_def Let_def)
  qed
qed

theorem parse_no_overread_witness:
  "parseRtspMessage True [True] (''OPTIONS a RTSP/1.0'' @ crlf @ ''CSeq: 1'' @ [CR]) \<noteq> None"
  by (rule parse_no_overread) simp

text \<open>
  Without the final line break the parser does read out of bounds: when the last
  option's value runs up to the end of the message, the test for the end of the headers looks
  at the byte behind the terminating NUL, one past the allocated block.
\<close>

theorem parse_overread_example:
  "parseRtspMessage True [True] (''RTSP/1.0 200 OK'' @ crlf @ ''CSeq: 1'') = None"
  by code_simp

section \<open>Round trip\<close>

lemma atoi_show_int:
  assumes "- (2 ^ 31) \<le> i" "i < 2 ^ 31"
  shows "atoi (show_int i) = i"
proof -
  have d: "takeWhile is_digit (show_nat n) = show_nat n" for n
    using show_nat_digits [of n] by (auto simp: takeWhile_eq_all_conv)
  have ns: "\<not> is_space (hd (show_nat n))" "hd (show_nat n) \<noteq> CHR ''-''" "hd (show_nat n) \<noteq> CHR ''+''" for n
  proof -
    have "is_digit (hd (show_nat n))" using show_nat_digits [of n] show_nat_nonempty [of n] by (metis hd_in_set mem_Collect_eq subsetD)
    then show "\<not> is_space (hd (show_nat n))" "hd (show_nat n) \<noteq> CHR ''-''" "hd (show_nat n) \<noteq> CHR ''+''"
      by (auto simp: is_digit_def is_space_def)
  qed
  have dw: "dropWhile is_space (show_nat n) = show_nat n" for n
    using ns(1) [of n] show_nat_nonempty [of n] by (cases "show_nat n") auto
  have neg: "atoi (CHR ''-'' # show_nat n) = signed_take_bit 31 (min (2 ^ 63 - 1) (max (- (2 ^ 63)) (- int n)))" for n
    by (simp add: atoi_def Let_def is_space_def d digits_value_show_nat)
  have pos: "atoi (show_nat n) = signed_take_bit 31 (min (2 ^ 63 - 1) (max (- (2 ^ 63)) (int n)))" for n
    by (simp add: atoi_def Let_def dw d ns show_nat_nonempty digits_value_show_nat)
  have st: "signed_take_bit 31 i = i"
    using assms by (intro signed_take_bit_int_eq_self) simp_all
  show ?thesis
  proof (cases "i < 0")
    case True
    then show ?thesis using assms st by (simp add: show_int_def neg)
  next
    case False
    then show ?thesis using assms st by (simp add: show_int_def pos)
  qed
qed

text \<open>
  What a message must satisfy to be recovered: tokens free of their delimiters, at least one
  option, each name once, and a sequence number that is the one of its \<open>CSeq\<close> option.
\<close>

definition option_ok :: "option_item \<Rightarrow> bool" where
  "option_ok i \<longleftrightarrow> item_flags i = 0 \<and> token_chars optDelim (option_name i)
     \<and> (\<forall>c \<in> set (content i). c \<notin> {CR, LF, NUL})"

definition start_ok :: "start_line \<Rightarrow> bool" where
  "start_ok l = (case l of
       Request cmd targ \<Rightarrow> token_chars delim cmd \<and> startsWith (cmd @ [NUL]) ''RTSP'' = Some False
         \<and> token_chars delim targ
     | Response status code \<Rightarrow> token_chars end_delim status \<and> - (2 ^ 31) \<le> code \<and> code < 2 ^ 31)"

definition message_ok :: "rtsp_message \<Rightarrow> bool" where
  "message_ok msg \<longleftrightarrow> flags msg = 6 \<and> protocol msg = ''RTSP/1.0'' \<and> start_ok (start msg)
     \<and> options msg \<noteq> [] \<and> (\<forall>i \<in> set (options msg). option_ok i) \<and> distinct (map option_name (options msg))
     \<and> payload_ok msg \<and> (case payload msg of Some p \<Rightarrow> p \<noteq> [] \<and> hd p \<noteq> NUL | None \<Rightarrow> True)
     \<and> sequenceNumber msg = (case getOptionContent (options msg) ''CSeq'' of Some s \<Rightarrow> atoi s | None \<Rightarrow> -1)"

definition options_text :: "option_item list \<Rightarrow> string" where
  "options_text is = concat (concat (map option_pieces is))"

lemma options_text_simps:
  "options_text [] = []"
  "options_text (i # is) = option_name i @ CHR '':'' # CHR '' '' # content i @ CR # LF # options_text is"
  by (simp_all add: options_text_def option_pieces_def)

lemma end_check_more:
  "c \<noteq> NUL \<Longrightarrow> c \<noteq> CR \<Longrightarrow> end_check (LF # c # m) = Some None"
  by (simp add: end_check_def)

lemma end_check_end:
  "end_check (LF # CR # LF # p @ [NUL]) = Some (Some (if p \<noteq> [] \<and> hd p \<noteq> NUL then Some p else None))"
  by (cases p) (simp_all add: end_check_def numeral_3_eq_3 numeral_2_eq_2)

lemma parse_one_option:
  assumes "option_ok i"
  shows "parse_options (True # alloc) opts (LF # options_text (i # is) @ rest)
    = (case end_check (LF # options_text is @ rest) of
         None \<Rightarrow> None
       | Some None \<Rightarrow> parse_options alloc (insertOption opts i) (LF # options_text is @ rest)
       | Some (Some p) \<Rightarrow> Some (Ended (insertOption opts i) p))"
proof -
  have n: "token_chars optDelim (option_name i)" using assms by (simp add: option_ok_def)
  have c: "token_chars end_delim (CHR '' '' # content i)"
    using assms by (auto simp: option_ok_def token_chars_def)
  let ?m = "CHR '' '' # content i @ CR # LF # options_text is @ rest"
  have 1: "strtok_r optDelim (LF # options_text (i # is) @ rest) = Some (Token (option_name i) ?m ?m)"
    using strtok_r_intro [OF _ n, of "[LF]" "CHR '':''" ?m] by (simp add: options_text_simps)
  have 2: "strtok_r end_delim ?m = Some (Token (CHR '' '' # content i) (LF # options_text is @ rest) (LF # options_text is @ rest))"
    using strtok_r_intro [OF _ c, of "[]" CR "LF # options_text is @ rest"] by simp
  have "\<lparr>item_flags = 0, option_name = option_name i, content = content i\<rparr> = i"
    using assms by (simp add: option_ok_def)
  then show ?thesis by (subst parse_options.simps) (simp only: 1 2 option.case token.case list.sel not_Cons_self2
        if_False simp_thms Let_def list.distinct)
qed

lemma parse_all_options:
  assumes "is \<noteq> []" "\<forall>i \<in> set is. option_ok i" "alloc = replicate (length is) True"
  shows "parse_options alloc opts (LF # options_text is @ crlf @ p @ [NUL])
    = Some (Ended (foldl insertOption opts is) (if p \<noteq> [] \<and> hd p \<noteq> NUL then Some p else None))"
  using assms
proof (induction "is" arbitrary: opts alloc)
  case Nil
  then show ?case by simp
next
  case (Cons i "is")
  have ok: "option_ok i" using Cons.prems by simp
  let ?al = "replicate (length is) True"
  have al: "alloc = True # ?al" using Cons.prems(3) by simp
  show ?case
  proof (cases "is")
    case Nil
    show ?thesis unfolding al parse_one_option [OF ok]
      using end_check_end [of p] by (simp add: Nil options_text_simps)
  next
    case js: (Cons j js)
    have "token_chars optDelim (option_name j)" using Cons.prems(2) js by (simp add: option_ok_def)
    then obtain c cs where c: "option_name j = c # cs" "c \<noteq> NUL" "c \<noteq> CR"
      by (cases "option_name j") (auto simp: token_chars_def)
    have "end_check (LF # options_text is @ crlf @ p @ [NUL]) = Some None"
      unfolding js options_text_simps c(1) by (simp add: end_check_more c)
    moreover have "parse_options ?al (insertOption opts i) (LF # options_text is @ crlf @ p @ [NUL])
      = Some (Ended (foldl insertOption (insertOption opts i) is) (if p \<noteq> [] \<and> hd p \<noteq> NUL then Some p else None))"
      using Cons.IH [of ?al "insertOption opts i"] Cons.prems js by simp
    ultimately show ?thesis unfolding al parse_one_option [OF ok] by simp
  qed
qed

lemma statusCodeStr_full: "- (2 ^ 31) \<le> i \<Longrightarrow> i < 2 ^ 31 \<Longrightarrow> statusCodeStr i = show_int i"
proof -
  have len: "length (show_nat n) \<le> k" if "n < 10 ^ k" "0 < k" for n k
    using that
  proof (induction k arbitrary: n)
    case (Suc k)
    show ?case
    proof (cases "n < 10")
      case True
      then show ?thesis by (subst show_nat.simps) simp
    next
      case False
      then have "0 < k" using Suc.prems by (cases k) auto
      moreover have "n div 10 < 10 ^ k" using Suc.prems by (simp add: less_mult_imp_div_less mult.commute)
      ultimately have "length (show_nat (n div 10)) \<le> k" using Suc.IH by blast
      then show ?thesis using False by (subst show_nat.simps) simp
    qed
  qed simp
  assume i: "- (2 ^ 31) \<le> i" "i < 2 ^ 31"
  have "length (show_nat (nat \<bar>i\<bar>)) \<le> 10" by (rule len) (use i in simp_all)
  then show ?thesis using i by (auto simp: statusCodeStr_def show_int_def)
qed

lemma show_int_token: "token_chars delim (show_int i)"
proof -
  have "c \<notin> set delim \<and> c \<noteq> NUL" if "is_digit c" for c
    using that by (auto simp: is_digit_def)
  then have "token_chars delim (show_nat n)" for n
    using show_nat_digits [of n] show_nat_nonempty [of n] unfolding token_chars_def by blast
  then show ?thesis by (simp add: show_int_def token_chars_def)
qed

lemma parse_start_text:
  assumes "message_ok msg"
  shows "parse_start (concat (start_pieces msg) @ m) = Some (Inr (protocol msg, start msg, LF # m))"
proof -
  have prot: "protocol msg = ''RTSP/1.0''" "token_chars delim ''RTSP/1.0''"
    "startsWith (''RTSP/1.0'' @ [NUL]) ''RTSP'' = Some True"
    using assms by (simp_all add: message_ok_def token_chars_def)
  have sp: "strtok_r delim (tok @ CHR '' '' # m) = Some (Token tok m m)" if "token_chars delim tok" for tok m
    using strtok_r_intro [OF _ that, of "[]" "CHR '' ''" m] by simp
  have cr: "strtok_r delim (tok @ CR # m) = Some (Token tok m m)" if "token_chars delim tok" for tok m
    using strtok_r_intro [OF _ that, of "[]" CR m] by simp
  have ecr: "strtok_r end_delim (tok @ CR # m) = Some (Token tok m m)" if "token_chars end_delim tok" for tok m
    using strtok_r_intro [OF _ that, of "[]" CR m] by simp
  show ?thesis
  proof (cases "start msg")
    case (Request cmd targ)
    have t: "token_chars delim cmd" "token_chars delim targ" "startsWith (cmd @ [NUL]) ''RTSP'' = Some False"
      using assms Request by (simp_all add: message_ok_def start_ok_def)
    have "concat (start_pieces msg) @ m
        = cmd @ CHR '' '' # (targ @ CHR '' '' # (''RTSP/1.0'' @ CR # LF # m))"
      using Request prot by (simp add: start_pieces_def)
    then show ?thesis
      by (simp only: parse_start_def sp [OF t(1)] sp [OF t(2)] cr [OF prot(2)] t(3) bind.simps token.case
          if_False Request prot)
  next
    case (Response status code)
    have t: "token_chars end_delim status" "- (2 ^ 31) \<le> code" "code < 2 ^ 31"
      using assms Response by (simp_all add: message_ok_def start_ok_def)
    have "concat (start_pieces msg) @ m
        = ''RTSP/1.0'' @ CHR '' '' # (show_int code @ CHR '' '' # (status @ CR # LF # m))"
      using Response prot statusCodeStr_full [OF t(2,3)] by (simp add: start_pieces_def)
    then show ?thesis
      by (simp only: parse_start_def sp [OF prot(2)] sp [OF show_int_token] ecr [OF t(1)] prot(3) bind.simps token.case
          if_True Response prot(1) atoi_show_int [OF t(2,3)])
  qed
qed

text \<open>
  Property C24.  Round trip: parsing the serialised text of a well-formed message gives the
  message back, every field of it: the start line, the options in order, the sequence number,
  the payload and its length.  With the exactness of the serialiser this covers both
  directions of the RTSP transport.
\<close>

theorem parse_serialize_roundtrip:
  assumes "message_ok msg"
  shows "parseRtspMessage True (replicate (length (options msg)) True) (message_text msg) = Some (Inr msg)"
proof -
  let ?p = "case payload msg of Some p \<Rightarrow> p | None \<Rightarrow> []"
  have start: "parse_start (message_text msg @ [NUL])
      = Some (Inr (protocol msg, start msg, LF # options_text (options msg) @ crlf @ ?p @ [NUL]))"
    using parse_start_text [OF assms, of "options_text (options msg) @ crlf @ ?p @ [NUL]"]
    by (simp add: message_text_def options_text_def)
  have m: "options msg \<noteq> []" "\<forall>i \<in> set (options msg). option_ok i" "distinct (map option_name (options msg))"
    "protocol msg = ''RTSP/1.0''" "payload_ok msg" "flags msg = 6"
    "case payload msg of Some p \<Rightarrow> p \<noteq> [] \<and> hd p \<noteq> NUL | None \<Rightarrow> True"
    "sequenceNumber msg = (case getOptionContent (options msg) ''CSeq'' of Some s \<Rightarrow> atoi s | None \<Rightarrow> -1)"
    using assms unfolding message_ok_def by blast+
  have pay: "(if ?p \<noteq> [] \<and> hd ?p \<noteq> NUL then Some ?p else None) = payload msg"
    using m(7) by (cases "payload msg") auto
  have opts: "parse_options (replicate (length (options msg)) True) []
      (LF # options_text (options msg) @ crlf @ ?p @ [NUL]) = Some (Ended (options msg) (payload msg))"
    using parse_all_options [OF m(1,2) refl, of "[]" ?p] insertOption_all [of "[]" "options msg"] m(3) pay
    by (simp split del: if_split)
  show ?thesis unfolding parseRtspMessage_def
    using m by (cases "start msg")
      (auto simp: start opts Let_def createRtspRequest_def createRtspResponse_def payload_ok_def SEQ_INVALID_def
        FLAG_ALLOCATED_MESSAGE_BUFFER_def FLAG_ALLOCATED_OPTION_ITEMS_def split: option.splits
        simp del: append_assoc append.simps)
qed

theorem parse_serialize_roundtrip_witness:
  "parseRtspMessage True (replicate (length (options example_request)) True) (message_text example_request)
     = Some (Inr example_request)"
proof (rule parse_serialize_roundtrip)
  show "message_ok example_request" by code_simp
qed

end
