(* ===== verification/GaloisField.thy ===== *)
theory GaloisField
  imports Prelude
begin

text \<open>
  The arithmetic of reedsolomon/rs.c: the tables of logarithms, powers, inverses and
  products that \<open>generate_gf\<close> and \<open>init_mul_table\<close> fill in, and the proof that with
  exclusive or as addition they are the arithmetic of the field with 256 elements.  The field
  is a type of its own, an instance of the library's class of fields, so that the library's
  algebra applies to it.
\<close>

section \<open>Tables\<close>

definition GF_BITS :: nat where "GF_BITS = 8"
definition GF_PP :: string where "GF_PP = ''101110001''"
definition GF_SIZE :: nat where "GF_SIZE = 255"

record gf_tables =
  gf_exp :: "u8 list"
  gf_log :: "nat list"
  gf_inverse :: "u8 list"

text \<open>The static tables are zero before the initialisation.\<close>

definition no_tables :: gf_tables where
  "no_tables = \<lparr>gf_exp = replicate (2 * GF_SIZE) 0, gf_log = replicate (GF_SIZE + 1) 0,
     gf_inverse = replicate (GF_SIZE + 1) 0\<rparr>"

definition set_exp :: "nat \<Rightarrow> u8 \<Rightarrow> gf_tables \<Rightarrow> gf_tables" where
  "set_exp i x t = t\<lparr>gf_exp := (gf_exp t)[i := x]\<rparr>"

definition set_log :: "u8 \<Rightarrow> nat \<Rightarrow> gf_tables \<Rightarrow> gf_tables" where
  "set_log x i t = t\<lparr>gf_log := (gf_log t)[unat x := i]\<rparr>"

text \<open>The first eight powers: bits shifted to the left, with the primitive polynomial's terms.\<close>

definition first_power :: "gf_tables \<Rightarrow> nat \<Rightarrow> gf_tables" where
  "first_power t i =
     (let mask = push_bit i 1;
          t = set_log mask i (set_exp i mask t)
      in if GF_PP ! i = CHR ''1'' then set_exp GF_BITS (gf_exp t ! GF_BITS XOR mask) t else t)"

definition next_power :: "gf_tables \<Rightarrow> nat \<Rightarrow> gf_tables" where
  "next_power t i =
     (let mask = push_bit (GF_BITS - 1) 1;
          prev = gf_exp t ! (i - 1);
          x = (if prev \<ge> mask then gf_exp t ! GF_BITS XOR push_bit 1 (prev XOR mask) else push_bit 1 prev)
      in set_log x i (set_exp i x t))"

definition generate_gf :: "gf_tables \<Rightarrow> gf_tables" where
  "generate_gf t =
     (let t = set_exp GF_BITS 0 t;
          t = foldl first_power t [0..<GF_BITS];
          t = set_log (gf_exp t ! GF_BITS) GF_BITS t;
          t = foldl next_power t [GF_BITS + 1..<GF_SIZE];
          t = set_log 0 GF_SIZE t;
          t = foldl (\<lambda>t i. set_exp (i + GF_SIZE) (gf_exp t ! i) t) t [0..<GF_SIZE];
          t = t\<lparr>gf_inverse := (gf_inverse t)[0 := 0, 1 := 1]\<rparr>
      in foldl (\<lambda>t i. t\<lparr>gf_inverse := (gf_inverse t)[i := gf_exp t ! (GF_SIZE - gf_log t ! i)]\<rparr>)
           t [2..<GF_SIZE + 1])"

text \<open>\<open>x >> GF_BITS\<close> and \<open>x & GF_SIZE\<close> of a non-negative int.\<close>

function modnn :: "nat \<Rightarrow> nat" where
  "modnn x = (if x \<ge> GF_SIZE
     then let x = x - GF_SIZE in modnn (x div 2 ^ GF_BITS + x mod (GF_SIZE + 1))
     else x)"
  by pat_completeness auto
termination
proof (relation "measure id", simp, goal_cases)
  case (1 x xa)
  then have "xa < x" "xa = x - 255" "255 \<le> x" by (auto simp: GF_SIZE_def)
  moreover have "xa div 256 + xa mod 256 \<le> xa"
    using div_mult_mod_eq [of xa 256] by linarith
  ultimately have "xa div 256 + xa mod 256 < x" by linarith
  then show ?case by (simp add: GF_BITS_def GF_SIZE_def)
qed

declare modnn.simps [simp del]

definition tables :: gf_tables where "tables = generate_gf no_tables"

text \<open>\<open>init_mul_table\<close>: all products, then row and column zero.\<close>

definition init_mul_table :: "gf_tables \<Rightarrow> u8 list" where
  "init_mul_table t =
     (let n = GF_SIZE + 1;
          table = map (\<lambda>k. gf_exp t ! modnn (gf_log t ! (k div n) + gf_log t ! (k mod n))) [0..<n * n]
      in foldl (\<lambda>table j. table[j * 256 := 0, j := 0]) table [0..<n])"

definition gf_mul_table :: "u8 list" where "gf_mul_table = init_mul_table tables"

definition gf_mul :: "u8 \<Rightarrow> u8 \<Rightarrow> u8" where
  "gf_mul x y = gf_mul_table ! (unat x * 256 + unat y)"

definition inverse_table :: "u8 \<Rightarrow> u8" where
  "inverse_table x = gf_inverse tables ! unat x"

section \<open>Powers of the primitive element\<close>

text \<open>Multiplication by the primitive element: a shift, reduced by the primitive polynomial.\<close>

definition xtime :: "u8 \<Rightarrow> u8" where
  "xtime x = push_bit 1 x XOR (if bit x 7 then 0x1d else 0)"

lemma high_bit: "(128 :: u8) \<le> x \<longleftrightarrow> bit x 7"
proof -
  have "unat x < 256" using unsigned_less [of x, where 'a = nat] by simp
  then have "unat x div 128 = (if 128 \<le> unat x then 1 else 0)"
    by (simp add: div_eq_0_iff le_div_geq)
  moreover have "bit x 7 \<longleftrightarrow> bit (unat x) 7" by (simp add: bit_unsigned_iff)
  then have "bit x 7 \<longleftrightarrow> odd (unat x div 128)" by (simp add: bit_iff_odd)
  ultimately show ?thesis by (simp add: word_le_nat_alt)
qed

lemma bit_push_bit_1: "bit (push_bit 1 (x :: u8)) i \<longleftrightarrow> 0 < i \<and> i < 8 \<and> bit x (i - 1)"
  by (simp only: bit_push_bit_iff possible_bit_word) auto

lemma xtime_step: "(if x \<ge> 128 then 0x1d XOR push_bit 1 (x XOR 128) else push_bit 1 x) = xtime x"
proof -
  have "push_bit 1 (128 :: u8) = 0" by simp
  then have "push_bit 1 (x XOR 128) = push_bit 1 x" by (simp only: push_bit_xor xor.right_neutral)
  then show ?thesis by (simp only: xtime_def high_bit xor.commute [of 29]) (simp only: if_distrib if_cancel split: if_split, simp)
qed

lemma xtime_xor: "xtime (a XOR b) = xtime a XOR xtime b"
  unfolding xtime_def push_bit_xor bit_xor_iff
  by (cases "bit a 7"; cases "bit b 7") (simp_all only: if_True if_False simp_thms xor.assoc xor.left_commute
      xor.commute xor_self_eq xor.right_neutral xor.left_neutral)

lemma xtime_0 [simp]: "xtime 0 = 0"
  by (simp add: xtime_def)

lemma xtime_eq_0: "xtime x = 0 \<longleftrightarrow> x = 0"
proof
  assume x: "xtime x = 0"
  have "bit (xtime x) 0 \<longleftrightarrow> bit x 7"
    by (cases "bit x 7") (simp_all only: xtime_def if_True if_False bit_xor_iff bit_push_bit_1, simp_all)
  then have b7: "\<not> bit x 7" using x by simp
  then have p: "push_bit 1 x = 0" using x by (simp only: xtime_def if_False xor.right_neutral)
  show "x = 0"
  proof (rule bit_word_eqI)
    fix i assume "i < LENGTH(8)"
    then have "i = 7 \<or> Suc i < 8" by fastforce
    moreover have "Suc i < 8 \<Longrightarrow> bit (push_bit 1 x) (Suc i) \<longleftrightarrow> bit x i" by (simp only: bit_push_bit_1) simp
    ultimately show "bit x i \<longleftrightarrow> bit (0 :: u8) i" using b7 p by auto
  qed
qed simp

lemma xor_eq_0_iff: "a XOR b = 0 \<longleftrightarrow> a = (b :: u8)"
proof
  assume z: "a XOR b = 0"
  have "a = (a XOR b) XOR b" by (simp only: xor.assoc xor_self_eq xor.right_neutral)
  then show "a = b" unfolding z by simp
qed simp

lemma xtime_inject: "xtime a = xtime b \<longleftrightarrow> a = b"
  using xtime_eq_0 [of "a XOR b"] by (simp only: xtime_xor xor_eq_0_iff)

definition power_of :: "nat \<Rightarrow> u8" where
  "power_of n = (xtime ^^ n) 1"

lemma xtime_funpow_xor: "(xtime ^^ n) (a XOR b) = (xtime ^^ n) a XOR (xtime ^^ n) b"
  by (induction n) (simp_all add: xtime_xor)

lemma xtime_funpow_0 [simp]: "(xtime ^^ n) 0 = 0"
  by (induction n) simp_all

lemma xtime_funpow_inject: "(xtime ^^ n) a = (xtime ^^ n) b \<longleftrightarrow> a = b"
  by (induction n) (simp_all add: xtime_inject)

lemma power_of_Suc: "power_of (Suc n) = xtime (power_of n)"
  by (simp add: power_of_def)

lemma power_of_add: "power_of (m + n) = (xtime ^^ m) (power_of n)"
  by (simp add: power_of_def funpow_add)

lemma power_of_nz: "power_of n \<noteq> 0"
  by (induction n) (simp_all add: power_of_Suc xtime_eq_0, simp add: power_of_def)

text \<open>Fifteen steps at a time, up to the full period.\<close>

lemma xtime_15: "(xtime ^^ 15) x = xtime (xtime (xtime (xtime (xtime (xtime (xtime (xtime (xtime (xtime (xtime (xtime (xtime (xtime (xtime x))))))))))))))"
  by (simp add: numeral_eq_Suc)

lemma xtime_funpow_15:
  "(xtime ^^ 15) 1 = 38"
  "(xtime ^^ 15) 38 = 96"
  "(xtime ^^ 15) 96 = 193"
  "(xtime ^^ 15) 193 = 185"
  "(xtime ^^ 15) 185 = 15"
  "(xtime ^^ 15) 15 = 223"
  "(xtime ^^ 15) 223 = 26"
  "(xtime ^^ 15) 26 = 59"
  "(xtime ^^ 15) 59 = 169"
  "(xtime ^^ 15) 169 = 85"
  "(xtime ^^ 15) 85 = 145"
  "(xtime ^^ 15) 145 = 150"
  "(xtime ^^ 15) 150 = 100"
  "(xtime ^^ 15) 100 = 89"
  "(xtime ^^ 15) 89 = 36"
  "(xtime ^^ 15) 36 = 44"
  "(xtime ^^ 15) 44 = 1"
  unfolding xtime_15 by (simp_all add: xtime_def)

lemma power_of_15: "power_of (15 + n) = (xtime ^^ 15) (power_of n)"
  by (rule power_of_add)

lemma power_of_multiples:
  "power_of 0 = 1"
  "power_of 15 = 38"
  "power_of 30 = 96"
  "power_of 45 = 193"
  "power_of 60 = 185"
  "power_of 75 = 15"
  "power_of 90 = 223"
  "power_of 105 = 26"
  "power_of 120 = 59"
  "power_of 135 = 169"
  "power_of 150 = 85"
  "power_of 165 = 145"
  "power_of 180 = 150"
  "power_of 195 = 100"
  "power_of 210 = 89"
  "power_of 225 = 36"
  "power_of 240 = 44"
  "power_of 255 = 1"
proof -
  show "power_of 0 = 1" by (simp add: power_of_def)
  then show "power_of 15 = 38" using power_of_15 [of 0] by (simp add: xtime_funpow_15)
  then show "power_of 30 = 96" using power_of_15 [of 15] by (simp add: xtime_funpow_15)
  then show "power_of 45 = 193" using power_of_15 [of 30] by (simp add: xtime_funpow_15)
  then show "power_of 60 = 185" using power_of_15 [of 45] by (simp add: xtime_funpow_15)
  then show "power_of 75 = 15" using power_of_15 [of 60] by (simp add: xtime_funpow_15)
  then show "power_of 90 = 223" using power_of_15 [of 75] by (simp add: xtime_funpow_15)
  then show "power_of 105 = 26" using power_of_15 [of 90] by (simp add: xtime_funpow_15)
  then show "power_of 120 = 59" using power_of_15 [of 105] by (simp add: xtime_funpow_15)
  then show "power_of 135 = 169" using power_of_15 [of 120] by (simp add: xtime_funpow_15)
  then show "power_of 150 = 85" using power_of_15 [of 135] by (simp add: xtime_funpow_15)
  then show "power_of 165 = 145" using power_of_15 [of 150] by (simp add: xtime_funpow_15)
  then show "power_of 180 = 150" using power_of_15 [of 165] by (simp add: xtime_funpow_15)
  then show "power_of 195 = 100" using power_of_15 [of 180] by (simp add: xtime_funpow_15)
  then show "power_of 210 = 89" using power_of_15 [of 195] by (simp add: xtime_funpow_15)
  then show "power_of 225 = 36" using power_of_15 [of 210] by (simp add: xtime_funpow_15)
  then show "power_of 240 = 44" using power_of_15 [of 225] by (simp add: xtime_funpow_15)
  then show "power_of 255 = 1" using power_of_15 [of 240] by (simp add: xtime_funpow_15)
qed

lemma power_of_values: "power_of 15 = 38" "power_of 51 = 10" "power_of 85 = 214" "power_of 255 = 1"
proof -
  have "(xtime ^^ 6) x = xtime (xtime (xtime (xtime (xtime (xtime x)))))" "(xtime ^^ 10) x = xtime (xtime (xtime (xtime (xtime (xtime (xtime (xtime (xtime (xtime x)))))))))" for x by (simp_all add: numeral_eq_Suc)
  moreover have "xtime (xtime (xtime (xtime (xtime (xtime 193))))) = 10" "xtime (xtime (xtime (xtime (xtime (xtime (xtime (xtime (xtime (xtime 15))))))))) = 214" by (simp_all add: xtime_def)
  ultimately show "power_of 51 = 10" "power_of 85 = 214"
    using power_of_add [of 6 45] power_of_add [of 10 75] power_of_multiples(4,6) by simp_all
qed (simp_all add: power_of_multiples)

lemma power_of_period_mult: "power_of d = 1 \<Longrightarrow> power_of (d * k) = 1"
  by (induction k) (simp_all add: power_of_multiples power_of_add [unfolded power_of_def] power_of_def funpow_add)

lemma power_of_diff: "power_of (m + n) = power_of n \<Longrightarrow> power_of m = 1"
proof -
  assume "power_of (m + n) = power_of n"
  then have "(xtime ^^ n) (power_of m) = (xtime ^^ n) 1"
    using power_of_add [of n m] by (simp add: add.commute power_of_def)
  then show ?thesis by (simp only: xtime_funpow_inject)
qed

lemma power_of_mod: "power_of d = 1 \<Longrightarrow> power_of n = power_of (n mod d)"
proof -
  assume d: "power_of d = 1"
  have "power_of n = power_of (n mod d + d * (n div d))" by simp
  also have "\<dots> = (xtime ^^ (n mod d)) 1"
    unfolding power_of_add power_of_period_mult [OF d] ..
  finally show ?thesis by (simp add: power_of_def)
qed

lemma small_divisors_of_255:
  assumes "d * q = (255 :: nat)" "d < 16"
  shows "d = 1 \<or> d = 3 \<or> d = 5 \<or> d = 15"
proof -
  have "\<not> d * q = 255" if "d \<in> {0, 2, 4, 6, 7, 8, 9, 10, 11, 12, 13, 14}"
    using that by (elim insertE emptyE) (simp_all, presburger+)
  moreover have "d \<in> {0, 1, 2, 3, 4, 5, 6, 7, 8, 9, 10, 11, 12, 13, 14, 15}"
    using assms(2) by (simp only: insert_iff empty_iff) presburger
  ultimately show ?thesis using assms(1) by auto
qed

lemma divisors_of_255:
  assumes "d dvd (255 :: nat)"
  shows "d dvd 15 \<or> d dvd 51 \<or> d dvd 85 \<or> d = 255"
proof -
  obtain q where q: "d * q = 255" using assms by (metis dvdE)
  have "d < 16 \<or> q < 16"
  proof (rule ccontr)
    assume "\<not> (d < 16 \<or> q < 16)"
    then have "16 * 16 \<le> d * q" by (intro mult_le_mono) simp_all
    with q show False by simp
  qed
  then consider "d = 1 \<or> d = 3 \<or> d = 5 \<or> d = 15" | "q = 1 \<or> q = 3 \<or> q = 5 \<or> q = 15"
    using small_divisors_of_255 [of d q] small_divisors_of_255 [of q d] q by (auto simp: mult.commute)
  then show ?thesis
  proof cases
    case 1
    then show ?thesis by (elim disjE) simp_all
  next
    case 2
    then have "d = 255 \<or> d = 85 \<or> d = 51 \<or> d = 17" using q by (elim disjE) simp_all
    then show ?thesis by (elim disjE) simp_all
  qed
qed

text \<open>The least period divides 255, and no proper divisor of 255 is a period.\<close>

lemma power_of_order:
  assumes "power_of n = 1" "0 < n"
  shows "255 \<le> n"
proof -
  define d where "d = (LEAST d. 0 < d \<and> power_of d = 1)"
  have ex: "0 < d \<and> power_of d = 1" unfolding d_def by (rule LeastI [of _ n]) (use assms in simp)
  have least: "d \<le> m" if "0 < m" "power_of m = 1" for m
    unfolding d_def by (rule Least_le) (use that in simp)
  have divides: "d dvd m" if "power_of m = 1" for m
  proof (rule ccontr)
    assume "\<not> d dvd m"
    then have "0 < m mod d" by (simp add: mod_greater_zero_iff_not_dvd)
    moreover have "power_of (m mod d) = 1" using power_of_mod [of d m] ex that by simp
    ultimately have "d \<le> m mod d" by (rule least)
    then show False using ex by (metis mod_less_divisor not_less)
  qed
  have no: "\<not> d dvd 15" "\<not> d dvd 51" "\<not> d dvd 85"
    using ex power_of_values power_of_period_mult [of d] by (auto elim!: dvdE)
  have "d = 255" using divisors_of_255 [of d] divides [of 255] power_of_values(4) no by blast
  then show ?thesis using least assms by simp
qed

text \<open>Every non-zero byte is a power, of exactly one exponent below 255.\<close>

lemma power_of_inject: "i < 255 \<Longrightarrow> j < 255 \<Longrightarrow> power_of i = power_of j \<longleftrightarrow> i = j"
proof (induction i j rule: linorder_wlog)
  case (le i j)
  show ?case
  proof
    assume eq: "power_of i = power_of j"
    then have "power_of (j - i) = 1" using power_of_diff [of "j - i" i] le by simp
    then show "i = j" using power_of_order [of "j - i"] le by (cases "i = j") auto
  qed simp
next
  case (sym i j)
  then show ?case by metis
qed

lemma power_of_surj: "x \<noteq> 0 \<Longrightarrow> \<exists>i < 255. power_of i = x"
proof -
  have inj: "inj_on power_of {0..<255}" by (auto intro!: inj_onI simp: power_of_inject)
  have fin: "finite (UNIV :: u8 set)" by simp
  have "card (UNIV - {0 :: u8}) = 255" by (simp add: card_Diff_subset card_word)
  moreover have "card (power_of ` {0..<255}) = 255" using inj by (simp add: card_image)
  moreover have "power_of ` {0..<255} \<subseteq> UNIV - {0}" using power_of_nz by auto
  ultimately have "power_of ` {0..<255} = UNIV - {0}"
    using fin by (metis card_subset_eq finite_Diff)
  moreover assume "x \<noteq> 0"
  ultimately have "x \<in> power_of ` {0..<255}" by blast
  then show ?thesis by auto
qed

definition log_of :: "u8 \<Rightarrow> nat" where
  "log_of x = (LEAST i. power_of i = x)"

lemma log_of_power_of: "i < 255 \<Longrightarrow> log_of (power_of i) = i"
  unfolding log_of_def
  by (rule Least_equality) (auto simp: power_of_inject dest: power_of_inject [THEN iffD1, rotated 2] intro: leI order.strict_trans)

lemma power_of_log_of: "x \<noteq> 0 \<Longrightarrow> power_of (log_of x) = x"
  using power_of_surj [of x] log_of_power_of by auto

lemma log_of_less: "x \<noteq> 0 \<Longrightarrow> log_of x < 255"
  using power_of_surj [of x] log_of_power_of by auto

section \<open>What the tables hold\<close>

definition table_sizes :: "gf_tables \<Rightarrow> bool" where
  "table_sizes t \<longleftrightarrow> length (gf_exp t) = 510 \<and> length (gf_log t) = 256 \<and> length (gf_inverse t) = 256"

text \<open>The first \<open>n\<close> powers are entered, in the table of powers and in that of logarithms.\<close>

definition entered :: "nat \<Rightarrow> gf_tables \<Rightarrow> bool" where
  "entered n t \<longleftrightarrow> table_sizes t \<and> (\<forall>i < n. gf_exp t ! i = power_of i)
     \<and> (\<forall>i < n. gf_log t ! unat (power_of i) = i)"

lemma unat_u8_less: "unat (x :: u8) < 256"
  using unsigned_less [of x, where 'a = nat] by simp

lemma unat_u8_inject: "unat x = unat y \<longleftrightarrow> x = (y :: u8)"
  by (simp add: word_unat_eq_iff)

lemma entered_enter:
  assumes "entered n t" "n < 255"
  shows "entered (Suc n) (set_log (power_of n) n (set_exp n (power_of n) t))"
  using assms unat_u8_less
  by (auto simp: entered_def table_sizes_def set_log_def set_exp_def nth_list_update less_Suc_eq power_of_inject unat_u8_inject)

lemma set_exp_8_entered: "n \<le> 8 \<Longrightarrow> entered n t \<Longrightarrow> entered n (set_exp 8 x t)"
  by (auto simp: entered_def table_sizes_def set_exp_def)

lemma power_of_small: "i < 8 \<Longrightarrow> power_of i = push_bit i 1"
proof -
  have "power_of 1 = 2" "power_of 2 = 4" "power_of 3 = 8" "power_of 4 = 16" "power_of 5 = 32"
    "power_of 6 = 64" "power_of 7 = 128"
    by (simp_all add: power_of_def numeral_eq_Suc, simp_all add: xtime_def)
  moreover assume "i < 8"
  then have "i \<in> {0, 1, 2, 3, 4, 5, 6, 7}" by (simp only: insert_iff empty_iff) presburger
  ultimately show ?thesis using power_of_multiples(1) by (elim insertE emptyE) simp_all
qed

lemma power_of_8: "power_of 8 = 29"
proof -
  have "power_of 8 = xtime (power_of 7)" using power_of_Suc [of 7] by simp
  also have "\<dots> = 29" using power_of_small [of 7] by (simp add: xtime_def)
  finally show ?thesis .
qed

lemma first_power_entered:
  assumes "entered i t" "i < 8"
  shows "entered (Suc i) (first_power t i)"
    "gf_exp (first_power t i) ! 8 = gf_exp t ! 8 XOR (if GF_PP ! i = CHR ''1'' then push_bit i 1 else 0)"
proof -
  have "entered (Suc i) (set_log (push_bit i 1) i (set_exp i (push_bit i 1) t))"
    using entered_enter [OF assms(1)] power_of_small assms(2) by simp
  then show "entered (Suc i) (first_power t i)"
    using assms(2) by (auto simp: first_power_def Let_def GF_BITS_def intro: set_exp_8_entered)
  show "gf_exp (first_power t i) ! 8 = gf_exp t ! 8 XOR (if GF_PP ! i = CHR ''1'' then push_bit i 1 else 0)"
    using assms by (auto simp: first_power_def Let_def GF_BITS_def set_log_def set_exp_def entered_def table_sizes_def)
qed

lemma first_powers:
  assumes "entered 0 t" "gf_exp t ! 8 = 0"
  shows "entered 8 (foldl first_power t [0..<8])" "gf_exp (foldl first_power t [0..<8]) ! 8 = 29"
proof -
  have e: "entered n (foldl first_power t [0..<n])" if "n \<le> 8" for n
    using that
  proof (induction n)
    case 0
    then show ?case using assms by simp
  next
    case (Suc n)
    then show ?case using first_power_entered(1) [of n] by simp
  qed
  show "entered 8 (foldl first_power t [0..<8])" by (rule e) simp
  have x: "gf_exp (foldl first_power t [0..<Suc n]) ! 8
      = gf_exp (foldl first_power t [0..<n]) ! 8 XOR (if GF_PP ! n = CHR ''1'' then push_bit n 1 else 0)"
    if "n < 8" for n
    using first_power_entered(2) [OF e that] that by simp
  show "gf_exp (foldl first_power t [0..<8]) ! 8 = 29"
    using x [of 0] x [of 1] x [of 2] x [of 3] x [of 4] x [of 5] x [of 6] x [of 7] assms(2)
    by (simp add: GF_PP_def eval_nat_numeral del: upt_Suc)
qed

lemma next_power_entered:
  assumes "entered i t" "9 \<le> i" "i < 255"
  shows "entered (Suc i) (next_power t i)"
proof -
  have p: "gf_exp t ! (i - 1) = power_of (i - 1)" "gf_exp t ! 8 = 29"
    using assms by (simp_all add: entered_def power_of_8)
  have m: "push_bit (8 - 1) 1 = (128 :: u8)" and b: "GF_BITS = 8" by (simp_all add: GF_BITS_def)
  have q: "power_of i = xtime (power_of (i - 1))" using power_of_Suc [of "i - 1"] assms by simp
  have "next_power t i = set_log (power_of i) i (set_exp i (power_of i) t)"
    by (simp only: next_power_def Let_def b p m xtime_step q)
  then show ?thesis using entered_enter [OF assms(1,3)] by simp
qed

lemma next_powers: "entered 9 t \<Longrightarrow> entered 255 (foldl next_power t [9..<255])"
proof -
  assume e: "entered 9 t"
  have all: "entered n (foldl next_power t [9..<n])" if "9 \<le> n" "n \<le> 255" for n
    using that
  proof (induction n rule: nat_induct_at_least)
    case base
    then show ?case using e by simp
  next
    case (Suc n)
    then show ?case using next_power_entered [of n] by simp
  qed
  show ?thesis by (rule all) simp_all
qed

text \<open>The final tables.\<close>

lemma copy_powers:
  assumes "length (gf_exp t) = 510" "n \<le> 255"
  shows "let t' = foldl (\<lambda>t i. set_exp (i + 255) (gf_exp t ! i) t) t [0..<n]
    in gf_log t' = gf_log t \<and> gf_inverse t' = gf_inverse t \<and> length (gf_exp t') = 510
      \<and> (\<forall>i < 255. gf_exp t' ! i = gf_exp t ! i) \<and> (\<forall>i < n. gf_exp t' ! (i + 255) = gf_exp t ! i)"
  using assms(2)
proof (induction n)
  case 0
  then show ?case using assms(1) by simp
next
  case (Suc n)
  then show ?case by (auto simp: Let_def set_exp_def nth_list_update less_Suc_eq)
qed

lemma fill_inverse:
  assumes "length (gf_inverse t) = 256" "n \<le> 256" "2 \<le> n"
  shows "let t' = foldl (\<lambda>t i. t\<lparr>gf_inverse := (gf_inverse t)[i := gf_exp t ! (255 - gf_log t ! i)]\<rparr>) t [2..<n]
    in gf_log t' = gf_log t \<and> gf_exp t' = gf_exp t \<and> length (gf_inverse t') = 256
      \<and> (\<forall>i < 2. gf_inverse t' ! i = gf_inverse t ! i)
      \<and> (\<forall>i \<ge> 2. i < n \<longrightarrow> gf_inverse t' ! i = gf_exp t ! (255 - gf_log t ! i))"
  using assms(3,2)
proof (induction n rule: nat_induct_at_least)
  case base
  then show ?case using assms(1) by simp
next
  case (Suc n)
  then show ?case by (auto simp: Let_def nth_list_update less_Suc_eq)
qed

lemma tables_contents:
  "length (gf_exp tables) = 510" "i < 255 \<Longrightarrow> gf_exp tables ! i = power_of i"
  "x \<noteq> 0 \<Longrightarrow> gf_log tables ! unat x = log_of x" "gf_log tables ! 0 = 255"
  "inverse_table 0 = 0" "x \<noteq> 0 \<Longrightarrow> inverse_table x = power_of (255 - log_of x)"
proof -
  define t0 where "t0 = set_exp 8 0 no_tables"
  define t1 where "t1 = foldl first_power t0 [0..<8]"
  define t2 where "t2 = set_log (gf_exp t1 ! 8) 8 t1"
  define t3 where "t3 = foldl next_power t2 [9..<255]"
  define t4 where "t4 = set_log 0 255 t3"
  define t5 where "t5 = foldl (\<lambda>t i. set_exp (i + 255) (gf_exp t ! i) t) t4 [0..<255]"
  define t6 where "t6 = t5\<lparr>gf_inverse := (gf_inverse t5)[0 := 0, 1 := 1]\<rparr>"
  define t7 where "t7 = foldl (\<lambda>t i. t\<lparr>gf_inverse := (gf_inverse t)[i := gf_exp t ! (255 - gf_log t ! i)]\<rparr>) t6 [2..<256]"
  have tab: "tables = t7"
  proof -
    have "GF_BITS = 8" "GF_SIZE = 255" "8 + 1 = (9 :: nat)" "255 + 1 = (256 :: nat)"
      by (simp_all add: GF_BITS_def GF_SIZE_def)
    then show ?thesis unfolding tables_def generate_gf_def Let_def t0_def t1_def t2_def t3_def t4_def t5_def t6_def t7_def by (simp only:)
  qed
  have e0: "entered 0 t0" "gf_exp t0 ! 8 = 0"
    by (simp_all add: t0_def entered_def table_sizes_def no_tables_def set_exp_def GF_SIZE_def)
  note e1 = first_powers [OF e0, folded t1_def]
  have "t2 = set_log (power_of 8) 8 (set_exp 8 (power_of 8) t1)"
    using e1(2) by (simp add: t2_def power_of_8 set_exp_def set_log_def) (metis (no_types, lifting) gf_tables.surjective gf_tables.update_convs(1) list_update_id)
  then have "entered 9 t2" using entered_enter [OF e1(1)] by simp
  note e3 = next_powers [OF this, folded t3_def]
  have s4: "length (gf_exp t4) = 510" "length (gf_log t4) = 256" "length (gf_inverse t4) = 256"
    "gf_log t4 ! 0 = 255" "\<And>i. i < 255 \<Longrightarrow> gf_exp t4 ! i = power_of i"
    using e3 by (simp_all add: t4_def entered_def table_sizes_def set_log_def)
  have log4: "gf_log t4 ! unat x = log_of x" if "x \<noteq> 0" for x
  proof -
    have "0 < unat x" using that by (simp add: unat_gt_0)
    moreover have "gf_log t3 ! unat (power_of (log_of x)) = log_of x"
      using e3 log_of_less [OF that] by (simp add: entered_def)
    ultimately show ?thesis by (simp add: t4_def set_log_def power_of_log_of [OF that])
  qed
  note s5 = copy_powers [OF s4(1) order_refl, unfolded Let_def, folded t5_def]
  have len6: "length (gf_inverse t6) = 256" using s5 s4 by (simp add: t6_def)
  have "(2 :: nat) \<le> 256" by simp
  note s7 = fill_inverse [OF len6 order_refl this, unfolded Let_def, folded t7_def]
  show "length (gf_exp tables) = 510" "i < 255 \<Longrightarrow> gf_exp tables ! i = power_of i"
    "x \<noteq> 0 \<Longrightarrow> gf_log tables ! unat x = log_of x" "gf_log tables ! 0 = 255"
    unfolding tab using s5 s7 s4 log4 by (simp_all add: t6_def)
  show "inverse_table 0 = 0" unfolding inverse_table_def tab using s7 s5 s4 by (simp add: t6_def)
  assume x: "x \<noteq> 0"
  have l1: "log_of 1 = 0" using log_of_power_of [of 0] by (simp add: power_of_multiples)
  show "inverse_table x = power_of (255 - log_of x)"
  proof (cases "x = 1")
    case True
    then show ?thesis unfolding inverse_table_def tab using s7 s5 s4 l1 by (simp add: t6_def power_of_multiples)
  next
    case False
    have "unat x \<noteq> 0" "unat x \<noteq> 1" using x False using unat_u8_inject [of x 0] unat_u8_inject [of x 1] by simp_all
    then have "2 \<le> unat x" by linarith
    then have "inverse_table x = gf_exp t5 ! (255 - log_of x)"
      unfolding inverse_table_def tab using s7 s5 log4 [OF x] unat_u8_less [of x] by (simp add: t6_def)
    also have "\<dots> = power_of (255 - log_of x)"
    proof (cases "log_of x = 0")
      case True
      then show ?thesis using power_of_log_of [OF x] False by (simp add: power_of_multiples)
    next
      case False
      then show ?thesis using s5 s4 by simp
    qed
    finally show ?thesis .
  qed
qed

section \<open>Products\<close>

lemma modnn_mod: "modnn x = x mod 255"
proof (induction x rule: modnn.induct)
  case (1 x)
  show ?case
  proof (cases "255 \<le> x")
    case False
    then show ?thesis by (subst modnn.simps) (simp add: GF_SIZE_def)
  next
    case True
    let ?y = "x - 255"
    have "modnn x = (?y div 256 + ?y mod 256) mod 255"
      using 1 True by (subst modnn.simps) (simp add: GF_SIZE_def GF_BITS_def Let_def)
    also have "\<dots> = (?y div 256 + ?y mod 256 + 255 * (?y div 256)) mod 255"
      by (rule mod_mult_self2 [symmetric])
    also have "\<dots> = (?y div 256 * 256 + ?y mod 256) mod 255"
      by (rule arg_cong [where f = "\<lambda>v. v mod 255"]) linarith
    also have "\<dots> = ?y mod 255" by (simp only: div_mult_mod_eq)
    also have "\<dots> = x mod 255" using True by (simp add: le_mod_geq)
    finally show ?thesis .
  qed
qed

lemma zero_rows:
  assumes "length table = 65536" "n \<le> 256"
  shows "length (foldl (\<lambda>table j. table[j * 256 := 0, j := 0]) table [0..<n]) = 65536
    \<and> (\<forall>k < 65536. foldl (\<lambda>table j. table[j * 256 := 0, j := (0 :: u8)]) table [0..<n] ! k
        = (if k < n \<or> (256 dvd k \<and> k div 256 < n) then 0 else table ! k))"
  using assms(2)
proof (induction n)
  case 0
  then show ?case using assms(1) by simp
next
  case (Suc n)
  then show ?case
    by (auto simp: nth_list_update less_Suc_eq)
qed

lemma gf_mul_log:
  "gf_mul x y = (if x = 0 \<or> y = 0 then 0 else power_of (log_of x + log_of y))"
proof -
  let ?tab = "map (\<lambda>k. gf_exp tables ! modnn (gf_log tables ! (k div 256) + gf_log tables ! (k mod 256))) [0..<65536]"
  let ?k = "unat x * 256 + unat y"
  have bx: "unat x < 256" "unat y < 256" by (rule unat_u8_less)+
  then have k: "?k < 65536" by linarith
  have kd: "?k div 256 = unat x" "?k mod 256 = unat y" using bx by simp_all
  have zero: "?k < 256 \<longleftrightarrow> x = 0" "256 dvd ?k \<longleftrightarrow> y = 0"
    using bx unat_u8_inject [of x 0] unat_u8_inject [of y 0] by (auto simp: dvd_eq_mod_eq_0)
  have "gf_mul_table = foldl (\<lambda>table j. table[j * 256 := 0, j := 0]) ?tab [0..<256]"
  proof -
    have "GF_SIZE + 1 = 256" "256 * 256 = (65536 :: nat)" by (simp_all add: GF_SIZE_def)
    then show ?thesis unfolding gf_mul_table_def init_mul_table_def Let_def by (simp only:)
  qed
  then have "gf_mul x y = (if ?k < 256 \<or> 256 dvd ?k \<and> ?k div 256 < 256 then 0 else ?tab ! ?k)"
    using zero_rows [of ?tab 256] k by (simp add: gf_mul_def del: upt_conv_Cons)
  then have m: "gf_mul x y = (if x = 0 \<or> y = 0 then 0 else ?tab ! ?k)"
    using zero kd bx by simp
  show ?thesis
  proof (cases "x = 0 \<or> y = 0")
    case True
    then show ?thesis using m by simp
  next
    case False
    have "?tab ! ?k = gf_exp tables ! ((log_of x + log_of y) mod 255)"
      using k kd False tables_contents(3) by (simp add: modnn_mod del: upt_conv_Cons)
    also have "\<dots> = power_of ((log_of x + log_of y) mod 255)" by (rule tables_contents(2)) simp
    also have "\<dots> = power_of (log_of x + log_of y)"
      using power_of_mod [OF power_of_values(4)] by simp
    finally show ?thesis using m False by simp
  qed
qed

lemma gf_mul_xtime: "x \<noteq> 0 \<Longrightarrow> gf_mul x y = (xtime ^^ log_of x) y"
  by (cases "y = 0") (simp_all add: gf_mul_log power_of_add power_of_log_of)

lemma gf_mul_commute: "gf_mul x y = gf_mul y x"
  by (auto simp: gf_mul_log add.commute)

lemma gf_mul_xor: "gf_mul x (y XOR z) = gf_mul x y XOR gf_mul x z"
proof (cases "x = 0")
  case True
  then show ?thesis by (simp add: gf_mul_log)
next
  case False
  show ?thesis unfolding gf_mul_xtime [OF False] by (rule xtime_funpow_xor)
qed

lemma gf_mul_eq_0: "gf_mul x y = 0 \<longleftrightarrow> x = 0 \<or> y = 0"
  by (simp add: gf_mul_log power_of_nz)

lemma gf_mul_assoc: "gf_mul (gf_mul x y) z = gf_mul x (gf_mul y z)"
proof (cases "x = 0 \<or> y = 0 \<or> z = 0")
  case True
  then show ?thesis by (auto simp: gf_mul_log)
next
  case False
  have swap: "(xtime ^^ a) ((xtime ^^ b) w) = (xtime ^^ b) ((xtime ^^ a) w)" for a b w
  proof -
    have "(xtime ^^ (a + b)) w = (xtime ^^ (b + a)) w" by (simp only: add.commute)
    then show ?thesis by (simp only: funpow_add comp_apply)
  qed
  have nz: "x \<noteq> 0" "z \<noteq> 0" using False by simp_all
  have "gf_mul (gf_mul x y) z = gf_mul z (gf_mul x y)" by (rule gf_mul_commute)
  also have "\<dots> = (xtime ^^ log_of z) ((xtime ^^ log_of x) y)" unfolding gf_mul_xtime [OF nz(1)] gf_mul_xtime [OF nz(2)] ..
  also have "\<dots> = (xtime ^^ log_of x) ((xtime ^^ log_of z) y)" by (rule swap)
  also have "\<dots> = gf_mul x (gf_mul z y)" unfolding gf_mul_xtime [OF nz(1)] gf_mul_xtime [OF nz(2)] ..
  finally show ?thesis by (simp only: gf_mul_commute [of z y])
qed

lemma gf_mul_1: "gf_mul 1 x = x"
proof -
  have "log_of 1 = 0" using log_of_power_of [of 0] by (simp add: power_of_multiples)
  then show ?thesis by (simp add: gf_mul_xtime)
qed

lemma gf_mul_inverse: "x \<noteq> 0 \<Longrightarrow> gf_mul (inverse_table x) x = 1"
proof -
  assume x: "x \<noteq> 0"
  have "gf_mul (inverse_table x) x = (xtime ^^ log_of x) (inverse_table x)"
    unfolding gf_mul_commute [of "inverse_table x"] gf_mul_xtime [OF x] ..
  also have "\<dots> = power_of (log_of x + (255 - log_of x))"
    unfolding tables_contents(6) [OF x] power_of_add ..
  also have "\<dots> = 1" using log_of_less [OF x] power_of_values(4) by simp
  finally show ?thesis .
qed

text \<open>
  Property C27.  The tables that \<open>generate_gf\<close> and \<open>init_mul_table\<close> compute are the arithmetic
  of a field of 256 elements: multiplication by table lookup is associative and commutative,
  has unit 1, distributes over exclusive or and has no zero divisors, and the inverse table
  holds the multiplicative inverses.
\<close>

theorem gf_tables_field:
  "gf_mul (gf_mul x y) z = gf_mul x (gf_mul y z)
   \<and> gf_mul x y = gf_mul y x
   \<and> gf_mul 1 x = x
   \<and> gf_mul x (y XOR z) = gf_mul x y XOR gf_mul x z
   \<and> (gf_mul x y = 0 \<longleftrightarrow> x = 0 \<or> y = 0)
   \<and> gf_mul (inverse_table x) x = (if x = 0 then 0 else 1)"
proof (intro conjI)
  show "gf_mul x y = 0 \<longleftrightarrow> x = 0 \<or> y = 0" by (rule gf_mul_eq_0)
  show "gf_mul (inverse_table x) x = (if x = 0 then 0 else 1)"
    by (cases "x = 0") (simp_all add: gf_mul_inverse gf_mul_eq_0)
qed (rule gf_mul_assoc gf_mul_commute gf_mul_1 gf_mul_xor)+

section \<open>The field\<close>

typedef gf256 = "UNIV :: u8 set"
  morphisms byte gf ..

setup_lifting type_definition_gf256

instantiation gf256 :: field
begin

lift_definition zero_gf256 :: gf256 is 0 .
lift_definition one_gf256 :: gf256 is 1 .
lift_definition plus_gf256 :: "gf256 \<Rightarrow> gf256 \<Rightarrow> gf256" is "\<lambda>x y. x XOR y" .
lift_definition minus_gf256 :: "gf256 \<Rightarrow> gf256 \<Rightarrow> gf256" is "\<lambda>x y. x XOR y" .
lift_definition uminus_gf256 :: "gf256 \<Rightarrow> gf256" is "\<lambda>x. x" .
lift_definition times_gf256 :: "gf256 \<Rightarrow> gf256 \<Rightarrow> gf256" is gf_mul .
lift_definition inverse_gf256 :: "gf256 \<Rightarrow> gf256" is inverse_table .
lift_definition divide_gf256 :: "gf256 \<Rightarrow> gf256 \<Rightarrow> gf256" is "\<lambda>x y. gf_mul x (inverse_table y)" .

instance
proof
  fix a b c :: gf256
  show "a + b + c = a + (b + c)" by transfer (rule xor.assoc)
  show "a + b = b + a" by transfer (rule xor.commute)
  show "0 + a = a" by transfer simp
  show "- a + a = 0" by transfer simp
  show "a - b = a + - b" by transfer simp
  show "a * b * c = a * (b * c)" by transfer (rule gf_mul_assoc)
  show "a * b = b * a" by transfer (rule gf_mul_commute)
  show "1 * a = a" by transfer (rule gf_mul_1)
  show "(a + b) * c = a * c + b * c"
    by transfer (simp only: gf_mul_commute [of _ "c :: u8" for c] gf_mul_xor)
  show "(0 :: gf256) \<noteq> 1" by transfer simp
  show "a \<noteq> 0 \<Longrightarrow> inverse a * a = 1" by transfer (rule gf_mul_inverse)
  show "a div b = a * inverse b" by transfer simp
  show "inverse (0 :: gf256) = 0" by transfer (rule tables_contents(5))
qed

end

text \<open>The correspondence with the bytes, and characteristic two.\<close>

lemma gf_simps:
  "gf (x XOR y) = gf x + gf y" "gf (gf_mul x y) = gf x * gf y" "gf 0 = 0" "gf 1 = 1"
  "gf (inverse_table x) = inverse (gf x)" "gf x = gf y \<longleftrightarrow> x = y" "gf x = 0 \<longleftrightarrow> x = 0"
  by (simp_all add: plus_gf256_def times_gf256_def zero_gf256_def one_gf256_def inverse_gf256_def
      gf_inverse byte_inverse gf_inject)

lemma gf_byte [simp]: "gf (byte x) = x" by (rule byte_inverse)

lemma byte_gf [simp]: "byte (gf x) = x" by (rule gf_inverse) simp

lemma gf_add_self [simp]: "x + x = (0 :: gf256)" by transfer simp

lemma gf_add_self2 [simp]: "x + (x + y) = (y :: gf256)"
  by (simp flip: add.assoc)

lemma gf_minus [simp]: "x - y = x + (y :: gf256)" by transfer simp

lemma gf_uminus [simp]: "- x = (x :: gf256)" by transfer simp

lemma gf_add_eq_0: "x + y = 0 \<longleftrightarrow> x = (y :: gf256)"
  by transfer (rule xor_eq_0_iff)

end
