(* ===== verification/ReedSolomon.thy ===== *)
theory ReedSolomon
  imports GaloisField
begin

text \<open>
  reedsolomon/rs.c: matrix inversion over the field with 256 elements and the erasure code
  built on it, which the audio and the video receive queues use to recover lost packets.  A
  \<open>gf*\<close> matrix of r rows is the list of its rows; the array of shard pointers is a list of
  blocks, and the pointer arrays handed between the routines are lists of indices into it, so
  aliasing is visible.  The last part proves that any data lost is recovered whenever as many
  parity shards as missing data shards have arrived.
\<close>

section \<open>Operations\<close>

type_synonym matrix = "u8 list list"

definition addmul :: "u8 list \<Rightarrow> u8 list \<Rightarrow> u8 \<Rightarrow> nat \<Rightarrow> u8 list" where
  "addmul dst src c sz =
     (if c \<noteq> 0 then map2 (\<lambda>d s. d XOR gf_mul c s) (take sz dst) (take sz src) @ drop sz dst
      else dst)"

text \<open>The third argument of the \<open>memset\<close> is the coefficient, which is zero on this branch.\<close>

definition mul :: "u8 list \<Rightarrow> u8 list \<Rightarrow> u8 \<Rightarrow> nat \<Rightarrow> u8 list" where
  "mul dst src c sz =
     (if c \<noteq> 0 then map (gf_mul c) (take sz src) @ drop sz dst
      else replicate (unat c) 0 @ drop (unat c) dst)"

definition multiply1 :: "bool \<Rightarrow> matrix \<Rightarrow> nat \<Rightarrow> nat \<Rightarrow> matrix \<Rightarrow> nat \<Rightarrow> nat \<Rightarrow> matrix option option" where
  "multiply1 alloc a ar ac b br bc = do {
     _ \<leftarrow> LC_ASSERT (ac = br);
     Some (if alloc
       then Some (map (\<lambda>r. map (\<lambda>c.
              foldl (\<lambda>tg i. tg XOR gf_mul (a ! r ! i) (b ! i ! c)) 0 [0..<ac]) [0..<bc]) [0..<ar])
       else None)
   }"

definition sub_matrix :: "bool \<Rightarrow> matrix \<Rightarrow> nat \<Rightarrow> nat \<Rightarrow> nat \<Rightarrow> nat \<Rightarrow> matrix option" where
  "sub_matrix alloc M rmin cmin rmax cmax =
     (if alloc then Some (map (\<lambda>i. map (\<lambda>j. M ! i ! j) [cmin..<cmax]) [rmin..<rmax]) else None)"

subsection \<open>Inversion\<close>

datatype pivot = Pivot nat nat | Singular | NotFound

fun scan_pivot :: "matrix \<Rightarrow> nat list \<Rightarrow> (nat \<times> nat) list \<Rightarrow> pivot" where
  "scan_pivot src ipiv [] = NotFound"
| "scan_pivot src ipiv ((row, ix) # rest) =
     (if ipiv ! row \<noteq> 1 then
        (if ipiv ! ix = 0 then
           (if src ! row ! ix \<noteq> 0 then Pivot row ix else scan_pivot src ipiv rest)
         else if ipiv ! ix > 1 then Singular
         else scan_pivot src ipiv rest)
      else scan_pivot src ipiv rest)"

definition find_pivot :: "matrix \<Rightarrow> nat \<Rightarrow> nat list \<Rightarrow> nat \<Rightarrow> pivot" where
  "find_pivot src k ipiv col =
     (if ipiv ! col \<noteq> 1 \<and> src ! col ! col \<noteq> 0 then Pivot col col
      else scan_pivot src ipiv (List.product [0..<k] [0..<k]))"

definition unit_row :: "nat \<Rightarrow> nat \<Rightarrow> u8 list" where
  "unit_row k i = (replicate k 0)[i := 1]"

definition eliminate_row :: "nat \<Rightarrow> nat \<Rightarrow> matrix \<Rightarrow> nat \<Rightarrow> matrix" where
  "eliminate_row k icol src ix =
     (if ix \<noteq> icol then
        let c = src ! ix ! icol
        in src[ix := addmul ((src ! ix)[icol := 0]) (src ! icol) c k]
      else src)"

record inversion =
  src :: matrix
  ipiv :: "nat list"
  indxr :: "nat list"
  indxc :: "nat list"

text \<open>One round of the main loop: \<open>False\<close> is the jump to \<open>fail\<close>.\<close>

definition invert_col :: "nat \<Rightarrow> nat \<Rightarrow> inversion \<Rightarrow> bool \<times> inversion" where
  "invert_col k col s =
     (case find_pivot (src s) k (ipiv s) col of
        Pivot irow icol \<Rightarrow>
          let s = s\<lparr>ipiv := (ipiv s)[icol := ipiv s ! icol + 1]\<rparr>;
              s = (if irow \<noteq> icol
                   then s\<lparr>src := (src s)[irow := src s ! icol, icol := src s ! irow]\<rparr> else s);
              s = s\<lparr>indxr := (indxr s)[col := irow], indxc := (indxc s)[col := icol]\<rparr>;
              c = src s ! icol ! icol
          in if c = 0 then (False, s)
             else let s = (if c \<noteq> 1
                    then s\<lparr>src := (src s)[icol := map (gf_mul (inverse_table c)) ((src s ! icol)[icol := 1])]\<rparr>
                    else s);
                  s = (if src s ! icol \<noteq> unit_row k icol
                    then s\<lparr>src := foldl (eliminate_row k icol) (src s) [0..<k]\<rparr> else s)
                  in (True, s)
      | _ \<Rightarrow> (False, s))"

fun invert_cols :: "nat \<Rightarrow> nat list \<Rightarrow> inversion \<Rightarrow> bool \<times> inversion" where
  "invert_cols k [] s = (True, s)"
| "invert_cols k (col # cols) s =
     (case invert_col k col s of (ok, s) \<Rightarrow> if ok then invert_cols k cols s else (False, s))"

definition swap_columns :: "nat \<Rightarrow> nat \<Rightarrow> nat \<Rightarrow> matrix \<Rightarrow> matrix" where
  "swap_columns k a b M =
     (if a \<ge> k \<or> b \<ge> k then M
      else if a \<noteq> b then map (\<lambda>row. row[a := row ! b, b := row ! a]) M else M)"

definition invert_mat :: "matrix \<Rightarrow> nat \<Rightarrow> int \<times> matrix" where
  "invert_mat M k =
     (let s = \<lparr>src = M, ipiv = replicate k 0, indxr = replicate k 0, indxc = replicate k 0\<rparr>
      in case invert_cols k [0..<k] s of
           (ok, s) \<Rightarrow>
             if ok then (0, foldl (\<lambda>M col. swap_columns k (indxr s ! col) (indxc s ! col) M) (src s) (rev [0..<k]))
             else (1, src s))"

subsection \<open>Coding\<close>

record reed_solomon =
  data_shards :: nat
  parity_shards :: nat
  shards :: nat
  rs_m :: matrix
  parity :: matrix

definition code_some_shards ::
  "matrix \<Rightarrow> nat list \<Rightarrow> nat list \<Rightarrow> nat \<Rightarrow> nat \<Rightarrow> nat \<Rightarrow> u8 list list \<Rightarrow> u8 list list" where
  "code_some_shards rows inputs outputs ds count sz store =
     foldl (\<lambda>store (c, iRow).
         let d = store ! (outputs ! iRow); s = store ! (inputs ! c); x = rows ! iRow ! c
         in store[outputs ! iRow := (if c = 0 then mul d s x sz else addmul d s x sz)])
       store (List.product [0..<ds] [0..<count])"

definition DATA_SHARDS_MAX :: int where "DATA_SHARDS_MAX = 255"

text \<open>\<open>alloc n\<close>: whether the n-th allocation succeeds.\<close>

definition reed_solomon_new :: "(nat \<Rightarrow> bool) \<Rightarrow> int \<Rightarrow> int \<Rightarrow> reed_solomon option option" where
  "reed_solomon_new alloc ds ps =
     (if \<not> alloc 0 then Some None
      else if ds + ps > DATA_SHARDS_MAX \<or> ds \<le> 0 \<or> ps \<le> 0 then Some None
      else if \<not> alloc 1 then Some None
      else let d = nat ds; p = nat ps; n = d + p;
               vm = map (\<lambda>row. map (\<lambda>col. if row = col then 1 else 0) [0..<d]) [0..<n]
           in case sub_matrix (alloc 2) vm 0 0 d d of
                None \<Rightarrow> Some None
              | Some tm \<Rightarrow>
                  (case invert_mat tm d of (err, tm) \<Rightarrow> do {
                     _ \<leftarrow> LC_ASSERT (err = 0);
                     mm \<leftarrow> multiply1 (alloc 3) vm n d tm d d;
                     (case mm of
                        None \<Rightarrow> Some None
                      | Some mm \<Rightarrow>
                          let mm = foldl (\<lambda>mm j. mm[d + j :=
                                map (\<lambda>i. gf_inverse tables ! ((p + i) XOR j)) [0..<d]]) mm [0..<p]
                          in case sub_matrix (alloc 4) mm d 0 n d of
                               None \<Rightarrow> Some None
                             | Some par \<Rightarrow>
                                 Some (Some \<lparr>data_shards = d, parity_shards = p, shards = n, rs_m = mm, parity = par\<rparr>))
                   }))"

subsection \<open>Decoding\<close>

definition sort_pass :: "nat \<Rightarrow> nat list \<Rightarrow> nat list \<times> bool" where
  "sort_pass i xs =
     foldl (\<lambda>(xs, sw) j. if xs ! i > xs ! j then (xs[i := xs ! j, j := xs ! i], True) else (xs, sw))
       (xs, False) [i + 1..<length xs]"

function sort_erased :: "nat \<Rightarrow> nat list \<Rightarrow> nat list" where
  "sort_erased i xs =
     (if i < length xs
      then case sort_pass i xs of (xs', sw) \<Rightarrow>
             if length xs' = length xs \<and> sw then sort_erased (i + 1) xs' else xs'
      else xs)"
  by pat_completeness auto
termination by (relation "measure (\<lambda>(i, xs). length xs - i)") auto

declare sort_erased.simps [simp del]

text \<open>The rows and shards of the data blocks that are there: \<open>erased\<close> is consumed in order.\<close>

fun data_rows :: "nat list \<Rightarrow> nat list \<Rightarrow> nat list" where
  "data_rows [] erased = []"
| "data_rows (i # is) erased =
     (case erased of
        e # es \<Rightarrow> if i = e then data_rows is es else i # data_rows is erased
      | [] \<Rightarrow> i # data_rows is erased)"

text \<open>
  \<open>reed_solomon_decode\<close> on the block group whose data blocks start at \<open>dbase\<close>; the parity
  blocks to use are at the indices \<open>dec_fec\<close> of the store.
\<close>

definition reed_solomon_decode ::
  "reed_solomon \<Rightarrow> nat \<Rightarrow> nat \<Rightarrow> nat list \<Rightarrow> nat list \<Rightarrow> nat list \<Rightarrow> u8 list list \<Rightarrow> int \<times> u8 list list" where
  "reed_solomon_decode rs dbase sz dec_fec fec_nos erased store =
     (let ds = data_shards rs;
          erased = sort_erased 0 erased;
          nr = length erased;
          good = data_rows [0..<ds] erased;
          room = ds - length good;
          matrix = map (\<lambda>i. rs_m rs ! i) good @ map (\<lambda>f. rs_m rs ! (ds + f)) (take room fec_nos);
          subShards = map (\<lambda>i. dbase + i) good @ take room dec_fec
      in if length matrix < ds then (- 1, store)
         else let matrix = snd (invert_mat matrix ds);
                  matrix = foldl (\<lambda>M i. M[i := M ! (erased ! i)]) matrix [0..<nr];
                  outputs = map (\<lambda>e. dbase + e) erased
              in (0, code_some_shards matrix subShards outputs ds nr sz store))"

definition reed_solomon_encode :: "reed_solomon \<Rightarrow> u8 list list \<Rightarrow> nat \<Rightarrow> nat \<Rightarrow> int \<times> u8 list list" where
  "reed_solomon_encode rs store nr_shards sz =
     (let ds = data_shards rs; ps = parity_shards rs; n = nr_shards div shards rs
      in (0, foldl (\<lambda>store g. code_some_shards (parity rs) (map (\<lambda>i. g * ds + i) [0..<ds])
               (map (\<lambda>i. n * ds + g * ps + i) [0..<ps]) ds ps sz store)
             store [0..<(nr_shards + shards rs - 1) div shards rs]))"

text \<open>One group of \<open>reed_solomon_reconstruct\<close>; \<open>marks\<close> and \<open>fec_marks\<close> are the group's.\<close>

definition reconstruct_group ::
  "reed_solomon \<Rightarrow> u8 list \<Rightarrow> nat \<Rightarrow> nat \<Rightarrow> nat \<Rightarrow> nat \<Rightarrow> nat \<Rightarrow> int \<times> u8 list list \<Rightarrow> int \<times> u8 list list" where
  "reconstruct_group rs marks sz dbase mbase fbase fmbase = (\<lambda>(err, store).
     let ds = data_shards rs; ps = parity_shards rs;
         erased = filter (\<lambda>i. marks ! (mbase + i) \<noteq> 0) [0..<ds];
         dn = length erased
     in if dn > 0 then
          let fec_nos = take dn (filter (\<lambda>i. marks ! (fmbase + i) = 0) [0..<ps]);
              dec_fec = map (\<lambda>i. fbase + i) fec_nos
          in if dn = length fec_nos
             then (err, snd (reed_solomon_decode rs dbase sz dec_fec fec_nos erased store))
             else (- 1, store)
        else (err, store))"

definition reed_solomon_reconstruct ::
  "reed_solomon \<Rightarrow> u8 list list \<Rightarrow> u8 list \<Rightarrow> nat \<Rightarrow> nat \<Rightarrow> int \<times> u8 list list" where
  "reed_solomon_reconstruct rs store marks nr_shards sz =
     (let ds = data_shards rs; ps = parity_shards rs; n = nr_shards div shards rs
      in foldl (\<lambda>r j. reconstruct_group rs marks sz (j * ds) (j * ds) (n * ds + j * ps) (n * ds + j * ps) r)
           (0, store) [0..<n])"

section \<open>Inversion is an exchange of variables\<close>

text \<open>
  The in-place elimination keeps a set of linear equations \<open>w i = (\<Sum>j. a i j * z j)\<close>: a
  pivot on entry (c, c) exchanges \<open>w c\<close> and \<open>z c\<close>.  After a pivot on every column the
  equations express the unknowns by the right-hand sides.
\<close>

definition mv :: "nat \<Rightarrow> (nat \<Rightarrow> nat \<Rightarrow> gf256) \<Rightarrow> (nat \<Rightarrow> gf256) \<Rightarrow> nat \<Rightarrow> gf256" where
  "mv k a x i = (\<Sum>j < k. a i j * x j)"

definition equations :: "nat \<Rightarrow> (nat \<Rightarrow> nat \<Rightarrow> gf256) \<Rightarrow> (nat \<Rightarrow> gf256) \<Rightarrow> (nat \<Rightarrow> gf256) \<Rightarrow> bool" where
  "equations k a z w \<longleftrightarrow> (\<forall>i < k. w i = mv k a z i)"

definition pivoted :: "(nat \<Rightarrow> nat \<Rightarrow> gf256) \<Rightarrow> nat \<Rightarrow> nat \<Rightarrow> nat \<Rightarrow> gf256" where
  "pivoted a c i j =
     (if i = c then (if j = c then 1 else a c j) / a c c
      else (if j = c then 0 else a i j) + a i c * ((if j = c then 1 else a c j) / a c c))"

lemma mv_split: "c < k \<Longrightarrow> mv k a z i = a i c * z c + (\<Sum>j \<in> {..<k} - {c}. a i j * z j)"
  unfolding mv_def by (rule sum.remove) simp_all

lemma exchange:
  assumes "c < k" "a c c \<noteq> 0"
  shows "equations k a z w \<longleftrightarrow> equations k (pivoted a c) (z(c := w c)) (w(c := z c))"
proof -
  let ?S = "{..<k} - {c}"
  define s where "s i = (\<Sum>j \<in> ?S. a i j * z j)" for i
  let ?p = "a c c"
  have old: "mv k a z i = a i c * z c + s i" for i
    using mv_split [OF assms(1)] by (simp add: s_def)
  have new_c: "mv k (pivoted a c) (z(c := w c)) c = (w c + s c) / ?p"
  proof -
    have "(\<Sum>j \<in> ?S. pivoted a c c j * (z(c := w c)) j) = (\<Sum>j \<in> ?S. a c j * z j / ?p)"
      by (rule sum.cong) (auto simp: pivoted_def)
    then show ?thesis using mv_split [OF assms(1), of "pivoted a c" "z(c := w c)" c]
      by (simp add: pivoted_def s_def sum_divide_distrib add_divide_distrib)
  qed
  have new_i: "mv k (pivoted a c) (z(c := w c)) i = s i + a i c * ((w c + s c) / ?p)" if "i \<noteq> c" for i
  proof -
    have "(\<Sum>j \<in> ?S. pivoted a c i j * (z(c := w c)) j) = (\<Sum>j \<in> ?S. a i j * z j + a i c * (a c j * z j / ?p))"
      by (rule sum.cong) (auto simp: pivoted_def that distrib_right)
    also have "\<dots> = s i + a i c * (s c / ?p)"
      by (simp add: sum.distrib s_def sum_divide_distrib sum_distrib_left)
    finally show ?thesis using mv_split [OF assms(1), of "pivoted a c" "z(c := w c)" i] that
      by (simp add: pivoted_def add_divide_distrib distrib_left ac_simps)
  qed
  have row_c: "w c = mv k a z c \<longleftrightarrow> z c = mv k (pivoted a c) (z(c := w c)) c"
  proof -
    have "z c = (w c + s c) / ?p \<longleftrightarrow> ?p * z c = w c + s c"
      using assms(2) by (auto simp: field_simps)
    also have "\<dots> \<longleftrightarrow> w c = ?p * z c + s c"
      by (metis add.assoc add.right_neutral gf_add_self)
    finally show ?thesis using old new_c by simp
  qed
  have row_i: "w i = mv k a z i \<longleftrightarrow> w i = mv k (pivoted a c) (z(c := w c)) i"
    if "i \<noteq> c" "w c = mv k a z c" for i
  proof -
    have "(w c + s c) / ?p = z c" using that(2) row_c new_c by simp
    then show ?thesis unfolding new_i [OF that(1)] old by (simp add: add.commute)
  qed
  show ?thesis unfolding equations_def
    by (metis assms(1) fun_upd_apply row_c row_i)
qed

text \<open>Exchanging two rows exchanges their right-hand sides.\<close>

definition tr :: "nat \<Rightarrow> nat \<Rightarrow> nat \<Rightarrow> nat" where
  "tr a b i = (if i = a then b else if i = b then a else i)"

lemma tr_simps [simp]: "tr a b (tr a b i) = i" "tr a a i = i" "a < k \<Longrightarrow> b < k \<Longrightarrow> tr a b i < k \<longleftrightarrow> i < k"
  by (auto simp: tr_def)

lemma tr_bij: "a < k \<Longrightarrow> b < k \<Longrightarrow> bij_betw (tr a b) {..<k} {..<k}"
  by (rule bij_betw_byWitness [where f' = "tr a b"]) auto

lemma equations_swap:
  assumes "r < k" "c < k"
  shows "equations k a z w \<longleftrightarrow> equations k (\<lambda>i. a (tr r c i)) z (\<lambda>i. w (tr r c i))"
proof -
  have "(\<forall>i < k. P i) \<longleftrightarrow> (\<forall>i < k. P (tr r c i))" for P
    using assms by (metis tr_simps(1,3))
  from this [of "\<lambda>i. w i = mv k a z i"] show ?thesis by (simp add: equations_def mv_def)
qed

text \<open>
  The state after pivots on the columns in \<open>S\<close>, with the rows permuted by \<open>\<pi>\<close>, represents
  the equations \<open>y = a0 x\<close>.
\<close>

definition represents ::
  "nat \<Rightarrow> (nat \<Rightarrow> nat \<Rightarrow> gf256) \<Rightarrow> (nat \<Rightarrow> nat \<Rightarrow> gf256) \<Rightarrow> nat set \<Rightarrow> (nat \<Rightarrow> nat) \<Rightarrow> bool" where
  "represents k a0 a S \<pi> \<longleftrightarrow> (\<forall>x y. equations k a0 x y \<longleftrightarrow>
     equations k a (\<lambda>j. if j \<in> S then y (\<pi> j) else x j) (\<lambda>i. if i \<in> S then x i else y (\<pi> i)))"

lemma represents_start: "represents k a a {} id"
  by (simp add: represents_def)

lemma represents_pivot:
  assumes "represents k a0 a S \<pi>" "c < k" "c \<notin> S" "a c c \<noteq> 0"
  shows "represents k a0 (pivoted a c) (insert c S) \<pi>"
  unfolding represents_def
proof (intro allI)
  fix x y :: "nat \<Rightarrow> gf256"
  let ?z = "\<lambda>j. if j \<in> S then y (\<pi> j) else x j" and ?w = "\<lambda>i. if i \<in> S then x i else y (\<pi> i)"
  have upd: "?z(c := ?w c) = (\<lambda>j. if j \<in> insert c S then y (\<pi> j) else x j)"
    "?w(c := ?z c) = (\<lambda>i. if i \<in> insert c S then x i else y (\<pi> i))"
    using assms(3) by auto
  have "equations k a0 x y \<longleftrightarrow> equations k a ?z ?w" using assms(1) unfolding represents_def by blast
  also have "\<dots> \<longleftrightarrow> equations k (pivoted a c) (?z(c := ?w c)) (?w(c := ?z c))"
    by (rule exchange [of c k a, OF assms(2,4)])
  finally show "equations k a0 x y \<longleftrightarrow> equations k (pivoted a c)
      (\<lambda>j. if j \<in> insert c S then y (\<pi> j) else x j) (\<lambda>i. if i \<in> insert c S then x i else y (\<pi> i))"
    unfolding upd .
qed

lemma represents_swap:
  assumes "represents k a0 a S \<pi>" "r < k" "c < k" "r \<notin> S" "c \<notin> S"
  shows "represents k a0 (\<lambda>i. a (tr r c i)) S (\<pi> \<circ> tr r c)"
  unfolding represents_def
proof (intro allI)
  fix x y :: "nat \<Rightarrow> gf256"
  let ?z = "\<lambda>j. if j \<in> S then y (\<pi> j) else x j" and ?w = "\<lambda>i. if i \<in> S then x i else y (\<pi> i)"
  have upd: "(\<lambda>i. ?w (tr r c i)) = (\<lambda>i. if i \<in> S then x i else y ((\<pi> \<circ> tr r c) i))"
    "?z = (\<lambda>j. if j \<in> S then y ((\<pi> \<circ> tr r c) j) else x j)"
    using assms(4,5) by (auto simp: tr_def fun_eq_iff)
  have "equations k a0 x y \<longleftrightarrow> equations k a ?z ?w" using assms(1) unfolding represents_def by blast
  also have "\<dots> \<longleftrightarrow> equations k (\<lambda>i. a (tr r c i)) ?z (\<lambda>i. ?w (tr r c i))"
    by (rule equations_swap [OF assms(2,3)])
  finally show "equations k a0 x y \<longleftrightarrow> equations k (\<lambda>i. a (tr r c i))
      (\<lambda>j. if j \<in> S then y ((\<pi> \<circ> tr r c) j) else x j) (\<lambda>i. if i \<in> S then x i else y ((\<pi> \<circ> tr r c) i))"
    by (simp only: upd(1) upd(2) [symmetric])
qed

text \<open>Injectivity, and what it gives: as long as a column is missing there is a pivot.\<close>

definition injective :: "nat \<Rightarrow> (nat \<Rightarrow> nat \<Rightarrow> gf256) \<Rightarrow> bool" where
  "injective k a \<longleftrightarrow> (\<forall>x. (\<forall>i < k. mv k a x i = 0) \<longrightarrow> (\<forall>j < k. x j = 0))"

lemma represents_has_pivot:
  assumes "represents k a0 a S \<pi>" "injective k a0" "c < k" "c \<notin> S"
  shows "\<exists>i < k. i \<notin> S \<and> a i c \<noteq> 0"
proof (rule ccontr)
  assume no: "\<not> (\<exists>i < k. i \<notin> S \<and> a i c \<noteq> 0)"
  let ?x = "\<lambda>j. if j \<in> S then a j c else if j = c then 1 else 0"
  have "mv k a (\<lambda>j. if j \<in> S then 0 else ?x j) i = a i c" for i
  proof -
    have "mv k a (\<lambda>j. if j \<in> S then 0 else ?x j) i = (\<Sum>j < k. if j = c then a i c else 0)"
      unfolding mv_def by (rule sum.cong) (use assms(4) in auto)
    then show ?thesis using assms(3) by simp
  qed
  then have "equations k a (\<lambda>j. if j \<in> S then (\<lambda>_. 0) (\<pi> j) else ?x j) (\<lambda>i. if i \<in> S then ?x i else (\<lambda>_. 0) (\<pi> i))"
    using no unfolding equations_def by auto
  then have "equations k a0 ?x (\<lambda>_. 0)" using assms(1) unfolding represents_def by blast
  then have "\<forall>i < k. mv k a0 ?x i = 0" by (simp add: equations_def)
  then have "?x c = 0" using assms(2,3) unfolding injective_def by blast
  then show False using assms(4) by simp
qed

section \<open>The code performs the exchanges\<close>

definition ent :: "matrix \<Rightarrow> nat \<Rightarrow> nat \<Rightarrow> gf256" where
  "ent M i j = gf (M ! i ! j)"

definition shape :: "nat \<Rightarrow> matrix \<Rightarrow> bool" where
  "shape k M \<longleftrightarrow> length M = k \<and> (\<forall>i < k. length (M ! i) = k)"

lemma equations_cong:
  assumes "\<And>i j. i < k \<Longrightarrow> j < k \<Longrightarrow> a i j = b i j"
  shows "equations k a z w \<longleftrightarrow> equations k b z w"
proof -
  have "mv k a z i = mv k b z i" if "i < k" for i
    unfolding mv_def by (rule sum.cong) (use assms that in auto)
  then show ?thesis by (simp add: equations_def)
qed

lemma represents_cong:
  assumes "represents k a0 a S \<pi>" "\<And>i j. i < k \<Longrightarrow> j < k \<Longrightarrow> a i j = b i j"
  shows "represents k a0 b S \<pi>"
  using assms(1) equations_cong [of k a b, OF assms(2)] unfolding represents_def by blast

lemma scan_pivot_found:
  "scan_pivot M piv ps = Pivot r c \<Longrightarrow> (r, c) \<in> set ps \<and> piv ! r \<noteq> 1 \<and> piv ! c = 0 \<and> M ! r ! c \<noteq> 0"
  by (induction M piv ps rule: scan_pivot.induct) (auto split: if_splits)

lemma scan_pivot_none:
  "scan_pivot M piv ps = NotFound \<Longrightarrow> (r, c) \<in> set ps \<Longrightarrow> piv ! r \<noteq> 1 \<Longrightarrow> piv ! c = 0 \<Longrightarrow> M ! r ! c = 0"
  by (induction M piv ps rule: scan_pivot.induct) (auto split: if_splits)

lemma scan_pivot_singular:
  "scan_pivot M piv ps = Singular \<Longrightarrow> \<exists>(r, c) \<in> set ps. piv ! c > 1"
  by (induction M piv ps rule: scan_pivot.induct) (auto split: if_splits)

lemma swap_rows_ent:
  assumes "shape k M" "r < k" "c < k" "r \<noteq> c" "i < k"
  shows "ent (M[r := M ! c, c := M ! r]) i j = ent M (tr r c i) j"
  using assms by (auto simp: ent_def shape_def tr_def nth_list_update)

lemma swap_rows_shape: "shape k M \<Longrightarrow> r < k \<Longrightarrow> c < k \<Longrightarrow> shape k (M[r := M ! c, c := M ! r])"
  by (auto simp: shape_def nth_list_update)

definition scaled :: "nat \<Rightarrow> matrix \<Rightarrow> matrix" where
  "scaled c M = (if M ! c ! c \<noteq> 1
     then M[c := map (gf_mul (inverse_table (M ! c ! c))) ((M ! c)[c := 1])] else M)"

lemma scaled_ent:
  assumes "shape k M" "c < k" "i < k" "j < k" "M ! c ! c \<noteq> 0"
  shows "ent (scaled c M) i j = (if i = c then (if j = c then 1 else ent M c j) / ent M c c else ent M i j)"
  using assms by (auto simp: scaled_def ent_def shape_def nth_list_update gf_simps divide_inverse mult.commute)

lemma scaled_shape: "shape k M \<Longrightarrow> c < k \<Longrightarrow> shape k (scaled c M)"
  by (auto simp: scaled_def shape_def nth_list_update)

lemma addmul_nth:
  assumes "length dst = k" "length src' = k" "j < k"
  shows "gf (addmul dst src' c k ! j) = gf (dst ! j) + gf c * gf (src' ! j)" "length (addmul dst src' c k) = k"
  using assms by (auto simp: addmul_def gf_simps)

lemma eliminate_rows:
  assumes "shape k M" "c < k" "n \<le> k"
  shows "shape k (foldl (eliminate_row k c) M [0..<n])
    \<and> (\<forall>i < k. \<forall>j < k. ent (foldl (eliminate_row k c) M [0..<n]) i j =
        (if i < n \<and> i \<noteq> c then (if j = c then 0 else ent M i j) + ent M i c * ent M c j else ent M i j))"
  using assms(3)
proof (induction n)
  case 0
  then show ?case using assms(1) by simp
next
  case (Suc n)
  let ?N = "foldl (eliminate_row k c) M [0..<n]"
  have ih: "shape k ?N" "\<And>i j. i < k \<Longrightarrow> j < k \<Longrightarrow> ent ?N i j =
      (if i < n \<and> i \<noteq> c then (if j = c then 0 else ent M i j) + ent M i c * ent M c j else ent M i j)"
    using Suc by simp_all
  have step: "foldl (eliminate_row k c) M [0..<Suc n] = eliminate_row k c ?N n" by simp
  show ?case
  proof (cases "n = c")
    case True
    then have "eliminate_row k c ?N n = ?N" by (simp add: eliminate_row_def)
    then show ?thesis unfolding step using ih True by (auto simp: less_Suc_eq)
  next
    case False
    have len: "length ((?N ! n)[c := 0]) = k" "length (?N ! c) = k" using ih(1) Suc.prems assms(2) by (simp_all add: shape_def)
    have N: "eliminate_row k c ?N n = ?N[n := addmul ((?N ! n)[c := 0]) (?N ! c) (?N ! n ! c) k]"
      using False by (simp add: eliminate_row_def Let_def)
    have e: "ent (eliminate_row k c ?N n) i j = (if i = n
        then (if j = c then 0 else ent ?N n j) + ent ?N n c * ent ?N c j else ent ?N i j)"
      if "i < k" "j < k" for i j
      using that len addmul_nth(1) [OF len that(2), of "?N ! n ! c"] ih(1) Suc.prems unfolding N
      by (auto simp: ent_def shape_def nth_list_update gf_simps)
    have "shape k (eliminate_row k c ?N n)"
      using ih(1) addmul_nth(2) [OF len assms(2)] Suc.prems unfolding N by (auto simp: shape_def nth_list_update)
    then show ?thesis unfolding step using e ih(2) False Suc.prems assms(2) by (auto simp: less_Suc_eq)
  qed
qed

text \<open>Scaling and eliminating, with the test that skips the elimination, are the pivot.\<close>

definition eliminated :: "nat \<Rightarrow> nat \<Rightarrow> matrix \<Rightarrow> matrix" where
  "eliminated k c M = (if M ! c \<noteq> unit_row k c then foldl (eliminate_row k c) M [0..<k] else M)"

lemma eliminated_scaled:
  assumes "shape k M" "c < k" "M ! c ! c \<noteq> 0"
  shows "shape k (eliminated k c (scaled c M))"
    "i < k \<Longrightarrow> j < k \<Longrightarrow> ent (eliminated k c (scaled c M)) i j = pivoted (ent M) c i j"
proof -
  let ?N = "scaled c M"
  have sh: "shape k ?N" by (rule scaled_shape [OF assms(1,2)])
  note e = eliminate_rows [OF sh assms(2) order_refl]
  show "shape k (eliminated k c ?N)" using e sh by (simp add: eliminated_def)
  assume ij: "i < k" "j < k"
  have N: "ent ?N i j = (if i = c then (if j = c then 1 else ent M c j) / ent M c c else ent M i j)"
    if "i < k" "j < k" for i j
    using scaled_ent [OF assms(1,2) that assms(3)] .
  show "ent (eliminated k c ?N) i j = pivoted (ent M) c i j"
  proof (cases "?N ! c = unit_row k c")
    case True
    then have u: "ent ?N c j = (if j = c then 1 else 0)" if "j < k" for j
      using that assms(2) by (simp add: ent_def unit_row_def nth_list_update gf_simps)
    have "ent (eliminated k c ?N) i j = ent ?N i j" using True by (simp add: eliminated_def)
    also have "\<dots> = pivoted (ent M) c i j"
      using N [OF ij] u [OF ij(2)] N [OF assms(2) ij(2)] by (auto simp: pivoted_def)
    finally show ?thesis .
  next
    case False
    then have "ent (eliminated k c ?N) i j =
        (if i \<noteq> c then (if j = c then 0 else ent ?N i j) + ent ?N i c * ent ?N c j else ent ?N i j)"
      using e ij by (simp add: eliminated_def)
    then show ?thesis using N [OF ij] N [OF ij(1) assms(2)] N [OF assms(2) ij(2)]
      by (auto simp: pivoted_def)
  qed
qed

text \<open>The invariant of the main loop.\<close>

definition row_permutation :: "inversion \<Rightarrow> nat \<Rightarrow> nat \<Rightarrow> nat" where
  "row_permutation s n = foldl (\<lambda>p col. p \<circ> tr (indxr s ! col) (indxc s ! col)) id [0..<n]"

definition inverting :: "nat \<Rightarrow> (nat \<Rightarrow> nat \<Rightarrow> gf256) \<Rightarrow> nat \<Rightarrow> nat set \<Rightarrow> inversion \<Rightarrow> bool" where
  "inverting k a0 n S s \<longleftrightarrow> shape k (src s) \<and> length (ipiv s) = k \<and> length (indxr s) = k \<and> length (indxc s) = k
     \<and> (\<forall>i < k. ipiv s ! i = (if i \<in> S then 1 else 0)) \<and> S \<subseteq> {..<k} \<and> card S = n
     \<and> (\<forall>col < n. indxr s ! col < k \<and> indxc s ! col < k)
     \<and> represents k a0 (ent (src s)) S (row_permutation s n)"

lemma find_pivot_found:
  assumes "inverting k a0 n S s" "n < k" "find_pivot (src s) k (ipiv s) n = Pivot r c"
  shows "r < k" "c < k" "r \<notin> S" "c \<notin> S" "src s ! r ! c \<noteq> 0"
proof -
  have "r < k \<and> c < k \<and> ipiv s ! r \<noteq> 1 \<and> ipiv s ! c \<noteq> 1 \<and> src s ! r ! c \<noteq> 0"
    using assms scan_pivot_found [of "src s" "ipiv s" "List.product [0..<k] [0..<k]" r c]
    by (auto simp: find_pivot_def split: if_splits)
  then show "r < k" "c < k" "r \<notin> S" "c \<notin> S" "src s ! r ! c \<noteq> 0"
    using assms(1) by (auto simp: inverting_def)
qed

lemma find_pivot_exists:
  assumes "inverting k a0 n S s" "n < k" "injective k a0"
  shows "\<exists>r c. find_pivot (src s) k (ipiv s) n = Pivot r c"
proof -
  have inv: "represents k a0 (ent (src s)) S (row_permutation s n)" "\<And>i. i < k \<Longrightarrow> ipiv s ! i = (if i \<in> S then 1 else 0)"
    "S \<subseteq> {..<k}" "card S = n" using assms(1) by (simp_all add: inverting_def)
  have "S \<noteq> {..<k}" using inv(4) assms(2) by auto
  then obtain c where c: "c < k" "c \<notin> S" using inv(3) by auto
  obtain r where r: "r < k" "r \<notin> S" "ent (src s) r c \<noteq> 0"
    using represents_has_pivot [OF inv(1) assms(3) c] by blast
  let ?ps = "List.product [0..<k] [0..<k]"
  have "scan_pivot (src s) (ipiv s) ?ps \<noteq> NotFound"
    using scan_pivot_none [of "src s" "ipiv s" ?ps r c] r c inv(2) by (auto simp: ent_def gf_simps)
  moreover have "scan_pivot (src s) (ipiv s) ?ps \<noteq> Singular"
    using scan_pivot_singular [of "src s" "ipiv s" ?ps] inv(2) by (auto split: if_splits)
  ultimately show ?thesis
    by (cases "scan_pivot (src s) (ipiv s) ?ps") (auto simp: find_pivot_def)
qed

lemma foldl_cong_upt:
  "(\<And>col. col < n \<Longrightarrow> f col = g col) \<Longrightarrow> foldl (\<lambda>p col. p \<circ> f col) q [0..<n] = foldl (\<lambda>p col. p \<circ> g col) q [0..<n]"
  by (induction n) simp_all

lemma invert_col_pivot:
  assumes "inverting k a0 n S s" "n < k" "find_pivot (src s) k (ipiv s) n = Pivot r c"
  shows "\<exists>s'. invert_col k n s = (True, s') \<and> inverting k a0 (Suc n) (insert c S) s'"
proof -
  note f = find_pivot_found [OF assms]
  have inv: "shape k (src s)" "length (ipiv s) = k" "length (indxr s) = k" "length (indxc s) = k"
    "\<And>i. i < k \<Longrightarrow> ipiv s ! i = (if i \<in> S then 1 else 0)" "S \<subseteq> {..<k}" "card S = n"
    "\<And>col. col < n \<Longrightarrow> indxr s ! col < k \<and> indxc s ! col < k"
    "represents k a0 (ent (src s)) S (row_permutation s n)" using assms(1) by (simp_all add: inverting_def)
  let ?M1 = "if r \<noteq> c then (src s)[r := src s ! c, c := src s ! r] else src s"
  let ?s' = "\<lparr>src = eliminated k c (scaled c ?M1), ipiv = (ipiv s)[c := ipiv s ! c + 1],
     indxr = (indxr s)[n := r], indxc = (indxc s)[n := c]\<rparr>"
  have M1: "shape k ?M1" "?M1 ! c ! c \<noteq> 0"
    using f inv(1) swap_rows_shape by (auto simp: shape_def nth_list_update)
  have run: "invert_col k n s = (True, ?s')"
    using assms(3) M1(2) by (auto simp: invert_col_def Let_def scaled_def eliminated_def)
  have ent1: "ent ?M1 i j = ent (src s) (tr r c i) j" if "i < k" for i j
    using swap_rows_ent [OF inv(1) f(1,2) _ that] by simp
  have perm: "row_permutation ?s' (Suc n) = row_permutation s n \<circ> tr r c"
  proof -
    have "foldl (\<lambda>p col. p \<circ> tr ((indxr s)[n := r] ! col) ((indxc s)[n := c] ! col)) id [0..<n] = row_permutation s n"
      unfolding row_permutation_def by (rule foldl_cong_upt) simp
    then show ?thesis using inv(3,4) assms(2) by (simp add: row_permutation_def)
  qed
  have "represents k a0 (\<lambda>i. ent (src s) (tr r c i)) S (row_permutation s n \<circ> tr r c)"
    by (rule represents_swap [OF inv(9) f(1-4)])
  then have "represents k a0 (ent ?M1) S (row_permutation s n \<circ> tr r c)"
    by (rule represents_cong) (simp add: ent1)
  then have "represents k a0 (pivoted (ent ?M1) c) (insert c S) (row_permutation s n \<circ> tr r c)"
    using M1(2) by (intro represents_pivot [OF _ f(2,4)]) (simp_all add: ent_def gf_simps)
  then have "represents k a0 (ent (src ?s')) (insert c S) (row_permutation ?s' (Suc n))"
    unfolding perm by (rule represents_cong) (simp add: eliminated_scaled(2) [OF M1(1) f(2) M1(2)])
  moreover have "card (insert c S) = Suc n"
    using f(4) inv(6,7) finite_subset [of S "{..<k}"] by simp
  moreover have "shape k (src ?s')" using eliminated_scaled(1) [OF M1(1) f(2) M1(2)] by simp
  ultimately have "inverting k a0 (Suc n) (insert c S) ?s'"
    using inv f assms(2) unfolding inverting_def by (auto simp: nth_list_update less_Suc_eq)
  then show ?thesis using run by blast
qed

lemma invert_cols_inverting:
  assumes "n \<le> k" "inverting k a0 n S s"
  shows "invert_cols k [n..<k] s = (True, s') \<Longrightarrow> inverting k a0 k {..<k} s'"
    "injective k a0 \<Longrightarrow> fst (invert_cols k [n..<k] s)"
  using assms
proof (induction n arbitrary: S s rule: inc_induct)
  case base
  have "S = {..<k}" if "inverting k a0 k S s" for S and s :: inversion
    using that by (intro card_subset_eq) (simp_all add: inverting_def)
  { case 1 then show ?case using \<open>\<And>S s. inverting k a0 k S s \<Longrightarrow> S = {..<k}\<close> by auto
  next
    case 2 then show ?case by simp }
next
  case (step n)
  have cols: "[n..<k] = n # [Suc n..<k]" using step.hyps by (simp add: upt_conv_Cons)
  have next_pivot: "\<exists>r c s1. find_pivot (src s) k (ipiv s) n = Pivot r c \<and> invert_col k n s = (True, s1)
      \<and> inverting k a0 (Suc n) (insert c S) s1"
    if "find_pivot (src s) k (ipiv s) n = Pivot r c" "inverting k a0 n S s" for r c S and s :: inversion
    using invert_col_pivot [OF that(2) _ that(1)] step.hyps that(1) by blast
  { case 1
    have "fst (invert_col k n s)" using 1(1) by (auto simp: cols split: prod.splits if_splits)
    then obtain r c where "find_pivot (src s) k (ipiv s) n = Pivot r c"
      by (auto simp: invert_col_def split: pivot.splits)
    from next_pivot [OF this 1(2)] obtain c s1 where "invert_col k n s = (True, s1)"
      "inverting k a0 (Suc n) (insert c S) s1" by blast
    then show ?case using step.IH(1) 1(1) by (simp add: cols)
  next
    case 2
    obtain r c where "find_pivot (src s) k (ipiv s) n = Pivot r c"
      using find_pivot_exists [OF 2(2) _ 2(1)] step.hyps by blast
    from next_pivot [OF this 2(2)] obtain c s1 where "invert_col k n s = (True, s1)"
      "inverting k a0 (Suc n) (insert c S) s1" by blast
    then show ?case using step.IH(2) 2(1) by (simp add: cols) }
qed

lemma row_permutation_bij:
  "\<forall>col < n. indxr s ! col < k \<and> indxc s ! col < k \<Longrightarrow> bij_betw (row_permutation s n) {..<k} {..<k}"
proof (induction n)
  case 0
  then show ?case by (simp add: row_permutation_def bij_betw_def)
next
  case (Suc n)
  then have "bij_betw (row_permutation s n \<circ> tr (indxr s ! n) (indxc s ! n)) {..<k} {..<k}"
    by (intro bij_betw_trans [OF tr_bij]) simp_all
  then show ?case by (simp add: row_permutation_def comp_def)
qed

lemma swap_columns_ent:
  assumes "shape k M" "a < k" "b < k"
  shows "shape k (swap_columns k a b M)"
    "i < k \<Longrightarrow> j < k \<Longrightarrow> ent (swap_columns k a b M) i j = ent M i (tr a b j)"
  using assms by (auto simp: swap_columns_def shape_def ent_def tr_def nth_list_update)

definition unscrambled :: "nat \<Rightarrow> inversion \<Rightarrow> nat \<Rightarrow> matrix" where
  "unscrambled k s n = foldl (\<lambda>M col. swap_columns k (indxr s ! col) (indxc s ! col) M) (src s) (rev [n..<k])"

lemma unscrambled_ent:
  assumes "inverting k a0 k S s" "n \<le> k"
  shows "shape k (unscrambled k s n) \<and> (\<forall>i < k. \<forall>j < k. \<forall>j' < k.
    row_permutation s k j = row_permutation s n j' \<longrightarrow> ent (unscrambled k s n) i j' = ent (src s) i j)"
  using assms(2)
proof (induction n rule: inc_induct)
  case base
  have "inj_on (row_permutation s k) {..<k}"
    using row_permutation_bij [of k s k] assms(1) by (auto simp: inverting_def bij_betw_def)
  then show ?case using assms(1) by (auto simp: unscrambled_def inverting_def inj_on_def)
next
  case (step n)
  let ?r = "indxr s ! n" and ?c = "indxc s ! n" and ?M = "unscrambled k s (Suc n)"
  have rc: "?r < k" "?c < k" using assms(1) step.hyps by (auto simp: inverting_def)
  have M: "unscrambled k s n = swap_columns k ?r ?c ?M"
    using step.hyps by (simp add: unscrambled_def upt_conv_Cons)
  have undo: "row_permutation s (Suc n) (tr ?r ?c j') = row_permutation s n j'" for j'
    by (simp add: row_permutation_def)
  show ?case
  proof (intro conjI allI impI)
    show "shape k (unscrambled k s n)" using swap_columns_ent(1) [OF _ rc] step.IH M by simp
    fix i j j'
    assume "i < k" "j < k" "j' < k" "row_permutation s k j = row_permutation s n j'"
    then show "ent (unscrambled k s n) i j' = ent (src s) i j"
      using swap_columns_ent(2) [of k ?M ?r ?c i j'] step.IH rc undo [of j'] M by simp
  qed
qed

text \<open>Correctness of \<open>invert_mat\<close>: it succeeds exactly on the regular matrices.\<close>

lemma invert_mat_inverse:
  assumes "shape k A" "invert_mat A k = (0, B)"
  shows "shape k B" "equations k (ent A) x y \<longleftrightarrow> equations k (ent B) y x"
proof -
  let ?s0 = "\<lparr>src = A, ipiv = replicate k 0, indxr = replicate k 0, indxc = replicate k 0\<rparr>"
  have i0: "inverting k (ent A) 0 {} ?s0"
    using assms(1) represents_start by (auto simp: inverting_def row_permutation_def)
  obtain s where s: "invert_cols k [0..<k] ?s0 = (True, s)" and B: "B = unscrambled k s 0"
    using assms(2) by (auto simp: invert_mat_def unscrambled_def split: prod.splits if_splits)
  have inv: "inverting k (ent A) k {..<k} s" by (rule invert_cols_inverting(1) [OF _ i0 s]) simp
  note u = unscrambled_ent [OF inv, of 0, folded B]
  show "shape k B" using u by simp
  let ?p = "row_permutation s k"
  have bij: "bij_betw ?p {..<k} {..<k}" by (rule row_permutation_bij) (use inv in \<open>simp add: inverting_def\<close>)
  have col: "ent B i (?p j) = ent (src s) i j" if "i < k" "j < k" for i j
  proof -
    have "?p j < k" using bij that(2) by (auto simp: bij_betw_def)
    then show ?thesis using u that by (simp add: row_permutation_def)
  qed
  have mvB: "mv k (ent B) y i = mv k (ent (src s)) (\<lambda>j. y (?p j)) i" if "i < k" for i
  proof -
    have "mv k (ent B) y i = (\<Sum>j < k. ent B i (?p j) * y (?p j))"
      unfolding mv_def by (rule sum.reindex_bij_betw [OF bij, symmetric])
    also have "\<dots> = mv k (ent (src s)) (\<lambda>j. y (?p j)) i"
      unfolding mv_def by (rule sum.cong) (use col that in auto)
    finally show ?thesis .
  qed
  have "equations k (ent A) x y \<longleftrightarrow> equations k (ent (src s)) (\<lambda>j. if j \<in> {..<k} then y (?p j) else x j)
      (\<lambda>i. if i \<in> {..<k} then x i else y (?p i))"
    using inv unfolding inverting_def represents_def by blast
  also have "\<dots> \<longleftrightarrow> (\<forall>i < k. x i = mv k (ent (src s)) (\<lambda>j. y (?p j)) i)"
    by (simp add: equations_def mv_def)
  also have "\<dots> \<longleftrightarrow> equations k (ent B) y x" using mvB by (auto simp: equations_def)
  finally show "equations k (ent A) x y \<longleftrightarrow> equations k (ent B) y x" .
qed

lemma invert_mat_succeeds:
  assumes "shape k A" "injective k (ent A)"
  shows "\<exists>B. invert_mat A k = (0, B)"
proof -
  let ?s0 = "\<lparr>src = A, ipiv = replicate k 0, indxr = replicate k 0, indxc = replicate k 0\<rparr>"
  have i0: "inverting k (ent A) 0 {} ?s0"
    using assms(1) represents_start by (auto simp: inverting_def row_permutation_def)
  have "fst (invert_cols k [0..<k] ?s0)" by (rule invert_cols_inverting(2) [OF _ i0 assms(2)]) simp
  then show ?thesis by (auto simp: invert_mat_def split: prod.splits)
qed

lemma invert_mat_regular:
  assumes "shape k A" "invert_mat A k = (0, B)"
  shows "injective k (ent A)"
  unfolding injective_def
proof (intro allI impI)
  fix x j
  assume "\<forall>i < k. mv k (ent A) x i = 0" and j: "j < k"
  then have "equations k (ent A) x (\<lambda>_. 0)" by (simp add: equations_def)
  then have "equations k (ent B) (\<lambda>_. 0) x" using invert_mat_inverse(2) [OF assms] by blast
  then show "x j = 0" using j by (simp add: equations_def mv_def)
qed

section \<open>Coding computes linear combinations\<close>

definition combination :: "nat \<Rightarrow> (nat \<Rightarrow> gf256) \<Rightarrow> (nat \<Rightarrow> u8 list) \<Rightarrow> nat \<Rightarrow> gf256" where
  "combination ds coeff blk b = (\<Sum>c < ds. coeff c * gf (blk c ! b))"

lemma mul_nth:
  assumes "length dst = sz" "length s = sz" "b < sz" "c \<noteq> 0"
  shows "gf (mul dst s c sz ! b) = gf c * gf (s ! b)" "length (mul dst s c sz) = sz"
  using assms by (simp_all add: mul_def gf_simps)

lemma foldl_list_updates:
  assumes "inj_on ix {..<n}" "\<forall>r < n. ix r < length st" "\<forall>r < n. ix r \<noteq> q" "k \<le> n"
  shows "length (foldl (\<lambda>st r. st[ix r := F r (st ! ix r) (st ! q)]) st [0..<k]) = length st
    \<and> (\<forall>i. i \<notin> ix ` {..<k} \<longrightarrow> foldl (\<lambda>st r. st[ix r := F r (st ! ix r) (st ! q)]) st [0..<k] ! i = st ! i)
    \<and> (\<forall>r < k. foldl (\<lambda>st r. st[ix r := F r (st ! ix r) (st ! q)]) st [0..<k] ! ix r = F r (st ! ix r) (st ! q))"
  using assms(4)
proof (induction k)
  case 0
  then show ?case by simp
next
  case (Suc k)
  let ?st = "foldl (\<lambda>st r. st[ix r := F r (st ! ix r) (st ! q)]) st [0..<k]"
  have ih: "length ?st = length st" "\<And>i. i \<notin> ix ` {..<k} \<Longrightarrow> ?st ! i = st ! i"
    "\<And>r. r < k \<Longrightarrow> ?st ! ix r = F r (st ! ix r) (st ! q)" using Suc by simp_all
  have new: "ix k \<notin> ix ` {..<k}"
  proof
    assume "ix k \<in> ix ` {..<k}"
    then obtain r where r: "r < k" "ix k = ix r" by blast
    have "k = r" by (rule inj_onD [OF assms(1) r(2)]) (use r Suc.prems in simp_all)
    with \<open>r < k\<close> show False by simp
  qed
  have "q \<notin> ix ` {..<k}"
  proof
    assume "q \<in> ix ` {..<k}"
    then obtain r where "r < k" "q = ix r" by blast
    then show False using assms(3) [rule_format, of r] Suc.prems by simp
  qed
  then have q: "?st ! q = st ! q" by (rule ih(2))
  have neq: "ix k \<noteq> ix r" if "r < k" for r using new that by (metis image_eqI lessThan_iff)
  have "?st ! ix k = st ! ix k" by (rule ih(2) [OF new])
  then have L: "foldl (\<lambda>st r. st[ix r := F r (st ! ix r) (st ! q)]) st [0..<Suc k]
      = ?st[ix k := F k (st ! ix k) (st ! q)]" by (simp add: q)
  have "ix k < length ?st" using ih(1) assms(2) Suc.prems by simp
  then show ?case unfolding L using ih neq by (auto simp: less_Suc_eq lessThan_Suc)
qed

definition shards_ready :: "nat \<Rightarrow> nat list \<Rightarrow> nat list \<Rightarrow> nat \<Rightarrow> nat \<Rightarrow> u8 list list \<Rightarrow> bool" where
  "shards_ready sz inputs outputs ds count store \<longleftrightarrow> length inputs = ds \<and> length outputs = count
     \<and> distinct outputs \<and> set inputs \<inter> set outputs = {}
     \<and> (\<forall>i \<in> set inputs \<union> set outputs. i < length store \<and> length (store ! i) = sz)"

definition code_column ::
  "matrix \<Rightarrow> nat list \<Rightarrow> nat list \<Rightarrow> nat \<Rightarrow> nat \<Rightarrow> u8 list list \<Rightarrow> nat \<Rightarrow> u8 list list" where
  "code_column rows inputs outputs count sz store c =
     foldl (\<lambda>store iRow. store[outputs ! iRow :=
         (\<lambda>r d s. if c = 0 then mul d s (rows ! r ! c) sz else addmul d s (rows ! r ! c) sz)
           iRow (store ! (outputs ! iRow)) (store ! (inputs ! c))]) store [0..<count]"

lemma code_some_shards_columns:
  "code_some_shards rows inputs outputs ds count sz store
     = foldl (code_column rows inputs outputs count sz) store [0..<ds]"
proof -
  let ?step = "\<lambda>store (c, iRow).
         let d = store ! (outputs ! iRow); s = store ! (inputs ! c); x = rows ! iRow ! c
         in store[outputs ! iRow := (if c = 0 then mul d s x sz else addmul d s x sz)]"
  have col: "foldl ?step st (map (Pair c) is) = foldl (\<lambda>store iRow. store[outputs ! iRow :=
         (\<lambda>r d s. if c = 0 then mul d s (rows ! r ! c) sz else addmul d s (rows ! r ! c) sz)
           iRow (store ! (outputs ! iRow)) (store ! (inputs ! c))]) st is" for st c "is"
    by (induction "is" arbitrary: st) (simp_all add: Let_def)
  have "foldl ?step st (List.product cs [0..<count]) = foldl (code_column rows inputs outputs count sz) st cs" for st cs
    by (induction cs arbitrary: st) (simp_all only: List.product.simps foldl_append foldl.simps col code_column_def)
  then show ?thesis by (simp add: code_some_shards_def)
qed

lemma code_column_nth:
  assumes "shards_ready sz inputs outputs ds count store" "c < ds" "\<forall>r < count. rows ! r ! 0 \<noteq> 0"
  shows "length (code_column rows inputs outputs count sz store c) = length store"
    "i \<notin> set outputs \<Longrightarrow> code_column rows inputs outputs count sz store c ! i = store ! i"
    "r < count \<Longrightarrow> length (code_column rows inputs outputs count sz store c ! (outputs ! r)) = sz"
    "r < count \<Longrightarrow> b < sz \<Longrightarrow> gf (code_column rows inputs outputs count sz store c ! (outputs ! r) ! b)
       = (if c = 0 then 0 else gf (store ! (outputs ! r) ! b)) + gf (rows ! r ! c) * gf (store ! (inputs ! c) ! b)"
proof -
  let ?F = "\<lambda>r d s. if c = 0 then mul d s (rows ! r ! c) sz else addmul d s (rows ! r ! c) sz"
  have rd: "length inputs = ds" "length outputs = count" "distinct outputs" "set inputs \<inter> set outputs = {}"
    "\<And>i. i \<in> set inputs \<Longrightarrow> i < length store \<and> length (store ! i) = sz"
    "\<And>i. i \<in> set outputs \<Longrightarrow> i < length store \<and> length (store ! i) = sz"
    using assms(1) by (simp_all add: shards_ready_def)
  have inj: "inj_on ((!) outputs) {..<count}" using rd(2,3) by (simp add: inj_on_nth)
  have img: "(!) outputs ` {..<count} = set outputs" using rd(2) by (auto simp: set_conv_nth)
  have "\<forall>r < count. outputs ! r \<noteq> inputs ! c" using rd(1,2,4) assms(2) by (metis disjoint_iff nth_mem)
  note st = foldl_list_updates [OF inj _ this order_refl, where F = ?F and st = store,
      folded code_column_def, unfolded img]
  have st': "\<forall>r < count. outputs ! r < length store" using rd(2,6) by simp
  note st = st [OF st']
  show "length (code_column rows inputs outputs count sz store c) = length store"
    "i \<notin> set outputs \<Longrightarrow> code_column rows inputs outputs count sz store c ! i = store ! i"
    using st by simp_all
  assume r: "r < count"
  then have len: "length (store ! (outputs ! r)) = sz" "length (store ! (inputs ! c)) = sz"
    using rd assms(2) by simp_all
  have row: "code_column rows inputs outputs count sz store c ! (outputs ! r)
      = ?F r (store ! (outputs ! r)) (store ! (inputs ! c))" using st r by simp
  have c0: "c = 0 \<Longrightarrow> rows ! r ! c \<noteq> 0" using assms(3) r by simp
  show "length (code_column rows inputs outputs count sz store c ! (outputs ! r)) = sz"
  proof (cases sz)
    case 0
    then show ?thesis using row len c0 by (simp add: mul_def addmul_def)
  next
    case (Suc n)
    then have "0 < sz" by simp
    with row c0 mul_nth(2) [OF len this] addmul_nth(2) [OF len this] show ?thesis by (cases "c = 0") simp_all
  qed
  assume b: "b < sz"
  show "gf (code_column rows inputs outputs count sz store c ! (outputs ! r) ! b)
       = (if c = 0 then 0 else gf (store ! (outputs ! r) ! b)) + gf (rows ! r ! c) * gf (store ! (inputs ! c) ! b)"
    using row c0 mul_nth(1) [OF len b] addmul_nth(1) [OF len b] by (cases "c = 0") simp_all
qed

lemma code_some_shards_nth:
  assumes "shards_ready sz inputs outputs ds count store" "\<forall>r < count. rows ! r ! 0 \<noteq> 0" "0 < ds"
  shows "length (code_some_shards rows inputs outputs ds count sz store) = length store"
    "i \<notin> set outputs \<Longrightarrow> code_some_shards rows inputs outputs ds count sz store ! i = store ! i"
    "r < count \<Longrightarrow> length (code_some_shards rows inputs outputs ds count sz store ! (outputs ! r)) = sz"
    "r < count \<Longrightarrow> b < sz \<Longrightarrow> gf (code_some_shards rows inputs outputs ds count sz store ! (outputs ! r) ! b)
       = combination ds (\<lambda>c. gf (rows ! r ! c)) (\<lambda>c. store ! (inputs ! c)) b"
proof -
  let ?st = "\<lambda>n. foldl (code_column rows inputs outputs count sz) store [0..<n]"
  have inv: "shards_ready sz inputs outputs ds count (?st n) \<and> length (?st n) = length store
      \<and> (\<forall>i. i \<notin> set outputs \<longrightarrow> ?st n ! i = store ! i)
      \<and> (0 < n \<longrightarrow> (\<forall>r < count. \<forall>b < sz. gf (?st n ! (outputs ! r) ! b)
          = combination n (\<lambda>c. gf (rows ! r ! c)) (\<lambda>c. store ! (inputs ! c)) b))" if "n \<le> ds" for n
    using that
  proof (induction n)
    case 0
    then show ?case using assms(1) by simp
  next
    case (Suc n)
    have ih: "shards_ready sz inputs outputs ds count (?st n)" "length (?st n) = length store"
      "\<And>i. i \<notin> set outputs \<Longrightarrow> ?st n ! i = store ! i"
      "0 < n \<Longrightarrow> \<forall>r < count. \<forall>b < sz. gf (?st n ! (outputs ! r) ! b)
          = combination n (\<lambda>c. gf (rows ! r ! c)) (\<lambda>c. store ! (inputs ! c)) b" using Suc by simp_all
    have n: "n < ds" using Suc.prems by simp
    note c = code_column_nth [OF ih(1) n assms(2)]
    have S: "?st (Suc n) = code_column rows inputs outputs count sz (?st n) n" by simp
    have rd: "length inputs = ds" "length outputs = count" "set inputs \<inter> set outputs = {}"
      using assms(1) by (simp_all add: shards_ready_def)
    have inp: "?st n ! (inputs ! n) = store ! (inputs ! n)" using ih(3) rd n by (metis disjoint_iff nth_mem)
    have lens: "length (?st (Suc n) ! i) = sz" if "i \<in> set inputs \<union> set outputs" for i
    proof (cases "i \<in> set outputs")
      case True
      then obtain r where "r < count" "i = outputs ! r" using rd by (auto simp: in_set_conv_nth)
      then show ?thesis using c(3) unfolding S by simp
    next
      case False
      then show ?thesis using c(2) ih(1) that unfolding S by (auto simp: shards_ready_def)
    qed
    have "shards_ready sz inputs outputs ds count (?st (Suc n))"
      using ih(1) lens c(1) unfolding S shards_ready_def by simp
    moreover have "length (?st (Suc n)) = length store" unfolding S using c(1) ih(2) by simp
    moreover have "i \<notin> set outputs \<Longrightarrow> ?st (Suc n) ! i = store ! i" for i unfolding S using c(2) ih(3) by simp
    moreover have "gf (?st (Suc n) ! (outputs ! r) ! b)
        = combination (Suc n) (\<lambda>c. gf (rows ! r ! c)) (\<lambda>c. store ! (inputs ! c)) b" if "r < count" "b < sz" for r b
      unfolding S using c(4) [OF that] inp ih(4) that by (cases n) (simp_all add: combination_def)
    ultimately show ?case by blast
  qed
  note f = inv [OF order_refl, folded code_some_shards_columns]
  show "length (code_some_shards rows inputs outputs ds count sz store) = length store"
    "i \<notin> set outputs \<Longrightarrow> code_some_shards rows inputs outputs ds count sz store ! i = store ! i"
    using f by simp_all
  assume r: "r < count"
  then have "outputs ! r \<in> set outputs" using assms(1) by (simp add: shards_ready_def)
  then show "length (code_some_shards rows inputs outputs ds count sz store ! (outputs ! r)) = sz"
    using f by (simp add: shards_ready_def)
  show "b < sz \<Longrightarrow> gf (code_some_shards rows inputs outputs ds count sz store ! (outputs ! r) ! b)
       = combination ds (\<lambda>c. gf (rows ! r ! c)) (\<lambda>c. store ! (inputs ! c)) b"
    using f r assms(3) by simp
qed

section \<open>Decoding recovers the data\<close>

text \<open>Any \<open>ds\<close> rows of the coding matrix are independent; its first \<open>ds\<close> rows are the identity.\<close>

definition independent_rows :: "nat \<Rightarrow> nat \<Rightarrow> matrix \<Rightarrow> bool" where
  "independent_rows ds n M \<longleftrightarrow> (\<forall>rows. length rows = ds \<longrightarrow> distinct rows \<longrightarrow> set rows \<subseteq> {..<n} \<longrightarrow>
     injective ds (\<lambda>i j. ent M (rows ! i) j))"

definition rs_ok :: "reed_solomon \<Rightarrow> bool" where
  "rs_ok rs \<longleftrightarrow> 0 < data_shards rs \<and> shards rs = data_shards rs + parity_shards rs
     \<and> length (rs_m rs) = shards rs \<and> (\<forall>i < shards rs. length (rs_m rs ! i) = data_shards rs)
     \<and> (\<forall>i < data_shards rs. \<forall>j < data_shards rs. ent (rs_m rs) i j = (if i = j then 1 else 0))
     \<and> independent_rows (data_shards rs) (shards rs) (rs_m rs)"

text \<open>The blocks \<open>orig\<close> are a codeword: every shard is its row's combination of the data.\<close>

definition codeword :: "reed_solomon \<Rightarrow> nat \<Rightarrow> (nat \<Rightarrow> u8 list) \<Rightarrow> bool" where
  "codeword rs sz orig \<longleftrightarrow> (\<forall>r < shards rs. length (orig r) = sz \<and> (\<forall>b < sz.
     gf (orig r ! b) = combination (data_shards rs) (ent (rs_m rs) r) orig b))"

lemma sort_erased_sorted: "sorted xs \<Longrightarrow> sort_erased 0 xs = xs"
proof -
  assume s: "sorted xs"
  have "foldl (\<lambda>(xs, sw) j. if xs ! 0 > xs ! j then (xs[0 := xs ! j, j := xs ! 0], True) else (xs, sw))
      (xs, False) js = (xs, False)" if "\<forall>j \<in> set js. j < length xs" for js
    using that
  proof (induction js)
    case (Cons j js)
    then have "xs ! 0 \<le> xs ! j" using s by (simp add: sorted_nth_mono)
    then show ?case using Cons by simp
  qed simp
  then have "sort_pass 0 xs = (xs, False)" unfolding sort_pass_def by simp
  then show ?thesis by (subst sort_erased.simps) simp
qed

lemma data_rows_filter:
  "sorted_wrt (<) is \<Longrightarrow> sorted_wrt (<) es \<Longrightarrow> set es \<subseteq> set is \<Longrightarrow> data_rows is es = filter (\<lambda>i. i \<notin> set es) is"
proof (induction "is" es rule: data_rows.induct)
  case (1 erased)
  then show ?case by simp
next
  case (2 i "is" erased)
  show ?case
  proof (cases erased)
    case Nil
    then show ?thesis using 2 by simp
  next
    case (Cons e es)
    show ?thesis
    proof (cases "i = e")
      case True
      have "set es \<subseteq> set is" using "2.prems" Cons True by auto
      then have "data_rows is es = filter (\<lambda>i. i \<notin> set es) is"
        using "2.IH"(2) [OF Cons True] "2.prems" Cons by simp
      moreover have "filter (\<lambda>i. i \<notin> set es) is = filter (\<lambda>i. i \<notin> set erased) is"
        by (rule filter_cong) (use "2.prems" Cons True in auto)
      ultimately show ?thesis using Cons True by simp
    next
      case False
      then have "e \<in> set is" using "2.prems" Cons by auto
      then have "i < e" using "2.prems"(1) by simp
      then have ni: "i \<notin> set erased" using "2.prems"(2) Cons by auto
      then have "set erased \<subseteq> set is" using "2.prems"(3) by auto
      then have "data_rows is erased = filter (\<lambda>i. i \<notin> set erased) is"
        using "2.IH"(3) [OF Cons False] "2.prems" Cons by simp
      then show ?thesis using Cons False ni by simp
    qed
  qed
qed

lemma strict_sorted_nth_ge: "sorted_wrt (<) xs \<Longrightarrow> i < length xs \<Longrightarrow> i \<le> xs ! i" for xs :: "nat list"
proof (induction i)
  case (Suc i)
  then have "xs ! i < xs ! Suc i" by (simp add: sorted_wrt_nth_less)
  then show ?case using Suc by simp
qed simp

lemma gather_rows:
  assumes "\<forall>i < n. i \<le> es ! i \<and> es ! i < length B" "n \<le> length B"
  shows "length (foldl (\<lambda>M i. M[i := M ! (es ! i)]) B [0..<n]) = length B
    \<and> (\<forall>i < n. foldl (\<lambda>M i. M[i := M ! (es ! i)]) B [0..<n] ! i = B ! (es ! i))
    \<and> (\<forall>i \<ge> n. foldl (\<lambda>M i. M[i := M ! (es ! i)]) B [0..<n] ! i = B ! i)"
  using assms by (induction n) (auto simp: less_Suc_eq)

text \<open>The coefficient of the first surviving shard is never zero, so \<open>mul\<close> always writes.\<close>

lemma inverse_first_column:
  assumes "rs_ok rs" "length rows = data_shards rs" "distinct rows" "set rows \<subseteq> {..<shards rs}"
    and "shape (data_shards rs) B"
    and inv: "\<And>x y. equations (data_shards rs) (\<lambda>i j. ent (rs_m rs) (rows ! i) j) x y
      \<longleftrightarrow> equations (data_shards rs) (ent B) y x"
    and e: "e < data_shards rs" "e \<notin> set rows"
  shows "ent B e 0 \<noteq> 0"
proof
  let ?ds = "data_shards rs"
  assume z: "ent B e 0 = 0"
  let ?y = "\<lambda>i. if i = 0 then 1 else (0 :: gf256)"
  let ?x = "\<lambda>i. ent B i 0"
  have ds: "0 < ?ds" using assms(1) by (simp add: rs_ok_def)
  have "mv ?ds (ent B) ?y i = ?x i" for i
    using mv_split [OF ds, of "ent B" ?y i] by simp
  then have "equations ?ds (ent B) ?y ?x" by (simp add: equations_def)
  then have eq: "equations ?ds (\<lambda>i j. ent (rs_m rs) (rows ! i) j) ?x ?y" using inv by blast
  let ?rows = "rows[0 := e]"
  have "length ?rows = ?ds" "distinct ?rows" "set ?rows \<subseteq> {..<shards rs}"
    using assms(1-4) e set_update_subset_insert [of rows 0 e]
    by (auto simp: rs_ok_def distinct_list_update)
  then have inj: "injective ?ds (\<lambda>i j. ent (rs_m rs) (?rows ! i) j)"
    using assms(1) unfolding rs_ok_def independent_rows_def by blast
  have "mv ?ds (\<lambda>i j. ent (rs_m rs) (?rows ! i) j) ?x i = 0" if i: "i < ?ds" for i
  proof (cases "i = 0")
    case True
    have "mv ?ds (\<lambda>i j. ent (rs_m rs) (?rows ! i) j) ?x i = (\<Sum>j < ?ds. if e = j then ?x j else 0)"
      unfolding mv_def using assms(1,2) True e(1) ds by (intro sum.cong) (auto simp: rs_ok_def)
    then show ?thesis using e(1) z by simp
  next
    case False
    then have "mv ?ds (\<lambda>i j. ent (rs_m rs) (?rows ! i) j) ?x i = ?y i"
      using eq [unfolded equations_def, rule_format, OF i] by (simp add: mv_def)
    then show ?thesis using False by simp
  qed
  then have "\<forall>j < ?ds. ?x j = 0" using inj unfolding injective_def by blast
  then have "equations ?ds (ent B) (\<lambda>_. 0) ?x" by (simp add: equations_def mv_def)
  then have "equations ?ds (\<lambda>i j. ent (rs_m rs) (rows ! i) j) ?x (\<lambda>_. 0)" using inv by blast
  then have "?y 0 = 0" using eq ds unfolding equations_def by metis
  then show False by simp
qed

text \<open>What decoding needs to find: the surviving data and as many parity blocks as are erased.\<close>

definition decodable ::
  "reed_solomon \<Rightarrow> nat \<Rightarrow> nat \<Rightarrow> nat \<Rightarrow> nat list \<Rightarrow> nat list \<Rightarrow> (nat \<Rightarrow> u8 list) \<Rightarrow> u8 list list \<Rightarrow> bool" where
  "decodable rs sz dbase fbase fec_nos erased orig store \<longleftrightarrow>
     sorted_wrt (<) erased \<and> set erased \<subseteq> {..<data_shards rs}
     \<and> distinct fec_nos \<and> set fec_nos \<subseteq> {..<parity_shards rs} \<and> length fec_nos = length erased
     \<and> dbase + data_shards rs \<le> fbase \<and> fbase + parity_shards rs \<le> length store
     \<and> (\<forall>i < data_shards rs. length (store ! (dbase + i)) = sz \<and> (i \<notin> set erased \<longrightarrow> store ! (dbase + i) = orig i))
     \<and> (\<forall>f \<in> set fec_nos. store ! (fbase + f) = orig (data_shards rs + f))"

lemma decode_recovers:
  assumes "rs_ok rs" "codeword rs sz orig" "decodable rs sz dbase fbase fec_nos erased orig store"
  shows "\<exists>store'. reed_solomon_decode rs dbase sz (map (\<lambda>f. fbase + f) fec_nos) fec_nos erased store = (0, store')
    \<and> length store' = length store \<and> (\<forall>i < data_shards rs. store' ! (dbase + i) = orig i)
    \<and> (\<forall>i. (\<forall>e \<in> set erased. i \<noteq> dbase + e) \<longrightarrow> store' ! i = store ! i)"
proof -
  let ?ds = "data_shards rs" and ?nr = "length erased"
  have d: "sorted_wrt (<) erased" "set erased \<subseteq> {..<?ds}" "distinct fec_nos" "set fec_nos \<subseteq> {..<parity_shards rs}"
    "length fec_nos = ?nr" "dbase + ?ds \<le> fbase" "fbase + parity_shards rs \<le> length store"
    "\<And>i. i < ?ds \<Longrightarrow> length (store ! (dbase + i)) = sz" "\<And>i. i < ?ds \<Longrightarrow> i \<notin> set erased \<Longrightarrow> store ! (dbase + i) = orig i"
    "\<And>f. f \<in> set fec_nos \<Longrightarrow> store ! (fbase + f) = orig (?ds + f)"
    using assms(3) by (simp_all add: decodable_def)
  have ok: "0 < ?ds" "shards rs = ?ds + parity_shards rs" "length (rs_m rs) = shards rs"
    "\<And>i. i < shards rs \<Longrightarrow> length (rs_m rs ! i) = ?ds" "independent_rows ?ds (shards rs) (rs_m rs)"
    using assms(1) unfolding rs_ok_def by blast+
  have dist: "distinct erased" using d(1) by (simp add: strict_sorted_iff)
  define good where "good = filter (\<lambda>i. i \<notin> set erased) [0..<?ds]"
  have good: "data_rows [0..<?ds] erased = good"
    unfolding good_def by (rule data_rows_filter) (use d(1,2) in \<open>auto simp: sorted_wrt_upt\<close>)
  have "set good = {..<?ds} - set erased" by (auto simp: good_def)
  then have "card (set good) = ?ds - ?nr" using d(2) dist by (simp add: card_Diff_subset distinct_card)
  moreover have dg: "distinct good" by (simp add: good_def)
  ultimately have lg: "length good = ?ds - ?nr" by (simp add: distinct_card)
  have nr: "?nr \<le> ?ds" using card_mono [OF _ d(2)] dist by (simp add: distinct_card)
  define rows where "rows = good @ map (\<lambda>f. ?ds + f) fec_nos"
  have rows: "length rows = ?ds" "distinct rows" "set rows \<subseteq> {..<shards rs}"
    using lg nr d(3,4,5) dg ok(2) by (auto simp: rows_def distinct_map inj_on_def good_def)
  define A where "A = map (\<lambda>i. rs_m rs ! i) rows"
  have rb: "rows ! i < shards rs" if "i < ?ds" for i
    using subsetD [OF rows(3) nth_mem [of i rows]] rows(1) that by simp
  have A: "shape ?ds A" using rows(1) ok(4) rb by (simp add: A_def shape_def)
  have entA: "ent A i = ent (rs_m rs) (rows ! i)" if "i < ?ds" for i
    using that rows(1) by (simp add: A_def ent_def fun_eq_iff)
  have "injective ?ds (ent A) \<longleftrightarrow> injective ?ds (\<lambda>i j. ent (rs_m rs) (rows ! i) j)"
    unfolding injective_def mv_def using entA by simp
  then have "injective ?ds (ent A)" using ok(5) rows unfolding independent_rows_def by blast
  then obtain B where B: "invert_mat A ?ds = (0, B)" using invert_mat_succeeds [OF A] by blast
  note inv = invert_mat_inverse [OF A B]
  have eqA: "equations ?ds (ent A) x y \<longleftrightarrow> equations ?ds (\<lambda>i j. ent (rs_m rs) (rows ! i) j) x y" for x y
    by (rule equations_cong) (simp add: entA)
  define sub where "sub = map (\<lambda>i. dbase + i) good @ map (\<lambda>f. fbase + f) fec_nos"
  define M where "M = foldl (\<lambda>M i. M[i := M ! (erased ! i)]) B [0..<?nr]"
  define out where "out = map (\<lambda>e. dbase + e) erased"
  have run: "reed_solomon_decode rs dbase sz (map (\<lambda>f. fbase + f) fec_nos) fec_nos erased store
      = (0, code_some_shards M sub out ?ds ?nr sz store)"
  proof -
    have se: "sort_erased 0 erased = erased" using d(1) by (intro sort_erased_sorted) (simp add: strict_sorted_iff)
    have room: "?ds - length good = ?nr" using lg nr by simp
    have tk: "take ?nr fec_nos = fec_nos" using d(5) by simp
    have mat: "map ((!) (rs_m rs)) good @ map (\<lambda>f. rs_m rs ! (?ds + f)) fec_nos = A"
      by (simp add: A_def rows_def comp_def)
    show ?thesis
      using rows(1) d(5) unfolding reed_solomon_decode_def Let_def se good room tk mat
      by (simp add: A_def B [unfolded A_def] M_def out_def sub_def)
  qed
  have Mrow: "M ! r = B ! (erased ! r)" if "r < ?nr" for r
  proof -
    have "\<forall>i < ?nr. i \<le> erased ! i \<and> erased ! i < length B"
      using strict_sorted_nth_ge [OF d(1)] d(2) inv(1) by (auto simp: shape_def dest: nth_mem)
    then show ?thesis using gather_rows [of ?nr erased B] that nr inv(1) by (auto simp: M_def shape_def)
  qed
  have er: "erased ! r < ?ds" "erased ! r \<notin> set rows" if "r < ?nr" for r
  proof -
    have "erased ! r \<in> {..<?ds}" using subsetD [OF d(2) nth_mem [OF that]] .
    then show "erased ! r < ?ds" "erased ! r \<notin> set rows"
      using nth_mem [OF that] by (auto simp: rows_def good_def)
  qed
  have first: "\<forall>r < ?nr. M ! r ! 0 \<noteq> 0"
  proof (intro allI impI)
    fix r assume r: "r < ?nr"
    have "ent B (erased ! r) 0 \<noteq> 0"
      by (rule inverse_first_column [OF assms(1) rows inv(1) _ er [OF r]]) (use inv(2) eqA in blast)
    then show "M ! r ! 0 \<noteq> 0" using Mrow [OF r] by (simp add: ent_def gf_simps)
  qed
  have fecd: "set sub \<inter> set out = {}" using d(2,6) by (auto simp: sub_def out_def good_def)
  have oblk: "length (orig r) = sz" if "r < shards rs" for r using assms(2) that by (simp add: codeword_def)
  have ready: "shards_ready sz sub out ?ds ?nr store"
    unfolding shards_ready_def
  proof (intro conjI ballI)
    show "length sub = ?ds" "length out = ?nr" using lg nr d(5) by (simp_all add: sub_def out_def)
    show "distinct out" using dist by (simp add: out_def distinct_map inj_on_def)
    show "set sub \<inter> set out = {}" by (rule fecd)
    fix i assume "i \<in> set sub \<union> set out"
    then consider j where "i = dbase + j" "j < ?ds" | f where "i = fbase + f" "f \<in> set fec_nos"
      using d(2) by (auto simp: sub_def out_def good_def)
    then have "i < length store \<and> length (store ! i) = sz"
      by cases (use d ok(2) oblk in auto)
    then show "i < length store" "length (store ! i) = sz" by blast+
  qed
  note res = code_some_shards_nth [OF ready first ok(1)]
  have subblk: "store ! (sub ! c) = orig (rows ! c)" if "c < ?ds" for c
  proof (cases "c < length good")
    case True
    then have "good ! c \<in> set good" by simp
    then show ?thesis using True d(9) by (auto simp: sub_def rows_def nth_append good_def)
  next
    case False
    then have "c - length good < length fec_nos" using that lg nr d(5) by simp
    then show ?thesis using False d(10) by (auto simp: sub_def rows_def nth_append)
  qed
  have recovered: "code_some_shards M sub out ?ds ?nr sz store ! (dbase + erased ! r) = orig (erased ! r)"
    if r: "r < ?nr" for r
  proof (rule nth_equalityI)
    have o: "out ! r = dbase + erased ! r" using r by (simp add: out_def)
    have l: "length (orig (erased ! r)) = sz" using oblk er(1) [OF r] ok(2) by simp
    show "length (code_some_shards M sub out ?ds ?nr sz store ! (dbase + erased ! r)) = length (orig (erased ! r))"
      using res(3) [OF r] o l by simp
    fix b assume "b < length (code_some_shards M sub out ?ds ?nr sz store ! (dbase + erased ! r))"
    then have b: "b < sz" using res(3) [OF r] o by simp
    let ?x = "\<lambda>i. gf (orig i ! b)" and ?y = "\<lambda>c. gf (orig (rows ! c) ! b)"
    have "?y c = mv ?ds (ent A) ?x c" if "c < ?ds" for c
    proof -
      have "rows ! c < shards rs" by (rule rb [OF that])
      then show ?thesis using assms(2) b entA [OF that] by (simp add: codeword_def combination_def mv_def)
    qed
    then have "equations ?ds (ent A) ?x ?y" unfolding equations_def by blast
    then have "equations ?ds (ent B) ?y ?x" by (rule inv(2) [THEN iffD1])
    then have "?x (erased ! r) = mv ?ds (ent B) ?y (erased ! r)" using er(1) [OF r] by (simp add: equations_def)
    also have "\<dots> = combination ?ds (\<lambda>c. gf (M ! r ! c)) (\<lambda>c. store ! (sub ! c)) b"
      unfolding mv_def combination_def by (rule sum.cong) (use Mrow [OF r] subblk in \<open>auto simp: ent_def\<close>)
    also have "\<dots> = gf (code_some_shards M sub out ?ds ?nr sz store ! (dbase + erased ! r) ! b)"
      using res(4) [OF r b] o by simp
    finally show "code_some_shards M sub out ?ds ?nr sz store ! (dbase + erased ! r) ! b = orig (erased ! r) ! b"
      by (simp add: gf_simps)
  qed
  have "code_some_shards M sub out ?ds ?nr sz store ! (dbase + i) = orig i" if "i < ?ds" for i
  proof (cases "i \<in> set erased")
    case True
    then show ?thesis using recovered by (auto simp: in_set_conv_nth)
  next
    case False
    then have "dbase + i \<notin> set out" by (auto simp: out_def)
    then show ?thesis using res(2) d(9) [OF that False] by simp
  qed
  moreover have "code_some_shards M sub out ?ds ?nr sz store ! i = store ! i" if "\<forall>e \<in> set erased. i \<noteq> dbase + e" for i
    using res(2) that by (auto simp: out_def)
  ultimately show ?thesis using run res(1) by blast
qed

definition lost_data :: "reed_solomon \<Rightarrow> u8 list \<Rightarrow> nat list" where
  "lost_data rs marks = filter (\<lambda>i. marks ! i \<noteq> 0) [0..<data_shards rs]"

definition good_parity :: "reed_solomon \<Rightarrow> u8 list \<Rightarrow> nat list" where
  "good_parity rs marks = filter (\<lambda>i. marks ! (data_shards rs + i) = 0) [0..<parity_shards rs]"

text \<open>The blocks of one group as received: the unmarked ones are those of the codeword.\<close>

definition received ::
  "reed_solomon \<Rightarrow> nat \<Rightarrow> (nat \<Rightarrow> u8 list) \<Rightarrow> u8 list \<Rightarrow> u8 list list \<Rightarrow> bool" where
  "received rs sz orig marks store \<longleftrightarrow> length store = shards rs
     \<and> (\<forall>i < data_shards rs. length (store ! i) = sz)
     \<and> (\<forall>i < shards rs. marks ! i = 0 \<longrightarrow> store ! i = orig i)"

lemma reconstruct_one_group:
  assumes "0 < shards rs"
  shows "reed_solomon_reconstruct rs store marks (shards rs) sz
    = reconstruct_group rs marks sz 0 0 (data_shards rs) (data_shards rs) (0, store)"
  using assms by (simp add: reed_solomon_reconstruct_def Let_def)

lemma reconstruct_recovers:
  assumes "rs_ok rs" "codeword rs sz orig" "received rs sz orig marks store"
    and "length (lost_data rs marks) \<le> length (good_parity rs marks)"
  shows "\<exists>store'. reed_solomon_reconstruct rs store marks (shards rs) sz = (0, store')
    \<and> length store' = length store \<and> (\<forall>i < data_shards rs. store' ! i = orig i)
    \<and> (\<forall>i \<ge> data_shards rs. store' ! i = store ! i)"
proof -
  let ?ds = "data_shards rs" and ?lost = "lost_data rs marks" and ?par = "good_parity rs marks"
  let ?fec = "take (length ?lost) ?par"
  have ok: "0 < ?ds" "shards rs = ?ds + parity_shards rs" using assms(1) by (simp_all add: rs_ok_def)
  have one: "reed_solomon_reconstruct rs store marks (shards rs) sz
      = reconstruct_group rs marks sz 0 0 ?ds ?ds (0, store)"
    using ok by (intro reconstruct_one_group) simp
  have group: "reconstruct_group rs marks sz 0 0 ?ds ?ds (0, store)
      = (if 0 < length ?lost then (0, snd (reed_solomon_decode rs 0 sz (map (\<lambda>i. ?ds + i) ?fec) ?fec ?lost store))
         else (0, store))"
    using assms(4) by (simp add: reconstruct_group_def Let_def lost_data_def good_parity_def)
  show ?thesis
  proof (cases "?lost = []")
    case True
    then have "\<forall>i < ?ds. marks ! i = 0" by (auto simp: lost_data_def filter_empty_conv)
    then show ?thesis using True one group assms(3) ok(2) by (auto simp: received_def)
  next
    case False
    have "decodable rs sz 0 ?ds ?fec ?lost orig store"
      unfolding decodable_def
    proof (intro conjI allI impI ballI)
      show "sorted_wrt (<) ?lost" by (simp add: lost_data_def sorted_wrt_filter sorted_wrt_upt)
      show "distinct ?fec" by (simp add: good_parity_def)
      show "length ?fec = length ?lost" using assms(4) by simp
      show "set ?fec \<subseteq> {..<parity_shards rs}"
        using set_take_subset [of "length ?lost" ?par] by (auto simp: good_parity_def)
      fix f assume "f \<in> set ?fec"
      then have "f < parity_shards rs" "marks ! (?ds + f) = 0"
        using in_set_takeD [of f "length ?lost" ?par] by (auto simp: good_parity_def)
      then show "store ! (?ds + f) = orig (?ds + f)" using assms(3) ok(2) by (simp add: received_def)
    qed (use assms(3) ok(2) in \<open>auto simp: lost_data_def received_def\<close>)
    from decode_recovers [OF assms(1,2) this] obtain store' where
      st: "reed_solomon_decode rs 0 sz (map (\<lambda>i. ?ds + i) ?fec) ?fec ?lost store = (0, store')"
        "length store' = length store" "\<forall>i < ?ds. store' ! i = orig i"
        "\<forall>i. (\<forall>e \<in> set ?lost. i \<noteq> e) \<longrightarrow> store' ! i = store ! i" by auto
    have "\<forall>e \<in> set ?lost. i \<noteq> e" if "?ds \<le> i" for i using that by (auto simp: lost_data_def)
    then show ?thesis using False one group st by auto
  qed
qed

text \<open>With too few parity blocks nothing is touched and the error is reported.\<close>

lemma reconstruct_reports_loss:
  assumes "0 < shards rs" "length (good_parity rs marks) < length (lost_data rs marks)"
  shows "reed_solomon_reconstruct rs store marks (shards rs) sz = (- 1, store)"
  using assms by (auto simp: reconstruct_one_group reconstruct_group_def Let_def lost_data_def good_parity_def)

section \<open>The code of \<open>reed_solomon_new\<close>\<close>

lemma sum_pairs:
  "(\<Sum>(x, v) \<leftarrow> ps. c * g x v) = c * (\<Sum>(x, v) \<leftarrow> ps. g x v :: gf256)"
  "(\<Sum>(x, v) \<leftarrow> ps. g x v + h x v) = (\<Sum>(x, v) \<leftarrow> ps. g x v) + (\<Sum>(x, v) \<leftarrow> ps. h x v :: gf256)"
  by (induction ps) (auto simp: distrib_left ac_simps)

text \<open>A Cauchy matrix is regular: elimination of the first row leaves a scaled Cauchy matrix.\<close>

lemma cauchy_regular:
  assumes "distinct (map fst ps)" "distinct ys" "length ps = length ys" "set (map fst ps) \<inter> set ys = {}"
    and "\<forall>y \<in> set ys. (\<Sum>(x, v) \<leftarrow> ps. v / (x + y)) = (0 :: gf256)"
  shows "\<forall>(x, v) \<in> set ps. v = 0"
  using assms
proof (induction ys arbitrary: ps)
  case Nil
  then show ?case by simp
next
  case (Cons y1 ys' all)
  obtain x1 v1 ps where all: "all = (x1, v1) # ps" using Cons.prems(3) by (cases all) auto
  let ?ys = "y1 # ys'"
  have nz: "x + y \<noteq> 0" if "x \<in> insert x1 (fst ` set ps)" "y \<in> set ?ys" for x y
    using Cons.prems(4) that all by (auto simp: gf_add_eq_0)
  have eq: "v1 / (x1 + y) + (\<Sum>(x, v) \<leftarrow> ps. v / (x + y)) = 0" if "y \<in> set ?ys" for y
    using bspec [OF Cons.prems(5) that] all by simp
  have v1: "v1 = (x1 + y) * (\<Sum>(x, v) \<leftarrow> ps. v / (x + y))" if "y \<in> set ?ys" for y
  proof -
    have "v1 / (x1 + y) = (\<Sum>(x, v) \<leftarrow> ps. v / (x + y))" using eq [OF that] by (simp add: gf_add_eq_0)
    then show ?thesis using nz [of x1 y] that by (simp add: field_simps)
  qed
  let ?q = "map (\<lambda>(x, v). (x, v * (x1 + x) / (x + y1))) ps"
  have "(\<Sum>(x, v) \<leftarrow> ?q. v / (x + y)) = 0" if y: "y \<in> set ys'" for y
  proof -
    have yy: "y \<in> set ?ys" "y1 \<in> set ?ys" "y1 \<noteq> y" using y Cons.prems(2) by auto
    have term_eq: "(x1 + y) * (v / (x + y)) + (x1 + y1) * (v / (x + y1))
        = (y1 + y) * (v * (x1 + x) / (x + y1) / (x + y))" if "(x, v) \<in> set ps" for x v
    proof -
      have "x \<in> insert x1 (fst ` set ps)" using that by force
      then have n: "x + y \<noteq> 0" "x + y1 \<noteq> 0" using nz yy by blast+
      have "((x1 + y) * (x + y1) + (x1 + y1) * (x + y)) = (y1 + y) * (x1 + x)"
        by (simp add: algebra_simps)
      then have "v * ((x1 + y) * (x + y1) + (x1 + y1) * (x + y)) / ((x + y) * (x + y1))
          = v * ((y1 + y) * (x1 + x)) / ((x + y) * (x + y1))" by simp
      then show ?thesis using n by (simp add: field_simps)
    qed
    have "0 = (x1 + y) * (\<Sum>(x, v) \<leftarrow> ps. v / (x + y)) + (x1 + y1) * (\<Sum>(x, v) \<leftarrow> ps. v / (x + y1))"
      using v1 [OF yy(1)] v1 [OF yy(2)] by (metis gf_add_self)
    also have "\<dots> = (\<Sum>(x, v) \<leftarrow> ps. (x1 + y) * (v / (x + y)) + (x1 + y1) * (v / (x + y1)))"
      by (simp only: sum_pairs)
    also have "\<dots> = (\<Sum>(x, v) \<leftarrow> ps. (y1 + y) * (v * (x1 + x) / (x + y1) / (x + y)))"
      by (rule arg_cong [where f = sum_list], rule map_cong [OF refl])
        (unfold split_paired_all, simp only: prod.case, erule term_eq)
    also have "\<dots> = (y1 + y) * (\<Sum>(x, v) \<leftarrow> ?q. v / (x + y))"
      by (simp only: sum_pairs) (simp add: case_prod_beta' comp_def)
    finally show ?thesis using yy(3) by (simp add: gf_add_eq_0)
  qed
  then have zero: "\<forall>y \<in> set ys'. (\<Sum>(x, v) \<leftarrow> ?q. v / (x + y)) = 0" by blast
  have fsts: "map fst ?q = map fst ps" by (simp add: case_prod_beta comp_def)
  have "\<forall>(x, v) \<in> set ?q. v = 0"
  proof (rule Cons.IH [OF _ _ _ _ zero])
    show "distinct (map fst ?q)" "set (map fst ?q) \<inter> set ys' = {}"
      unfolding fsts using Cons.prems all by auto
    show "distinct ys'" "length ?q = length ys'" using Cons.prems all by simp_all
  qed
  then have rest: "v = 0" if "(x, v) \<in> set ps" for x v
  proof -
    have "v * (x1 + x) / (x + y1) = 0" using \<open>\<forall>(x, v) \<in> set ?q. v = 0\<close> that by force
    moreover have "x1 + x \<noteq> 0" using Cons.prems(1) all that by (force simp: gf_add_eq_0)
    moreover have "x + y1 \<noteq> 0" using nz [of x y1] that by force
    ultimately show ?thesis by simp
  qed
  have "(\<Sum>(x, v) \<leftarrow> qs. v / (x + y1)) = 0" if "\<forall>(x, v) \<in> set qs. v = 0" for qs
    using that by (induction qs) auto
  then have "(\<Sum>(x, v) \<leftarrow> ps. v / (x + y1)) = 0" using rest by blast
  then have "v1 = 0" using v1 [of y1] by simp
  then show ?case using rest all by auto
qed

lemma gf_foldl_xor: "gf (foldl (\<lambda>tg i. tg XOR f i) a [0..<n]) = gf a + (\<Sum>i < n. gf (f i))"
  by (induction n) (simp_all add: gf_simps add.assoc)

definition point :: "nat \<Rightarrow> gf256" where
  "point n = gf (of_nat n)"

lemma point_inject: "a < 256 \<Longrightarrow> b < 256 \<Longrightarrow> point a = point b \<longleftrightarrow> a = b"
  by (auto simp: point_def gf_simps word_of_nat_eq_iff take_bit_eq_mod)

lemma inverse_of_xor:
  assumes "a < 256" "b < 256"
  shows "gf (gf_inverse tables ! (a XOR b)) = inverse (point a + point b)"
proof -
  have "take_bit 8 (a XOR b) = a XOR b"
    using assms by (simp add: take_bit_xor take_bit_nat_eq_self)
  then have less: "a XOR b < 256" by (metis take_bit_nat_less_exp power2_eq_square num_double numeral_times_numeral power_numeral Num.pow.simps Num.sqr.simps)
  have "(of_nat (a XOR b) :: u8) = of_nat a XOR of_nat b"
    by (rule bit_word_eqI) (simp add: bit_simps)
  then have "point (a XOR b) = point a + point b" by (simp add: point_def gf_simps)
  moreover have "gf_inverse tables ! (a XOR b) = inverse_table (of_nat (a XOR b))"
    using less by (simp add: inverse_table_def unat_of_nat)
  ultimately show ?thesis by (simp add: gf_simps point_def)
qed

text \<open>Identity above a Cauchy block.\<close>

definition cauchy_code :: "nat \<Rightarrow> nat \<Rightarrow> matrix \<Rightarrow> bool" where
  "cauchy_code d p M \<longleftrightarrow> (\<forall>i < d. \<forall>j < d. ent M i j = (if i = j then 1 else 0))
     \<and> (\<forall>j < p. \<forall>i < d. ent M (d + j) i = inverse (point (p + i) + point j))"

lemma cauchy_code_independent:
  assumes "cauchy_code d p M" "d + p \<le> 256"
  shows "independent_rows d (d + p) M"
  unfolding independent_rows_def injective_def
proof (intro allI impI)
  fix rows :: "nat list" and x :: "nat \<Rightarrow> gf256" and k
  assume rows: "length rows = d" "distinct rows" "set rows \<subseteq> {..<d + p}"
    and zero: "\<forall>i < d. mv d (\<lambda>i j. ent M (rows ! i) j) x i = 0" and k: "k < d"
  have row_zero: "(\<Sum>j < d. ent M r j * x j) = 0" if "r \<in> set rows" for r
    using zero that rows(1) by (auto simp: in_set_conv_nth mv_def)
  have data_zero: "x r = 0" if "r \<in> set rows" "r < d" for r
  proof -
    have "(\<Sum>j < d. ent M r j * x j) = (\<Sum>j < d. if r = j then x j else 0)"
      using assms(1) that(2) by (intro sum.cong) (auto simp: cauchy_code_def)
    then show ?thesis using row_zero [OF that(1)] that(2) by simp
  qed
  define missing where "missing = filter (\<lambda>i. i \<notin> set rows) [0..<d]"
  define par where "par = filter (\<lambda>j. d + j \<in> set rows) [0..<p]"
  let ?ps = "map (\<lambda>i. (point (p + i), x i)) missing" and ?ys = "map point par"
  have mp: "set missing = {i. i < d \<and> i \<notin> set rows}" "set par = {j. j < p \<and> d + j \<in> set rows}"
    by (auto simp: missing_def par_def)
  have "set rows = {i \<in> set rows. i < d} \<union> (\<lambda>j. d + j) ` set par"
  proof -
    have "r \<in> (\<lambda>j. d + j) ` set par" if "r \<in> set rows" "\<not> r < d" for r
      using that rows(3) by (intro image_eqI [of _ _ "r - d"]) (auto simp: mp)
    then show ?thesis by (auto simp: mp)
  qed
  then have "card (set rows) = card {i \<in> set rows. i < d} + card ((\<lambda>j. d + j) ` set par)"
    by (subst (1) \<open>set rows = _\<close>) (intro card_Un_disjoint, auto)
  then have "d = card {i \<in> set rows. i < d} + length par"
    using rows(1,2) by (simp add: distinct_card card_image par_def flip: distinct_card)
  moreover have "{..<d} = {i \<in> set rows. i < d} \<union> set missing" by (auto simp: mp)
  then have "d = card {i \<in> set rows. i < d} + card (set missing)"
    by (metis (no_types, lifting) card_Un_disjoint card_lessThan disjoint_iff finite_lessThan finite_Un mem_Collect_eq mp(1))
  moreover have "card (set missing) = length missing" by (rule distinct_card) (simp add: missing_def)
  ultimately have "length missing = length par" by linarith
  then have len: "length ?ps = length ?ys" by simp
  have "\<forall>(a, v) \<in> set ?ps. v = 0"
  proof (rule cauchy_regular [OF _ _ len])
    show "distinct (map fst ?ps)" "distinct ?ys"
      using assms(2) by (auto simp: distinct_map comp_def missing_def par_def point_inject inj_on_def)
    show "set (map fst ?ps) \<inter> set ?ys = {}"
      using assms(2) by (auto simp: mp point_inject)
    show "\<forall>y \<in> set ?ys. (\<Sum>(a, v) \<leftarrow> ?ps. v / (a + y)) = 0"
    proof
      fix y assume "y \<in> set ?ys"
      then obtain j where j: "j < p" "d + j \<in> set rows" "y = point j" by (auto simp: mp)
      have "(\<Sum>(a, v) \<leftarrow> ?ps. v / (a + y)) = (\<Sum>i \<in> set missing. ent M (d + j) i * x i)"
        using assms(1) j by (simp add: sum_list_distinct_conv_sum_set missing_def comp_def cauchy_code_def divide_inverse mult.commute)
      also have "\<dots> = (\<Sum>i < d. ent M (d + j) i * x i)"
        by (rule sum.mono_neutral_left) (use data_zero in \<open>auto simp: mp\<close>)
      also have "\<dots> = 0" by (rule row_zero [OF j(2)])
      finally show "(\<Sum>(a, v) \<leftarrow> ?ps. v / (a + y)) = 0" .
    qed
  qed
  then have "x i = 0" if "i \<in> set missing" for i using that by auto
  then show "x k = 0" using data_zero [of k] k by (cases "k \<in> set rows") (auto simp: mp)
qed

lemma inverse_of_identity:
  assumes "shape d A" "\<forall>i < d. \<forall>j < d. ent A i j = (if i = j then 1 else 0)"
  shows "\<exists>B. invert_mat A d = (0, B) \<and> shape d B \<and> (\<forall>i < d. \<forall>j < d. ent B i j = (if i = j then 1 else 0))"
proof -
  have mvA: "mv d (ent A) x i = x i" if "i < d" for x i
  proof -
    have "mv d (ent A) x i = (\<Sum>j < d. if i = j then x j else 0)"
      unfolding mv_def by (rule sum.cong) (use assms(2) that in auto)
    then show ?thesis using that by simp
  qed
  then have "injective d (ent A)" by (simp add: injective_def)
  then obtain B where B: "invert_mat A d = (0, B)" using invert_mat_succeeds [OF assms(1)] by blast
  have "ent B i j = (if i = j then 1 else 0)" if "i < d" "j < d" for i j
  proof -
    let ?e = "\<lambda>k. if k = j then 1 else (0 :: gf256)"
    have "equations d (ent A) ?e ?e" using mvA by (simp add: equations_def)
    then have "equations d (ent B) ?e ?e" using invert_mat_inverse(2) [OF assms(1) B] by blast
    then have "?e i = mv d (ent B) ?e i" using that(1) by (simp add: equations_def)
    also have "\<dots> = ent B i j" using mv_split [OF that(2), of "ent B" ?e i] by simp
    finally show ?thesis by simp
  qed
  then show ?thesis using B invert_mat_inverse(1) [OF assms(1) B] by blast
qed

lemma set_rows_nth:
  "length M = d + p \<Longrightarrow> n \<le> p \<Longrightarrow>
   length (foldl (\<lambda>M j. M[d + j := F j]) M [0..<n]) = d + p
   \<and> (\<forall>i < d. foldl (\<lambda>M j. M[d + j := F j]) M [0..<n] ! i = M ! i)
   \<and> (\<forall>j < n. foldl (\<lambda>M j. M[d + j := F j]) M [0..<n] ! (d + j) = F j)"
  by (induction n) (auto simp: less_Suc_eq nth_list_update)

lemma reed_solomon_new_code:
  assumes "0 < ds" "0 < ps" "ds + ps \<le> 255"
  shows "\<exists>rs. reed_solomon_new (\<lambda>_. True) ds ps = Some (Some rs) \<and> rs_ok rs
    \<and> int (data_shards rs) = ds \<and> int (parity_shards rs) = ps
    \<and> parity rs = drop (data_shards rs) (rs_m rs)"
proof -
  let ?d = "nat ds" and ?p = "nat ps"
  have pos: "0 < ?d" "0 < ?p" "?d + ?p \<le> 255" using assms by auto
  define vm where "vm = map (\<lambda>row. map (\<lambda>col. if row = col then 1 else (0 :: u8)) [0..<?d]) [0..<?d + ?p]"
  define top where "top = map (\<lambda>i. map (\<lambda>j. vm ! i ! j) [0..<?d]) [0..<?d]"
  have vm: "vm ! i ! j = (if i = j then 1 else 0)" if "i < ?d + ?p" "j < ?d" for i j
    using that by (simp add: vm_def)
  have top: "shape ?d top" "\<forall>i < ?d. \<forall>j < ?d. ent top i j = (if i = j then 1 else 0)"
    using vm by (auto simp: top_def shape_def ent_def gf_simps)
  obtain B where B: "invert_mat top ?d = (0, B)" "\<And>i j. i < ?d \<Longrightarrow> j < ?d \<Longrightarrow> ent B i j = (if i = j then 1 else 0)"
    using inverse_of_identity [OF top] by blast
  define mm where "mm = map (\<lambda>r. map (\<lambda>c. foldl (\<lambda>tg i. tg XOR gf_mul (vm ! r ! i) (B ! i ! c)) 0 [0..<?d]) [0..<?d]) [0..<?d + ?p]"
  define F where "F j = map (\<lambda>i. gf_inverse tables ! ((?p + i) XOR j)) [0..<?d]" for j
  define M where "M = foldl (\<lambda>mm j. mm[?d + j := F j]) mm [0..<?p]"
  define par where "par = map (\<lambda>i. map (\<lambda>j. M ! i ! j) [0..<?d]) [?d..<?d + ?p]"
  let ?rs = "\<lparr>data_shards = ?d, parity_shards = ?p, shards = ?d + ?p, rs_m = M, parity = par\<rparr>"
  have run: "reed_solomon_new (\<lambda>_. True) ds ps = Some (Some ?rs)"
    using assms B(1)
    by (simp add: reed_solomon_new_def DATA_SHARDS_MAX_def Let_def sub_matrix_def multiply1_def
        flip: vm_def top_def mm_def F_def M_def par_def)
  have "length mm = ?d + ?p" by (simp add: mm_def)
  note M = set_rows_nth [OF this order_refl, of F, folded M_def]
  have mm_row: "ent mm i j = (if i = j then 1 else 0)" if "i < ?d" "j < ?d" for i j
  proof -
    have "ent mm i j = (\<Sum>k < ?d. gf (vm ! i ! k) * gf (B ! k ! j))"
      using that by (simp add: ent_def mm_def gf_foldl_xor gf_simps)
    also have "\<dots> = (\<Sum>k < ?d. if i = k then ent B k j else 0)"
      by (rule sum.cong) (use that vm in \<open>auto simp: ent_def gf_simps\<close>)
    finally show ?thesis using that B(2) by simp
  qed
  have code: "cauchy_code ?d ?p M"
    unfolding cauchy_code_def
  proof (intro conjI allI impI)
    fix i j assume "i < ?d" "j < ?d"
    then show "ent M i j = (if i = j then 1 else 0)" using M mm_row by (simp add: ent_def)
  next
    fix j i assume ji: "j < ?p" "i < ?d"
    then have "ent M (?d + j) i = gf (gf_inverse tables ! ((?p + i) XOR j))" using M by (simp add: ent_def F_def)
    then show "ent M (?d + j) i = inverse (point (?p + i) + point j)"
      using ji pos inverse_of_xor [of "?p + i" j] by simp
  qed
  have rows: "length (M ! i) = ?d" if "i < ?d + ?p" for i
  proof (cases "i < ?d")
    case True
    then show ?thesis using M by (simp add: mm_def)
  next
    case False
    then have i: "i = ?d + (i - ?d)" and j: "i - ?d < ?p" using that by linarith+
    have "M ! (?d + (i - ?d)) = F (i - ?d)" using M j by blast
    then show ?thesis using i by (simp add: F_def)
  qed
  have "independent_rows ?d (?d + ?p) M" by (rule cauchy_code_independent [OF code]) (use pos in simp)
  then have "rs_ok ?rs" using code rows M pos by (simp add: rs_ok_def cauchy_code_def)
  moreover have "par = drop ?d M"
    by (rule nth_equalityI) (use M rows in \<open>auto simp: par_def F_def intro!: nth_equalityI\<close>)
  ultimately show ?thesis
    by (intro exI [of _ ?rs] conjI run) (use assms in simp_all)
qed

text \<open>
  \<open>reed_solomon_new\<close> builds an erasure code that tolerates any losses it can: for
  every admissible number of data and parity shards the constructor returns (its assertion
  holds, the inversion in it succeeds) a coding matrix whose upper part is the identity and any
  \<open>data_shards\<close> rows of which are linearly independent.
\<close>

theorem reed_solomon_new_ok:
  assumes "0 < ds" "0 < ps" "ds + ps \<le> 255"
  shows "\<exists>rs. reed_solomon_new (\<lambda>_. True) ds ps = Some (Some rs) \<and> rs_ok rs
    \<and> int (data_shards rs) = ds \<and> int (parity_shards rs) = ps
    \<and> parity rs = drop (data_shards rs) (rs_m rs)"
  by (rule reed_solomon_new_code [OF assms])

theorem reed_solomon_new_ok_witness:
  "\<exists>rs. reed_solomon_new (\<lambda>_. True) 10 3 = Some (Some rs) \<and> rs_ok rs
    \<and> int (data_shards rs) = 10 \<and> int (parity_shards rs) = 3
    \<and> parity rs = drop (data_shards rs) (rs_m rs)"
  by (rule reed_solomon_new_ok) simp_all

section \<open>Encoding and the whole round trip\<close>

lemma encode_one_group:
  assumes "0 < shards rs"
  shows "reed_solomon_encode rs store (shards rs) sz
    = (0, code_some_shards (parity rs) [0..<data_shards rs]
        (map (\<lambda>i. data_shards rs + i) [0..<parity_shards rs]) (data_shards rs) (parity_shards rs) sz store)"
proof -
  have "(shards rs + shards rs - 1) div shards rs = 1"
    using assms by (intro div_nat_eqI) simp_all
  then show ?thesis using assms by (simp add: reed_solomon_encode_def Let_def map_idI)
qed

text \<open>A parity row never starts with zero: it could not stand in for the first data shard.\<close>

lemma parity_first_column:
  assumes "rs_ok rs" "j < parity_shards rs"
  shows "ent (rs_m rs) (data_shards rs + j) 0 \<noteq> 0"
proof
  let ?ds = "data_shards rs"
  assume z: "ent (rs_m rs) (?ds + j) 0 = 0"
  have ok: "0 < ?ds" "shards rs = ?ds + parity_shards rs" "independent_rows ?ds (shards rs) (rs_m rs)"
    "\<And>i k. i < ?ds \<Longrightarrow> k < ?ds \<Longrightarrow> ent (rs_m rs) i k = (if i = k then 1 else 0)"
    using assms(1) unfolding rs_ok_def by blast+
  let ?rows = "(?ds + j) # [1..<?ds]" and ?x = "\<lambda>i. if i = 0 then 1 else (0 :: gf256)"
  have inj: "injective ?ds (\<lambda>i k. ent (rs_m rs) (?rows ! i) k)"
  proof (rule ok(3) [unfolded independent_rows_def, rule_format])
    show "length ?rows = ?ds" "distinct ?rows" "set ?rows \<subseteq> {..<shards rs}"
      using ok(1,2) assms(2) by auto
  qed
  have zero: "mv ?ds (\<lambda>i k. ent (rs_m rs) (?rows ! i) k) ?x i = 0" if "i < ?ds" for i
  proof -
    have "mv ?ds (\<lambda>i k. ent (rs_m rs) (?rows ! i) k) ?x i = ent (rs_m rs) (?rows ! i) 0"
      using mv_split [OF ok(1), of "\<lambda>i k. ent (rs_m rs) (?rows ! i) k" ?x i] by simp
    moreover have "ent (rs_m rs) (?rows ! i) 0 = 0"
    proof (cases i)
      case 0
      then show ?thesis using z by simp
    next
      case (Suc k)
      then have "?rows ! i = Suc k" using that by simp
      then show ?thesis using ok(4) [of "Suc k" 0] ok(1) that Suc by simp
    qed
    ultimately show ?thesis by simp
  qed
  have "(\<forall>i < ?ds. mv ?ds (\<lambda>i k. ent (rs_m rs) (?rows ! i) k) ?x i = 0) \<longrightarrow> (\<forall>j < ?ds. ?x j = 0)"
    using inj unfolding injective_def by (rule spec)
  then have "\<forall>j < ?ds. ?x j = 0" using zero by simp
  from this [rule_format, of 0] ok(1) show False by simp
qed

lemma encode_codeword:
  assumes "rs_ok rs" "parity rs = drop (data_shards rs) (rs_m rs)"
    and "length store = shards rs" "\<forall>i < shards rs. length (store ! i) = sz"
  shows "codeword rs sz (\<lambda>r. snd (reed_solomon_encode rs store (shards rs) sz) ! r)"
    "length (snd (reed_solomon_encode rs store (shards rs) sz)) = shards rs"
    "i < data_shards rs \<Longrightarrow> snd (reed_solomon_encode rs store (shards rs) sz) ! i = store ! i"
proof -
  let ?ds = "data_shards rs" and ?ps = "parity_shards rs"
  have ok: "0 < ?ds" "shards rs = ?ds + ?ps" "length (rs_m rs) = shards rs"
    "\<And>i k. i < ?ds \<Longrightarrow> k < ?ds \<Longrightarrow> ent (rs_m rs) i k = (if i = k then 1 else 0)"
    using assms(1) unfolding rs_ok_def by blast+
  let ?out = "map (\<lambda>i. ?ds + i) [0..<?ps]"
  let ?enc = "code_some_shards (parity rs) [0..<?ds] ?out ?ds ?ps sz store"
  have enc: "snd (reed_solomon_encode rs store (shards rs) sz) = ?enc"
    using ok by (subst encode_one_group) simp_all
  have ready: "shards_ready sz [0..<?ds] ?out ?ds ?ps store"
    using assms(3,4) ok(2) by (auto simp: shards_ready_def distinct_map inj_on_def)
  have par: "parity rs ! r = rs_m rs ! (?ds + r)" if "r < ?ps" for r
    using that ok(2,3) assms(2) by simp
  have first: "\<forall>r < ?ps. parity rs ! r ! 0 \<noteq> 0"
    using parity_first_column [OF assms(1)] par by (simp add: ent_def gf_simps)
  note res = code_some_shards_nth [OF ready first ok(1)]
  have data: "?enc ! i = store ! i" if "i < ?ds" for i by (rule res(2)) (use that in auto)
  show "length (snd (reed_solomon_encode rs store (shards rs) sz)) = shards rs"
    unfolding enc using res(1) assms(3) by simp
  show "i < ?ds \<Longrightarrow> snd (reed_solomon_encode rs store (shards rs) sz) ! i = store ! i"
    unfolding enc by (rule data)
  have cw: "length (?enc ! r) = sz \<and> (\<forall>b < sz. gf (?enc ! r ! b) = combination ?ds (ent (rs_m rs) r) ((!) ?enc) b)"
    if r: "r < shards rs" for r
  proof (cases "r < ?ds")
    case True
    have "combination ?ds (ent (rs_m rs) r) ((!) ?enc) b = (\<Sum>c < ?ds. if r = c then gf (?enc ! c ! b) else 0)" for b
      unfolding combination_def by (rule sum.cong) (use ok(4) True in auto)
    then show ?thesis using True data assms(4) r by simp
  next
    case False
    then have j: "r - ?ds < ?ps" "?out ! (r - ?ds) = r" "?ds + (r - ?ds) = r" using r ok(2) by auto
    have comb: "combination ?ds (\<lambda>c. gf (parity rs ! (r - ?ds) ! c)) (\<lambda>c. store ! ([0..<?ds] ! c)) b
        = combination ?ds (ent (rs_m rs) r) ((!) ?enc) b" for b
      unfolding combination_def by (rule sum.cong) (use par j data in \<open>auto simp: ent_def\<close>)
    have "length (?enc ! r) = sz" using res(3) [OF j(1)] unfolding j(2) .
    moreover have "gf (?enc ! r ! b) = combination ?ds (ent (rs_m rs) r) ((!) ?enc) b" if "b < sz" for b
      using res(4) [OF j(1) that] unfolding j(2) comb .
    ultimately show ?thesis by blast
  qed
  show "codeword rs sz (\<lambda>r. snd (reed_solomon_encode rs store (shards rs) sz) ! r)"
    unfolding enc codeword_def using cw by simp
qed

text \<open>
  Property C6.  Erasure recovery, end to end, for every code the constructor builds: encode any
  data blocks, lose any of the data and parity blocks (a lost block may hold anything), and if
  at least as many parity blocks arrived as data blocks are missing,
  \<open>reed_solomon_reconstruct\<close> returns 0 with every data block restored and no parity block
  touched.  The coefficient 0, for which \<open>mul\<close> would leave stale bytes, does not occur.
\<close>

theorem reed_solomon_recovers:
  assumes "0 < ds" "0 < ps" "ds + ps \<le> 255" "reed_solomon_new (\<lambda>_. True) ds ps = Some (Some rs)"
    and "length store = nat (ds + ps)" "\<forall>i < nat (ds + ps). length (store ! i) = sz"
    and "received rs sz (\<lambda>i. snd (reed_solomon_encode rs store (nat (ds + ps)) sz) ! i) marks got"
    and "length (lost_data rs marks) \<le> length (good_parity rs marks)"
  shows "\<exists>out. reed_solomon_reconstruct rs got marks (nat (ds + ps)) sz = (0, out)
    \<and> (\<forall>i < nat ds. out ! i = store ! i) \<and> (\<forall>i \<ge> nat ds. out ! i = got ! i)"
proof -
  have rs: "rs_ok rs" "int (data_shards rs) = ds" "int (parity_shards rs) = ps"
    "parity rs = drop (data_shards rs) (rs_m rs)"
    using reed_solomon_new_code [OF assms(1-3)] assms(4) by auto
  then have n: "shards rs = nat (ds + ps)" "data_shards rs = nat ds" by (auto simp: rs_ok_def)
  note enc = encode_codeword [OF rs(1,4), of store sz, unfolded n(1), OF assms(5,6)]
  show ?thesis
    using reconstruct_recovers [OF rs(1) enc(1) assms(7,8)] enc(3) n by auto
qed

theorem reed_solomon_recovers_witness:
  "\<exists>rs out. reed_solomon_new (\<lambda>_. True) 1 1 = Some (Some rs)
    \<and> reed_solomon_reconstruct rs ((snd (reed_solomon_encode rs [[5], [0]] 2 1)) [0 := [9]]) [1, 0] 2 1 = (0, out)
    \<and> out ! 0 = [5]"
proof -
  obtain rs where rs: "reed_solomon_new (\<lambda>_. True) 1 1 = Some (Some rs)" "rs_ok rs"
    "data_shards rs = 1" "parity_shards rs = 1" "parity rs = drop (data_shards rs) (rs_m rs)"
    using reed_solomon_new_code [of 1 1] by auto
  then have n: "shards rs = 2" by (simp add: rs_ok_def)
  let ?enc = "snd (reed_solomon_encode rs [[5], [0]] 2 1)"
  have enc: "length ?enc = 2"
    using encode_codeword(2) [OF rs(2,5), of "[[5], [0]]" 1] n by (simp add: less_Suc_eq numeral_2_eq_2)
  have "received rs 1 (\<lambda>i. ?enc ! i) [1, 0] (?enc[0 := [9]])"
    using enc rs(3) n by (auto simp: received_def less_Suc_eq numeral_2_eq_2)
  moreover have "length (lost_data rs [1, 0]) \<le> length (good_parity rs [1, 0])"
    using rs(3,4) by (simp add: lost_data_def good_parity_def)
  ultimately show ?thesis
    using reed_solomon_recovers [of 1 1 rs "[[5], [0]]" 1 "[1, 0]" "?enc[0 := [9]]"] rs(1)
    by (auto simp: less_Suc_eq numeral_2_eq_2)
qed

text \<open>
  Two latent defects the proof had to step around: a zero coefficient does not clear the
  destination, and the sorting of the erased blocks stops at the first round without a swap.
\<close>

lemma mul_zero_keeps_destination: "mul dst s 0 sz = dst"
  by (simp add: mul_def)

lemma sort_erased_incomplete: "sort_erased 0 [1, 3, 2] = [1, 3, 2]"
  by code_simp

end
