(* ===== verification/SerialNumber.thy ===== *)
theory SerialNumber
  imports Prelude
begin

text \<open>
  Serial number comparison: the macros \<open>U16\<close>, \<open>U24\<close>, \<open>isBefore16\<close>, \<open>isBefore24\<close> and
  \<open>isBefore32\<close> of Limelight-internal.h, by which every queue of the streaming core orders
  wrapping RTP sequence numbers and frame numbers.  The locale \<open>serial_order\<close> is the
  interface the queues rely on: a comparison that, inside a window of half the number
  space, is the order of the distances from the window's origin.
\<close>

definition U16 :: "'a::len word \<Rightarrow> u16" where
  "U16 x = ucast x"

definition U24 :: "u32 \<Rightarrow> u32" where
  "U24 x = x AND 0xFFFFFF"

text \<open>
  The C macro truncates the difference of two integers of any width to 16 bits; the
  truncation commutes with the subtraction.
\<close>

definition isBefore16 :: "'a::len word \<Rightarrow> 'b::len word \<Rightarrow> bool" where
  "isBefore16 x y \<longleftrightarrow> 0x7FFF < U16 x - U16 y"

definition isBefore24 :: "u32 \<Rightarrow> u32 \<Rightarrow> bool" where
  "isBefore24 x y \<longleftrightarrow> 0x7FFFFF < U24 (x - y)"

definition isBefore32 :: "u32 \<Rightarrow> u32 \<Rightarrow> bool" where
  "isBefore32 x y \<longleftrightarrow> 0x7FFFFFFF < x - y"

lemma U16_u16 [simp]: "U16 (x :: u16) = x"
  by (simp add: U16_def)

lemma U16_u32_of_u16 [simp]: "U16 (ucast (x :: u16) :: u32) = x"
  unfolding U16_def by (rule bit_word_eqI) (simp add: bit_simps)

lemma U16_U16 [simp]: "U16 (U16 x) = U16 x"
  by (simp add: U16_def)

lemma isBefore16_U16: "isBefore16 x y = isBefore16 (U16 x) (U16 y)"
  by (simp add: isBefore16_def)

section \<open>The interface: serial order\<close>

locale serial_order =
  fixes before :: "'a \<Rightarrow> 'a \<Rightarrow> bool"
    and dist :: "'a \<Rightarrow> 'a \<Rightarrow> nat"
    and half :: nat
  assumes half_pos: "0 < half"
    and dist_self: "dist x x = 0"
    and dist_less: "dist x y < 2 * half"
    and dist_add: "dist x z = (dist x y + dist y z) mod (2 * half)"
    and before_dist: "before x y \<longleftrightarrow> half \<le> dist y x"
begin

lemma before_irrefl: "\<not> before x x"
  using half_pos by (simp add: before_dist dist_self)

lemma dist_sym: "dist x y + dist y x = 0 \<or> dist x y + dist y x = 2 * half"
proof -
  have "(dist x y + dist y x) mod (2 * half) = 0"
    using dist_add [of x x y] by (simp add: dist_self)
  then obtain k where k: "dist x y + dist y x = k * (2 * half)"
    by (metis dvd_def mod_0_imp_dvd mult.commute)
  have "k * (2 * half) < 2 * (2 * half)"
    using dist_less [of x y] dist_less [of y x] k by linarith
  then have "k < 2" by simp
  with k show ?thesis by (cases k) auto
qed

lemma before_ahead: "before x y \<longleftrightarrow> 0 < dist x y \<and> dist x y \<le> half"
  using dist_sym [of x y] dist_less [of y x] half_pos by (auto simp: before_dist)

lemma not_before_origin: "\<not> before x o' \<longleftrightarrow> dist o' x < half"
  by (simp add: before_dist not_le)

lemma before_in_window:
  assumes "dist o' x < half" "dist o' y < half"
  shows "before x y \<longleftrightarrow> dist o' x < dist o' y"
proof -
  have eq: "dist o' y = (dist o' x + dist x y) mod (2 * half)" by (rule dist_add)
  show ?thesis
  proof (cases "dist o' x + dist x y < 2 * half")
    case True
    then have "dist o' y = dist o' x + dist x y" using eq by simp
    then show ?thesis using assms by (auto simp: before_ahead)
  next
    case False
    moreover have "dist o' x + dist x y < 2 * (2 * half)"
      using dist_less [of o' x] dist_less [of x y] by linarith
    ultimately have "dist o' y = dist o' x + dist x y - 2 * half"
      using eq by (simp add: mod_if le_mod_geq)
    then show ?thesis
      using False assms dist_less [of x y] by (auto simp: before_ahead)
  qed
qed

lemma before_trans_window:
  assumes "dist o' x < half" "dist o' y < half" "dist o' z < half" "before x y" "before y z"
  shows "before x z"
  using assms before_in_window [of o' x y] before_in_window [of o' y z] before_in_window [of o' x z]
  by linarith

lemma sorted_in_window:
  assumes "\<forall>x \<in> set xs. dist o' x < half"
  shows "sorted_wrt before xs \<longleftrightarrow> sorted_wrt (\<lambda>x y. dist o' x < dist o' y) xs"
  using assms by (induction xs) (auto simp: before_in_window)

lemma sorted_adjacent:
  assumes "\<forall>x \<in> set xs. dist o' x < half"
    and "\<forall>i. Suc i < length xs \<longrightarrow> before (xs ! i) (xs ! Suc i)"
  shows "sorted_wrt before xs"
proof -
  have "\<forall>i. Suc i < length xs \<longrightarrow> dist o' (xs ! i) < dist o' (xs ! Suc i)"
    using assms by (metis Suc_lessD before_in_window nth_mem)
  then have "sorted_wrt (\<lambda>x y. dist o' x < dist o' y) xs"
    by (simp add: sorted_wrt_iff_nth_Suc_transp transp_def)
  with assms(1) show ?thesis by (simp add: sorted_in_window)
qed

text \<open>Moving the origin forward shortens every distance in the window.\<close>

lemma dist_advance:
  assumes "dist o' p \<le> dist o' x"
  shows "dist p x = dist o' x - dist o' p"
proof -
  have eq: "dist o' x = (dist o' p + dist p x) mod (2 * half)" by (rule dist_add)
  have "dist o' p + dist p x < 2 * half"
  proof (rule ccontr)
    assume neg: "\<not> dist o' p + dist p x < 2 * half"
    have "dist o' p + dist p x < 2 * (2 * half)"
      using dist_less [of o' p] dist_less [of p x] by linarith
    then have "dist o' x = dist o' p + dist p x - 2 * half"
      using eq neg by (simp add: mod_if le_mod_geq)
    then show False using assms neg dist_less [of p x] by linarith
  qed
  then show ?thesis using eq by simp
qed

end

section \<open>The three comparisons of the code\<close>

definition dist16 :: "u16 \<Rightarrow> u16 \<Rightarrow> nat" where
  "dist16 x y = unat (y - x)"

definition dist24 :: "u32 \<Rightarrow> u32 \<Rightarrow> nat" where
  "dist24 x y = unat (U24 (y - x))"

definition dist32 :: "u32 \<Rightarrow> u32 \<Rightarrow> nat" where
  "dist32 x y = unat (y - x)"

lemma unat_diff_add: "unat ((z :: 'a::len word) - x) = (unat (y - x) + unat (z - y)) mod 2 ^ LENGTH('a)"
proof -
  have "z - x = (y - x) + (z - y)" by simp
  then show ?thesis by (metis unat_word_ariths(1))
qed

lemma U24_mod: "unat (U24 x) = unat x mod 2 ^ 24"
proof -
  have "U24 x = take_bit 24 x"
    by (simp add: U24_def take_bit_eq_mask mask_eq_exp_minus_1)
  then have "unat (U24 x) = take_bit 24 (unat x)"
    by (simp add: unsigned_take_bit_eq)
  then show ?thesis by (simp add: take_bit_eq_mod)
qed

interpretation s16: serial_order "isBefore16 :: u16 \<Rightarrow> u16 \<Rightarrow> bool" dist16 32768
proof
  fix x y z :: u16
  show "dist16 x z = (dist16 x y + dist16 y z) mod (2 * 32768)"
    using unat_diff_add [of z x y] by (simp add: dist16_def)
  show "dist16 x y < 2 * 32768"
    using unsigned_less [of "y - x", where 'a = nat] by (simp add: dist16_def)
  show "isBefore16 x y = (32768 \<le> dist16 y x)"
    by (simp add: isBefore16_def dist16_def word_less_nat_alt Suc_le_eq [symmetric])
qed (simp_all add: dist16_def)

interpretation s32: serial_order isBefore32 dist32 2147483648
proof
  fix x y z :: u32
  show "dist32 x z = (dist32 x y + dist32 y z) mod (2 * 2147483648)"
    using unat_diff_add [of z x y] by (simp add: dist32_def)
  show "dist32 x y < 2 * 2147483648"
    using unsigned_less [of "y - x", where 'a = nat] by (simp add: dist32_def)
  show "isBefore32 x y = (2147483648 \<le> dist32 y x)"
    by (simp add: isBefore32_def dist32_def word_less_nat_alt Suc_le_eq [symmetric])
qed (simp_all add: dist32_def)

interpretation s24: serial_order isBefore24 dist24 8388608
proof
  fix x y z :: u32
  have "dist24 x z = ((unat (y - x) + unat (z - y)) mod 2 ^ 32) mod 2 ^ 24"
    using unat_diff_add [of z x y] by (simp add: dist24_def U24_mod)
  also have "\<dots> = (unat (y - x) + unat (z - y)) mod 2 ^ 24"
    by (rule mod_mod_cancel) simp
  finally show "dist24 x z = (dist24 x y + dist24 y z) mod (2 * 8388608)"
    by (simp add: dist24_def U24_mod mod_add_eq)
  show "dist24 x y < 2 * 8388608"
    by (simp add: dist24_def U24_mod)
  show "isBefore24 x y = (8388608 \<le> dist24 y x)"
    by (simp add: isBefore24_def dist24_def word_less_nat_alt Suc_le_eq [symmetric])
qed (simp_all add: dist24_def U24_mod)

section \<open>Distances of 16 bit sequence numbers\<close>

lemma dist16_unat: "dist16 o' x = (if unat o' \<le> unat x then unat x - unat o' else unat x + 65536 - unat o')"
  using unsigned_less [of x, where 'a = nat] unsigned_less [of o', where 'a = nat]
  by (auto simp: dist16_def unat_sub_if')

lemma dist16_0 [simp]: "dist16 x x = 0" by (simp add: dist16_def)

lemma dist16_eq_0: "dist16 o' x = 0 \<longleftrightarrow> x = o'"
  by (auto simp: dist16_def unat_eq_zero)

lemma unat16_less [simp]: "unat (x :: u16) < 65536"
  using unsigned_less [of x, where 'a = nat] by simp

lemma dist16_plus:
  assumes "dist16 o' x + n < 65536"
  shows "dist16 o' (x + of_nat n) = dist16 o' x + n"
proof -
  have "x + of_nat n - o' = (x - o') + of_nat n" by simp
  then have "dist16 o' (x + of_nat n) = unat ((x - o') + of_nat n)"
    unfolding dist16_def by (rule arg_cong)
  also have "\<dots> = unat (x - o') + n"
    using assms by (simp add: dist16_def unat_word_ariths unat_of_nat)
  finally show ?thesis by (simp add: dist16_def)
qed

lemmas dist16_plus4 = dist16_plus [of _ _ 4, simplified]
lemmas dist16_plus1 = dist16_plus [of _ _ 1, simplified]

lemma dist16_inject: "dist16 o' x = dist16 o' y \<longleftrightarrow> x = y"
  by (simp add: dist16_def flip: word_unat_eq_iff)

lemma isBefore16_ahead: "isBefore16 (x :: u16) y \<longleftrightarrow> 0 < dist16 x y \<and> dist16 x y \<le> 32768"
  by (rule s16.before_ahead)

end
