(* ===== verification/Version.thy ===== *)
theory Version
  imports Prelude
begin

text \<open>
  The host's version quad \<open>AppVersionQuad\<close> and the macros of Limelight-internal.h that
  select protocol variants by it; the masks of the video formats.
\<close>

record version =
  vq0 :: int
  vq1 :: int
  vq2 :: int
  vq3 :: int

definition APP_VERSION_AT_LEAST :: "version \<Rightarrow> int \<Rightarrow> int \<Rightarrow> int \<Rightarrow> bool" where
  "APP_VERSION_AT_LEAST v a b c \<longleftrightarrow>
     vq0 v > a \<or> (vq0 v = a \<and> vq1 v > b) \<or> (vq0 v = a \<and> vq1 v = b \<and> vq2 v \<ge> c)"

definition IS_SUNSHINE :: "version \<Rightarrow> bool" where
  "IS_SUNSHINE v \<longleftrightarrow> vq3 v < 0"

definition VIDEO_FORMAT_MASK_H264 :: u32 where "VIDEO_FORMAT_MASK_H264 = 0x000F"
definition VIDEO_FORMAT_MASK_H265 :: u32 where "VIDEO_FORMAT_MASK_H265 = 0x0F00"
definition VIDEO_FORMAT_MASK_AV1 :: u32 where "VIDEO_FORMAT_MASK_AV1 = 0xF000"

lemma APP_VERSION_AT_LEAST_mono:
  assumes "APP_VERSION_AT_LEAST v a b c" "APP_VERSION_AT_LEAST \<lparr>vq0 = a, vq1 = b, vq2 = c, vq3 = 0\<rparr> a' b' c'"
  shows "APP_VERSION_AT_LEAST v a' b' c'"
  using assms by (auto simp: APP_VERSION_AT_LEAST_def)

end
