(* ===== verification/RtpAudioQueue.thy ===== *)
theory RtpAudioQueue
  imports ReedSolomon SerialNumber Version
begin

text \<open>
  The audio reordering and recovery queue of RtpAudioQueue.c.  Blocks of four data and two
  parity shards are kept in a list ordered by base sequence number; packets are handed on in
  order, blocks are completed from any four of their six shards, and a block that cannot be
  completed is played with gaps.  The doubly linked list is modelled as the list of its
  blocks, a pointer to a block as its position in the list; the consistency assertions on
  \<open>prev\<close>, \<open>next\<close> and \<open>blockTail\<close> hold by construction.  The other \<open>LC_ASSERT\<close>s, and every
  access by index or \<open>memcpy\<close>, are the value \<open>None\<close> when they fail.  \<open>LC_ASSERT_VT\<close>, which
  checks the remote host in a validating build only, is left out, as is \<open>FEC_VALIDATION_MODE\<close>.
\<close>

section \<open>Data\<close>

definition RTP_PAYLOAD_TYPE_AUDIO :: u8 where "RTP_PAYLOAD_TYPE_AUDIO = 97"
definition RTP_PAYLOAD_TYPE_FEC :: u8 where "RTP_PAYLOAD_TYPE_FEC = 127"
definition RTPQ_OOS_WAIT_TIME_MS :: u32 where "RTPQ_OOS_WAIT_TIME_MS = 10"
definition RTPA_DATA_SHARDS :: nat where "RTPA_DATA_SHARDS = 4"
definition RTPA_FEC_SHARDS :: nat where "RTPA_FEC_SHARDS = 2"
definition RTPA_TOTAL_SHARDS :: nat where "RTPA_TOTAL_SHARDS = RTPA_DATA_SHARDS + RTPA_FEC_SHARDS"
definition RTPA_CACHED_FEC_BLOCK_LIMIT :: u16 where "RTPA_CACHED_FEC_BLOCK_LIMIT = 4"
definition RTPQ_RET_PACKET_READY :: int where "RTPQ_RET_PACKET_READY = 2"
definition RTPQ_RET_HANDLE_NOW :: int where "RTPQ_RET_HANDLE_NOW = 4"

text \<open>The sizes of the packed structures \<open>RTP_PACKET\<close> and \<open>AUDIO_FEC_HEADER\<close>.\<close>

abbreviation sizeof_RTP_PACKET :: nat where "sizeof_RTP_PACKET \<equiv> 12"
abbreviation sizeof_AUDIO_FEC_HEADER :: nat where "sizeof_AUDIO_FEC_HEADER \<equiv> 12"

text \<open>An RTP packet: the fixed header and the memory that follows it.\<close>

record rtp_packet =
  rtp_header :: u8
  packetType :: u8
  sequenceNumber :: u16
  timestamp :: u32
  ssrc :: u32
  payload :: "u8 list"

record audio_fec_header =
  fecShardIndex :: u8
  payloadType :: u8
  baseSequenceNumber :: u16
  baseTimestamp :: u32
  fec_ssrc :: u32

record fec_block =
  dataPackets :: "rtp_packet list"
  fecPackets :: "u8 list list"
  marks :: "u8 list"
  fecHeader :: audio_fec_header
  queueTimeMs :: u64
  dataShardsReceived :: nat
  fecShardsReceived :: nat
  fullyReassembled :: bool
  nextDataPacketIndex :: nat
  allowDiscontinuity :: bool
  blockSize :: u16

text \<open>The free list is the list of the sizes of the cached blocks; their contents are stale.\<close>

record audio_queue =
  blocks :: "fec_block list"
  aq_rs :: reed_solomon
  freeBlocks :: "u16 list"
  freeBlockCount :: u16
  nextRtpSequenceNumber :: u16
  oldestRtpBaseSequenceNumber :: u16
  lastOosSequenceNumber :: u16
  receivedOosData :: bool
  synchronizing :: bool
  incompatibleServer :: bool

text \<open>
  What a call takes from its surroundings: whether its allocation succeeds, what the memory of
  a new block holds, and the clock at its two readings.
\<close>

record audio_env =
  env_alloc :: bool
  env_header :: "nat \<Rightarrow> rtp_packet"
  env_byte :: "nat \<Rightarrow> nat \<Rightarrow> u8"
  env_now :: u64
  env_later :: u64

abbreviation block_base :: "fec_block \<Rightarrow> u16" where
  "block_base b \<equiv> baseSequenceNumber (fecHeader b)"

definition parity_override :: matrix where
  "parity_override = [[0x77, 0x40, 0x38, 0x0e], [0xc7, 0xa7, 0x0d, 0x6c]]"

text \<open>A failed allocation in \<open>reed_solomon_new\<close> is followed by a null dereference.\<close>

definition RtpaInitializeQueue :: "version \<Rightarrow> (nat \<Rightarrow> bool) \<Rightarrow> audio_queue option" where
  "RtpaInitializeQueue v alloc = do {
     r \<leftarrow> reed_solomon_new alloc (int RTPA_DATA_SHARDS) (int RTPA_FEC_SHARDS);
     rs \<leftarrow> r;
     Some \<lparr>blocks = [],
           aq_rs = rs\<lparr>rs_m := take RTPA_DATA_SHARDS (rs_m rs) @ parity_override, parity := parity_override\<rparr>,
           freeBlocks = [], freeBlockCount = 0, nextRtpSequenceNumber = 0,
           oldestRtpBaseSequenceNumber = 0, lastOosSequenceNumber = 0, receivedOosData = False,
           synchronizing = True, incompatibleServer = \<not> APP_VERSION_AT_LEAST v 7 1 415\<rparr> }"

section \<open>The list of blocks\<close>

fun validate_order :: "u16 \<Rightarrow> fec_block list \<Rightarrow> unit option" where
  "validate_order lastSeqNum [] = Some ()"
| "validate_order lastSeqNum (b # bs) = do {
     _ \<leftarrow> LC_ASSERT (isBefore16 lastSeqNum (block_base b));
     validate_order (block_base b) bs }"

definition validateFecBlockState :: "audio_queue \<Rightarrow> unit option" where
  "validateFecBlockState q = do {
     _ \<leftarrow> LC_ASSERT (\<not> isBefore16 (nextRtpSequenceNumber q) (oldestRtpBaseSequenceNumber q) \<or> synchronizing q);
     (case blocks q of
        [] \<Rightarrow> Some ()
      | b # bs \<Rightarrow> do {
          _ \<leftarrow> LC_ASSERT (isBefore16 (nextRtpSequenceNumber q) (block_base b + of_nat RTPA_DATA_SHARDS));
          _ \<leftarrow> LC_ASSERT (\<not> isBefore16 (block_base b) (oldestRtpBaseSequenceNumber q));
          validate_order (block_base b) bs }) }"

text \<open>Whether a block was obtained, from the free list or from the allocator.\<close>

definition allocateFecBlock :: "bool \<Rightarrow> audio_queue \<Rightarrow> u16 \<Rightarrow> (bool \<times> audio_queue) option" where
  "allocateFecBlock alloc q sz =
     (case freeBlocks q of
        s # ss \<Rightarrow> do {
          _ \<leftarrow> LC_ASSERT (freeBlockCount q > 0);
          let q' = q\<lparr>freeBlocks := ss, freeBlockCount := freeBlockCount q - 1\<rparr>;
          Some (if s = sz then True else alloc, q') }
      | [] \<Rightarrow> do {
          _ \<leftarrow> LC_ASSERT (freeBlockCount q = 0);
          Some (alloc, q) })"

definition freeFecBlockHead :: "audio_queue \<Rightarrow> audio_queue option" where
  "freeFecBlockHead q =
     (case blocks q of
        [] \<Rightarrow> None
      | b # bs \<Rightarrow> do {
          let q = q\<lparr>blocks := bs,
                    oldestRtpBaseSequenceNumber := block_base b + of_nat RTPA_DATA_SHARDS,
                    synchronizing := False\<rparr>;
          _ \<leftarrow> validateFecBlockState q;
          Some (if freeBlockCount q \<ge> RTPA_CACHED_FEC_BLOCK_LIMIT then q
                else q\<lparr>freeBlocks := blockSize b # freeBlocks q, freeBlockCount := freeBlockCount q + 1\<rparr>) })"

fun free_cached :: "u16 list \<Rightarrow> u16 \<Rightarrow> u16" where
  "free_cached [] n = n"
| "free_cached (s # ss) n = free_cached ss (n - 1)"

definition RtpaCleanupQueue :: "audio_queue \<Rightarrow> audio_queue option" where
  "RtpaCleanupQueue q = do {
     let q = q\<lparr>blocks := [], freeBlocks := [], freeBlockCount := free_cached (freeBlocks q) (freeBlockCount q)\<rparr>;
     _ \<leftarrow> LC_ASSERT (freeBlockCount q = 0);
     Some q }"

section \<open>Finding the block of a packet\<close>

text \<open>The FEC header in the packet's payload, in network byte order.\<close>

definition read_fec_header :: "rtp_packet \<Rightarrow> audio_fec_header option" where
  "read_fec_header p = do {
     bs \<leftarrow> mem_read (payload p) 0 sizeof_AUDIO_FEC_HEADER;
     Some \<lparr>fecShardIndex = bs ! 0, payloadType = bs ! 1,
           baseSequenceNumber = BE16 (of_le_bytes (take 2 (drop 2 bs))),
           baseTimestamp = BE32 (of_le_bytes (take 4 (drop 4 bs))),
           fec_ssrc = BE32 (of_le_bytes (take 4 (drop 8 bs)))\<rparr> }"

text \<open>Lines 212 to 227: remember whether data packets lately arrived after their block was left.\<close>

definition track_oos :: "rtp_packet \<Rightarrow> audio_queue \<Rightarrow> audio_queue" where
  "track_oos p q =
     (if \<not> synchronizing q \<and> isBefore16 (sequenceNumber p) (oldestRtpBaseSequenceNumber q)
      then q\<lparr>lastOosSequenceNumber := sequenceNumber p, receivedOosData := True\<rparr>
      else if receivedOosData q \<and> isBefore16 (oldestRtpBaseSequenceNumber q) (lastOosSequenceNumber q)
      then q\<lparr>receivedOosData := False\<rparr>
      else q)"

text \<open>
  The header of the block the packet belongs to and the block's size, or \<open>None\<close> for a packet
  that is rejected, with the state after the checks.
\<close>

definition data_fec_header :: "u32 \<Rightarrow> rtp_packet \<Rightarrow> audio_fec_header" where
  "data_fec_header dur p =
     (let base = (sequenceNumber p div of_nat RTPA_DATA_SHARDS) * of_nat RTPA_DATA_SHARDS
      in \<lparr>fecShardIndex = 0, payloadType = packetType p, baseSequenceNumber = base,
          baseTimestamp = timestamp p - ucast (sequenceNumber p - base) * dur,
          fec_ssrc = ssrc p\<rparr>)"

definition packet_fec_header ::
  "u32 \<Rightarrow> audio_queue \<Rightarrow> rtp_packet \<Rightarrow> u16 \<Rightarrow> ((audio_fec_header \<times> u16) option \<times> audio_queue) option" where
  "packet_fec_header dur q p len =
     (if packetType p = RTP_PAYLOAD_TYPE_AUDIO then
        if unat len < sizeof_RTP_PACKET then Some (None, q)
        else Some (Some (data_fec_header dur p, len - of_nat sizeof_RTP_PACKET), track_oos p q)
      else if packetType p = RTP_PAYLOAD_TYPE_FEC then
        if unat len < sizeof_RTP_PACKET + sizeof_AUDIO_FEC_HEADER then Some (None, q)
        else do {
          h \<leftarrow> read_fec_header p;
          if fecShardIndex h \<ge> of_nat RTPA_FEC_SHARDS then Some (None, q)
          else if baseSequenceNumber h mod of_nat RTPA_DATA_SHARDS \<noteq> 0
          then Some (None, q\<lparr>incompatibleServer := True\<rparr>)
          else Some (Some (h\<lparr>fecShardIndex := 0\<rparr>,
                           len - of_nat sizeof_RTP_PACKET - of_nat sizeof_AUDIO_FEC_HEADER), q) }
      else Some (None, q))"

text \<open>The search of lines 294 to 323: a block of that base, or the place of a new one.\<close>

datatype position = Existing nat | Before nat

fun find_block :: "u16 \<Rightarrow> nat \<Rightarrow> fec_block list \<Rightarrow> position" where
  "find_block base i [] = Before i"
| "find_block base i (b # bs) =
     (if block_base b = base then Existing i
      else if isBefore16 base (block_base b) then Before i
      else find_block base (Suc i) bs)"

definition new_block :: "audio_env \<Rightarrow> audio_fec_header \<Rightarrow> u16 \<Rightarrow> fec_block" where
  "new_block e h sz =
     \<lparr>dataPackets = map (\<lambda>i. env_header e i \<lparr>payload := map (env_byte e i) [0..<unat sz]\<rparr>) [0..<RTPA_DATA_SHARDS],
      fecPackets = map (\<lambda>i. map (env_byte e (RTPA_DATA_SHARDS + i)) [0..<unat sz]) [0..<RTPA_FEC_SHARDS],
      marks = replicate RTPA_TOTAL_SHARDS 1, fecHeader = h, queueTimeMs = env_now e,
      dataShardsReceived = 0, fecShardsReceived = 0, fullyReassembled = False,
      nextDataPacketIndex = 0, allowDiscontinuity = False, blockSize = sz\<rparr>"

definition insert_block :: "nat \<Rightarrow> fec_block \<Rightarrow> fec_block list \<Rightarrow> fec_block list" where
  "insert_block i b bs = take i bs @ b # drop i bs"

definition getFecBlockForRtpPacket ::
  "u32 \<Rightarrow> audio_env \<Rightarrow> audio_queue \<Rightarrow> rtp_packet \<Rightarrow> u16 \<Rightarrow> (nat option \<times> audio_queue) option" where
  "getFecBlockForRtpPacket dur e q p len = do {
     _ \<leftarrow> validateFecBlockState q;
     (hdr, q) \<leftarrow> packet_fec_header dur q p len;
     (case hdr of
        None \<Rightarrow> Some (None, q)
      | Some (h, sz) \<Rightarrow>
          if synchronizing q \<and> oldestRtpBaseSequenceNumber q = 0 then
            let start = baseSequenceNumber h + of_nat RTPA_DATA_SHARDS
            in Some (None, q\<lparr>nextRtpSequenceNumber := start, oldestRtpBaseSequenceNumber := start\<rparr>)
          else if isBefore16 (baseSequenceNumber h) (oldestRtpBaseSequenceNumber q) then Some (None, q)
          else (case find_block (baseSequenceNumber h) 0 (blocks q) of
                  Existing i \<Rightarrow>
                    let b = blocks q ! i
                    in if blockSize b \<noteq> sz then Some (None, q\<lparr>incompatibleServer := True\<rparr>)
                       else Some (if fullyReassembled b then None else Some i, q)
                | Before i \<Rightarrow> do {
                    (ok, q) \<leftarrow> allocateFecBlock (env_alloc e) q sz;
                    if \<not> ok then Some (None, q)
                    else do {
                      let q = q\<lparr>blocks := insert_block i (new_block e h sz) (blocks q)\<rparr>;
                      _ \<leftarrow> validateFecBlockState q;
                      Some (Some i, q) } })) }"

section \<open>Completing a block\<close>

text \<open>The header of a recovered data packet; its payload is the reconstructed shard.\<close>

definition recovered_packet :: "u32 \<Rightarrow> fec_block \<Rightarrow> nat \<Rightarrow> u8 list \<Rightarrow> rtp_packet" where
  "recovered_packet dur b i bytes =
     \<lparr>rtp_header = 0x80, packetType = payloadType (fecHeader b),
      sequenceNumber = block_base b + of_nat i,
      timestamp = baseTimestamp (fecHeader b) + of_nat i * dur,
      ssrc = fec_ssrc (fecHeader b), payload = bytes\<rparr>"

definition completeFecBlock :: "u32 \<Rightarrow> reed_solomon \<Rightarrow> fec_block \<Rightarrow> (bool \<times> fec_block) option" where
  "completeFecBlock dur rs b =
     (if dataShardsReceived b + fecShardsReceived b < RTPA_DATA_SHARDS then Some (False, b)
      else do {
        _ \<leftarrow> LC_ASSERT (dataShardsReceived b \<le> RTPA_DATA_SHARDS);
        if dataShardsReceived b = RTPA_DATA_SHARDS then Some (True, b)
        else do {
          let (res, out) = reed_solomon_reconstruct rs (map payload (dataPackets b) @ fecPackets b)
                 (marks b) RTPA_TOTAL_SHARDS (unat (blockSize b));
          _ \<leftarrow> LC_ASSERT (res = 0);
          Some (True, b\<lparr>dataPackets := map (\<lambda>i. if marks b ! i \<noteq> 0 then recovered_packet dur b i (out ! i)
                                              else (dataPackets b ! i)\<lparr>payload := out ! i\<rparr>) [0..<RTPA_DATA_SHARDS],
                        fecPackets := drop RTPA_DATA_SHARDS out,
                        marks := map (\<lambda>i. if i < RTPA_DATA_SHARDS then 0 else marks b ! i) [0..<RTPA_TOTAL_SHARDS]\<rparr>) } })"

section \<open>Giving packets out\<close>

definition head_ready :: "audio_queue \<Rightarrow> fec_block \<Rightarrow> bool option" where
  "head_ready q b = do {
     m \<leftarrow> nth_opt (marks b) (nextDataPacketIndex b);
     Some ((m = 0 \<and> uint (block_base b) + int (nextDataPacketIndex b) = uint (nextRtpSequenceNumber q))
           \<or> allowDiscontinuity b) }"

definition queueHasPacketReady :: "audio_queue \<Rightarrow> bool option" where
  "queueHasPacketReady q = do {
     _ \<leftarrow> validateFecBlockState q;
     (case blocks q of [] \<Rightarrow> Some False | b # bs \<Rightarrow> head_ready q b) }"

definition handleMissingPackets :: "u32 \<Rightarrow> audio_env \<Rightarrow> audio_queue \<Rightarrow> audio_queue option" where
  "handleMissingPackets dur e q =
     (case blocks q of
        [] \<Rightarrow> Some q
      | b # bs \<Rightarrow>
          if isBefore16 (nextRtpSequenceNumber q) (block_base b)
          then Some (q\<lparr>nextRtpSequenceNumber := block_base b, oldestRtpBaseSequenceNumber := block_base b\<rparr>)
          else if bs = [] then Some q
          else if \<not> receivedOosData q
                  \<or> env_later e - queueTimeMs b > ucast (dur * of_nat RTPA_DATA_SHARDS + RTPQ_OOS_WAIT_TIME_MS)
          then do {
            _ \<leftarrow> LC_ASSERT (\<not> isBefore16 (nextRtpSequenceNumber q) (block_base b));
            let q = q\<lparr>blocks := b\<lparr>allowDiscontinuity := True\<rparr> # bs\<rparr>;
            ready \<leftarrow> queueHasPacketReady q;
            _ \<leftarrow> LC_ASSERT ready;
            Some q }
          else Some q)"

text \<open>Line 598 on: after an in-order data packet the block is left when it is used up.\<close>

definition leave_block :: "nat \<Rightarrow> audio_queue \<Rightarrow> audio_queue option" where
  "leave_block i q = do {
     b \<leftarrow> nth_opt (blocks q) i;
     if nextRtpSequenceNumber q = block_base b + of_nat RTPA_DATA_SHARDS then do {
       _ \<leftarrow> LC_ASSERT (i = 0);
       _ \<leftarrow> LC_ASSERT (nextDataPacketIndex b = RTPA_DATA_SHARDS);
       freeFecBlockHead q }
     else do { _ \<leftarrow> validateFecBlockState q; Some q } }"

text \<open>Lines 633 to 645: complete the block, skip what is lost, and say whether a packet is ready.\<close>

definition finish_add :: "u32 \<Rightarrow> audio_env \<Rightarrow> nat \<Rightarrow> audio_queue \<Rightarrow> (int \<times> audio_queue) option" where
  "finish_add dur e i q = do {
     b \<leftarrow> nth_opt (blocks q) i;
     _ \<leftarrow> LC_ASSERT (i = 0 \<or> length (blocks q) \<noteq> 1);
     (complete, b) \<leftarrow> completeFecBlock dur (aq_rs q) b;
     let q = q\<lparr>blocks := (blocks q)[i := if complete then b\<lparr>fullyReassembled := True\<rparr> else b]\<rparr>;
     ready \<leftarrow> queueHasPacketReady q;
     q \<leftarrow> (if \<not> ready then handleMissingPackets dur e q else Some q);
     ready \<leftarrow> queueHasPacketReady q;
     Some (if ready then RTPQ_RET_PACKET_READY else 0, q) }"

text \<open>The data shard at \<open>pos\<close>: \<open>None\<close> inside the option when it is a duplicate.\<close>

definition store_data :: "rtp_packet \<Rightarrow> u16 \<Rightarrow> nat \<Rightarrow> fec_block \<Rightarrow> fec_block option option" where
  "store_data p len pos b = do {
     m \<leftarrow> nth_opt (marks b) pos;
     if m = 0 then Some None
     else do {
       bytes \<leftarrow> mem_read (payload p) 0 (unat len - sizeof_RTP_PACKET);
       old \<leftarrow> nth_opt (dataPackets b) pos;
       new \<leftarrow> mem_write (payload old) 0 bytes;
       Some (Some (b\<lparr>dataPackets := (dataPackets b)[pos := p\<lparr>payload := new\<rparr>],
                     marks := (marks b)[pos := 0],
                     dataShardsReceived := dataShardsReceived b + 1\<rparr>)) } }"

definition store_fec :: "rtp_packet \<Rightarrow> u16 \<Rightarrow> nat \<Rightarrow> fec_block \<Rightarrow> fec_block option option" where
  "store_fec p len k b = do {
     m \<leftarrow> nth_opt (marks b) (RTPA_DATA_SHARDS + k);
     if m = 0 then Some None
     else do {
       bytes \<leftarrow> mem_read (payload p) sizeof_AUDIO_FEC_HEADER (unat len - sizeof_RTP_PACKET - sizeof_AUDIO_FEC_HEADER);
       old \<leftarrow> nth_opt (fecPackets b) k;
       new \<leftarrow> mem_write old 0 bytes;
       Some (Some (b\<lparr>fecPackets := (fecPackets b)[k := new],
                     marks := (marks b)[RTPA_DATA_SHARDS + k := 0],
                     fecShardsReceived := fecShardsReceived b + 1\<rparr>)) } }"

definition RtpaAddPacket ::
  "u32 \<Rightarrow> audio_env \<Rightarrow> audio_queue \<Rightarrow> rtp_packet \<Rightarrow> u16 \<Rightarrow> (int \<times> audio_queue) option" where
  "RtpaAddPacket dur e q p len =
     (if incompatibleServer q
      then Some (if packetType p = RTP_PAYLOAD_TYPE_AUDIO then RTPQ_RET_HANDLE_NOW else 0, q)
      else do {
        (blk, q) \<leftarrow> getFecBlockForRtpPacket dur e q p len;
        (case blk of
           None \<Rightarrow> Some (0, q)
         | Some i \<Rightarrow>
             let b = blocks q ! i
             in if packetType p = RTP_PAYLOAD_TYPE_AUDIO then do {
                  let pos = unat (sequenceNumber p - block_base b);
                  _ \<leftarrow> LC_ASSERT (pos < RTPA_DATA_SHARDS);
                  r \<leftarrow> store_data p len pos b;
                  (case r of
                     None \<Rightarrow> Some (0, q)
                   | Some b \<Rightarrow>
                       if sequenceNumber p = nextRtpSequenceNumber q then do {
                         q \<leftarrow> leave_block i (q\<lparr>
                                blocks := (blocks q)[i := b\<lparr>nextDataPacketIndex := nextDataPacketIndex b + 1\<rparr>],
                                nextRtpSequenceNumber := sequenceNumber p + 1\<rparr>);
                         Some (RTPQ_RET_HANDLE_NOW, q) }
                       else finish_add dur e i (q\<lparr>blocks := (blocks q)[i := b]\<rparr>)) }
                else if packetType p = RTP_PAYLOAD_TYPE_FEC then do {
                  h \<leftarrow> read_fec_header p;
                  _ \<leftarrow> LC_ASSERT (fecShardIndex h < of_nat RTPA_FEC_SHARDS);
                  r \<leftarrow> store_fec p len (unat (fecShardIndex h)) b;
                  (case r of
                     None \<Rightarrow> Some (0, q)
                   | Some b \<Rightarrow> finish_add dur e i (q\<lparr>blocks := (blocks q)[i := b]\<rparr>)) }
                else None) })"

text \<open>
  What \<open>RtpaGetQueuedPacket\<close> returns: nothing, a placeholder of length 0 for a lost packet, or
  a packet with its length.
\<close>

datatype queued = Nothing | Lost_packet | Queued rtp_packet u16

definition use_up_head :: "audio_queue \<Rightarrow> audio_queue option" where
  "use_up_head q = do {
     b \<leftarrow> nth_opt (blocks q) 0;
     if nextDataPacketIndex b = RTPA_DATA_SHARDS then freeFecBlockHead q
     else do { _ \<leftarrow> validateFecBlockState q; Some q } }"

definition advance_head :: "audio_queue \<Rightarrow> audio_queue" where
  "advance_head q =
     q\<lparr>blocks := (case blocks q of [] \<Rightarrow> [] | b # bs \<Rightarrow> b\<lparr>nextDataPacketIndex := nextDataPacketIndex b + 1\<rparr> # bs),
       nextRtpSequenceNumber := nextRtpSequenceNumber q + 1\<rparr>"

text \<open>Lines 691 to 716.\<close>

definition get_ready_packet :: "bool \<Rightarrow> audio_queue \<Rightarrow> (queued \<times> audio_queue) option" where
  "get_ready_packet alloc q = do {
     ready \<leftarrow> queueHasPacketReady q;
     if \<not> ready \<or> \<not> alloc then Some (Nothing, q)
     else do {
       b \<leftarrow> nth_opt (blocks q) 0;
       p \<leftarrow> nth_opt (dataPackets b) (nextDataPacketIndex b);
       q \<leftarrow> use_up_head (advance_head q);
       Some (Queued p (blockSize b + of_nat sizeof_RTP_PACKET), q) } }"

definition RtpaGetQueuedPacket :: "bool \<Rightarrow> audio_queue \<Rightarrow> (queued \<times> audio_queue) option" where
  "RtpaGetQueuedPacket alloc q = do {
     _ \<leftarrow> validateFecBlockState q;
     (case blocks q of
        b # bs \<Rightarrow>
          if allowDiscontinuity b then do {
            _ \<leftarrow> LC_ASSERT (uint (block_base b) + int (nextDataPacketIndex b) = uint (nextRtpSequenceNumber q));
            m \<leftarrow> nth_opt (marks b) (nextDataPacketIndex b);
            if m \<noteq> 0 then
              if \<not> alloc then Some (Nothing, q)
              else do {
                q \<leftarrow> use_up_head (advance_head q);
                Some (Lost_packet, q) }
            else do {
              ready \<leftarrow> queueHasPacketReady q;
              _ \<leftarrow> LC_ASSERT ready;
              q \<leftarrow> use_up_head q;
              get_ready_packet alloc q } }
          else get_ready_packet alloc q
      | [] \<Rightarrow> get_ready_packet alloc q) }"

section \<open>The audio code\<close>

text \<open>
  The overriding parity rows still make an erasure code: all their entries are non-zero and
  the quotients of the second row by the first are four different powers of the primitive
  element, so every minor is regular.
\<close>

lemma gf_power_of: "gf (power_of (m + n)) = gf (power_of m) * gf (power_of n)"
proof -
  let ?x = "power_of m" and ?y = "power_of n"
  have l: "power_of (log_of ?x) = ?x" "power_of (log_of ?y) = ?y"
    by (simp_all add: power_of_log_of power_of_nz)
  have "gf_mul ?x ?y = power_of (log_of ?x + log_of ?y)"
    by (simp add: gf_mul_log power_of_nz)
  also have "\<dots> = power_of (log_of ?x + n)" unfolding power_of_add l(2) ..
  also have "\<dots> = power_of (n + m)" unfolding add.commute [of _ n] power_of_add l(1) ..
  finally show ?thesis by (simp add: add.commute flip: gf_simps)
qed

lemma xtime_steps:
  "(xtime ^^ 4) x = xtime (xtime (xtime (xtime x)))"
  "(xtime ^^ 6) x = xtime (xtime (xtime (xtime (xtime (xtime x)))))"
  "(xtime ^^ 10) x = xtime (xtime (xtime (xtime (xtime (xtime (xtime (xtime (xtime (xtime x)))))))))"
  "(xtime ^^ 13) x = xtime (xtime (xtime (xtime (xtime (xtime (xtime (xtime (xtime (xtime (xtime (xtime (xtime x))))))))))))"
  "(xtime ^^ 14) x = xtime (xtime (xtime (xtime (xtime (xtime (xtime (xtime (xtime (xtime (xtime (xtime (xtime (xtime x)))))))))))))"
  by (simp_all add: numeral_eq_Suc)

lemma parity_powers:
  "power_of 43 = 0x77" "power_of 6 = 0x40" "power_of 201 = 0x38" "power_of 199 = 0x0e"
  "power_of 118 = 0xc7" "power_of 205 = 0xa7" "power_of 104 = 0x0d" "power_of 250 = 0x6c"
proof -
  show "power_of 43 = 0x77"
    using power_of_add [of 13 30] unfolding power_of_multiples xtime_steps by (simp add: xtime_def)
  show "power_of 6 = 0x40"
    using power_of_add [of 6 0] unfolding power_of_multiples xtime_steps by (simp add: xtime_def)
  show "power_of 201 = 0x38"
    using power_of_add [of 6 195] unfolding power_of_multiples xtime_steps by (simp add: xtime_def)
  show "power_of 199 = 0x0e"
    using power_of_add [of 4 195] unfolding power_of_multiples xtime_steps by (simp add: xtime_def)
  show "power_of 118 = 0xc7"
    using power_of_add [of 13 105] unfolding power_of_multiples xtime_steps by (simp add: xtime_def)
  show "power_of 205 = 0xa7"
    using power_of_add [of 10 195] unfolding power_of_multiples xtime_steps by (simp add: xtime_def)
  show "power_of 104 = 0x0d"
    using power_of_add [of 14 90] unfolding power_of_multiples xtime_steps by (simp add: xtime_def)
  show "power_of 250 = 0x6c"
    using power_of_add [of 10 240] unfolding power_of_multiples xtime_steps by (simp add: xtime_def)
qed

lemma parity_quotients:
  "gf 0xc7 = gf (power_of 75) * gf 0x77" "gf 0xa7 = gf (power_of 199) * gf 0x40"
  "gf 0x6c = gf (power_of 51) * gf 0x0e"
  using gf_power_of [of 75 43] gf_power_of [of 199 6] gf_power_of [of 51 199]
  by (simp_all add: parity_powers)

lemma parity_quotient_2: "gf 0x0d = gf (power_of 158) * gf 0x38"
proof -
  have "power_of (104 + 255) = power_of 104"
    unfolding power_of_add power_of_multiples by (simp add: power_of_def)
  then show ?thesis using gf_power_of [of 158 201] by (simp add: parity_powers)
qed

lemma two_columns:
  fixes p q :: gf256
  assumes "p * x + q * y = 0" "(r * p) * x + (s * q) * y = 0" "p \<noteq> 0" "q \<noteq> 0" "r \<noteq> s"
  shows "x = 0 \<and> y = 0"
proof -
  have "q * y = p * x" using assms(1) gf_add_self2 [of "p * x" "q * y"] by simp
  then have "(r + s) * (p * x) = 0" using assms(2) by (simp add: distrib_right mult.assoc)
  moreover have "r + s \<noteq> 0" using assms(5) gf_add_self2 [of r s] by (metis add.right_neutral)
  ultimately have "x = 0" using assms(3) by simp
  then show ?thesis using assms(1,4) by simp
qed

lemma sum_two:
  fixes f :: "nat \<Rightarrow> gf256"
  assumes "a < b" "b < n" "\<And>j. j < n \<Longrightarrow> j \<noteq> a \<Longrightarrow> j \<noteq> b \<Longrightarrow> f j = 0"
  shows "(\<Sum>j < n. f j) = f a + f b"
proof -
  have "(\<Sum>j < n. f j) = (\<Sum>j \<in> {a, b}. f j)"
    by (rule sum.mono_neutral_right) (use assms in auto)
  then show ?thesis using assms(1) by simp
qed

lemma sum_one:
  fixes f :: "nat \<Rightarrow> gf256"
  assumes "a < n" "\<And>j. j < n \<Longrightarrow> j \<noteq> a \<Longrightarrow> f j = 0"
  shows "(\<Sum>j < n. f j) = f a"
proof -
  have "(\<Sum>j < n. f j) = (\<Sum>j \<in> {a}. f j)"
    by (rule sum.mono_neutral_right) (use assms in auto)
  then show ?thesis by simp
qed

lemma four_of_six:
  assumes "S \<subseteq> {..<6 :: nat}" "card S = 4"
  obtains a b where "a < b" "b < 6" "S = {..<6} - {a, b}"
proof -
  have "card ({..<6} - S) = 2" using assms by (simp add: card_Diff_subset finite_subset)
  then obtain u v where uv: "{..<6} - S = {u, v}" "u \<noteq> v" by (auto simp: card_2_iff)
  then have S: "S = {..<6} - {u, v}" using assms(1) by blast
  have "u < 6" "v < 6" using uv by auto
  with uv(2) consider "u < v" | "v < u" by linarith
  then show ?thesis
    using that [of u v] that [of v u] S \<open>u < 6\<close> \<open>v < 6\<close> by (cases) (auto simp: insert_commute)
qed

text \<open>Identity rows and two parity rows \<open>p j\<close> and \<open>r j * p j\<close> with distinct quotients \<open>r\<close>.\<close>

lemma two_parity_rows_independent:
  assumes M: "\<And>i j. i < 4 \<Longrightarrow> j < 4 \<Longrightarrow> ent M i j = (if i = j then 1 else 0)"
    and M4: "\<And>j. j < 4 \<Longrightarrow> ent M 4 j = p j" and M5: "\<And>j. j < 4 \<Longrightarrow> ent M 5 j = r j * p j"
    and p: "\<And>j. j < 4 \<Longrightarrow> p j \<noteq> 0 \<and> r j \<noteq> 0"
    and r: "\<And>i j. i < j \<Longrightarrow> j < 4 \<Longrightarrow> r i \<noteq> r j"
  shows "independent_rows 4 6 M"
  unfolding independent_rows_def injective_def
proof (intro allI impI)
  fix rows x j
  assume rows: "length rows = 4" "distinct rows" "set rows \<subseteq> {..<6}"
    and zero: "\<forall>i < 4. mv 4 (\<lambda>i j. ent M (rows ! i) j) x i = 0" and j: "j < (4 :: nat)"
  have eqn: "(\<Sum>j < 4. ent M i j * x j) = 0" if "i \<in> set rows" for i
    using zero that rows(1) by (auto simp: mv_def in_set_conv_nth)
  have r4: "(\<Sum>j < 4. p j * x j) = 0" if "4 \<in> set rows" using eqn [OF that] M4 by simp
  have r5: "(\<Sum>j < 4. (r j * p j) * x j) = 0" if "5 \<in> set rows" using eqn [OF that] M5 by simp
  have "card (set rows) = 4" using rows by (simp add: distinct_card)
  from four_of_six [OF rows(3) this] obtain a b where ab: "a < b" "b < 6" "set rows = {..<6} - {a, b}" .
  have unit: "x i = 0" if "i < 4" "i \<noteq> a" "i \<noteq> b" for i
  proof -
    have "(\<Sum>j < 4. ent M i j * x j) = ent M i i * x i" by (rule sum_one) (use that M in auto)
    then show ?thesis using eqn [of i] M [of i i] that ab(3) by simp
  qed
  consider "b < 4" | "a < 4" "b = 4" | "a < 4" "b = 5" | "4 \<le> a" using ab by linarith
  then have "x a = 0 \<and> x b = 0 \<or> (4 \<le> b \<and> x a = 0) \<or> 4 \<le> a"
  proof cases
    case 1
    then have "4 \<in> set rows" "5 \<in> set rows" "a < 4" using ab by auto
    moreover have "(\<Sum>j < 4. p j * x j) = p a * x a + p b * x b"
      by (rule sum_two) (use ab(1) 1 unit in auto)
    moreover have "(\<Sum>j < 4. (r j * p j) * x j) = (r a * p a) * x a + (r b * p b) * x b"
      by (rule sum_two) (use ab(1) 1 unit in auto)
    ultimately have "x a = 0 \<and> x b = 0"
      using two_columns [of "p a" "x a" "p b" "x b" "r a" "r b"] r4 r5 p [of a] p [of b] r [OF ab(1) 1] 1 by simp
    then show ?thesis ..
  next
    case 2
    have "(\<Sum>j < 4. (r j * p j) * x j) = (r a * p a) * x a" by (rule sum_one) (use 2 unit in auto)
    then show ?thesis using r5 p [of a] 2 ab(3) by simp
  next
    case 3
    have "(\<Sum>j < 4. p j * x j) = p a * x a" by (rule sum_one) (use 3 unit in auto)
    then show ?thesis using r4 p [of a] 3 ab(3) by simp
  qed simp
  then show "x j = 0" using unit [of j] j ab(1) by (cases "j = a"; cases "j = b") auto
qed

lemma less_4: "j < (4 :: nat) \<longleftrightarrow> j = 0 \<or> j = 1 \<or> j = 2 \<or> j = 3"
  by linarith

lemma audio_code_independent:
  assumes "\<And>i j. i < 4 \<Longrightarrow> j < 4 \<Longrightarrow> ent M i j = (if i = j then 1 else 0)"
    and "M ! 4 = parity_override ! 0" "M ! 5 = parity_override ! 1"
  shows "independent_rows 4 6 M"
proof (rule two_parity_rows_independent [OF assms(1)])
  let ?l = "\<lambda>j. [75, 199, 158, 51 :: nat] ! j"
  fix j :: nat assume j: "j < 4"
  show "ent M 4 j = gf (parity_override ! 0 ! j)" by (simp add: ent_def assms)
  show "ent M 5 j = gf (power_of (?l j)) * gf (parity_override ! 0 ! j)"
    using j unfolding less_4 ent_def assms parity_override_def
    by (auto simp: parity_quotients parity_quotient_2)
  show "gf (parity_override ! 0 ! j) \<noteq> 0 \<and> gf (power_of (?l j)) \<noteq> 0"
    using j unfolding less_4 parity_override_def by (auto simp: gf_simps power_of_nz)
  fix i assume "i < j"
  then have "?l i \<noteq> ?l j" using j nth_eq_iff_index_eq [of "[75, 199, 158, 51 :: nat]" i j] by simp
  moreover have "?l i < 255" "?l j < 255" using \<open>i < j\<close> j less_4 [of i] less_4 [of j] by auto
  ultimately show "gf (power_of (?l i)) \<noteq> gf (power_of (?l j))" by (simp add: gf_simps power_of_inject)
qed

definition audio_rs :: "reed_solomon \<Rightarrow> bool" where
  "audio_rs rs \<longleftrightarrow> rs_ok rs \<and> data_shards rs = 4 \<and> parity_shards rs = 2 \<and> shards rs = 6
     \<and> drop 4 (rs_m rs) = parity_override"

lemma RtpaInitializeQueue_ready:
  "\<exists>q. RtpaInitializeQueue v (\<lambda>_. True) = Some q \<and> audio_rs (aq_rs q) \<and> blocks q = []
    \<and> freeBlocks q = [] \<and> freeBlockCount q = 0 \<and> nextRtpSequenceNumber q = 0
    \<and> oldestRtpBaseSequenceNumber q = 0 \<and> synchronizing q
    \<and> (incompatibleServer q \<longleftrightarrow> \<not> APP_VERSION_AT_LEAST v 7 1 415)"
proof -
  obtain rs where rs: "reed_solomon_new (\<lambda>_. True) 4 2 = Some (Some rs)" "rs_ok rs"
    "data_shards rs = 4" "parity_shards rs = 2" using reed_solomon_new_code [of 4 2] by auto
  let ?rs = "rs\<lparr>rs_m := take 4 (rs_m rs) @ parity_override, parity := parity_override\<rparr>"
  have l: "shards rs = 6" "length (rs_m rs) = 6" "\<And>i. i < 6 \<Longrightarrow> length (rs_m rs ! i) = 4"
    "\<And>i j. i < 4 \<Longrightarrow> j < 4 \<Longrightarrow> ent (rs_m rs) i j = (if i = j then 1 else 0)"
    using rs(2-4) unfolding rs_ok_def by auto
  have ent: "ent (rs_m ?rs) i j = (if i = j then 1 else 0)" if "i < 4" "j < 4" for i j
    using l that by (simp add: ent_def nth_append)
  have "independent_rows 4 6 (rs_m ?rs)"
    by (rule audio_code_independent [OF ent]) (use l in \<open>simp_all add: nth_append parity_override_def\<close>)
  moreover have "length (rs_m ?rs ! i) = 4" if "i < 6" for i
  proof (cases "i < 4")
    case False
    then have "i = 4 \<or> i = 5" using that by linarith
    then show ?thesis using l by (auto simp: nth_append parity_override_def)
  qed (use l in \<open>simp add: nth_append\<close>)
  ultimately have "audio_rs ?rs"
    using ent l rs by (simp add: audio_rs_def rs_ok_def parity_override_def)
  then show ?thesis
    using rs(1) by (simp add: RtpaInitializeQueue_def RTPA_DATA_SHARDS_def RTPA_FEC_SHARDS_def)
qed

lemma nth_update: "xs[k := v] ! i = (if i = k \<and> k < length xs then v else xs ! i)"
  by (cases "k < length xs") (auto simp: nth_list_update not_less list_update_beyond)

lemma map_add_0: "map ((+) (0 :: nat)) xs = xs"
  by (induction xs) simp_all

lemma code_some_shards_shape:
  assumes "\<forall>i < length store. length (store ! i) = sz" "length inputs = ds" "length outputs = count"
    "set inputs \<union> set outputs \<subseteq> {..<length store}"
  shows "length (code_some_shards rows inputs outputs ds count sz store) = length store
    \<and> (\<forall>i < length store. length (code_some_shards rows inputs outputs ds count sz store ! i) = sz)
    \<and> (\<forall>i. i \<notin> set outputs \<longrightarrow> code_some_shards rows inputs outputs ds count sz store ! i = store ! i)"
  unfolding code_some_shards_def
proof (rule foldl_invariant)
  fix st cr
  assume st: "length st = length store \<and> (\<forall>i < length store. length (st ! i) = sz)
      \<and> (\<forall>i. i \<notin> set outputs \<longrightarrow> st ! i = store ! i)"
    and cr: "cr \<in> set (List.product [0..<ds] [0..<count])"
  obtain c r where cr': "cr = (c, r)" "c < ds" "r < count" using cr by (metis atLeastLessThan_iff mem_Sigma_iff prod.exhaust set_product set_upt)
  then have ix: "inputs ! c < length store" "outputs ! r < length store" "outputs ! r \<in> set outputs"
    using assms(2-4) by (auto simp: subset_iff)
  have len: "length (mul (st ! (outputs ! r)) (st ! (inputs ! c)) x sz) = sz"
    "length (addmul (st ! (outputs ! r)) (st ! (inputs ! c)) x sz) = sz" for x
    using st ix by (simp_all add: mul_def addmul_def)
  have oth: "i \<noteq> outputs ! r" if "i \<notin> set outputs" for i using that ix(3) by auto
  show "length ((\<lambda>(c, iRow). let d = st ! (outputs ! iRow); s = st ! (inputs ! c); x = rows ! iRow ! c
         in st[outputs ! iRow := (if c = 0 then mul d s x sz else addmul d s x sz)]) cr) = length store
    \<and> (\<forall>i < length store. length ((\<lambda>(c, iRow). let d = st ! (outputs ! iRow); s = st ! (inputs ! c); x = rows ! iRow ! c
         in st[outputs ! iRow := (if c = 0 then mul d s x sz else addmul d s x sz)]) cr ! i) = sz)
    \<and> (\<forall>i. i \<notin> set outputs \<longrightarrow> (\<lambda>(c, iRow). let d = st ! (outputs ! iRow); s = st ! (inputs ! c); x = rows ! iRow ! c
         in st[outputs ! iRow := (if c = 0 then mul d s x sz else addmul d s x sz)]) cr ! i = store ! i)"
    using st oth len by (auto simp: cr' Let_def nth_update)
qed (use assms in auto)

text \<open>
  Whatever the shards hold, reconstruction with enough shards succeeds, keeps all sizes and
  rewrites only marked data shards.
\<close>

lemma reconstruct_shape:
  assumes rs: "rs_ok rs" and n: "length store = shards rs" "\<forall>i < shards rs. length (store ! i) = sz"
    and enough: "length (lost_data rs ms) \<le> length (good_parity rs ms)"
  shows "\<exists>out. reed_solomon_reconstruct rs store ms (shards rs) sz = (0, out) \<and> length out = shards rs
    \<and> (\<forall>i < shards rs. length (out ! i) = sz) \<and> (\<forall>i. ms ! i = 0 \<or> data_shards rs \<le> i \<longrightarrow> out ! i = store ! i)"
proof -
  let ?ds = "data_shards rs"
  let ?lost = "lost_data rs ms" and ?par = "good_parity rs ms"
  let ?fec = "take (length ?lost) ?par"
  have sh: "shards rs = ?ds + parity_shards rs" "0 < shards rs" using rs by (auto simp: rs_ok_def)
  note one = reconstruct_one_group [OF sh(2), of store ms sz]
  have group: "reconstruct_group rs ms sz 0 0 ?ds ?ds (0, store)
      = (if 0 < length ?lost then (0, snd (reed_solomon_decode rs 0 sz (map (\<lambda>i. ?ds + i) ?fec) ?fec ?lost store))
         else (0, store))"
    using enough by (simp add: reconstruct_group_def Let_def lost_data_def good_parity_def)
  show ?thesis
  proof (cases "0 < length ?lost")
    case False
    then show ?thesis using one group n by simp
  next
    case True
    have srt: "sorted_wrt (<) ?lost" by (simp add: lost_data_def sorted_wrt_filter sorted_wrt_upt)
    then have "sorted ?lost" by (simp add: strict_sorted_imp_sorted)
    then have sorted: "sort_erased 0 ?lost = ?lost" by (rule sort_erased_sorted)
    have sub: "set ?lost \<subseteq> set [0..<?ds]" "set ?fec \<subseteq> {..<parity_shards rs}"
      using set_take_subset [of "length ?lost" ?par] by (auto simp: lost_data_def good_parity_def)
    have rows: "data_rows [0..<?ds] ?lost = filter (\<lambda>i. i \<notin> set ?lost) [0..<?ds]" (is "?good = _")
      by (rule data_rows_filter [OF _ srt sub(1)]) simp
    have "length ?good + length ?lost = ?ds"
    proof -
      have "?lost = filter (\<lambda>i. i \<in> set ?lost) [0..<?ds]"
        unfolding lost_data_def by (rule filter_cong) auto
      then have "length ?lost = length (filter (\<lambda>i. i \<in> set ?lost) [0..<?ds])" by (rule arg_cong)
      then show ?thesis using sum_length_filter_compl [of "\<lambda>i. i \<in> set ?lost" "[0..<?ds]"] rows by simp
    qed
    then have all: "length ?good + length (take (?ds - length ?good) ?fec) = ?ds" using enough by simp
    let ?in = "?good @ take (?ds - length ?good) (map (\<lambda>i. ?ds + i) ?fec)"
    have good: "set ?good \<subseteq> {..<?ds}" unfolding rows by auto
    have par: "set (take (?ds - length ?good) (map (\<lambda>i. ?ds + i) ?fec)) \<subseteq> {..<shards rs}"
    proof
      fix x assume "x \<in> set (take (?ds - length ?good) (map (\<lambda>i. ?ds + i) ?fec))"
      from in_set_takeD [OF this] obtain f where "f \<in> set ?fec" "x = ?ds + f" by auto
      then show "x \<in> {..<shards rs}" using subsetD [OF sub(2)] sh by fastforce
    qed
    define M where "M = foldl (\<lambda>M i. M[i := M ! (?lost ! i)])
      (snd (invert_mat (map (\<lambda>i. rs_m rs ! i) ?good @ map (\<lambda>f. rs_m rs ! (?ds + f)) (take (?ds - length ?good) ?fec)) ?ds))
      [0..<length ?lost]"
    have dec: "snd (reed_solomon_decode rs 0 sz (map (\<lambda>i. ?ds + i) ?fec) ?fec ?lost store)
        = code_some_shards M ?in ?lost ?ds (length ?lost) sz store"
      using all by (simp add: reed_solomon_decode_def Let_def sorted M_def map_add_0)
    have "set ?in \<union> set ?lost \<subseteq> {..<length store}" using good par sub(1) n(1) sh by fastforce
    from code_some_shards_shape [OF _ _ refl this, of sz ?ds M] all n
    have shape: "length (code_some_shards M ?in ?lost ?ds (length ?lost) sz store) = shards rs"
      "\<forall>i < shards rs. length (code_some_shards M ?in ?lost ?ds (length ?lost) sz store ! i) = sz"
      "\<forall>i. i \<notin> set ?lost \<longrightarrow> code_some_shards M ?in ?lost ?ds (length ?lost) sz store ! i = store ! i" by simp_all
    have "i \<notin> set ?lost" if "ms ! i = 0 \<or> ?ds \<le> i" for i using that by (auto simp: lost_data_def)
    then show ?thesis using shape True one group dec by auto
  qed
qed

section \<open>Blocks\<close>

text \<open>The shape of a block; until it is reassembled its counters count its shards.\<close>

definition block_ok :: "fec_block \<Rightarrow> bool" where
  "block_ok b \<longleftrightarrow> length (dataPackets b) = 4 \<and> (\<forall>i < 4. length (payload (dataPackets b ! i)) = unat (blockSize b))
     \<and> length (fecPackets b) = 2 \<and> (\<forall>k < 2. length (fecPackets b ! k) = unat (blockSize b))
     \<and> length (marks b) = 6 \<and> unat (block_base b) mod 4 = 0
     \<and> (\<not> fullyReassembled b \<longrightarrow>
          dataShardsReceived b = length (filter (\<lambda>i. marks b ! i = 0) [0..<4])
          \<and> fecShardsReceived b = length (filter (\<lambda>k. marks b ! (4 + k) = 0) [0..<2]))"

lemmas shard_consts = RTPA_DATA_SHARDS_def RTPA_FEC_SHARDS_def RTPA_TOTAL_SHARDS_def

lemma new_block_ok: "unat (baseSequenceNumber h) mod 4 = 0 \<Longrightarrow> block_ok (new_block e h sz)"
  by (auto simp: block_ok_def new_block_def shard_consts nth_append)

lemma mark_filter:
  assumes "j < n" "n + k \<le> length ms" "ms ! (k + j) \<noteq> 0"
  shows "length (filter (\<lambda>i. ms[k + j := 0] ! (k + i) = 0) [0..<n])
    = Suc (length (filter (\<lambda>i. ms ! (k + i) = 0) [0..<n]))"
proof -
  have "length (filter P [0..<n]) = card {i. i < n \<and> P i}" for P
    by (subst distinct_card [symmetric]) (auto intro: arg_cong [where f = card])
  moreover have "{i. i < n \<and> ms[k + j := 0] ! (k + i) = 0} = insert j {i. i < n \<and> ms ! (k + i) = 0}"
    using assms(1,2) by (auto simp: nth_list_update split: if_splits)
  moreover have "j \<notin> {i. i < n \<and> ms ! (k + i) = 0}" using assms(3) by simp
  ultimately show ?thesis by simp
qed

end
