(* ===== verification/AudioDelivery.thy ===== *)
theory AudioDelivery
  imports RtpAudioQueue
begin

text \<open>
  Correctness of the audio queue: the invariant of its blocks and sequence numbers, its
  preservation by \<open>RtpaAddPacket\<close> and \<open>RtpaGetQueuedPacket\<close> with every assertion discharged,
  the order of the packets given out, and their contents.  The locale \<open>block_content\<close> is the
  interface between the reordering and the contents: any property of blocks that filling,
  completing and reading them keeps is carried along by the queue.
\<close>

section \<open>Distances of base sequence numbers\<close>

lemma dist16_mod4:
  assumes "unat o' mod 4 = 0" "unat x mod 4 = 0"
  shows "dist16 o' x mod 4 = 0"
proof -
  have "4 dvd unat o'" "4 dvd unat x" "(4 :: nat) dvd 65536" using assms by (auto simp: mod_0_imp_dvd)
  then have "4 dvd dist16 o' x" by (auto simp: dist16_unat intro: dvd_diff_nat dvd_add)
  then show ?thesis by simp
qed

lemma unat_plus4_mod:
  assumes "unat (x :: u16) mod 4 = 0"
  shows "unat (x + 4) mod 4 = 0"
proof -
  have "unat (x + 4) = (unat x + 4) mod 65536" by (simp add: unat_word_ariths)
  then have "unat (x + 4) mod 4 = (unat x + 4) mod 4" by (simp only:) (rule mod_mod_cancel, simp)
  then show ?thesis using assms by simp
qed

lemma unat_base_index:
  assumes "unat (o' :: u16) mod 4 = 0" "dist16 o' n < 4"
  shows "unat n = unat o' + dist16 o' n"
proof -
  have "unat o' \<le> 65532" using assms(1) unat16_less [of o'] by presburger
  then have "unat o' + dist16 o' n < 65536" using assms(2) by simp
  then have "unat (o' + of_nat (dist16 o' n)) = unat o' + dist16 o' n"
    by (simp add: unat_word_ariths unat_of_nat)
  then show ?thesis by (simp add: dist16_def)
qed

lemma uint_index: "uint (x :: u16) + int i = uint (y :: u16) \<longleftrightarrow> unat x + i = unat y"
proof -
  have "uint x + int i = int (unat x + i)" by simp
  moreover have "uint y = int (unat y)" by simp
  ultimately show ?thesis by (simp only: of_nat_eq_iff)
qed

section \<open>The window of blocks\<close>

text \<open>
  The blocks lie in order at or after the oldest base; the packet to be given out next is in
  the block at the oldest base, which knows how many of its packets were given out.
\<close>

definition window :: "u16 \<Rightarrow> u16 \<Rightarrow> fec_block list \<Rightarrow> bool" where
  "window o' n bs \<longleftrightarrow> unat o' mod 4 = 0 \<and> dist16 o' n < 4
     \<and> sorted_wrt (\<lambda>b c. dist16 o' (block_base b) < dist16 o' (block_base c)) bs
     \<and> (\<forall>b \<in> set bs. block_ok b \<and> dist16 o' (block_base b) < 32768
          \<and> nextDataPacketIndex b = (if block_base b = o' then dist16 o' n else 0)
          \<and> (allowDiscontinuity b \<longrightarrow> block_base b = o'))
     \<and> (n \<noteq> o' \<longrightarrow> (\<exists>b \<in> set bs. block_base b = o'))"

lemma window_block:
  assumes "window o' n bs" "b \<in> set bs"
  shows "block_ok b" "dist16 o' (block_base b) < 32768" "dist16 o' (block_base b) mod 4 = 0"
    "nextDataPacketIndex b = (if block_base b = o' then dist16 o' n else 0)"
    "nextDataPacketIndex b < 4" "allowDiscontinuity b \<Longrightarrow> block_base b = o'"
proof -
  show b: "block_ok b" "dist16 o' (block_base b) < 32768"
    "nextDataPacketIndex b = (if block_base b = o' then dist16 o' n else 0)"
    "allowDiscontinuity b \<Longrightarrow> block_base b = o'"
    using assms unfolding window_def by blast+
  have o': "unat o' mod 4 = 0" "dist16 o' n < 4" using assms(1) unfolding window_def by blast+
  show "dist16 o' (block_base b) mod 4 = 0" using b(1) o'(1) by (intro dist16_mod4) (simp_all add: block_ok_def)
  show "nextDataPacketIndex b < 4" using b(3) o'(2) by simp
qed

text \<open>A base other than the oldest is at least a block away; only the head can be at the oldest.\<close>

lemma window_far: "window o' n bs \<Longrightarrow> b \<in> set bs \<Longrightarrow> block_base b \<noteq> o' \<Longrightarrow> 4 \<le> dist16 o' (block_base b)"
  using window_block(3) [of o' n bs b] dist16_eq_0 [of o' "block_base b"] by presburger

lemma window_tail:
  assumes "window o' n (b # bs)" "c \<in> set bs"
  shows "block_base c \<noteq> o'" "dist16 o' (block_base b) + 4 \<le> dist16 o' (block_base c)"
proof -
  have less: "dist16 o' (block_base b) < dist16 o' (block_base c)"
    using assms by (simp add: window_def)
  moreover have "dist16 o' (block_base b) mod 4 = 0" "dist16 o' (block_base c) mod 4 = 0"
    using assms by (auto intro: window_block(3))
  ultimately show "dist16 o' (block_base b) + 4 \<le> dist16 o' (block_base c)" by presburger
  show "block_base c \<noteq> o'" using less by auto
qed

lemma window_head:
  assumes "window o' n (b # bs)" "block_base b \<noteq> o'"
  shows "n = o'" "c \<in> set (b # bs) \<Longrightarrow> block_base c \<noteq> o'"
proof -
  have "block_base c \<noteq> o'" if "c \<in> set (b # bs)" for c
    using that assms(2) window_tail(1) [OF assms(1)] by auto
  then show "c \<in> set (b # bs) \<Longrightarrow> block_base c \<noteq> o'" "n = o'"
    using assms(1) unfolding window_def by blast+
qed

lemma validate_order_sorted:
  assumes "\<forall>b \<in> set bs. dist16 o' (block_base b) < 32768" "dist16 o' s < 32768"
    "sorted_wrt (\<lambda>x y. dist16 o' x < dist16 o' y) (s # map block_base bs)"
  shows "validate_order s bs = Some ()"
  using assms
proof (induction bs arbitrary: s)
  case (Cons b bs)
  then have "isBefore16 s (block_base b)" by (simp add: s16.before_in_window [of o'])
  then show ?case using Cons by simp
qed simp

lemma window_validate:
  assumes "window (oldestRtpBaseSequenceNumber q) (nextRtpSequenceNumber q) (blocks q)"
  shows "validateFecBlockState q = Some ()"
proof -
  let ?o = "oldestRtpBaseSequenceNumber q" and ?n = "nextRtpSequenceNumber q"
  have n: "dist16 ?o ?n < 4" using assms by (simp add: window_def)
  then have 1: "\<not> isBefore16 ?n ?o" by (simp add: s16.not_before_origin)
  show ?thesis
  proof (cases "blocks q")
    case Nil
    then show ?thesis using 1 by (simp add: validateFecBlockState_def)
  next
    case (Cons b bs)
    note w = assms [unfolded Cons]
    have b: "dist16 ?o (block_base b) < 32768" "dist16 ?o (block_base b) mod 4 = 0"
      using window_block [OF w, of b] by simp_all
    have b4: "dist16 ?o (block_base b + 4) = dist16 ?o (block_base b) + 4"
      using b by (intro dist16_plus4) simp
    have "dist16 ?n (block_base b + 4) = dist16 ?o (block_base b + 4) - dist16 ?o ?n"
      by (rule s16.dist_advance) (use b4 n in simp)
    moreover have "dist16 ?o (block_base b) + 4 \<le> 32768" using b by presburger
    ultimately have 2: "isBefore16 ?n (block_base b + 4)" using b4 n by (simp add: isBefore16_ahead)
    have 3: "\<not> isBefore16 (block_base b) ?o" using b by (simp add: s16.not_before_origin)
    have "validate_order (block_base b) bs = Some ()"
      using w b by (intro validate_order_sorted [of bs ?o]) (auto simp: window_def sorted_wrt_map)
    then show ?thesis using 1 2 3 Cons by (simp add: validateFecBlockState_def shard_consts)
  qed
qed

text \<open>A block replaced by one that differs only in its contents.\<close>

definition same_place :: "fec_block \<Rightarrow> fec_block \<Rightarrow> bool" where
  "same_place b c \<longleftrightarrow> block_base b = block_base c \<and> nextDataPacketIndex b = nextDataPacketIndex c
     \<and> allowDiscontinuity b = allowDiscontinuity c"

lemma sorted_wrt_update:
  assumes "sorted_wrt R xs" "i < length xs" "\<And>y. R (xs ! i) y \<Longrightarrow> R x y" "\<And>y. R y (xs ! i) \<Longrightarrow> R y x"
  shows "sorted_wrt R (xs[i := x])"
  using assms by (auto simp: sorted_wrt_iff_nth_less nth_list_update)

lemma window_update:
  assumes "window o' n bs" "i < length bs" "same_place b (bs ! i)" "block_ok b"
  shows "window o' n (bs[i := b])"
proof -
  have b: "block_base b = block_base (bs ! i)" "nextDataPacketIndex b = nextDataPacketIndex (bs ! i)"
    "allowDiscontinuity b = allowDiscontinuity (bs ! i)" using assms(3) by (simp_all add: same_place_def)
  have i: "bs ! i \<in> set bs" using assms(2) by simp
  note w = window_block [OF assms(1)]
  have mem: "c \<in> set bs \<or> c = b" if "c \<in> set (bs[i := b])" for c
    using that set_update_subset_insert [of bs i b] by auto
  have "\<exists>c \<in> set (bs[i := b]). block_base c = o'" if n: "n \<noteq> o'"
  proof -
    obtain j where j: "j < length bs" "block_base (bs ! j) = o'"
      using assms(1) n unfolding window_def by (metis in_set_conv_nth)
    then have "block_base (bs[i := b] ! j) = o'" using b(1) by (cases "i = j") simp_all
    moreover have "bs[i := b] ! j \<in> set (bs[i := b])" using j(1) by (intro nth_mem) simp
    ultimately show ?thesis by blast
  qed
  moreover have "sorted_wrt (\<lambda>b c. dist16 o' (block_base b) < dist16 o' (block_base c)) (bs[i := b])"
    by (rule sorted_wrt_update) (use assms(1,2) b(1) in \<open>auto simp: window_def\<close>)
  moreover have "block_ok c \<and> dist16 o' (block_base c) < 32768
        \<and> nextDataPacketIndex c = (if block_base c = o' then dist16 o' n else 0)
        \<and> (allowDiscontinuity c \<longrightarrow> block_base c = o')" if "c \<in> set (bs[i := b])" for c
    using mem [OF that]
  proof
    assume "c \<in> set bs"
    then show ?thesis using w by simp
  next
    assume "c = b"
    then show ?thesis using w [OF i] b assms(4) by simp
  qed
  moreover have "unat o' mod 4 = 0" "dist16 o' n < 4" using assms(1) unfolding window_def by blast+
  ultimately show ?thesis unfolding window_def by simp
qed

text \<open>The search finds the block of a base or the place where a new one keeps the order.\<close>

lemma find_block_spec:
  assumes "\<forall>b \<in> set bs. dist16 o' (block_base b) < 32768" "dist16 o' s < 32768"
    "sorted_wrt (\<lambda>b c. dist16 o' (block_base b) < dist16 o' (block_base c)) bs"
  shows "(case find_block s k bs of
      Existing i \<Rightarrow> k \<le> i \<and> i - k < length bs \<and> block_base (bs ! (i - k)) = s
    | Before i \<Rightarrow> k \<le> i \<and> i - k \<le> length bs \<and> (\<forall>b \<in> set (take (i - k) bs). dist16 o' (block_base b) < dist16 o' s)
        \<and> (\<forall>b \<in> set (drop (i - k) bs). dist16 o' s < dist16 o' (block_base b)))"
  using assms
proof (induction bs arbitrary: k)
  case (Cons b bs)
  have before: "isBefore16 s (block_base b) \<longleftrightarrow> dist16 o' s < dist16 o' (block_base b)"
    using Cons.prems by (simp add: s16.before_in_window [of o'])
  consider "block_base b = s" | "block_base b \<noteq> s" "isBefore16 s (block_base b)"
    | "block_base b \<noteq> s" "\<not> isBefore16 s (block_base b)" by blast
  then show ?case
  proof cases
    case 2
    then show ?thesis using Cons.prems before by fastforce
  next
    case 3
    then have "dist16 o' (block_base b) \<noteq> dist16 o' s" by (simp add: dist16_inject)
    then have lt: "dist16 o' (block_base b) < dist16 o' s" using 3 before by linarith
    have "(case find_block s (Suc k) bs of
      Existing i \<Rightarrow> Suc k \<le> i \<and> i - Suc k < length bs \<and> block_base (bs ! (i - Suc k)) = s
    | Before i \<Rightarrow> Suc k \<le> i \<and> i - Suc k \<le> length bs
        \<and> (\<forall>b \<in> set (take (i - Suc k) bs). dist16 o' (block_base b) < dist16 o' s)
        \<and> (\<forall>b \<in> set (drop (i - Suc k) bs). dist16 o' s < dist16 o' (block_base b)))"
      by (rule Cons.IH) (use Cons.prems in auto)
    then show ?thesis using 3 lt
      by (cases "find_block s (Suc k) bs") (auto simp: Suc_diff_Suc [symmetric] nth_Cons' Suc_le_eq take_Cons' drop_Cons')
  qed simp
qed simp

lemma window_insert:
  assumes "window o' n bs" "block_ok b" "dist16 o' (block_base b) < 32768"
    "nextDataPacketIndex b = 0" "\<not> allowDiscontinuity b"
    and "\<forall>c \<in> set (take i bs). dist16 o' (block_base c) < dist16 o' (block_base b)"
    and "\<forall>c \<in> set (drop i bs). dist16 o' (block_base b) < dist16 o' (block_base c)"
  shows "window o' n (insert_block i b bs)"
proof -
  have split: "bs = take i bs @ drop i bs" by simp
  have srt: "sorted_wrt (\<lambda>b c. dist16 o' (block_base b) < dist16 o' (block_base c)) (take i bs @ drop i bs)"
    using assms(1) unfolding window_def split [symmetric] by blast
  have "sorted_wrt (\<lambda>b c. dist16 o' (block_base b) < dist16 o' (block_base c)) (insert_block i b bs)"
    using srt assms(6,7) unfolding insert_block_def sorted_wrt_append
    by auto
  moreover have set: "set (insert_block i b bs) = insert b (set bs)"
  proof -
    have "set bs = set (take i bs) \<union> set (drop i bs)" using arg_cong [OF split, of set] by (simp only: set_append)
    then show ?thesis by (simp add: insert_block_def)
  qed
  moreover have "dist16 o' n = 0" if "block_base b = o'"
  proof (rule ccontr)
    assume "dist16 o' n \<noteq> 0"
    then have "n \<noteq> o'" by auto
    then obtain c where c: "c \<in> set bs" "block_base c = o'" using assms(1) unfolding window_def by blast
    then have "c \<in> set (take i bs) \<or> c \<in> set (drop i bs)" using split by (metis Un_iff set_append)
    then show False using assms(6,7) that c(2) by auto
  qed
  ultimately show ?thesis using assms(1-5) unfolding window_def set by auto
qed

text \<open>The three ways the window moves: over a gap, by one packet, and past its first block.\<close>

lemma window_jump:
  assumes w: "window o' n (b # bs)" and b: "block_base b \<noteq> o'"
  shows "window (block_base b) (block_base b) (b # bs)"
proof -
  let ?p = "block_base b"
  have dist: "dist16 ?p (block_base c) = dist16 o' (block_base c) - dist16 o' ?p" if "c \<in> set (b # bs)" for c
    using window_tail(2) [OF w, of c] that by (intro s16.dist_advance) (cases "c = b", auto)
  have mem: "block_ok c \<and> dist16 ?p (block_base c) < 32768
        \<and> nextDataPacketIndex c = (if block_base c = ?p then dist16 ?p ?p else 0)
        \<and> (allowDiscontinuity c \<longrightarrow> block_base c = ?p)" if c: "c \<in> set (b # bs)" for c
    using window_block [OF w c] window_head(2) [OF w b c] dist [OF c] by auto
  have le: "dist16 o' ?p \<le> dist16 o' (block_base c)" if "c \<in> set bs" for c
    using window_tail(2) [OF w that] by simp
  have srt: "sorted_wrt (\<lambda>x y. dist16 o' (block_base x) < dist16 o' (block_base y)) (b # bs)"
    using w unfolding window_def by blast
  have "sorted_wrt (\<lambda>x y. dist16 ?p (block_base x) < dist16 ?p (block_base y)) (b # bs)"
  proof (rule sorted_wrt_mono_rel [OF _ srt])
    fix x y
    assume xy: "x \<in> set (b # bs)" "y \<in> set (b # bs)" "dist16 o' (block_base x) < dist16 o' (block_base y)"
    have "dist16 o' ?p \<le> dist16 o' (block_base x)" using le [of x] xy(1) by (cases "x = b") auto
    then show "dist16 ?p (block_base x) < dist16 ?p (block_base y)"
      unfolding dist [OF xy(1)] dist [OF xy(2)] using xy(3) by linarith
  qed
  moreover have "unat ?p mod 4 = 0" using window_block(1) [OF w, of b] by (simp add: block_ok_def)
  ultimately show ?thesis using mem unfolding window_def by simp
qed

lemma window_advance:
  assumes w: "window o' n (b # bs)" and b: "block_base b = o'" and n: "dist16 o' n < 3"
    and b': "block_base b' = o'" "nextDataPacketIndex b' = Suc (nextDataPacketIndex b)" "block_ok b'"
  shows "window o' (n + 1) (b' # bs)"
proof -
  have d: "dist16 o' (n + 1) = Suc (dist16 o' n)" using dist16_plus1 [of o' n] n by simp
  have mem: "block_ok c \<and> dist16 o' (block_base c) < 32768
        \<and> nextDataPacketIndex c = (if block_base c = o' then dist16 o' (n + 1) else 0)
        \<and> (allowDiscontinuity c \<longrightarrow> block_base c = o')" if c: "c \<in> set bs" for c
    using window_block [OF w, of c] window_tail(1) [OF w c] c by auto
  have "nextDataPacketIndex b' = dist16 o' (n + 1)" using window_block(4) [OF w, of b] b b'(2) d by simp
  then show ?thesis using w mem b b' n d unfolding window_def by simp
qed

lemma window_leave:
  assumes w: "window o' n (b # bs)" and b: "block_base b = o'"
  shows "window (o' + 4) (o' + 4) bs"
proof -
  have o4: "dist16 o' (o' + 4) = 4" using dist16_plus4 [of o' o'] by simp
  have dist: "dist16 (o' + 4) (block_base c) = dist16 o' (block_base c) - 4" if "c \<in> set bs" for c
    using s16.dist_advance [of o' "o' + 4" "block_base c"] window_tail(2) [OF w that] b o4 by simp
  have mem: "block_ok c \<and> dist16 (o' + 4) (block_base c) < 32768
        \<and> nextDataPacketIndex c = (if block_base c = o' + 4 then dist16 (o' + 4) (o' + 4) else 0)
        \<and> (allowDiscontinuity c \<longrightarrow> block_base c = o' + 4)" if c: "c \<in> set bs" for c
    using window_block [OF w, of c] window_tail(1) [OF w c] dist [OF c] c by auto
  have srt: "sorted_wrt (\<lambda>x y. dist16 o' (block_base x) < dist16 o' (block_base y)) bs"
    using w unfolding window_def by simp
  have "sorted_wrt (\<lambda>x y. dist16 (o' + 4) (block_base x) < dist16 (o' + 4) (block_base y)) bs"
  proof (rule sorted_wrt_mono_rel [OF _ srt])
    fix x y
    assume xy: "x \<in> set bs" "y \<in> set bs" "dist16 o' (block_base x) < dist16 o' (block_base y)"
    then show "dist16 (o' + 4) (block_base x) < dist16 (o' + 4) (block_base y)"
      unfolding dist [OF xy(1)] dist [OF xy(2)] using window_tail(2) [OF w xy(1)] by linarith
  qed
  moreover have "unat (o' + 4) mod 4 = 0" using w by (intro unat_plus4_mod) (simp add: window_def)
  ultimately show ?thesis using mem unfolding window_def by simp
qed

section \<open>The queue\<close>

definition anchored :: "audio_queue \<Rightarrow> bool" where
  "anchored q \<longleftrightarrow> (\<exists>b \<in> set (blocks q). block_base b = oldestRtpBaseSequenceNumber q)"

text \<open>The state before the first packet of the stream has fixed where to start.\<close>

definition fresh :: "audio_queue \<Rightarrow> bool" where
  "fresh q \<longleftrightarrow> synchronizing q \<and> oldestRtpBaseSequenceNumber q = 0"

definition queue_ok :: "audio_queue \<Rightarrow> bool" where
  "queue_ok q \<longleftrightarrow> audio_rs (aq_rs q)
     \<and> window (oldestRtpBaseSequenceNumber q) (nextRtpSequenceNumber q) (blocks q)
     \<and> freeBlockCount q = of_nat (length (freeBlocks q)) \<and> length (freeBlocks q) \<le> 4
     \<and> (fresh q \<longrightarrow> blocks q = [])
     \<and> (synchronizing q \<longrightarrow> (\<forall>b \<in> set (blocks q). block_base b \<noteq> 0))"

lemma queue_ok_window:
  "queue_ok q \<Longrightarrow> window (oldestRtpBaseSequenceNumber q) (nextRtpSequenceNumber q) (blocks q)"
  by (simp add: queue_ok_def)

lemma queue_ok_validate [simp]: "queue_ok q \<Longrightarrow> validateFecBlockState q = Some ()"
  by (simp add: queue_ok_window window_validate)

lemma anchored_head:
  assumes "queue_ok q" "blocks q = b # bs"
  shows "anchored q \<longleftrightarrow> block_base b = oldestRtpBaseSequenceNumber q"
  using window_tail(1) [OF queue_ok_window [OF assms(1), unfolded assms(2)]] assms(2)
  by (auto simp: anchored_def)

lemma free_head:
  assumes ok: "queue_ok q" and bs: "blocks q = b # bs" and b: "block_base b = oldestRtpBaseSequenceNumber q"
    and q1: "q1 = q\<lparr>blocks := b' # bs, nextRtpSequenceNumber := oldestRtpBaseSequenceNumber q + 4\<rparr>"
    and b': "block_base b' = block_base b"
  shows "\<exists>q'. freeFecBlockHead q1 = Some q' \<and> queue_ok q' \<and> blocks q' = bs \<and> \<not> synchronizing q'
    \<and> nextRtpSequenceNumber q' = oldestRtpBaseSequenceNumber q + 4 \<and> aq_rs q' = aq_rs q
    \<and> incompatibleServer q' = incompatibleServer q"
proof -
  let ?o = "oldestRtpBaseSequenceNumber q"
  define q2 where "q2 = q1\<lparr>blocks := bs, oldestRtpBaseSequenceNumber := ?o + 4, synchronizing := False\<rparr>"
  have w: "window (?o + 4) (?o + 4) bs"
    using window_leave [of ?o "nextRtpSequenceNumber q" b bs] queue_ok_window [OF ok] bs b by simp
  then have v: "validateFecBlockState q2 = Some ()"
    by (intro window_validate) (simp add: q2_def q1)
  have cnt: "freeBlockCount q = of_nat (length (freeBlocks q))" "length (freeBlocks q) \<le> 4"
    using ok unfolding queue_ok_def by blast+
  then have lim: "4 \<le> freeBlockCount q \<longleftrightarrow> length (freeBlocks q) = 4"
    by (simp add: word_le_nat_alt unat_of_nat)
  define q3 where "q3 = (if freeBlockCount q2 \<ge> RTPA_CACHED_FEC_BLOCK_LIMIT then q2
    else q2\<lparr>freeBlocks := blockSize b' # freeBlocks q2, freeBlockCount := freeBlockCount q2 + 1\<rparr>)"
  have "freeFecBlockHead q1 = Some q3"
    using v b b' by (simp add: freeFecBlockHead_def q1 q2_def q3_def shard_consts Let_def)
  moreover have "queue_ok q3"
    using ok w cnt lim
    by (auto simp: queue_ok_def q3_def q2_def q1 fresh_def RTPA_CACHED_FEC_BLOCK_LIMIT_def)
  ultimately show ?thesis by (auto simp: q3_def q2_def q1)
qed

text \<open>
  A packet of the head block is given out: the next one is in the same block, or the block is
  left.  Both functions that do this agree.
\<close>

lemma consume_head:
  assumes ok: "queue_ok q" and bs: "blocks q = b # bs" and b: "block_base b = oldestRtpBaseSequenceNumber q"
    and q1: "q1 = q\<lparr>blocks := b' # bs, nextRtpSequenceNumber := nextRtpSequenceNumber q + 1\<rparr>"
    and b': "block_base b' = block_base b" "nextDataPacketIndex b' = Suc (nextDataPacketIndex b)" "block_ok b'"
  shows "\<exists>q'. use_up_head q1 = Some q' \<and> leave_block 0 q1 = Some q' \<and> queue_ok q' \<and> set (blocks q') \<subseteq> set (b' # bs)
    \<and> nextRtpSequenceNumber q' = nextRtpSequenceNumber q + 1 \<and> aq_rs q' = aq_rs q
    \<and> incompatibleServer q' = incompatibleServer q \<and> \<not> fresh q'"
proof -
  let ?o = "oldestRtpBaseSequenceNumber q" and ?n = "nextRtpSequenceNumber q"
  have w: "window ?o ?n (b # bs)" using queue_ok_window [OF ok] bs by simp
  then have idx: "nextDataPacketIndex b = dist16 ?o ?n" and n: "dist16 ?o ?n < 4"
    using window_block(4,5) [OF w, of b] b by simp_all
  have n1: "dist16 ?o (?n + 1) = Suc (dist16 ?o ?n)" using n by (simp add: dist16_plus1)
  have o4: "dist16 ?o (?o + 4) = 4" using dist16_plus4 [of ?o ?o] by simp
  have nf: "\<not> fresh q" using ok bs by (auto simp: queue_ok_def)
  have last: "?n + 1 = ?o + 4 \<longleftrightarrow> dist16 ?o ?n = 3"
    using dist16_inject [of ?o "?n + 1" "?o + 4"] n1 o4 by auto
  show ?thesis
  proof (cases "dist16 ?o ?n = 3")
    case True
    then have q1': "q1 = q\<lparr>blocks := b' # bs, nextRtpSequenceNumber := ?o + 4\<rparr>" using q1 last by simp
    obtain q' where q': "freeFecBlockHead q1 = Some q'" "queue_ok q'" "blocks q' = bs" "\<not> synchronizing q'"
      "nextRtpSequenceNumber q' = ?o + 4" "aq_rs q' = aq_rs q" "incompatibleServer q' = incompatibleServer q"
      using free_head [OF ok bs b q1' b'(1)] by blast
    have "use_up_head q1 = Some q'" "leave_block 0 q1 = Some q'"
      using q'(1) b b' idx True last by (simp_all add: use_up_head_def leave_block_def q1 shard_consts)
    then show ?thesis using q' True last by (auto simp: fresh_def)
  next
    case False
    then have "window ?o (?n + 1) (b' # bs)"
      using b' b n by (intro window_advance [OF w]) simp_all
    then have ok': "queue_ok q1"
      using ok b' bs by (auto simp: queue_ok_def q1 fresh_def)
    have "use_up_head q1 = Some q1" "leave_block 0 q1 = Some q1"
      using queue_ok_validate [OF ok'] b b' idx False last n
      by (simp_all add: use_up_head_def leave_block_def q1 shard_consts)
    then show ?thesis using ok' nf by (auto simp: q1 fresh_def)
  qed
qed

section \<open>Storing and completing\<close>

lemma store_data_ok:
  assumes "block_ok b" "\<not> fullyReassembled b" "pos < 4" "unat len - 12 \<le> length (payload p)"
    "unat len - 12 = unat (blockSize b)"
  shows "store_data p len pos b =
    (if marks b ! pos = 0 then Some None
     else Some (Some (b\<lparr>dataPackets := (dataPackets b)[pos := p\<lparr>payload := take (unat len - 12) (payload p)\<rparr>],
                        marks := (marks b)[pos := 0], dataShardsReceived := dataShardsReceived b + 1\<rparr>)))"
proof -
  have l: "length (payload (dataPackets b ! pos)) = unat len - 12" "pos < length (dataPackets b)"
    "pos < length (marks b)" using assms by (auto simp: block_ok_def)
  then show ?thesis using assms(4) by (simp add: store_data_def mem_read_def mem_write_def min_def)
qed

lemma store_data_block_ok:
  assumes "block_ok b" "\<not> fullyReassembled b" "pos < 4" "unat len - 12 \<le> length (payload p)"
    "unat len - 12 = unat (blockSize b)" "store_data p len pos b = Some (Some b')"
  shows "block_ok b'" "\<not> fullyReassembled b'" "same_place b' b" "blockSize b' = blockSize b"
proof -
  have m: "marks b ! pos \<noteq> 0"
    and b': "b' = b\<lparr>dataPackets := (dataPackets b)[pos := p\<lparr>payload := take (unat len - 12) (payload p)\<rparr>],
                        marks := (marks b)[pos := 0], dataShardsReceived := dataShardsReceived b + 1\<rparr>"
    using assms(6) unfolding store_data_ok [OF assms(1-5)] by (auto split: if_splits)
  have ok: "length (dataPackets b) = 4" "length (marks b) = 6"
    "\<And>i. i < 4 \<Longrightarrow> length (payload (dataPackets b ! i)) = unat (blockSize b)"
    using assms(1) by (simp_all add: block_ok_def)
  have "length (filter (\<lambda>i. (marks b)[pos := 0] ! i = 0) [0..<4])
      = Suc (length (filter (\<lambda>i. marks b ! i = 0) [0..<4]))"
    using mark_filter [of pos 4 0 "marks b"] assms(3) ok(2) m by simp
  moreover have "(marks b)[pos := 0] ! (4 + k) = marks b ! (4 + k)" for k using assms(3) by simp
  moreover have "length (payload ((dataPackets b)[pos := p\<lparr>payload := take (unat len - 12) (payload p)\<rparr>] ! i))
      = unat (blockSize b)" if "i < 4" for i
    using ok(1) ok(3) [OF that] that assms(4,5) by (cases "i = pos") simp_all
  ultimately show "block_ok b'" using assms(1,2) by (simp add: block_ok_def b')
  show "\<not> fullyReassembled b'" "same_place b' b" "blockSize b' = blockSize b"
    using assms(2) by (simp_all add: b' same_place_def)
qed

lemma store_fec_ok:
  assumes "block_ok b" "\<not> fullyReassembled b" "k < 2" "unat len - 12 \<le> length (payload p)" "24 \<le> unat len"
    "unat len - 24 = unat (blockSize b)"
  shows "store_fec p len k b =
    (if marks b ! (4 + k) = 0 then Some None
     else Some (Some (b\<lparr>fecPackets := (fecPackets b)[k := take (unat len - 24) (drop 12 (payload p))],
                        marks := (marks b)[4 + k := 0], fecShardsReceived := fecShardsReceived b + 1\<rparr>)))"
proof -
  have l: "length (fecPackets b ! k) = unat len - 24" "k < length (fecPackets b)"
    "4 + k < length (marks b)" using assms by (auto simp: block_ok_def)
  then show ?thesis using assms(4,5) by (simp add: store_fec_def mem_read_def mem_write_def min_def shard_consts)
qed

lemma store_fec_block_ok:
  assumes "block_ok b" "\<not> fullyReassembled b" "k < 2" "unat len - 12 \<le> length (payload p)" "24 \<le> unat len"
    "unat len - 24 = unat (blockSize b)" "store_fec p len k b = Some (Some b')"
  shows "block_ok b'" "\<not> fullyReassembled b'" "same_place b' b" "blockSize b' = blockSize b"
proof -
  have m: "marks b ! (4 + k) \<noteq> 0"
    and b': "b' = b\<lparr>fecPackets := (fecPackets b)[k := take (unat len - 24) (drop 12 (payload p))],
                        marks := (marks b)[4 + k := 0], fecShardsReceived := fecShardsReceived b + 1\<rparr>"
    using assms(7) unfolding store_fec_ok [OF assms(1-6)] by (auto split: if_splits)
  have ok: "length (fecPackets b) = 2" "length (marks b) = 6"
    "\<And>i. i < 2 \<Longrightarrow> length (fecPackets b ! i) = unat (blockSize b)"
    using assms(1) by (simp_all add: block_ok_def)
  have "length (filter (\<lambda>i. (marks b)[4 + k := 0] ! (4 + i) = 0) [0..<2])
      = Suc (length (filter (\<lambda>i. marks b ! (4 + i) = 0) [0..<2]))"
    using mark_filter [of k 2 4 "marks b"] assms(3) ok(2) m by simp
  moreover have "filter (\<lambda>i. (marks b)[4 + k := 0] ! i = 0) [0..<4] = filter (\<lambda>i. marks b ! i = 0) [0..<4]"
    by (rule filter_cong) auto
  moreover have "length ((fecPackets b)[k := take (unat len - 24) (drop 12 (payload p))] ! i)
      = unat (blockSize b)" if "i < 2" for i
    using ok(1) ok(3) [OF that] that assms(4-6) by (cases "i = k") simp_all
  ultimately show "block_ok b'" using assms(1,2) by (simp add: block_ok_def b')
  show "\<not> fullyReassembled b'" "same_place b' b" "blockSize b' = blockSize b"
    using assms(2) by (simp_all add: b' same_place_def)
qed

text \<open>
  Completion never fails: four shards of any kind are enough, and the assertion on the result of
  the reconstruction holds whatever they contain.
\<close>

lemma completeFecBlock_ok:
  assumes ok: "block_ok b" "\<not> fullyReassembled b" and rs: "audio_rs rs"
  shows "\<exists>c b'. completeFecBlock dur rs b = Some (c, b') \<and> same_place b' b
    \<and> block_ok (if c then b'\<lparr>fullyReassembled := True\<rparr> else b')"
proof -
  have b: "length (dataPackets b) = 4" "length (fecPackets b) = 2" "length (marks b) = 6"
    "unat (block_base b) mod 4 = 0"
    "\<And>i. i < 4 \<Longrightarrow> length (payload (dataPackets b ! i)) = unat (blockSize b)"
    "\<And>k. k < 2 \<Longrightarrow> length (fecPackets b ! k) = unat (blockSize b)"
    "dataShardsReceived b = length (filter (\<lambda>i. marks b ! i = 0) [0..<4])"
    "fecShardsReceived b = length (filter (\<lambda>k. marks b ! (4 + k) = 0) [0..<2])"
    using ok unfolding block_ok_def by blast+
  have le: "dataShardsReceived b \<le> 4"
    unfolding b(7) using length_filter_le [of "\<lambda>i. marks b ! i = 0" "[0..<4]"] by simp
  show ?thesis
  proof (cases "dataShardsReceived b + fecShardsReceived b < 4 \<or> dataShardsReceived b = 4")
    case True
    then show ?thesis
      using ok le by (auto simp: completeFecBlock_def shard_consts same_place_def block_ok_def)
  next
    case False
    let ?store = "map payload (dataPackets b) @ fecPackets b"
    have "data_shards rs = 4" "parity_shards rs = 2" using rs by (simp_all add: audio_rs_def)
    then have "length (lost_data rs (marks b)) + dataShardsReceived b = 4"
      "length (good_parity rs (marks b)) = fecShardsReceived b"
      unfolding lost_data_def good_parity_def b(7,8)
      using sum_length_filter_compl [of "\<lambda>i. marks b ! i = 0" "[0..<4]"] by simp_all
    then have enough: "length (lost_data rs (marks b)) \<le> length (good_parity rs (marks b))" using False by simp
    have "length ?store = 6" using b by simp
    moreover have "\<forall>i < 6. length (?store ! i) = unat (blockSize b)"
    proof (intro allI impI)
      fix i :: nat assume "i < 6"
      then show "length (?store ! i) = unat (blockSize b)"
        using b(1,2,5) b(6) [of "i - 4"] by (cases "i < 4") (simp_all add: nth_append)
    qed
    ultimately obtain out where out: "reed_solomon_reconstruct rs ?store (marks b) 6 (unat (blockSize b)) = (0, out)"
      "length out = 6" "\<forall>i < 6. length (out ! i) = unat (blockSize b)"
      using reconstruct_shape [of rs ?store "unat (blockSize b)", OF _ _ _ enough] rs unfolding audio_rs_def by fastforce
    then show ?thesis
      using False le b(4)
      by (auto simp: completeFecBlock_def shard_consts same_place_def block_ok_def recovered_packet_def)
  qed
qed

section \<open>Finding the block\<close>

definition packet_base :: "rtp_packet \<Rightarrow> u16" where
  "packet_base p =
     (if packetType p = RTP_PAYLOAD_TYPE_AUDIO then (sequenceNumber p div 4) * 4
      else BE16 (of_le_bytes (take 2 (drop 2 (payload p)))))"

text \<open>The packet lies in its buffer, and the block it asks for is one it fits in.\<close>

definition in_buffer :: "rtp_packet \<Rightarrow> u16 \<Rightarrow> bool" where
  "in_buffer p len \<longleftrightarrow> unat len - 12 \<le> length (payload p)"

definition fits :: "rtp_packet \<Rightarrow> u16 \<Rightarrow> u16 \<Rightarrow> bool" where
  "fits p len sz \<longleftrightarrow>
     (packetType p = RTP_PAYLOAD_TYPE_AUDIO \<and> 12 \<le> unat len \<and> unat len - 12 = unat sz)
   \<or> (packetType p = RTP_PAYLOAD_TYPE_FEC \<and> 24 \<le> unat len \<and> unat len - 24 = unat sz
      \<and> (\<exists>h. read_fec_header p = Some h \<and> fecShardIndex h < 2 \<and> baseSequenceNumber h = packet_base p))"

lemma payload_types [simp]: "RTP_PAYLOAD_TYPE_FEC \<noteq> RTP_PAYLOAD_TYPE_AUDIO"
  "RTP_PAYLOAD_TYPE_AUDIO \<noteq> RTP_PAYLOAD_TYPE_FEC"
  by (simp_all add: RTP_PAYLOAD_TYPE_FEC_def RTP_PAYLOAD_TYPE_AUDIO_def)

lemma unat_align4: "unat ((s :: u16) div 4 * 4) = unat s div 4 * 4"
proof -
  have "unat s div 4 * 4 \<le> unat s" by simp
  then have "unat s div 4 * 4 < 65536" using unat16_less [of s] by linarith
  then show ?thesis by (simp add: unat_word_ariths unat_div)
qed

lemma align4_mod [simp]: "unat ((s :: u16) div 4 * 4) mod 4 = 0"
  by (simp add: unat_align4)

lemma align4_offset: "unat ((s :: u16) - s div 4 * 4) = unat s mod 4"
proof -
  have "unat s div 4 * 4 \<le> unat s" by simp
  moreover have "unat s - unat s div 4 * 4 = unat s mod 4" by (simp add: minus_div_mult_eq_mod)
  ultimately show ?thesis by (simp add: unat_sub_if' unat_align4)
qed

lemma unat_minus_small: "n \<le> unat (len :: u16) \<Longrightarrow> n < 65536 \<Longrightarrow> unat (len - of_nat n) = unat len - n"
  by (simp add: unat_sub_if' unat_of_nat)

lemma read_fec_header_ok:
  "12 \<le> length (payload p) \<Longrightarrow> \<exists>h. read_fec_header p = Some h
     \<and> baseSequenceNumber h = BE16 (of_le_bytes (take 2 (drop 2 (payload p))))"
  by (simp add: read_fec_header_def mem_read_def drop_take min_def)

text \<open>The checks on a packet touch only the flags of the queue.\<close>

definition same_blocks :: "audio_queue \<Rightarrow> audio_queue \<Rightarrow> bool" where
  "same_blocks q' q \<longleftrightarrow> blocks q' = blocks q \<and> aq_rs q' = aq_rs q \<and> freeBlocks q' = freeBlocks q
     \<and> freeBlockCount q' = freeBlockCount q \<and> nextRtpSequenceNumber q' = nextRtpSequenceNumber q
     \<and> oldestRtpBaseSequenceNumber q' = oldestRtpBaseSequenceNumber q \<and> synchronizing q' = synchronizing q"

lemma same_blocks_ok: "same_blocks q' q \<Longrightarrow> queue_ok q' = queue_ok q \<and> fresh q' = fresh q \<and> anchored q' = anchored q"
  by (simp add: same_blocks_def queue_ok_def fresh_def anchored_def)

lemma same_blocks_refl [simp]: "same_blocks q q" by (simp add: same_blocks_def)

lemma packet_fec_header_spec:
  assumes "in_buffer p len"
  shows "\<exists>hdr q'. packet_fec_header dur q p len = Some (hdr, q') \<and> same_blocks q' q
    \<and> (case hdr of None \<Rightarrow> True
       | Some (h, sz) \<Rightarrow> fits p len sz \<and> baseSequenceNumber h = packet_base p \<and> unat (packet_base p) mod 4 = 0
           \<and> incompatibleServer q' = incompatibleServer q)"
proof -
  have "packet_fec_header dur q p len = Some (None, q)"
    if "\<not> (packetType p = RTP_PAYLOAD_TYPE_AUDIO \<and> 12 \<le> unat len)"
      "\<not> (packetType p = RTP_PAYLOAD_TYPE_FEC \<and> 24 \<le> unat len)"
    using that by (simp add: packet_fec_header_def not_le)
  then consider (audio) "packetType p = RTP_PAYLOAD_TYPE_AUDIO" "12 \<le> unat len"
    | (fec) "packetType p = RTP_PAYLOAD_TYPE_FEC" "24 \<le> unat len"
    | (bad) "packet_fec_header dur q p len = Some (None, q)"
    by blast
  then show ?thesis
  proof cases
    case audio
    then show ?thesis
      using unat_minus_small [of 12 len]
      by (auto simp: packet_fec_header_def data_fec_header_def track_oos_def same_blocks_def packet_base_def fits_def
          Let_def shard_consts)
  next
    case fec
    then have "12 \<le> length (payload p)" using assms by (simp add: in_buffer_def)
    then obtain h where h: "read_fec_header p = Some h" "baseSequenceNumber h = packet_base p"
      using read_fec_header_ok [of p] fec(1) by (auto simp: packet_base_def)
    have sz: "unat (len - 24) = unat len - 24" using unat_minus_small [of 24 len] fec(2) by simp
    have len: "len - 12 - 12 = len - 24" by simp
    have m4: "baseSequenceNumber h mod 4 = 0 \<longleftrightarrow> unat (packet_base p) mod 4 = 0"
      using h(2) by (simp add: word_unat_eq_iff unat_mod)
    have k: "\<not> 2 \<le> fecShardIndex h \<longleftrightarrow> fecShardIndex h < 2" by auto
    show ?thesis
      using fec h sz len m4 k
      by (cases "2 \<le> fecShardIndex h"; cases "unat (packet_base p) mod 4 = 0")
        (simp_all add: packet_fec_header_def shard_consts same_blocks_def fits_def)
  next
    case bad
    then show ?thesis by simp
  qed
qed

lemma allocateFecBlock_ok:
  assumes "queue_ok q"
  shows "\<exists>r q'. allocateFecBlock a q sz = Some (r, q') \<and> queue_ok q' \<and> blocks q' = blocks q \<and> aq_rs q' = aq_rs q
    \<and> nextRtpSequenceNumber q' = nextRtpSequenceNumber q \<and> incompatibleServer q' = incompatibleServer q
    \<and> oldestRtpBaseSequenceNumber q' = oldestRtpBaseSequenceNumber q \<and> synchronizing q' = synchronizing q"
proof (cases "freeBlocks q")
  case Nil
  then show ?thesis using assms by (simp add: allocateFecBlock_def queue_ok_def)
next
  case (Cons s ss)
  have cnt: "freeBlockCount q = of_nat (length (freeBlocks q))" "length (freeBlocks q) \<le> 4"
    using assms unfolding queue_ok_def by blast+
  then have "0 < freeBlockCount q" "freeBlockCount q - 1 = of_nat (length ss)" "length ss \<le> 4"
    using Cons by (simp_all add: word_less_nat_alt unat_word_ariths unat_of_nat)
  then show ?thesis using assms Cons by (simp add: allocateFecBlock_def queue_ok_def fresh_def Let_def)
qed

section \<open>The contents of blocks as an interface\<close>

text \<open>
  A property \<open>C\<close> of blocks under packets that satisfy \<open>A\<close>: new blocks have it, and storing a
  shard, completing and reading keep it.
\<close>

locale block_content =
  fixes dur :: u32 and C :: "fec_block \<Rightarrow> bool" and A :: "rtp_packet \<Rightarrow> u16 \<Rightarrow> bool"
  assumes new: "A p len \<Longrightarrow> packet_fec_header dur q p len = Some (Some (h, sz), q') \<Longrightarrow> C (new_block e h sz)"
    and data: "A p len \<Longrightarrow> packetType p = RTP_PAYLOAD_TYPE_AUDIO \<Longrightarrow> in_buffer p len \<Longrightarrow> fits p len (blockSize b)
      \<Longrightarrow> C b \<Longrightarrow> block_ok b \<Longrightarrow> \<not> fullyReassembled b \<Longrightarrow> block_base b = packet_base p
      \<Longrightarrow> store_data p len (unat (sequenceNumber p - block_base b)) b = Some (Some b') \<Longrightarrow> C b'"
    and fec: "A p len \<Longrightarrow> packetType p = RTP_PAYLOAD_TYPE_FEC \<Longrightarrow> in_buffer p len \<Longrightarrow> fits p len (blockSize b)
      \<Longrightarrow> C b \<Longrightarrow> block_ok b \<Longrightarrow> \<not> fullyReassembled b \<Longrightarrow> block_base b = packet_base p
      \<Longrightarrow> read_fec_header p = Some h \<Longrightarrow> store_fec p len (unat (fecShardIndex h)) b = Some (Some b') \<Longrightarrow> C b'"
    and complete: "C b \<Longrightarrow> block_ok b \<Longrightarrow> \<not> fullyReassembled b \<Longrightarrow> audio_rs rs
      \<Longrightarrow> completeFecBlock dur rs b = Some (True, b') \<Longrightarrow> C (b'\<lparr>fullyReassembled := True\<rparr>)"
    and index: "C b \<Longrightarrow> C (b\<lparr>nextDataPacketIndex := n\<rparr>)"
    and gaps: "C b \<Longrightarrow> C (b\<lparr>allowDiscontinuity := True\<rparr>)"
begin

definition ok :: "audio_queue \<Rightarrow> bool" where
  "ok q \<longleftrightarrow> queue_ok q \<and> (\<forall>b \<in> set (blocks q). C b)"

text \<open>A packet may come: it lies in its buffer, and not at base 0 while synchronizing.\<close>

definition may_come :: "audio_queue \<Rightarrow> rtp_packet \<Rightarrow> u16 \<Rightarrow> bool" where
  "may_come q p len \<longleftrightarrow> A p len \<and> in_buffer p len \<and> (synchronizing q \<longrightarrow> packet_base p \<noteq> 0)"

lemma get_block:
  assumes q: "ok q" and p: "may_come q p len"
  shows "\<exists>r q'. getFecBlockForRtpPacket dur e q p len = Some (r, q') \<and> ok q'
    \<and> (incompatibleServer q' = incompatibleServer q \<or> r = None)
    \<and> (fresh q \<and> r = None
       \<or> nextRtpSequenceNumber q' = nextRtpSequenceNumber q \<and> (anchored q \<longrightarrow> anchored q') \<and> \<not> fresh q \<and> \<not> fresh q'
         \<and> (case r of None \<Rightarrow> True
            | Some i \<Rightarrow> i < length (blocks q') \<and> \<not> fullyReassembled (blocks q' ! i)
                \<and> block_base (blocks q' ! i) = packet_base p \<and> fits p len (blockSize (blocks q' ! i))))"
proof -
  have buf: "in_buffer p len" "A p len" using p by (simp_all add: may_come_def)
  obtain hdr q1 where h1: "packet_fec_header dur q p len = Some (hdr, q1)" "same_blocks q1 q"
    and spec: "case hdr of None \<Rightarrow> True
       | Some (h, sz) \<Rightarrow> fits p len sz \<and> baseSequenceNumber h = packet_base p \<and> unat (packet_base p) mod 4 = 0
           \<and> incompatibleServer q1 = incompatibleServer q"
    using packet_fec_header_spec [OF buf(1), of dur q] by blast
  have ok1: "ok q1" "fresh q1 = fresh q" "anchored q1 = anchored q"
    "nextRtpSequenceNumber q1 = nextRtpSequenceNumber q" "synchronizing q1 = synchronizing q"
    using same_blocks_ok [OF h1(2)] q h1(2) by (simp_all add: ok_def same_blocks_def)
  have qok: "queue_ok q1" "validateFecBlockState q = Some ()" using ok1(1) q by (simp_all add: ok_def)
  show ?thesis
  proof (cases hdr)
    case None
    then have "getFecBlockForRtpPacket dur e q p len = Some (None, q1)"
      using h1(1) qok(2) by (simp add: getFecBlockForRtpPacket_def)
    then show ?thesis using ok1 by auto
  next
    case (Some hs)
    obtain h sz where hs: "hdr = Some (h, sz)" using Some by (cases hs) simp
    let ?s = "packet_base p" and ?o = "oldestRtpBaseSequenceNumber q1"
    have f: "fits p len sz" "baseSequenceNumber h = ?s" "unat ?s mod 4 = 0"
      "incompatibleServer q1 = incompatibleServer q" using spec hs by simp_all
    note get = getFecBlockForRtpPacket_def qok(2) h1(1) hs f(2)
    consider (sync) "synchronizing q1" "?o = 0"
      | (old) "\<not> fresh q1" "isBefore16 ?s ?o"
      | (search) "\<not> fresh q1" "\<not> isBefore16 ?s ?o" by (auto simp: fresh_def)
    then show ?thesis
    proof cases
      case sync
      let ?q = "q1\<lparr>nextRtpSequenceNumber := ?s + 4, oldestRtpBaseSequenceNumber := ?s + 4\<rparr>"
      have fr: "fresh q1" using sync by (simp add: fresh_def)
      then have nil: "blocks q1 = []" using qok(1) by (simp add: queue_ok_def)
      then have "ok ?q"
        using qok(1) unat_plus4_mod [OF f(3)] by (auto simp: ok_def queue_ok_def window_def)
      moreover have "getFecBlockForRtpPacket dur e q p len = Some (None, ?q)"
        using sync by (simp add: get Let_def shard_consts)
      ultimately show ?thesis using fr ok1(2) f(4) by auto
    next
      case old
      then have "getFecBlockForRtpPacket dur e q p len = Some (None, q1)" by (auto simp: get fresh_def)
      then show ?thesis using ok1 old by auto
    next
      case search
      have ns: "\<not> (synchronizing q1 \<and> ?o = 0)" using search by (simp add: fresh_def)
      note w = queue_ok_window [OF qok(1)]
      have s: "dist16 ?o ?s < 32768" using search by (simp add: s16.not_before_origin)
      have "\<forall>b \<in> set (blocks q1). dist16 ?o (block_base b) < 32768"
        using window_block(2) [OF w] by blast
      note fb = find_block_spec [OF this s, where k = 0]
      have srt: "sorted_wrt (\<lambda>b c. dist16 ?o (block_base b) < dist16 ?o (block_base c)) (blocks q1)"
        using w unfolding window_def by blast
      show ?thesis
      proof (cases "find_block ?s 0 (blocks q1)")
        case (Existing i)
        then have i: "i < length (blocks q1)" "block_base (blocks q1 ! i) = ?s" using fb [OF srt] by simp_all
        show ?thesis
        proof (cases "blockSize (blocks q1 ! i) = sz")
          case False
          let ?q = "q1\<lparr>incompatibleServer := True\<rparr>"
          have "getFecBlockForRtpPacket dur e q p len = Some (None, ?q)"
            using search ns False Existing by (auto simp: get Let_def)
          moreover have "ok ?q" "anchored ?q = anchored q1" "fresh ?q = fresh q1"
            using ok1(1) by (simp_all add: ok_def queue_ok_def anchored_def fresh_def)
          ultimately show ?thesis using ok1 search by auto
        next
          case True
          have "getFecBlockForRtpPacket dur e q p len
              = Some (if fullyReassembled (blocks q1 ! i) then None else Some i, q1)"
            using search ns True Existing by (auto simp: get Let_def)
          then show ?thesis using ok1 i f True search(1) by auto
        qed
      next
        case (Before i)
        then have i: "i \<le> length (blocks q1)"
          "\<forall>b \<in> set (take i (blocks q1)). dist16 ?o (block_base b) < dist16 ?o ?s"
          "\<forall>b \<in> set (drop i (blocks q1)). dist16 ?o ?s < dist16 ?o (block_base b)"
          using fb [OF srt] by simp_all
        obtain r q2 where al: "allocateFecBlock (env_alloc e) q1 sz = Some (r, q2)" "queue_ok q2"
          "blocks q2 = blocks q1" "aq_rs q2 = aq_rs q1" "nextRtpSequenceNumber q2 = nextRtpSequenceNumber q1"
          "incompatibleServer q2 = incompatibleServer q1"
          "oldestRtpBaseSequenceNumber q2 = ?o" "synchronizing q2 = synchronizing q1"
          using allocateFecBlock_ok [OF qok(1)] by blast
        have same2: "ok q2" "anchored q2 = anchored q1" "fresh q2 = fresh q1"
          using al ok1(1) by (simp_all add: ok_def anchored_def fresh_def)
        show ?thesis
        proof (cases r)
          case False
          then have "getFecBlockForRtpPacket dur e q p len = Some (None, q2)"
            using search ns Before al(1) False by (auto simp: get)
          then show ?thesis using ok1 same2 al search f(4) by auto
        next
          case True
          let ?b = "new_block e h sz"
          let ?q = "q2\<lparr>blocks := insert_block i ?b (blocks q2)\<rparr>"
          have b: "block_base ?b = ?s" "block_ok ?b" "nextDataPacketIndex ?b = 0" "\<not> allowDiscontinuity ?b"
            "blockSize ?b = sz" "\<not> fullyReassembled ?b"
            using f new_block_ok [of h] by (simp_all add: new_block_def)
          have win: "window ?o (nextRtpSequenceNumber q1) (insert_block i ?b (blocks q1))"
            by (rule window_insert [OF w]) (use b s i in simp_all)
          have set: "set (insert_block i ?b (blocks q1)) = insert ?b (set (blocks q1))"
          proof -
            have "set (take i (blocks q1)) \<union> set (drop i (blocks q1)) = set (blocks q1)"
              by (metis append_take_drop_id set_append)
            then show ?thesis by (auto simp: insert_block_def)
          qed
          have nth: "insert_block i ?b (blocks q1) ! i = ?b" "i < length (insert_block i ?b (blocks q1))"
            using i(1) by (simp_all add: insert_block_def nth_append)
          have nz: "synchronizing q2 \<longrightarrow> ?s \<noteq> 0" using p al(8) ok1(5) by (simp add: may_come_def)
          have "C ?b" using new [OF buf(2) h1(1) [unfolded hs]] .
          then have okq: "ok ?q"
            using same2(1) win al set nz b(1) same2(3) search(1)
            unfolding ok_def queue_ok_def by (auto simp: fresh_def)
          then have "validateFecBlockState ?q = Some ()" by (intro queue_ok_validate) (simp add: ok_def)
          then have "getFecBlockForRtpPacket dur e q p len = Some (Some i, ?q)"
            using search ns Before al(1) True by (auto simp: get Let_def)
          moreover have "anchored q1 \<longrightarrow> anchored ?q" using set al by (auto simp: anchored_def)
          moreover have "\<not> fresh ?q" using search(1) same2(3) by (simp add: fresh_def)
          moreover have "\<not> fresh q" using search(1) ok1(2) by simp
          ultimately show ?thesis using okq ok1(3,4) nth b f al
            by (intro exI [of _ "Some i"] exI [of _ ?q]) simp
        qed
      qed
    qed
  qed
qed

text \<open>A block of the queue is replaced by one with the same place.\<close>

lemma ok_update:
  assumes "ok q" "i < length (blocks q)" "same_place b (blocks q ! i)" "block_ok b" "C b"
  shows "ok (q\<lparr>blocks := (blocks q)[i := b]\<rparr>)"
    "anchored (q\<lparr>blocks := (blocks q)[i := b]\<rparr>) = anchored q"
    "fresh (q\<lparr>blocks := (blocks q)[i := b]\<rparr>) = fresh q"
proof -
  let ?bs = "(blocks q)[i := b]"
  have qok: "queue_ok q" using assms(1) by (simp add: ok_def)
  have w: "window (oldestRtpBaseSequenceNumber q) (nextRtpSequenceNumber q) ?bs"
    by (rule window_update [OF queue_ok_window [OF qok] assms(2-4)])
  have bases: "block_base ` set ?bs = block_base ` set (blocks q)"
  proof -
    have "map block_base ?bs = map block_base (blocks q)"
      using assms(2,3) by (simp add: map_update same_place_def list_update_same_conv)
    then have "set (map block_base ?bs) = set (map block_base (blocks q))" by (rule arg_cong)
    then show ?thesis by simp
  qed
  have ex: "(\<exists>c \<in> set ?bs. P (block_base c)) \<longleftrightarrow> (\<exists>c \<in> set (blocks q). P (block_base c))" for P
    using bases by (metis (no_types, lifting) image_iff)
  then have all: "(\<forall>c \<in> set ?bs. P (block_base c)) \<longleftrightarrow> (\<forall>c \<in> set (blocks q). P (block_base c))" for P
    using ex [of "\<lambda>x. \<not> P x"] by blast
  have "\<forall>c \<in> set ?bs. C c"
    using assms(1,5) set_update_subset_insert [of "blocks q" i b] by (auto simp: ok_def)
  then show "ok (q\<lparr>blocks := ?bs\<rparr>)"
    using qok w all [of "\<lambda>x. x \<noteq> 0"] assms(2) unfolding ok_def queue_ok_def by (auto simp: fresh_def)
  show "anchored (q\<lparr>blocks := ?bs\<rparr>) = anchored q"
    using ex [of "\<lambda>x. x = oldestRtpBaseSequenceNumber q"] by (simp add: anchored_def)
  show "fresh (q\<lparr>blocks := ?bs\<rparr>) = fresh q" by (simp add: fresh_def)
qed

lemma ready_total:
  assumes "ok q"
  shows "\<exists>r. queueHasPacketReady q = Some r
    \<and> (r \<longrightarrow> (\<exists>b bs. blocks q = b # bs \<and> block_base b = oldestRtpBaseSequenceNumber q
          \<and> (marks b ! nextDataPacketIndex b = 0 \<or> allowDiscontinuity b)))"
proof -
  have qok: "queue_ok q" using assms by (simp add: ok_def)
  show ?thesis
  proof (cases "blocks q")
    case Nil
    then show ?thesis using qok by (auto simp: queueHasPacketReady_def)
  next
    case (Cons b bs)
    let ?o = "oldestRtpBaseSequenceNumber q" and ?n = "nextRtpSequenceNumber q"
    have w: "window ?o ?n (b # bs)" using queue_ok_window [OF qok] Cons by simp
    note b = window_block [OF w, of b, simplified]
    have "nextDataPacketIndex b < length (marks b)" using b(1,5) by (simp add: block_ok_def)
    moreover have "block_base b = ?o" if "unat (block_base b) + nextDataPacketIndex b = unat ?n"
    proof (rule ccontr)
      assume ne: "block_base b \<noteq> ?o"
      then have "nextDataPacketIndex b = 0" "?n = ?o" using b(4) window_head(1) [OF w ne] by simp_all
      then have "block_base b = ?o" using that by (simp add: word_unat_eq_iff)
      then show False using ne by simp
    qed
    ultimately show ?thesis using qok Cons b(6) by (auto simp: queueHasPacketReady_def head_ready_def uint_index)
  qed
qed

text \<open>
  Skipping: nothing happens, or the sequence number moves forward to the first block, or the
  first block is opened for reading with gaps.
\<close>

definition jumped :: "audio_queue \<Rightarrow> audio_queue \<Rightarrow> bool" where
  "jumped q q' \<longleftrightarrow> \<not> anchored q \<and> anchored q' \<and> \<not> fresh q'
     \<and> isBefore16 (nextRtpSequenceNumber q) (nextRtpSequenceNumber q')
     \<and> dist16 (nextRtpSequenceNumber q) (nextRtpSequenceNumber q') < 32768"

definition stayed :: "audio_queue \<Rightarrow> audio_queue \<Rightarrow> bool" where
  "stayed q q' \<longleftrightarrow> nextRtpSequenceNumber q' = nextRtpSequenceNumber q \<and> (anchored q \<longrightarrow> anchored q') \<and> \<not> fresh q'"

lemma handle_missing:
  assumes q: "ok q" and nf: "\<not> fresh q"
  shows "\<exists>q'. handleMissingPackets dur e q = Some q' \<and> ok q' \<and> (stayed q q' \<or> jumped q q')
    \<and> incompatibleServer q' = incompatibleServer q"
proof -
  have qok: "queue_ok q" using q by (simp add: ok_def)
  have stay: "stayed q q" using nf by (simp add: stayed_def)
  show ?thesis
  proof (cases "blocks q")
    case Nil
    then show ?thesis using q stay by (simp add: handleMissingPackets_def)
  next
    case (Cons b bs)
    let ?o = "oldestRtpBaseSequenceNumber q" and ?n = "nextRtpSequenceNumber q"
    have w: "window ?o ?n (b # bs)" using queue_ok_window [OF qok] Cons by simp
    note b = window_block [OF w, of b, simplified]
    have nd: "dist16 ?o ?n < 4" using w by (simp add: window_def)
    show ?thesis
    proof (cases "isBefore16 ?n (block_base b)")
      case True
      let ?q = "q\<lparr>nextRtpSequenceNumber := block_base b, oldestRtpBaseSequenceNumber := block_base b\<rparr>"
      have lt: "dist16 ?o ?n < dist16 ?o (block_base b)"
        using True s16.before_in_window [of ?o ?n "block_base b"] nd b(2) by simp
      then have ne: "block_base b \<noteq> ?o" by auto
      have n: "?n = ?o" by (rule window_head(1) [OF w ne])
      have "window (block_base b) (block_base b) (b # bs)" by (rule window_jump [OF w ne])
      moreover have nf': "\<not> fresh ?q" using qok Cons by (auto simp: fresh_def queue_ok_def)
      ultimately have "ok ?q" using q Cons by (simp add: ok_def queue_ok_def)
      moreover have "jumped q ?q"
        using anchored_head [OF qok Cons] ne nf' True n b(2) Cons by (simp add: jumped_def anchored_def)
      moreover have "handleMissingPackets dur e q = Some ?q" using Cons True by (simp add: handleMissingPackets_def)
      ultimately show ?thesis by auto
    next
      case False
      have o': "block_base b = ?o"
      proof (rule ccontr)
        assume ne: "block_base b \<noteq> ?o"
        then have "?n = ?o" "4 \<le> dist16 ?o (block_base b)" using window_head(1) [OF w ne] window_far [OF w _ ne] by simp_all
        then show False using False b(2) by (simp add: isBefore16_ahead)
      qed
      let ?b = "b\<lparr>allowDiscontinuity := True\<rparr>"
      let ?q = "q\<lparr>blocks := ?b # bs\<rparr>"
      have "window ?o ?n (?b # bs)"
        using w o' unfolding window_def by (auto simp: block_ok_def)
      moreover have "C ?b" using q Cons by (intro gaps) (simp add: ok_def)
      ultimately have okq: "ok ?q" using q Cons nf by (auto simp: ok_def queue_ok_def fresh_def)
      have "nextDataPacketIndex b < length (marks b)" using b(1,5) by (simp add: block_ok_def)
      then have ready: "queueHasPacketReady ?q = Some True"
        using okq by (simp add: queueHasPacketReady_def head_ready_def ok_def)
      have "stayed q ?q" using nf o' by (simp add: stayed_def anchored_def fresh_def)
      then show ?thesis
        using okq ready q stay False Cons by (auto simp: handleMissingPackets_def)
    qed
  qed
qed

lemma finish_add_ok:
  assumes q: "ok q" and nf: "\<not> fresh q" and i: "i < length (blocks q)" "\<not> fullyReassembled (blocks q ! i)"
  shows "\<exists>r q'. finish_add dur e i q = Some (r, q') \<and> ok q' \<and> (stayed q q' \<or> jumped q q')
    \<and> r \<noteq> RTPQ_RET_HANDLE_NOW \<and> incompatibleServer q' = incompatibleServer q"
proof -
  let ?b = "blocks q ! i"
  have qok: "queue_ok q" and Cb: "C ?b" using q i(1) by (simp_all add: ok_def)
  have b: "block_ok ?b" using window_block(1) [OF queue_ok_window [OF qok]] i(1) by simp
  have rs: "audio_rs (aq_rs q)" using qok by (simp add: queue_ok_def)
  obtain c b' where cb: "completeFecBlock dur (aq_rs q) ?b = Some (c, b')" "same_place b' ?b"
    "block_ok (if c then b'\<lparr>fullyReassembled := True\<rparr> else b')"
    using completeFecBlock_ok [OF b i(2) rs] by blast
  let ?b' = "if c then b'\<lparr>fullyReassembled := True\<rparr> else b'"
  have "C ?b'"
  proof (cases c)
    case True
    then show ?thesis using complete [OF Cb b i(2) rs] cb(1) by simp
  next
    case False
    then have "b' = ?b" using cb(1)
      by (auto simp: completeFecBlock_def LC_ASSERT_def split: if_splits prod.splits bind_split_asm)
    then show ?thesis using Cb False by simp
  qed
  moreover have "same_place ?b' ?b" using cb(2) by (simp add: same_place_def)
  ultimately have qq: "C ?b'" "same_place ?b' ?b" by blast+
  let ?q1 = "q\<lparr>blocks := (blocks q)[i := ?b']\<rparr>"
  have q1: "ok ?q1" "anchored ?q1 = anchored q" "fresh ?q1 = fresh q" "nextRtpSequenceNumber ?q1 = nextRtpSequenceNumber q"
    using ok_update [OF q i(1) qq(2) cb(3) qq(1)] by simp_all
  obtain r1 where r1: "queueHasPacketReady ?q1 = Some r1" using ready_total [OF q1(1)] by blast
  have "\<exists>q2. (if \<not> r1 then handleMissingPackets dur e ?q1 else Some ?q1) = Some q2 \<and> ok q2
      \<and> (stayed ?q1 q2 \<or> jumped ?q1 q2) \<and> incompatibleServer q2 = incompatibleServer ?q1"
  proof (cases r1)
    case True
    then show ?thesis using q1 nf by (simp add: stayed_def)
  next
    case False
    then show ?thesis using handle_missing [OF q1(1)] q1(3) nf by simp
  qed
  then obtain q2 where q2: "(if \<not> r1 then handleMissingPackets dur e ?q1 else Some ?q1) = Some q2" "ok q2"
    "stayed ?q1 q2 \<or> jumped ?q1 q2" "incompatibleServer q2 = incompatibleServer ?q1" by blast
  obtain r2 where r2: "queueHasPacketReady q2 = Some r2" using ready_total [OF q2(2)] by blast
  have "i = 0 \<or> length (blocks q) \<noteq> 1" using i(1) by auto
  then have "finish_add dur e i q = Some (if r2 then RTPQ_RET_PACKET_READY else 0, q2)"
    using i(1) cb(1) r1 q2(1) r2 by (simp add: finish_add_def Let_def)
  moreover have "stayed q q2 \<or> jumped q q2" using q2(3) q1 by (simp add: stayed_def jumped_def)
  ultimately show ?thesis
    using q2 by (auto simp: RTPQ_RET_PACKET_READY_def RTPQ_RET_HANDLE_NOW_def)
qed

text \<open>
  \<open>RtpaAddPacket\<close>: no assertion fails; a packet is handed on at once only when it is the next
  one of its stream.
\<close>

definition given_out :: "audio_queue \<Rightarrow> audio_queue \<Rightarrow> bool" where
  "given_out q q' \<longleftrightarrow> nextRtpSequenceNumber q' = nextRtpSequenceNumber q + 1 \<and> \<not> fresh q \<and> \<not> fresh q'"

lemma add_packet:
  assumes q: "ok q" and p: "may_come q p len"
  shows "\<exists>r q'. RtpaAddPacket dur e q p len = Some (r, q') \<and> ok q'
    \<and> (incompatibleServer q' \<or> \<not> incompatibleServer q
        \<and> (if r = RTPQ_RET_HANDLE_NOW then given_out q q' \<and> sequenceNumber p = nextRtpSequenceNumber q
           else fresh q \<or> stayed q q' \<or> jumped q q'))
    \<and> (r = RTPQ_RET_HANDLE_NOW \<longrightarrow> packetType p = RTP_PAYLOAD_TYPE_AUDIO)"
proof (cases "incompatibleServer q")
  case True
  then show ?thesis using q by (auto simp: RtpaAddPacket_def RTPQ_RET_HANDLE_NOW_def)
next
  case False
  obtain r q1 where g: "getFecBlockForRtpPacket dur e q p len = Some (r, q1)" "ok q1"
    "incompatibleServer q1 = incompatibleServer q \<or> r = None"
    "fresh q \<and> r = None
       \<or> nextRtpSequenceNumber q1 = nextRtpSequenceNumber q \<and> (anchored q \<longrightarrow> anchored q1) \<and> \<not> fresh q \<and> \<not> fresh q1
         \<and> (case r of None \<Rightarrow> True
            | Some i \<Rightarrow> i < length (blocks q1) \<and> \<not> fullyReassembled (blocks q1 ! i)
                \<and> block_base (blocks q1 ! i) = packet_base p \<and> fits p len (blockSize (blocks q1 ! i)))"
    using get_block [OF q p] by blast
  show ?thesis
  proof (cases r)
    case None
    then have "RtpaAddPacket dur e q p len = Some (0, q1)" using False g(1) by (simp add: RtpaAddPacket_def)
    then show ?thesis using g False by (auto simp: stayed_def RTPQ_RET_HANDLE_NOW_def)
  next
    case (Some i)
    let ?b = "blocks q1 ! i"
    have s: "nextRtpSequenceNumber q1 = nextRtpSequenceNumber q" "anchored q \<longrightarrow> anchored q1" "\<not> fresh q1"
      "i < length (blocks q1)" "\<not> fullyReassembled ?b" "block_base ?b = packet_base p" "fits p len (blockSize ?b)"
      "\<not> incompatibleServer q1"
      using g(3,4) Some False by simp_all
    have qok: "queue_ok q1" and Cb: "C ?b" using g(2) s(4) by (simp_all add: ok_def)
    note w = queue_ok_window [OF qok]
    have b: "block_ok ?b" using window_block(1) [OF w] s(4) by simp
    have buf: "in_buffer p len" "A p len" using p by (simp_all add: may_come_def)
    have trans: "stayed q q2 \<or> jumped q q2" if "stayed q1 q2 \<or> jumped q1 q2" for q2
      using that s(1,2) by (auto simp: stayed_def jumped_def)
    have nfr: "\<not> fresh q" using g(4) Some by simp
    have fin: ?thesis
      if b': "same_place b' ?b" "block_ok b'" "C b'" "\<not> fullyReassembled b'"
        and add: "RtpaAddPacket dur e q p len = finish_add dur e i (q1\<lparr>blocks := (blocks q1)[i := b']\<rparr>)" for b'
    proof -
      let ?q = "q1\<lparr>blocks := (blocks q1)[i := b']\<rparr>"
      note u = ok_update [OF g(2) s(4) b'(1-3)]
      have nf: "\<not> fresh ?q" using u(3) s(3) by simp
      have i: "i < length (blocks ?q)" "\<not> fullyReassembled (blocks ?q ! i)" using s(4) b'(4) by simp_all
      obtain r2 q2 where f: "finish_add dur e i ?q = Some (r2, q2)" "ok q2" "stayed ?q q2 \<or> jumped ?q q2"
        "r2 \<noteq> RTPQ_RET_HANDLE_NOW" "incompatibleServer q2 = incompatibleServer ?q"
        using finish_add_ok [OF u(1) nf i] by blast
      have "stayed q1 q2 \<or> jumped q1 q2" using f(3) u(2) by (simp add: stayed_def jumped_def)
      from trans [OF this] show ?thesis using add f False by auto
    qed
    show ?thesis
    proof (cases "packetType p = RTP_PAYLOAD_TYPE_AUDIO")
      case True
      let ?pos = "unat (sequenceNumber p - block_base ?b)"
      have pos: "?pos < 4" using s(6) True by (simp add: packet_base_def align4_offset)
      have fit: "unat len - 12 = unat (blockSize ?b)" using s(7) True by (simp add: fits_def)
      have bufl: "unat len - 12 \<le> length (payload p)" using buf(1) by (simp add: in_buffer_def)
      note st = store_data_ok [OF b s(5) pos bufl fit]
      show ?thesis
      proof (cases "marks ?b ! ?pos = 0")
        case dup: True
        then have "RtpaAddPacket dur e q p len = Some (0, q1)"
          using False g(1) Some True pos st by (simp add: RtpaAddPacket_def Let_def shard_consts)
        then show ?thesis using g(2) s False by (auto simp: stayed_def RTPQ_RET_HANDLE_NOW_def)
      next
        case new_shard: False
        then obtain b' where b': "store_data p len ?pos ?b = Some (Some b')" using st by simp
        note sb = store_data_block_ok [OF b s(5) pos bufl fit b']
        have Cb': "C b'" by (rule data [OF buf(2) True buf(1) s(7) Cb b s(5,6) b'])
        show ?thesis
        proof (cases "sequenceNumber p = nextRtpSequenceNumber q1")
          case now: False
          have add: "RtpaAddPacket dur e q p len = finish_add dur e i (q1\<lparr>blocks := (blocks q1)[i := b']\<rparr>)"
            using False g(1) Some True pos b' now by (simp add: RtpaAddPacket_def Let_def shard_consts)
          show ?thesis by (rule fin [OF sb(3,1) Cb' sb(2) add])
        next
          case now: True
          let ?o = "oldestRtpBaseSequenceNumber q1" and ?n = "nextRtpSequenceNumber q1"
          have "unat ?n = unat ?o + dist16 ?o ?n" "dist16 ?o ?n < 4" "unat ?o mod 4 = 0"
            using w by (auto simp: window_def intro: unat_base_index)
          then have "unat ?n div 4 * 4 = unat ?o" by presburger
          then have o': "block_base ?b = ?o"
            using s(6) True now by (simp add: packet_base_def word_unat_eq_iff unat_align4)
          obtain h bs where hd: "blocks q1 = h # bs" using s(4) by (cases "blocks q1") auto
          have i0: "i = 0"
          proof (rule ccontr)
            assume "i \<noteq> 0"
            then have "?b \<in> set bs" using hd s(4) by (cases i) auto
            then show False using window_tail(1) [OF w [unfolded hd]] o' by blast
          qed
          let ?b2 = "b'\<lparr>nextDataPacketIndex := nextDataPacketIndex b' + 1\<rparr>"
          let ?q = "q1\<lparr>blocks := ?b2 # bs, nextRtpSequenceNumber := ?n + 1\<rparr>"
          have b2: "block_base ?b2 = block_base h" "nextDataPacketIndex ?b2 = Suc (nextDataPacketIndex h)"
            "block_ok ?b2" "C ?b2"
            using sb Cb' hd i0 index by (simp_all add: same_place_def block_ok_def)
          have "block_base h = ?o" using o' hd i0 by simp
          from consume_head [OF qok hd this refl b2(1-3)] obtain q' where
            q': "leave_block 0 ?q = Some q'" "queue_ok q'" "set (blocks q') \<subseteq> set (?b2 # bs)"
            "nextRtpSequenceNumber q' = ?n + 1" "incompatibleServer q' = incompatibleServer q1" "\<not> fresh q'"
            by blast
          have "C c" if "c \<in> set (blocks q')" for c
            using subsetD [OF q'(3) that] b2(4) g(2) hd by (auto simp: ok_def)
          then have okq': "ok q'" using q'(2) by (simp add: ok_def)
          have "RtpaAddPacket dur e q p len = Some (RTPQ_RET_HANDLE_NOW, q')"
            using False g(1) Some True pos b' now i0 hd q'(1)
            by (simp add: RtpaAddPacket_def Let_def shard_consts)
          moreover have "given_out q q'" using q' s nfr by (simp add: given_out_def)
          ultimately show ?thesis using okq' True now s(1) False by auto
        qed
      qed
    next
      case False': False
      then have ty: "packetType p = RTP_PAYLOAD_TYPE_FEC" "24 \<le> unat len" "unat len - 24 = unat (blockSize ?b)"
        using s(7) by (auto simp: fits_def)
      obtain h where h: "read_fec_header p = Some h" "fecShardIndex h < 2"
        using s(7) ty(1) by (auto simp: fits_def)
      let ?k = "unat (fecShardIndex h)"
      have k: "?k < 2" using h(2) by (simp add: word_less_nat_alt)
      have bufl: "unat len - 12 \<le> length (payload p)" using buf(1) by (simp add: in_buffer_def)
      note st = store_fec_ok [OF b s(5) k bufl ty(2,3)]
      show ?thesis
      proof (cases "marks ?b ! (4 + ?k) = 0")
        case True
        then have "RtpaAddPacket dur e q p len = Some (0, q1)"
          using False g(1) Some False' ty(1) h st by (simp add: RtpaAddPacket_def Let_def shard_consts)
        then show ?thesis using g(2) s False by (auto simp: stayed_def RTPQ_RET_HANDLE_NOW_def)
      next
        case new_shard: False
        then obtain b' where b': "store_fec p len ?k ?b = Some (Some b')" using st by simp
        note sb = store_fec_block_ok [OF b s(5) k bufl ty(2,3) b']
        have Cb': "C b'" by (rule fec [OF buf(2) ty(1) buf(1) s(7) Cb b s(5,6) h(1) b'])
        have add: "RtpaAddPacket dur e q p len = finish_add dur e i (q1\<lparr>blocks := (blocks q1)[i := b']\<rparr>)"
          using False g(1) Some False' ty(1) h b' by (simp add: RtpaAddPacket_def Let_def shard_consts)
        show ?thesis by (rule fin [OF sb(3,1) Cb' sb(2) add])
      qed
    qed
  qed
qed

text \<open>\<open>RtpaGetQueuedPacket\<close>: nothing changes, or the next packet of the stream is given out.\<close>

definition stored_packet :: "audio_queue \<Rightarrow> rtp_packet \<Rightarrow> u16 \<Rightarrow> bool" where
  "stored_packet q p len \<longleftrightarrow> (\<exists>b i. b \<in> set (blocks q) \<and> C b \<and> block_ok b \<and> i < 4 \<and> marks b ! i = 0
     \<and> nextRtpSequenceNumber q = block_base b + of_nat i \<and> p = dataPackets b ! i \<and> len = blockSize b + 12)"

lemma give_out_head:
  assumes q: "ok q" and bs: "blocks q = b # bs" and b: "block_base b = oldestRtpBaseSequenceNumber q"
  shows "\<exists>q'. use_up_head (advance_head q) = Some q' \<and> ok q' \<and> given_out q q'
    \<and> incompatibleServer q' = incompatibleServer q"
proof -
  let ?b = "b\<lparr>nextDataPacketIndex := nextDataPacketIndex b + 1\<rparr>"
  have qok: "queue_ok q" using q by (simp add: ok_def)
  have bok: "block_ok b" using window_block(1) [OF queue_ok_window [OF qok], of b] bs by simp
  have b': "block_base ?b = block_base b" "nextDataPacketIndex ?b = Suc (nextDataPacketIndex b)" "block_ok ?b"
    using bok by (simp_all add: block_ok_def)
  have adv: "advance_head q = q\<lparr>blocks := ?b # bs, nextRtpSequenceNumber := nextRtpSequenceNumber q + 1\<rparr>"
    using bs by (simp add: advance_head_def)
  from consume_head [OF qok bs b refl b'] obtain q' where
    q': "use_up_head (advance_head q) = Some q'" "queue_ok q'" "set (blocks q') \<subseteq> set (?b # bs)"
    "nextRtpSequenceNumber q' = nextRtpSequenceNumber q + 1" "incompatibleServer q' = incompatibleServer q"
    "\<not> fresh q'" unfolding adv by blast
  have "C c" if "c \<in> set (blocks q')" for c
    using subsetD [OF q'(3) that] q bs index by (auto simp: ok_def)
  then have "ok q'" using q'(2) by (simp add: ok_def)
  moreover have "\<not> fresh q" using qok bs by (auto simp: queue_ok_def)
  ultimately show ?thesis using q' by (auto simp: given_out_def)
qed

lemma get_ready:
  assumes q: "ok q" and m: "\<And>b bs. blocks q = b # bs \<Longrightarrow> allowDiscontinuity b \<Longrightarrow> marks b ! nextDataPacketIndex b = 0"
  shows "\<exists>d q'. get_ready_packet a q = Some (d, q') \<and> ok q' \<and> incompatibleServer q' = incompatibleServer q
    \<and> (case d of Nothing \<Rightarrow> q' = q | Lost_packet \<Rightarrow> False | Queued p len \<Rightarrow> given_out q q' \<and> stored_packet q p len)"
proof -
  obtain r where r: "queueHasPacketReady q = Some r"
    "r \<longrightarrow> (\<exists>b bs. blocks q = b # bs \<and> block_base b = oldestRtpBaseSequenceNumber q
          \<and> (marks b ! nextDataPacketIndex b = 0 \<or> allowDiscontinuity b))" using ready_total [OF q] by blast
  show ?thesis
  proof (cases "r \<and> a")
    case False
    then show ?thesis using q r(1) by (auto simp: get_ready_packet_def)
  next
    case True
    then obtain b bs where b: "blocks q = b # bs" "block_base b = oldestRtpBaseSequenceNumber q"
      "marks b ! nextDataPacketIndex b = 0 \<or> allowDiscontinuity b" using r(2) by blast
    have qok: "queue_ok q" "C b" using q b(1) by (simp_all add: ok_def)
    note w = window_block [OF queue_ok_window [OF qok(1)], of b, unfolded b(1), simplified]
    let ?i = "nextDataPacketIndex b"
    have i: "?i < 4" "marks b ! ?i = 0" using w(5) b(3) m [OF b(1)] by auto
    have "of_nat ?i = nextRtpSequenceNumber q - oldestRtpBaseSequenceNumber q"
      using w(4) b(2) by (simp add: dist16_def)
    then have n: "nextRtpSequenceNumber q = block_base b + of_nat ?i" using b(2) by simp
    obtain q' where q': "use_up_head (advance_head q) = Some q'" "ok q'" "given_out q q'"
      "incompatibleServer q' = incompatibleServer q" using give_out_head [OF q b(1,2)] by blast
    have "get_ready_packet a q = Some (Queued (dataPackets b ! ?i) (blockSize b + 12), q')"
      using True r(1) b(1) i(1) w(1) q'(1) by (simp add: get_ready_packet_def block_ok_def)
    moreover have "stored_packet q (dataPackets b ! ?i) (blockSize b + 12)"
      using b(1) qok(2) w(1) i n unfolding stored_packet_def by force
    ultimately show ?thesis using q' by auto
  qed
qed

lemma get_packet:
  assumes q: "ok q"
  shows "\<exists>d q'. RtpaGetQueuedPacket a q = Some (d, q') \<and> ok q' \<and> incompatibleServer q' = incompatibleServer q
    \<and> (case d of Nothing \<Rightarrow> q' = q | Lost_packet \<Rightarrow> given_out q q' | Queued p len \<Rightarrow> given_out q q' \<and> stored_packet q p len)"
proof -
  have qok: "queue_ok q" and v: "validateFecBlockState q = Some ()" using q by (simp_all add: ok_def)
  have wrap: ?thesis if "RtpaGetQueuedPacket a q = get_ready_packet a q"
    "\<And>b bs. blocks q = b # bs \<Longrightarrow> allowDiscontinuity b \<Longrightarrow> marks b ! nextDataPacketIndex b = 0"
    using get_ready [OF q, of a] that by (fastforce split: queued.splits)
  show ?thesis
  proof (cases "blocks q")
    case Nil
    then show ?thesis using v by (intro wrap) (simp_all add: RtpaGetQueuedPacket_def)
  next
    case (Cons b bs)
    let ?o = "oldestRtpBaseSequenceNumber q" and ?n = "nextRtpSequenceNumber q"
    have w: "window ?o ?n (b # bs)" using queue_ok_window [OF qok] Cons by simp
    note b = window_block [OF w, of b, simplified]
    show ?thesis
    proof (cases "allowDiscontinuity b")
      case False
      then show ?thesis using v Cons by (intro wrap) (simp_all add: RtpaGetQueuedPacket_def)
    next
      case True
      have o': "block_base b = ?o" by (rule b(6) [OF True])
      have nu: "unat (block_base b) + nextDataPacketIndex b = unat ?n"
        using unat_base_index [of ?o ?n] w b(4) o' by (simp add: window_def)
      have i: "nextDataPacketIndex b < length (marks b)" using b(1,5) by (simp add: block_ok_def)
      show ?thesis
      proof (cases "marks b ! nextDataPacketIndex b = 0")
        case False
        obtain q' where q': "use_up_head (advance_head q) = Some q'" "ok q'" "given_out q q'"
          "incompatibleServer q' = incompatibleServer q" using give_out_head [OF q Cons o'] by blast
        have "RtpaGetQueuedPacket a q = (if a then Some (Lost_packet, q') else Some (Nothing, q))"
          using v Cons True nu i False q'(1) by (simp add: RtpaGetQueuedPacket_def uint_index)
        then show ?thesis using q q' by (cases a) auto
      next
        case mark: True
        have "queueHasPacketReady q = Some True"
          using v Cons i True by (simp add: queueHasPacketReady_def head_ready_def)
        moreover have "use_up_head q = Some q"
          using v Cons b(5) by (simp add: use_up_head_def shard_consts)
        ultimately have "RtpaGetQueuedPacket a q = get_ready_packet a q"
          using v Cons True nu i mark by (simp add: RtpaGetQueuedPacket_def uint_index)
        then show ?thesis by (rule wrap) (use Cons mark in simp)
      qed
    qed
  qed
qed

end

section \<open>Histories\<close>

text \<open>The order of the queue does not depend on the contents of packets.\<close>

interpretation any_content: block_content dur "\<lambda>_. True" "\<lambda>_ _. True" for dur
  by unfold_locales simp_all

datatype audio_op = Add_packet audio_env rtp_packet u16 | Get_packet bool

text \<open>The sequence numbers given to the caller, with the packet or a gap.\<close>

definition audio_step :: "u32 \<Rightarrow> audio_op \<Rightarrow> audio_queue \<Rightarrow> ((u16 \<times> rtp_packet option) list \<times> audio_queue) option" where
  "audio_step dur op q =
     (case op of
        Add_packet e p len \<Rightarrow> do {
          (r, q') \<leftarrow> RtpaAddPacket dur e q p len;
          Some (if r = RTPQ_RET_HANDLE_NOW
                then [(sequenceNumber p, Some (p\<lparr>payload := take (unat len - 12) (payload p)\<rparr>))] else [], q') }
      | Get_packet a \<Rightarrow> do {
          (d, q') \<leftarrow> RtpaGetQueuedPacket a q;
          Some (case d of Nothing \<Rightarrow> [] | Lost_packet \<Rightarrow> [(nextRtpSequenceNumber q, None)]
                | Queued p len \<Rightarrow> [(nextRtpSequenceNumber q, Some p)], q') })"

fun audio_run :: "u32 \<Rightarrow> audio_op list \<Rightarrow> audio_queue \<Rightarrow> ((u16 \<times> rtp_packet option) list \<times> audio_queue) option" where
  "audio_run dur [] q = Some ([], q)"
| "audio_run dur (op # ops) q = do {
     (ds, q') \<leftarrow> audio_step dur op q;
     (ds', q'') \<leftarrow> audio_run dur ops q';
     Some (ds @ ds', q'') }"

text \<open>
  What the network may deliver: packets inside their buffers, and while the queue synchronizes
  none of the block with base 0 (see the last section for why).
\<close>

definition admissible :: "(rtp_packet \<Rightarrow> u16 \<Rightarrow> bool) \<Rightarrow> audio_queue \<Rightarrow> audio_op \<Rightarrow> bool" where
  "admissible A q op \<longleftrightarrow>
     (case op of
        Add_packet e p len \<Rightarrow> A p len \<and> in_buffer p len \<and> (synchronizing q \<longrightarrow> packet_base p \<noteq> 0)
      | Get_packet a \<Rightarrow> True)"

fun admissible_run :: "u32 \<Rightarrow> (rtp_packet \<Rightarrow> u16 \<Rightarrow> bool) \<Rightarrow> audio_op list \<Rightarrow> audio_queue \<Rightarrow> bool" where
  "admissible_run dur A [] q = True"
| "admissible_run dur A (op # ops) q \<longleftrightarrow> admissible A q op
     \<and> (case audio_step dur op q of None \<Rightarrow> True | Some (ds, q') \<Rightarrow> admissible_run dur A ops q')"

context block_content
begin

lemma step_ok:
  assumes "ok q" "admissible A q op"
  shows "\<exists>ds q'. audio_step dur op q = Some (ds, q') \<and> ok q'
    \<and> (incompatibleServer q' \<or> \<not> incompatibleServer q
        \<and> (ds = [] \<and> (fresh q \<or> stayed q q' \<or> jumped q q')
           \<or> (\<exists>x. ds = [(nextRtpSequenceNumber q, x)]) \<and> given_out q q'))
    \<and> (\<forall>(s, x) \<in> set ds. \<forall>p. x = Some p \<longrightarrow>
         (\<exists>e p' len. op = Add_packet e p' len \<and> A p' len \<and> packetType p' = RTP_PAYLOAD_TYPE_AUDIO
            \<and> s = sequenceNumber p' \<and> p = p'\<lparr>payload := take (unat len - 12) (payload p')\<rparr>)
       \<or> (s = nextRtpSequenceNumber q \<and> (\<exists>len. stored_packet q p len)))"
proof (cases op)
  case (Add_packet e p len)
  then have "may_come q p len" using assms(2) by (simp add: admissible_def may_come_def)
  from add_packet [OF assms(1) this, of e] obtain r q' where
    r: "RtpaAddPacket dur e q p len = Some (r, q')" "ok q'"
    "incompatibleServer q' \<or> \<not> incompatibleServer q
        \<and> (if r = RTPQ_RET_HANDLE_NOW then given_out q q' \<and> sequenceNumber p = nextRtpSequenceNumber q
           else fresh q \<or> stayed q q' \<or> jumped q q')"
    "r = RTPQ_RET_HANDLE_NOW \<longrightarrow> packetType p = RTP_PAYLOAD_TYPE_AUDIO" by blast
  have "A p len" using assms(2) Add_packet by (simp add: admissible_def)
  then show ?thesis using r Add_packet by (auto simp: audio_step_def)
next
  case (Get_packet a)
  from get_packet [OF assms(1), of a] obtain d q' where
    d: "RtpaGetQueuedPacket a q = Some (d, q')" "ok q'" "incompatibleServer q' = incompatibleServer q"
    "case d of Nothing \<Rightarrow> q' = q | Lost_packet \<Rightarrow> given_out q q' | Queued p len \<Rightarrow> given_out q q' \<and> stored_packet q p len"
    by blast
  then show ?thesis using Get_packet by (cases d) (auto simp: audio_step_def stayed_def)
qed

lemma run_safe:
  assumes "ok q" "admissible_run dur A ops q"
  shows "\<exists>ds q'. audio_run dur ops q = Some (ds, q') \<and> ok q' \<and> (incompatibleServer q \<longrightarrow> incompatibleServer q')"
  using assms
proof (induction ops arbitrary: q)
  case (Cons op ops)
  from step_ok [of q op] Cons.prems obtain ds q' where
    s: "audio_step dur op q = Some (ds, q')" "ok q'" "incompatibleServer q' \<or> \<not> incompatibleServer q" by auto
  moreover have "admissible_run dur A ops q'" using Cons.prems s(1) by simp
  ultimately show ?case using Cons.IH [of q'] by fastforce
qed simp

text \<open>The last sequence number given out is behind the next one, by one unless at a block's start.\<close>

definition follows :: "u16 \<Rightarrow> audio_queue \<Rightarrow> bool" where
  "follows s q \<longleftrightarrow> \<not> fresh q \<and> isBefore16 s (nextRtpSequenceNumber q)
     \<and> (anchored q \<or> nextRtpSequenceNumber q = s + 1)"

lemma follows_step:
  assumes f: "follows s q" and st: "stayed q q' \<or> jumped q q'" and q: "ok q'"
  shows "follows s q'"
  using st
proof
  assume st: "stayed q q'"
  have "anchored q' \<or> nextRtpSequenceNumber q' = s + 1" using f st by (auto simp: follows_def stayed_def)
  then show ?thesis using f st by (simp add: follows_def stayed_def)
next
  assume j: "jumped q q'"
  then have n: "nextRtpSequenceNumber q = s + 1" using f by (auto simp: follows_def jumped_def)
  have d: "dist16 (s + 1) (nextRtpSequenceNumber q') < 32768" using j n by (simp add: jumped_def)
  have s1: "dist16 s (s + 1) = 1" by (simp add: dist16_def)
  have "dist16 s (nextRtpSequenceNumber q') = 1 + dist16 (s + 1) (nextRtpSequenceNumber q')"
    using s16.dist_add [of s "nextRtpSequenceNumber q'" "s + 1"] s1 d by simp
  then show ?thesis using j d by (simp add: follows_def jumped_def isBefore16_ahead)
qed

lemma run_ordered:
  assumes "ok q" "admissible_run dur A ops q" "audio_run dur ops q = Some (ds, q')" "\<not> incompatibleServer q'"
  shows "successively isBefore16 (map fst ds)
    \<and> (\<forall>s. follows s q \<longrightarrow> ds \<noteq> [] \<longrightarrow> isBefore16 s (fst (hd ds)))"
  using assms
proof (induction ops arbitrary: q ds)
  case (Cons op ops)
  from step_ok [of q op] Cons.prems(1,2) obtain ds1 q1 where
    s: "audio_step dur op q = Some (ds1, q1)" "ok q1"
    "incompatibleServer q1 \<or> \<not> incompatibleServer q
        \<and> (ds1 = [] \<and> (fresh q \<or> stayed q q1 \<or> jumped q q1)
           \<or> (\<exists>x. ds1 = [(nextRtpSequenceNumber q, x)]) \<and> given_out q q1)" by auto
  have adm: "admissible_run dur A ops q1" using Cons.prems(2) s(1) by simp
  from run_safe [OF s(2) adm] obtain ds2 where
    r: "audio_run dur ops q1 = Some (ds2, q')" "ds = ds1 @ ds2" "incompatibleServer q1 \<longrightarrow> incompatibleServer q'"
    using Cons.prems(3) s(1) by auto
  then have ni: "\<not> incompatibleServer q1" using Cons.prems(4) by blast
  note ih = Cons.IH [OF s(2) adm r(1) Cons.prems(4)]
  consider (silent) "ds1 = []" "fresh q \<or> stayed q q1 \<or> jumped q q1"
    | (out) x where "ds1 = [(nextRtpSequenceNumber q, x)]" "given_out q q1" using s(3) ni by blast
  then show ?case
  proof cases
    case silent
    have "follows s q1" if "follows s q" for s
      using that silent(2) follows_step [OF that _ s(2)] by (auto simp: follows_def)
    then show ?thesis using ih r(2) silent(1) by auto
  next
    case out
    have "dist16 (nextRtpSequenceNumber q) (nextRtpSequenceNumber q + 1) = 1" by (simp add: dist16_def)
    then have "follows (nextRtpSequenceNumber q) q1"
      using out(2) by (simp add: follows_def given_out_def isBefore16_ahead)
    then have "ds2 \<noteq> [] \<longrightarrow> isBefore16 (nextRtpSequenceNumber q) (fst (hd ds2))" using ih by blast
    then show ?thesis
      using ih r(2) out(1) by (cases ds2) (auto simp: follows_def)
  qed
qed simp

end

section \<open>The contents: what the sender sent\<close>

text \<open>
  A sender is described by its data packets, by sequence number, and its parity shards, by base
  and index.  It is a proper sender when every block of four payloads and two parity shards is
  a codeword of the audio code and the headers count up inside a block.
\<close>

record audio_sender =
  sent :: "u16 \<Rightarrow> rtp_packet"
  sent_parity :: "u16 \<Rightarrow> nat \<Rightarrow> u8 list"

definition sent_shard :: "audio_sender \<Rightarrow> u16 \<Rightarrow> nat \<Rightarrow> u8 list" where
  "sent_shard S base r = (if r < 4 then payload (sent S (base + of_nat r)) else sent_parity S base (r - 4))"

definition proper_sender :: "u32 \<Rightarrow> audio_sender \<Rightarrow> bool" where
  "proper_sender dur S \<longleftrightarrow>
     (\<forall>s. rtp_header (sent S s) = 0x80 \<and> packetType (sent S s) = RTP_PAYLOAD_TYPE_AUDIO \<and> sequenceNumber (sent S s) = s)
   \<and> (\<forall>base. unat base mod 4 = 0 \<longrightarrow>
        (\<forall>i < 4. timestamp (sent S (base + of_nat i)) = timestamp (sent S base) + of_nat i * dur
               \<and> ssrc (sent S (base + of_nat i)) = ssrc (sent S base))
      \<and> (\<forall>r < 6. length (sent_shard S base r) = length (payload (sent S base)))
      \<and> (\<forall>j < 2. \<forall>i < length (payload (sent S base)). gf (sent_shard S base (4 + j) ! i)
            = (\<Sum>c < 4. gf (parity_override ! j ! c) * gf (sent_shard S base c ! i))))"

lemma proper_senderD:
  assumes "proper_sender dur S"
  shows "rtp_header (sent S s) = 0x80" "packetType (sent S s) = RTP_PAYLOAD_TYPE_AUDIO" "sequenceNumber (sent S s) = s"
    "unat base mod 4 = 0 \<Longrightarrow> i < 4 \<Longrightarrow> timestamp (sent S (base + of_nat i)) = timestamp (sent S base) + of_nat i * dur"
    "unat base mod 4 = 0 \<Longrightarrow> i < 4 \<Longrightarrow> ssrc (sent S (base + of_nat i)) = ssrc (sent S base)"
    "unat base mod 4 = 0 \<Longrightarrow> r < 6 \<Longrightarrow> length (sent_shard S base r) = length (payload (sent S base))"
  using assms by (auto simp: proper_sender_def)

lemma sent_codeword:
  assumes "proper_sender dur S" "audio_rs rs" "unat base mod 4 = 0"
  shows "codeword rs (length (payload (sent S base))) (sent_shard S base)"
proof -
  have rs: "rs_ok rs" "data_shards rs = 4" "shards rs = 6" "drop 4 (rs_m rs) = parity_override" "length (rs_m rs) = 6"
    using assms(2) by (auto simp: audio_rs_def rs_ok_def)
  have id: "\<And>i j. i < 4 \<Longrightarrow> j < 4 \<Longrightarrow> ent (rs_m rs) i j = (if i = j then 1 else 0)"
    using rs(1,2) by (simp add: rs_ok_def)
  have row: "gf (sent_shard S base r ! b) = combination 4 (ent (rs_m rs) r) (sent_shard S base) b"
    if r: "r < 6" and b: "b < length (payload (sent S base))" for r b
  proof (cases "r < 4")
    case True
    have "ent (rs_m rs) r c * gf (sent_shard S base c ! b) = (if r = c then gf (sent_shard S base c ! b) else 0)"
      if "c < 4" for c using id [OF True that] by simp
    then have "combination 4 (ent (rs_m rs) r) (sent_shard S base) b
        = (\<Sum>c < 4. if r = c then gf (sent_shard S base c ! b) else 0)"
      unfolding combination_def by (intro sum.cong) simp_all
    then show ?thesis using True by simp
  next
    case False
    then have r': "4 + (r - 4) = r" "r - 4 < 2" using r by auto
    have "drop 4 (rs_m rs) ! (r - 4) = rs_m rs ! (4 + (r - 4))" by (rule nth_drop) (simp add: rs(5))
    then have "rs_m rs ! r = parity_override ! (r - 4)" unfolding rs(4) r'(1) by simp
    moreover have "gf (sent_shard S base (4 + (r - 4)) ! b)
        = (\<Sum>c < 4. gf (parity_override ! (r - 4) ! c) * gf (sent_shard S base c ! b))"
      using assms(1) [unfolded proper_sender_def, THEN conjunct2, rule_format, OF assms(3)] r'(2) b by blast
    ultimately show ?thesis unfolding r'(1) combination_def ent_def by simp
  qed
  show ?thesis unfolding codeword_def rs(2,3)
    using row proper_senderD(6) [OF assms(1,3)] by simp
qed

text \<open>A received packet is one of the sender's.\<close>

definition from_sender :: "audio_sender \<Rightarrow> rtp_packet \<Rightarrow> u16 \<Rightarrow> bool" where
  "from_sender S p len \<longleftrightarrow> in_buffer p len
     \<and> (packetType p = RTP_PAYLOAD_TYPE_AUDIO \<longrightarrow> 12 \<le> unat len
          \<and> p\<lparr>payload := take (unat len - 12) (payload p)\<rparr> = sent S (sequenceNumber p))
     \<and> (packetType p = RTP_PAYLOAD_TYPE_FEC \<longrightarrow> (\<forall>h. read_fec_header p = Some h \<longrightarrow>
            payloadType h = RTP_PAYLOAD_TYPE_AUDIO \<and> baseTimestamp h = timestamp (sent S (packet_base p))
          \<and> fec_ssrc h = ssrc (sent S (packet_base p))
          \<and> unat len - 24 = length (payload (sent S (packet_base p)))
          \<and> (fecShardIndex h < 2 \<longrightarrow> take (unat len - 24) (drop 12 (payload p))
               = sent_parity S (packet_base p) (unat (fecShardIndex h)))))"

definition faithful :: "audio_sender \<Rightarrow> fec_block \<Rightarrow> bool" where
  "faithful S b \<longleftrightarrow> payloadType (fecHeader b) = RTP_PAYLOAD_TYPE_AUDIO
     \<and> baseTimestamp (fecHeader b) = timestamp (sent S (block_base b))
     \<and> fec_ssrc (fecHeader b) = ssrc (sent S (block_base b))
     \<and> unat (blockSize b) = length (payload (sent S (block_base b)))
     \<and> (\<forall>i < 4. marks b ! i = 0 \<longrightarrow> dataPackets b ! i = sent S (block_base b + of_nat i))
     \<and> (\<not> fullyReassembled b \<longrightarrow> (\<forall>k < 2. marks b ! (4 + k) = 0 \<longrightarrow> fecPackets b ! k = sent_parity S (block_base b) k))"

lemma faithful_complete:
  assumes S: "proper_sender dur S" and b: "faithful S b" "block_ok b" "\<not> fullyReassembled b" and rs: "audio_rs rs"
    and run: "completeFecBlock dur rs b = Some (True, b')"
  shows "faithful S (b'\<lparr>fullyReassembled := True\<rparr>)"
    "i < 4 \<Longrightarrow> marks b' ! i = 0" "i < 4 \<Longrightarrow> dataPackets b' ! i = sent S (block_base b + of_nat i)"
proof -
  let ?s = "block_base b"
  have ok: "length (dataPackets b) = 4" "length (fecPackets b) = 2" "length (marks b) = 6" "unat ?s mod 4 = 0"
    "\<And>i. i < 4 \<Longrightarrow> length (payload (dataPackets b ! i)) = unat (blockSize b)"
    "dataShardsReceived b = length (filter (\<lambda>i. marks b ! i = 0) [0..<4])"
    "fecShardsReceived b = length (filter (\<lambda>k. marks b ! (4 + k) = 0) [0..<2])"
    using b(2,3) unfolding block_ok_def by blast+
  have f: "payloadType (fecHeader b) = RTP_PAYLOAD_TYPE_AUDIO" "baseTimestamp (fecHeader b) = timestamp (sent S ?s)"
    "fec_ssrc (fecHeader b) = ssrc (sent S ?s)" "unat (blockSize b) = length (payload (sent S ?s))"
    "\<And>i. i < 4 \<Longrightarrow> marks b ! i = 0 \<Longrightarrow> dataPackets b ! i = sent S (?s + of_nat i)"
    "\<And>k. k < 2 \<Longrightarrow> marks b ! (4 + k) = 0 \<Longrightarrow> fecPackets b ! k = sent_parity S ?s k"
    using b(1,3) unfolding faithful_def by blast+
  have *: "block_base b' = ?s \<and> fecHeader b' = fecHeader b \<and> blockSize b' = blockSize b
    \<and> (\<forall>i < 4. marks b' ! i = 0 \<and> dataPackets b' ! i = sent S (?s + of_nat i))"
  proof (cases "dataShardsReceived b = 4")
    case True
    then have b': "b' = b" using run by (simp add: completeFecBlock_def shard_consts)
    have "filter (\<lambda>i. marks b ! i = 0) [0..<4] = [0..<4]"
      using True ok(6) by (metis filter_id_conv length_filter_less length_upt diff_zero nat_neq_iff)
    then have "\<forall>i < 4. marks b ! i = 0" by (simp add: filter_id_conv)
    then show ?thesis using f(5) b' by simp
  next
    case False
    let ?store = "map payload (dataPackets b) @ fecPackets b"
    have ds: "data_shards rs = 4" "parity_shards rs = 2" "shards rs = 6" "rs_ok rs"
      using rs by (simp_all add: audio_rs_def)
    have le: "dataShardsReceived b \<le> 4"
      unfolding ok(6) using length_filter_le [of "\<lambda>i. marks b ! i = 0" "[0..<4]"] by simp
    have four: "4 \<le> dataShardsReceived b + fecShardsReceived b"
      using run by (auto simp: completeFecBlock_def shard_consts split: if_splits)
    have "length (lost_data rs (marks b)) + dataShardsReceived b = 4"
      "length (good_parity rs (marks b)) = fecShardsReceived b"
      unfolding lost_data_def good_parity_def ok(6,7) ds
      using sum_length_filter_compl [of "\<lambda>i. marks b ! i = 0" "[0..<4]"] by simp_all
    then have enough: "length (lost_data rs (marks b)) \<le> length (good_parity rs (marks b))" using four by simp
    have rec: "received rs (unat (blockSize b)) (sent_shard S ?s) (marks b) ?store"
      unfolding received_def ds
    proof (intro conjI allI impI)
      show "length ?store = 6" using ok by simp
      fix i :: nat
      show "i < 4 \<Longrightarrow> length (?store ! i) = unat (blockSize b)" using ok(1,5) by (simp add: nth_append)
      assume i: "i < 6" "marks b ! i = 0"
      show "?store ! i = sent_shard S ?s i"
      proof (cases "i < 4")
        case True
        then show ?thesis using ok(1) f(5) i by (simp add: nth_append sent_shard_def)
      next
        case False
        then have "i - 4 < 2" "4 + (i - 4) = i" using i(1) by auto
        then show ?thesis using False ok(1) f(6) [of "i - 4"] i(2) by (simp add: nth_append sent_shard_def)
      qed
    qed
    have cw: "codeword rs (unat (blockSize b)) (sent_shard S ?s)" using sent_codeword [OF S rs ok(4)] f(4) by simp
    obtain out where out: "reed_solomon_reconstruct rs ?store (marks b) 6 (unat (blockSize b)) = (0, out)"
      "\<forall>i < 4. out ! i = sent_shard S ?s i"
      using reconstruct_recovers [OF ds(4) cw rec enough] unfolding ds by blast
    have b': "b' = b\<lparr>dataPackets := map (\<lambda>i. if marks b ! i \<noteq> 0 then recovered_packet dur b i (out ! i)
                                              else (dataPackets b ! i)\<lparr>payload := out ! i\<rparr>) [0..<4],
                        fecPackets := drop 4 out,
                        marks := map (\<lambda>i. if i < 4 then 0 else marks b ! i) [0..<6]\<rparr>"
      using run False le four out(1) by (simp add: completeFecBlock_def shard_consts)
    have "dataPackets b' ! i = sent S (?s + of_nat i)" if i: "i < 4" for i
    proof (cases "marks b ! i = 0")
      case True
      have "out ! i = payload (sent S (?s + of_nat i))" using out(2) i by (simp add: sent_shard_def)
      then show ?thesis using f(5) [OF i True] True i b' by simp
    next
      case False
      have "recovered_packet dur b i (out ! i) = sent S (?s + of_nat i)"
        using out(2) i f(1-3) proper_senderD(1-3) [OF S, of "?s + of_nat i"]
          proper_senderD(4,5) [OF S ok(4) i]
        by (intro rtp_packet.equality) (simp_all add: recovered_packet_def sent_shard_def)
      then show ?thesis using False i b' by simp
    qed
    moreover have "marks b' ! i = 0" if "i < 4" for i using that b' by simp
    ultimately show ?thesis using b' by simp
  qed
  then show "faithful S (b'\<lparr>fullyReassembled := True\<rparr>)" using f(1-4) by (simp add: faithful_def)
  show "i < 4 \<Longrightarrow> marks b' ! i = 0" "i < 4 \<Longrightarrow> dataPackets b' ! i = sent S (?s + of_nat i)" using * by simp_all
qed

lemma sender_packet_at:
  assumes S: "proper_sender dur S" and p: "from_sender S p len" and ty: "packetType p = RTP_PAYLOAD_TYPE_AUDIO"
  shows "\<exists>i < 4. sequenceNumber p = packet_base p + of_nat i \<and> unat (packet_base p) mod 4 = 0
    \<and> unat (sequenceNumber p - packet_base p) = i
    \<and> ssrc p = ssrc (sent S (packet_base p))
    \<and> timestamp p - ucast (sequenceNumber p - packet_base p) * dur = timestamp (sent S (packet_base p))
    \<and> unat len - 12 = length (payload (sent S (packet_base p)))"
proof -
  let ?s = "sequenceNumber p" and ?b = "packet_base p"
  have b: "?b = ?s div 4 * 4" using ty by (simp add: packet_base_def)
  then have m: "unat ?b mod 4 = 0" by simp
  define i where "i = unat (?s - ?b)"
  have i: "i < 4" by (simp add: i_def b align4_offset)
  have s: "?s = ?b + of_nat i" by (simp add: i_def)
  have buf: "unat len - 12 \<le> length (payload p)" and
    pk: "p\<lparr>payload := take (unat len - 12) (payload p)\<rparr> = sent S ?s"
    using p ty by (simp_all add: from_sender_def in_buffer_def)
  have 1: "ssrc p = ssrc (sent S ?s)" "timestamp p = timestamp (sent S ?s)"
    "length (payload (sent S ?s)) = unat len - 12"
    using buf by (simp_all flip: pk)
  have "length (sent_shard S ?b i) = length (payload (sent S ?b))"
    by (rule proper_senderD(6) [OF S m]) (use i in simp)
  then have 2: "length (payload (sent S ?s)) = length (payload (sent S ?b))"
    using i by (simp add: sent_shard_def flip: s)
  have 3: "ssrc (sent S ?s) = ssrc (sent S ?b)" "timestamp (sent S ?s) = timestamp (sent S ?b) + of_nat i * dur"
    using proper_senderD(4,5) [OF S m i, folded s] by simp_all
  have 4: "ucast (?s - ?b) = (of_nat i :: u32)" unfolding i_def by simp
  have 5: "timestamp p - ucast (?s - ?b) * dur = timestamp (sent S ?b)" unfolding 4 1(2) 3(2) by simp
  have 6: "ssrc p = ssrc (sent S ?b)" unfolding 1(1) 3(1) ..
  have 7: "unat len - 12 = length (payload (sent S ?b))" using 1(3) 2 by linarith
  show ?thesis by (intro exI [of _ i] conjI) (rule i s m i_def [symmetric] 5 6 7)+
qed

lemma block_content_faithful:
  assumes S: "proper_sender dur S"
  shows "block_content dur (faithful S) (from_sender S)"
proof
  fix p len q h sz q' e
  assume p: "from_sender S p len" and h: "packet_fec_header dur q p len = Some (Some (h, sz), q')"
  have spec: "fits p len sz" "baseSequenceNumber h = packet_base p" "unat (packet_base p) mod 4 = 0"
    using packet_fec_header_spec [of p len dur q] h p by (auto simp: from_sender_def)
  have "payloadType h = RTP_PAYLOAD_TYPE_AUDIO \<and> baseTimestamp h = timestamp (sent S (packet_base p))
      \<and> fec_ssrc h = ssrc (sent S (packet_base p)) \<and> unat sz = length (payload (sent S (packet_base p)))"
  proof (cases "packetType p = RTP_PAYLOAD_TYPE_AUDIO")
    case True
    then have "h = data_fec_header dur p" "unat sz = unat len - 12"
      using h spec(1) by (auto simp: packet_fec_header_def fits_def split: if_splits)
    then show ?thesis
      using sender_packet_at [OF S p True] True
      by (auto simp: data_fec_header_def Let_def packet_base_def shard_consts)
  next
    case False
    then have ty: "packetType p = RTP_PAYLOAD_TYPE_FEC" "unat sz = unat len - 24" using spec(1) by (auto simp: fits_def)
    obtain h0 where h0: "read_fec_header p = Some h0" using spec(1) ty(1) by (auto simp: fits_def)
    then have "h = h0\<lparr>fecShardIndex := 0\<rparr>" using h ty(1) by (auto simp: packet_fec_header_def split: if_splits)
    then show ?thesis using p ty h0 by (simp add: from_sender_def)
  qed
  then show "faithful S (new_block e h sz)"
    using spec(2) by (auto simp: faithful_def new_block_def shard_consts nth_append)
next
  fix p len b b'
  assume p: "from_sender S p len" and ty: "packetType p = RTP_PAYLOAD_TYPE_AUDIO" and buf: "in_buffer p len"
    and fit: "fits p len (blockSize b)" and b: "faithful S b" "block_ok b" "\<not> fullyReassembled b"
    and base: "block_base b = packet_base p"
    and st: "store_data p len (unat (sequenceNumber p - block_base b)) b = Some (Some b')"
  obtain i where i: "i < 4" "sequenceNumber p = packet_base p + of_nat i" "unat (sequenceNumber p - packet_base p) = i"
    using sender_packet_at [OF S p ty] by blast
  have sz: "unat len - 12 = unat (blockSize b)" using fit ty by (auto simp: fits_def)
  have bufl: "unat len - 12 \<le> length (payload p)" using buf by (simp add: in_buffer_def)
  have pk: "p\<lparr>payload := take (unat len - 12) (payload p)\<rparr> = sent S (packet_base p + of_nat i)"
    using p ty i(2) by (simp add: from_sender_def)
  have b': "b' = b\<lparr>dataPackets := (dataPackets b)[i := sent S (packet_base p + of_nat i)],
      marks := (marks b)[i := 0], dataShardsReceived := dataShardsReceived b + 1\<rparr>"
    using st store_data_ok [OF b(2,3) i(1) bufl sz] base i(3) pk by (auto split: if_splits)
  have l: "length (dataPackets b) = 4" "length (marks b) = 6" using b(2) by (simp_all add: block_ok_def)
  have "dataPackets b' ! j = sent S (block_base b + of_nat j)" if "j < 4" "marks b' ! j = 0" for j
    using that b(1) l base unfolding faithful_def b' by (cases "j = i") simp_all
  moreover have "fecPackets b' ! k = sent_parity S (block_base b) k" if "k < 2" "marks b' ! (4 + k) = 0" for k
    using that b(1,3) i(1) unfolding faithful_def b' by simp
  ultimately show "faithful S b'" using b(1) by (simp add: faithful_def b')
next
  fix p len b h b'
  assume p: "from_sender S p len" and ty: "packetType p = RTP_PAYLOAD_TYPE_FEC" and buf: "in_buffer p len"
    and fit: "fits p len (blockSize b)" and b: "faithful S b" "block_ok b" "\<not> fullyReassembled b"
    and base: "block_base b = packet_base p" and h: "read_fec_header p = Some h"
    and st: "store_fec p len (unat (fecShardIndex h)) b = Some (Some b')"
  let ?k = "unat (fecShardIndex h)"
  have sz: "24 \<le> unat len" "unat len - 24 = unat (blockSize b)" "fecShardIndex h < 2"
    using fit ty h by (auto simp: fits_def)
  have k: "?k < 2" using sz(3) by (simp add: word_less_nat_alt)
  have bufl: "unat len - 12 \<le> length (payload p)" using buf by (simp add: in_buffer_def)
  have pk: "take (unat len - 24) (drop 12 (payload p)) = sent_parity S (packet_base p) ?k"
    using p ty h sz(3) unfolding from_sender_def by blast
  have b': "b' = b\<lparr>fecPackets := (fecPackets b)[?k := sent_parity S (packet_base p) ?k],
      marks := (marks b)[4 + ?k := 0], fecShardsReceived := fecShardsReceived b + 1\<rparr>"
    using st store_fec_ok [OF b(2,3) k bufl sz(1,2)] pk by (auto split: if_splits)
  have l: "length (fecPackets b) = 2" "length (marks b) = 6" using b(2) by (simp_all add: block_ok_def)
  have "dataPackets b' ! j = sent S (block_base b + of_nat j)" if "j < 4" "marks b' ! j = 0" for j
    using that b(1) unfolding faithful_def b' by simp
  moreover have "fecPackets b' ! j = sent_parity S (block_base b) j" if "j < 2" "marks b' ! (4 + j) = 0" for j
    using that b(1,3) l base unfolding faithful_def b' by (cases "j = ?k") simp_all
  ultimately show "faithful S b'" using b(1) by (simp add: faithful_def b')
next
  fix b rs b'
  assume "faithful S b" "block_ok b" "\<not> fullyReassembled b" "audio_rs rs" "completeFecBlock dur rs b = Some (True, b')"
  then show "faithful S (b'\<lparr>fullyReassembled := True\<rparr>)" by (rule faithful_complete(1) [OF S])
qed (simp_all add: faithful_def)

context block_content
begin

lemma run_contents:
  assumes "ok q" "admissible_run dur A ops q" "audio_run dur ops q = Some (ds, q')" "(s, Some p) \<in> set ds"
  shows "(\<exists>p' len. A p' len \<and> packetType p' = RTP_PAYLOAD_TYPE_AUDIO \<and> s = sequenceNumber p'
            \<and> p = p'\<lparr>payload := take (unat len - 12) (payload p')\<rparr>)
    \<or> (\<exists>q1 len. s = nextRtpSequenceNumber q1 \<and> stored_packet q1 p len)"
  using assms
proof (induction ops arbitrary: q ds)
  case (Cons op ops)
  from step_ok [of q op] Cons.prems(1,2) obtain ds1 q1 where
    s: "audio_step dur op q = Some (ds1, q1)" "ok q1"
    "\<forall>(s, x) \<in> set ds1. \<forall>p. x = Some p \<longrightarrow>
         (\<exists>e p' len. op = Add_packet e p' len \<and> A p' len \<and> packetType p' = RTP_PAYLOAD_TYPE_AUDIO
            \<and> s = sequenceNumber p' \<and> p = p'\<lparr>payload := take (unat len - 12) (payload p')\<rparr>)
       \<or> (s = nextRtpSequenceNumber q \<and> (\<exists>len. stored_packet q p len))" by auto
  have adm: "admissible_run dur A ops q1" using Cons.prems(2) s(1) by simp
  obtain ds2 where r: "audio_run dur ops q1 = Some (ds2, q')" "ds = ds1 @ ds2"
    using run_safe [OF s(2) adm] Cons.prems(3) s(1) by auto
  show ?case
  proof (cases "(s, Some p) \<in> set ds1")
    case True
    from bspec [OF s(3) True] show ?thesis by auto
  next
    case False
    then show ?thesis using Cons.IH [OF s(2) adm r(1)] Cons.prems(4) r(2) by simp
  qed
qed simp

end

lemma initial_ok:
  assumes "RtpaInitializeQueue v (\<lambda>_. True) = Some q"
  shows "queue_ok q" "blocks q = []"
  using RtpaInitializeQueue_ready [of v] assms by (auto simp: queue_ok_def window_def)

section \<open>The theorems of the queue\<close>



text \<open>
  Property C3.  What is given out is what was sent.  If the received packets are a proper sender's, lost,
  duplicated and reordered at will, then every packet handed to the caller, received or
  recovered from parity shards, equals in header and payload the sender's packet of that
  sequence number.
\<close>

theorem audio_delivers_sent:
  assumes "RtpaInitializeQueue v (\<lambda>_. True) = Some q" "proper_sender dur S"
    and "admissible_run dur (from_sender S) ops q" "audio_run dur ops q = Some (ds, q')" "(s, Some p) \<in> set ds"
  shows "p = sent S s"
proof -
  note bc = block_content_faithful [OF assms(2)]
  have "block_content.ok (faithful S) q"
    using initial_ok [OF assms(1)] by (simp add: block_content.ok_def [OF bc])
  from block_content.run_contents [OF bc this assms(3-5)] show ?thesis
  proof (elim disjE exE conjE)
    fix p' len
    assume "from_sender S p' len" "packetType p' = RTP_PAYLOAD_TYPE_AUDIO" "s = sequenceNumber p'"
      "p = p'\<lparr>payload := take (unat len - 12) (payload p')\<rparr>"
    then show ?thesis by (simp add: from_sender_def)
  next
    fix q1 len
    assume s: "s = nextRtpSequenceNumber q1" and "block_content.stored_packet (faithful S) q1 p len"
    then obtain b i where "faithful S b" "i < 4" "marks b ! i = 0"
      "nextRtpSequenceNumber q1 = block_base b + of_nat i" "p = dataPackets b ! i"
      unfolding block_content.stored_packet_def [OF bc] by blast
    then show ?thesis using s by (simp add: faithful_def)
  qed
qed

section \<open>A concrete stream\<close>

text \<open>A sender of silence, and its packets 4, 8, 10 and 9 in that order.\<close>

definition silence :: audio_sender where
  "silence = \<lparr>sent = \<lambda>s. \<lparr>rtp_header = 0x80, packetType = 97, sequenceNumber = s, timestamp = 0, ssrc = 0, payload = replicate 2 0\<rparr>,
              sent_parity = \<lambda>_ _. replicate 2 0\<rparr>"

lemma silence_proper: "proper_sender 0 silence"
  by (auto simp: proper_sender_def silence_def sent_shard_def RTP_PAYLOAD_TYPE_AUDIO_def gf_simps less_2_cases_iff)

interpretation silent: block_content 0 "faithful silence" "from_sender silence"
  by (rule block_content_faithful [OF silence_proper])

definition quiet_env :: audio_env where
  "quiet_env = \<lparr>env_alloc = True, env_header = (\<lambda>_. sent silence 0), env_byte = (\<lambda>_ _. 0), env_now = 0, env_later = 0\<rparr>"

definition silent_packet :: "u16 \<Rightarrow> audio_op" where
  "silent_packet s = Add_packet quiet_env (sent silence s) 14"

definition silent_ops :: "audio_op list" where
  "silent_ops = [silent_packet 4, silent_packet 8, silent_packet 10, silent_packet 9, Get_packet True]"

lemma initial_queue:
  "\<exists>rs. audio_rs rs \<and> RtpaInitializeQueue \<lparr>vq0 = 7, vq1 = 1, vq2 = 431, vq3 = - 1\<rparr> (\<lambda>_. True)
     = Some \<lparr>blocks = [], aq_rs = rs, freeBlocks = [], freeBlockCount = 0, nextRtpSequenceNumber = 0,
             oldestRtpBaseSequenceNumber = 0, lastOosSequenceNumber = 0, receivedOosData = False,
             synchronizing = True, incompatibleServer = False\<rparr>"
proof -
  obtain q where q: "RtpaInitializeQueue \<lparr>vq0 = 7, vq1 = 1, vq2 = 431, vq3 = - 1\<rparr> (\<lambda>_. True) = Some q"
    "audio_rs (aq_rs q)" using RtpaInitializeQueue_ready by blast
  then have "q = \<lparr>blocks = [], aq_rs = aq_rs q, freeBlocks = [], freeBlockCount = 0, nextRtpSequenceNumber = 0,
             oldestRtpBaseSequenceNumber = 0, lastOosSequenceNumber = 0, receivedOosData = False,
             synchronizing = True, incompatibleServer = False\<rparr>"
    by (auto simp: RtpaInitializeQueue_def APP_VERSION_AT_LEAST_def bind_eq_Some_conv)
  then show ?thesis using q by metis
qed

lemma silent_run:
  "(case audio_run 0 silent_ops \<lparr>blocks = [], aq_rs = rs, freeBlocks = [], freeBlockCount = 0, nextRtpSequenceNumber = 0,
             oldestRtpBaseSequenceNumber = 0, lastOosSequenceNumber = 0, receivedOosData = False,
             synchronizing = True, incompatibleServer = False\<rparr> of
      None \<Rightarrow> False
    | Some (ds, q') \<Rightarrow> ds = [(8, Some (sent silence 8)), (9, Some (sent silence 9)), (10, Some (sent silence 10))]
        \<and> \<not> incompatibleServer q')"
  by code_simp

lemma silent_admissible:
  "admissible_run 0 (\<lambda>_ _. True) silent_ops \<lparr>blocks = [], aq_rs = rs, freeBlocks = [], freeBlockCount = 0,
     nextRtpSequenceNumber = 0, oldestRtpBaseSequenceNumber = 0, lastOosSequenceNumber = 0,
     receivedOosData = False, synchronizing = True, incompatibleServer = False\<rparr>"
  by code_simp

lemma admissible_run_strengthen:
  assumes "admissible_run dur (\<lambda>_ _. True) ops q" "\<forall>e p len. Add_packet e p len \<in> set ops \<longrightarrow> A p len"
  shows "admissible_run dur A ops q"
  using assms
proof (induction ops arbitrary: q)
  case (Cons op ops)
  then have "admissible A q op" by (cases op) (auto simp: admissible_def)
  then show ?case using Cons by (auto split: option.splits)
qed simp

lemma silent_start:
  "\<exists>q ds q'. RtpaInitializeQueue \<lparr>vq0 = 7, vq1 = 1, vq2 = 431, vq3 = - 1\<rparr> (\<lambda>_. True) = Some q
     \<and> admissible_run 0 (\<lambda>_ _. True) silent_ops q \<and> admissible_run 0 (from_sender silence) silent_ops q
     \<and> audio_run 0 silent_ops q = Some (ds, q')
     \<and> ds = [(8, Some (sent silence 8)), (9, Some (sent silence 9)), (10, Some (sent silence 10))]
     \<and> \<not> incompatibleServer q'"
proof -
  obtain rs where q: "RtpaInitializeQueue \<lparr>vq0 = 7, vq1 = 1, vq2 = 431, vq3 = - 1\<rparr> (\<lambda>_. True)
     = Some \<lparr>blocks = [], aq_rs = rs, freeBlocks = [], freeBlockCount = 0, nextRtpSequenceNumber = 0,
             oldestRtpBaseSequenceNumber = 0, lastOosSequenceNumber = 0, receivedOosData = False,
             synchronizing = True, incompatibleServer = False\<rparr>" (is "_ = Some ?q")
    using initial_queue by blast
  have "\<forall>e p len. Add_packet e p len \<in> set silent_ops \<longrightarrow> from_sender silence p len"
    by (auto simp: silent_ops_def silent_packet_def from_sender_def in_buffer_def silence_def
        RTP_PAYLOAD_TYPE_FEC_def)
  then have "admissible_run 0 (from_sender silence) silent_ops ?q"
    by (rule admissible_run_strengthen [OF silent_admissible])
  then show ?thesis using q silent_admissible [of rs] silent_run [of rs] by (auto split: option.splits)
qed



theorem audio_delivers_sent_witness:
  "\<exists>q ds q' p. RtpaInitializeQueue \<lparr>vq0 = 7, vq1 = 1, vq2 = 431, vq3 = - 1\<rparr> (\<lambda>_. True) = Some q
     \<and> audio_run 0 silent_ops q = Some (ds, q') \<and> (10, Some p) \<in> set ds \<and> p = sent silence 10"
proof -
  obtain q ds q' where q: "RtpaInitializeQueue \<lparr>vq0 = 7, vq1 = 1, vq2 = 431, vq3 = - 1\<rparr> (\<lambda>_. True) = Some q"
    "admissible_run 0 (from_sender silence) silent_ops q" "audio_run 0 silent_ops q = Some (ds, q')"
    "ds = [(8, Some (sent silence 8)), (9, Some (sent silence 9)), (10, Some (sent silence 10))]"
    using silent_start by blast
  have "(10, Some (sent silence 10)) \<in> set ds" using q(4) by simp
  then show ?thesis using audio_delivers_sent [OF q(1) silence_proper q(2,3)] q(1,3) by blast
qed

section \<open>Recovery of a block\<close>

text \<open>
  Any four shards recover a block.  When four of the six shards of a sender's block are
  there, completing the block succeeds and makes all four data packets, headers included,
  those of the sender; the reconstruction runs with the parity matrix that overrides the one
  \<open>reed_solomon_new\<close> computed.
\<close>

theorem audio_block_recovers:
  assumes "proper_sender dur S" "audio_rs rs" "faithful S b" "block_ok b" "\<not> fullyReassembled b"
    and "4 \<le> length (filter (\<lambda>m. m = 0) (marks b))"
  shows "\<exists>b'. completeFecBlock dur rs b = Some (True, b')
    \<and> dataPackets b' = map (\<lambda>i. sent S (block_base b + of_nat i)) [0..<4]"
proof -
  obtain c b' where c: "completeFecBlock dur rs b = Some (c, b')" "block_ok (if c then b'\<lparr>fullyReassembled := True\<rparr> else b')"
    using completeFecBlock_ok [OF assms(4,5,2)] by blast
  have six: "marks b = map (\<lambda>i. marks b ! i) ([0..<4] @ map ((+) 4) [0..<2])"
  proof (rule nth_equalityI)
    show l: "length (marks b) = length (map ((!) (marks b)) ([0..<4] @ map ((+) 4) [0..<2]))"
      using assms(4) by (simp add: block_ok_def)
    fix i assume "i < length (marks b)"
    then have "i < 4 \<or> i - 4 < 2 \<and> i = 4 + (i - 4)" using l by auto
    then obtain j where "i < 4 \<or> j < 2 \<and> i = 4 + j" by blast
    then show "marks b ! i = map ((!) (marks b)) ([0..<4] @ map ((+) 4) [0..<2]) ! i" by (auto simp: nth_append)
  qed
  have "length (filter (\<lambda>m. m = 0) (marks b)) = dataShardsReceived b + fecShardsReceived b"
    using assms(4,5) by (subst six) (simp add: filter_map o_def block_ok_def del: upt_conv_Cons)
  then have "c" using c(1) assms(6) by (auto simp: completeFecBlock_def shard_consts LC_ASSERT_def split: if_splits prod.splits)
  then have run: "completeFecBlock dur rs b = Some (True, b')" "length (dataPackets b') = 4"
    using c by (simp_all add: block_ok_def)
  have "dataPackets b' = map (\<lambda>i. sent S (block_base b + of_nat i)) [0..<4]"
    by (rule nth_equalityI)
      (use run(2) faithful_complete(3) [OF assms(1,3,4,5,2) run(1)] in auto)
  then show ?thesis using run(1) by blast
qed

definition lossy_block :: fec_block where
  "lossy_block = \<lparr>dataPackets = [sent silence 8, sent silence 0, (sent silence 0)\<lparr>payload := [1, 2]\<rparr>, sent silence 11],
     fecPackets = [[0, 0], [0, 0]], marks = [0, 1, 1, 0, 0, 0],
     fecHeader = \<lparr>fecShardIndex = 0, payloadType = 97, baseSequenceNumber = 8, baseTimestamp = 0, fec_ssrc = 0\<rparr>,
     queueTimeMs = 0, dataShardsReceived = 2, fecShardsReceived = 2, fullyReassembled = False,
     nextDataPacketIndex = 0, allowDiscontinuity = False, blockSize = 2\<rparr>"

lemma two_zeros: "[0, 0] = replicate 2 0" by (simp add: numeral_2_eq_2)

theorem audio_block_recovers_witness:
  "\<exists>rs b'. audio_rs rs \<and> completeFecBlock 0 rs lossy_block = Some (True, b')
    \<and> dataPackets b' = [sent silence 8, sent silence 9, sent silence 10, sent silence 11]"
proof -
  obtain rs where rs: "audio_rs rs" using initial_queue by blast
  have f: "faithful silence lossy_block"
    by (auto simp: faithful_def lossy_block_def silence_def RTP_PAYLOAD_TYPE_AUDIO_def less_4 less_2_cases_iff two_zeros)
  have b: "block_ok lossy_block"
    by (auto simp: block_ok_def lossy_block_def silence_def less_4 less_2_cases_iff upt_rec)
  have "4 \<le> length (filter (\<lambda>m. m = 0) (marks lossy_block))" "\<not> fullyReassembled lossy_block"
    by (simp_all add: lossy_block_def)
  moreover have "map (\<lambda>i. sent silence (block_base lossy_block + of_nat i)) [0..<4]
      = [sent silence 8, sent silence 9, sent silence 10, sent silence 11]"
    by (simp add: lossy_block_def upt_rec)
  ultimately show ?thesis using audio_block_recovers [OF silence_proper rs f b] rs by metis
qed

section \<open>Two defects\<close>

text \<open>The FEC packet of the silent sender for shard \<open>k\<close> of the block at \<open>8\<close>.\<close>

definition silent_fec :: "u8 \<Rightarrow> audio_op" where
  "silent_fec k = Add_packet quiet_env
     \<lparr>rtp_header = 0x80, packetType = 127, sequenceNumber = 0, timestamp = 0, ssrc = 0,
      payload = [k, 97, 0, 8, 0, 0, 0, 0, 0, 0, 0, 0, 0, 0]\<rparr> 26"

definition started_queue :: "reed_solomon \<Rightarrow> audio_queue" where
  "started_queue rs = \<lparr>blocks = [], aq_rs = rs, freeBlocks = [], freeBlockCount = 0, nextRtpSequenceNumber = 0,
     oldestRtpBaseSequenceNumber = 0, lastOosSequenceNumber = 0, receivedOosData = False,
     synchronizing = True, incompatibleServer = False\<rparr>"

text \<open>
  Start-up across sequence number 0.  The value 0 of \<open>oldestRtpBaseSequenceNumber\<close> stands for
  ``no packet yet'' while the queue synchronizes, but skipping a lost first block can set it to
  0 as a real base.  After packets 65528 and 0 the next packet is taken for the first one of
  the stream again, the block at 0 stays in the list behind the oldest base, and the following
  call fails the assertion on the head block (without assertions, blocks are freed one late).
\<close>

theorem audio_restart_at_zero:
  "\<exists>q. RtpaInitializeQueue \<lparr>vq0 = 7, vq1 = 1, vq2 = 431, vq3 = - 1\<rparr> (\<lambda>_. True) = Some q
    \<and> audio_run 0 [silent_packet 65528, silent_packet 0, Get_packet True] q \<noteq> None
    \<and> audio_run 0 [silent_packet 65528, silent_packet 0, Get_packet True, silent_packet 1, Get_packet True] q = None"
proof -
  obtain rs where q: "RtpaInitializeQueue \<lparr>vq0 = 7, vq1 = 1, vq2 = 431, vq3 = - 1\<rparr> (\<lambda>_. True) = Some (started_queue rs)"
    using initial_queue unfolding started_queue_def by blast
  have "case audio_run 0 [silent_packet 65528, silent_packet 0, Get_packet True] (started_queue rs) of
      None \<Rightarrow> False | Some _ \<Rightarrow> True" by code_simp
  moreover have "case audio_run 0 [silent_packet 65528, silent_packet 0, Get_packet True, silent_packet 1, Get_packet True]
      (started_queue rs) of None \<Rightarrow> True | Some _ \<Rightarrow> False" by code_simp
  ultimately show ?thesis using q case_Some_ok case_None_ok by blast
qed

text \<open>
  A recoverable block played with gaps.  An in-order data packet is handed on without trying to
  complete its block.  When both parity shards and the first data packet came before it, it is the
  fourth shard; if the rest of the block is lost, packets 10 and 11 are reported as gaps although
  four of the six shards are there.
\<close>

theorem audio_recoverable_gap:
  "\<exists>q. RtpaInitializeQueue \<lparr>vq0 = 7, vq1 = 1, vq2 = 431, vq3 = - 1\<rparr> (\<lambda>_. True) = Some q
    \<and> map_option (map (\<lambda>(s, p). (s, p \<noteq> None)) \<circ> fst)
        (audio_run 0 [silent_packet 4, silent_fec 0, silent_fec 1, silent_packet 8, silent_packet 9, silent_packet 12,
                      Get_packet True, Get_packet True, Get_packet True] q)
      = Some [(8, True), (9, True), (10, False), (11, False), (12, True)]"
proof -
  obtain rs where q: "RtpaInitializeQueue \<lparr>vq0 = 7, vq1 = 1, vq2 = 431, vq3 = - 1\<rparr> (\<lambda>_. True) = Some (started_queue rs)"
    using initial_queue unfolding started_queue_def by blast
  have "map_option (map (\<lambda>(s, p). (s, p \<noteq> None)) \<circ> fst)
        (audio_run 0 [silent_packet 4, silent_fec 0, silent_fec 1, silent_packet 8, silent_packet 9, silent_packet 12,
                      Get_packet True, Get_packet True, Get_packet True] (started_queue rs))
      = Some [(8, True), (9, True), (10, False), (11, False), (12, True)]" by code_simp
  then show ?thesis using q by blast
qed

end
