(* ===== verification/RtpVideoQueue.thy ===== *)
theory RtpVideoQueue
  imports RtpAudioQueue
begin

text \<open>
  The video frame assembly queue of RtpVideoQueue.c.  The packets of one FEC block collect in
  the pending list; when enough of them are there the lost data packets are reconstructed, the
  data packets are staged in sequence order, and after the last block of a frame they are
  handed to the depacketizer.  The two doubly linked lists are modelled as lists of entries
  (the assertions on links, \<open>count\<close>, \<open>head\<close> and \<open>tail\<close> hold by construction), counters that stay
  below 4000 as \<open>nat\<close>, sequence numbers, which the code truncates to 16 bits on every
  assignment, as \<open>u16\<close>.  Calls into other components are events in the order they are made.
  As in RtpAudioQueue, \<open>LC_ASSERT_VT\<close> and \<open>FEC_VALIDATION_MODE\<close> are left out; every other
  assertion, index and buffer access is \<open>None\<close> when it fails.
\<close>

section \<open>Packets\<close>

definition FLAG_CONTAINS_PIC_DATA :: u8 where "FLAG_CONTAINS_PIC_DATA = 0x1"
definition FLAG_EOF :: u8 where "FLAG_EOF = 0x2"
definition FLAG_SOF :: u8 where "FLAG_SOF = 0x4"
definition FLAG_EXTENSION :: u8 where "FLAG_EXTENSION = 0x10"
definition MAX_RTP_HEADER_SIZE :: nat where "MAX_RTP_HEADER_SIZE = 16"
definition SPECULATIVE_RFI_COOLDOWN_PERIOD_MS :: u32 where "SPECULATIVE_RFI_COOLDOWN_PERIOD_MS = 300000"
definition PTS_DIVISOR :: u32 where "PTS_DIVISOR = 90"
definition RTPF_RET_QUEUED :: int where "RTPF_RET_QUEUED = 0"
definition RTPF_RET_REJECTED :: int where "RTPF_RET_REJECTED = 1"

abbreviation sizeof_NV_VIDEO_PACKET :: nat where "sizeof_NV_VIDEO_PACKET \<equiv> 16"

record nv_video_packet =
  streamPacketIndex :: u32
  frameIndex :: u32
  nv_flags :: u8
  nv_reserved :: u8
  multiFecFlags :: u8
  multiFecBlocks :: u8
  fecInfo :: u32

text \<open>Memory images of the packed structures on the little-endian host.\<close>

definition rtp_bytes :: "rtp_packet \<Rightarrow> u8 list" where
  "rtp_bytes p = [rtp_header p, packetType p] @ le_bytes 2 (sequenceNumber p) @ le_bytes 4 (timestamp p)
     @ le_bytes 4 (ssrc p) @ payload p"

definition rtp_of_bytes :: "u8 list \<Rightarrow> rtp_packet" where
  "rtp_of_bytes bs = \<lparr>rtp_header = bs ! 0, packetType = bs ! 1, sequenceNumber = of_le_bytes (take 2 (drop 2 bs)),
     timestamp = of_le_bytes (take 4 (drop 4 bs)), ssrc = of_le_bytes (take 4 (drop 8 bs)), payload = drop 12 bs\<rparr>"

definition nv_bytes :: "nv_video_packet \<Rightarrow> u8 list" where
  "nv_bytes v = le_bytes 4 (streamPacketIndex v) @ le_bytes 4 (frameIndex v)
     @ [nv_flags v, nv_reserved v, multiFecFlags v, multiFecBlocks v] @ le_bytes 4 (fecInfo v)"

definition nv_of_bytes :: "u8 list \<Rightarrow> nv_video_packet" where
  "nv_of_bytes bs = \<lparr>streamPacketIndex = of_le_bytes (take 4 bs), frameIndex = of_le_bytes (take 4 (drop 4 bs)),
     nv_flags = bs ! 8, nv_reserved = bs ! 9, multiFecFlags = bs ! 10, multiFecBlocks = bs ! 11,
     fecInfo = of_le_bytes (take 4 (drop 12 bs))\<rparr>"

text \<open>The size of the RTP header and its extension; the video header follows it.\<close>

definition data_offset :: "u8 \<Rightarrow> nat" where
  "data_offset hdr = sizeof_RTP_PACKET + (if hdr AND FLAG_EXTENSION \<noteq> 0 then 4 else 0)"

definition read_nv :: "rtp_packet \<Rightarrow> nv_video_packet option" where
  "read_nv p = map_option nv_of_bytes
     (mem_read (payload p) (data_offset (rtp_header p) - sizeof_RTP_PACKET) sizeof_NV_VIDEO_PACKET)"

definition write_nv :: "nv_video_packet \<Rightarrow> rtp_packet \<Rightarrow> rtp_packet option" where
  "write_nv v p = map_option (\<lambda>bs. p\<lparr>payload := bs\<rparr>)
     (mem_write (payload p) (data_offset (rtp_header p) - sizeof_RTP_PACKET) (nv_bytes v))"

section \<open>The queue\<close>

record video_entry =
  ve_packet :: rtp_packet
  receiveTimeMs :: u64
  presentationTimeMs :: u32
  ve_length :: nat
  isParity :: bool

abbreviation entry_seq :: "video_entry \<Rightarrow> u16" where
  "entry_seq e \<equiv> sequenceNumber (ve_packet e)"

record video_queue =
  pendingFecBlockList :: "video_entry list"
  completedFecBlockList :: "video_entry list"
  bufferFirstRecvTimeMs :: u64
  bufferLowestSequenceNumber :: u16
  bufferHighestSequenceNumber :: u16
  bufferFirstParitySequenceNumber :: u16
  bufferDataPackets :: nat
  bufferParityPackets :: nat
  receivedDataPackets :: nat
  receivedParityPackets :: nat
  receivedHighestSequenceNumber :: u16
  fecPercentage :: nat
  nextContiguousSequenceNumber :: u16
  missingPackets :: nat
  useFastQueuePath :: bool
  reportedLostFrame :: bool
  currentFrameNumber :: u32
  multiFecCapable :: bool
  multiFecCurrentBlockNumber :: u8
  multiFecLastBlockNumber :: u8
  lastOosFramePresentationTimestamp :: u32
  vq_receivedOosData :: bool

record frame_fec_status =
  fs_frameIndex :: u32
  fs_highestReceivedSequenceNumber :: u16
  fs_nextContiguousSequenceNumber :: u16
  fs_missingPacketsBeforeHighestReceived :: u16
  fs_totalDataPackets :: u16
  fs_totalParityPackets :: u16
  fs_receivedDataPackets :: u16
  fs_receivedParityPackets :: u16
  fs_fecPercentage :: u8
  fs_multiFecBlockIndex :: u8
  fs_multiFecBlockCount :: u8

datatype video_event =
    Submit video_entry
  | Frame_lost u32 bool
  | Saw_frame u32
  | Fec_status frame_fec_status

record video_env =
  venv_packetSize :: nat
  venv_version :: version
  venv_calloc :: bool
  venv_rs_alloc :: "nat \<Rightarrow> bool"
  venv_malloc :: "nat \<Rightarrow> bool"
  venv_junk :: "nat \<Rightarrow> nat \<Rightarrow> u8"
  venv_now :: u64

definition RtpvInitializeQueue :: "version \<Rightarrow> video_queue" where
  "RtpvInitializeQueue v =
     \<lparr>pendingFecBlockList = [], completedFecBlockList = [], bufferFirstRecvTimeMs = 0,
      bufferLowestSequenceNumber = 0, bufferHighestSequenceNumber = 0, bufferFirstParitySequenceNumber = 0,
      bufferDataPackets = 0, bufferParityPackets = 0, receivedDataPackets = 0, receivedParityPackets = 0,
      receivedHighestSequenceNumber = 0, fecPercentage = 0, nextContiguousSequenceNumber = 0, missingPackets = 0,
      useFastQueuePath = False, reportedLostFrame = False, currentFrameNumber = 1,
      multiFecCapable = APP_VERSION_AT_LEAST v 7 1 431, multiFecCurrentBlockNumber = 0,
      multiFecLastBlockNumber = 0, lastOosFramePresentationTimestamp = 0, vq_receivedOosData = False\<rparr>"

definition purgeListEntries :: "video_entry list \<Rightarrow> video_entry list" where
  "purgeListEntries es = []"

definition RtpvCleanupQueue :: "video_queue \<Rightarrow> video_queue" where
  "RtpvCleanupQueue q = q\<lparr>pendingFecBlockList := purgeListEntries (pendingFecBlockList q),
                          completedFecBlockList := purgeListEntries (completedFecBlockList q)\<rparr>"

definition insertEntryIntoList :: "video_entry list \<Rightarrow> video_entry \<Rightarrow> video_entry list" where
  "insertEntryIntoList es e = es @ [e]"

definition removeEntryFromList :: "video_entry list \<Rightarrow> nat \<Rightarrow> video_entry list" where
  "removeEntryFromList es i = take i es @ drop (Suc i) es"

definition final_fec_status :: "video_queue \<Rightarrow> frame_fec_status" where
  "final_fec_status q =
     \<lparr>fs_frameIndex = BE32 (currentFrameNumber q),
      fs_highestReceivedSequenceNumber = BE16 (receivedHighestSequenceNumber q),
      fs_nextContiguousSequenceNumber = BE16 (nextContiguousSequenceNumber q),
      fs_missingPacketsBeforeHighestReceived = BE16 (of_nat (missingPackets q)),
      fs_totalDataPackets = BE16 (of_nat (bufferDataPackets q)),
      fs_totalParityPackets = BE16 (of_nat (bufferParityPackets q)),
      fs_receivedDataPackets = BE16 (of_nat (receivedDataPackets q)),
      fs_receivedParityPackets = BE16 (of_nat (receivedParityPackets q)),
      fs_fecPercentage = of_nat (fecPercentage q),
      fs_multiFecBlockIndex = multiFecCurrentBlockNumber q,
      fs_multiFecBlockCount = multiFecLastBlockNumber q + 1\<rparr>"

definition reportFinalFrameFecStatus :: "video_queue \<Rightarrow> video_event list" where
  "reportFinalFrameFecStatus q = [Fec_status (final_fec_status q)]"

section \<open>Queueing a packet\<close>

text \<open>The loop of lines 134 to 144: \<open>None\<close> for a duplicate, else whether a later packet is queued.\<close>

fun scan_pending :: "u16 \<Rightarrow> bool \<Rightarrow> video_entry list \<Rightarrow> bool option" where
  "scan_pending s oos [] = Some oos"
| "scan_pending s oos (e # es) =
     (if s = entry_seq e then None
      else scan_pending s (if isBefore16 s (entry_seq e) then True else oos) es)"

definition track_video_oos :: "bool \<Rightarrow> u32 \<Rightarrow> video_queue \<Rightarrow> video_queue" where
  "track_video_oos oos pts q =
     (if oos then q\<lparr>lastOosFramePresentationTimestamp := pts, vq_receivedOosData := True\<rparr>
      else if vq_receivedOosData q
              \<and> pts > lastOosFramePresentationTimestamp q + SPECULATIVE_RFI_COOLDOWN_PERIOD_MS
      then q\<lparr>vq_receivedOosData := False\<rparr>
      else q)"

definition queuePacket ::
  "video_queue \<Rightarrow> rtp_packet \<Rightarrow> nat \<Rightarrow> bool \<Rightarrow> bool \<Rightarrow> (bool \<times> video_queue) option" where
  "queuePacket q p len par isFecRecovery = do {
     _ \<leftarrow> LC_ASSERT (\<not> (isFecRecovery \<and> par));
     _ \<leftarrow> LC_ASSERT (\<not> isBefore16 (sequenceNumber p) (nextContiguousSequenceNumber q));
     let (found, q) =
       (if useFastQueuePath q \<and> sequenceNumber p = nextContiguousSequenceNumber q
        then (Some False, q\<lparr>nextContiguousSequenceNumber := sequenceNumber p + 1\<rparr>)
        else case scan_pending (sequenceNumber p) False (pendingFecBlockList q) of
               None \<Rightarrow> (None, q)
             | Some oos \<Rightarrow> (Some oos, q\<lparr>useFastQueuePath := False\<rparr>));
     (case found of
        None \<Rightarrow> Some (False, q)
      | Some oos \<Rightarrow>
          let pts = timestamp p div PTS_DIVISOR;
              entry = \<lparr>ve_packet = p, receiveTimeMs = 0, presentationTimeMs = pts, ve_length = len, isParity = par\<rparr>;
              q = (if isFecRecovery then q else track_video_oos oos pts q)
          in Some (True, q\<lparr>pendingFecBlockList := insertEntryIntoList (pendingFecBlockList q) entry\<rparr>)) }"

section \<open>Reconstruction\<close>

text \<open>Lines 289 to 317: the shard array, with short packets padded in place.\<close>

definition pad_entry :: "nat \<Rightarrow> video_entry \<Rightarrow> video_entry" where
  "pad_entry receiveSize e =
     (if ve_length e < receiveSize
      then e\<lparr>ve_packet := (ve_packet e)\<lparr>payload := take (ve_length e - sizeof_RTP_PACKET) (payload (ve_packet e))
               @ replicate (receiveSize - ve_length e) 0\<rparr>\<rparr>
      else e)"

fun collect_shards ::
  "nat \<Rightarrow> u16 \<Rightarrow> video_entry list \<Rightarrow> u8 list option list \<Rightarrow> u8 list option list option" where
  "collect_shards receiveSize low [] packets = Some packets"
| "collect_shards receiveSize low (e # es) packets = do {
     let index = dist16 low (entry_seq e);
     old \<leftarrow> nth_opt packets index;
     _ \<leftarrow> LC_ASSERT (old = None);
     _ \<leftarrow> LC_ASSERT (sizeof_RTP_PACKET \<le> ve_length e \<and> ve_length e \<le> receiveSize
          \<and> length (payload (ve_packet e)) = receiveSize - sizeof_RTP_PACKET);
     collect_shards receiveSize low es
       (packets[index := Some (rtp_bytes (ve_packet (pad_entry receiveSize e)))]) }"

text \<open>
  Lines 351 to 445 for the missing shard \<open>i\<close>: the packet with its headers rewritten, the checks
  that turn a corrupt one down, and queueing the others.
\<close>

definition recovered_video_packet ::
  "video_queue \<Rightarrow> rtp_packet \<Rightarrow> nat \<Rightarrow> u8 list \<Rightarrow> (rtp_packet \<times> nv_video_packet) option" where
  "recovered_video_packet q hdp i bytes = do {
     let p = (rtp_of_bytes bytes)\<lparr>sequenceNumber := of_nat i + bufferLowestSequenceNumber q,
               rtp_header := rtp_header hdp, timestamp := timestamp hdp, ssrc := ssrc hdp\<rparr>;
     v \<leftarrow> read_nv p;
     let v = v\<lparr>frameIndex := currentFrameNumber q,
               multiFecBlocks := push_bit 4 (push_bit 2 (multiFecLastBlockNumber q) OR multiFecCurrentBlockNumber q)\<rparr>;
     p \<leftarrow> write_nv v p;
     Some (p, v) }"

definition corrupt_recovery :: "video_queue \<Rightarrow> nat \<Rightarrow> u8 \<Rightarrow> bool" where
  "corrupt_recovery q i flags \<longleftrightarrow>
     (i = 0 \<and> flags AND FLAG_SOF = 0)
   \<or> (i = bufferDataPackets q - 1 \<and> flags AND FLAG_EOF = 0)
   \<or> (i > 0 \<and> i < bufferDataPackets q - 1 \<and> flags AND FLAG_CONTAINS_PIC_DATA = 0)
   \<or> (flags AND NOT (FLAG_SOF OR FLAG_EOF OR FLAG_CONTAINS_PIC_DATA) \<noteq> 0)"

fun queue_recovered ::
  "nat \<Rightarrow> (nat \<Rightarrow> u8 list) \<Rightarrow> nat list \<Rightarrow> int \<times> video_queue \<Rightarrow> (int \<times> video_queue) option" where
  "queue_recovered packetSize out [] (ret, q) = Some (ret, q)"
| "queue_recovered packetSize out (i # is) (ret, q) =
     (if ret = 0 \<and> i < bufferDataPackets q then do {
        hdp \<leftarrow> nth_opt (pendingFecBlockList q) 0;
        (p, v) \<leftarrow> recovered_video_packet q (ve_packet hdp) i (out i);
        if corrupt_recovery q i (nv_flags v) then queue_recovered packetSize out is (- 1, q)
        else do {
          _ \<leftarrow> LC_ASSERT (isBefore16 (sequenceNumber p) (bufferFirstParitySequenceNumber q));
          (_, q) \<leftarrow> queuePacket q p (packetSize + data_offset (rtp_header p)) False True;
          queue_recovered packetSize out is (ret, q) } }
      else queue_recovered packetSize out is (ret, q))"

text \<open>Lines 252 to 461, when some data packet has to be recovered.\<close>

definition recover_block :: "video_env \<Rightarrow> video_queue \<Rightarrow> (int \<times> video_queue \<times> video_event list) option" where
  "recover_block e q =
     (let data = bufferDataPackets q; total = data + bufferParityPackets q
      in if vq0 (venv_version e) < 5 then Some (- 1, q, [])
         else if \<not> venv_calloc e then Some (- 2, q, [])
         else do {
           r \<leftarrow> reed_solomon_new (venv_rs_alloc e) (int data) (int (bufferParityPackets q));
           _ \<leftarrow> LC_ASSERT (r \<noteq> None);
           rs \<leftarrow> r;
           let receiveSize = venv_packetSize e + MAX_RTP_HEADER_SIZE;
           packets \<leftarrow> collect_shards receiveSize (bufferLowestSequenceNumber q) (pendingFecBlockList q)
                        (replicate total None);
           let q = q\<lparr>pendingFecBlockList := map (pad_entry receiveSize) (pendingFecBlockList q)\<rparr>;
           let mks = map (\<lambda>s. if s = None then 1 else 0) packets;
           let missing = filter (\<lambda>i. packets ! i = None) [0..<total];
           if \<exists>i \<in> set missing. \<not> venv_malloc e i then Some (- 4, q, [])
           else do {
             let store = map (\<lambda>i. case packets ! i of Some s \<Rightarrow> s | None \<Rightarrow> map (venv_junk e i) [0..<receiveSize]) [0..<total];
             let (ret, out) = reed_solomon_reconstruct rs store mks total receiveSize;
             _ \<leftarrow> LC_ASSERT (ret = 0);
             let events = (if data \<noteq> receivedDataPackets q then reportFinalFrameFecStatus q else []);
             (ret, q) \<leftarrow> queue_recovered (venv_packetSize e) (\<lambda>i. out ! i) missing (ret, q);
             Some (ret, q, events) } })"

definition reconstructFrame :: "video_env \<Rightarrow> video_queue \<Rightarrow> (int \<times> video_queue \<times> video_event list) option" where
  "reconstructFrame e q = do {
     let totalPackets = bufferDataPackets q + bufferParityPackets q;
     let neededPackets = bufferDataPackets q;
     let pending = length (pendingFecBlockList q);
     _ \<leftarrow> LC_ASSERT (totalPackets = dist16 (bufferLowestSequenceNumber q) (bufferHighestSequenceNumber q) + 1);
     _ \<leftarrow> LC_ASSERT (totalPackets - neededPackets \<le> bufferParityPackets q);
     if pending < neededPackets then
       if \<not> reportedLostFrame q \<and> \<not> vq_receivedOosData q then
         if missingPackets q > totalPackets - neededPackets
         then Some (- 1, q\<lparr>reportedLostFrame := True\<rparr>, [Frame_lost (currentFrameNumber q) True])
         else do {
           _ \<leftarrow> LC_ASSERT (neededPackets - pending
                  \<le> dist16 (receivedHighestSequenceNumber q) (bufferHighestSequenceNumber q));
           Some (- 1, q, []) }
       else Some (- 1, q, [])
     else do {
       _ \<leftarrow> LC_ASSERT (missingPackets q \<le> bufferParityPackets q);
       _ \<leftarrow> LC_ASSERT (\<not> reportedLostFrame q \<or> vq_receivedOosData q);
       hdp \<leftarrow> (if reportedLostFrame q \<and> \<not> vq_receivedOosData q
              then map_option Some (nth_opt (pendingFecBlockList q) 0) else Some None);
       let q = (case hdp of
                  Some h \<Rightarrow> q\<lparr>vq_receivedOosData := True, lastOosFramePresentationTimestamp := presentationTimeMs h\<rparr>
                | None \<Rightarrow> q);
       if receivedDataPackets q = bufferDataPackets q then Some (0, q, [])
       else recover_block e q } }"

section \<open>Staging and submitting\<close>

datatype stage_result = Found video_entry | Absent u16

text \<open>One pass over the pending list; the second component is what stays in it.\<close>

fun stage_scan ::
  "u64 \<Rightarrow> u16 \<Rightarrow> u16 \<Rightarrow> video_entry list \<Rightarrow> video_entry list \<Rightarrow> (stage_result \<times> video_entry list) option" where
  "stage_scan recv nextSeqNum lowest kept [] = Some (Absent lowest, rev kept)"
| "stage_scan recv nextSeqNum lowest kept (e # es) = do {
     _ \<leftarrow> LC_ASSERT (\<not> isBefore16 (entry_seq e) nextSeqNum);
     if isParity e then stage_scan recv nextSeqNum lowest kept es
     else if entry_seq e = nextSeqNum then do {
       _ \<leftarrow> LC_ASSERT (recv \<noteq> 0);
       Some (Found (e\<lparr>receiveTimeMs := recv\<rparr>), rev kept @ es) }
     else stage_scan recv nextSeqNum (if isBefore16 (entry_seq e) lowest then entry_seq e else lowest) (e # kept) es }"

text \<open>The outer loop; that it ends on complete blocks is a theorem.\<close>

partial_function (option) stage_loop ::
  "u64 \<Rightarrow> u16 \<Rightarrow> video_entry list \<Rightarrow> video_entry list \<Rightarrow> video_entry list option" where
  "stage_loop recv nextSeqNum pending completed =
     (case pending of
        [] \<Rightarrow> Some completed
      | h # t \<Rightarrow> do {
          r \<leftarrow> stage_scan recv nextSeqNum (entry_seq h) [] pending;
          (case r of
             (Found e, rest) \<Rightarrow> stage_loop recv (nextSeqNum + 1) rest (insertEntryIntoList completed e)
           | (Absent lowest, rest) \<Rightarrow> stage_loop recv lowest rest completed) })"

declare stage_loop.simps [code]

definition stageCompleteFecBlock :: "video_queue \<Rightarrow> video_queue option" where
  "stageCompleteFecBlock q = do {
     completed \<leftarrow> stage_loop (bufferFirstRecvTimeMs q) (bufferLowestSequenceNumber q)
                    (pendingFecBlockList q) (completedFecBlockList q);
     Some (q\<lparr>pendingFecBlockList := [], completedFecBlockList := completed\<rparr>) }"

definition submitCompletedFrame :: "video_queue \<Rightarrow> (video_queue \<times> video_event list) option" where
  "submitCompletedFrame q = do {
     _ \<leftarrow> LC_ASSERT (\<forall>e \<in> set (completedFecBlockList q). \<not> isParity e);
     Some (q\<lparr>completedFecBlockList := []\<rparr>, map Submit (completedFecBlockList q)) }"

definition RtpvGetCurrentFrameNumber :: "video_queue \<Rightarrow> u32" where
  "RtpvGetCurrentFrameNumber q = currentFrameNumber q"

section \<open>Receiving a packet\<close>

definition fec_index :: "nv_video_packet \<Rightarrow> u32" where
  "fec_index v = drop_bit 12 (fecInfo v AND 0x3FF000)"

definition fec_data_packets :: "nv_video_packet \<Rightarrow> u32" where
  "fec_data_packets v = drop_bit 22 (fecInfo v AND 0xFFC00000)"

definition fec_percentage :: "nv_video_packet \<Rightarrow> u32" where
  "fec_percentage v = drop_bit 4 (fecInfo v AND 0xFF0)"

definition fec_block_number :: "nv_video_packet \<Rightarrow> u8" where
  "fec_block_number v = drop_bit 4 (multiFecBlocks v) AND 3"

definition fec_last_block :: "nv_video_packet \<Rightarrow> u8" where
  "fec_last_block v = drop_bit 6 (multiFecBlocks v) AND 3"

text \<open>Lines 687 to 708: the queue is set up for the block of the packet.\<close>

definition start_block :: "u64 \<Rightarrow> u16 \<Rightarrow> nv_video_packet \<Rightarrow> video_queue \<Rightarrow> video_queue" where
  "start_block now s v q =
     (let low = s - ucast (fec_index v);
          data = unat (fec_data_packets v);
          pct = unat (fec_percentage v);
          par = (data * pct + 99) div 100;
          first = low + of_nat data
      in q\<lparr>currentFrameNumber := frameIndex v, bufferFirstRecvTimeMs := now,
           bufferLowestSequenceNumber := low, nextContiguousSequenceNumber := low,
           receivedDataPackets := 0, receivedParityPackets := 0, receivedHighestSequenceNumber := 0,
           missingPackets := 0, useFastQueuePath := True, reportedLostFrame := False,
           bufferDataPackets := data, fecPercentage := pct, bufferParityPackets := par,
           bufferFirstParitySequenceNumber := first,
           bufferHighestSequenceNumber := first + of_nat par - 1,
           multiFecCurrentBlockNumber := fec_block_number v, multiFecLastBlockNumber := fec_last_block v\<rparr>)"

text \<open>The frame is given up; the queue waits for frame \<open>next\<close>.\<close>

definition drop_frame :: "u32 \<Rightarrow> video_queue \<Rightarrow> video_queue \<times> video_event list" where
  "drop_frame next q =
     (q\<lparr>pendingFecBlockList := purgeListEntries (pendingFecBlockList q),
        completedFecBlockList := purgeListEntries (completedFecBlockList q),
        reportedLostFrame := True, currentFrameNumber := next, multiFecCurrentBlockNumber := 0\<rparr>,
      if reportedLostFrame q then [] else [Frame_lost (currentFrameNumber q) False])"

text \<open>Lines 592 to 709: whether the packet may be queued, and the queue to put it in.\<close>

definition begin_block ::
  "video_env \<Rightarrow> u16 \<Rightarrow> nv_video_packet \<Rightarrow> video_queue \<Rightarrow> bool \<times> video_queue \<times> video_event list" where
  "begin_block e s v q =
     (let same = (currentFrameNumber q = frameIndex v); pending = (pendingFecBlockList q \<noteq> []);
          cur = multiFecCurrentBlockNumber q
      in if pending \<and> same \<and> cur = fec_block_number v then (True, q, [])
         else
           let ev1 = (if pending then reportFinalFrameFecStatus q else [])
           in if pending \<and> multiFecLastBlockNumber q \<noteq> 0 \<and> same then
                (case drop_frame (currentFrameNumber q + 1) q of (q, ev) \<Rightarrow> (False, q, ev1 @ ev))
              else if fec_block_number v \<noteq> (if same then cur else 0) then
                (case drop_frame (frameIndex v + 1) q of
                   (q', ev) \<Rightarrow> (False, q', ev1 @ reportFinalFrameFecStatus q @ ev))
              else
                let completed = (if same then completedFecBlockList q else purgeListEntries (completedFecBlockList q));
                    ev2 = (if \<not> same \<and> (currentFrameNumber q + 1 \<noteq> frameIndex v \<or> \<not> reportedLostFrame q)
                           then [Frame_lost (frameIndex v - 1) False] else [])
                in (True, start_block (venv_now e) s v
                            (q\<lparr>pendingFecBlockList := purgeListEntries (pendingFecBlockList q),
                               completedFecBlockList := completed\<rparr>),
                    ev1 @ ev2 @ [Saw_frame (frameIndex v)]))"

text \<open>Lines 733 to 764: the counters after a packet was queued.\<close>

definition count_packet :: "u16 \<Rightarrow> video_queue \<Rightarrow> video_queue option" where
  "count_packet s q = do {
     q \<leftarrow> (if length (pendingFecBlockList q) = 1 then do {
              _ \<leftarrow> LC_ASSERT (missingPackets q = 0);
              _ \<leftarrow> LC_ASSERT (receivedHighestSequenceNumber q = 0);
              Some (q\<lparr>missingPackets := missingPackets q + dist16 (bufferLowestSequenceNumber q) s,
                      receivedHighestSequenceNumber := s\<rparr>) }
           else if isBefore16 (receivedHighestSequenceNumber q) s
           then Some (q\<lparr>missingPackets := missingPackets q + unat (s - receivedHighestSequenceNumber q - 1),
                        receivedHighestSequenceNumber := s\<rparr>)
           else do {
              _ \<leftarrow> LC_ASSERT (missingPackets q > 0);
              Some (q\<lparr>missingPackets := missingPackets q - 1\<rparr>) });
     _ \<leftarrow> LC_ASSERT (missingPackets q < bufferDataPackets q + bufferParityPackets q);
     if isBefore16 s (bufferFirstParitySequenceNumber q) then do {
       let q = q\<lparr>receivedDataPackets := receivedDataPackets q + 1\<rparr>;
       _ \<leftarrow> LC_ASSERT (receivedDataPackets q \<le> bufferDataPackets q);
       Some q }
     else do {
       let q = q\<lparr>receivedParityPackets := receivedParityPackets q + 1\<rparr>;
       _ \<leftarrow> LC_ASSERT (receivedParityPackets q \<le> bufferParityPackets q);
       Some q } }"

text \<open>Lines 766 to 796: try to complete the block and the frame.\<close>

definition try_submit :: "video_env \<Rightarrow> video_queue \<Rightarrow> (video_queue \<times> video_event list) option" where
  "try_submit e q = do {
     (ret, q, ev) \<leftarrow> reconstructFrame e q;
     if ret \<noteq> 0 then Some (q, ev)
     else do {
       q \<leftarrow> stageCompleteFecBlock q;
       if multiFecCurrentBlockNumber q < multiFecLastBlockNumber q
       then Some (q\<lparr>multiFecCurrentBlockNumber := multiFecCurrentBlockNumber q + 1\<rparr>, ev)
       else do {
         (q, ev') \<leftarrow> submitCompletedFrame q;
         Some (q\<lparr>currentFrameNumber := currentFrameNumber q + 1, multiFecCurrentBlockNumber := 0\<rparr>, ev @ ev') } } }"

definition legacy_fixup :: "bool \<Rightarrow> nv_video_packet \<Rightarrow> nv_video_packet" where
  "legacy_fixup multiFec v = (if multiFec then v else v\<lparr>multiFecFlags := 0x10, multiFecBlocks := 0\<rparr>)"

definition RtpvAddPacket ::
  "video_env \<Rightarrow> video_queue \<Rightarrow> rtp_packet \<Rightarrow> nat \<Rightarrow> (int \<times> video_queue \<times> video_event list) option" where
  "RtpvAddPacket e q p len =
     (let s = sequenceNumber p
      in if isBefore16 s (nextContiguousSequenceNumber q) then Some (RTPF_RET_REJECTED, q, [])
         else if len < data_offset (rtp_header p) + sizeof_NV_VIDEO_PACKET then Some (RTPF_RET_REJECTED, q, [])
         else do {
           v \<leftarrow> read_nv p;
           let v = legacy_fixup (multiFecCapable q) v;
           p \<leftarrow> write_nv v p;
           if isBefore16 (frameIndex v) (currentFrameNumber q) then Some (RTPF_RET_REJECTED, q, [])
           else if frameIndex v = currentFrameNumber q \<and> fec_block_number v < multiFecCurrentBlockNumber q
           then Some (RTPF_RET_REJECTED, q, [])
           else do {
             let (accept, q, ev) = begin_block e s v q;
             if \<not> accept \<or> isBefore16 (bufferHighestSequenceNumber q) s then Some (RTPF_RET_REJECTED, q, ev)
             else do {
               (queued, q) \<leftarrow> queuePacket q p len (\<not> isBefore16 s (bufferFirstParitySequenceNumber q)) False;
               if \<not> queued then Some (RTPF_RET_REJECTED, q, ev)
               else do {
                 q \<leftarrow> count_packet s q;
                 (q, ev') \<leftarrow> try_submit e q;
                 Some (RTPF_RET_QUEUED, q, ev @ ev') } } } })"

end
