(* ===== verification/VideoAssembly.thy ===== *)
theory VideoAssembly
  imports RtpVideoQueue
begin

text \<open>
  Correctness of the video frame queue: the accounting of a block's packets is exact, every
  assertion holds, a recovered block has all its data packets, staging puts them in sequence
  order, and what reaches the depacketizer are whole frames.
\<close>

section \<open>Indices in a block\<close>

abbreviation ix :: "u16 \<Rightarrow> video_entry \<Rightarrow> nat" where
  "ix low e \<equiv> dist16 low (entry_seq e)"

abbreviation ixs :: "u16 \<Rightarrow> video_entry list \<Rightarrow> nat list" where
  "ixs low es \<equiv> map (ix low) es"

lemma before_ix:
  assumes "dist16 low s < 32768" "dist16 low t < 32768"
  shows "isBefore16 s t \<longleftrightarrow> dist16 low s < dist16 low t"
  by (rule s16.before_in_window [OF assms])

lemma dist16_between:
  assumes "dist16 low s \<le> dist16 low t"
  shows "dist16 s t = dist16 low t - dist16 low s"
  by (rule s16.dist_advance [OF assms])

lemma scan_pending_spec:
  assumes "dist16 low s < 32768" "\<forall>i \<in> set (ixs low es). i < 32768"
  shows "scan_pending s oos es =
    (if dist16 low s \<in> set (ixs low es) then None
     else Some (oos \<or> (\<exists>i \<in> set (ixs low es). dist16 low s < i)))"
  using assms
proof (induction es arbitrary: oos)
  case (Cons e es)
  have eq: "s = entry_seq e \<longleftrightarrow> dist16 low s = ix low e" by (simp add: dist16_inject)
  have lt: "isBefore16 s (entry_seq e) \<longleftrightarrow> dist16 low s < ix low e"
    using Cons.prems by (intro before_ix) auto
  show ?case using Cons by (auto simp: eq lt)
qed simp

text \<open>
  The pending list and the fast path: everything before the next contiguous number is there,
  and on the fast path nothing else is.
\<close>

definition pending_ok :: "u16 \<Rightarrow> u16 \<Rightarrow> bool \<Rightarrow> video_entry list \<Rightarrow> bool" where
  "pending_ok low c fast es \<longleftrightarrow> distinct (ixs low es) \<and> (\<forall>i \<in> set (ixs low es). i < 32767)
     \<and> {..<dist16 low c} \<subseteq> set (ixs low es) \<and> (fast \<longrightarrow> set (ixs low es) = {..<dist16 low c})"

lemma pending_ok_c: "pending_ok low c fast es \<Longrightarrow> dist16 low c < 32768"
  by (cases "dist16 low c") (auto simp: pending_ok_def)

definition queued_entry :: "rtp_packet \<Rightarrow> nat \<Rightarrow> bool \<Rightarrow> video_entry" where
  "queued_entry p len par =
     \<lparr>ve_packet = p, receiveTimeMs = 0, presentationTimeMs = timestamp p div PTS_DIVISOR, ve_length = len, isParity = par\<rparr>"

text \<open>The state after a packet was queued.\<close>

definition enqueued :: "video_queue \<Rightarrow> u16 \<Rightarrow> bool \<Rightarrow> bool \<Rightarrow> bool \<Rightarrow> video_entry \<Rightarrow> video_queue" where
  "enqueued q c fast rec oos e =
     (let q = q\<lparr>nextContiguousSequenceNumber := c, useFastQueuePath := fast\<rparr>;
          q = (if rec then q else track_video_oos oos (presentationTimeMs e) q)
      in q\<lparr>pendingFecBlockList := pendingFecBlockList q @ [e]\<rparr>)"

lemma queuePacket_spec:
  assumes ok: "pending_ok low (nextContiguousSequenceNumber q) (useFastQueuePath q) (pendingFecBlockList q)"
    and k: "dist16 low (sequenceNumber p) < 32767"
    and behind: "\<not> isBefore16 (sequenceNumber p) (nextContiguousSequenceNumber q)" and rec: "\<not> (rec \<and> par)"
  shows "if dist16 low (sequenceNumber p) \<in> set (ixs low (pendingFecBlockList q))
    then queuePacket q p len par rec = Some (False, q)
    else \<exists>c fast. queuePacket q p len par rec
        = Some (True, enqueued q c fast rec (\<exists>i \<in> set (ixs low (pendingFecBlockList q)). dist16 low (sequenceNumber p) < i)
                        (queued_entry p len par))
      \<and> pending_ok low c fast (pendingFecBlockList q @ [queued_entry p len par])"
proof -
  let ?es = "pendingFecBlockList q" and ?s = "sequenceNumber p" and ?c = "nextContiguousSequenceNumber q"
  let ?k = "dist16 low ?s"
  have lt: "\<forall>i \<in> set (ixs low ?es). i < 32768" using ok by (fastforce simp: pending_ok_def)
  have scan: "scan_pending ?s False ?es
      = (if ?k \<in> set (ixs low ?es) then None else Some (\<exists>i \<in> set (ixs low ?es). ?k < i))"
    using scan_pending_spec [OF _ lt, of ?s False] k by simp
  have c: "dist16 low ?c \<le> ?k" using behind before_ix [of low ?s ?c] k pending_ok_c [OF ok] by simp
  show ?thesis
  proof (cases "useFastQueuePath q \<and> ?s = ?c")
    case fast: True
    then have set: "set (ixs low ?es) = {..<?k}" using ok by (simp add: pending_ok_def)
    have d1: "dist16 low (?s + 1) = Suc ?k" using dist16_plus1 [of low ?s] k by simp
    have "queuePacket q p len par rec
        = Some (True, enqueued q (?s + 1) True rec False (queued_entry p len par))"
      using fast rec behind
      by (cases q) (simp add: queuePacket_def enqueued_def queued_entry_def insertEntryIntoList_def
          track_video_oos_def Let_def)
    moreover have "pending_ok low (?s + 1) True (?es @ [queued_entry p len par])"
      using ok set d1 k by (auto simp: pending_ok_def queued_entry_def)
    moreover have "\<not> (\<exists>i \<in> set (ixs low ?es). ?k < i)" "?k \<notin> set (ixs low ?es)" unfolding set by auto
    ultimately show ?thesis by (simp only: if_False) blast
  next
    case slow: False
    show ?thesis
    proof (cases "?k \<in> set (ixs low ?es)")
      case True
      then have "queuePacket q p len par rec = Some (False, q)"
        using slow rec behind scan by (auto simp: queuePacket_def)
      then show ?thesis by (simp only: True if_True)
    next
      case False
      then have "queuePacket q p len par rec
        = Some (True, enqueued q ?c False rec (\<exists>i \<in> set (ixs low ?es). ?k < i) (queued_entry p len par))"
        using slow rec behind scan
        by (cases q) (auto simp: queuePacket_def enqueued_def queued_entry_def insertEntryIntoList_def Let_def)
      moreover have "pending_ok low ?c False (?es @ [queued_entry p len par])"
        using ok False k by (auto simp: pending_ok_def queued_entry_def)
      ultimately show ?thesis by (simp only: False if_False) blast
    qed
  qed
qed

section \<open>The counters\<close>

text \<open>
  \<open>R\<close> are the indices of the packets received for the block (recovered ones not counted).  The
  number of missing packets is exactly the number of holes below the highest one.
\<close>

definition counters_ok :: "video_queue \<Rightarrow> nat set \<Rightarrow> bool" where
  "counters_ok q R \<longleftrightarrow> finite R \<and> R \<subseteq> {..<bufferDataPackets q + bufferParityPackets q}
     \<and> receivedDataPackets q = card (R \<inter> {..<bufferDataPackets q})
     \<and> receivedParityPackets q = card (R - {..<bufferDataPackets q})
     \<and> (if R = {} then missingPackets q = 0 \<and> receivedHighestSequenceNumber q = 0
        else dist16 (bufferLowestSequenceNumber q) (receivedHighestSequenceNumber q) = Max R
           \<and> missingPackets q + card R = Suc (Max R))"

text \<open>The number space of the block: \<open>data\<close> data packets and then the parity packets.\<close>

definition geometry :: "video_queue \<Rightarrow> bool" where
  "geometry q \<longleftrightarrow> 0 < bufferDataPackets q \<and> bufferDataPackets q + bufferParityPackets q \<le> 255
     \<and> bufferFirstParitySequenceNumber q = bufferLowestSequenceNumber q + of_nat (bufferDataPackets q)
     \<and> bufferHighestSequenceNumber q
         = bufferLowestSequenceNumber q + of_nat (bufferDataPackets q + bufferParityPackets q - 1)"

lemma geometry_dist:
  assumes "geometry q"
  shows "dist16 (bufferLowestSequenceNumber q) (bufferFirstParitySequenceNumber q) = bufferDataPackets q"
    "dist16 (bufferLowestSequenceNumber q) (bufferHighestSequenceNumber q)
       = bufferDataPackets q + bufferParityPackets q - 1"
proof -
  have d: "dist16 low (low + of_nat n) = n" if "n < 65536" for low n
    using dist16_plus [of low low n] that by simp
  have g: "bufferDataPackets q + bufferParityPackets q \<le> 255"
    "bufferFirstParitySequenceNumber q = bufferLowestSequenceNumber q + of_nat (bufferDataPackets q)"
    "bufferHighestSequenceNumber q
         = bufferLowestSequenceNumber q + of_nat (bufferDataPackets q + bufferParityPackets q - 1)"
    using assms unfolding geometry_def by blast+
  show "dist16 (bufferLowestSequenceNumber q) (bufferFirstParitySequenceNumber q) = bufferDataPackets q"
    unfolding g(2) by (rule d) (use g(1) in simp)
  show "dist16 (bufferLowestSequenceNumber q) (bufferHighestSequenceNumber q)
       = bufferDataPackets q + bufferParityPackets q - 1"
    unfolding g(3) by (rule d) (use g(1) in simp)
qed

lemma Suc_Max_insert:
  assumes "finite R" "R \<noteq> {}"
  shows "Max (insert k R) = max k (Max R)"
  using assms by simp

lemma card_below_Max: "finite (R :: nat set) \<Longrightarrow> R \<noteq> {} \<Longrightarrow> card R \<le> Suc (Max R)"
  using card_mono [of "{..Max R}" R] by (simp add: subset_iff)

lemma count_packet_ok:
  assumes g: "geometry q" and c: "counters_ok q R"
    and k: "dist16 (bufferLowestSequenceNumber q) s = k" "k < bufferDataPackets q + bufferParityPackets q" "k \<notin> R"
    and one: "length (pendingFecBlockList q) = 1 \<longleftrightarrow> R = {}"
  shows "\<exists>m h rd rp. count_packet s q = Some (q\<lparr>missingPackets := m, receivedHighestSequenceNumber := h,
        receivedDataPackets := rd, receivedParityPackets := rp\<rparr>)
    \<and> counters_ok (q\<lparr>missingPackets := m, receivedHighestSequenceNumber := h,
        receivedDataPackets := rd, receivedParityPackets := rp\<rparr>) (insert k R)"
proof -
  let ?low = "bufferLowestSequenceNumber q" and ?N = "bufferDataPackets q" and ?P = "bufferParityPackets q"
  let ?h = "receivedHighestSequenceNumber q" and ?m = "missingPackets q"
  have R: "finite R" "R \<subseteq> {..<?N + ?P}" "receivedDataPackets q = card (R \<inter> {..<?N})"
    "receivedParityPackets q = card (R - {..<?N})" using c by (simp_all add: counters_ok_def)
  have small: "?N + ?P \<le> 255" using g by (simp add: geometry_def)
  have par: "isBefore16 s (bufferFirstParitySequenceNumber q) \<longleftrightarrow> k < ?N"
    using before_ix [of ?low s "bufferFirstParitySequenceNumber q"] geometry_dist(1) [OF g] k small by simp
  have cd: "card (insert k R \<inter> {..<?N}) = (if k < ?N then Suc (card (R \<inter> {..<?N})) else card (R \<inter> {..<?N}))"
    "card (insert k R - {..<?N}) = (if k < ?N then card (R - {..<?N}) else Suc (card (R - {..<?N})))"
    using R(1) k(3) by (auto simp: insert_Diff_if)
  have "card (insert k R \<inter> {..<?N}) \<le> card {..<?N}" "card (insert k R - {..<?N}) \<le> card {?N..<?N + ?P}"
    by (rule card_mono; use R(2) k(2) in auto)+
  then have le: "card (insert k R \<inter> {..<?N}) \<le> ?N" "card (insert k R - {..<?N}) \<le> ?P" by simp_all
  have cR: "card (insert k R) = Suc (card R)" using R(1) k(3) by simp
  have "\<exists>m h. (if length (pendingFecBlockList q) = 1 then do {
              _ \<leftarrow> LC_ASSERT (?m = 0);
              _ \<leftarrow> LC_ASSERT (?h = 0);
              Some (q\<lparr>missingPackets := ?m + dist16 ?low s, receivedHighestSequenceNumber := s\<rparr>) }
           else if isBefore16 ?h s
           then Some (q\<lparr>missingPackets := ?m + unat (s - ?h - 1), receivedHighestSequenceNumber := s\<rparr>)
           else do {
              _ \<leftarrow> LC_ASSERT (?m > 0);
              Some (q\<lparr>missingPackets := ?m - 1\<rparr>) })
      = Some (q\<lparr>missingPackets := m, receivedHighestSequenceNumber := h\<rparr>)
    \<and> dist16 ?low h = Max (insert k R) \<and> m + card (insert k R) = Suc (Max (insert k R))"
  proof (cases "R = {}")
    case True
    then have "?m = 0" "?h = 0" using c by (simp_all add: counters_ok_def)
    then show ?thesis using True one k(1) by (intro exI [of _ k] exI [of _ s]) simp
  next
    case False
    then have h: "dist16 ?low ?h = Max R" "?m + card R = Suc (Max R)" using c by (simp_all add: counters_ok_def)
    have "Max R \<in> R" using R(1) False by simp
    then have mx: "Max R < ?N + ?P" "k \<noteq> Max R" using R(2) k(3) by auto
    have bef: "isBefore16 ?h s \<longleftrightarrow> Max R < k"
      using before_ix [of ?low ?h s] h(1) k mx small by simp
    have n1: "length (pendingFecBlockList q) \<noteq> 1" using one False by simp
    show ?thesis
    proof (cases "Max R < k")
      case True
      have "dist16 ?h s = k - Max R" using dist16_between [of ?low ?h s] True h(1) k(1) by simp
      then have d: "unat (s - ?h) = k - Max R" by (simp add: dist16_def)
      then have "unat (s - ?h - 1) = k - Max R - 1" using True by (simp add: unat_sub_if')
      then have "?m + unat (s - ?h - 1) + card (insert k R) = Suc k" using h(2) cR True by simp
      moreover have "Max (insert k R) = k" using Suc_Max_insert [OF R(1) False, of k] True by simp
      ultimately show ?thesis using n1 bef True k(1)
        by (intro exI [of _ "?m + unat (s - ?h - 1)"] exI [of _ s]) simp
    next
      case kl: False
      then have "k < Max R" using mx(2) by simp
      then have "R \<subseteq> {..Max R} - {k}" using R(1) k(3) by auto
      then have "card R \<le> card ({..Max R} - {k})" by (intro card_mono) auto
      then have "card R \<le> Max R" using \<open>k < Max R\<close> by simp
      then have "0 < ?m" using h(2) by simp
      moreover have "Max (insert k R) = Max R" using Suc_Max_insert [OF R(1) False, of k] \<open>k < Max R\<close> by simp
      ultimately show ?thesis using n1 bef kl h cR
        by (intro exI [of _ "?m - 1"] exI [of _ ?h]) simp
    qed
  qed
  then obtain m h where mh: "(if length (pendingFecBlockList q) = 1 then do {
              _ \<leftarrow> LC_ASSERT (?m = 0);
              _ \<leftarrow> LC_ASSERT (?h = 0);
              Some (q\<lparr>missingPackets := ?m + dist16 ?low s, receivedHighestSequenceNumber := s\<rparr>) }
           else if isBefore16 ?h s
           then Some (q\<lparr>missingPackets := ?m + unat (s - ?h - 1), receivedHighestSequenceNumber := s\<rparr>)
           else do {
              _ \<leftarrow> LC_ASSERT (?m > 0);
              Some (q\<lparr>missingPackets := ?m - 1\<rparr>) })
      = Some (q\<lparr>missingPackets := m, receivedHighestSequenceNumber := h\<rparr>)"
    "dist16 ?low h = Max (insert k R)" "m + card (insert k R) = Suc (Max (insert k R))" by blast
  have "Max (insert k R) < ?N + ?P" using R(1,2) k(2) by auto
  moreover have "0 < card (insert k R)" using R(1) by (simp add: card_gt_0_iff)
  ultimately have "m < ?N + ?P" using mh(3) by linarith
  then have "count_packet s q = Some (q\<lparr>missingPackets := m, receivedHighestSequenceNumber := h,
        receivedDataPackets := card (insert k R \<inter> {..<?N}), receivedParityPackets := card (insert k R - {..<?N})\<rparr>)"
    unfolding count_packet_def mh(1) using par le cd R(3,4) by (cases q; cases "k < ?N") simp_all
  moreover have "counters_ok (q\<lparr>missingPackets := m, receivedHighestSequenceNumber := h,
        receivedDataPackets := card (insert k R \<inter> {..<?N}), receivedParityPackets := card (insert k R - {..<?N})\<rparr>) (insert k R)"
    using mh(2,3) R(1,2) k(2) by (simp add: counters_ok_def)
  ultimately show ?thesis by blast
qed

section \<open>Collecting a block\<close>

text \<open>The frame a packet belongs to, as its video header says.\<close>

definition frame_of :: "rtp_packet \<Rightarrow> u32 option" where
  "frame_of p = map_option frameIndex (read_nv p)"

definition entry_ok :: "nat \<Rightarrow> video_queue \<Rightarrow> u32 \<Rightarrow> video_entry \<Rightarrow> bool" where
  "entry_ok sz q T e \<longleftrightarrow> ix (bufferLowestSequenceNumber q) e < bufferDataPackets q + bufferParityPackets q
     \<and> (isParity e \<longleftrightarrow> bufferDataPackets q \<le> ix (bufferLowestSequenceNumber q) e)
     \<and> timestamp (ve_packet e) = T \<and> presentationTimeMs e = T div PTS_DIVISOR
     \<and> 12 \<le> ve_length e \<and> ve_length e \<le> sz \<and> length (payload (ve_packet e)) = sz - 12
     \<and> data_offset (rtp_header (ve_packet e)) + 16 \<le> ve_length e \<and> frame_of (ve_packet e) = Some (currentFrameNumber q)"

text \<open>Out-of-sequence data seen in this block still counts, whatever the clock of the stream.\<close>

definition oos_bound :: "video_queue \<Rightarrow> bool" where
  "oos_bound q \<longleftrightarrow> unat (lastOosFramePresentationTimestamp q) \<le> 47721858"

definition oos_ok :: "video_queue \<Rightarrow> u32 \<Rightarrow> bool" where
  "oos_ok q T \<longleftrightarrow> oos_bound q \<and> (vq_receivedOosData q
     \<longrightarrow> unat (T div PTS_DIVISOR) \<le> unat (lastOosFramePresentationTimestamp q) + 300000)"

definition collecting :: "nat \<Rightarrow> video_queue \<Rightarrow> nat set \<Rightarrow> u32 \<Rightarrow> bool" where
  "collecting sz q R T \<longleftrightarrow> geometry q \<and> counters_ok q R \<and> bufferFirstRecvTimeMs q \<noteq> 0
     \<and> pending_ok (bufferLowestSequenceNumber q) (nextContiguousSequenceNumber q) (useFastQueuePath q) (pendingFecBlockList q)
     \<and> (\<forall>e \<in> set (pendingFecBlockList q). entry_ok sz q T e)
     \<and> R \<subseteq> set (ixs (bufferLowestSequenceNumber q) (pendingFecBlockList q))
     \<and> (set (ixs (bufferLowestSequenceNumber q) (pendingFecBlockList q)) = R \<or> bufferDataPackets q \<le> card R)
     \<and> oos_bound q \<and> (R \<noteq> {} \<longrightarrow> oos_ok q T)
     \<and> (reportedLostFrame q \<longrightarrow> R \<noteq> {} \<and> (vq_receivedOosData q \<or> bufferParityPackets q < missingPackets q))"

text \<open>What collecting and recovering packets leave alone.\<close>

definition same_block :: "video_queue \<Rightarrow> video_queue \<Rightarrow> bool" where
  "same_block q' q \<longleftrightarrow> completedFecBlockList q' = completedFecBlockList q
     \<and> bufferFirstRecvTimeMs q' = bufferFirstRecvTimeMs q
     \<and> bufferLowestSequenceNumber q' = bufferLowestSequenceNumber q
     \<and> bufferHighestSequenceNumber q' = bufferHighestSequenceNumber q
     \<and> bufferFirstParitySequenceNumber q' = bufferFirstParitySequenceNumber q
     \<and> bufferDataPackets q' = bufferDataPackets q \<and> bufferParityPackets q' = bufferParityPackets q
     \<and> fecPercentage q' = fecPercentage q \<and> currentFrameNumber q' = currentFrameNumber q
     \<and> multiFecCapable q' = multiFecCapable q
     \<and> multiFecCurrentBlockNumber q' = multiFecCurrentBlockNumber q
     \<and> multiFecLastBlockNumber q' = multiFecLastBlockNumber q"

lemma same_block_refl [simp]: "same_block q q" by (simp add: same_block_def)

lemma same_block_trans: "same_block q'' q' \<Longrightarrow> same_block q' q \<Longrightarrow> same_block q'' q"
  by (simp add: same_block_def)

lemma same_block_geometry: "same_block q' q \<Longrightarrow> geometry q' = geometry q"
  by (simp add: same_block_def geometry_def)

lemma same_block_entry_ok: "same_block q' q \<Longrightarrow> entry_ok sz q' T e = entry_ok sz q T e"
  by (simp add: same_block_def entry_ok_def)

lemma enqueued_same_block [simp]: "same_block (enqueued q c fast rec oos e) q"
  by (simp add: enqueued_def same_block_def track_video_oos_def Let_def)

lemma enqueued_simps [simp]:
  "pendingFecBlockList (enqueued q c fast rec oos e) = pendingFecBlockList q @ [e]"
  "nextContiguousSequenceNumber (enqueued q c fast rec oos e) = c"
  "useFastQueuePath (enqueued q c fast rec oos e) = fast"
  "receivedDataPackets (enqueued q c fast rec oos e) = receivedDataPackets q"
  "receivedParityPackets (enqueued q c fast rec oos e) = receivedParityPackets q"
  "receivedHighestSequenceNumber (enqueued q c fast rec oos e) = receivedHighestSequenceNumber q"
  "missingPackets (enqueued q c fast rec oos e) = missingPackets q"
  "reportedLostFrame (enqueued q c fast rec oos e) = reportedLostFrame q"
  "bufferLowestSequenceNumber (enqueued q c fast rec oos e) = bufferLowestSequenceNumber q"
  "bufferDataPackets (enqueued q c fast rec oos e) = bufferDataPackets q"
  "bufferParityPackets (enqueued q c fast rec oos e) = bufferParityPackets q"
  "bufferFirstRecvTimeMs (enqueued q c fast rec oos e) = bufferFirstRecvTimeMs q"
  by (simp_all add: enqueued_def track_video_oos_def Let_def)

lemma enqueued_recovery_oos [simp]:
  "vq_receivedOosData (enqueued q c fast True oos e) = vq_receivedOosData q"
  "lastOosFramePresentationTimestamp (enqueued q c fast True oos e) = lastOosFramePresentationTimestamp q"
  by (simp_all add: enqueued_def Let_def)

lemma pts_bound: "unat (T div PTS_DIVISOR) \<le> 47721858"
proof -
  have "unat T < 4294967296" using unsigned_less [of T, where 'a = nat] by simp
  then show ?thesis by (simp add: PTS_DIVISOR_def unat_div)
qed

text \<open>After tracking a packet the bound holds; data out of sequence is remembered.\<close>

lemma track_oos:
  assumes "oos_bound q"
  shows "oos_ok (enqueued q c fast False oos (queued_entry p len par)) (timestamp p)"
    "oos \<Longrightarrow> vq_receivedOosData (enqueued q c fast False oos (queued_entry p len par))"
    "oos_ok q (timestamp p) \<Longrightarrow> vq_receivedOosData q
       \<Longrightarrow> vq_receivedOosData (enqueued q c fast False oos (queued_entry p len par))"
proof -
  let ?t = "timestamp p div PTS_DIVISOR" and ?l = "lastOosFramePresentationTimestamp q"
  have "unat (?l + 300000) = unat ?l + 300000"
    using assms by (intro unat_plus_small [of ?l 300000, simplified]) (simp add: oos_bound_def)
  then have late: "?l + SPECULATIVE_RFI_COOLDOWN_PERIOD_MS < ?t \<longleftrightarrow> unat ?l + 300000 < unat ?t"
    by (simp add: SPECULATIVE_RFI_COOLDOWN_PERIOD_MS_def word_less_nat_alt)
  show "oos_ok (enqueued q c fast False oos (queued_entry p len par)) (timestamp p)"
    using assms late pts_bound [of "timestamp p"]
    by (auto simp: oos_ok_def oos_bound_def enqueued_def queued_entry_def track_video_oos_def Let_def)
  show "oos \<Longrightarrow> vq_receivedOosData (enqueued q c fast False oos (queued_entry p len par))"
    by (simp add: enqueued_def track_video_oos_def Let_def)
  show "oos_ok q (timestamp p) \<Longrightarrow> vq_receivedOosData q
       \<Longrightarrow> vq_receivedOosData (enqueued q c fast False oos (queued_entry p len par))"
    using late by (auto simp: oos_ok_def enqueued_def queued_entry_def track_video_oos_def Let_def)
qed

lemma collectingD:
  assumes "collecting sz q R T"
  shows "geometry q" "counters_ok q R" "bufferFirstRecvTimeMs q \<noteq> 0"
    "pending_ok (bufferLowestSequenceNumber q) (nextContiguousSequenceNumber q) (useFastQueuePath q) (pendingFecBlockList q)"
    "e \<in> set (pendingFecBlockList q) \<Longrightarrow> entry_ok sz q T e"
    "R \<subseteq> set (ixs (bufferLowestSequenceNumber q) (pendingFecBlockList q))"
    "set (ixs (bufferLowestSequenceNumber q) (pendingFecBlockList q)) = R \<or> bufferDataPackets q \<le> card R"
    "oos_bound q" "R \<noteq> {} \<longrightarrow> oos_ok q T"
    "reportedLostFrame q \<longrightarrow> R \<noteq> {} \<and> (vq_receivedOosData q \<or> bufferParityPackets q < missingPackets q)"
  using assms unfolding collecting_def by (elim conjE; simp)+

lemma add_to_block:
  assumes col: "collecting sz q R T" and T: "R \<noteq> {} \<longrightarrow> timestamp p = T"
    and k: "k = dist16 (bufferLowestSequenceNumber q) (sequenceNumber p)" "k < bufferDataPackets q + bufferParityPackets q"
    and behind: "\<not> isBefore16 (sequenceNumber p) (nextContiguousSequenceNumber q)"
    and len: "12 \<le> len" "len \<le> sz" "length (payload p) = sz - 12"
      "data_offset (rtp_header p) + 16 \<le> len" "frame_of p = Some (currentFrameNumber q)"
    and par: "par \<longleftrightarrow> \<not> isBefore16 (sequenceNumber p) (bufferFirstParitySequenceNumber q)"
  shows "queuePacket q p len par False = Some (False, q)
    \<or> (\<exists>q1 q2. queuePacket q p len par False = Some (True, q1) \<and> count_packet (sequenceNumber p) q1 = Some q2
        \<and> collecting sz q2 (insert k R) (timestamp p) \<and> same_block q2 q
        \<and> pendingFecBlockList q2 = pendingFecBlockList q @ [queued_entry p len par])"
proof -
  let ?low = "bufferLowestSequenceNumber q" and ?N = "bufferDataPackets q" and ?P = "bufferParityPackets q"
  let ?es = "pendingFecBlockList q" and ?e = "queued_entry p len par"
  note g = collectingD [OF col]
  have small: "?N + ?P \<le> 255" "0 < ?N" using g(1) unfolding geometry_def by blast+
  note k' = k(1) [symmetric]
  have par': "par \<longleftrightarrow> ?N \<le> k"
    using before_ix [of ?low "sequenceNumber p" "bufferFirstParitySequenceNumber q"]
      geometry_dist(1) [OF g(1)] par k' k(2) small(1) by auto
  note qs = queuePacket_spec [OF g(4) _ behind, of False par len, unfolded k']
  show ?thesis
  proof (cases "k \<in> set (ixs ?low ?es)")
    case True
    then show ?thesis using qs k(2) small by simp
  next
    case False
    let ?oos = "\<exists>i \<in> set (ixs ?low ?es). k < i"
    obtain c fast where cf: "queuePacket q p len par False = Some (True, enqueued q c fast False ?oos ?e)"
      "pending_ok ?low c fast (?es @ [?e])" using qs False k(2) small by auto
    let ?q1 = "enqueued q c fast False ?oos ?e"
    have kR: "k \<notin> R" using False g(6) by blast
    have one: "length (pendingFecBlockList ?q1) = 1 \<longleftrightarrow> R = {}"
    proof -
      have "?es = [] \<longleftrightarrow> R = {}" using g(6,7) small(2) by (auto simp del: set_map)
      then show ?thesis by simp
    qed
    have g1: "geometry ?q1" "counters_ok ?q1 R"
      using same_block_geometry [OF enqueued_same_block] g(1,2) by (simp_all add: counters_ok_def)
    obtain m h rd rp where cp: "count_packet (sequenceNumber p) ?q1 = Some (?q1\<lparr>missingPackets := m, receivedHighestSequenceNumber := h,
        receivedDataPackets := rd, receivedParityPackets := rp\<rparr>)"
      "counters_ok (?q1\<lparr>missingPackets := m, receivedHighestSequenceNumber := h,
        receivedDataPackets := rd, receivedParityPackets := rp\<rparr>) (insert k R)"
      using count_packet_ok [OF g1 _ _ kR one, of "sequenceNumber p"] k' k(2) by auto
    let ?q2 = "?q1\<lparr>missingPackets := m, receivedHighestSequenceNumber := h,
        receivedDataPackets := rd, receivedParityPackets := rp\<rparr>"
    have sb: "same_block ?q2 q" using enqueued_same_block by (simp add: same_block_def)
    have ok: "entry_ok sz q (timestamp p) e" if "e \<in> set (?es @ [?e])" for e
    proof (cases "e \<in> set ?es")
      case True
      then have "R \<noteq> {}" using g(7) small(2) by auto
      then show ?thesis using g(5) [OF True] T by simp
    next
      case False
      then have "e = ?e" using that by simp
      then show ?thesis using k' k(2) par' len by (simp add: entry_ok_def queued_entry_def)
    qed
    have oos: "oos_ok ?q2 (timestamp p)" "oos_bound ?q2"
      using track_oos(1) [OF g(8)] by (simp_all add: oos_ok_def oos_bound_def)
    have rep: "vq_receivedOosData ?q2 \<or> ?P < m" if r: "reportedLostFrame q"
    proof (cases "?oos \<or> vq_receivedOosData q")
      case True
      have "oos_ok q (timestamp p)" using g(9,10) T r by auto
      then have "vq_receivedOosData ?q1"
        using True track_oos(2) [OF g(8), of ?oos c fast p len par] track_oos(3) [OF g(8), of p c fast ?oos len par]
        by argo
      then show ?thesis by simp
    next
      case no: False
      then have R: "R \<noteq> {}" "?P < missingPackets q" using g(10) r by auto
      have fin: "finite R" using g(2) by (simp add: counters_ok_def)
      then have "Max R \<in> R" using R(1) by simp
      then have "Max R < k" using no g(6) kR by (metis linorder_neqE_nat subsetD)
      then have "Max (insert k R) = k" using Suc_Max_insert [OF fin R(1), of k] by simp
      moreover have "missingPackets q + card R = Suc (Max R)" using g(2) R(1) by (simp add: counters_ok_def)
      moreover have "m + card (insert k R) = Suc (Max (insert k R))" using cp(2) by (simp add: counters_ok_def)
      moreover have "card (insert k R) = Suc (card R)" using fin kR by simp
      ultimately show ?thesis using \<open>Max R < k\<close> R(2) by simp
    qed
    have "collecting sz ?q2 (insert k R) (timestamp p)"
      unfolding collecting_def
    proof (intro conjI)
      show "geometry ?q2" using same_block_geometry [OF sb] g(1) by simp
      show "\<forall>e \<in> set (pendingFecBlockList ?q2). entry_ok sz ?q2 (timestamp p) e"
        using ok same_block_entry_ok [OF sb] by simp
      show "pending_ok (bufferLowestSequenceNumber ?q2) (nextContiguousSequenceNumber ?q2) (useFastQueuePath ?q2) (pendingFecBlockList ?q2)"
        using cf(2) by simp
      have ixe: "set (ixs ?low (?es @ [?e])) = insert k (set (ixs ?low ?es))" using k' by (simp add: queued_entry_def)
      show "insert k R \<subseteq> set (ixs (bufferLowestSequenceNumber ?q2) (pendingFecBlockList ?q2))"
        using ixe g(6) by auto
      have "?N \<le> card R \<Longrightarrow> ?N \<le> card (insert k R)"
        using card_insert_le [of R k] by linarith
      then show "set (ixs (bufferLowestSequenceNumber ?q2) (pendingFecBlockList ?q2)) = insert k R
          \<or> bufferDataPackets ?q2 \<le> card (insert k R)"
        using ixe g(7) by auto
      show "reportedLostFrame ?q2 \<longrightarrow> insert k R \<noteq> {} \<and> (vq_receivedOosData ?q2 \<or> bufferParityPackets ?q2 < missingPackets ?q2)"
        using rep by simp
    qed (use cp(2) oos g(3) in simp_all)
    then show ?thesis using cf(1) cp(1) sb by auto
  qed
qed

section \<open>Recovering a block\<close>

lemma collect_shards_spec:
  assumes "distinct (ixs low es)" "\<forall>e \<in> set es. ix low e < length old \<and> old ! ix low e = None
      \<and> 12 \<le> ve_length e \<and> ve_length e \<le> sz \<and> length (payload (ve_packet e)) = sz - 12"
  shows "\<exists>packets. collect_shards sz low es old = Some packets \<and> length packets = length old
    \<and> (\<forall>e \<in> set es. packets ! ix low e = Some (rtp_bytes (ve_packet (pad_entry sz e))))
    \<and> (\<forall>i < length old. i \<notin> set (ixs low es) \<longrightarrow> packets ! i = old ! i)"
  using assms
proof (induction es arbitrary: old)
  case (Cons e es)
  let ?k = "ix low e"
  let ?new = "old[?k := Some (rtp_bytes (ve_packet (pad_entry sz e)))]"
  have k: "?k < length old" "old ! ?k = None" "?k \<notin> set (ixs low es)" "12 \<le> ve_length e" "ve_length e \<le> sz"
    "length (payload (ve_packet e)) = sz - 12" using Cons.prems by simp_all
  have other: "ix low f \<noteq> ?k" if "f \<in> set es" for f
    using k(3) that unfolding list.set_map by (metis image_eqI)
  have "\<exists>packets. collect_shards sz low es ?new = Some packets \<and> length packets = length ?new
    \<and> (\<forall>e \<in> set es. packets ! ix low e = Some (rtp_bytes (ve_packet (pad_entry sz e))))
    \<and> (\<forall>i < length ?new. i \<notin> set (ixs low es) \<longrightarrow> packets ! i = ?new ! i)"
    by (rule Cons.IH) (use Cons.prems other in \<open>auto simp: nth_update\<close>)
  then obtain packets where p: "collect_shards sz low es ?new = Some packets" "length packets = length old"
    "\<forall>e \<in> set es. packets ! ix low e = Some (rtp_bytes (ve_packet (pad_entry sz e)))"
    "\<forall>i < length old. i \<notin> set (ixs low es) \<longrightarrow> packets ! i = ?new ! i" by auto
  have "collect_shards sz low (e # es) old = Some packets" using p(1) k by (simp add: Let_def)
  moreover have "packets ! ?k = Some (rtp_bytes (ve_packet (pad_entry sz e)))" using p(4) k(1,3) by simp
  moreover have "packets ! i = old ! i" if "i < length old" "i \<notin> set (ixs low (e # es))" for i
    using p(4) that by auto
  ultimately show ?case using p(2,3) by auto
qed simp

lemma length_rtp_bytes [simp]: "length (rtp_bytes p) = 12 + length (payload p)"
  by (simp add: rtp_bytes_def)

lemma length_nv_bytes [simp]: "length (nv_bytes v) = 16"
  by (simp add: nv_bytes_def)

lemma pad_entry_simps [simp]:
  "isParity (pad_entry sz e) = isParity e" "entry_seq (pad_entry sz e) = entry_seq e"
  "presentationTimeMs (pad_entry sz e) = presentationTimeMs e" "ve_length (pad_entry sz e) = ve_length e"
  "timestamp (ve_packet (pad_entry sz e)) = timestamp (ve_packet e)"
  "rtp_header (ve_packet (pad_entry sz e)) = rtp_header (ve_packet e)"
  "ssrc (ve_packet (pad_entry sz e)) = ssrc (ve_packet e)"
  "receiveTimeMs (pad_entry sz e) = receiveTimeMs e"
  by (simp_all add: pad_entry_def)

lemma pad_entry_length:
  "12 \<le> ve_length e \<Longrightarrow> ve_length e \<le> sz \<Longrightarrow> length (payload (ve_packet e)) = sz - 12
   \<Longrightarrow> length (payload (ve_packet (pad_entry sz e))) = sz - 12"
  by (auto simp: pad_entry_def)

lemma data_offset_bound: "12 \<le> data_offset h" "data_offset h \<le> 16"
  by (simp_all add: data_offset_def)

lemma window_in_prefix:
  assumes "i + n \<le> k" "k \<le> length xs"
  shows "take n (drop i (take k xs @ zs)) = take n (drop i xs)"
proof -
  have "drop i (take k xs @ zs) = drop i (take k xs) @ zs" using assms by simp
  also have "take n \<dots> = take n (drop i (take k xs))" using assms by simp
  also have "\<dots> = take n (drop i xs)" using assms(1) by (simp add: drop_take min_def)
  finally show ?thesis .
qed

lemma pad_entry_frame_of:
  assumes "data_offset (rtp_header (ve_packet e)) + 16 \<le> ve_length e" "length (payload (ve_packet e)) = sz - 12" "ve_length e \<le> sz"
  shows "frame_of (ve_packet (pad_entry sz e)) = frame_of (ve_packet e)"
proof -
  let ?off = "data_offset (rtp_header (ve_packet e)) - 12"
  have off: "?off + 16 \<le> ve_length e - 12" using assms(1) data_offset_bound [of "rtp_header (ve_packet e)"] by linarith
  have "take 16 (drop ?off (take (ve_length e - 12) (payload (ve_packet e)) @ zs)) = take 16 (drop ?off (payload (ve_packet e)))" for zs
    by (rule window_in_prefix [OF off]) (use assms in simp)
  then have "mem_read (payload (ve_packet (pad_entry sz e))) ?off 16 = mem_read (payload (ve_packet e)) ?off 16"
    using off assms(2,3) by (simp add: mem_read_def pad_entry_def)
  then show ?thesis by (simp add: frame_of_def read_nv_def)
qed

lemma pad_entry_ok: "entry_ok sz q T e \<Longrightarrow> entry_ok sz q T (pad_entry sz e)"
  by (auto simp: entry_ok_def pad_entry_length pad_entry_frame_of)

lemma ixs_pad [simp]: "ixs low (map (pad_entry sz) es) = ixs low es"
  by simp

lemma pending_ok_pad: "pending_ok low c fast (map (pad_entry sz) es) = pending_ok low c fast es"
  unfolding pending_ok_def ixs_pad ..

lemma nv_roundtrip: "nv_of_bytes (nv_bytes v) = v"
  by (simp add: nv_of_bytes_def nv_bytes_def nth_append)

lemma read_write_nv:
  assumes "write_nv v p = Some p'"
  shows "read_nv p' = Some v" "rtp_header p' = rtp_header p" "sequenceNumber p' = sequenceNumber p"
    "timestamp p' = timestamp p" "length (payload p') = length (payload p)"
proof -
  obtain bs where bs: "mem_write (payload p) (data_offset (rtp_header p) - 12) (nv_bytes v) = Some bs" "p' = p\<lparr>payload := bs\<rparr>"
    using assms by (auto simp: write_nv_def)
  show "read_nv p' = Some v" using mem_read_write_same [OF bs(1)] bs(2) by (simp add: read_nv_def nv_roundtrip)
  show "length (payload p') = length (payload p)" using mem_write_length [OF bs(1)] bs(2) by simp
qed (use assms in \<open>auto simp: write_nv_def\<close>)

text \<open>A recovered packet is rewritten inside its buffer.\<close>

lemma recovered_packet_ok:
  assumes "length bytes = sz" "32 \<le> sz"
  shows "\<exists>p v. recovered_video_packet q h i bytes = Some (p, v) \<and> sequenceNumber p = of_nat i + bufferLowestSequenceNumber q
    \<and> timestamp p = timestamp h \<and> rtp_header p = rtp_header h \<and> length (payload p) = sz - 12
    \<and> frame_of p = Some (currentFrameNumber q)"
proof -
  let ?p = "(rtp_of_bytes bytes)\<lparr>sequenceNumber := of_nat i + bufferLowestSequenceNumber q,
               rtp_header := rtp_header h, timestamp := timestamp h, ssrc := ssrc h\<rparr>"
  let ?off = "data_offset (rtp_header h) - 12"
  have len: "length (payload ?p) = sz - 12" using assms(1) by (simp add: rtp_of_bytes_def)
  have off: "?off + 16 \<le> sz - 12" using data_offset_bound [of "rtp_header h"] assms(2) by linarith
  have r: "read_nv ?p = Some (nv_of_bytes (take 16 (drop ?off (payload ?p))))"
    using off len by (simp add: read_nv_def mem_read_def)
  have w: "\<exists>bs. write_nv v ?p = Some (?p\<lparr>payload := bs\<rparr>) \<and> length bs = sz - 12" for v
    using off len by (intro exI [of _ "take ?off (payload ?p) @ nv_bytes v @ drop (?off + 16) (payload ?p)"])
      (simp add: write_nv_def mem_write_def)
  define v where "v = (nv_of_bytes (take 16 (drop ?off (payload ?p))))\<lparr>frameIndex := currentFrameNumber q,
    multiFecBlocks := push_bit 4 (push_bit 2 (multiFecLastBlockNumber q) OR multiFecCurrentBlockNumber q)\<rparr>"
  obtain bs where bs: "write_nv v ?p = Some (?p\<lparr>payload := bs\<rparr>)" "length bs = sz - 12" using w by blast
  have "recovered_video_packet q h i bytes = Some (?p\<lparr>payload := bs\<rparr>, v)"
    unfolding recovered_video_packet_def Let_def r Option.bind.simps v_def [symmetric] bs(1) ..
  moreover have "frame_of (?p\<lparr>payload := bs\<rparr>) = Some (currentFrameNumber q)"
    using read_write_nv(1) [OF bs(1)] by (simp add: frame_of_def v_def)
  ultimately show ?thesis using bs(2) by (intro exI [of _ "?p\<lparr>payload := bs\<rparr>"] exI [of _ v]) simp
qed

text \<open>
  Queueing the recovered packets: \<open>todo\<close> are missing indices.  Unless one looks corrupt, all its
  data indices are in the pending list afterwards.
\<close>

lemma queue_recovered_ok:
  assumes "geometry q" "pending_ok (bufferLowestSequenceNumber q) (nextContiguousSequenceNumber q) (useFastQueuePath q) (pendingFecBlockList q)"
    and "\<forall>e \<in> set (pendingFecBlockList q). entry_ok sz q T e" "pendingFecBlockList q \<noteq> []"
    and "distinct todo" "set todo \<inter> set (ixs (bufferLowestSequenceNumber q) (pendingFecBlockList q)) = {}"
    and "\<forall>i \<in> set todo. length (out i) = sz" "32 \<le> sz"
  shows "\<exists>ret' q'. queue_recovered (sz - 16) out todo (ret, q) = Some (ret', q') \<and> same_block q' q
    \<and> pending_ok (bufferLowestSequenceNumber q') (nextContiguousSequenceNumber q') (useFastQueuePath q') (pendingFecBlockList q')
    \<and> (\<forall>e \<in> set (pendingFecBlockList q'). entry_ok sz q' T e)
    \<and> (\<exists>es. pendingFecBlockList q' = pendingFecBlockList q @ es)
    \<and> receivedDataPackets q' = receivedDataPackets q \<and> receivedParityPackets q' = receivedParityPackets q
    \<and> receivedHighestSequenceNumber q' = receivedHighestSequenceNumber q \<and> missingPackets q' = missingPackets q
    \<and> reportedLostFrame q' = reportedLostFrame q \<and> vq_receivedOosData q' = vq_receivedOosData q
    \<and> lastOosFramePresentationTimestamp q' = lastOosFramePresentationTimestamp q
    \<and> (ret' = 0 \<longrightarrow> ret = 0 \<and> {i \<in> set todo. i < bufferDataPackets q}
          \<subseteq> set (ixs (bufferLowestSequenceNumber q) (pendingFecBlockList q')))"
  using assms
proof (induction todo arbitrary: ret q)
  case Nil
  then show ?case by simp
next
  case (Cons i todo)
  let ?low = "bufferLowestSequenceNumber q" and ?N = "bufferDataPackets q"
  have skip: ?case if "\<not> (ret = 0 \<and> i < ?N)"
  proof -
    obtain r1 q1 where r1: "queue_recovered (sz - 16) out todo (ret, q) = Some (r1, q1)" "same_block q1 q"
      "pending_ok (bufferLowestSequenceNumber q1) (nextContiguousSequenceNumber q1) (useFastQueuePath q1) (pendingFecBlockList q1)"
      "\<forall>e \<in> set (pendingFecBlockList q1). entry_ok sz q1 T e" "\<exists>es. pendingFecBlockList q1 = pendingFecBlockList q @ es"
      "receivedDataPackets q1 = receivedDataPackets q" "receivedParityPackets q1 = receivedParityPackets q"
      "receivedHighestSequenceNumber q1 = receivedHighestSequenceNumber q" "missingPackets q1 = missingPackets q"
      "reportedLostFrame q1 = reportedLostFrame q" "vq_receivedOosData q1 = vq_receivedOosData q"
      "lastOosFramePresentationTimestamp q1 = lastOosFramePresentationTimestamp q"
      "r1 = 0 \<longrightarrow> ret = 0 \<and> {i \<in> set todo. i < ?N} \<subseteq> set (ixs ?low (pendingFecBlockList q1))"
      using Cons.IH [OF Cons.prems(1-4), of ret] Cons.prems(5-8) by (auto simp del: set_map)
    have "queue_recovered (sz - 16) out (i # todo) (ret, q) = Some (r1, q1)" using that r1(1) by auto
    moreover have "r1 = 0 \<longrightarrow> {j \<in> set (i # todo). j < ?N} \<subseteq> set (ixs ?low (pendingFecBlockList q1))"
      using r1(13) that by auto
    ultimately show ?thesis using r1 by blast
  qed
  show ?case
  proof (cases "ret = 0 \<and> i < ?N")
    case False
    then show ?thesis by (rule skip)
  next
    case True
    obtain h hs where hd: "pendingFecBlockList q = h # hs" using Cons.prems(4) by (cases "pendingFecBlockList q") auto
    have li: "length (out i) = sz" using Cons.prems(7) by simp
    from recovered_packet_ok [OF li Cons.prems(8), of q "ve_packet h" i] obtain p v where
      p: "recovered_video_packet q (ve_packet h) i (out i) = Some (p, v)"
      "sequenceNumber p = of_nat i + ?low" "timestamp p = timestamp (ve_packet h)"
      "rtp_header p = rtp_header (ve_packet h)" "length (payload p) = sz - 12"
      "frame_of p = Some (currentFrameNumber q)" by blast
    show ?thesis
    proof (cases "corrupt_recovery q i (nv_flags v)")
      case corrupt: True
      have rest: "set todo \<inter> set (ixs ?low (pendingFecBlockList q)) = {}" "distinct todo"
        "\<forall>i \<in> set todo. length (out i) = sz" using Cons.prems by auto
      from Cons.IH [OF Cons.prems(1-4) rest(2,1,3) Cons.prems(8), of "- 1"] obtain r1 q1 where
        r1: "queue_recovered (sz - 16) out todo (- 1, q) = Some (r1, q1)" "same_block q1 q"
        "pending_ok (bufferLowestSequenceNumber q1) (nextContiguousSequenceNumber q1) (useFastQueuePath q1) (pendingFecBlockList q1)"
        "\<forall>e \<in> set (pendingFecBlockList q1). entry_ok sz q1 T e" "\<exists>es. pendingFecBlockList q1 = pendingFecBlockList q @ es"
        "receivedDataPackets q1 = receivedDataPackets q" "receivedParityPackets q1 = receivedParityPackets q"
        "receivedHighestSequenceNumber q1 = receivedHighestSequenceNumber q" "missingPackets q1 = missingPackets q"
        "reportedLostFrame q1 = reportedLostFrame q" "vq_receivedOosData q1 = vq_receivedOosData q"
        "lastOosFramePresentationTimestamp q1 = lastOosFramePresentationTimestamp q"
        "r1 = 0 \<longrightarrow> (- 1 :: int) = 0" by blast
      have "queue_recovered (sz - 16) out (i # todo) (ret, q) = Some (r1, q1)"
        using True hd p(1) corrupt r1(1) by simp
      moreover have "r1 \<noteq> 0" using r1(13) by simp
      ultimately show ?thesis using r1 by blast
    next
      case sane: False
      have small: "?N + bufferParityPackets q \<le> 255" using Cons.prems(1) by (simp add: geometry_def)
      have ki: "dist16 ?low (sequenceNumber p) = i"
        using dist16_plus [of ?low ?low i] True small p(2) by (simp add: add.commute)
      have new: "i \<notin> set (ixs ?low (pendingFecBlockList q))" using Cons.prems(6) by auto
      have "\<not> i < dist16 ?low (nextContiguousSequenceNumber q)"
        using new Cons.prems(2) unfolding pending_ok_def by blast
      then have behind: "\<not> isBefore16 (sequenceNumber p) (nextContiguousSequenceNumber q)"
        using before_ix [of ?low "sequenceNumber p" "nextContiguousSequenceNumber q"] ki True small
          pending_ok_c [OF Cons.prems(2)] by simp
      let ?len = "sz - 16 + data_offset (rtp_header p)"
      let ?e = "queued_entry p ?len False"
      obtain c fast oos where q1: "queuePacket q p ?len False True = Some (True, enqueued q c fast True oos ?e)"
        "pending_ok ?low c fast (pendingFecBlockList q @ [?e])"
        using queuePacket_spec [OF Cons.prems(2) _ behind, of True False ?len, unfolded ki] new True small by auto
      let ?q1 = "enqueued q c fast True oos ?e"
      have isb: "isBefore16 (sequenceNumber p) (bufferFirstParitySequenceNumber q)"
        using before_ix [of ?low "sequenceNumber p" "bufferFirstParitySequenceNumber q"]
          geometry_dist(1) [OF Cons.prems(1)] ki True small by simp
      note sb = enqueued_same_block [of q c fast True oos ?e]
      have eok: "entry_ok sz q T ?e"
        using ki True p(3,5,6) hd Cons.prems(3,8) data_offset_bound [of "rtp_header p"]
        by (auto simp: entry_ok_def queued_entry_def)
      have pr: "geometry ?q1" "pending_ok (bufferLowestSequenceNumber ?q1) (nextContiguousSequenceNumber ?q1)
          (useFastQueuePath ?q1) (pendingFecBlockList ?q1)"
        "\<forall>e \<in> set (pendingFecBlockList ?q1). entry_ok sz ?q1 T e" "pendingFecBlockList ?q1 \<noteq> []"
        using same_block_geometry [OF sb] Cons.prems(1,3) q1(2) eok same_block_entry_ok [OF sb] by auto
      have rest: "set todo \<inter> set (ixs (bufferLowestSequenceNumber ?q1) (pendingFecBlockList ?q1)) = {}"
        "distinct todo" "\<forall>i \<in> set todo. length (out i) = sz"
        using Cons.prems(5-7) ki by (auto simp: queued_entry_def)
      from Cons.IH [OF pr rest(2,1,3) Cons.prems(8), of ret] obtain r2 q2 where
        r2: "queue_recovered (sz - 16) out todo (ret, ?q1) = Some (r2, q2)" "same_block q2 ?q1"
        "pending_ok (bufferLowestSequenceNumber q2) (nextContiguousSequenceNumber q2) (useFastQueuePath q2) (pendingFecBlockList q2)"
        "\<forall>e \<in> set (pendingFecBlockList q2). entry_ok sz q2 T e" "\<exists>es. pendingFecBlockList q2 = pendingFecBlockList ?q1 @ es"
        "receivedDataPackets q2 = receivedDataPackets ?q1" "receivedParityPackets q2 = receivedParityPackets ?q1"
        "receivedHighestSequenceNumber q2 = receivedHighestSequenceNumber ?q1" "missingPackets q2 = missingPackets ?q1"
        "reportedLostFrame q2 = reportedLostFrame ?q1" "vq_receivedOosData q2 = vq_receivedOosData ?q1"
        "lastOosFramePresentationTimestamp q2 = lastOosFramePresentationTimestamp ?q1"
        "r2 = 0 \<longrightarrow> ret = 0 \<and> {i \<in> set todo. i < bufferDataPackets ?q1}
          \<subseteq> set (ixs (bufferLowestSequenceNumber ?q1) (pendingFecBlockList q2))" by blast
      have run: "queue_recovered (sz - 16) out (i # todo) (ret, q) = Some (r2, q2)"
        using True hd p(1) sane isb q1(1) r2(1) by simp
      obtain es where es: "pendingFecBlockList q2 = pendingFecBlockList q @ [?e] @ es" using r2(5) by auto
      have "i \<in> set (ixs ?low (pendingFecBlockList q2))" unfolding es using ki by (simp add: queued_entry_def)
      then have fin: "r2 = 0 \<longrightarrow> ret = 0 \<and> {j \<in> set (i # todo). j < ?N} \<subseteq> set (ixs ?low (pendingFecBlockList q2))"
        using r2(13) by (simp del: set_map) blast
      show ?thesis
        by (intro exI [of _ r2] exI [of _ q2] conjI run fin same_block_trans [OF r2(2) sb] r2(3,4))
          (use es r2(6-12) in auto)
    qed
  qed
qed

lemma length_filter_card: "length (filter P [0..<n]) = card {i. i < n \<and> P i}"
  by (subst distinct_card [symmetric]) (auto intro: arg_cong [where f = card])

lemma collecting_card:
  assumes "collecting sz q R T"
  shows "length (pendingFecBlockList q) = card (set (ixs (bufferLowestSequenceNumber q) (pendingFecBlockList q)))"
    "bufferDataPackets q \<le> length (pendingFecBlockList q) \<longleftrightarrow> bufferDataPackets q \<le> card R"
    "card R \<le> length (pendingFecBlockList q)"
proof -
  let ?X = "set (ixs (bufferLowestSequenceNumber q) (pendingFecBlockList q))"
  note c = collectingD [OF assms]
  have d: "distinct (ixs (bufferLowestSequenceNumber q) (pendingFecBlockList q))"
    using c(4) by (simp add: pending_ok_def)
  show len: "length (pendingFecBlockList q) = card ?X" using distinct_card [OF d] by simp
  show le: "card R \<le> length (pendingFecBlockList q)" unfolding len by (rule card_mono [OF _ c(6)]) simp
  show "bufferDataPackets q \<le> length (pendingFecBlockList q) \<longleftrightarrow> bufferDataPackets q \<le> card R"
    using c(7) le len by (auto simp del: set_map)
qed

lemma collecting_replace:
  assumes c: "collecting sz q R T" and sb: "same_block q' q"
    and p: "pending_ok (bufferLowestSequenceNumber q') (nextContiguousSequenceNumber q') (useFastQueuePath q') (pendingFecBlockList q')"
    and e: "\<forall>e \<in> set (pendingFecBlockList q'). entry_ok sz q' T e"
    and x: "set (ixs (bufferLowestSequenceNumber q) (pendingFecBlockList q))
      \<subseteq> set (ixs (bufferLowestSequenceNumber q) (pendingFecBlockList q'))"
    and f: "receivedDataPackets q' = receivedDataPackets q" "receivedParityPackets q' = receivedParityPackets q"
    "receivedHighestSequenceNumber q' = receivedHighestSequenceNumber q" "missingPackets q' = missingPackets q"
    "reportedLostFrame q' = reportedLostFrame q" "vq_receivedOosData q' = vq_receivedOosData q"
    "lastOosFramePresentationTimestamp q' = lastOosFramePresentationTimestamp q"
    and n: "bufferDataPackets q \<le> card R"
  shows "collecting sz q' R T"
proof -
  note c' = collectingD [OF c]
  have low: "bufferLowestSequenceNumber q' = bufferLowestSequenceNumber q" "bufferDataPackets q' = bufferDataPackets q"
    "bufferParityPackets q' = bufferParityPackets q" "bufferFirstRecvTimeMs q' = bufferFirstRecvTimeMs q"
    using sb by (simp_all add: same_block_def)
  have "counters_ok q' R" using c'(2) f low by (simp add: counters_ok_def)
  moreover have "geometry q'" using same_block_geometry [OF sb] c'(1) by simp
  moreover have "R \<subseteq> set (ixs (bufferLowestSequenceNumber q') (pendingFecBlockList q'))"
    using c'(6) x low(1) by (auto simp del: set_map)
  moreover have "oos_bound q'" "R \<noteq> {} \<longrightarrow> oos_ok q' T"
    using c'(8,9) f by (simp_all add: oos_bound_def oos_ok_def)
  moreover have "reportedLostFrame q' \<longrightarrow> R \<noteq> {} \<and> (vq_receivedOosData q' \<or> bufferParityPackets q' < missingPackets q')"
    using c'(10) f low by simp
  moreover have "bufferDataPackets q' \<le> card R" "bufferFirstRecvTimeMs q' \<noteq> 0" using n c'(3) low by simp_all
  ultimately show ?thesis using p e unfolding collecting_def by (intro conjI disjI2)
qed

definition silent :: "video_event list \<Rightarrow> bool" where
  "silent ev \<longleftrightarrow> (\<forall>x. Submit x \<notin> set ev)"

lemma silent_simps [simp]:
  "silent []" "silent (reportFinalFrameFecStatus q)" "silent (a @ b) \<longleftrightarrow> silent a \<and> silent b"
  "silent [Frame_lost f s]" "silent [Saw_frame f]"
  by (auto simp: silent_def reportFinalFrameFecStatus_def)

lemma recover_block_ok:
  assumes c: "collecting sz q R T" and n: "bufferDataPackets q \<le> length (pendingFecBlockList q)"
    and lost: "receivedDataPackets q \<noteq> bufferDataPackets q"
    and sz: "sz = venv_packetSize e + 16" "32 \<le> sz" and rs: "venv_rs_alloc e = (\<lambda>_. True)"
  shows "\<exists>ret q' ev. recover_block e q = Some (ret, q', ev) \<and> same_block q' q \<and> collecting sz q' R T \<and> silent ev
    \<and> (ret = 0 \<longrightarrow> {..<bufferDataPackets q} \<subseteq> set (ixs (bufferLowestSequenceNumber q) (pendingFecBlockList q')))"
proof -
  let ?low = "bufferLowestSequenceNumber q" and ?N = "bufferDataPackets q" and ?P = "bufferParityPackets q"
  let ?es = "pendingFecBlockList q" let ?X = "set (ixs ?low ?es)"
  note cd = collectingD [OF c]
  have small: "0 < ?N" "?N + ?P \<le> 255" using cd(1) by (simp_all add: geometry_def)
  have nR: "?N \<le> card R" using collecting_card(2) [OF c] n by simp
  have R: "finite R" "R \<subseteq> {..<?N + ?P}" "receivedDataPackets q = card (R \<inter> {..<?N})"
    using cd(2) by (simp_all add: counters_ok_def)
  have P: "0 < ?P"
  proof (rule ccontr)
    assume "\<not> 0 < ?P"
    then have "R \<subseteq> {..<?N}" using R(2) by simp
    then have "R \<inter> {..<?N} = R" "card R \<le> ?N" using card_mono [of "{..<?N}" R] by auto
    then show False using R(3) nR lost by simp
  qed
  obtain r where r: "reed_solomon_new (\<lambda>_. True) (int ?N) (int ?P) = Some (Some r)" "rs_ok r"
    "data_shards r = ?N" "parity_shards r = ?P" "shards r = ?N + ?P"
    using reed_solomon_new_code [of "int ?N" "int ?P"] small P by (auto simp: rs_ok_def)
  have eo: "ix ?low x < ?N + ?P" "12 \<le> ve_length x" "ve_length x \<le> sz" "length (payload (ve_packet x)) = sz - 12"
    if "x \<in> set ?es" for x using cd(5) [OF that] by (simp_all add: entry_ok_def)
  have dist: "distinct (ixs ?low ?es)" using cd(4) by (simp add: pending_ok_def)
  obtain packets where pk: "collect_shards sz ?low ?es (replicate (?N + ?P) None) = Some packets"
    "length packets = ?N + ?P" "\<forall>x \<in> set ?es. packets ! ix ?low x = Some (rtp_bytes (ve_packet (pad_entry sz x)))"
    "\<forall>i < ?N + ?P. i \<notin> ?X \<longrightarrow> packets ! i = None"
    using collect_shards_spec [OF dist, of "replicate (?N + ?P) None" sz] eo by (auto simp del: set_map)
  have inX: "packets ! i = None \<longleftrightarrow> i \<notin> ?X" if "i < ?N + ?P" for i using pk(3,4) that by auto
  have X: "?X \<subseteq> {..<?N + ?P}" using eo(1) by auto
  let ?mks = "map (\<lambda>s. if s = None then 1 else (0 :: u8)) packets"
  have mk: "?mks ! i = 0 \<longleftrightarrow> i \<in> ?X" if "i < ?N + ?P" for i using inX [OF that] that pk(2) by simp
  have "length (lost_data r ?mks) = card ({..<?N} - ?X)"
    unfolding lost_data_def length_filter_card r(3)
    by (rule arg_cong [where f = card]) (use mk in \<open>auto simp del: set_map\<close>)
  moreover have "length (good_parity r ?mks) = card (?X - {..<?N})"
  proof -
    have "{j. j < ?P \<and> ?mks ! (?N + j) = 0} = (\<lambda>i. i - ?N) ` (?X - {..<?N})"
    proof (intro set_eqI iffI)
      fix j assume "j \<in> {j. j < ?P \<and> ?mks ! (?N + j) = 0}"
      then have "?N + j \<in> ?X" using mk [of "?N + j"] by simp
      then show "j \<in> (\<lambda>i. i - ?N) ` (?X - {..<?N})" by (intro image_eqI [of _ _ "?N + j"]) (auto simp del: set_map)
    next
      fix j assume "j \<in> (\<lambda>i. i - ?N) ` (?X - {..<?N})"
      then obtain i where "i \<in> ?X - {..<?N}" and j: "j = i - ?N" by blast
      then have "i \<in> ?X" "?N \<le> i" by simp_all
      note i = this j
      then have "i < ?N + ?P" using X by blast
      then show "j \<in> {j. j < ?P \<and> ?mks ! (?N + j) = 0}" using i mk [of i] by (simp del: set_map)
    qed
    moreover have "inj_on (\<lambda>i. i - ?N) (?X - {..<?N})"
    proof (rule inj_onI)
      fix i j assume "i \<in> ?X - {..<?N}" "j \<in> ?X - {..<?N}" "i - ?N = j - ?N"
      then have "?N \<le> i" "?N \<le> j" "i - ?N = j - ?N" by simp_all
      then show "i = j" by linarith
    qed
    ultimately show ?thesis unfolding good_parity_def length_filter_card r(3,4) by (simp add: card_image del: set_map)
  qed
  moreover have "card ({..<?N} - ?X) + card ({..<?N} \<inter> ?X) = ?N"
    using card_Diff_subset_Int [of "{..<?N}" ?X] card_mono [of "{..<?N}" "{..<?N} \<inter> ?X"] by simp
  moreover have "card (?X - {..<?N}) + card (?X \<inter> {..<?N}) = card ?X"
    using card_Diff_subset_Int [of ?X "{..<?N}"] card_mono [of ?X "?X \<inter> {..<?N}"] by simp
  moreover have "card ({..<?N} \<inter> ?X) = card (?X \<inter> {..<?N})" by (simp only: Int_commute)
  ultimately have enough: "length (lost_data r ?mks) \<le> length (good_parity r ?mks)"
    using n collecting_card(1) [OF c] by linarith
  let ?store = "map (\<lambda>i. case packets ! i of Some s \<Rightarrow> s | None \<Rightarrow> map (venv_junk e i) [0..<sz]) [0..<?N + ?P]"
  have st: "length ?store = shards r" "\<forall>i < shards r. length (?store ! i) = sz"
  proof -
    show "length ?store = shards r" using r(5) by simp
    show "\<forall>i < shards r. length (?store ! i) = sz"
    proof (intro allI impI)
      fix i assume i: "i < shards r"
      show "length (?store ! i) = sz"
      proof (cases "i \<in> ?X")
        case True
        then obtain x where x: "x \<in> set ?es" "i = ix ?low x" by auto
        then have "packets ! i = Some (rtp_bytes (ve_packet (pad_entry sz x)))" using pk(3) by blast
        then show ?thesis using i r(5) pad_entry_length [OF eo(2-4)] x(1) sz(2) by simp
      next
        case False
        then have "packets ! i = None" using inX i r(5) by simp
        then show ?thesis using i r(5) by simp
      qed
    qed
  qed
  obtain out where out: "reed_solomon_reconstruct r ?store ?mks (?N + ?P) sz = (0, out)" "length out = ?N + ?P"
    "\<forall>i < ?N + ?P. length (out ! i) = sz"
    using reconstruct_shape [OF r(2) st enough] r(5) by auto
  let ?q = "q\<lparr>pendingFecBlockList := map (pad_entry sz) ?es\<rparr>"
  have sbq: "same_block ?q q" by (simp add: same_block_def)
  have pq: "pending_ok (bufferLowestSequenceNumber ?q) (nextContiguousSequenceNumber ?q) (useFastQueuePath ?q) (pendingFecBlockList ?q)"
    using cd(4) by (simp add: pending_ok_pad)
  have eq: "\<forall>x \<in> set (pendingFecBlockList ?q). entry_ok sz ?q T x"
    using cd(5) pad_entry_ok same_block_entry_ok [OF sbq] by auto
  have colq: "collecting sz ?q R T"
    by (rule collecting_replace [OF c sbq pq eq]) (use nR in \<open>simp_all add: image_image\<close>)
  let ?miss = "filter (\<lambda>i. packets ! i = None) [0..<?N + ?P]"
  have size: "venv_packetSize e + MAX_RTP_HEADER_SIZE = sz" using sz(1) by (simp add: MAX_RTP_HEADER_SIZE_def)
  consider (old) "vq0 (venv_version e) < 5" | (oom) "5 \<le> vq0 (venv_version e)" "\<not> venv_calloc e"
    | (oom2) "5 \<le> vq0 (venv_version e)" "venv_calloc e" "\<exists>i \<in> set ?miss. \<not> venv_malloc e i"
    | (run) "5 \<le> vq0 (venv_version e)" "venv_calloc e" "\<not> (\<exists>i \<in> set ?miss. \<not> venv_malloc e i)"
    by linarith
  then show ?thesis
  proof cases
    case old
    then show ?thesis using c by (simp add: recover_block_def Let_def)
  next
    case oom
    then show ?thesis using c by (simp add: recover_block_def Let_def)
  next
    case oom2
    then have "recover_block e q = Some (- 4, ?q, [])"
      unfolding recover_block_def Let_def rs r(1) size
      by (simp add: pk(1) del: filter.simps set_filter)
    then show ?thesis using colq sbq by auto
  next
    case run
    have "set ?miss \<inter> set (ixs (bufferLowestSequenceNumber ?q) (pendingFecBlockList ?q)) = {}"
      using inX by (auto simp: image_image)
    moreover have "pendingFecBlockList ?q \<noteq> []" using n small(1) by auto
    moreover have "\<forall>i \<in> set ?miss. length (out ! i) = sz" using out(3) by simp
    moreover have "geometry ?q" using same_block_geometry [OF sbq] cd(1) by simp
    ultimately obtain ret q' where q': "queue_recovered (sz - 16) (\<lambda>i. out ! i) ?miss (0, ?q) = Some (ret, q')" "same_block q' ?q"
      "pending_ok (bufferLowestSequenceNumber q') (nextContiguousSequenceNumber q') (useFastQueuePath q') (pendingFecBlockList q')"
      "\<forall>x \<in> set (pendingFecBlockList q'). entry_ok sz q' T x" "\<exists>es. pendingFecBlockList q' = pendingFecBlockList ?q @ es"
      "receivedDataPackets q' = receivedDataPackets ?q" "receivedParityPackets q' = receivedParityPackets ?q"
      "receivedHighestSequenceNumber q' = receivedHighestSequenceNumber ?q" "missingPackets q' = missingPackets ?q"
      "reportedLostFrame q' = reportedLostFrame ?q" "vq_receivedOosData q' = vq_receivedOosData ?q"
      "lastOosFramePresentationTimestamp q' = lastOosFramePresentationTimestamp ?q"
      "ret = 0 \<longrightarrow> (0 :: int) = 0 \<and> {i \<in> set ?miss. i < bufferDataPackets ?q}
          \<subseteq> set (ixs (bufferLowestSequenceNumber ?q) (pendingFecBlockList q'))"
      using queue_recovered_ok [OF _ pq eq _ _ _ _ sz(2), of ?miss "\<lambda>i. out ! i" 0] by (auto simp del: set_map set_filter)
    obtain es where es: "pendingFecBlockList q' = map (pad_entry sz) ?es @ es" using q'(5) by auto
    have sub: "?X \<subseteq> set (ixs ?low (pendingFecBlockList q'))" unfolding es by auto
    have sb: "same_block q' q" using same_block_trans [OF q'(2) sbq] .
    have col: "collecting sz q' R T"
      by (rule collecting_replace [OF c sb q'(3,4) sub]) (use q'(6-12) nR in simp_all)
    have ps: "venv_packetSize e = sz - 16" using sz(1) by simp
    have go: "recover_block e q = Some (ret, q',
        if ?N \<noteq> receivedDataPackets q then reportFinalFrameFecStatus ?q else [])"
      using run(1,2) unfolding recover_block_def Let_def rs r(1) size
      by (simp add: pk(1) run(3) out(1) ps q'(1) del: filter.simps set_filter)
    have "{..<?N} \<subseteq> set (ixs ?low (pendingFecBlockList q'))" if "ret = 0"
    proof
      fix i assume "i \<in> {..<?N}"
      then have i: "i < ?N" by simp
      show "i \<in> set (ixs ?low (pendingFecBlockList q'))"
      proof (cases "i \<in> ?X")
        case True
        then show ?thesis using sub by blast
      next
        case False
        then have "i \<in> {i \<in> set ?miss. i < bufferDataPackets ?q}" using i inX [of i] by simp
        then show ?thesis using q'(13) that by auto
      qed
    qed
    then show ?thesis using go sb col by auto
  qed
qed

text \<open>
  The attempt to complete a block: its assertions hold, and it returns 0 only with all data
  packets in the pending list.
\<close>

lemma reconstructFrame_ok:
  assumes c: "collecting sz q R T" and R: "R \<noteq> {}"
    and sz: "sz = venv_packetSize e + 16" "32 \<le> sz" and rs: "venv_rs_alloc e = (\<lambda>_. True)"
  shows "\<exists>ret q' ev. reconstructFrame e q = Some (ret, q', ev) \<and> same_block q' q \<and> silent ev
    \<and> collecting sz q' R T
    \<and> (ret = 0 \<longrightarrow> {..<bufferDataPackets q} \<subseteq> set (ixs (bufferLowestSequenceNumber q) (pendingFecBlockList q')))"
proof -
  let ?low = "bufferLowestSequenceNumber q" and ?N = "bufferDataPackets q" and ?P = "bufferParityPackets q"
  let ?es = "pendingFecBlockList q" let ?X = "set (ixs ?low ?es)"
  note cd = collectingD [OF c]
  have small: "0 < ?N" "?N + ?P \<le> 255" using cd(1) by (simp_all add: geometry_def)
  have high: "dist16 ?low (bufferHighestSequenceNumber q) = ?N + ?P - 1" by (rule geometry_dist(2) [OF cd(1)])
  have cnt: "finite R" "R \<subseteq> {..<?N + ?P}" "receivedDataPackets q = card (R \<inter> {..<?N})"
    "dist16 ?low (receivedHighestSequenceNumber q) = Max R" "missingPackets q + card R = Suc (Max R)"
    using cd(2) R by (simp_all add: counters_ok_def)
  have mx: "Max R < ?N + ?P" using cnt(1,2) R Max_in [of R] by blast
  note cc = collecting_card [OF c]
  have tot: "?N + ?P = dist16 ?low (bufferHighestSequenceNumber q) + 1" using high small(1) by simp
  show ?thesis
  proof (cases "length ?es < ?N")
    case True
    have cR: "card R = length ?es" using cd(7) cc(1,2) True by (auto simp del: set_map)
    have rem: "dist16 (receivedHighestSequenceNumber q) (bufferHighestSequenceNumber q) = ?N + ?P - 1 - Max R"
      using dist16_between [of ?low "receivedHighestSequenceNumber q" "bufferHighestSequenceNumber q"] cnt(4) high mx by simp
    show ?thesis
    proof (cases "\<not> reportedLostFrame q \<and> \<not> vq_receivedOosData q \<and> ?P < missingPackets q")
      case lose: True
      let ?q = "q\<lparr>reportedLostFrame := True\<rparr>"
      have "collecting sz ?q R T"
        using c lose R by (simp add: collecting_def geometry_def counters_ok_def entry_ok_def oos_bound_def oos_ok_def)
      moreover have "reconstructFrame e q = Some (- 1, ?q, [Frame_lost (currentFrameNumber q) True])"
        using True lose high small(1) by (simp add: reconstructFrame_def Let_def)
      ultimately show ?thesis by (auto simp: same_block_def)
    next
      case wait: False
      have "?N - length ?es \<le> ?N + ?P - 1 - Max R" if "missingPackets q \<le> ?P"
        using that cnt(5) cR mx by linarith
      then have "reconstructFrame e q = Some (- 1, q, [])"
        using True wait tot rem by (auto simp: reconstructFrame_def Let_def)
      then show ?thesis using c by simp
    qed
  next
    case False
    then have nR: "?N \<le> card R" using cc(2) by simp
    have miss: "missingPackets q \<le> ?P" using cnt(5) nR mx by linarith
    then have rep: "\<not> reportedLostFrame q \<or> vq_receivedOosData q" using cd(10) by auto
    show ?thesis
    proof (cases "receivedDataPackets q = ?N")
      case all: True
      have "{..<?N} \<subseteq> R"
      proof -
        have "R \<inter> {..<?N} = {..<?N}" by (rule card_subset_eq) (use all cnt(3) in auto)
        then show ?thesis by blast
      qed
      then have "{..<?N} \<subseteq> ?X" using cd(6) by blast
      moreover have "reconstructFrame e q = Some (0, q, [])"
        using False miss rep all tot by (auto simp: reconstructFrame_def Let_def)
      ultimately show ?thesis using c by (intro exI [of _ 0] exI [of _ q] exI [of _ "[]"] conjI) simp_all
    next
      case some: False
      have "reconstructFrame e q = recover_block e q"
        using False miss rep some tot by (auto simp: reconstructFrame_def Let_def)
      then show ?thesis using recover_block_ok [OF c _ some sz rs] False by auto
    qed
  qed
qed

section \<open>Staging\<close>

lemma stage_scan_found:
  assumes "\<forall>x \<in> set (pre @ e # post). j \<le> ix low x \<and> ix low x < 32768" "dist16 low s = j" "j < 32768"
    and "\<not> isParity e" "ix low e = j" "j \<notin> set (ixs low pre)" "recv \<noteq> 0"
  shows "stage_scan recv s lowest kept (pre @ e # post)
    = Some (Found (e\<lparr>receiveTimeMs := recv\<rparr>), rev kept @ filter (\<lambda>x. \<not> isParity x) pre @ post)"
  using assms(1,6)
proof (induction pre arbitrary: lowest kept)
  case Nil
  have "entry_seq e = s" using assms(2,5) dist16_inject by metis
  moreover have "\<not> isBefore16 s s" by (rule s16.before_irrefl)
  ultimately show ?case using assms(4,7) by simp
next
  case (Cons x pre)
  have "\<not> isBefore16 (entry_seq x) s" using before_ix [of low "entry_seq x" s] Cons.prems(1) assms(2,3) by auto
  moreover have "entry_seq x \<noteq> s" using Cons.prems(2) assms(2) by auto
  ultimately show ?case using Cons by simp
qed

lemma stage_scan_parity:
  assumes "\<forall>x \<in> set es. isParity x \<and> dist16 low s \<le> ix low x \<and> ix low x < 32768" "dist16 low s < 32768"
  shows "stage_scan recv s lowest kept es = Some (Absent lowest, rev kept)"
  using assms(1)
proof (induction es)
  case (Cons x es)
  have "\<not> isBefore16 (entry_seq x) s" using before_ix [of low "entry_seq x" s] Cons.prems assms(2) by auto
  then show ?case using Cons by simp
qed simp

lemma stage_loop_complete:
  assumes "distinct (ixs low es)" "\<forall>x \<in> set es. ix low x < 32768 \<and> (isParity x \<longleftrightarrow> N \<le> ix low x)"
    and "\<forall>x \<in> set es. j \<le> ix low x" "{j..<N} \<subseteq> set (ixs low es)" "dist16 low s = j" "j \<le> N" "N < 32767" "recv \<noteq> 0"
  shows "\<exists>ds. stage_loop recv s es completed = Some (completed @ ds) \<and> length ds = N - j
    \<and> (\<forall>k < N - j. \<exists>x \<in> set es. ix low x = j + k \<and> ds ! k = x\<lparr>receiveTimeMs := recv\<rparr>)"
  using assms(1-6)
proof (induction "N - j" arbitrary: j s es completed)
  case 0
  then have "\<forall>x \<in> set es. isParity x \<and> dist16 low s \<le> ix low x \<and> ix low x < 32768" "dist16 low s < 32768"
    using assms(7) by auto
  then have scan: "stage_scan recv s l [] es = Some (Absent l, [])" for l
    using stage_scan_parity [of es low s recv l "[]"] by simp
  have "stage_loop recv s es completed = Some completed"
  proof (cases es)
    case Nil
    then show ?thesis by (subst stage_loop.simps) simp
  next
    case (Cons h t)
    have "stage_loop recv (entry_seq h) [] completed = Some completed" by (subst stage_loop.simps) simp
    then show ?thesis using scan [of "entry_seq h"] Cons by (subst stage_loop.simps) simp
  qed
  then show ?case using 0 by simp
next
  case (Suc n)
  then have j: "j < N" by simp
  then have "j \<in> set (ixs low es)" using Suc.prems(4) by (auto simp del: set_map)
  then obtain x where x: "x \<in> set es" "ix low x = j" by auto
  then obtain pre post where es: "es = pre @ x # post" by (auto simp: in_set_conv_decomp)
  have nx: "\<not> isParity x" using Suc.prems(2) x j by auto
  have scan: "stage_scan recv s l [] es
      = Some (Found (x\<lparr>receiveTimeMs := recv\<rparr>), filter (\<lambda>x. \<not> isParity x) pre @ post)" for l
    unfolding es using stage_scan_found [of pre x post j low s recv l "[]"] Suc.prems x(2) nx assms(7,8) j
    by (auto simp: es)
  let ?rest = "filter (\<lambda>x. \<not> isParity x) pre @ post"
  have sub: "set ?rest \<subseteq> set es" "x \<notin> set ?rest" using Suc.prems(1) by (auto simp: es)
  have notin: "ix low x \<notin> ix low ` (set pre \<union> set post)" using Suc.prems(1) by (auto simp: es)
  have ne: "ix low y \<noteq> j" if "y \<in> set ?rest" for y
  proof -
    have "ix low y \<in> ix low ` (set pre \<union> set post)" using that by auto
    then show ?thesis using notin x(2) by metis
  qed
  have d: "distinct (ixs low ?rest)"
  proof -
    have "distinct (ixs low pre)" "distinct (ixs low post)" "set (ixs low pre) \<inter> set (ixs low post) = {}"
      using Suc.prems(1) by (auto simp: es)
    moreover from this(1) have "distinct (ixs low (filter (\<lambda>x. \<not> isParity x) pre))" by (rule distinct_map_filter)
    moreover have "set (ixs low (filter (\<lambda>x. \<not> isParity x) pre)) \<subseteq> set (ixs low pre)" by auto
    ultimately show ?thesis unfolding map_append distinct_append by blast
  qed
  have "\<exists>ds. stage_loop recv (s + 1) ?rest (completed @ [x\<lparr>receiveTimeMs := recv\<rparr>])
      = Some ((completed @ [x\<lparr>receiveTimeMs := recv\<rparr>]) @ ds) \<and> length ds = N - Suc j
    \<and> (\<forall>k < N - Suc j. \<exists>y \<in> set ?rest. ix low y = Suc j + k \<and> ds ! k = y\<lparr>receiveTimeMs := recv\<rparr>)"
  proof (rule Suc.hyps(1))
    show "n = N - Suc j" using Suc.hyps(2) by simp
    show "distinct (ixs low ?rest)" by (rule d)
    show "\<forall>y \<in> set ?rest. ix low y < 32768 \<and> isParity y = (N \<le> ix low y)" using Suc.prems(2) sub by blast
    show "\<forall>y \<in> set ?rest. Suc j \<le> ix low y" using Suc.prems(3) sub ne by (metis Suc_leI le_neq_implies_less subsetD)
    show "{Suc j..<N} \<subseteq> set (ixs low ?rest)"
    proof
      fix k assume k: "k \<in> {Suc j..<N}"
      then have "k \<in> set (ixs low es)" using Suc.prems(4) by (auto simp del: set_map)
      then obtain y where y: "y \<in> set es" "ix low y = k" by auto
      then have "\<not> isParity y" "y \<noteq> x" using Suc.prems(2) k x(2) by auto
      then have "y \<in> set ?rest" using y(1) by (auto simp: es)
      then show "k \<in> set (ixs low ?rest)" using y(2) by auto
    qed
    show "dist16 low (s + 1) = Suc j" using dist16_plus1 [of low s] Suc.prems(5) j assms(7) by simp
    show "Suc j \<le> N" using j by simp
  qed
  then obtain ds where ds: "stage_loop recv (s + 1) ?rest (completed @ [x\<lparr>receiveTimeMs := recv\<rparr>])
      = Some (completed @ x\<lparr>receiveTimeMs := recv\<rparr> # ds)" "length ds = N - Suc j"
    "\<forall>k < N - Suc j. \<exists>y \<in> set ?rest. ix low y = Suc j + k \<and> ds ! k = y\<lparr>receiveTimeMs := recv\<rparr>" by auto
  have "stage_loop recv s es completed = Some (completed @ x\<lparr>receiveTimeMs := recv\<rparr> # ds)"
  proof -
    obtain h t where ht: "es = h # t" using x(1) by (cases es) auto
    note sc = scan [of "entry_seq h", unfolded ht]
    show ?thesis using ds(1) unfolding ht
      by (subst stage_loop.simps) (simp add: sc insertEntryIntoList_def del: stage_scan.simps)
  qed
  moreover have "\<exists>y \<in> set es. ix low y = j + k \<and> (x\<lparr>receiveTimeMs := recv\<rparr> # ds) ! k = y\<lparr>receiveTimeMs := recv\<rparr>"
    if "k < N - j" for k
  proof (cases k)
    case 0
    then show ?thesis using x by auto
  next
    case (Suc i)
    then have "i < N - Suc j" using that by simp
    then show ?thesis using ds(3) sub Suc by fastforce
  qed
  ultimately show ?case using ds(2) j by (intro exI [of _ "x\<lparr>receiveTimeMs := recv\<rparr> # ds"]) simp
qed

end
