(* ===== verification/VideoDelivery.thy ===== *)
theory VideoDelivery
  imports VideoAssembly
begin

text \<open>
  What the video frame queue delivers: over every history of admissible packets no assertion
  fails, and the packets handed to the depacketizer come as whole frames, block by block and in
  sequence order within each block.
\<close>

section \<open>Blocks and frames\<close>

definition run_of :: "u16 \<Rightarrow> video_entry list \<Rightarrow> bool" where
  "run_of s es \<longleftrightarrow> (\<forall>k < length es. entry_seq (es ! k) = s + of_nat k)"

text \<open>A complete block of frame \<open>F\<close>: data packets in sequence order, without a gap.\<close>

definition frame_block :: "u32 \<Rightarrow> video_entry list \<Rightarrow> bool" where
  "frame_block F b \<longleftrightarrow> b \<noteq> [] \<and> run_of (entry_seq (hd b)) b
     \<and> (\<forall>e \<in> set b. \<not> isParity e \<and> receiveTimeMs e \<noteq> 0 \<and> frame_of (ve_packet e) = Some F)"

definition staged :: "video_queue \<Rightarrow> bool" where
  "staged q \<longleftrightarrow> (\<exists>bs. completedFecBlockList q = concat bs \<and> length bs = unat (multiFecCurrentBlockNumber q)
     \<and> (\<forall>b \<in> set bs. frame_block (currentFrameNumber q) b))"

text \<open>
  The events of one packet: no submission, or one whole frame after everything else.  The frame
  has all the blocks its header announced, and the queue is left waiting for the next one.
\<close>

definition frame_events :: "u32 \<Rightarrow> video_queue \<Rightarrow> video_event list \<Rightarrow> bool" where
  "frame_events F q ev \<longleftrightarrow> silent ev
     \<or> (\<exists>ev0 bs. ev = ev0 @ map Submit (concat bs) \<and> silent ev0 \<and> (\<forall>b \<in> set bs. frame_block F b)
          \<and> unat (multiFecLastBlockNumber q) < length bs
          \<and> currentFrameNumber q = F + 1 \<and> pendingFecBlockList q = [] \<and> completedFecBlockList q = [])"

lemma silent_cases [simp]:
  "silent (if c then ev else ev') \<longleftrightarrow> (if c then silent ev else silent ev')"
  "silent (Frame_lost f b # ev) \<longleftrightarrow> silent ev" "silent (Saw_frame f # ev) \<longleftrightarrow> silent ev"
  by (auto simp: silent_def)

lemma frame_events_silent [simp, intro]: "silent ev \<Longrightarrow> frame_events F q ev"
  by (simp add: frame_events_def)

lemma frame_events_append:
  assumes "silent ev0" "frame_events F q ev"
  shows "frame_events F q (ev0 @ ev)"
proof (cases "silent ev")
  case False
  then obtain ev1 bs where bs: "ev = ev1 @ map Submit (concat bs)" "silent ev1" "\<forall>b \<in> set bs. frame_block F b"
    "unat (multiFecLastBlockNumber q) < length bs"
    "currentFrameNumber q = F + 1 \<and> pendingFecBlockList q = [] \<and> completedFecBlockList q = []"
    using assms(2) unfolding frame_events_def by blast
  show ?thesis unfolding frame_events_def
    by (rule disjI2, rule exI [of _ "ev0 @ ev1"], rule exI [of _ bs]) (use assms(1) bs in simp)
qed (use assms(1) in simp)

lemma stageCompleteFecBlock_ok:
  assumes c: "collecting sz q R T"
    and all: "{..<bufferDataPackets q} \<subseteq> set (ixs (bufferLowestSequenceNumber q) (pendingFecBlockList q))"
  shows "\<exists>ds. stageCompleteFecBlock q
      = Some (q\<lparr>pendingFecBlockList := [], completedFecBlockList := completedFecBlockList q @ ds\<rparr>)
    \<and> length ds = bufferDataPackets q \<and> frame_block (currentFrameNumber q) ds"
proof -
  let ?low = "bufferLowestSequenceNumber q" and ?N = "bufferDataPackets q" and ?es = "pendingFecBlockList q"
  note cd = collectingD [OF c]
  have N: "0 < ?N" "?N \<le> 255" using cd(1) by (simp_all add: geometry_def)
  have ok: "ix ?low x < 32768 \<and> (isParity x \<longleftrightarrow> ?N \<le> ix ?low x)" if "x \<in> set ?es" for x
    using cd(5) [OF that] cd(1) by (simp add: entry_ok_def geometry_def)
  have "distinct (ixs ?low ?es)" using cd(4) by (simp add: pending_ok_def)
  from stage_loop_complete [OF this, of ?N 0 ?low "bufferFirstRecvTimeMs q" "completedFecBlockList q"] ok all N cd(3)
  obtain ds where ds: "stage_loop (bufferFirstRecvTimeMs q) ?low ?es (completedFecBlockList q) = Some (completedFecBlockList q @ ds)"
    "length ds = ?N" "\<forall>k < ?N. \<exists>x \<in> set ?es. ix ?low x = k \<and> ds ! k = x\<lparr>receiveTimeMs := bufferFirstRecvTimeMs q\<rparr>"
    by (auto simp: atLeast0LessThan simp del: set_map)
  have seq: "entry_seq (ds ! k) = ?low + of_nat k" if k: "k < ?N" for k
  proof -
    obtain x where "ix ?low x = k" "ds ! k = x\<lparr>receiveTimeMs := bufferFirstRecvTimeMs q\<rparr>" using ds(3) k by blast
    moreover have "dist16 ?low (?low + of_nat k) = k" using dist16_plus [of ?low ?low k] k N by simp
    ultimately show ?thesis using dist16_inject [of ?low "entry_seq x" "?low + of_nat k"] by simp
  qed
  have "ds \<noteq> []" using ds(2) N by auto
  moreover have "run_of (entry_seq (hd ds)) ds"
    using seq [of 0] seq N ds(2) \<open>ds \<noteq> []\<close> by (simp add: run_of_def hd_conv_nth)
  moreover have "\<not> isParity e \<and> receiveTimeMs e \<noteq> 0 \<and> frame_of (ve_packet e) = Some (currentFrameNumber q)"
    if e: "e \<in> set ds" for e
  proof -
    obtain k where k: "k < ?N" "e = ds ! k" using e ds(2) by (auto simp: in_set_conv_nth)
    then obtain x where x: "x \<in> set ?es" "ix ?low x = k" "e = x\<lparr>receiveTimeMs := bufferFirstRecvTimeMs q\<rparr>"
      using ds(3) by blast
    then show ?thesis using cd(5) [OF x(1)] k(1) cd(3) by (simp add: entry_ok_def)
  qed
  ultimately have "frame_block (currentFrameNumber q) ds" unfolding frame_block_def by blast
  then show ?thesis using ds(1,2) by (intro exI [of _ ds]) (simp add: stageCompleteFecBlock_def)
qed

lemma same_block_staged: "same_block q' q \<Longrightarrow> staged q' = staged q"
  by (simp add: same_block_def staged_def)

lemma frame_block_no_parity: "frame_block F b \<Longrightarrow> e \<in> set b \<Longrightarrow> \<not> isParity e"
  by (simp add: frame_block_def)

definition queue_inv :: "nat \<Rightarrow> (u32 \<Rightarrow> u32) \<Rightarrow> video_queue \<Rightarrow> bool" where
  "queue_inv sz clk q \<longleftrightarrow> oos_bound q \<and> staged q \<and> unat (multiFecLastBlockNumber q) \<le> 3
     \<and> (pendingFecBlockList q \<noteq> [] \<longrightarrow> (\<exists>R. R \<noteq> {} \<and> collecting sz q R (clk (currentFrameNumber q))))"

lemma try_submit_ok:
  assumes c: "collecting sz q R (clk (currentFrameNumber q))" and R: "R \<noteq> {}"
    and st: "staged q" "unat (multiFecLastBlockNumber q) \<le> 3"
    and sz: "sz = venv_packetSize e + 16" "32 \<le> sz" and rs: "venv_rs_alloc e = (\<lambda>_. True)"
  shows "\<exists>q' ev. try_submit e q = Some (q', ev) \<and> queue_inv sz clk q' \<and> frame_events (currentFrameNumber q) q' ev"
proof -
  let ?F = "currentFrameNumber q"
  obtain ret q1 ev1 where r: "reconstructFrame e q = Some (ret, q1, ev1)" "same_block q1 q" "silent ev1"
    "collecting sz q1 R (clk ?F)"
    "ret = 0 \<longrightarrow> {..<bufferDataPackets q} \<subseteq> set (ixs (bufferLowestSequenceNumber q) (pendingFecBlockList q1))"
    using reconstructFrame_ok [OF c R sz rs] by blast
  have sb: "bufferDataPackets q1 = bufferDataPackets q" "bufferLowestSequenceNumber q1 = bufferLowestSequenceNumber q"
    "currentFrameNumber q1 = ?F" "multiFecCurrentBlockNumber q1 = multiFecCurrentBlockNumber q"
    "multiFecLastBlockNumber q1 = multiFecLastBlockNumber q" "completedFecBlockList q1 = completedFecBlockList q"
    using r(2) by (simp_all add: same_block_def)
  have st1: "staged q1" using st(1) same_block_staged [OF r(2)] by simp
  have ob: "oos_bound q1" using collectingD(8) [OF r(4)] .
  show ?thesis
  proof (cases "ret = 0")
    case False
    have "queue_inv sz clk q1" unfolding queue_inv_def using ob st1 st(2) sb R r(4) by auto
    then show ?thesis using False r(1,3) by (auto simp: try_submit_def)
  next
    case True
    have all: "{..<bufferDataPackets q1} \<subseteq> set (ixs (bufferLowestSequenceNumber q1) (pendingFecBlockList q1))"
      using r(5) True unfolding sb by blast
    obtain ds where ds: "stageCompleteFecBlock q1
        = Some (q1\<lparr>pendingFecBlockList := [], completedFecBlockList := completedFecBlockList q1 @ ds\<rparr>)" "frame_block ?F ds"
      using stageCompleteFecBlock_ok [OF r(4) all] unfolding sb by blast
    obtain bs where bs: "completedFecBlockList q1 = concat bs" "length bs = unat (multiFecCurrentBlockNumber q1)"
      "\<forall>b \<in> set bs. frame_block ?F b" using st1 unfolding staged_def sb by blast
    let ?q2 = "q1\<lparr>pendingFecBlockList := [], completedFecBlockList := concat (bs @ [ds])\<rparr>"
    have ok: "\<forall>b \<in> set (bs @ [ds]). frame_block ?F b" using bs(3) ds(2) by simp
    show ?thesis
    proof (cases "multiFecCurrentBlockNumber q1 < multiFecLastBlockNumber q1")
      case more: True
      let ?q3 = "?q2\<lparr>multiFecCurrentBlockNumber := multiFecCurrentBlockNumber q1 + 1\<rparr>"
      have "unat (multiFecCurrentBlockNumber q1) < 3" using more st(2) sb by (simp add: word_less_nat_alt)
      then have n: "unat (multiFecCurrentBlockNumber q1 + 1) = length (bs @ [ds])"
        using bs(2) by (simp add: unat_plus_if')
      have "staged ?q3" unfolding staged_def
        by (intro exI [of _ "bs @ [ds]"] conjI) (use n ok sb in simp_all)
      then have "queue_inv sz clk ?q3" using ob st(2) sb by (simp add: queue_inv_def oos_bound_def)
      moreover have "try_submit e q = Some (?q3, ev1)"
        using more r(1) True ds(1) bs(1) by (simp add: try_submit_def)
      ultimately show ?thesis using r(3) by blast
    next
      case last: False
      let ?q3 = "?q2\<lparr>completedFecBlockList := [], currentFrameNumber := ?F + 1, multiFecCurrentBlockNumber := 0\<rparr>"
      have "\<forall>x \<in> set (concat (bs @ [ds])). \<not> isParity x" using ok frame_block_no_parity by auto
      then have "try_submit e q = Some (?q3, ev1 @ map Submit (concat (bs @ [ds])))"
        using last r(1) True ds(1) bs(1) sb(3) by (simp add: try_submit_def submitCompletedFrame_def)
      moreover have "frame_events ?F ?q3 (ev1 @ map Submit (concat (bs @ [ds])))"
        unfolding frame_events_def using r(3) ok last bs(2)
        by (intro disjI2 exI [of _ ev1] exI [of _ "bs @ [ds]"]) (simp add: word_less_nat_alt)
      moreover have "queue_inv sz clk ?q3" using ob st(2) sb by (simp add: queue_inv_def oos_bound_def staged_def)
      ultimately show ?thesis by blast
    qed
  qed
qed

section \<open>Starting a block\<close>

lemma fec_block_bounds: "unat (fec_block_number v) \<le> 3" "unat (fec_last_block v) \<le> 3"
proof -
  have "x AND 3 \<le> (3 :: u8)" for x by (rule word_and_le1)
  then have "unat (x AND 3 :: u8) \<le> 3" for x by (simp add: word_le_nat_alt)
  then show "unat (fec_block_number v) \<le> 3" "unat (fec_last_block v) \<le> 3"
    unfolding fec_block_number_def fec_last_block_def by blast+
qed

text \<open>The number of packets the header announces for the block.\<close>

definition block_parity :: "nv_video_packet \<Rightarrow> nat" where
  "block_parity v = (unat (fec_data_packets v) * unat (fec_percentage v) + 99) div 100"

lemma start_block_collecting:
  assumes "unat (fec_data_packets v) + block_parity v \<le> 255" "0 < unat (fec_data_packets v)" "now \<noteq> 0" "oos_bound q"
    and "pendingFecBlockList q = []"
  shows "collecting sz (start_block now s v q) {} T"
proof -
  let ?q = "start_block now s v q"
  have "geometry ?q" using assms(1,2) by (simp add: geometry_def start_block_def Let_def block_parity_def of_nat_diff)
  moreover have "counters_ok ?q {}" by (simp add: counters_ok_def start_block_def Let_def)
  moreover have "pendingFecBlockList ?q = []" "bufferFirstRecvTimeMs ?q \<noteq> 0" "reportedLostFrame ?q = False" "oos_bound ?q"
    "nextContiguousSequenceNumber ?q = bufferLowestSequenceNumber ?q"
    using assms(3-5) by (simp_all add: start_block_def Let_def oos_bound_def)
  ultimately show ?thesis by (simp add: collecting_def pending_ok_def)
qed

text \<open>A packet not behind the window and not past the block has an index in the block.\<close>

lemma index_in_block:
  assumes c: "collecting sz q R T" and "\<not> isBefore16 s (nextContiguousSequenceNumber q)"
    and "\<not> isBefore16 (bufferHighestSequenceNumber q) s"
  shows "dist16 (bufferLowestSequenceNumber q) s < bufferDataPackets q + bufferParityPackets q"
proof -
  let ?low = "bufferLowestSequenceNumber q" and ?n = "bufferDataPackets q + bufferParityPackets q"
  let ?c = "dist16 ?low (nextContiguousSequenceNumber q)" and ?d = "dist16 ?low s"
  note cd = collectingD [OF c]
  have small: "0 < ?n" "?n \<le> 255" using cd(1) by (simp_all add: geometry_def)
  have high: "dist16 ?low (bufferHighestSequenceNumber q) = ?n - 1" using geometry_dist(2) [OF cd(1)] .
  have "{..<?c} \<subseteq> set (ixs ?low (pendingFecBlockList q))" using cd(4) unfolding pending_ok_def by blast
  moreover have "ix ?low e < ?n" if "e \<in> set (pendingFecBlockList q)" for e
    using cd(5) [OF that] by (simp add: entry_ok_def)
  then have "set (ixs ?low (pendingFecBlockList q)) \<subseteq> {..<?n}" by auto
  ultimately have "{..<?c} \<subseteq> {..<?n}" by (rule subset_trans)
  then have cn: "?c \<le> ?n" by simp
  have d: "?d < 32768"
  proof (rule ccontr)
    assume far: "\<not> ?d < 32768"
    have dl: "?d < 65536" by (simp add: dist16_def)
    have "dist16 (nextContiguousSequenceNumber q) s = ?d - ?c" using cn small far by (intro dist16_between) simp
    moreover have "dist16 s (nextContiguousSequenceNumber q) = 65536 - (?d - ?c)"
      using s16.dist_sym [of s "nextContiguousSequenceNumber q"] calculation far cn small by auto
    ultimately have "\<not> (0 < 65536 - (?d - ?c) \<and> 65536 - (?d - ?c) \<le> 32768)"
      using assms(2) unfolding isBefore16_ahead by simp
    then have near: "?d - ?c < 32768" using dl by linarith
    have "dist16 (bufferHighestSequenceNumber q) s = ?d - (?n - 1)"
      using high small far dist16_between [of ?low "bufferHighestSequenceNumber q" s] by simp
    then have "\<not> (0 < ?d - (?n - 1) \<and> ?d - (?n - 1) \<le> 32768)"
      using assms(3) unfolding isBefore16_ahead by simp
    then show False using near far cn small by simp
  qed
  then have "\<not> ?n - 1 < ?d" using before_ix [of ?low "bufferHighestSequenceNumber q" s] high small assms(3) by simp
  then show ?thesis using small by linarith
qed

text \<open>A packet that starts a block is where its index says, and a block without data takes no packet.\<close>

lemma start_block_index:
  assumes "unat (fec_data_packets v) + block_parity v \<le> 255"
  shows "\<not> isBefore16 s (nextContiguousSequenceNumber (start_block now s v q))"
    "\<not> isBefore16 (bufferHighestSequenceNumber (start_block now s v q)) s \<Longrightarrow> 0 < unat (fec_data_packets v)"
proof -
  let ?i = "fec_index v"
  have "fecInfo v AND 0x3FF000 \<le> 0x3FF000" by (rule word_and_le1)
  then have "unat (fecInfo v AND 0x3FF000) \<le> 0x3FF000" by (simp add: word_le_nat_alt)
  then have i: "unat ?i \<le> 1023" by (simp add: fec_index_def drop_bit_eq_div unat_div)
  let ?low = "s - ucast ?i"
  have s: "s = ?low + of_nat (unat ?i)" by simp
  have d: "dist16 ?low s = unat ?i" using dist16_plus [of ?low ?low "unat ?i"] i s by simp
  have low: "nextContiguousSequenceNumber (start_block now s v q) = ?low" by (simp add: start_block_def Let_def)
  show "\<not> isBefore16 s (nextContiguousSequenceNumber (start_block now s v q))"
    unfolding low s16.not_before_origin using d i by simp
  show "0 < unat (fec_data_packets v)" if h: "\<not> isBefore16 (bufferHighestSequenceNumber (start_block now s v q)) s"
  proof (rule ccontr)
    assume z: "\<not> 0 < unat (fec_data_packets v)"
    then have high: "bufferHighestSequenceNumber (start_block now s v q) = ?low - 1"
      by (simp add: start_block_def Let_def)
    have "s = (?low - 1) + of_nat (Suc (unat ?i))" using s by simp
    then have "dist16 (?low - 1) s = Suc (unat ?i)" using dist16_plus [of "?low - 1" "?low - 1" "Suc (unat ?i)"] i by simp
    then show False using h unfolding high isBefore16_ahead using i by simp
  qed
qed

section \<open>Receiving a packet\<close>

text \<open>
  What the sender and the receiver's buffers guarantee: the buffer has room for a full packet,
  the packet fits in it, the block fits the code, and all packets of a frame carry the
  timestamp \<open>clk\<close> gives the frame.
\<close>

definition video_env_ok :: "nat \<Rightarrow> video_env \<Rightarrow> bool" where
  "video_env_ok sz e \<longleftrightarrow> sz = venv_packetSize e + 16 \<and> 32 \<le> sz \<and> venv_rs_alloc e = (\<lambda>_. True) \<and> venv_now e \<noteq> 0"

definition video_packet_ok :: "nat \<Rightarrow> (u32 \<Rightarrow> u32) \<Rightarrow> rtp_packet \<Rightarrow> nat \<Rightarrow> bool" where
  "video_packet_ok sz clk p len \<longleftrightarrow> length (payload p) = sz - 12 \<and> len \<le> sz
     \<and> (case read_nv p of None \<Rightarrow> False
        | Some v \<Rightarrow> unat (fec_data_packets v) + block_parity v \<le> 255 \<and> timestamp p = clk (frameIndex v))"

lemma legacy_fixup_simps [simp]:
  "frameIndex (legacy_fixup m v) = frameIndex v" "fecInfo (legacy_fixup m v) = fecInfo v"
  "fec_data_packets (legacy_fixup m v) = fec_data_packets v" "fec_percentage (legacy_fixup m v) = fec_percentage v"
  "fec_index (legacy_fixup m v) = fec_index v" "block_parity (legacy_fixup m v) = block_parity v"
  by (simp_all add: legacy_fixup_def fec_data_packets_def fec_percentage_def fec_index_def block_parity_def)

lemma staged_empty: "completedFecBlockList q = [] \<Longrightarrow> multiFecCurrentBlockNumber q = 0 \<Longrightarrow> staged q"
  by (simp add: staged_def)

text \<open>Either the packet's block is already collecting, or the queue is set up for it, or it is turned away.\<close>

lemma begin_block_ok:
  assumes inv: "queue_inv sz clk q" and now: "venv_now e \<noteq> 0"
    and v: "unat (fec_data_packets v) + block_parity v \<le> 255"
    and b: "begin_block e s v q = (accept, q1, ev)"
  shows "silent ev \<and> (if accept then staged q1 \<and> unat (multiFecLastBlockNumber q1) \<le> 3 \<and> currentFrameNumber q1 = frameIndex v
        \<and> oos_bound q1 \<and> ((\<exists>R. R \<noteq> {} \<and> collecting sz q1 R (clk (frameIndex v)) \<and> q1 = q)
           \<or> (\<exists>q0. q1 = start_block (venv_now e) s v q0 \<and> pendingFecBlockList q0 = [] \<and> oos_bound q0))
      else queue_inv sz clk q1)"
proof -
  let ?same = "currentFrameNumber q = frameIndex v" and ?pending = "pendingFecBlockList q \<noteq> []"
  note i = inv [unfolded queue_inv_def]
  have drop: "silent ev'" "queue_inv sz clk q'" if "drop_frame n q = (q', ev')" for n q' ev'
  proof -
    show "silent ev'" using that by (auto simp: drop_frame_def)
    show "queue_inv sz clk q'" using that i
      by (auto simp: drop_frame_def purgeListEntries_def queue_inv_def oos_bound_def staged_def)
  qed
  consider (go_on) "?pending" "?same" "multiFecCurrentBlockNumber q = fec_block_number v"
    | (lost) "\<not> (?pending \<and> ?same \<and> multiFecCurrentBlockNumber q = fec_block_number v)"
       "?pending \<and> multiFecLastBlockNumber q \<noteq> 0 \<and> ?same"
    | (skip) "\<not> (?pending \<and> ?same \<and> multiFecCurrentBlockNumber q = fec_block_number v)"
       "\<not> (?pending \<and> multiFecLastBlockNumber q \<noteq> 0 \<and> ?same)"
       "fec_block_number v \<noteq> (if ?same then multiFecCurrentBlockNumber q else 0)"
    | (start) "\<not> (?pending \<and> ?same \<and> multiFecCurrentBlockNumber q = fec_block_number v)"
       "\<not> (?pending \<and> multiFecLastBlockNumber q \<noteq> 0 \<and> ?same)"
       "fec_block_number v = (if ?same then multiFecCurrentBlockNumber q else 0)" by argo
  then show ?thesis
  proof cases
    case go_on
    then have "accept" "q1 = q" "ev = []" using b by (simp_all add: begin_block_def Let_def)
    then show ?thesis using i go_on by auto
  next
    case lost
    obtain q' ev' where d: "drop_frame (frameIndex v + 1) q = (q', ev')" by fastforce
    have "\<not> accept" "q1 = q'" "ev = reportFinalFrameFecStatus q @ ev'"
      using b lost by (simp_all add: begin_block_def Let_def d)
    then show ?thesis using drop [OF d] by simp
  next
    case skip
    obtain q' ev' where d: "drop_frame (frameIndex v + 1) q = (q', ev')" by fastforce
    have "\<not> accept" "q1 = q'" "silent ev"
      using b skip drop [OF d] by (auto simp: begin_block_def Let_def d split: if_splits)
    then show ?thesis using drop [OF d] by simp
  next
    case start
    let ?q0 = "q\<lparr>pendingFecBlockList := [], completedFecBlockList := if ?same then completedFecBlockList q else []\<rparr>"
    have q1: "accept" "q1 = start_block (venv_now e) s v ?q0" "silent ev"
      using b start unfolding begin_block_def Let_def by (auto simp: purgeListEntries_def)
    have "staged q1"
    proof (cases ?same)
      case True
      then show ?thesis using i start(3) q1(2) by (simp add: staged_def start_block_def Let_def)
    next
      case False
      then show ?thesis using start(3) q1(2) by (simp add: staged_def start_block_def Let_def)
    qed
    moreover have "unat (multiFecLastBlockNumber q1) \<le> 3" "currentFrameNumber q1 = frameIndex v" "oos_bound q1" "oos_bound ?q0"
      using i fec_block_bounds(2) [of v] q1(2) by (simp_all add: start_block_def Let_def oos_bound_def)
    ultimately show ?thesis using q1 by auto
  qed
qed

lemma add_and_submit:
  assumes c: "collecting sz q R T" and T: "T = clk (currentFrameNumber q)" "timestamp p = T"
    and env: "video_env_ok sz e" and st: "staged q" "unat (multiFecLastBlockNumber q) \<le> 3"
    and s: "\<not> isBefore16 (sequenceNumber p) (nextContiguousSequenceNumber q)"
      "\<not> isBefore16 (bufferHighestSequenceNumber q) (sequenceNumber p)"
    and len: "data_offset (rtp_header p) + 16 \<le> len" "len \<le> sz" "length (payload p) = sz - 12"
      "frame_of p = Some (currentFrameNumber q)"
    and par: "par \<longleftrightarrow> \<not> isBefore16 (sequenceNumber p) (bufferFirstParitySequenceNumber q)"
  shows "queuePacket q p len par False = Some (False, q)
    \<or> (\<exists>q1 q2 q3 ev. queuePacket q p len par False = Some (True, q1) \<and> count_packet (sequenceNumber p) q1 = Some q2
        \<and> try_submit e q2 = Some (q3, ev) \<and> queue_inv sz clk q3 \<and> frame_events (currentFrameNumber q) q3 ev)"
proof -
  let ?k = "dist16 (bufferLowestSequenceNumber q) (sequenceNumber p)"
  have len': "12 \<le> len" using len(1) data_offset_bound [of "rtp_header p"] by linarith
  have Tp: "R \<noteq> {} \<longrightarrow> timestamp p = T" using T(2) by simp
  from add_to_block [OF c Tp refl index_in_block [OF c s] s(1) len' len(2,3,1,4) par] show ?thesis
  proof
    assume "\<exists>q1 q2. queuePacket q p len par False = Some (True, q1) \<and> count_packet (sequenceNumber p) q1 = Some q2
        \<and> collecting sz q2 (insert ?k R) (timestamp p) \<and> same_block q2 q
        \<and> pendingFecBlockList q2 = pendingFecBlockList q @ [queued_entry p len par]"
    then obtain q1 q2 where q: "queuePacket q p len par False = Some (True, q1)" "count_packet (sequenceNumber p) q1 = Some q2"
      "collecting sz q2 (insert ?k R) (timestamp p)" "same_block q2 q" by blast
    have sb: "currentFrameNumber q2 = currentFrameNumber q" "multiFecLastBlockNumber q2 = multiFecLastBlockNumber q"
      using q(4) by (simp_all add: same_block_def)
    have c2: "collecting sz q2 (insert ?k R) (clk (currentFrameNumber q2))" using q(3) T sb by simp
    have "staged q2" using st(1) same_block_staged [OF q(4)] by simp
    moreover have "sz = venv_packetSize e + 16" "32 \<le> sz" "venv_rs_alloc e = (\<lambda>_. True)"
      using env by (simp_all add: video_env_ok_def)
    ultimately obtain q3 ev where "try_submit e q2 = Some (q3, ev)" "queue_inv sz clk q3" "frame_events (currentFrameNumber q) q3 ev"
      using try_submit_ok [where clk = clk, OF c2, of e] st(2) sb by auto
    then show ?thesis using q(1,2) by blast
  qed blast
qed

lemma RtpvAddPacket_ok:
  assumes inv: "queue_inv sz clk q" and env: "video_env_ok sz e" and p: "video_packet_ok sz clk p len"
  shows "\<exists>r q' ev. RtpvAddPacket e q p len = Some (r, q', ev) \<and> queue_inv sz clk q' \<and> (\<exists>F. frame_of p = Some F \<and> frame_events F q' ev)"
proof -
  let ?s = "sequenceNumber p"
  obtain v0 where v0: "read_nv p = Some v0" "unat (fec_data_packets v0) + block_parity v0 \<le> 255"
    "timestamp p = clk (frameIndex v0)" using p by (auto simp: video_packet_ok_def split: option.splits)
  have pl: "length (payload p) = sz - 12" "len \<le> sz" "32 \<le> sz" "venv_now e \<noteq> 0"
    using p env by (simp_all add: video_packet_ok_def video_env_ok_def)
  have F: "frame_of p = Some (frameIndex v0)" using v0(1) by (simp add: frame_of_def)
  let ?v = "legacy_fixup (multiFecCapable q) v0"
  have "\<exists>bs. mem_write (payload p) (data_offset (rtp_header p) - 12) (nv_bytes ?v) = Some bs"
    using pl(1,3) data_offset_bound [of "rtp_header p"] by (simp add: mem_write_def)
  then obtain p1 where p1: "write_nv ?v p = Some p1" by (auto simp: write_nv_def)
  note rw = read_write_nv [OF p1]
  have F1: "frame_of p1 = Some (frameIndex v0)" using rw(1) by (simp add: frame_of_def)
  show ?thesis
  proof (cases "isBefore16 ?s (nextContiguousSequenceNumber q) \<or> len < data_offset (rtp_header p) + 16
      \<or> isBefore16 (frameIndex ?v) (currentFrameNumber q)
      \<or> (frameIndex ?v = currentFrameNumber q \<and> fec_block_number ?v < multiFecCurrentBlockNumber q)")
    case True
    then have "RtpvAddPacket e q p len = Some (RTPF_RET_REJECTED, q, [])"
      using v0(1) p1 by (simp add: RtpvAddPacket_def Let_def) blast
    then show ?thesis using inv F by auto
  next
    case False
    obtain accept q1 ev1 where b: "begin_block e ?s ?v q = (accept, q1, ev1)" by (cases "begin_block e ?s ?v q")
    note bo = begin_block_ok [OF inv pl(4) _ b, unfolded legacy_fixup_simps, OF v0(2)]
    have inv1: "queue_inv sz clk q1"
    proof (cases "accept \<and> pendingFecBlockList q1 \<noteq> []")
      case True
      have "pendingFecBlockList (start_block (venv_now e) ?s ?v q0) = pendingFecBlockList q0" for q0
        by (simp add: start_block_def Let_def)
      then show ?thesis using bo True inv by auto
    next
      case False
      then show ?thesis using bo by (cases accept) (simp_all add: queue_inv_def)
    qed
    have pre: "RtpvAddPacket e q p len
      = (if \<not> accept \<or> isBefore16 (bufferHighestSequenceNumber q1) ?s then Some (RTPF_RET_REJECTED, q1, ev1)
         else do {
           (queued, q2) \<leftarrow> queuePacket q1 p1 len (\<not> isBefore16 ?s (bufferFirstParitySequenceNumber q1)) False;
           if \<not> queued then Some (RTPF_RET_REJECTED, q2, ev1)
           else do {
             q3 \<leftarrow> count_packet ?s q2;
             (q4, ev') \<leftarrow> try_submit e q3;
             Some (RTPF_RET_QUEUED, q4, ev1 @ ev') } })"
      using False v0(1) p1 b by (simp add: RtpvAddPacket_def Let_def) blast
    show ?thesis
    proof (cases "accept \<and> \<not> isBefore16 (bufferHighestSequenceNumber q1) ?s")
      case no: False
      have "RtpvAddPacket e q p len = Some (RTPF_RET_REJECTED, q1, ev1)" using pre no by simp
      then show ?thesis using F bo inv1 by auto
    next
      case yes: True
      have q1: "staged q1" "unat (multiFecLastBlockNumber q1) \<le> 3" "currentFrameNumber q1 = frameIndex v0"
        "oos_bound q1" "silent ev1" using bo yes by simp_all
      have "\<exists>R. collecting sz q1 R (clk (frameIndex v0)) \<and> \<not> isBefore16 ?s (nextContiguousSequenceNumber q1)"
      proof (cases "\<exists>R. R \<noteq> {} \<and> collecting sz q1 R (clk (frameIndex v0)) \<and> q1 = q")
        case True
        then show ?thesis using False by auto
      next
        case fresh: False
        then obtain q0 where q0: "q1 = start_block (venv_now e) ?s ?v q0" "pendingFecBlockList q0 = []" "oos_bound q0"
          using bo yes by auto
        have sm: "unat (fec_data_packets ?v) + block_parity ?v \<le> 255" using v0(2) by simp
        note si = start_block_index [OF sm, where s = ?s and now = "venv_now e" and q = q0, folded q0(1)]
        have "0 < unat (fec_data_packets ?v)" using si(2) yes by blast
        then have "collecting sz q1 {} (clk (frameIndex v0))"
          unfolding q0(1) using sm pl(4) q0(2,3) by (intro start_block_collecting)
        then show ?thesis using si(1) by blast
      qed
      then obtain R where R: "collecting sz q1 R (clk (frameIndex v0))" "\<not> isBefore16 ?s (nextContiguousSequenceNumber q1)"
        by blast
      have "queuePacket q1 p1 len (\<not> isBefore16 ?s (bufferFirstParitySequenceNumber q1)) False = Some (False, q1)
        \<or> (\<exists>q2 q3 q4 ev. queuePacket q1 p1 len (\<not> isBefore16 ?s (bufferFirstParitySequenceNumber q1)) False = Some (True, q2)
          \<and> count_packet ?s q2 = Some q3 \<and> try_submit e q3 = Some (q4, ev) \<and> queue_inv sz clk q4
          \<and> frame_events (frameIndex v0) q4 ev)"
        using add_and_submit [where clk = clk, OF R(1), of p1 e len] q1 R(2) env v0(3) rw pl(1,2) False yes F1 by auto
      then show ?thesis
      proof
        assume dup: "queuePacket q1 p1 len (\<not> isBefore16 ?s (bufferFirstParitySequenceNumber q1)) False = Some (False, q1)"
        have "RtpvAddPacket e q p len = Some (RTPF_RET_REJECTED, q1, ev1)" using pre yes dup by simp
        then show ?thesis using F q1(5) inv1 by auto
      next
        assume "\<exists>q2 q3 q4 ev. queuePacket q1 p1 len (\<not> isBefore16 ?s (bufferFirstParitySequenceNumber q1)) False = Some (True, q2)
          \<and> count_packet ?s q2 = Some q3 \<and> try_submit e q3 = Some (q4, ev) \<and> queue_inv sz clk q4
          \<and> frame_events (frameIndex v0) q4 ev"
        then obtain q2 q3 q4 ev where r: "queuePacket q1 p1 len (\<not> isBefore16 ?s (bufferFirstParitySequenceNumber q1)) False = Some (True, q2)"
          "count_packet ?s q2 = Some q3" "try_submit e q3 = Some (q4, ev)" "queue_inv sz clk q4" "frame_events (frameIndex v0) q4 ev"
          by blast
        have "RtpvAddPacket e q p len = Some (RTPF_RET_QUEUED, q4, ev1 @ ev)" using pre yes r(1-3) by simp
        then show ?thesis using F r(4) frame_events_append [OF q1(5) r(5)] by blast
      qed
    qed
  qed
qed

section \<open>Histories\<close>

fun video_run ::
  "video_queue \<Rightarrow> (video_env \<times> rtp_packet \<times> nat) list \<Rightarrow> (video_queue \<times> (rtp_packet \<times> video_event list) list) option" where
  "video_run q [] = Some (q, [])"
| "video_run q ((e, p, len) # xs) = do {
     (_, q, ev) \<leftarrow> RtpvAddPacket e q p len;
     (q, h) \<leftarrow> video_run q xs;
     Some (q, (p, ev) # h) }"

definition video_input_ok :: "nat \<Rightarrow> (u32 \<Rightarrow> u32) \<Rightarrow> video_env \<times> rtp_packet \<times> nat \<Rightarrow> bool" where
  "video_input_ok sz clk = (\<lambda>(e, p, len). video_env_ok sz e \<and> video_packet_ok sz clk p len)"

lemma initial_queue_inv: "queue_inv sz clk (RtpvInitializeQueue v)"
  by (simp add: queue_inv_def RtpvInitializeQueue_def oos_bound_def staged_def)

lemma video_run_inv:
  assumes "queue_inv sz clk q" "\<forall>x \<in> set xs. video_input_ok sz clk x"
  shows "\<exists>q' h. video_run q xs = Some (q', h) \<and> queue_inv sz clk q'
    \<and> (\<forall>(p, ev) \<in> set h. \<exists>F q1. frame_of p = Some F \<and> frame_events F q1 ev)"
  using assms
proof (induction xs arbitrary: q)
  case Nil
  then show ?case by simp
next
  case (Cons x xs)
  obtain e p len where x: "x = (e, p, len)" by (cases x)
  have ok: "video_env_ok sz e" "video_packet_ok sz clk p len" using Cons.prems(2) by (simp_all add: x video_input_ok_def)
  obtain r q1 ev F where q1: "RtpvAddPacket e q p len = Some (r, q1, ev)" "queue_inv sz clk q1"
    "frame_of p = Some F" "frame_events F q1 ev" using RtpvAddPacket_ok [OF Cons.prems(1) ok] by blast
  obtain q2 h where q2: "video_run q1 xs = Some (q2, h)" "queue_inv sz clk q2"
    "\<forall>(p, ev) \<in> set h. \<exists>F q1. frame_of p = Some F \<and> frame_events F q1 ev"
    using Cons.IH [OF q1(2)] Cons.prems(2) by auto
  have "video_run q (x # xs) = Some (q2, (p, ev) # h)" using q1(1) q2(1) by (simp add: x)
  then show ?case using q1(3,4) q2(2,3) by (intro exI [of _ q2] exI [of _ "(p, ev) # h"]) auto
qed



text \<open>
  Property C21.  Exact accounting of losses: while a block waits for packets, \<open>missingPackets\<close> is
  the number of holes below the highest packet received.
\<close>

theorem video_missing_exact:
  assumes "\<forall>x \<in> set xs. video_input_ok sz clk x" "video_run (RtpvInitializeQueue v) xs = Some (q, h)"
    and "pendingFecBlockList q \<noteq> []" "length (pendingFecBlockList q) < bufferDataPackets q"
  shows "missingPackets q = card ({..dist16 (bufferLowestSequenceNumber q) (receivedHighestSequenceNumber q)}
      - set (map (\<lambda>e. dist16 (bufferLowestSequenceNumber q) (entry_seq e)) (pendingFecBlockList q)))"
proof -
  obtain R where R: "R \<noteq> {}" "collecting sz q R (clk (currentFrameNumber q))"
    using video_run_inv [OF initial_queue_inv assms(1), of v] assms(2,3) by (auto simp: queue_inv_def)
  let ?X = "set (ixs (bufferLowestSequenceNumber q) (pendingFecBlockList q))"
  have X: "?X = R" using collectingD(7) [OF R(2)] collecting_card(2) [OF R(2)] assms(4) by auto
  have c: "finite R" "dist16 (bufferLowestSequenceNumber q) (receivedHighestSequenceNumber q) = Max R"
    "missingPackets q + card R = Suc (Max R)" using collectingD(2) [OF R(2)] R(1) by (simp_all add: counters_ok_def)
  have "R \<subseteq> {..Max R}" using c(1) by auto
  then have "card ({..Max R} - R) = Suc (Max R) - card R" using c(1) by (simp add: card_Diff_subset)
  then show ?thesis using c(2,3) unfolding X by simp
qed

text \<open>
  Property C34.  Staging ends and sorts: for a pending list with all data packets of the block and
  any of its parity packets, in any order, the loops of \<open>stageCompleteFecBlock\<close> terminate and leave
  exactly the data packets in sequence order.
\<close>

theorem video_staging_terminates:
  assumes "distinct (map (\<lambda>x. dist16 low (entry_seq x)) es)" "recv \<noteq> 0" "n < 32767"
    and "\<forall>x \<in> set es. dist16 low (entry_seq x) < 32768 \<and> (isParity x \<longleftrightarrow> n \<le> dist16 low (entry_seq x))"
    and "{..<n} \<subseteq> set (map (\<lambda>x. dist16 low (entry_seq x)) es)"
  shows "\<exists>ds. stage_loop recv low es [] = Some ds \<and> length ds = n
    \<and> (\<forall>k < n. \<exists>x \<in> set es. dist16 low (entry_seq x) = k \<and> ds ! k = x\<lparr>receiveTimeMs := recv\<rparr>)"
  using stage_loop_complete [OF assms(1,4), of 0 low recv "[]"] assms(2,3,5)
  by (auto simp: atLeast0LessThan simp del: set_map)

text \<open>
  The fast path is the scan: queueing the next contiguous packet without looking at
  the pending list gives what scanning it gives, apart from the fast path's own two fields.
\<close>

definition without_fast_path :: "video_queue \<Rightarrow> video_queue" where
  "without_fast_path q = q\<lparr>nextContiguousSequenceNumber := 0, useFastQueuePath := False\<rparr>"

theorem video_fast_path_equiv:
  assumes "pending_ok low (nextContiguousSequenceNumber q) (useFastQueuePath q) (pendingFecBlockList q)"
    and "dist16 low (sequenceNumber p) < 32767"
    and "\<not> isBefore16 (sequenceNumber p) (nextContiguousSequenceNumber q)" "\<not> (rec \<and> par)"
  shows "map_option (map_prod id without_fast_path) (queuePacket q p len par rec)
    = map_option (map_prod id without_fast_path) (queuePacket (q\<lparr>useFastQueuePath := False\<rparr>) p len par rec)"
proof -
  let ?q = "q\<lparr>useFastQueuePath := False\<rparr>"
  have slow: "pending_ok low (nextContiguousSequenceNumber ?q) (useFastQueuePath ?q) (pendingFecBlockList ?q)"
    using assms(1) by (simp add: pending_ok_def)
  have eq: "without_fast_path (enqueued q c fast rec oos e) = without_fast_path (enqueued ?q c' fast' rec oos e)" for c c' fast fast' oos e
    by (simp add: without_fast_path_def enqueued_def track_video_oos_def Let_def)
  have behind: "\<not> isBefore16 (sequenceNumber p) (nextContiguousSequenceNumber ?q)" using assms(3) by simp
  note a = queuePacket_spec [OF assms, of len] and b = queuePacket_spec [OF slow assms(2) behind assms(4), of len]
  show ?thesis
  proof (cases "dist16 low (sequenceNumber p) \<in> set (ixs low (pendingFecBlockList q))")
    case True
    then show ?thesis using a b by (auto simp: without_fast_path_def simp del: set_map)
  next
    case False
    obtain c fast where "queuePacket q p len par rec
        = Some (True, enqueued q c fast rec (\<exists>i \<in> set (ixs low (pendingFecBlockList q)). dist16 low (sequenceNumber p) < i)
                        (queued_entry p len par))" using a False by auto
    moreover obtain c' fast' where "queuePacket ?q p len par rec
        = Some (True, enqueued ?q c' fast' rec (\<exists>i \<in> set (ixs low (pendingFecBlockList q)). dist16 low (sequenceNumber p) < i)
                        (queued_entry p len par))" using b False by auto
    ultimately show ?thesis using eq by simp
  qed
qed

section \<open>Concrete histories\<close>

definition demo_env :: video_env where
  "demo_env = \<lparr>venv_packetSize = 16, venv_version = \<lparr>vq0 = 7, vq1 = 1, vq2 = 431, vq3 = - 1\<rparr>, venv_calloc = True,
     venv_rs_alloc = (\<lambda>_. True), venv_malloc = (\<lambda>_. True), venv_junk = (\<lambda>_ _. 0), venv_now = 1\<rparr>"

text \<open>Packet \<open>i\<close> of a block of \<open>n\<close> data packets, with block number \<open>b\<close> of \<open>l\<close>, of frame \<open>f\<close>.\<close>

definition demo_packet :: "u16 \<Rightarrow> u32 \<Rightarrow> u32 \<Rightarrow> u32 \<Rightarrow> u8 \<Rightarrow> u8 \<Rightarrow> u32 \<Rightarrow> rtp_packet" where
  "demo_packet s f n i b l t = \<lparr>rtp_header = 0x80, packetType = 0, sequenceNumber = s, timestamp = t, ssrc = 0,
     payload = nv_bytes \<lparr>streamPacketIndex = 0, frameIndex = f, nv_flags = 1, nv_reserved = 0, multiFecFlags = 0x10,
       multiFecBlocks = push_bit 6 l OR push_bit 4 b, fecInfo = push_bit 22 n OR push_bit 12 i\<rparr> @ [0, 0, 0, 0]\<rparr>"

text \<open>Frame 1: two blocks, the packets of the first one swapped; then the first packet of frame 2.\<close>

definition demo_history :: "(video_env \<times> rtp_packet \<times> nat) list" where
  "demo_history = map (\<lambda>p. (demo_env, p, 32))
     [demo_packet 11 1 2 1 0 1 0, demo_packet 10 1 2 0 0 1 0, demo_packet 12 1 1 0 1 1 0, demo_packet 15 2 3 2 0 0 0]"

definition demo_outcome :: "(video_queue \<times> (rtp_packet \<times> video_event list) list) option \<Rightarrow> bool" where
  "demo_outcome r = (case r of None \<Rightarrow> False
     | Some (q, h) \<Rightarrow> map (\<lambda>(p, ev). (sequenceNumber p, concat (map (\<lambda>x. case x of Submit e \<Rightarrow> [entry_seq e] | _ \<Rightarrow> []) ev))) h
            = [(11, []), (10, []), (12, [10, 11, 12]), (15, [])]
         \<and> map entry_seq (pendingFecBlockList q) = [15] \<and> missingPackets q = 2 \<and> bufferDataPackets q = 3)"

lemma demo_run: "demo_outcome (video_run (RtpvInitializeQueue (venv_version demo_env)) demo_history)"
  by code_simp

lemma demo_input_ok: "\<forall>x \<in> set demo_history. video_input_ok 32 (\<lambda>_. 0) x"
proof -
  have "list_all (\<lambda>(e, p, len). length (payload p) = 20 \<and> len = 32
      \<and> (case read_nv p of None \<Rightarrow> False
         | Some v \<Rightarrow> fec_data_packets v \<le> 3 \<and> fec_percentage v = 0 \<and> timestamp p = 0)) demo_history"
    by code_simp
  moreover have "block_parity v = 0" if "fec_percentage v = 0" for v using that by (simp add: block_parity_def)
  moreover have "unat (fec_data_packets v) \<le> 255" if "fec_data_packets v \<le> 3" for v
    using that by (simp add: word_le_nat_alt)
  ultimately show ?thesis
    by (auto simp: list_all_iff video_input_ok_def video_packet_ok_def video_env_ok_def demo_history_def demo_env_def
        split: option.splits)
qed

lemma demo_result:
  obtains q h where "video_run (RtpvInitializeQueue (venv_version demo_env)) demo_history = Some (q, h)"
    "map entry_seq (pendingFecBlockList q) = [15]" "missingPackets q = 2" "bufferDataPackets q = 3" "h \<noteq> []"
  using demo_run by (auto simp: demo_outcome_def split: option.splits)



theorem video_missing_exact_witness:
  "\<exists>q h. video_run (RtpvInitializeQueue (venv_version demo_env)) demo_history = Some (q, h) \<and> missingPackets q = 2
     \<and> missingPackets q = card ({..dist16 (bufferLowestSequenceNumber q) (receivedHighestSequenceNumber q)}
         - set (map (\<lambda>e. dist16 (bufferLowestSequenceNumber q) (entry_seq e)) (pendingFecBlockList q)))"
proof -
  obtain q h where q: "video_run (RtpvInitializeQueue (venv_version demo_env)) demo_history = Some (q, h)"
    "map entry_seq (pendingFecBlockList q) = [15]" "missingPackets q = 2" "bufferDataPackets q = 3"
    by (rule demo_result)
  have "length (pendingFecBlockList q) = 1" using arg_cong [OF q(2), of length] by simp
  then have "pendingFecBlockList q \<noteq> []" "length (pendingFecBlockList q) < bufferDataPackets q" using q(4) by auto
  from video_missing_exact [OF demo_input_ok q(1) this] show ?thesis using q(1,3) by blast
qed

text \<open>Entries for the packets 11, 12 (parity) and 10 of a block at 10.\<close>

definition demo_pending :: "video_entry list" where
  "demo_pending = map (\<lambda>(s, par). queued_entry (demo_packet s 1 2 0 0 0 0) 32 par) [(11, False), (12, True), (10, False)]"

theorem video_staging_terminates_witness:
  "\<exists>ds. stage_loop 1 10 demo_pending [] = Some ds \<and> length ds = 2"
proof -
  have "distinct (map (\<lambda>x. dist16 10 (entry_seq x)) demo_pending)"
    "\<forall>x \<in> set demo_pending. dist16 10 (entry_seq x) < 32768 \<and> (isParity x \<longleftrightarrow> 2 \<le> dist16 10 (entry_seq x))"
    "{..<2} \<subseteq> set (map (\<lambda>x. dist16 10 (entry_seq x)) demo_pending)"
    by (auto simp: demo_pending_def queued_entry_def demo_packet_def dist16_def less_2_cases_iff)
  then show ?thesis using video_staging_terminates [of 10 demo_pending 1 2] by auto
qed

theorem video_fast_path_equiv_witness:
  "map_option (map_prod id without_fast_path)
      (queuePacket ((RtpvInitializeQueue (venv_version demo_env))\<lparr>useFastQueuePath := True\<rparr>) (demo_packet 0 1 2 0 0 0 0) 32 False False)
    = map_option (map_prod id without_fast_path)
      (queuePacket ((RtpvInitializeQueue (venv_version demo_env))\<lparr>useFastQueuePath := False\<rparr>) (demo_packet 0 1 2 0 0 0 0) 32 False False)"
  using video_fast_path_equiv [of 0 "(RtpvInitializeQueue (venv_version demo_env))\<lparr>useFastQueuePath := True\<rparr>"
      "demo_packet 0 1 2 0 0 0 0" False False 32]
  by (simp add: RtpvInitializeQueue_def pending_ok_def demo_packet_def s16.before_irrefl)

section \<open>An assertion on the host's data\<close>

definition fails :: "'a option \<Rightarrow> bool" where
  "fails x = (case x of None \<Rightarrow> True | Some _ \<Rightarrow> False)"

lemma two_clocks_fail:
  "fails (video_run (RtpvInitializeQueue (venv_version demo_env)) (map (\<lambda>p. (demo_env, p, 32))
     [demo_packet 11 1 3 1 0 0 0, demo_packet 10 1 3 0 0 0 0, demo_packet 12 1 3 2 0 0 27000090]))"
  by code_simp

text \<open>
  Two timestamps in one frame: the host can fail the assertion that a frame reported
  lost is only completed after data out of sequence.  Packet 1 of a frame of three without parity
  comes first, so the loss is reported; packet 0 comes out of sequence; packet 2 carries a
  timestamp more than five minutes later, which clears the out-of-sequence mark, and completes the frame.
\<close>

theorem video_two_clocks_assertion:
  "video_run (RtpvInitializeQueue (venv_version demo_env)) (map (\<lambda>p. (demo_env, p, 32))
     [demo_packet 11 1 3 1 0 0 0, demo_packet 10 1 3 0 0 0 0, demo_packet 12 1 3 2 0 0 27000090]) = None"
  using two_clocks_fail unfolding fails_def by (rule case_None_ok)

end
