(* ===== verification/VideoDepacketizer.thy ===== *)
theory VideoDepacketizer
  imports Version RtpVideoQueue LinkedBlockingQueue ByteBuffer
begin

text \<open>
  The depacketizer of VideoDepacketizer.c: it turns the data packets of the frames the video
  queue delivers into decode units, parsing the H.264 and HEVC byte streams far enough to find
  the parameter sets, and decides after a loss from which frame on the decoder can go on.

  The static variables of the file are the record \<open>depacketizer\<close>.  The chain of buffers is a list
  of entries; the queue of decode units is the bounded queue that the theorem
  \<open>lbq_refines_bounded_fifo\<close> shows LinkedBlockingQueue.c to implement.  A buffer descriptor is an
  offset and a length into the packet's memory, given separately; a read outside that memory is
  \<open>None\<close>, like a failed assertion.  Calls into the control stream and the client's callbacks are
  events.  As in RtpVideoQueue \<open>LC_ASSERT_VT\<close> and the debugging switches are left out.  An entry
  point runs without interleaving with the others.
\<close>

section \<open>State\<close>

definition BUFFER_TYPE_PICDATA :: int where "BUFFER_TYPE_PICDATA = 0"
definition BUFFER_TYPE_SPS :: int where "BUFFER_TYPE_SPS = 1"
definition BUFFER_TYPE_PPS :: int where "BUFFER_TYPE_PPS = 2"
definition BUFFER_TYPE_VPS :: int where "BUFFER_TYPE_VPS = 3"
definition FRAME_TYPE_PFRAME :: int where "FRAME_TYPE_PFRAME = 0"
definition FRAME_TYPE_IDR :: int where "FRAME_TYPE_IDR = 1"
definition DR_OK :: int where "DR_OK = 0"
definition DR_NEED_IDR :: int where "DR_NEED_IDR = - 1"
definition DR_CLEANUP :: int where "DR_CLEANUP = - 1000"
definition COLORSPACE_REC_2020 :: u8 where "COLORSPACE_REC_2020 = 2"
definition CONSECUTIVE_DROP_LIMIT :: u32 where "CONSECUTIVE_DROP_LIMIT = 120"

record lentry =
  le_data :: "u8 list"
  le_bufferType :: int

record decode_unit =
  du_frameNumber :: u32
  du_frameType :: int
  du_frameHostProcessingLatency :: u16
  du_receiveTimeMs :: u64
  du_enqueueTimeMs :: u64
  du_presentationTimeMs :: u32
  du_fullLength :: nat
  du_bufferList :: "lentry list"
  du_hdrActive :: bool
  du_colorspace :: u8

record depacketizer =
  nalChain :: "lentry list"
  nalChainDataLength :: nat
  nextFrameNumber :: u32
  startFrameNumber :: u32
  waitingForNextSuccessfulFrame :: bool
  waitingForIdrFrame :: bool
  waitingForRefInvalFrame :: bool
  lastPacketInStream :: u32
  decodingFrame :: bool
  dp_frameType :: int
  lastPacketPayloadLength :: u16
  strictIdrFrameWait :: bool
  syntheticPtsBase :: u64
  dp_frameHostProcessingLatency :: u16
  firstPacketReceiveTime :: u64
  firstPacketPresentationTime :: u32
  dropStatePending :: bool
  idrFrameProcessed :: bool
  consecutiveFrameDrops :: u32
  decodeUnitQueue :: "decode_unit bqueue"
  unitsOffered :: nat \<comment> \<open>the queue's \<open>lifetimeSize\<close>\<close>

datatype dp_event =
    Request_idr_frame
  | Frame_loss u32 u32
  | Received_complete_frame u32
  | Key_frame_received
  | Submit_decode_unit decode_unit
  | Queue_decode_unit decode_unit \<comment> \<open>the unit entered the decode unit queue\<close>

record dp_env =
  NegotiatedVideoFormat :: u32
  dp_version :: version
  direct_submit :: bool
  submitDecodeUnit :: "decode_unit \<Rightarrow> int"
  dp_malloc :: "nat \<Rightarrow> bool"
  dp_malloc_unit :: bool
  dp_now :: u64
  hostHdrMode :: bool
  streamColorSpace :: u8

definition initializeVideoDepacketizer :: "bool \<Rightarrow> depacketizer \<Rightarrow> depacketizer" where
  "initializeVideoDepacketizer rfiEnabled d =
     d\<lparr>decodeUnitQueue := bq_start 15, unitsOffered := 0, nextFrameNumber := 1, startFrameNumber := 0,
       waitingForNextSuccessfulFrame := False, waitingForIdrFrame := True, waitingForRefInvalFrame := False,
       lastPacketInStream := 0xFFFFFFFF, decodingFrame := False, syntheticPtsBase := 0,
       dp_frameHostProcessingLatency := 0, firstPacketReceiveTime := 0, firstPacketPresentationTime := 0,
       lastPacketPayloadLength := 0, dropStatePending := False, idrFrameProcessed := False,
       strictIdrFrameWait := \<not> rfiEnabled\<rparr>"

text \<open>The static initialisation before the first connection.\<close>

definition static_depacketizer :: depacketizer where
  "static_depacketizer =
     \<lparr>nalChain = [], nalChainDataLength = 0, nextFrameNumber = 0, startFrameNumber = 0,
      waitingForNextSuccessfulFrame = False, waitingForIdrFrame = False, waitingForRefInvalFrame = False,
      lastPacketInStream = 0, decodingFrame = False, dp_frameType = 0, lastPacketPayloadLength = 0,
      strictIdrFrameWait = False, syntheticPtsBase = 0, dp_frameHostProcessingLatency = 0,
      firstPacketReceiveTime = 0, firstPacketPresentationTime = 0, dropStatePending = False,
      idrFrameProcessed = False, consecutiveFrameDrops = 0, decodeUnitQueue = bq_start 0, unitsOffered = 0\<rparr>"

definition cleanupFrameState :: "depacketizer \<Rightarrow> depacketizer" where
  "cleanupFrameState d = d\<lparr>nalChain := [], nalChainDataLength := 0\<rparr>"

definition dropFrameState :: "depacketizer \<Rightarrow> (depacketizer \<times> dp_event list) option" where
  "dropFrameState d = do {
     _ \<leftarrow> LC_ASSERT (\<not> decodingFrame d);
     let d = d\<lparr>dropStatePending := False\<rparr>;
     let d = (if strictIdrFrameWait d \<or> \<not> idrFrameProcessed d \<or> waitingForIdrFrame d
              then d\<lparr>waitingForIdrFrame := True\<rparr> else d\<lparr>waitingForRefInvalFrame := True\<rparr>);
     let d = d\<lparr>consecutiveFrameDrops := consecutiveFrameDrops d + 1\<rparr>;
     let (d, ev) = (if consecutiveFrameDrops d = CONSECUTIVE_DROP_LIMIT
                    then (d\<lparr>consecutiveFrameDrops := 0, waitingForIdrFrame := True\<rparr>, [Request_idr_frame])
                    else (d, []));
     Some (cleanupFrameState d, ev) }"

definition flush_units :: "depacketizer \<Rightarrow> decode_unit list \<times> depacketizer" where
  "flush_units d = (case bq_step Flush (decodeUnitQueue d) of
     (Flushed us, b) \<Rightarrow> (us, d\<lparr>decodeUnitQueue := b\<rparr>) | (_, b) \<Rightarrow> ([], d\<lparr>decodeUnitQueue := b\<rparr>))"

text \<open>\<open>LiCompleteVideoFrame\<close> without the decoder refresh, all that \<open>DR_CLEANUP\<close> can reach.\<close>

definition complete_unit :: "depacketizer \<Rightarrow> decode_unit \<Rightarrow> int \<Rightarrow> depacketizer" where
  "complete_unit d u status =
     (if status = DR_OK \<and> du_frameType u = FRAME_TYPE_IDR then d\<lparr>idrFrameProcessed := True\<rparr> else d)"

definition freeDecodeUnitList :: "decode_unit list \<Rightarrow> depacketizer \<Rightarrow> depacketizer" where
  "freeDecodeUnitList us d = foldl (\<lambda>d u. complete_unit d u DR_CLEANUP) d us"

definition requestDecoderRefresh :: "depacketizer \<Rightarrow> depacketizer \<times> dp_event list" where
  "requestDecoderRefresh d =
     (let d = d\<lparr>waitingForIdrFrame := True\<rparr>;
          (us, d) = flush_units d;
          d = freeDecodeUnitList us d
      in (d\<lparr>dropStatePending := True\<rparr>, [Request_idr_frame]))"

definition LiCompleteVideoFrame :: "decode_unit \<Rightarrow> int \<Rightarrow> depacketizer \<Rightarrow> depacketizer \<times> dp_event list" where
  "LiCompleteVideoFrame u status d =
     (if status = DR_NEED_IDR then requestDecoderRefresh d else (complete_unit d u status, []))"

definition stopVideoDepacketizer :: "depacketizer \<Rightarrow> depacketizer" where
  "stopVideoDepacketizer d = d\<lparr>decodeUnitQueue := snd (bq_step Shutdown (decodeUnitQueue d))\<rparr>"

definition destroyVideoDepacketizer :: "depacketizer \<Rightarrow> depacketizer option" where
  "destroyVideoDepacketizer d = do {
     _ \<leftarrow> LC_ASSERT (closed (decodeUnitQueue d) \<or> ending (decodeUnitQueue d) \<or> unitsOffered d = 0);
     Some (cleanupFrameState (freeDecodeUnitList (contents (decodeUnitQueue d)) d)) }"

section \<open>Annex B byte streams\<close>

record buffer_desc =
  bd_offset :: nat
  bd_length :: nat

abbreviation parsed_format :: "u32 \<Rightarrow> bool" where
  "parsed_format fmt \<equiv> fmt AND (VIDEO_FORMAT_MASK_H264 OR VIDEO_FORMAT_MASK_H265) \<noteq> 0"

text \<open>The length of the start sequence at the descriptor, 0 for none.\<close>

definition getAnnexBStartSequence :: "u32 \<Rightarrow> u8 list \<Rightarrow> buffer_desc \<Rightarrow> nat option" where
  "getAnnexBStartSequence fmt m b = do {
     _ \<leftarrow> LC_ASSERT (parsed_format fmt);
     if bd_length b \<le> 3 then Some 0
     else do {
       b0 \<leftarrow> nth_opt m (bd_offset b);
       b1 \<leftarrow> (if b0 = 0 then nth_opt m (bd_offset b + 1) else Some 1);
       if b0 = 0 \<and> b1 = 0 then do {
         b2 \<leftarrow> nth_opt m (bd_offset b + 2);
         if b2 = 0 then
           if bd_length b > 4 then do {
             b3 \<leftarrow> nth_opt m (bd_offset b + 3);
             Some (if b3 = 1 then 4 else 0) }
           else Some 0
         else Some (if b2 = 1 then 3 else 0) }
       else Some 0 } }"

definition H264_NAL_TYPE :: "u8 \<Rightarrow> u8" where "H264_NAL_TYPE x = x AND 0x1F"
definition HEVC_NAL_TYPE :: "u8 \<Rightarrow> u8" where "HEVC_NAL_TYPE x = drop_bit 1 (x AND 0x7E)"

definition H264_NAL_TYPE_SEI :: u8 where "H264_NAL_TYPE_SEI = 6"
definition H264_NAL_TYPE_SPS :: u8 where "H264_NAL_TYPE_SPS = 7"
definition H264_NAL_TYPE_PPS :: u8 where "H264_NAL_TYPE_PPS = 8"
definition H264_NAL_TYPE_AUD :: u8 where "H264_NAL_TYPE_AUD = 9"
definition H264_NAL_TYPE_FILLER :: u8 where "H264_NAL_TYPE_FILLER = 12"
definition HEVC_NAL_TYPE_VPS :: u8 where "HEVC_NAL_TYPE_VPS = 32"
definition HEVC_NAL_TYPE_SPS :: u8 where "HEVC_NAL_TYPE_SPS = 33"
definition HEVC_NAL_TYPE_PPS :: u8 where "HEVC_NAL_TYPE_PPS = 34"
definition HEVC_NAL_TYPE_AUD :: u8 where "HEVC_NAL_TYPE_AUD = 35"
definition HEVC_NAL_TYPE_FILLER :: u8 where "HEVC_NAL_TYPE_FILLER = 38"
definition HEVC_NAL_TYPE_SEI :: u8 where "HEVC_NAL_TYPE_SEI = 39"

text \<open>What the seven NAL tests have in common: a start sequence and then a NAL header of the codec.\<close>

definition nal_test ::
  "(u8 \<Rightarrow> bool) \<Rightarrow> (u8 \<Rightarrow> bool) \<Rightarrow> u32 \<Rightarrow> u8 list \<Rightarrow> buffer_desc \<Rightarrow> bool option" where
  "nal_test h264 hevc fmt m b = do {
     n \<leftarrow> getAnnexBStartSequence fmt m b;
     if n = 0 then Some False
     else do {
       t \<leftarrow> nth_opt m (bd_offset b + n);
       if fmt AND VIDEO_FORMAT_MASK_H264 \<noteq> 0 then Some (h264 (H264_NAL_TYPE t))
       else do {
         _ \<leftarrow> LC_ASSERT (fmt AND VIDEO_FORMAT_MASK_H265 \<noteq> 0);
         Some (hevc (HEVC_NAL_TYPE t)) } } }"

definition isSeqReferenceFrameStart :: "u32 \<Rightarrow> u8 list \<Rightarrow> buffer_desc \<Rightarrow> bool option" where
  "isSeqReferenceFrameStart = nal_test (\<lambda>t. t = 5) (\<lambda>t. t \<in> {16, 17, 18, 19, 20, 21})"

definition isAccessUnitDelimiter :: "u32 \<Rightarrow> u8 list \<Rightarrow> buffer_desc \<Rightarrow> bool option" where
  "isAccessUnitDelimiter = nal_test (\<lambda>t. t = H264_NAL_TYPE_AUD) (\<lambda>t. t = HEVC_NAL_TYPE_AUD)"

definition isSeiNal :: "u32 \<Rightarrow> u8 list \<Rightarrow> buffer_desc \<Rightarrow> bool option" where
  "isSeiNal = nal_test (\<lambda>t. t = H264_NAL_TYPE_SEI) (\<lambda>t. t = HEVC_NAL_TYPE_SEI)"

definition isFillerDataNal :: "u32 \<Rightarrow> u8 list \<Rightarrow> buffer_desc \<Rightarrow> bool option" where
  "isFillerDataNal = nal_test (\<lambda>t. t = H264_NAL_TYPE_FILLER) (\<lambda>t. t = HEVC_NAL_TYPE_FILLER)"

definition isPictureParameterSetNal :: "u32 \<Rightarrow> u8 list \<Rightarrow> buffer_desc \<Rightarrow> bool option" where
  "isPictureParameterSetNal = nal_test (\<lambda>t. t = H264_NAL_TYPE_PPS) (\<lambda>t. t = HEVC_NAL_TYPE_PPS)"

definition isIdrFrameStart :: "u32 \<Rightarrow> u8 list \<Rightarrow> buffer_desc \<Rightarrow> bool option" where
  "isIdrFrameStart = nal_test (\<lambda>t. t = H264_NAL_TYPE_SPS) (\<lambda>t. t = HEVC_NAL_TYPE_VPS)"

definition bd_advance :: "nat \<Rightarrow> buffer_desc \<Rightarrow> buffer_desc" where
  "bd_advance n b = \<lparr>bd_offset = bd_offset b + n, bd_length = bd_length b - n\<rparr>"

text \<open>The byte-wise search of lines 428 to 436.\<close>

fun seek_start :: "u32 \<Rightarrow> u8 list \<Rightarrow> nat \<Rightarrow> nat \<Rightarrow> buffer_desc option" where
  "seek_start fmt m off 0 = do {
     n \<leftarrow> getAnnexBStartSequence fmt m \<lparr>bd_offset = off, bd_length = 0\<rparr>;
     Some \<lparr>bd_offset = off, bd_length = 0\<rparr> }"
| "seek_start fmt m off (Suc len) = do {
     n \<leftarrow> getAnnexBStartSequence fmt m \<lparr>bd_offset = off, bd_length = Suc len\<rparr>;
     if n \<noteq> 0 then Some \<lparr>bd_offset = off, bd_length = Suc len\<rparr>
     else seek_start fmt m (Suc off) len }"

definition skipToNextNalOrEnd :: "u32 \<Rightarrow> u8 list \<Rightarrow> buffer_desc \<Rightarrow> buffer_desc option" where
  "skipToNextNalOrEnd fmt m b = do {
     n \<leftarrow> getAnnexBStartSequence fmt m b;
     let b = bd_advance n b;
     seek_start fmt m (bd_offset b) (bd_length b) }"

definition skipToNextNal :: "u32 \<Rightarrow> u8 list \<Rightarrow> buffer_desc \<Rightarrow> buffer_desc option" where
  "skipToNextNal fmt m b = do {
     b \<leftarrow> skipToNextNalOrEnd fmt m b;
     _ \<leftarrow> LC_ASSERT (bd_length b > 0);
     Some b }"

definition getBufferFlags :: "u32 \<Rightarrow> u8 list \<Rightarrow> int option" where
  "getBufferFlags fmt m =
     (if \<not> parsed_format fmt then Some BUFFER_TYPE_PICDATA
      else do {
        n \<leftarrow> getAnnexBStartSequence fmt m \<lparr>bd_offset = 0, bd_length = length m\<rparr>;
        if n = 0 then Some BUFFER_TYPE_PICDATA
        else do {
          t \<leftarrow> nth_opt m n;
          if fmt AND VIDEO_FORMAT_MASK_H264 \<noteq> 0 then
            Some (if H264_NAL_TYPE t = H264_NAL_TYPE_SPS then BUFFER_TYPE_SPS
                  else if H264_NAL_TYPE t = H264_NAL_TYPE_PPS then BUFFER_TYPE_PPS
                  else BUFFER_TYPE_PICDATA)
          else do {
            _ \<leftarrow> LC_ASSERT (fmt AND VIDEO_FORMAT_MASK_H265 \<noteq> 0);
            Some (if HEVC_NAL_TYPE t = HEVC_NAL_TYPE_SPS then BUFFER_TYPE_SPS
                  else if HEVC_NAL_TYPE t = HEVC_NAL_TYPE_PPS then BUFFER_TYPE_PPS
                  else if HEVC_NAL_TYPE t = HEVC_NAL_TYPE_VPS then BUFFER_TYPE_VPS
                  else BUFFER_TYPE_PICDATA) } } })"

section \<open>Assembling a frame\<close>

text \<open>
  A fragment of the packet joins the chain.  The packet's own buffer is used when the caller
  offers it (\<open>existing\<close>) and it is still there; the result says whether it still is.
\<close>

definition queueFragment ::
  "dp_env \<Rightarrow> bool \<Rightarrow> u8 list \<Rightarrow> nat \<Rightarrow> nat \<Rightarrow> depacketizer \<Rightarrow> (bool \<times> depacketizer) option" where
  "queueFragment e existing m off len d =
     (if \<not> existing \<and> \<not> dp_malloc e off then Some (existing, d)
      else do {
        frag \<leftarrow> mem_read m off len;
        t \<leftarrow> getBufferFlags (NegotiatedVideoFormat e) frag;
        Some (False, d\<lparr>nalChain := nalChain d @ [\<lparr>le_data = frag, le_bufferType = t\<rparr>],
                       nalChainDataLength := nalChainDataLength d + len\<rparr>) })"

definition validateDecodeUnitForPlayback :: "dp_env \<Rightarrow> depacketizer \<Rightarrow> decode_unit \<Rightarrow> unit option" where
  "validateDecodeUnitForPlayback e d u = do {
     _ \<leftarrow> LC_ASSERT (du_bufferList u \<noteq> []);
     _ \<leftarrow> LC_ASSERT (du_fullLength u \<noteq> 0);
     if du_frameType u = FRAME_TYPE_IDR then
       LC_ASSERT (NegotiatedVideoFormat e
         AND (VIDEO_FORMAT_MASK_H264 OR VIDEO_FORMAT_MASK_H265 OR VIDEO_FORMAT_MASK_AV1) \<noteq> 0)
     else do {
       _ \<leftarrow> LC_ASSERT (du_frameType u = FRAME_TYPE_PFRAME);
       b \<leftarrow> nth_opt (du_bufferList u) 0;
       _ \<leftarrow> LC_ASSERT (le_bufferType b = BUFFER_TYPE_PICDATA);
       LC_ASSERT (idrFrameProcessed d) } }"

text \<open>Lines 481 to 504: the decode unit of the chain.\<close>

definition make_unit :: "dp_env \<Rightarrow> u32 \<Rightarrow> depacketizer \<Rightarrow> decode_unit" where
  "make_unit e frameNum d =
     \<lparr>du_frameNumber = frameNum,
      du_frameType = (if (case nalChain d of [] \<Rightarrow> False | b # _ \<Rightarrow> le_bufferType b \<noteq> BUFFER_TYPE_PICDATA)
                         \<or> dp_frameType d = FRAME_TYPE_IDR
                      then FRAME_TYPE_IDR else FRAME_TYPE_PFRAME),
      du_frameHostProcessingLatency = dp_frameHostProcessingLatency d,
      du_receiveTimeMs = firstPacketReceiveTime d, du_enqueueTimeMs = dp_now e,
      du_presentationTimeMs = firstPacketPresentationTime d,
      du_fullLength = nalChainDataLength d, du_bufferList = nalChain d,
      du_hdrActive = hostHdrMode e,
      du_colorspace = (if hostHdrMode e then COLORSPACE_REC_2020 else streamColorSpace e)\<rparr>"

text \<open>The queue is full: the frame and all queued frames are given up (lines 511 to 529).\<close>

definition queue_overflow :: "decode_unit \<Rightarrow> depacketizer \<Rightarrow> (depacketizer \<times> dp_event list) option" where
  "queue_overflow u d = do {
     (d, ev) \<leftarrow> dropFrameState (d\<lparr>waitingForIdrFrame := True, nalChain := du_bufferList u,
                                 nalChainDataLength := du_fullLength u\<rparr>);
     let (us, d) = flush_units d;
     Some (freeDecodeUnitList us d, ev @ [Request_idr_frame]) }"

definition frame_submitted :: "u32 \<Rightarrow> depacketizer \<Rightarrow> depacketizer \<times> dp_event list" where
  "frame_submitted frameNum d =
     (d\<lparr>consecutiveFrameDrops := 0, startFrameNumber := nextFrameNumber d\<rparr>, [Received_complete_frame frameNum])"

definition reassembleFrame :: "dp_env \<Rightarrow> u32 \<Rightarrow> depacketizer \<Rightarrow> (depacketizer \<times> dp_event list) option" where
  "reassembleFrame e frameNum d =
     (if nalChain d = [] \<or> (\<not> direct_submit e \<and> \<not> dp_malloc_unit e) then Some (d, [])
      else do {
        let u = make_unit e frameNum d;
        let ev1 = (if du_frameType u = FRAME_TYPE_IDR then [Key_frame_received] else []);
        let d = d\<lparr>nalChain := [], nalChainDataLength := 0\<rparr>;
        if direct_submit e then do {
          _ \<leftarrow> validateDecodeUnitForPlayback e d u;
          let (d, ev2) = LiCompleteVideoFrame u (submitDecodeUnit e u) d;
          let (d, ev3) = frame_submitted frameNum d;
          Some (d, ev1 @ [Submit_decode_unit u] @ ev2 @ ev3) }
        else
          (case bq_step (Offer u \<lparr>flink = None, blink = None, data = u\<rparr>) (decodeUnitQueue d) of
             (Status LBQ_BOUND_EXCEEDED _, _) \<Rightarrow> map_option (\<lambda>(d, ev). (d, ev1 @ ev)) (queue_overflow u d)
           | (Status st _, b) \<Rightarrow>
               let d = d\<lparr>decodeUnitQueue := b,
                         unitsOffered := (if st = LBQ_SUCCESS then unitsOffered d + 1 else unitsOffered d)\<rparr>;
                   (d, ev2) = frame_submitted frameNum d
               in Some (d, ev1 @ (if st = LBQ_SUCCESS then [Queue_decode_unit u] else []) @ ev2)
           | _ \<Rightarrow> None) })"

section \<open>Parsing the first packet of a frame\<close>

text \<open>Lines 662 to 667 and 979 to 990: SEI NAL units, and access unit delimiters, are skipped.\<close>

partial_function (option) skip_prefix :: "bool \<Rightarrow> u32 \<Rightarrow> u8 list \<Rightarrow> buffer_desc \<Rightarrow> buffer_desc option" where
  "skip_prefix auds fmt m b = do {
     a \<leftarrow> (if auds then isAccessUnitDelimiter fmt m b else Some False);
     s \<leftarrow> (if a then Some True else isSeiNal fmt m b);
     if s then do { b \<leftarrow> skipToNextNal fmt m b; skip_prefix auds fmt m b }
     else Some b }"

declare skip_prefix.simps [code]

text \<open>Lines 697 to 702: picture data extends to the end of the packet.\<close>

partial_function (option) skip_to_end :: "u32 \<Rightarrow> u8 list \<Rightarrow> buffer_desc \<Rightarrow> buffer_desc option" where
  "skip_to_end fmt m b =
     (if bd_length b = 0 then Some b
      else do { b \<leftarrow> skipToNextNalOrEnd fmt m b; skip_to_end fmt m b })"

declare skip_to_end.simps [code]

definition idr_slice_seen :: "depacketizer \<Rightarrow> depacketizer" where
  "idr_slice_seen d = d\<lparr>waitingForIdrFrame := False, waitingForRefInvalFrame := False,
                        waitingForNextSuccessfulFrame := False, dp_frameType := FRAME_TYPE_IDR\<rparr>"

text \<open>One round of the loop of lines 656 to 709.\<close>

definition slow_round ::
  "dp_env \<Rightarrow> u8 list \<Rightarrow> buffer_desc \<times> bool \<times> depacketizer \<Rightarrow> (buffer_desc \<times> bool \<times> depacketizer) option" where
  "slow_round e m = (\<lambda>(b, existing, d). do {
     let fmt = NegotiatedVideoFormat e;
     n \<leftarrow> getAnnexBStartSequence fmt m b;
     b \<leftarrow> (if n = 0 then skipToNextNal fmt m b else Some b);
     b \<leftarrow> skip_prefix True fmt m b;
     let start = bd_offset b;
     pic \<leftarrow> isSeqReferenceFrameStart fmt m b;
     let d = (if pic then idr_slice_seen d else d);
     b \<leftarrow> skipToNextNalOrEnd fmt m b;
     b \<leftarrow> (if pic then skip_to_end fmt m b else Some b);
     (kept, d) \<leftarrow> queueFragment e (pic \<and> existing) m start (bd_offset b - start) d;
     Some (b, if pic then kept else existing, d) })"

partial_function (option) slow_loop ::
  "dp_env \<Rightarrow> u8 list \<Rightarrow> buffer_desc \<times> bool \<times> depacketizer \<Rightarrow> (buffer_desc \<times> bool \<times> depacketizer) option" where
  "slow_loop e m s =
     (if bd_length (fst s) = 0 then Some s
      else do { s \<leftarrow> slow_round e m s; slow_loop e m s })"

declare slow_loop.simps [code]

definition processAvcHevcRtpPayloadSlow ::
  "dp_env \<Rightarrow> u8 list \<Rightarrow> buffer_desc \<Rightarrow> bool \<Rightarrow> depacketizer \<Rightarrow> (bool \<times> depacketizer) option" where
  "processAvcHevcRtpPayloadSlow e m b existing d = do {
     _ \<leftarrow> LC_ASSERT (nalChain d = []);
     (_, existing, d) \<leftarrow> slow_loop e m (b, existing, d);
     Some (existing, d) }"

definition isFirstPacket :: "u8 \<Rightarrow> u8 \<Rightarrow> bool" where
  "isFirstPacket flags fecBlockNumber =
     (let flags = flags AND NOT FLAG_CONTAINS_PIC_DATA
      in (flags = FLAG_SOF OR FLAG_EOF \<or> flags = FLAG_SOF) \<and> fecBlockNumber = 0)"

text \<open>Lines 907 to 958.\<close>

definition frame_header_size :: "version \<Rightarrow> u8 \<Rightarrow> nat" where
  "frame_header_size v b0 =
     (if APP_VERSION_AT_LEAST v 7 1 450 then (if b0 = 0x01 then 8 else 44)
      else if APP_VERSION_AT_LEAST v 7 1 446 then (if b0 = 0x01 then 8 else 41)
      else if APP_VERSION_AT_LEAST v 7 1 415 then (if b0 = 0x01 then 8 else 24)
      else if APP_VERSION_AT_LEAST v 7 1 350 then 8
      else if APP_VERSION_AT_LEAST v 7 1 320 then 12
      else if APP_VERSION_AT_LEAST v 5 0 0 then 8
      else 0)"

definition refs_valid_again :: "depacketizer \<Rightarrow> depacketizer" where
  "refs_valid_again d =
     (if waitingForRefInvalFrame d then d\<lparr>waitingForRefInvalFrame := False, waitingForNextSuccessfulFrame := False\<rparr>
      else d)"

text \<open>Lines 848 to 888: the frame type in the frame header.\<close>

definition parse_frame_type ::
  "dp_env \<Rightarrow> u32 \<Rightarrow> u8 list \<Rightarrow> nat \<Rightarrow> depacketizer \<Rightarrow> (depacketizer \<times> dp_event list) option" where
  "parse_frame_type e frameNum m len d =
     (if APP_VERSION_AT_LEAST (dp_version e) 7 1 350 \<and> len \<ge> 4 then do {
        t \<leftarrow> nth_opt m 3;
        let d = (if t = 2 \<and> \<not> parsed_format (NegotiatedVideoFormat e)
                 then d\<lparr>waitingForIdrFrame := False, waitingForNextSuccessfulFrame := False, dp_frameType := FRAME_TYPE_IDR\<rparr>
                 else d);
        Some (if t = 2 \<or> t = 4 \<or> t = 5 then refs_valid_again d else d, []) }
      else if waitingForRefInvalFrame d
        then Some (refs_valid_again d, [Frame_loss (startFrameNumber d) (frameNum - 1)])
        else Some (d, []))"

text \<open>Lines 890 to 905: the fields read through a byte buffer.\<close>

definition header_get16 :: "u8 list \<Rightarrow> i32 \<Rightarrow> u16 option" where
  "header_get16 m off = do {
     bb \<leftarrow> BbInitializeWrappedBuffer m off 2 BYTE_ORDER_LITTLE;
     (_, x, _) \<leftarrow> BbGet16 bb;
     Some x }"

definition parse_header_fields :: "dp_env \<Rightarrow> u8 list \<Rightarrow> nat \<Rightarrow> depacketizer \<Rightarrow> depacketizer option" where
  "parse_header_fields e m len d = do {
     d \<leftarrow> (if IS_SUNSHINE (dp_version e) \<and> len \<ge> 3
           then map_option (\<lambda>x. d\<lparr>dp_frameHostProcessingLatency := x\<rparr>) (header_get16 m 1) else Some d);
     (if \<not> parsed_format (NegotiatedVideoFormat e) \<and> len \<ge> 6
      then map_option (\<lambda>x. d\<lparr>lastPacketPayloadLength := x\<rparr>) (header_get16 m 4) else Some d) }"

text \<open>Lines 967 to 991: to the first NAL unit of interest.\<close>

definition strip_nal_prefix :: "u32 \<Rightarrow> u8 list \<Rightarrow> buffer_desc \<Rightarrow> buffer_desc option" where
  "strip_nal_prefix fmt m b =
     (if \<not> parsed_format fmt then Some b
      else do {
        n \<leftarrow> getAnnexBStartSequence fmt m b;
        b \<leftarrow> (if n = 0 then skipToNextNal fmt m b else Some b);
        a \<leftarrow> isAccessUnitDelimiter fmt m b;
        b \<leftarrow> (if a then skipToNextNal fmt m b else Some b);
        skip_prefix False fmt m b })"

text \<open>Lines 844 to 996: what the frame header of a first packet says, and where its data starts.\<close>

definition parse_first_packet ::
  "dp_env \<Rightarrow> u32 \<Rightarrow> u8 list \<Rightarrow> nat \<Rightarrow> depacketizer \<Rightarrow> (nat \<times> buffer_desc \<times> depacketizer \<times> dp_event list) option" where
  "parse_first_packet e frameNum m len d = do {
     (d, ev) \<leftarrow> parse_frame_type e frameNum m len d;
     d \<leftarrow> parse_header_fields e m len d;
     b0 \<leftarrow> (if APP_VERSION_AT_LEAST (dp_version e) 7 1 415 then nth_opt m 0 else Some 0);
     let hdr = frame_header_size (dp_version e) b0;
     let b = \<lparr>bd_offset = 0, bd_length = len\<rparr>;
     let b = (if len \<ge> hdr then bd_advance hdr b else b);
     b \<leftarrow> strip_nal_prefix (NegotiatedVideoFormat e) m b;
     Some (hdr, b, d, ev) }"

section \<open>Processing a packet\<close>

text \<open>Lines 783 to 792 and 1046 to 1056: the frame is given up and the host told.\<close>

definition give_up_frame :: "u32 \<Rightarrow> depacketizer \<Rightarrow> (depacketizer \<times> dp_event list) option" where
  "give_up_frame frameNum d = do {
     (d, ev) \<leftarrow> dropFrameState (d\<lparr>decodingFrame := False, nextFrameNumber := frameNum + 1\<rparr>);
     Some (d, ev @ (if waitingForIdrFrame d then [Request_idr_frame]
                    else [Frame_loss (startFrameNumber d) frameNum])) }"

text \<open>Lines 800 to 840.\<close>

definition start_frame :: "u32 \<Rightarrow> u64 \<Rightarrow> u32 \<Rightarrow> depacketizer \<Rightarrow> (depacketizer \<times> dp_event list) option" where
  "start_frame frameNum receiveTime pts d = do {
     (d, ev) \<leftarrow> (if isBefore32 (nextFrameNumber d) frameNum
                 then dropFrameState (d\<lparr>nextFrameNumber := frameNum, waitingForNextSuccessfulFrame := True\<rparr>)
                 else do { _ \<leftarrow> LC_ASSERT (nextFrameNumber d = frameNum); Some (d, []) });
     let d = d\<lparr>decodingFrame := True, dp_frameType := FRAME_TYPE_PFRAME, firstPacketReceiveTime := receiveTime,
               syntheticPtsBase := (if syntheticPtsBase d = 0 then receiveTime else syntheticPtsBase d)\<rparr>;
     Some (d\<lparr>firstPacketPresentationTime :=
               (if pts = 0 \<and> frameNum > 0 then ucast (receiveTime - syntheticPtsBase d) else pts)\<rparr>, ev) }"

text \<open>Lines 998 to 1062; \<open>None\<close> inside the option when the frame has to be given up.\<close>

definition queue_payload ::
  "dp_env \<Rightarrow> bool \<Rightarrow> bool \<Rightarrow> nat \<Rightarrow> u8 list \<Rightarrow> buffer_desc \<Rightarrow> depacketizer \<Rightarrow> (bool \<times> depacketizer) option option" where
  "queue_payload e firstPacket lastPacket hdr m b d =
     (let fmt = NegotiatedVideoFormat e; lastLen = unat (lastPacketPayloadLength d)
      in if parsed_format fmt then do {
           idr \<leftarrow> (if firstPacket then isIdrFrameStart fmt m b else Some False);
           if idr then map_option Some (processAvcHevcRtpPayloadSlow e m b True d)
           else do {
             pps \<leftarrow> (if firstPacket then isPictureParameterSetNal fmt m b else Some False);
             b \<leftarrow> (if pps then skipToNextNal fmt m b else Some b);
             map_option Some (queueFragment e True m (bd_offset b) (bd_length b) d) } }
         else if lastPacket \<and> \<not> (lastLen > hdr \<and> lastLen - hdr \<le> bd_length b) then Some None
         else map_option Some
           (queueFragment e True m (bd_offset b) (if lastPacket then lastLen - hdr else bd_length b) d))"

text \<open>Lines 1064 to 1118.\<close>

definition end_frame :: "dp_env \<Rightarrow> u32 \<Rightarrow> depacketizer \<Rightarrow> (depacketizer \<times> dp_event list) option" where
  "end_frame e frameNum d =
     (let d = d\<lparr>decodingFrame := False, nextFrameNumber := frameNum + 1\<rparr>
      in if waitingForIdrFrame d \<or> waitingForRefInvalFrame d then do {
           let ev = (if waitingForIdrFrame d
                     then if waitingForNextSuccessfulFrame d then [Request_idr_frame] else []
                     else [Frame_loss (startFrameNumber d) frameNum]);
           (d, ev') \<leftarrow> dropFrameState (d\<lparr>waitingForNextSuccessfulFrame := False\<rparr>);
           Some (d, ev @ ev') }
         else do {
           _ \<leftarrow> LC_ASSERT (\<not> waitingForNextSuccessfulFrame d);
           if dropStatePending d \<and> \<not> (nalChain d \<noteq> [] \<and> dp_frameType d = FRAME_TYPE_IDR) then dropFrameState d
           else reassembleFrame e frameNum (d\<lparr>dropStatePending := False\<rparr>) })"

text \<open>
  \<open>m\<close> is the packet's memory after its video header, of which \<open>len\<close> bytes were received.  The
  boolean says whether the packet buffer is left for the caller to free.
\<close>

definition processRtpPayload ::
  "dp_env \<Rightarrow> nv_video_packet \<Rightarrow> u8 list \<Rightarrow> nat \<Rightarrow> u64 \<Rightarrow> u32 \<Rightarrow> depacketizer
   \<Rightarrow> (bool \<times> depacketizer \<times> dp_event list) option" where
  "processRtpPayload e v m len receiveTime pts d =
     (let spi = drop_bit 8 (streamPacketIndex v) AND 0xFFFFFF;
          frameNum = frameIndex v; flags = nv_flags v;
          firstPacket = isFirstPacket flags (fec_block_number v);
          lastPacket = (flags AND FLAG_EOF \<noteq> 0 \<and> fec_block_number v = fec_last_block v);
          expected = U24 (lastPacketInStream d + 1)
      in if isBefore32 frameNum (nextFrameNumber d) then Some (True, d, [])
         else if isBefore24 spi expected \<or> (flags AND FLAG_SOF = 0 \<and> spi \<noteq> expected)
         then map_option (\<lambda>(d, ev). (True, d, ev)) (give_up_frame frameNum d)
         else do {
           _ \<leftarrow> LC_ASSERT (firstPacket \<noteq> decodingFrame d);
           (d, ev1) \<leftarrow> (if firstPacket then start_frame frameNum receiveTime pts d else Some (d, []));
           let d = d\<lparr>lastPacketInStream := spi\<rparr>;
           (hdr, b, d, ev2) \<leftarrow>
             (if firstPacket \<and> len > 0 then parse_first_packet e frameNum m len d
              else Some (0, \<lparr>bd_offset = 0, bd_length = len\<rparr>, d, []));
           r \<leftarrow> queue_payload e firstPacket lastPacket hdr m b d;
           (case r of
              None \<Rightarrow> map_option (\<lambda>(d, ev). (True, d, ev1 @ ev2 @ ev)) (give_up_frame frameNum d)
            | Some (kept, d) \<Rightarrow>
                if lastPacket then map_option (\<lambda>(d, ev). (kept, d, ev1 @ ev2 @ ev)) (end_frame e frameNum d)
                else Some (kept, d, ev1 @ ev2)) })"

text \<open>The video queue found the frame to be lost.\<close>

definition notifyFrameLost :: "u32 \<Rightarrow> depacketizer \<Rightarrow> (depacketizer \<times> dp_event list) option" where
  "notifyFrameLost frameNum d = do {
     _ \<leftarrow> LC_ASSERT (frameNum \<ge> startFrameNumber d);
     (d, ev) \<leftarrow> dropFrameState d;
     if waitingForIdrFrame d then Some (d, ev)
     else do {
       _ \<leftarrow> LC_ASSERT (waitingForRefInvalFrame d);
       Some (d\<lparr>nextFrameNumber := frameNum + 1\<rparr>, ev @ [Frame_loss (startFrameNumber d) frameNum]) } }"

definition queueRtpPacket :: "dp_env \<Rightarrow> video_entry \<Rightarrow> depacketizer \<Rightarrow> (bool \<times> depacketizer \<times> dp_event list) option" where
  "queueRtpPacket e q d = do {
     _ \<leftarrow> LC_ASSERT (\<not> isParity q);
     _ \<leftarrow> LC_ASSERT (receiveTimeMs q \<noteq> 0);
     let off = data_offset (rtp_header (ve_packet q));
     _ \<leftarrow> LC_ASSERT (ve_length q \<ge> off + sizeof_NV_VIDEO_PACKET);
     v \<leftarrow> read_nv (ve_packet q);
     processRtpPayload e v (drop (off - sizeof_RTP_PACKET + sizeof_NV_VIDEO_PACKET) (payload (ve_packet q)))
       (ve_length q - off - sizeof_NV_VIDEO_PACKET) (receiveTimeMs q) (presentationTimeMs q) d }"

section \<open>The decoder's side\<close>

definition unit_of :: "decode_unit lbq_out \<times> decode_unit bqueue \<Rightarrow> decode_unit option" where
  "unit_of r = (case r of (Status LBQ_SUCCESS (Some u), _) \<Rightarrow> Some u | _ \<Rightarrow> None)"

text \<open>Taking or peeking at a unit: \<open>None\<close> inside the option when there is none.\<close>

definition take_unit ::
  "dp_env \<Rightarrow> decode_unit lbq_op \<Rightarrow> depacketizer \<Rightarrow> (decode_unit option \<times> depacketizer) option" where
  "take_unit e op d =
     (let r = bq_step op (decodeUnitQueue d); d = d\<lparr>decodeUnitQueue := snd r\<rparr>
      in case unit_of r of
           None \<Rightarrow> Some (None, d)
         | Some u \<Rightarrow> do { _ \<leftarrow> validateDecodeUnitForPlayback e d u; Some (Some u, d) })"

definition LiWaitForNextVideoFrame :: "dp_env \<Rightarrow> depacketizer \<Rightarrow> (decode_unit option \<times> depacketizer) option" where
  "LiWaitForNextVideoFrame e d = take_unit e Wait d"

definition LiPollNextVideoFrame :: "dp_env \<Rightarrow> depacketizer \<Rightarrow> (decode_unit option \<times> depacketizer) option" where
  "LiPollNextVideoFrame e d = take_unit e Poll d"

definition LiPeekNextVideoFrame :: "dp_env \<Rightarrow> depacketizer \<Rightarrow> (decode_unit option \<times> depacketizer) option" where
  "LiPeekNextVideoFrame e d = take_unit e Peek d"

definition LiWakeWaitForVideoFrame :: "depacketizer \<Rightarrow> depacketizer" where
  "LiWakeWaitForVideoFrame d = d\<lparr>decodeUnitQueue := snd (bq_step UserWake (decodeUnitQueue d))\<rparr>"

definition LiGetPendingVideoFrames :: "depacketizer \<Rightarrow> nat" where
  "LiGetPendingVideoFrames d = length (contents (decodeUnitQueue d))"

end
