(* ===== verification/VideoStream.thy ===== *)
theory VideoStream
  imports VideoDepacketizer
begin

text \<open>
  Correctness of the depacketizer: the byte stream parser finds exactly the start sequences, the
  slow path splits a payload into its NAL units, the chain of buffers is accounted for, and in
  strict mode the decoder never gets a frame whose predecessor it did not get.
\<close>

section \<open>Invariants of every operation\<close>

text \<open>The accounting of the chain, and a frame not being decoded has no data.\<close>

definition chain_total :: "lentry list \<Rightarrow> nat" where
  "chain_total es = sum_list (map (\<lambda>b. length (le_data b)) es)"

definition unit_ok :: "decode_unit \<Rightarrow> bool" where
  "unit_ok u \<longleftrightarrow> du_bufferList u \<noteq> [] \<and> du_fullLength u = chain_total (du_bufferList u)
     \<and> (du_frameType u = FRAME_TYPE_IDR
        \<or> du_frameType u = FRAME_TYPE_PFRAME \<and> le_bufferType (hd (du_bufferList u)) = BUFFER_TYPE_PICDATA)"

definition chain_ok :: "depacketizer \<Rightarrow> bool" where
  "chain_ok d \<longleftrightarrow> nalChainDataLength d = chain_total (nalChain d)"

lemma chain_total_simps [simp]:
  "chain_total [] = 0" "chain_total (b # es) = length (le_data b) + chain_total es"
  "chain_total (es @ es') = chain_total es + chain_total es'"
  by (simp_all add: chain_total_def)

section \<open>Strict mode\<close>

text \<open>
  Without reference frame invalidation a frame is decodable when it is an IDR frame or the
  frame before it was accepted.  \<open>prev\<close> is the number of the last unit the decoder or its queue accepted.
\<close>

definition queue_down :: "bool \<Rightarrow> depacketizer \<Rightarrow> bool" where
  "queue_down direct d \<longleftrightarrow> \<not> direct \<and> (closed (decodeUnitQueue d) \<or> ending (decodeUnitQueue d))"

definition strict_inv :: "bool \<Rightarrow> u32 option \<Rightarrow> depacketizer \<Rightarrow> bool" where
  "strict_inv direct prev d \<longleftrightarrow> strictIdrFrameWait d \<and> \<not> waitingForRefInvalFrame d
     \<and> (waitingForIdrFrame d \<or> decodingFrame d \<and> dp_frameType d = FRAME_TYPE_IDR
        \<or> prev = Some (nextFrameNumber d - 1) \<or> queue_down direct d)"

definition accepted :: "dp_event list \<Rightarrow> decode_unit list" where
  "accepted ev = concat (map (\<lambda>x. case x of Submit_decode_unit u \<Rightarrow> [u] | Queue_decode_unit u \<Rightarrow> [u] | _ \<Rightarrow> []) ev)"

lemma accepted_simps [simp]:
  "accepted [] = []" "accepted (x # ev) = (case x of Submit_decode_unit u \<Rightarrow> [u] | Queue_decode_unit u \<Rightarrow> [u] | _ \<Rightarrow> []) @ accepted ev"
  "accepted (a @ b) = accepted a @ accepted b"
  by (simp_all add: accepted_def)

text \<open>The units accepted after \<open>prev\<close> can be decoded one after the other.\<close>

fun decodable :: "u32 option \<Rightarrow> decode_unit list \<Rightarrow> bool" where
  "decodable prev [] = True"
| "decodable prev (u # us) =
     ((du_frameType u = FRAME_TYPE_IDR \<or> prev = Some (du_frameNumber u - 1)) \<and> decodable (Some (du_frameNumber u)) us)"

definition last_number :: "u32 option \<Rightarrow> decode_unit list \<Rightarrow> u32 option" where
  "last_number prev us = (if us = [] then prev else Some (du_frameNumber (last us)))"

lemma decodable_append: "decodable prev (us @ us') \<longleftrightarrow> decodable prev us \<and> decodable (last_number prev us) us'"
  by (induction us arbitrary: prev) (auto simp: last_number_def)

lemma last_number_append: "last_number prev (us @ us') = last_number (last_number prev us) us'"
  by (simp add: last_number_def)

text \<open>Dropping the state in one update.\<close>

definition needs_idr :: "depacketizer \<Rightarrow> bool" where
  "needs_idr d \<longleftrightarrow> strictIdrFrameWait d \<or> \<not> idrFrameProcessed d \<or> waitingForIdrFrame d"

definition drop_limit :: "depacketizer \<Rightarrow> bool" where
  "drop_limit d \<longleftrightarrow> consecutiveFrameDrops d + 1 = CONSECUTIVE_DROP_LIMIT"

definition dropped :: "depacketizer \<Rightarrow> depacketizer" where
  "dropped d = d\<lparr>dropStatePending := False, waitingForIdrFrame := needs_idr d \<or> drop_limit d,
     waitingForRefInvalFrame := waitingForRefInvalFrame d \<or> \<not> needs_idr d,
     consecutiveFrameDrops := (if drop_limit d then 0 else consecutiveFrameDrops d + 1),
     nalChain := [], nalChainDataLength := 0\<rparr>"

lemma dropFrameState_eq:
  "dropFrameState d = (if decodingFrame d then None
     else Some (dropped d, if drop_limit d then [Request_idr_frame] else []))"
proof (cases "decodingFrame d")
  case False
  then show ?thesis
    by (cases "strictIdrFrameWait d"; cases "idrFrameProcessed d"; cases "waitingForIdrFrame d"; cases "drop_limit d"; cases d)
      (simp_all add: dropFrameState_def dropped_def needs_idr_def drop_limit_def cleanupFrameState_def Let_def)
qed (simp add: dropFrameState_def LC_ASSERT_def)

lemma dropped_simps [simp]:
  "nalChain (dropped d) = []" "nalChainDataLength (dropped d) = 0" "nextFrameNumber (dropped d) = nextFrameNumber d"
  "startFrameNumber (dropped d) = startFrameNumber d" "decodingFrame (dropped d) = decodingFrame d"
  "strictIdrFrameWait (dropped d) = strictIdrFrameWait d" "decodeUnitQueue (dropped d) = decodeUnitQueue d"
  "waitingForIdrFrame (dropped d) = (needs_idr d \<or> drop_limit d)" "dropStatePending (dropped d) = False"
  "waitingForRefInvalFrame (dropped d) = (waitingForRefInvalFrame d \<or> \<not> needs_idr d)"
  "idrFrameProcessed (dropped d) = idrFrameProcessed d" "lastPacketInStream (dropped d) = lastPacketInStream d"
  "waitingForNextSuccessfulFrame (dropped d) = waitingForNextSuccessfulFrame d" "dp_frameType (dropped d) = dp_frameType d"
  "unitsOffered (dropped d) = unitsOffered d"
  by (simp_all add: dropped_def)

lemma dropFrameState_strict:
  assumes "dropFrameState d = Some (d', ev)" "strictIdrFrameWait d"
  shows "d' = dropped d" "waitingForIdrFrame d'" "accepted ev = []" "waitingForRefInvalFrame d' = waitingForRefInvalFrame d"
  using assms by (auto simp: dropFrameState_eq needs_idr_def split: if_splits)

lemma freeDecodeUnitList_id [simp]: "freeDecodeUnitList us d = d"
  by (induction us arbitrary: d) (simp_all add: freeDecodeUnitList_def complete_unit_def DR_CLEANUP_def DR_OK_def)

lemma flush_units_simps [simp]: "flush_units d = (contents (decodeUnitQueue d), d\<lparr>decodeUnitQueue := (decodeUnitQueue d)\<lparr>contents := []\<rparr>\<rparr>)"
  by (simp add: flush_units_def)

lemma strict_waiting: "strictIdrFrameWait d \<Longrightarrow> \<not> waitingForRefInvalFrame d \<Longrightarrow> waitingForIdrFrame d \<Longrightarrow> strict_inv direct prev d"
  by (simp add: strict_inv_def)

definition refreshed :: "depacketizer \<Rightarrow> depacketizer" where
  "refreshed d = d\<lparr>waitingForIdrFrame := True, decodeUnitQueue := (decodeUnitQueue d)\<lparr>contents := []\<rparr>, dropStatePending := True\<rparr>"

lemma requestDecoderRefresh_eq: "requestDecoderRefresh d = (refreshed d, [Request_idr_frame])"
  by (simp add: requestDecoderRefresh_def refreshed_def Let_def)

lemma LiCompleteVideoFrame_eq:
  "LiCompleteVideoFrame u status d =
     (if status = DR_NEED_IDR then (refreshed d, [Request_idr_frame])
      else if status = DR_OK \<and> du_frameType u = FRAME_TYPE_IDR then (d\<lparr>idrFrameProcessed := True\<rparr>, []) else (d, []))"
  by (simp add: LiCompleteVideoFrame_def requestDecoderRefresh_eq complete_unit_def)

lemma LiCompleteVideoFrame_strict:
  assumes "LiCompleteVideoFrame u status d = (d', ev)" "strict_inv direct prev d"
  shows "strict_inv direct prev d' \<and> accepted ev = [] \<and> decodingFrame d' = decodingFrame d \<and> nextFrameNumber d' = nextFrameNumber d"
proof -
  consider "d' = refreshed d" "ev = [Request_idr_frame]" | "d' = d\<lparr>idrFrameProcessed := True\<rparr>" "ev = []" | "d' = d" "ev = []"
    using assms(1) unfolding LiCompleteVideoFrame_eq by (metis prod.inject)
  then show ?thesis by cases (use assms(2) in \<open>simp_all add: strict_inv_def queue_down_def refreshed_def\<close>)
qed

lemma reassembleFrame_strict:
  assumes r: "reassembleFrame e f d = Some (d', ev)"
    and s: "strictIdrFrameWait d" "\<not> waitingForRefInvalFrame d" "\<not> waitingForIdrFrame d" "\<not> decodingFrame d"
    and f: "nextFrameNumber d = f + 1" and chain: "nalChain d \<noteq> []" and mem: "dp_malloc_unit e"
    and prev: "dp_frameType d = FRAME_TYPE_IDR \<or> prev = Some (f - 1) \<or> queue_down (direct_submit e) d"
  shows "decodable prev (accepted ev) \<and> strict_inv (direct_submit e) (last_number prev (accepted ev)) d'"
proof -
  let ?u = "make_unit e f d" and ?d = "d\<lparr>nalChain := [], nalChainDataLength := 0\<rparr>"
  have u: "du_frameNumber ?u = f" "dp_frameType d = FRAME_TYPE_IDR \<Longrightarrow> du_frameType ?u = FRAME_TYPE_IDR"
    by (simp_all add: make_unit_def)
  note rs = r [unfolded reassembleFrame_def]
  show ?thesis
  proof (cases "direct_submit e")
    case True
    obtain d2 ev2 where c: "LiCompleteVideoFrame ?u (submitDecodeUnit e ?u) ?d = (d2, ev2)" by fastforce
    have "strict_inv True (Some f) ?d" using s f by (simp add: strict_inv_def)
    note c2 = LiCompleteVideoFrame_strict [OF c this]
    have nx: "nextFrameNumber d2 = f + 1" "nextFrameNumber d - 1 = f" using c2 f by simp_all
    have nq: "\<not> queue_down True d" by (simp add: queue_down_def)
    have "decodingFrame d2 = False" using c2 s by simp
    then have inv: "strict_inv True (Some f) (d2\<lparr>consecutiveFrameDrops := 0, startFrameNumber := nextFrameNumber d2\<rparr>)"
      using c2 nx by (auto simp: strict_inv_def queue_down_def)
    obtain ev1 where "d' = d2\<lparr>consecutiveFrameDrops := 0, startFrameNumber := nextFrameNumber d2\<rparr>" "accepted ev = [?u]"
    proof
      show "d' = d2\<lparr>consecutiveFrameDrops := 0, startFrameNumber := nextFrameNumber d2\<rparr>" "accepted ev = [?u]"
        using rs chain mem True c c2
        by (auto simp: Let_def frame_submitted_def LC_ASSERT_def bind_eq_Some_conv split: if_splits)
    qed
    then show ?thesis using inv u prev nq True by (auto simp: last_number_def)
  next
    case False
    let ?b = "decodeUnitQueue d"
    consider (down) "closed ?b \<or> ending ?b" | (full) "\<not> (closed ?b \<or> ending ?b)" "length (contents ?b) = capacity ?b"
      | (ok) "\<not> (closed ?b \<or> ending ?b)" "length (contents ?b) \<noteq> capacity ?b" by blast
    then show ?thesis
    proof cases
      case down
      then have "d' = d\<lparr>nalChain := [], nalChainDataLength := 0, consecutiveFrameDrops := 0, startFrameNumber := nextFrameNumber d\<rparr>"
        "accepted ev = []" using rs chain mem False by (auto simp: Let_def frame_submitted_def split: if_splits)
      then show ?thesis using down False s by (simp add: strict_inv_def queue_down_def last_number_def)
    next
      case full
      obtain d2 ev2 where o: "queue_overflow ?u ?d = Some (d2, ev2)" "d' = d2" "accepted ev = accepted ev2"
        using rs chain mem False full by (auto simp: Let_def split: if_splits)
      let ?d3 = "?d\<lparr>waitingForIdrFrame := True, nalChain := du_bufferList ?u, nalChainDataLength := du_fullLength ?u\<rparr>"
      have "d2 = (dropped ?d3)\<lparr>decodeUnitQueue := (decodeUnitQueue (dropped ?d3))\<lparr>contents := []\<rparr>\<rparr>" "accepted ev2 = []"
        using o(1) s(4) by (auto simp: queue_overflow_def dropFrameState_eq split: if_splits)
      then show ?thesis using o(2,3) s False by (simp add: strict_inv_def last_number_def needs_idr_def)
    next
      case ok
      have nq: "\<not> queue_down (direct_submit e) d" using ok by (simp add: queue_down_def)
      have "d' = d\<lparr>nalChain := [], nalChainDataLength := 0, decodeUnitQueue := ?b\<lparr>contents := contents ?b @ [?u]\<rparr>,
          unitsOffered := unitsOffered d + 1, consecutiveFrameDrops := 0, startFrameNumber := nextFrameNumber d\<rparr>"
        "accepted ev = [?u]"
        using rs chain mem False ok by (auto simp: Let_def frame_submitted_def split: if_splits)
      then show ?thesis using nq u prev s f by (auto simp: last_number_def strict_inv_def)
    qed
  qed
qed

section \<open>What queueing a payload changes\<close>

definition without_chain :: "depacketizer \<Rightarrow> depacketizer" where
  "without_chain d = d\<lparr>nalChain := [], nalChainDataLength := 0\<rparr>"

lemma queueFragment_state:
  assumes "queueFragment e ex m off len d = Some (k, d')"
  shows "without_chain d' = without_chain d" "ex \<or> dp_malloc e off \<Longrightarrow> nalChain d' \<noteq> []"
    "nalChain d \<noteq> [] \<Longrightarrow> nalChain d' \<noteq> []"
  using assms by (auto simp: queueFragment_def without_chain_def bind_eq_Some_conv split: if_splits)

text \<open>\<open>d'\<close> is \<open>d\<close> with another chain, and possibly an IDR slice seen.\<close>

definition queued_from :: "depacketizer \<Rightarrow> depacketizer \<Rightarrow> bool" where
  "queued_from d d' \<longleftrightarrow> without_chain d' = without_chain d \<or> without_chain d' = idr_slice_seen (without_chain d)"

lemma idr_slice_seen_twice [simp]: "idr_slice_seen (idr_slice_seen d) = idr_slice_seen d"
  by (simp add: idr_slice_seen_def)

lemma without_chain_idr [simp]: "without_chain (idr_slice_seen d) = idr_slice_seen (without_chain d)"
  by (simp add: without_chain_def idr_slice_seen_def)

lemma queued_from_trans: "queued_from d d' \<Longrightarrow> queued_from d' d'' \<Longrightarrow> queued_from d d''"
  unfolding queued_from_def by (metis idr_slice_seen_twice)

lemma slow_round_state:
  assumes "slow_round e m (b, ex, d) = Some (b', ex', d')" "dp_malloc e = (\<lambda>_. True)"
  shows "queued_from d d' \<and> nalChain d' \<noteq> []"
proof -
  obtain pic start off k where q: "queueFragment e (pic \<and> ex) m start off (if pic then idr_slice_seen d else d) = Some (k, d')"
    using assms(1) unfolding slow_round_def Let_def bind_eq_Some_conv prod.case by auto
  show ?thesis using queueFragment_state(1,2) [OF q] assms(2) by (cases pic) (auto simp: queued_from_def)
qed

lemma slow_loop_state:
  assumes "slow_loop e m (b, ex, d) = Some (b', ex', d')" "dp_malloc e = (\<lambda>_. True)"
  shows "queued_from d d' \<and> (bd_length b \<noteq> 0 \<or> nalChain d \<noteq> [] \<longrightarrow> nalChain d' \<noteq> [])"
proof -
  let ?P = "\<lambda>e m s r. dp_malloc e = (\<lambda>_. True) \<longrightarrow> (\<forall>b ex d b' ex' d'. s = (b, ex, d) \<longrightarrow> r = (b', ex', d')
      \<longrightarrow> queued_from d d' \<and> (bd_length b \<noteq> 0 \<or> nalChain d \<noteq> [] \<longrightarrow> nalChain d' \<noteq> []))"
  have "?P e m (b, ex, d) (b', ex', d')"
  proof (rule slow_loop.raw_induct [where P = ?P, OF _ assms(1)])
    fix loop :: "dp_env \<Rightarrow> u8 list \<Rightarrow> buffer_desc \<times> bool \<times> depacketizer \<Rightarrow> (buffer_desc \<times> bool \<times> depacketizer) option"
      and e m s r
    assume IH: "\<And>e m s r. loop e m s = Some r \<Longrightarrow> ?P e m s r"
      and body: "(if bd_length (fst s) = 0 then Some s else do { s \<leftarrow> slow_round e m s; loop e m s }) = Some r"
    show "?P e m s r"
    proof (intro allI impI)
      fix b ex d b' ex' d' assume mem: "dp_malloc e = (\<lambda>_. True)" and s: "s = (b, ex, d)" and r: "r = (b', ex', d')"
      show "queued_from d d' \<and> (bd_length b \<noteq> 0 \<or> nalChain d \<noteq> [] \<longrightarrow> nalChain d' \<noteq> [])"
      proof (cases "bd_length b = 0")
        case True
        then show ?thesis using body s r by (simp add: queued_from_def)
      next
        case False
        then have "slow_round e m (b, ex, d) \<bind> loop e m = Some r" using body s by simp
        then obtain s1 where s1: "slow_round e m (b, ex, d) = Some s1" "loop e m s1 = Some r"
          by (auto simp: bind_eq_Some_conv)
        obtain b1 ex1 d1 where s1': "s1 = (b1, ex1, d1)" by (cases s1)
        have "queued_from d1 d' \<and> (bd_length b1 \<noteq> 0 \<or> nalChain d1 \<noteq> [] \<longrightarrow> nalChain d' \<noteq> [])"
          using IH [OF s1(2)] mem s1' r by blast
        moreover have "queued_from d d1 \<and> nalChain d1 \<noteq> []" using slow_round_state s1(1) s1' mem by blast
        ultimately show ?thesis using queued_from_trans by blast
      qed
    qed
  qed
  then show ?thesis using assms(2) by blast
qed

lemma queue_payload_state:
  assumes "queue_payload e fp lp hdr m b d = Some (Some (k, d'))" "dp_malloc e = (\<lambda>_. True)"
  shows "queued_from d d' \<and> nalChain d' \<noteq> []"
proof -
  have idr_len: "bd_length b \<noteq> 0" if "isIdrFrameStart fmt m b = Some True" for fmt
    using that by (auto simp: isIdrFrameStart_def nal_test_def getAnnexBStartSequence_def bind_eq_Some_conv split: if_splits)
  consider (slow) ex b' where "slow_loop e m (b, True, d) = Some (b', ex, d')" "bd_length b \<noteq> 0"
    | (frag) off len where "queueFragment e True m off len d = Some (k, d')"
    using assms(1) idr_len
    by (auto simp: queue_payload_def Let_def processAvcHevcRtpPayloadSlow_def bind_eq_Some_conv split: if_splits)
  then show ?thesis
  proof cases
    case slow
    then show ?thesis using slow_loop_state [OF slow(1) assms(2)] by blast
  next
    case frag
    then show ?thesis using queueFragment_state(1,2) [OF frag] by (simp add: queued_from_def)
  qed
qed

text \<open>In the middle of frame \<open>F\<close>.\<close>

definition mid_frame :: "bool \<Rightarrow> u32 option \<Rightarrow> u32 \<Rightarrow> depacketizer \<Rightarrow> bool" where
  "mid_frame direct prev F d \<longleftrightarrow> strict_inv direct prev d \<and> decodingFrame d \<and> nextFrameNumber d = F"

lemma mid_frame_without_chain: "mid_frame direct prev F (without_chain d) = mid_frame direct prev F d"
  by (simp add: mid_frame_def strict_inv_def queue_down_def without_chain_def)

lemma mid_frame_idr: "mid_frame direct prev F d \<Longrightarrow> mid_frame direct prev F (idr_slice_seen d)"
  by (simp add: mid_frame_def strict_inv_def idr_slice_seen_def)

lemma mid_frame_queued: "mid_frame direct prev F d \<Longrightarrow> queued_from d d' \<Longrightarrow> mid_frame direct prev F d'"
  unfolding queued_from_def using mid_frame_without_chain mid_frame_idr by metis

lemma start_frame_mid:
  assumes "start_frame F rt pts d = Some (d', ev)" "strict_inv direct prev d" "\<not> decodingFrame d"
  shows "mid_frame direct prev F d' \<and> accepted ev = []"
proof (cases "isBefore32 (nextFrameNumber d) F")
  case True
  then show ?thesis using assms
    by (auto simp: start_frame_def dropFrameState_eq mid_frame_def strict_inv_def needs_idr_def Let_def)
next
  case False
  then show ?thesis using assms
    by (auto simp: start_frame_def mid_frame_def strict_inv_def queue_down_def Let_def bind_eq_Some_conv)
qed

lemma parse_frame_type_mid:
  assumes "parse_frame_type e F' m len d = Some (d', ev)" "mid_frame direct prev F d"
  shows "mid_frame direct prev F d' \<and> accepted ev = []"
proof -
  have r: "refs_valid_again d = d" if "mid_frame direct prev F d" for d
    using that by (simp add: refs_valid_again_def mid_frame_def strict_inv_def)
  have i: "mid_frame direct prev F (d\<lparr>waitingForIdrFrame := False, waitingForNextSuccessfulFrame := False, dp_frameType := FRAME_TYPE_IDR\<rparr>)"
    using assms(2) by (simp add: mid_frame_def strict_inv_def)
  have nr: "\<not> waitingForRefInvalFrame d" using assms(2) by (simp add: mid_frame_def strict_inv_def)
  show ?thesis
  proof (cases "APP_VERSION_AT_LEAST (dp_version e) 7 1 350 \<and> len \<ge> 4")
    case True
    then obtain t where "nth_opt m 3 = Some t" using assms(1) by (auto simp: parse_frame_type_def bind_eq_Some_conv)
    then show ?thesis using assms True r [OF assms(2)] r [OF i] i by (auto simp: parse_frame_type_def Let_def)
  next
    case False
    then show ?thesis using assms nr by (auto simp: parse_frame_type_def)
  qed
qed

lemma parse_header_fields_mid:
  assumes "parse_header_fields e m len d = Some d'" "mid_frame direct prev F d"
  shows "mid_frame direct prev F d'"
proof -
  obtain d1 where d1: "d1 = d \<or> (\<exists>x. d1 = d\<lparr>dp_frameHostProcessingLatency := x\<rparr>)"
    "d' = d1 \<or> (\<exists>x. d' = d1\<lparr>lastPacketPayloadLength := x\<rparr>)"
    using assms(1) unfolding parse_header_fields_def bind_eq_Some_conv by (auto split: if_splits)
  have a: "mid_frame direct prev F d1" using d1(1) assms(2) by (auto simp: mid_frame_def strict_inv_def queue_down_def)
  show ?thesis using d1(2) a by (auto simp: mid_frame_def strict_inv_def queue_down_def)
qed

lemma parse_first_packet_mid:
  assumes "parse_first_packet e F' m len d = Some (hdr, b, d', ev)" "mid_frame direct prev F d"
  shows "mid_frame direct prev F d' \<and> accepted ev = []"
proof -
  obtain d1 where d1: "parse_frame_type e F' m len d = Some (d1, ev)" "parse_header_fields e m len d1 = Some d'"
    using assms(1) unfolding parse_first_packet_def by (auto simp: bind_eq_Some_conv Let_def)
  show ?thesis using parse_frame_type_mid [OF d1(1) assms(2)] parse_header_fields_mid [OF d1(2)] by blast
qed

lemma give_up_frame_strict:
  assumes "give_up_frame F d = Some (d', ev)" "strict_inv direct prev d"
  shows "strict_inv direct prev d' \<and> accepted ev = []"
  using assms by (auto simp: give_up_frame_def dropFrameState_eq strict_inv_def needs_idr_def)

lemma end_frame_strict:
  assumes "end_frame e F d = Some (d', ev)" "mid_frame (direct_submit e) prev F d" "nalChain d \<noteq> []" "dp_malloc_unit e"
  shows "decodable prev (accepted ev) \<and> strict_inv (direct_submit e) (last_number prev (accepted ev)) d'"
proof -
  let ?d = "d\<lparr>decodingFrame := False, nextFrameNumber := F + 1\<rparr>"
  have m: "strictIdrFrameWait d" "\<not> waitingForRefInvalFrame d" using assms(2) by (simp_all add: mid_frame_def strict_inv_def)
  have drop: ?thesis if "d' = dropped d0" "accepted ev = []" "strictIdrFrameWait d0" "\<not> waitingForRefInvalFrame d0" for d0
    using that by (simp add: strict_inv_def needs_idr_def last_number_def)
  show ?thesis
  proof (cases "waitingForIdrFrame d")
    case True
    then show ?thesis using assms(1) m
      by (intro drop [of "?d\<lparr>waitingForNextSuccessfulFrame := False\<rparr>"]) (auto simp: end_frame_def dropFrameState_eq Let_def)
  next
    case False
    then have rest: "(if dropStatePending ?d \<and> \<not> (nalChain ?d \<noteq> [] \<and> dp_frameType ?d = FRAME_TYPE_IDR) then dropFrameState ?d
           else reassembleFrame e F (?d\<lparr>dropStatePending := False\<rparr>)) = Some (d', ev)"
      using assms(1) m by (simp add: end_frame_def Let_def bind_eq_Some_conv)
    show ?thesis
    proof (cases "dropStatePending ?d \<and> \<not> (nalChain ?d \<noteq> [] \<and> dp_frameType ?d = FRAME_TYPE_IDR)")
      case True
      then have "dropFrameState ?d = Some (d', ev)" using rest by metis
      then show ?thesis using m by (intro drop [of ?d]) (auto simp: dropFrameState_eq)
    next
      case nodrop: False
      then have r: "reassembleFrame e F (?d\<lparr>dropStatePending := False\<rparr>) = Some (d', ev)" using rest by metis
      have "dp_frameType d = FRAME_TYPE_IDR \<or> prev = Some (F - 1) \<or> queue_down (direct_submit e) d"
        using assms(2) False by (auto simp: mid_frame_def strict_inv_def)
      then show ?thesis using m False assms(3,4) by (intro reassembleFrame_strict [OF r]) (auto simp: queue_down_def)
    qed
  qed
qed

text \<open>A packet that continues a frame carries the frame's number.\<close>

definition continues_frame :: "nv_video_packet \<Rightarrow> depacketizer \<Rightarrow> bool" where
  "continues_frame v d \<longleftrightarrow> (decodingFrame d \<longrightarrow> frameIndex v = nextFrameNumber d)"

lemma processRtpPayload_parts:
  assumes run: "processRtpPayload e v m len rt pts d = Some (k, d', ev)"
    and "\<not> isBefore32 (frameIndex v) (nextFrameNumber d)"
    and "\<not> (isBefore24 (drop_bit 8 (streamPacketIndex v) AND 0xFFFFFF) (U24 (lastPacketInStream d + 1))
      \<or> (nv_flags v AND FLAG_SOF = 0 \<and> drop_bit 8 (streamPacketIndex v) AND 0xFFFFFF \<noteq> U24 (lastPacketInStream d + 1)))"
  obtains d1 ev1 hdr b d2 ev2 r where "isFirstPacket (nv_flags v) (fec_block_number v) \<noteq> decodingFrame d"
    "(if isFirstPacket (nv_flags v) (fec_block_number v) then start_frame (frameIndex v) rt pts d else Some (d, [])) = Some (d1, ev1)"
    "(if isFirstPacket (nv_flags v) (fec_block_number v) \<and> len > 0
      then parse_first_packet e (frameIndex v) m len (d1\<lparr>lastPacketInStream := drop_bit 8 (streamPacketIndex v) AND 0xFFFFFF\<rparr>)
      else Some (0, \<lparr>bd_offset = 0, bd_length = len\<rparr>, d1\<lparr>lastPacketInStream := drop_bit 8 (streamPacketIndex v) AND 0xFFFFFF\<rparr>, []))
      = Some (hdr, b, d2, ev2)"
    "queue_payload e (isFirstPacket (nv_flags v) (fec_block_number v))
       (nv_flags v AND FLAG_EOF \<noteq> 0 \<and> fec_block_number v = fec_last_block v) hdr m b d2 = Some r"
    "(case r of
        None \<Rightarrow> map_option (\<lambda>(d, ev). (True, d, ev1 @ ev2 @ ev)) (give_up_frame (frameIndex v) d2)
      | Some (kept, d) \<Rightarrow>
          if nv_flags v AND FLAG_EOF \<noteq> 0 \<and> fec_block_number v = fec_last_block v
          then map_option (\<lambda>(d, ev). (kept, d, ev1 @ ev2 @ ev)) (end_frame e (frameIndex v) d)
          else Some (kept, d, ev1 @ ev2)) = Some (k, d', ev)"
proof -
  let ?F = "frameIndex v" and ?first = "isFirstPacket (nv_flags v) (fec_block_number v)"
  let ?last = "nv_flags v AND FLAG_EOF \<noteq> 0 \<and> fec_block_number v = fec_last_block v"
  let ?spi = "drop_bit 8 (streamPacketIndex v) AND 0xFFFFFF"
  have body: "do {
         _ \<leftarrow> LC_ASSERT (?first \<noteq> decodingFrame d);
         (d, ev1) \<leftarrow> (if ?first then start_frame ?F rt pts d else Some (d, []));
         let d = d\<lparr>lastPacketInStream := ?spi\<rparr>;
         (hdr, b, d, ev2) \<leftarrow>
           (if ?first \<and> len > 0 then parse_first_packet e ?F m len d
            else Some (0, \<lparr>bd_offset = 0, bd_length = len\<rparr>, d, []));
         r \<leftarrow> queue_payload e ?first ?last hdr m b d;
         (case r of
            None \<Rightarrow> map_option (\<lambda>(d, ev). (True, d, ev1 @ ev2 @ ev)) (give_up_frame ?F d)
          | Some (kept, d) \<Rightarrow>
              if ?last then map_option (\<lambda>(d, ev). (kept, d, ev1 @ ev2 @ ev)) (end_frame e ?F d)
              else Some (kept, d, ev1 @ ev2)) } = Some (k, d', ev)"
    using assms unfolding processRtpPayload_def Let_def by argo
  show ?thesis
    using body unfolding Let_def by (elim bind_SomeE case_prod_SomeE) (unfold LC_ASSERT_Some, rule that, assumption, simp_all only:)
qed

lemma processRtpPayload_strict:
  assumes run: "processRtpPayload e v m len rt pts d = Some (k, d', ev)" and inv: "strict_inv (direct_submit e) prev d"
    and v: "continues_frame v d" and mem: "dp_malloc e = (\<lambda>_. True)" "dp_malloc_unit e"
  shows "decodable prev (accepted ev) \<and> strict_inv (direct_submit e) (last_number prev (accepted ev)) d'"
proof -
  let ?F = "frameIndex v" and ?first = "isFirstPacket (nv_flags v) (fec_block_number v)"
  let ?last = "nv_flags v AND FLAG_EOF \<noteq> 0 \<and> fec_block_number v = fec_last_block v"
  let ?spi = "drop_bit 8 (streamPacketIndex v) AND 0xFFFFFF"
  let ?expected = "U24 (lastPacketInStream d + 1)"
  have quiet: ?thesis if "accepted ev = []" "strict_inv (direct_submit e) prev d'" using that by (simp add: last_number_def)
  consider (old) "isBefore32 ?F (nextFrameNumber d)"
    | (corrupt) "\<not> isBefore32 ?F (nextFrameNumber d)" "isBefore24 ?spi ?expected \<or> (nv_flags v AND FLAG_SOF = 0 \<and> ?spi \<noteq> ?expected)"
    | (fine) "\<not> isBefore32 ?F (nextFrameNumber d)" "\<not> (isBefore24 ?spi ?expected \<or> (nv_flags v AND FLAG_SOF = 0 \<and> ?spi \<noteq> ?expected))"
    by blast
  then show ?thesis
  proof cases
    case old
    then show ?thesis using run inv by (intro quiet) (auto simp: processRtpPayload_def Let_def)
  next
    case corrupt
    then obtain d1 where "give_up_frame ?F d = Some (d', ev)" using run by (auto simp: processRtpPayload_def Let_def)
    then show ?thesis using give_up_frame_strict inv quiet by blast
  next
    case fine
    obtain d1 ev1 hdr b d2 ev2 r where s: "?first \<noteq> decodingFrame d"
      "(if ?first then start_frame ?F rt pts d else Some (d, [])) = Some (d1, ev1)"
      "(if ?first \<and> len > 0 then parse_first_packet e ?F m len (d1\<lparr>lastPacketInStream := ?spi\<rparr>)
        else Some (0, \<lparr>bd_offset = 0, bd_length = len\<rparr>, d1\<lparr>lastPacketInStream := ?spi\<rparr>, [])) = Some (hdr, b, d2, ev2)"
      "queue_payload e ?first ?last hdr m b d2 = Some r"
      "(case r of
              None \<Rightarrow> map_option (\<lambda>(d, ev). (True, d, ev1 @ ev2 @ ev)) (give_up_frame ?F d2)
            | Some (kept, d) \<Rightarrow>
                if ?last then map_option (\<lambda>(d, ev). (kept, d, ev1 @ ev2 @ ev)) (end_frame e ?F d)
                else Some (kept, d, ev1 @ ev2)) = Some (k, d', ev)"
      by (rule processRtpPayload_parts [OF run fine])
    have "mid_frame (direct_submit e) prev ?F d1 \<and> accepted ev1 = []"
    proof (cases ?first)
      case True
      then show ?thesis using start_frame_mid [OF _ inv, of ?F rt pts d1 ev1] s(1,2) by simp
    next
      case False
      then show ?thesis using s(1,2) inv v by (simp add: mid_frame_def continues_frame_def)
    qed
    moreover have "mid_frame (direct_submit e) prev ?F (d1\<lparr>lastPacketInStream := ?spi\<rparr>) = mid_frame (direct_submit e) prev ?F d1"
      by (simp add: mid_frame_def strict_inv_def queue_down_def)
    ultimately have d2: "mid_frame (direct_submit e) prev ?F d2" "accepted ev1 = []" "accepted ev2 = []"
      using s(3) parse_first_packet_mid by (auto split: if_splits)
    show ?thesis
    proof (cases r)
      case None
      then obtain ev3 where g: "give_up_frame ?F d2 = Some (d', ev3)" "ev = ev1 @ ev2 @ ev3" using s(5) by auto
      then show ?thesis using give_up_frame_strict [OF g(1)] d2 by (intro quiet) (auto simp: mid_frame_def)
    next
      case (Some kd)
      obtain k3 d3 where kd: "kd = (k3, d3)" by (cases kd)
      note q = queue_payload_state [OF s(4) [unfolded Some kd] mem(1)]
      have d3: "mid_frame (direct_submit e) prev ?F d3" using mid_frame_queued [OF d2(1)] q by blast
      show ?thesis
      proof (cases ?last)
        case True
        then obtain ev3 where g: "end_frame e ?F d3 = Some (d', ev3)" "ev = ev1 @ ev2 @ ev3"
          using s(5) Some kd by auto
        then show ?thesis using end_frame_strict [OF g(1) d3 _ mem(2)] q d2 by simp
      next
        case False
        then have "d' = d3" "ev = ev1 @ ev2" using s(5) Some kd by auto
        then show ?thesis using d3 d2 by (intro quiet) (simp_all add: mid_frame_def)
      qed
    qed
  qed
qed

section \<open>Histories of the depacketizer\<close>

datatype dp_op =
    Packet dp_env video_entry
  | Lost u32
  | Refresh
  | Complete decode_unit int
  | Wait_frame dp_env | Poll_frame dp_env | Peek_frame dp_env
  | Wake_decoder
  | Stop_depacketizer

fun dp_step :: "dp_op \<Rightarrow> depacketizer \<Rightarrow> (depacketizer \<times> dp_event list) option" where
  "dp_step (Packet e q) d = map_option snd (queueRtpPacket e q d)"
| "dp_step (Lost f) d = notifyFrameLost f d"
| "dp_step Refresh d = Some (requestDecoderRefresh d)"
| "dp_step (Complete u status) d = Some (LiCompleteVideoFrame u status d)"
| "dp_step (Wait_frame e) d = map_option (\<lambda>(_, d). (d, [])) (LiWaitForNextVideoFrame e d)"
| "dp_step (Poll_frame e) d = map_option (\<lambda>(_, d). (d, [])) (LiPollNextVideoFrame e d)"
| "dp_step (Peek_frame e) d = map_option (\<lambda>(_, d). (d, [])) (LiPeekNextVideoFrame e d)"
| "dp_step Wake_decoder d = Some (LiWakeWaitForVideoFrame d, [])"
| "dp_step Stop_depacketizer d = Some (stopVideoDepacketizer d, [])"

text \<open>The decoder's mode is fixed and memory does not run out; a frame is not mixed with another one.\<close>

definition op_env_ok :: "bool \<Rightarrow> dp_op \<Rightarrow> bool" where
  "op_env_ok direct op = (case op of
     Packet e q \<Rightarrow> direct_submit e = direct \<and> dp_malloc e = (\<lambda>_. True) \<and> dp_malloc_unit e
   | _ \<Rightarrow> True)"

definition op_intact :: "dp_op \<Rightarrow> depacketizer \<Rightarrow> bool" where
  "op_intact op d = (case op of
     Packet e q \<Rightarrow> (case read_nv (ve_packet q) of None \<Rightarrow> True | Some v \<Rightarrow> continues_frame v d)
   | _ \<Rightarrow> True)"

fun dp_run :: "dp_op list \<Rightarrow> depacketizer \<Rightarrow> (depacketizer \<times> dp_event list) option" where
  "dp_run [] d = Some (d, [])"
| "dp_run (op # ops) d = do { (d, ev) \<leftarrow> dp_step op d; (d, ev') \<leftarrow> dp_run ops d; Some (d, ev @ ev') }"

fun frames_intact :: "dp_op list \<Rightarrow> depacketizer \<Rightarrow> bool" where
  "frames_intact [] d \<longleftrightarrow> True"
| "frames_intact (op # ops) d \<longleftrightarrow> op_intact op d
     \<and> (case dp_step op d of None \<Rightarrow> True | Some (d, _) \<Rightarrow> frames_intact ops d)"

lemma bq_get_flags: "closed (snd (bq_get st b)) = closed b" "ending (snd (bq_get st b)) = ending b"
  by (simp_all add: bq_get_def split: list.splits)

lemma bq_take_flags:
  assumes "op \<in> {Wait, Poll, Peek, UserWake}"
  shows "closed (snd (bq_step op b)) = closed b" "ending (snd (bq_step op b)) = ending b"
  using assms by (auto simp: bq_get_flags split: if_splits)

lemma strict_inv_queue:
  assumes "strict_inv direct prev d" "closed b = closed (decodeUnitQueue d)" "ending b = ending (decodeUnitQueue d)"
  shows "strict_inv direct prev (d\<lparr>decodeUnitQueue := b\<rparr>)"
  using assms by (simp add: strict_inv_def queue_down_def)

lemma take_unit_strict:
  assumes "take_unit e op d = Some (u, d')" "op \<in> {Wait, Poll, Peek}" "strict_inv direct prev d"
  shows "strict_inv direct prev d'"
proof -
  have "d' = d\<lparr>decodeUnitQueue := snd (bq_step op (decodeUnitQueue d))\<rparr>"
    using assms(1) by (auto simp: take_unit_def Let_def bind_eq_Some_conv split: option.splits)
  then show ?thesis using strict_inv_queue [OF assms(3)] bq_take_flags [of op] assms(2) by blast
qed

lemma dp_step_strict:
  assumes "dp_step op d = Some (d', ev)" "op_env_ok direct op \<and> op_intact op d" "strict_inv direct prev d"
  shows "decodable prev (accepted ev) \<and> strict_inv direct (last_number prev (accepted ev)) d'"
proof -
  have quiet: ?thesis if "accepted ev = []" "strict_inv direct prev d'" using that by (simp add: last_number_def)
  show ?thesis
  proof (cases op)
    case (Packet e q)
    then obtain v m len k where "read_nv (ve_packet q) = Some v" "processRtpPayload e v m len (receiveTimeMs q) (presentationTimeMs q) d = Some (k, d', ev)"
      using assms(1) by (auto simp: queueRtpPacket_def Let_def bind_eq_Some_conv)
    then show ?thesis using processRtpPayload_strict [of e v m len _ _ d k d' ev prev] assms(2,3) Packet by (auto simp: op_env_ok_def op_intact_def)
  next
    case (Lost f)
    then have "d' = dropped d" "accepted ev = []" using assms(1,3)
      by (auto simp: notifyFrameLost_def dropFrameState_eq strict_inv_def needs_idr_def bind_eq_Some_conv split: if_splits)
    then show ?thesis using assms(3) by (intro quiet) (simp_all add: strict_inv_def needs_idr_def)
  next
    case Refresh
    then show ?thesis using assms(1,3) by (intro quiet) (auto simp: requestDecoderRefresh_eq refreshed_def strict_inv_def)
  next
    case (Complete u status)
    then show ?thesis using LiCompleteVideoFrame_strict [of u status d d' ev] assms(1,3) quiet by simp
  next
    case (Wait_frame e)
    then show ?thesis using assms(1) take_unit_strict [OF _ _ assms(3), of e Wait] quiet
      by (auto simp: LiWaitForNextVideoFrame_def)
  next
    case (Poll_frame e)
    then show ?thesis using assms(1) take_unit_strict [OF _ _ assms(3), of e Poll] quiet
      by (auto simp: LiPollNextVideoFrame_def)
  next
    case (Peek_frame e)
    then show ?thesis using assms(1) take_unit_strict [OF _ _ assms(3), of e Peek] quiet
      by (auto simp: LiPeekNextVideoFrame_def)
  next
    case Wake_decoder
    then show ?thesis using assms(1) strict_inv_queue [OF assms(3)] quiet by (auto simp: LiWakeWaitForVideoFrame_def)
  next
    case Stop_depacketizer
    then show ?thesis using assms(1,3) by (intro quiet) (auto simp: stopVideoDepacketizer_def strict_inv_def queue_down_def)
  qed
qed

lemma dp_run_strict:
  assumes "dp_run ops d = Some (d', ev)" "\<forall>op \<in> set ops. op_env_ok direct op" "frames_intact ops d" "strict_inv direct prev d"
  shows "decodable prev (accepted ev)"
  using assms
proof (induction ops arbitrary: d ev prev)
  case (Cons op ops)
  obtain d1 ev1 ev2 where r: "dp_step op d = Some (d1, ev1)" "dp_run ops d1 = Some (d', ev2)" "ev = ev1 @ ev2"
    using Cons.prems(1) by (auto simp: bind_eq_Some_conv)
  have ok: "op_env_ok direct op \<and> op_intact op d" "\<forall>op \<in> set ops. op_env_ok direct op" "frames_intact ops d1"
    using Cons.prems(2,3) r(1) by simp_all
  show ?case using dp_step_strict [OF r(1) ok(1) Cons.prems(4)] Cons.IH [OF r(2) ok(2,3)] r(3)
    by (simp add: decodable_append)
qed simp


section \<open>Well-formed units\<close>

text \<open>What holds in every state: the chain is accounted for, and so are the units in the queue.\<close>

definition dp_ok :: "depacketizer \<Rightarrow> bool" where
  "dp_ok d \<longleftrightarrow> chain_ok d \<and> (\<forall>u \<in> set (contents (decodeUnitQueue d)). unit_ok u)
     \<and> length (contents (decodeUnitQueue d)) \<le> capacity (decodeUnitQueue d)"

lemma queueFragment_ok:
  assumes "dp_ok d" "queueFragment e ex m off len d = Some (k, d')"
  shows "dp_ok d'"
  using assms by (auto simp: queueFragment_def dp_ok_def chain_ok_def mem_read_def bind_eq_Some_conv split: if_splits)

lemma slow_loop_ok:
  assumes "slow_loop e m (b, ex, d) = Some (b', ex', d')" "dp_ok d"
  shows "dp_ok d'"
proof -
  let ?P = "\<lambda>e m s r. dp_ok (snd (snd s)) \<longrightarrow> dp_ok (snd (snd r))"
  have "?P e m (b, ex, d) (b', ex', d')"
  proof (rule slow_loop.raw_induct [where P = ?P, OF _ assms(1)])
    fix loop :: "dp_env \<Rightarrow> u8 list \<Rightarrow> buffer_desc \<times> bool \<times> depacketizer \<Rightarrow> (buffer_desc \<times> bool \<times> depacketizer) option"
      and e m s r
    assume IH: "\<And>e m s r. loop e m s = Some r \<Longrightarrow> ?P e m s r"
      and body: "(if bd_length (fst s) = 0 then Some s else do { s \<leftarrow> slow_round e m s; loop e m s }) = Some r"
    show "?P e m s r"
    proof (cases "bd_length (fst s) = 0")
      case False
      then obtain s1 where s1: "slow_round e m s = Some s1" "loop e m s1 = Some r" using body by (auto elim: bind_SomeE)
      obtain b ex d b1 ex1 d1 where s: "s = (b, ex, d)" "s1 = (b1, ex1, d1)" by (cases s; cases s1)
      obtain pic start off k where q: "queueFragment e (pic \<and> ex) m start (off - start) (if pic then idr_slice_seen d else d) = Some (k, d1)"
        using s1(1) unfolding s slow_round_def Let_def bind_eq_Some_conv prod.case by auto
      have "dp_ok d \<Longrightarrow> dp_ok (if pic then idr_slice_seen d else d)"
        by (simp add: dp_ok_def chain_ok_def idr_slice_seen_def)
      then show ?thesis using queueFragment_ok [OF _ q] IH [OF s1(2)] s by auto
    qed (use body in simp)
  qed
  then show ?thesis using assms(2) by simp
qed

lemma queue_payload_ok:
  assumes "queue_payload e fp lp hdr m b d = Some (Some (k, d'))" "dp_ok d"
  shows "dp_ok d'"
proof -
  consider (slow) ex b' where "slow_loop e m (b, True, d) = Some (b', ex, d')"
    | (frag) off len where "queueFragment e True m off len d = Some (k, d')"
    using assms(1)
    by (auto simp: queue_payload_def Let_def processAvcHevcRtpPayloadSlow_def bind_eq_Some_conv split: if_splits)
  then show ?thesis by cases (use slow_loop_ok queueFragment_ok assms(2) in blast)+
qed

lemma dropped_ok: "dp_ok d \<Longrightarrow> dp_ok (dropped d)"
  by (simp add: dp_ok_def chain_ok_def)

lemma refreshed_ok: "dp_ok d \<Longrightarrow> dp_ok (refreshed d)"
  by (simp add: dp_ok_def chain_ok_def refreshed_def)

text \<open>Updates of the other fields.\<close>

lemma dp_ok_cong:
  assumes "nalChain d' = nalChain d" "nalChainDataLength d' = nalChainDataLength d" "decodeUnitQueue d' = decodeUnitQueue d"
  shows "dp_ok d' = dp_ok d"
  using assms by (simp add: dp_ok_def chain_ok_def)

lemma LiCompleteVideoFrame_ok:
  assumes "LiCompleteVideoFrame u status d = (d', ev)" "dp_ok d"
  shows "dp_ok d'" "accepted ev = []"
proof -
  have "d' = refreshed d \<or> d' = d\<lparr>idrFrameProcessed := True\<rparr> \<or> d' = d" "accepted ev = []"
    using assms(1) by (auto simp: LiCompleteVideoFrame_eq split: if_splits)
  then show "dp_ok d'" "accepted ev = []" using refreshed_ok [OF assms(2)] assms(2) by (auto simp: dp_ok_cong [of "d\<lparr>idrFrameProcessed := True\<rparr>" d])
qed

lemma make_unit_ok:
  assumes "chain_ok d" "nalChain d \<noteq> []"
  shows "unit_ok (make_unit e f d)"
proof -
  obtain b bs where "nalChain d = b # bs" using assms(2) by (cases "nalChain d") auto
  then show ?thesis using assms(1) by (auto simp: unit_ok_def make_unit_def chain_ok_def)
qed

lemma reassembleFrame_ok:
  assumes "reassembleFrame e f d = Some (d', ev)" "dp_ok d" "\<not> decodingFrame d"
  shows "dp_ok d' \<and> (\<forall>u \<in> set (accepted ev). unit_ok u)"
proof (cases "nalChain d = [] \<or> (\<not> direct_submit e \<and> \<not> dp_malloc_unit e)")
  case True
  then show ?thesis using assms by (auto simp: reassembleFrame_def)
next
  case go: False
  let ?u = "make_unit e f d" and ?d = "d\<lparr>nalChain := [], nalChainDataLength := 0\<rparr>"
  note r = assms(1) [unfolded reassembleFrame_def]
  have u: "unit_ok ?u" using make_unit_ok go assms(2) by (simp add: dp_ok_def)
  have d0: "dp_ok ?d" using assms(2) by (simp add: dp_ok_def chain_ok_def)
  show ?thesis
  proof (cases "direct_submit e")
    case True
    obtain d2 ev2 where c: "LiCompleteVideoFrame ?u (submitDecodeUnit e ?u) ?d = (d2, ev2)" by fastforce
    note c2 = LiCompleteVideoFrame_ok [OF c d0]
    have "d' = d2\<lparr>consecutiveFrameDrops := 0, startFrameNumber := nextFrameNumber d2\<rparr>" "accepted ev = [?u]"
      using r go True c c2 by (auto simp: Let_def frame_submitted_def LC_ASSERT_def bind_eq_Some_conv split: if_splits)
    then show ?thesis using dp_ok_cong [of d' d2] c2(1) u by simp
  next
    case False
    let ?b = "decodeUnitQueue d"
    consider (down) "closed ?b \<or> ending ?b" | (full) "\<not> (closed ?b \<or> ending ?b)" "length (contents ?b) = capacity ?b"
      | (ok) "\<not> (closed ?b \<or> ending ?b)" "length (contents ?b) \<noteq> capacity ?b" by blast
    then show ?thesis
    proof cases
      case down
      then have "d' = ?d\<lparr>consecutiveFrameDrops := 0, startFrameNumber := nextFrameNumber d\<rparr>"
        "accepted ev = []" using r go False by (auto simp: Let_def frame_submitted_def split: if_splits)
      then show ?thesis using dp_ok_cong [of d' ?d] d0 by simp
    next
      case full
      obtain d2 ev2 where o: "queue_overflow ?u ?d = Some (d2, ev2)" "d' = d2" "accepted ev = accepted ev2"
        using r go False full by (auto simp: Let_def split: if_splits)
      let ?d3 = "?d\<lparr>waitingForIdrFrame := True, nalChain := du_bufferList ?u, nalChainDataLength := du_fullLength ?u\<rparr>"
      have "d2 = (dropped ?d3)\<lparr>decodeUnitQueue := (decodeUnitQueue (dropped ?d3))\<lparr>contents := []\<rparr>\<rparr>" "accepted ev2 = []"
        using o(1) assms(3) by (auto simp: queue_overflow_def dropFrameState_eq split: if_splits)
      then show ?thesis using o(2,3) by (simp add: dp_ok_def chain_ok_def)
    next
      case ok
      have "d' = ?d\<lparr>decodeUnitQueue := ?b\<lparr>contents := contents ?b @ [?u]\<rparr>,
          unitsOffered := unitsOffered d + 1, consecutiveFrameDrops := 0, startFrameNumber := nextFrameNumber d\<rparr>"
        "accepted ev = [?u]"
        using r go False ok by (auto simp: Let_def frame_submitted_def split: if_splits)
      then show ?thesis using d0 u ok assms(2) by (auto simp: dp_ok_def chain_ok_def)
    qed
  qed
qed

lemma start_frame_ok:
  assumes "start_frame F rt pts d = Some (d', ev)" "dp_ok d"
  shows "dp_ok d' \<and> accepted ev = []"
proof -
  obtain d1 ev1 where d1: "dp_ok d1" "accepted ev1 = []"
    "nalChain d' = nalChain d1" "nalChainDataLength d' = nalChainDataLength d1" "decodeUnitQueue d' = decodeUnitQueue d1" "ev = ev1"
  proof (cases "isBefore32 (nextFrameNumber d) F")
    case True
    let ?d = "d\<lparr>nextFrameNumber := F, waitingForNextSuccessfulFrame := True\<rparr>"
    have "dp_ok (dropped ?d)" using assms(2) dropped_ok dp_ok_cong [of ?d d] by simp
    then show ?thesis using that [of "dropped ?d" ev] assms(1) True
      by (auto simp: start_frame_def dropFrameState_eq Let_def split: if_splits)
  next
    case False
    then show ?thesis using that [of d "[]"] assms by (auto simp: start_frame_def Let_def bind_eq_Some_conv)
  qed
  then show ?thesis using dp_ok_cong [of d' d1] by simp
qed

lemma refs_valid_again_chain [simp]:
  "nalChain (refs_valid_again d) = nalChain d" "nalChainDataLength (refs_valid_again d) = nalChainDataLength d"
  "decodeUnitQueue (refs_valid_again d) = decodeUnitQueue d"
  by (simp_all add: refs_valid_again_def)

lemma parse_frame_type_chain:
  assumes "parse_frame_type e F m len d = Some (d', ev)"
  shows "nalChain d' = nalChain d \<and> nalChainDataLength d' = nalChainDataLength d \<and> decodeUnitQueue d' = decodeUnitQueue d \<and> accepted ev = []"
proof (cases "APP_VERSION_AT_LEAST (dp_version e) 7 1 350 \<and> len \<ge> 4")
  case True
  then obtain t where t: "nth_opt m 3 = Some t" using assms by (auto simp: parse_frame_type_def elim: bind_SomeE)
  let ?d = "if t = 2 \<and> \<not> parsed_format (NegotiatedVideoFormat e)
                 then d\<lparr>waitingForIdrFrame := False, waitingForNextSuccessfulFrame := False, dp_frameType := FRAME_TYPE_IDR\<rparr>
                 else d"
  let ?r = "if t = 2 \<or> t = 4 \<or> t = 5 then refs_valid_again ?d else ?d"
  have eq: "parse_frame_type e F m len d = Some (?r, [])"
    using True t by (simp add: parse_frame_type_def Let_def)
  have "Some (?r, []) = Some (d', ev)" by (rule trans [OF eq [symmetric] assms])
  then have "?r = d'" "ev = []" by (simp_all only: option.inject prod.inject)
  moreover have "nalChain ?r = nalChain d \<and> nalChainDataLength ?r = nalChainDataLength d \<and> decodeUnitQueue ?r = decodeUnitQueue d"
    by simp
  ultimately show ?thesis by (simp only: accepted_simps)
next
  case False
  then show ?thesis using assms by (cases "waitingForRefInvalFrame d") (auto simp: parse_frame_type_def)
qed

lemma parse_first_packet_ok:
  assumes "parse_first_packet e F m len d = Some (hdr, b, d', ev)" "dp_ok d"
  shows "dp_ok d' \<and> accepted ev = []"
proof -
  obtain d1 where d1: "parse_frame_type e F m len d = Some (d1, ev)" "parse_header_fields e m len d1 = Some d'"
    using assms(1) unfolding parse_first_packet_def by (auto simp: bind_eq_Some_conv Let_def)
  have a: "nalChain d1 = nalChain d \<and> nalChainDataLength d1 = nalChainDataLength d \<and> decodeUnitQueue d1 = decodeUnitQueue d \<and> accepted ev = []"
    by (rule parse_frame_type_chain [OF d1(1)])
  obtain d2 where "d2 = d1 \<or> (\<exists>x. d2 = d1\<lparr>dp_frameHostProcessingLatency := x\<rparr>)"
    "d' = d2 \<or> (\<exists>x. d' = d2\<lparr>lastPacketPayloadLength := x\<rparr>)"
    using d1(2) unfolding parse_header_fields_def bind_eq_Some_conv by (auto split: if_splits)
  then have "nalChain d' = nalChain d1 \<and> nalChainDataLength d' = nalChainDataLength d1 \<and> decodeUnitQueue d' = decodeUnitQueue d1" by auto
  then show ?thesis using a dp_ok_cong [of d' d] assms(2) by simp
qed

lemma give_up_frame_ok:
  assumes "give_up_frame F d = Some (d', ev)" "dp_ok d"
  shows "dp_ok d' \<and> accepted ev = []"
proof -
  let ?d = "d\<lparr>decodingFrame := False, nextFrameNumber := F + 1\<rparr>"
  have "d' = dropped ?d" "accepted ev = []" using assms(1) by (auto simp: give_up_frame_def dropFrameState_eq split: if_splits)
  then show ?thesis using dropped_ok dp_ok_cong [of ?d d] assms(2) by simp
qed

lemma end_frame_ok:
  assumes "end_frame e F d = Some (d', ev)" "dp_ok d"
  shows "dp_ok d' \<and> (\<forall>u \<in> set (accepted ev). unit_ok u)"
proof -
  let ?d = "d\<lparr>decodingFrame := False, nextFrameNumber := F + 1\<rparr>"
  have ok: "dp_ok (?d\<lparr>waitingForNextSuccessfulFrame := False\<rparr>)" "dp_ok ?d" "dp_ok (?d\<lparr>dropStatePending := False\<rparr>)"
    using assms(2) dp_ok_cong [of "?d\<lparr>waitingForNextSuccessfulFrame := False\<rparr>" d] dp_ok_cong [of ?d d]
      dp_ok_cong [of "?d\<lparr>dropStatePending := False\<rparr>" d] by simp_all
  show ?thesis
  proof (cases "waitingForIdrFrame d \<or> waitingForRefInvalFrame d")
    case True
    then have "d' = dropped (?d\<lparr>waitingForNextSuccessfulFrame := False\<rparr>)" "accepted ev = []"
      using assms(1) by (auto simp: end_frame_def dropFrameState_eq Let_def split: if_splits)
    then show ?thesis using dropped_ok ok(1) by simp
  next
    case False
    then have rest: "(if dropStatePending ?d \<and> \<not> (nalChain ?d \<noteq> [] \<and> dp_frameType ?d = FRAME_TYPE_IDR) then dropFrameState ?d
           else reassembleFrame e F (?d\<lparr>dropStatePending := False\<rparr>)) = Some (d', ev)"
      using assms(1) by (simp add: end_frame_def Let_def bind_eq_Some_conv)
    show ?thesis
    proof (cases "dropStatePending ?d \<and> \<not> (nalChain ?d \<noteq> [] \<and> dp_frameType ?d = FRAME_TYPE_IDR)")
      case True
      then have "dropFrameState ?d = Some (d', ev)" using rest by metis
      then have "d' = dropped ?d" "accepted ev = []" by (auto simp: dropFrameState_eq)
      then show ?thesis using dropped_ok ok(2) by simp
    next
      case nodrop: False
      then have r: "reassembleFrame e F (?d\<lparr>dropStatePending := False\<rparr>) = Some (d', ev)" using rest by metis
      then show ?thesis using ok(3) by (intro reassembleFrame_ok [OF r]) simp_all
    qed
  qed
qed

lemma processRtpPayload_ok:
  assumes run: "processRtpPayload e v m len rt pts d = Some (k, d', ev)" and inv: "dp_ok d"
  shows "dp_ok d' \<and> (\<forall>u \<in> set (accepted ev). unit_ok u)"
proof -
  let ?spi = "drop_bit 8 (streamPacketIndex v) AND 0xFFFFFF" and ?F = "frameIndex v"
  let ?expected = "U24 (lastPacketInStream d + 1)"
  consider (old) "isBefore32 ?F (nextFrameNumber d)"
    | (corrupt) "\<not> isBefore32 ?F (nextFrameNumber d)" "isBefore24 ?spi ?expected \<or> (nv_flags v AND FLAG_SOF = 0 \<and> ?spi \<noteq> ?expected)"
    | (fine) "\<not> isBefore32 ?F (nextFrameNumber d)" "\<not> (isBefore24 ?spi ?expected \<or> (nv_flags v AND FLAG_SOF = 0 \<and> ?spi \<noteq> ?expected))"
    by blast
  then show ?thesis
  proof cases
    case old
    then show ?thesis using run inv by (auto simp: processRtpPayload_def Let_def)
  next
    case corrupt
    then have "give_up_frame ?F d = Some (d', ev)" using run by (auto simp: processRtpPayload_def Let_def)
    then show ?thesis using give_up_frame_ok inv by fastforce
  next
    case fine
    obtain d1 ev1 hdr b d2 ev2 r where s:
      "(if isFirstPacket (nv_flags v) (fec_block_number v) then start_frame ?F rt pts d else Some (d, [])) = Some (d1, ev1)"
      "(if isFirstPacket (nv_flags v) (fec_block_number v) \<and> len > 0
        then parse_first_packet e ?F m len (d1\<lparr>lastPacketInStream := ?spi\<rparr>)
        else Some (0, \<lparr>bd_offset = 0, bd_length = len\<rparr>, d1\<lparr>lastPacketInStream := ?spi\<rparr>, [])) = Some (hdr, b, d2, ev2)"
      "queue_payload e (isFirstPacket (nv_flags v) (fec_block_number v))
         (nv_flags v AND FLAG_EOF \<noteq> 0 \<and> fec_block_number v = fec_last_block v) hdr m b d2 = Some r"
      "(case r of
          None \<Rightarrow> map_option (\<lambda>(d, ev). (True, d, ev1 @ ev2 @ ev)) (give_up_frame ?F d2)
        | Some (kept, d) \<Rightarrow>
            if nv_flags v AND FLAG_EOF \<noteq> 0 \<and> fec_block_number v = fec_last_block v
            then map_option (\<lambda>(d, ev). (kept, d, ev1 @ ev2 @ ev)) (end_frame e ?F d)
            else Some (kept, d, ev1 @ ev2)) = Some (k, d', ev)"
      by (rule processRtpPayload_parts [OF run fine])
    have d1: "dp_ok d1" "accepted ev1 = []" using s(1) start_frame_ok inv by (fastforce split: if_splits)+
    have "dp_ok (d1\<lparr>lastPacketInStream := ?spi\<rparr>)" using d1 dp_ok_cong [of "d1\<lparr>lastPacketInStream := ?spi\<rparr>" d1] by simp
    then have d2: "dp_ok d2" "accepted ev2 = []" using s(2) parse_first_packet_ok by (fastforce split: if_splits)+
    show ?thesis
    proof (cases r)
      case None
      then obtain ev3 where g: "give_up_frame ?F d2 = Some (d', ev3)" "ev = ev1 @ ev2 @ ev3" using s(4) by auto
      then show ?thesis using give_up_frame_ok [OF g(1) d2(1)] d1 d2 by simp
    next
      case (Some kd)
      obtain k3 d3 where kd: "kd = (k3, d3)" by (cases kd)
      have d3: "dp_ok d3" using queue_payload_ok [OF s(3) [unfolded Some kd] d2(1)] .
      show ?thesis
      proof (cases "nv_flags v AND FLAG_EOF \<noteq> 0 \<and> fec_block_number v = fec_last_block v")
        case True
        then obtain ev3 where g: "end_frame e ?F d3 = Some (d', ev3)" "ev = ev1 @ ev2 @ ev3"
          using s(4) Some kd by auto
        then show ?thesis using end_frame_ok [OF g(1) d3] d1 d2 by simp
      next
        case False
        then have "d' = d3" "ev = ev1 @ ev2" using s(4) Some kd by auto
        then show ?thesis using d3 d1 d2 by simp
      qed
    qed
  qed
qed

lemma take_unit_ok:
  assumes "take_unit e op d = Some (u, d')" "op \<in> {Wait, Poll, Peek}" "dp_ok d"
  shows "dp_ok d'"
proof -
  let ?b = "decodeUnitQueue d"
  have "d' = d\<lparr>decodeUnitQueue := snd (bq_step op ?b)\<rparr>"
    using assms(1) by (auto simp: take_unit_def Let_def bind_eq_Some_conv split: option.splits)
  moreover have "set (contents (snd (bq_step op ?b))) \<subseteq> set (contents ?b) \<and> capacity (snd (bq_step op ?b)) = capacity ?b
      \<and> length (contents (snd (bq_step op ?b))) \<le> length (contents ?b)"
    using assms(2) by (auto simp: bq_get_def split: if_splits list.splits)
  ultimately show ?thesis using assms(3) by (auto simp: dp_ok_def chain_ok_def)
qed

lemma dp_step_ok:
  assumes "dp_step op d = Some (d', ev)" "dp_ok d"
  shows "dp_ok d' \<and> (\<forall>u \<in> set (accepted ev). unit_ok u)"
proof (cases op)
  case (Packet e q)
  then obtain v m len k where "processRtpPayload e v m len (receiveTimeMs q) (presentationTimeMs q) d = Some (k, d', ev)"
    using assms(1) by (auto simp: queueRtpPacket_def Let_def bind_eq_Some_conv)
  then show ?thesis using processRtpPayload_ok assms(2) by blast
next
  case (Lost f)
  then have "(d' = dropped d \<or> d' = (dropped d)\<lparr>nextFrameNumber := f + 1\<rparr>) \<and> accepted ev = []" using assms(1)
    by (auto simp: notifyFrameLost_def dropFrameState_eq bind_eq_Some_conv split: if_splits)
  then show ?thesis using dropped_ok [OF assms(2)] dp_ok_cong [of "(dropped d)\<lparr>nextFrameNumber := f + 1\<rparr>" "dropped d"] by auto
next
  case Refresh
  then have "d' = refreshed d \<and> accepted ev = []" using assms(1) by (auto simp: requestDecoderRefresh_eq)
  then show ?thesis using refreshed_ok [OF assms(2)] by simp
next
  case (Complete u status)
  then show ?thesis using LiCompleteVideoFrame_ok [of u status d d' ev] assms by simp
next
  case (Wait_frame e)
  then show ?thesis using assms(1) take_unit_ok [OF _ _ assms(2), of e Wait] by (auto simp: LiWaitForNextVideoFrame_def)
next
  case (Poll_frame e)
  then show ?thesis using assms(1) take_unit_ok [OF _ _ assms(2), of e Poll] by (auto simp: LiPollNextVideoFrame_def)
next
  case (Peek_frame e)
  then show ?thesis using assms(1) take_unit_ok [OF _ _ assms(2), of e Peek] by (auto simp: LiPeekNextVideoFrame_def)
next
  case Wake_decoder
  then show ?thesis using assms by (auto simp: LiWakeWaitForVideoFrame_def dp_ok_def chain_ok_def)
next
  case Stop_depacketizer
  then show ?thesis using assms by (auto simp: stopVideoDepacketizer_def dp_ok_def chain_ok_def)
qed

lemma dp_run_ok:
  assumes "dp_run ops d = Some (d', ev)" "dp_ok d"
  shows "dp_ok d' \<and> (\<forall>u \<in> set (accepted ev). unit_ok u)"
  using assms
proof (induction ops arbitrary: d ev)
  case (Cons op ops)
  obtain d1 ev1 ev2 where r: "dp_step op d = Some (d1, ev1)" "dp_run ops d1 = Some (d', ev2)" "ev = ev1 @ ev2"
    using Cons.prems(1) by (auto simp: bind_eq_Some_conv)
  show ?case using dp_step_ok [OF r(1) Cons.prems(2)] Cons.IH [OF r(2)] r(3) by auto
qed simp

text \<open>
  Property C29.  Well-formed decode units: over every history, with memory failing or not, every unit the decoder or
  its queue is given has at least one buffer, its length is the sum of its buffers' lengths, and
  it is an IDR frame or a P frame that starts with picture data.
\<close>

theorem units_well_formed:
  assumes "dp_run ops (initializeVideoDepacketizer rfi static_depacketizer) = Some (d, ev)" "u \<in> set (accepted ev)"
  shows "du_bufferList u \<noteq> [] \<and> du_fullLength u = sum_list (map (\<lambda>b. length (le_data b)) (du_bufferList u))
    \<and> (du_frameType u = FRAME_TYPE_IDR
       \<or> du_frameType u = FRAME_TYPE_PFRAME \<and> le_bufferType (hd (du_bufferList u)) = BUFFER_TYPE_PICDATA)"
proof -
  have "dp_ok (initializeVideoDepacketizer rfi static_depacketizer)"
    by (simp add: dp_ok_def chain_ok_def initializeVideoDepacketizer_def static_depacketizer_def bq_start_def)
  then show ?thesis using dp_run_ok [OF assms(1)] assms(2) by (simp add: unit_ok_def chain_total_def)
qed

section \<open>Concrete streams\<close>

definition av1_env :: dp_env where
  "av1_env = \<lparr>NegotiatedVideoFormat = 0x1000, dp_version = \<lparr>vq0 = 7, vq1 = 1, vq2 = 450, vq3 = - 1\<rparr>,
     direct_submit = False, submitDecodeUnit = (\<lambda>_. 0), dp_malloc = (\<lambda>_. True), dp_malloc_unit = True,
     dp_now = 7, hostHdrMode = False, streamColorSpace = 1\<rparr>"

text \<open>The entry of a packet of frame \<open>f\<close> with stream packet index \<open>spi\<close>.\<close>

definition av1_entry :: "u32 \<Rightarrow> u32 \<Rightarrow> u8 \<Rightarrow> u8 list \<Rightarrow> video_entry" where
  "av1_entry f spi flags body =
     \<lparr>ve_packet = \<lparr>rtp_header = 0x80, packetType = 0, sequenceNumber = ucast spi, timestamp = 0, ssrc = 0,
        payload = nv_bytes \<lparr>streamPacketIndex = push_bit 8 spi, frameIndex = f, nv_flags = flags, nv_reserved = 0,
          multiFecFlags = 0x10, multiFecBlocks = 0, fecInfo = 0\<rparr> @ body\<rparr>,
      receiveTimeMs = 5, presentationTimeMs = 3, ve_length = 28 + length body, isParity = False\<rparr>"

text \<open>A frame header of type \<open>t\<close> for a frame of one packet with \<open>n\<close> bytes of data.\<close>

definition av1_header :: "u8 \<Rightarrow> u8 \<Rightarrow> u8 list" where
  "av1_header t n = [1, 0, 0, t, n + 8, 0, 0, 0]"

definition av1_frame :: "u32 \<Rightarrow> u32 \<Rightarrow> u8 \<Rightarrow> dp_op" where
  "av1_frame f spi t = Packet av1_env (av1_entry f spi 7 (av1_header t 2 @ [0xAA, 0xBB]))"

text \<open>An IDR frame, a P frame, a lost frame 3, a P frame that has to wait, an IDR frame.\<close>

definition strict_ops :: "dp_op list" where
  "strict_ops = [av1_frame 1 0 2, Poll_frame av1_env, Complete (make_unit av1_env 1 (static_depacketizer\<lparr>dp_frameType := 1\<rparr>)) 0,
     av1_frame 2 1 1, Lost 3, av1_frame 4 3 1, av1_frame 5 4 2]"

definition accepted_are :: "(u32 \<times> int) list \<Rightarrow> (depacketizer \<times> dp_event list) option \<Rightarrow> bool" where
  "accepted_are us r = (case r of None \<Rightarrow> False | Some (_, ev) \<Rightarrow> map (\<lambda>u. (du_frameNumber u, du_frameType u)) (accepted ev) = us)"

lemma strict_ops_run:
  "accepted_are [(1, 1), (2, 0), (5, 1)] (dp_run strict_ops (initializeVideoDepacketizer False static_depacketizer))"
  by code_simp

lemma strict_ops_intact: "frames_intact strict_ops (initializeVideoDepacketizer False static_depacketizer)"
  by code_simp


theorem units_well_formed_witness:
  "\<exists>d ev u. dp_run strict_ops (initializeVideoDepacketizer False static_depacketizer) = Some (d, ev) \<and> u \<in> set (accepted ev)
     \<and> du_bufferList u \<noteq> []"
proof -
  obtain d ev where r: "dp_run strict_ops (initializeVideoDepacketizer False static_depacketizer) = Some (d, ev)"
    "map (\<lambda>u. (du_frameNumber u, du_frameType u)) (accepted ev) = [(1, 1), (2, 0), (5, 1)]"
    using strict_ops_run by (auto simp: accepted_are_def split: option.splits)
  then obtain u where u: "u \<in> set (accepted ev)" by (cases "accepted ev") auto
  show ?thesis using units_well_formed [OF r(1) u] r(1) u by blast
qed

section \<open>A refresh can be lost\<close>

definition refresh_ops :: "dp_op list" where
  "refresh_ops = [av1_frame 1 0 2, Complete (make_unit av1_env 1 (static_depacketizer\<lparr>dp_frameType := 1\<rparr>)) 0, Refresh,
     Packet av1_env (av1_entry 2 1 5 (av1_header 2 2 @ [0xAA, 0xBB])),
     Packet av1_env (av1_entry 2 5 3 [0xCC, 0xDD]),
     av1_frame 3 6 5]"

lemma refresh_ops_run:
  "accepted_are [(1, 1), (3, 0)] (dp_run refresh_ops (initializeVideoDepacketizer True static_depacketizer))"
  by code_simp

text \<open>
  A lost refresh: the wait for an IDR frame ends with the first packet of one.  When the host supports
  reference frame invalidation and a later packet of that frame turns out corrupt, the
  depacketizer goes on to wait only for a frame with valid references: after the decoder asked for
  an IDR frame, the next unit it is given is the P frame 3.
\<close>

theorem refresh_forgotten:
  "\<exists>d ev. dp_run refresh_ops (initializeVideoDepacketizer True static_depacketizer) = Some (d, ev)
     \<and> map (\<lambda>u. (du_frameNumber u, du_frameType u)) (accepted ev) = [(1, FRAME_TYPE_IDR), (3, FRAME_TYPE_PFRAME)]"
  using refresh_ops_run by (auto simp: accepted_are_def FRAME_TYPE_IDR_def FRAME_TYPE_PFRAME_def split: option.splits)

end
