(* ===== verification/VideoLosses.thy ===== *)
theory VideoLosses
  imports VideoStream
begin

text \<open>
  The losses that the depacketizer reports to the control stream: over every history they are proper
  ranges, and neither their starts nor their ends ever go back, which is what the control stream relies on.
\<close>

fun loss_of :: "dp_event \<Rightarrow> (u32 \<times> u32) list" where
  "loss_of (Frame_loss a b) = [(a, b)]"
| "loss_of _ = []"

definition loss_ranges :: "dp_event list \<Rightarrow> (u32 \<times> u32) list" where
  "loss_ranges evs = concat (map loss_of evs)"

lemma loss_ranges_simps [simp]:
  "loss_ranges [] = []" "loss_ranges (ev # evs) = loss_of ev @ loss_ranges evs" "loss_ranges (xs @ ys) = loss_ranges xs @ loss_ranges ys"
  by (simp_all add: loss_ranges_def)

definition ranges_in_order :: "(u32 \<times> u32) list \<Rightarrow> bool" where
  "ranges_in_order ls \<longleftrightarrow> sorted (map fst ls) \<and> sorted (map snd ls) \<and> (\<forall>(a, b) \<in> set ls. a \<le> b)"

text \<open>After these losses: they lie before the next frame, and the next one starts where the last one did or later.\<close>

definition after_losses :: "(u32 \<times> u32) list \<Rightarrow> depacketizer \<Rightarrow> bool" where
  "after_losses ls d \<longleftrightarrow> ranges_in_order ls \<and> startFrameNumber d \<le> nextFrameNumber d \<and> nextFrameNumber d \<le> 0x80000000
     \<and> (waitingForRefInvalFrame d \<longrightarrow> startFrameNumber d < nextFrameNumber d)
     \<and> (\<forall>(a, b) \<in> set ls. a \<le> startFrameNumber d \<and> b < nextFrameNumber d)"

lemma after_losses_cong:
  "after_losses ls d \<Longrightarrow> startFrameNumber d' = startFrameNumber d \<Longrightarrow> nextFrameNumber d' = nextFrameNumber d
   \<Longrightarrow> (waitingForRefInvalFrame d' \<Longrightarrow> waitingForRefInvalFrame d) \<Longrightarrow> after_losses ls d'"
  by (auto simp: after_losses_def)

text \<open>Between frames, no drop can set the wait for valid references without advancing the next frame.\<close>

definition settled :: "depacketizer \<Rightarrow> bool" where
  "settled d \<longleftrightarrow> startFrameNumber d < nextFrameNumber d \<or> decodingFrame d \<or> consecutiveFrameDrops d = 0 \<or> waitingForIdrFrame d"

section \<open>Frame numbers\<close>

lemma next_frame:
  assumes "F < (0x80000000 :: u32)"
  shows "F + 1 \<le> 0x80000000" "x < F + 1 \<longleftrightarrow> x \<le> F"
proof -
  have F: "unat F < 0x80000000" using assms by (simp add: word_less_nat_alt)
  then have "unat (F + 1) = unat F + 1" using unat_plus_small [of F 1] by simp
  then show "F + 1 \<le> 0x80000000" "x < F + 1 \<longleftrightarrow> x \<le> F"
    using F by (auto simp: word_less_nat_alt word_le_nat_alt)
qed

lemma before_frame:
  assumes "(x :: u32) < F"
  shows "x \<le> F - 1" "F - 1 < F"
proof -
  have "F \<noteq> 0" using assms by (auto simp: word_less_nat_alt)
  then have "unat (F - 1) = unat F - 1" by (rule unat_minus_one)
  then show "x \<le> F - 1" "F - 1 < F" using assms by (auto simp: word_less_nat_alt word_le_nat_alt)
qed

lemma not_before:
  assumes "\<not> isBefore32 F n" "F < 0x80000000" "n \<le> 0x80000000"
  shows "n \<le> F"
proof (rule ccontr)
  assume "\<not> n \<le> F"
  then have l: "unat F < unat n" by (simp add: word_le_nat_alt)
  have n: "unat n \<le> 0x80000000" using assms(3) by (simp add: word_le_nat_alt)
  have "unat (F - n) = 2 ^ 32 + unat F - unat n"
    using l by (simp add: unat_sub_if' )
  then have "0x7FFFFFFF < unat (F - n)" using n by simp
  then show False using assms(1) by (simp add: isBefore32_def word_less_nat_alt)
qed

section \<open>The parts of a step\<close>

lemma range_added:
  assumes "after_losses ls d" "startFrameNumber d \<le> b" "b < nextFrameNumber d" "\<forall>(x, y) \<in> set ls. y \<le> b"
  shows "after_losses (ls @ [(startFrameNumber d, b)]) d"
  using assms by (auto simp: after_losses_def ranges_in_order_def sorted_append)

lemma frame_passed:
  assumes "after_losses ls d" "nextFrameNumber d \<le> F" "F < 0x80000000" "startFrameNumber d' = startFrameNumber d" "nextFrameNumber d' = F + 1"
  shows "after_losses ls d' \<and> startFrameNumber d' < nextFrameNumber d' \<and> startFrameNumber d' \<le> F \<and> (\<forall>(a, b) \<in> set ls. b \<le> F)"
  using assms next_frame [OF assms(3)] by (fastforce simp: after_losses_def)

lemma dropped_after:
  assumes "after_losses ls d" "startFrameNumber d < nextFrameNumber d"
  shows "after_losses ls (dropped d)"
  using assms by (auto simp: after_losses_def)

lemma limit_ranges [simp]: "loss_ranges (if c then [Request_idr_frame] else []) = []"
  by simp

lemma give_up_after:
  assumes run: "give_up_frame F d = Some (d', ev)" and ok: "after_losses ls d" and F: "nextFrameNumber d \<le> F" "F < 0x80000000"
  shows "after_losses (ls @ loss_ranges ev) d' \<and> settled d'"
proof -
  let ?d = "d\<lparr>decodingFrame := False, nextFrameNumber := F + 1\<rparr>"
  have p: "after_losses ls ?d \<and> startFrameNumber ?d < nextFrameNumber ?d \<and> startFrameNumber ?d \<le> F \<and> (\<forall>(a, b) \<in> set ls. b \<le> F)"
    by (rule frame_passed [OF ok F]) simp_all
  then have d: "after_losses ls (dropped ?d)" by (intro dropped_after) simp_all
  have "after_losses (ls @ [(startFrameNumber (dropped ?d), F)]) (dropped ?d)"
    by (rule range_added [OF d]) (use p next_frame [OF F(2)] in auto)
  then show ?thesis using run d p by (auto simp: settled_def give_up_frame_def dropFrameState_eq split: if_splits)
qed

lemma start_after:
  assumes run: "start_frame F rt pts d = Some (d', ev)" and ok: "after_losses ls d" and F: "nextFrameNumber d \<le> F" "F < 0x80000000"
  shows "after_losses ls d' \<and> loss_ranges ev = [] \<and> nextFrameNumber d' = F \<and> decodingFrame d'"
proof (cases "isBefore32 (nextFrameNumber d) F")
  case True
  then have "nextFrameNumber d < F" using F(1) by (auto simp: isBefore32_def order_le_less)
  then have "after_losses ls (d\<lparr>nextFrameNumber := F, waitingForNextSuccessfulFrame := True\<rparr>)"
    and s: "startFrameNumber d < F"
    using ok F(2) by (auto simp: after_losses_def)
  then have "after_losses ls (dropped (d\<lparr>nextFrameNumber := F, waitingForNextSuccessfulFrame := True\<rparr>))"
    by (intro dropped_after) simp_all
  then show ?thesis using run True
    by (auto simp: start_frame_def dropFrameState_eq Let_def split: if_splits elim!: after_losses_cong)
next
  case False
  then show ?thesis using run ok
    by (auto simp: start_frame_def Let_def bind_eq_Some_conv elim!: after_losses_cong)
qed

lemma refs_valid_again_fields:
  "startFrameNumber (refs_valid_again d) = startFrameNumber d" "nextFrameNumber (refs_valid_again d) = nextFrameNumber d"
  "waitingForRefInvalFrame (refs_valid_again d) = False" "decodingFrame (refs_valid_again d) = decodingFrame d"
  by (simp_all add: refs_valid_again_def)

lemma parse_type_after:
  assumes run: "parse_frame_type e F m len d = Some (d', ev)" and ok: "after_losses ls d" and F: "nextFrameNumber d = F"
  shows "after_losses (ls @ loss_ranges ev) d' \<and> nextFrameNumber d' = F \<and> decodingFrame d' = decodingFrame d"
proof (cases "(APP_VERSION_AT_LEAST (dp_version e) 7 1 350 \<and> len \<ge> 4) \<or> \<not> waitingForRefInvalFrame d")
  case True
  then show ?thesis using run ok F
    by (auto simp: parse_frame_type_def Let_def bind_eq_Some_conv refs_valid_again_fields split: if_splits elim!: after_losses_cong)
next
  case False
  let ?r = "refs_valid_again d"
  have "startFrameNumber d < F" using ok False F by (auto simp: after_losses_def)
  note b = before_frame [OF this]
  have r: "after_losses ls ?r" by (rule after_losses_cong [OF ok]) (simp_all add: refs_valid_again_fields)
  have "\<forall>(x, y) \<in> set ls. y \<le> F - 1"
    using ok F before_frame(1) by (auto simp: after_losses_def)
  then have "after_losses (ls @ [(startFrameNumber ?r, F - 1)]) ?r"
    by (intro range_added [OF r]) (use b F in \<open>simp_all add: refs_valid_again_fields\<close>)
  then show ?thesis using run False F by (auto simp: parse_frame_type_def refs_valid_again_fields)
qed

lemma parse_first_after:
  assumes "parse_first_packet e F m len d = Some (hdr, b, d', ev)" "after_losses ls d" "nextFrameNumber d = F"
  shows "after_losses (ls @ loss_ranges ev) d' \<and> nextFrameNumber d' = F \<and> decodingFrame d' = decodingFrame d"
proof -
  obtain d1 where d1: "parse_frame_type e F m len d = Some (d1, ev)" "parse_header_fields e m len d1 = Some d'"
    using assms(1) unfolding parse_first_packet_def by (auto simp: bind_eq_Some_conv Let_def)
  have "startFrameNumber d' = startFrameNumber d1 \<and> nextFrameNumber d' = nextFrameNumber d1 \<and> waitingForRefInvalFrame d' = waitingForRefInvalFrame d1
    \<and> decodingFrame d' = decodingFrame d1"
  proof -
    obtain x where x: "x = d1 \<or> (\<exists>l. x = d1\<lparr>dp_frameHostProcessingLatency := l\<rparr>)" "d' = x \<or> (\<exists>l. d' = x\<lparr>lastPacketPayloadLength := l\<rparr>)"
      using d1(2) unfolding parse_header_fields_def bind_eq_Some_conv by (auto split: if_splits)
    then show ?thesis by auto
  qed
  then show ?thesis using parse_type_after [OF d1(1) assms(2,3)] by (auto elim!: after_losses_cong)
qed

lemma queued_after:
  assumes "queued_from d d'" "after_losses ls d"
  shows "after_losses ls d' \<and> nextFrameNumber d' = nextFrameNumber d \<and> decodingFrame d' = decodingFrame d"
proof -
  have f: "startFrameNumber (without_chain x) = startFrameNumber x" "nextFrameNumber (without_chain x) = nextFrameNumber x"
    "waitingForRefInvalFrame (without_chain x) = waitingForRefInvalFrame x" "decodingFrame (without_chain x) = decodingFrame x" for x
    by (simp_all add: without_chain_def)
  have i: "startFrameNumber (idr_slice_seen x) = startFrameNumber x" "nextFrameNumber (idr_slice_seen x) = nextFrameNumber x"
    "waitingForRefInvalFrame (idr_slice_seen x) = False" "decodingFrame (idr_slice_seen x) = decodingFrame x" for x
    by (simp_all add: idr_slice_seen_def)
  have "startFrameNumber d' = startFrameNumber d" "nextFrameNumber d' = nextFrameNumber d" "decodingFrame d' = decodingFrame d"
    "waitingForRefInvalFrame d' \<Longrightarrow> waitingForRefInvalFrame d"
    using assms(1) f [of d'] f [of d] i [of "without_chain d"] unfolding queued_from_def by metis+
  then show ?thesis using after_losses_cong [OF assms(2)] by blast
qed

lemma reassemble_after:
  assumes run: "reassembleFrame e F d = Some (d', ev)" and ok: "after_losses ls d" and w: "\<not> waitingForRefInvalFrame d"
  shows "after_losses ls d' \<and> loss_ranges ev = []
    \<and> (startFrameNumber d' = startFrameNumber d \<and> nextFrameNumber d' = nextFrameNumber d \<or> consecutiveFrameDrops d' = 0)"
proof -
  have sub: "after_losses ls (fst (frame_submitted F c)) \<and> loss_ranges (snd (frame_submitted F c)) = []
      \<and> consecutiveFrameDrops (fst (frame_submitted F c)) = 0"
    if "after_losses ls c" "\<not> waitingForRefInvalFrame c" for c
    using that by (auto simp: frame_submitted_def after_losses_def)
  have key: "loss_ranges (if c then [Key_frame_received] else []) = []" for c by simp
  let ?c = "d\<lparr>nalChain := [], nalChainDataLength := 0\<rparr>"
  have c: "after_losses ls ?c" "\<not> waitingForRefInvalFrame ?c" using w by (auto intro: after_losses_cong [OF ok])
  let ?u = "make_unit e F d"
  show ?thesis
  proof (cases "nalChain d = [] \<or> (\<not> direct_submit e \<and> \<not> dp_malloc_unit e)")
    case True
    then show ?thesis using run ok by (simp add: reassembleFrame_def)
  next
    case False
    show ?thesis
    proof (cases "direct_submit e")
      case True
      obtain x evx where x: "LiCompleteVideoFrame ?u (submitDecodeUnit e ?u) ?c = (x, evx)" by fastforce
      have "after_losses ls x \<and> \<not> waitingForRefInvalFrame x \<and> loss_ranges evx = []"
        using x c by (auto simp: LiCompleteVideoFrame_eq refreshed_def split: if_splits elim!: after_losses_cong)
      then show ?thesis using run False True x sub [of x]
        by (auto simp: reassembleFrame_def Let_def bind_eq_Some_conv frame_submitted_def)
    next
      case queued: False
      have q: "after_losses ls (?c\<lparr>decodeUnitQueue := b, unitsOffered := n\<rparr>)" for b n
        using c(1) by (rule after_losses_cong) simp_all
      have over: "after_losses ls x \<and> loss_ranges evx = [] \<and> startFrameNumber x = startFrameNumber d \<and> nextFrameNumber x = nextFrameNumber d" if "queue_overflow ?u ?c = Some (x, evx)" for x evx
      proof -
        let ?o = "?c\<lparr>waitingForIdrFrame := True, nalChain := du_bufferList ?u, nalChainDataLength := du_fullLength ?u\<rparr>"
        have "after_losses ls (dropped ?o)" using c by (auto simp: after_losses_def needs_idr_def)
        then show ?thesis using that
          by (auto simp: queue_overflow_def dropFrameState_eq split: if_splits elim!: after_losses_cong)
      qed
      show ?thesis
      proof (cases "bq_step (Offer ?u \<lparr>flink = None, blink = None, data = ?u\<rparr>) (decodeUnitQueue ?c)")
        case (Pair r b)
        then consider "r = Status LBQ_BOUND_EXCEEDED None" | st where "r = Status st None" "st \<noteq> LBQ_BOUND_EXCEEDED"
          by (auto split: if_splits)
        then show ?thesis
        proof cases
          case 1
          have "map_option (\<lambda>(x, evx). (x, (if du_frameType ?u = FRAME_TYPE_IDR then [Key_frame_received] else []) @ evx)) (queue_overflow ?u ?c) = Some (d', ev)"
            using run False queued Pair 1 by (simp add: reassembleFrame_def Let_def del: bq_step.simps)
          then show ?thesis using over by auto
        next
          case 2
          let ?q = "?c\<lparr>decodeUnitQueue := b, unitsOffered := (if st = LBQ_SUCCESS then unitsOffered d + 1 else unitsOffered d)\<rparr>"
          have "d' = fst (frame_submitted F ?q)" "loss_ranges ev = loss_ranges (snd (frame_submitted F ?q))"
            using run False queued Pair 2
            by (cases st; auto simp: reassembleFrame_def Let_def frame_submitted_def simp del: bq_step.simps)+
          then show ?thesis using sub [OF q] w by simp
        qed
      qed
    qed
  qed
qed

lemma end_after:
  assumes run: "end_frame e F d = Some (d', ev)" and ok: "after_losses ls d" and F: "nextFrameNumber d = F" "F < 0x80000000"
  shows "after_losses (ls @ loss_ranges ev) d' \<and> settled d'"
proof -
  let ?d = "d\<lparr>decodingFrame := False, nextFrameNumber := F + 1\<rparr>"
  have p: "after_losses ls ?d \<and> startFrameNumber ?d < nextFrameNumber ?d \<and> startFrameNumber ?d \<le> F \<and> (\<forall>(a, b) \<in> set ls. b \<le> F)"
    by (rule frame_passed [OF ok _ F(2)]) (use F in simp_all)
  have l: "after_losses (ls @ [(startFrameNumber ?d, F)]) ?d"
    by (rule range_added) (use p next_frame [OF F(2)] in auto)
  have drop: "after_losses xs (dropped c)" if "after_losses xs ?d" "startFrameNumber c = startFrameNumber ?d"
    "nextFrameNumber c = nextFrameNumber ?d" "waitingForRefInvalFrame c = waitingForRefInvalFrame ?d" for c xs
    by (rule dropped_after) (use that p in \<open>auto elim: after_losses_cong\<close>)
  show ?thesis
  proof (cases "waitingForIdrFrame d \<or> waitingForRefInvalFrame d")
    case True
    let ?c = "?d\<lparr>waitingForNextSuccessfulFrame := False\<rparr>"
    have "d' = dropped ?c" "loss_ranges ev = (if waitingForIdrFrame d then [] else [(startFrameNumber d, F)])"
      using run True by (auto simp: end_frame_def Let_def dropFrameState_eq split: if_splits)
    then show ?thesis using drop [of ls ?c] drop [of "ls @ [(startFrameNumber ?d, F)]" ?c] p l by (auto simp: settled_def)
  next
    case False
    then have rest: "(if dropStatePending ?d \<and> \<not> (nalChain ?d \<noteq> [] \<and> dp_frameType ?d = FRAME_TYPE_IDR) then dropFrameState ?d
           else reassembleFrame e F (?d\<lparr>dropStatePending := False\<rparr>)) = Some (d', ev)"
      using run by (simp add: end_frame_def Let_def bind_eq_Some_conv)
    show ?thesis
    proof (cases "dropStatePending ?d \<and> \<not> (nalChain ?d \<noteq> [] \<and> dp_frameType ?d = FRAME_TYPE_IDR)")
      case True
      then have "dropFrameState ?d = Some (d', ev)" using rest by metis
      then show ?thesis using drop [of ls ?d] p by (auto simp: dropFrameState_eq settled_def split: if_splits)
    next
      case nodrop: False
      then have r: "reassembleFrame e F (?d\<lparr>dropStatePending := False\<rparr>) = Some (d', ev)" using rest by metis
      have "after_losses ls (?d\<lparr>dropStatePending := False\<rparr>)" using p by (auto elim: after_losses_cong)
      then show ?thesis using reassemble_after [OF r, of ls] False p unfolding settled_def by fastforce
    qed
  qed
qed

section \<open>Packets and histories\<close>

lemma payload_after:
  assumes run: "processRtpPayload e v m len rt pts d = Some (k, d', ev)" and ok: "after_losses ls d"
    and s0: "settled d"
    and v: "continues_frame v d" "frameIndex v < 0x80000000" and mem: "dp_malloc e = (\<lambda>_. True)"
  shows "after_losses (ls @ loss_ranges ev) d' \<and> settled d'"
proof -
  let ?F = "frameIndex v" and ?first = "isFirstPacket (nv_flags v) (fec_block_number v)"
  let ?last = "nv_flags v AND FLAG_EOF \<noteq> 0 \<and> fec_block_number v = fec_last_block v"
  let ?spi = "drop_bit 8 (streamPacketIndex v) AND 0xFFFFFF"
  let ?expected = "U24 (lastPacketInStream d + 1)"
  have le: "nextFrameNumber d \<le> ?F" if "\<not> isBefore32 ?F (nextFrameNumber d)"
    using not_before [OF that v(2)] ok by (simp add: after_losses_def)
  consider (old) "isBefore32 ?F (nextFrameNumber d)"
    | (corrupt) "\<not> isBefore32 ?F (nextFrameNumber d)" "isBefore24 ?spi ?expected \<or> (nv_flags v AND FLAG_SOF = 0 \<and> ?spi \<noteq> ?expected)"
    | (fine) "\<not> isBefore32 ?F (nextFrameNumber d)" "\<not> (isBefore24 ?spi ?expected \<or> (nv_flags v AND FLAG_SOF = 0 \<and> ?spi \<noteq> ?expected))"
    by blast
  then show ?thesis
  proof cases
    case old
    then show ?thesis using run ok s0 by (auto simp: processRtpPayload_def Let_def)
  next
    case corrupt
    then have "give_up_frame ?F d = Some (d', ev)" using run by (auto simp: processRtpPayload_def Let_def)
    then show ?thesis using give_up_after ok le [OF corrupt(1)] v(2) by blast
  next
    case fine
    obtain d1 ev1 hdr b d2 ev2 r where s: "?first \<noteq> decodingFrame d"
      "(if ?first then start_frame ?F rt pts d else Some (d, [])) = Some (d1, ev1)"
      "(if ?first \<and> len > 0 then parse_first_packet e ?F m len (d1\<lparr>lastPacketInStream := ?spi\<rparr>)
        else Some (0, \<lparr>bd_offset = 0, bd_length = len\<rparr>, d1\<lparr>lastPacketInStream := ?spi\<rparr>, [])) = Some (hdr, b, d2, ev2)"
      "queue_payload e ?first ?last hdr m b d2 = Some r"
      "(case r of
              None \<Rightarrow> map_option (\<lambda>(d, ev). (True, d, ev1 @ ev2 @ ev)) (give_up_frame ?F d2)
            | Some (kept, d) \<Rightarrow>
                if ?last then map_option (\<lambda>(d, ev). (kept, d, ev1 @ ev2 @ ev)) (end_frame e ?F d)
                else Some (kept, d, ev1 @ ev2)) = Some (k, d', ev)"
      by (rule processRtpPayload_parts [OF run fine])
    have d1: "after_losses ls d1 \<and> loss_ranges ev1 = [] \<and> nextFrameNumber d1 = ?F \<and> decodingFrame d1"
    proof (cases ?first)
      case True
      then show ?thesis using start_after [OF _ ok le [OF fine(1)] v(2)] s(2) by simp
    next
      case False
      then show ?thesis using s(1,2) ok v(1) by (simp add: continues_frame_def)
    qed
    have "after_losses ls (d1\<lparr>lastPacketInStream := ?spi\<rparr>)" using d1 by (auto elim: after_losses_cong)
    then have d2: "after_losses (ls @ loss_ranges ev2) d2 \<and> nextFrameNumber d2 = ?F \<and> decodingFrame d2"
      using s(3) d1 parse_first_after by (auto split: if_splits)
    show ?thesis
    proof (cases r)
      case None
      then obtain ev3 where g: "give_up_frame ?F d2 = Some (d', ev3)" "ev = ev1 @ ev2 @ ev3" using s(5) by auto
      then show ?thesis using give_up_after [OF g(1) conjunct1 [OF d2] _ v(2)] d1 d2 by simp
    next
      case (Some kd)
      obtain k3 d3 where kd: "kd = (k3, d3)" by (cases kd)
      have d3: "after_losses (ls @ loss_ranges ev2) d3 \<and> nextFrameNumber d3 = ?F \<and> decodingFrame d3"
        using queue_payload_state [OF s(4) [unfolded Some kd] mem] queued_after d2 by metis
      show ?thesis
      proof (cases ?last)
        case True
        then obtain ev3 where g: "end_frame e ?F d3 = Some (d', ev3)" "ev = ev1 @ ev2 @ ev3"
          using s(5) Some kd by auto
        then show ?thesis using end_after [OF g(1), of "ls @ loss_ranges ev2"] v(2) d1 d3 by simp
      next
        case False
        then have "d' = d3" "ev = ev1 @ ev2" using s(5) Some kd by auto
        then show ?thesis using d3 d1 by (simp add: settled_def)
      qed
    qed
  qed
qed

text \<open>
  The numbers of a stream of fewer than 2 to the 31 frames; the queue reports a lost frame at or after the one
  before the next expected frame.
\<close>

definition op_numbers :: "dp_op \<Rightarrow> depacketizer \<Rightarrow> bool" where
  "op_numbers op d = (case op of
     Packet e q \<Rightarrow> (case read_nv (ve_packet q) of None \<Rightarrow> True | Some v \<Rightarrow> continues_frame v d \<and> frameIndex v < 0x80000000)
   | Lost f \<Rightarrow> f < 0x80000000 \<and> nextFrameNumber d \<le> f + 1
   | _ \<Rightarrow> True)"

fun numbers_intact :: "dp_op list \<Rightarrow> depacketizer \<Rightarrow> bool" where
  "numbers_intact [] d \<longleftrightarrow> True"
| "numbers_intact (op # ops) d \<longleftrightarrow> op_numbers op d
     \<and> (case dp_step op d of None \<Rightarrow> True | Some (d, _) \<Rightarrow> numbers_intact ops d)"

lemma settled_cong:
  "settled d \<Longrightarrow> startFrameNumber d' = startFrameNumber d \<Longrightarrow> nextFrameNumber d' = nextFrameNumber d \<Longrightarrow> decodingFrame d' = decodingFrame d
   \<Longrightarrow> consecutiveFrameDrops d' = consecutiveFrameDrops d \<Longrightarrow> (waitingForIdrFrame d \<Longrightarrow> waitingForIdrFrame d') \<Longrightarrow> settled d'"
  by (auto simp: settled_def)

lemma lost_after:
  assumes run: "notifyFrameLost F d = Some (d', ev)" and ok: "after_losses ls d" "settled d" and F: "F < 0x80000000" "nextFrameNumber d \<le> F + 1"
  shows "after_losses (ls @ loss_ranges ev) d' \<and> settled d'"
proof -
  have a: "startFrameNumber d \<le> F" "\<not> decodingFrame d" and
    r: "(if waitingForIdrFrame (dropped d) then d' = dropped d \<and> loss_ranges ev = []
       else d' = (dropped d)\<lparr>nextFrameNumber := F + 1\<rparr> \<and> loss_ranges ev = [(startFrameNumber d, F)])"
    using run by (auto simp: notifyFrameLost_def dropFrameState_eq bind_eq_Some_conv LC_ASSERT_Some split: if_splits)
  show ?thesis
  proof (cases "waitingForIdrFrame (dropped d)")
    case True
    have "startFrameNumber d < nextFrameNumber d" if "waitingForRefInvalFrame (dropped d)"
      using that True ok a(2) by (auto simp: after_losses_def settled_def needs_idr_def drop_limit_def CONSECUTIVE_DROP_LIMIT_def)
    then have "after_losses ls (dropped d)" using ok(1) by (auto simp: after_losses_def)
    then show ?thesis using r True by (simp add: settled_def)
  next
    case False
    let ?d = "d\<lparr>nextFrameNumber := F + 1\<rparr>"
    have lt: "x < F + 1 \<longleftrightarrow> x \<le> F" for x by (rule next_frame(2) [OF F(1)])
    have b: "b \<le> F" "b < F + 1" if "b < nextFrameNumber d" for b
      using less_le_trans [OF that F(2)] lt by simp_all
    have "startFrameNumber d < F + 1" using a(1) lt by simp
    then have d: "after_losses ls (dropped ?d)"
      by (intro dropped_after) (use ok(1) a(1) b next_frame(1) [OF F(1)] less_imp_le in \<open>auto simp: after_losses_def\<close>)
    have "after_losses (ls @ [(startFrameNumber (dropped ?d), F)]) (dropped ?d)"
      by (rule range_added [OF d]) (use ok(1) a(1) b lt in \<open>auto simp: after_losses_def\<close>)
    then have "after_losses (ls @ [(startFrameNumber d, F)]) (dropped ?d)" by simp
    then have "after_losses (ls @ [(startFrameNumber d, F)]) ((dropped d)\<lparr>nextFrameNumber := F + 1\<rparr>)"
      by (rule after_losses_cong) (simp_all add: needs_idr_def)
    then show ?thesis using r False a(1) lt by (simp add: settled_def)
  qed
qed

lemma dp_step_after:
  assumes run: "dp_step op d = Some (d', ev)" and num: "op_env_ok direct op" "op_numbers op d" and ok: "after_losses ls d" "settled d"
  shows "after_losses (ls @ loss_ranges ev) d' \<and> settled d'"
proof -
  have quiet: ?thesis if "loss_ranges ev = []" "startFrameNumber d' = startFrameNumber d" "nextFrameNumber d' = nextFrameNumber d"
    "decodingFrame d' = decodingFrame d" "consecutiveFrameDrops d' = consecutiveFrameDrops d"
    "waitingForRefInvalFrame d' = waitingForRefInvalFrame d" "waitingForIdrFrame d \<Longrightarrow> waitingForIdrFrame d'"
    using that after_losses_cong [OF ok(1), of d'] settled_cong [OF ok(2), of d'] by simp
  have take: ?thesis if "take_unit e op' d = Some (u, d')" "ev = []" for e op' u
  proof -
    have "d' = d\<lparr>decodeUnitQueue := snd (bq_step op' (decodeUnitQueue d))\<rparr>"
      using that(1) by (auto simp: take_unit_def Let_def bind_eq_Some_conv split: option.splits)
    then show ?thesis using that(2) by (intro quiet) simp_all
  qed
  show ?thesis
  proof (cases op)
    case (Packet e q)
    then obtain v m len k where "read_nv (ve_packet q) = Some v" "processRtpPayload e v m len (receiveTimeMs q) (presentationTimeMs q) d = Some (k, d', ev)"
      using run by (auto simp: queueRtpPacket_def Let_def bind_eq_Some_conv)
    then show ?thesis using payload_after [OF _ ok] num Packet by (simp add: op_numbers_def op_env_ok_def)
  next
    case (Lost f)
    then show ?thesis using lost_after [OF _ ok] run num by (simp add: op_numbers_def)
  next
    case Refresh
    then show ?thesis using run by (intro quiet) (auto simp: requestDecoderRefresh_eq refreshed_def)
  next
    case (Complete u status)
    then show ?thesis using run
      by (intro quiet) (auto simp: LiCompleteVideoFrame_eq refreshed_def split: if_splits)
  next
    case (Wait_frame e)
    then show ?thesis using run take by (auto simp: LiWaitForNextVideoFrame_def)
  next
    case (Poll_frame e)
    then show ?thesis using run take by (auto simp: LiPollNextVideoFrame_def)
  next
    case (Peek_frame e)
    then show ?thesis using run take by (auto simp: LiPeekNextVideoFrame_def)
  next
    case Wake_decoder
    then show ?thesis using run by (intro quiet) (auto simp: LiWakeWaitForVideoFrame_def)
  next
    case Stop_depacketizer
    then show ?thesis using run by (intro quiet) (auto simp: stopVideoDepacketizer_def)
  qed
qed

lemma dp_run_after:
  assumes "dp_run ops d = Some (d', ev)" "\<forall>op \<in> set ops. op_env_ok direct op" "numbers_intact ops d" "after_losses ls d" "settled d"
  shows "after_losses (ls @ loss_ranges ev) d' \<and> settled d'"
  using assms
proof (induction ops arbitrary: d ev ls)
  case (Cons op ops)
  obtain d1 ev1 ev2 where r: "dp_step op d = Some (d1, ev1)" "dp_run ops d1 = Some (d', ev2)" "ev = ev1 @ ev2"
    using Cons.prems(1) by (auto simp: bind_eq_Some_conv)
  have n: "op_env_ok direct op" "op_numbers op d" "\<forall>op \<in> set ops. op_env_ok direct op" "numbers_intact ops d1"
    using Cons.prems(2,3) r(1) by simp_all
  have s: "after_losses (ls @ loss_ranges ev1) d1 \<and> settled d1" by (rule dp_step_after [OF r(1) n(1,2) Cons.prems(4,5)])
  show ?case using Cons.IH [OF r(2) n(3,4) conjunct1 [OF s] conjunct2 [OF s]] r(3) by simp
qed simp

text \<open>What the control stream relies on.\<close>

lemma reported_losses_ordered:
  assumes "dp_run ops (initializeVideoDepacketizer rfi d0) = Some (d, ev)"
    and "\<forall>op \<in> set ops. op_env_ok direct op" "numbers_intact ops (initializeVideoDepacketizer rfi d0)"
  shows "ranges_in_order (loss_ranges ev)"
proof -
  have "after_losses [] (initializeVideoDepacketizer rfi d0) \<and> settled (initializeVideoDepacketizer rfi d0)"
    by (simp add: after_losses_def settled_def ranges_in_order_def initializeVideoDepacketizer_def)
  then have "after_losses ([] @ loss_ranges ev) d"
    using dp_run_after [OF assms] by blast
  then show ?thesis by (simp add: after_losses_def)
qed

end
