(* ===== verification/NalParsing.thy ===== *)
theory NalParsing
  imports VideoDepacketizer
begin

text \<open>
  The byte stream parser of the depacketizer against a specification: a start sequence is
  found exactly where there is one, and the slow path turns a payload made of NAL units into one
  buffer for every parameter set and one for all picture data, leaving out delimiters and SEI.
\<close>

section \<open>Start sequences\<close>

text \<open>The length of the start sequence at position \<open>i\<close> of data that ends at \<open>n\<close>; a byte has to follow it.\<close>

definition start_len :: "u8 list \<Rightarrow> nat \<Rightarrow> nat \<Rightarrow> nat" where
  "start_len m n i =
     (if i + 3 < n \<and> m ! i = 0 \<and> m ! (i + 1) = 0 \<and> m ! (i + 2) = 1 then 3
      else if i + 4 < n \<and> m ! i = 0 \<and> m ! (i + 1) = 0 \<and> m ! (i + 2) = 0 \<and> m ! (i + 3) = 1 then 4
      else 0)"

lemma start_len_bounds: "start_len m n i \<noteq> 0 \<Longrightarrow> 3 \<le> start_len m n i \<and> i + start_len m n i < n"
  by (auto simp: start_len_def split: if_splits)

lemma start_len_end [simp]: "start_len m n n = 0"
  by (simp add: start_len_def)

lemma getAnnexB_eq:
  assumes "parsed_format fmt" "off + len \<le> length m"
  shows "getAnnexBStartSequence fmt m \<lparr>bd_offset = off, bd_length = len\<rparr> = Some (start_len m (off + len) off)"
proof -
  have rd: "nth_opt m (off + j) = Some (m ! (off + j))" if "j < len" for j using assms(2) that by simp
  show ?thesis
  proof (cases "len \<le> 3")
    case True
    then show ?thesis using assms(1) by (simp add: getAnnexBStartSequence_def start_len_def)
  next
    case False
    then show ?thesis using assms(1) rd [of 0] rd [of 1] rd [of 2] rd [of 3]
      by (auto simp: getAnnexBStartSequence_def start_len_def)
  qed
qed

text \<open>The search stops at the first start sequence, or at the end.\<close>

definition next_start :: "u8 list \<Rightarrow> nat \<Rightarrow> nat \<Rightarrow> nat \<Rightarrow> bool" where
  "next_start m n off off' \<longleftrightarrow> off \<le> off' \<and> off' \<le> n \<and> (\<forall>i \<in> {off..<off'}. start_len m n i = 0)
     \<and> (off' < n \<longrightarrow> start_len m n off' \<noteq> 0)"

lemma next_start_unique:
  assumes "next_start m n off a" "next_start m n off b"
  shows "a = b"
proof -
  have "\<not> a < b" if "next_start m n off a" "next_start m n off b" for a b
    using that by (fastforce simp: next_start_def)
  then show ?thesis using assms by (meson linorder_neqE_nat)
qed

lemma seek_start_exact:
  assumes "parsed_format fmt" "off + len \<le> length m"
  shows "\<exists>off'. seek_start fmt m off len = Some \<lparr>bd_offset = off', bd_length = off + len - off'\<rparr>
    \<and> next_start m (off + len) off off'"
  using assms(2)
proof (induction len arbitrary: off)
  case 0
  then show ?case using getAnnexB_eq [OF assms(1), of off 0 m] by (simp add: next_start_def)
next
  case (Suc len)
  note g = getAnnexB_eq [OF assms(1) Suc.prems]
  show ?case
  proof (cases "start_len m (off + Suc len) off = 0")
    case True
    obtain off' where o: "seek_start fmt m (Suc off) len = Some \<lparr>bd_offset = off', bd_length = Suc off + len - off'\<rparr>"
      "next_start m (Suc off + len) (Suc off) off'" using Suc.IH [of "Suc off"] Suc.prems by auto
    have "{off..<off'} = insert off {Suc off..<off'}" using o(2) by (auto simp: next_start_def)
    then have "next_start m (off + Suc len) off off'" using o(2) True by (auto simp: next_start_def)
    then show ?thesis using o(1) g True by (intro exI [of _ off']) simp
  next
    case False
    then show ?thesis using g by (intro exI [of _ off]) (simp add: next_start_def)
  qed
qed

lemma skipToNextNalOrEnd_exact:
  assumes "parsed_format fmt" "off + len \<le> length m"
  shows "\<exists>off'. skipToNextNalOrEnd fmt m \<lparr>bd_offset = off, bd_length = len\<rparr>
      = Some \<lparr>bd_offset = off', bd_length = off + len - off'\<rparr>
    \<and> next_start m (off + len) (off + start_len m (off + len) off) off'"
proof -
  let ?s = "start_len m (off + len) off"
  have s: "?s \<le> len" using start_len_bounds [of m "off + len" off] by (cases "?s = 0") auto
  then have "off + ?s + (len - ?s) \<le> length m" using assms(2) by simp
  then show ?thesis using seek_start_exact [OF assms(1), of "off + ?s" "len - ?s" m] getAnnexB_eq [OF assms] s
    by (auto simp: skipToNextNalOrEnd_def bd_advance_def)
qed

text \<open>
  Property C30.  The NAL search is exact: on any memory that holds the described bytes \<open>skipToNextNalOrEnd\<close> ends, reads
  only the described bytes, and stops at the first position after the start sequence it may have begun on
  where another one begins, or else at the end.
\<close>

theorem nal_search_exact:
  assumes "parsed_format fmt" "bd_offset b + bd_length b \<le> length m"
  shows "\<exists>off'. skipToNextNalOrEnd fmt m b = Some \<lparr>bd_offset = off', bd_length = bd_offset b + bd_length b - off'\<rparr>
    \<and> bd_offset b + start_len m (bd_offset b + bd_length b) (bd_offset b) \<le> off' \<and> off' \<le> bd_offset b + bd_length b
    \<and> (\<forall>i \<in> {bd_offset b + start_len m (bd_offset b + bd_length b) (bd_offset b)..<off'}.
         start_len m (bd_offset b + bd_length b) i = 0)
    \<and> (off' < bd_offset b + bd_length b \<longrightarrow> start_len m (bd_offset b + bd_length b) off' \<noteq> 0)"
  using skipToNextNalOrEnd_exact [OF assms] by (cases b) (simp add: next_start_def)

theorem nal_search_exact_witness:
  "\<exists>off'. skipToNextNalOrEnd 1 [0, 0, 1, 0x67, 9, 0, 0, 0, 1, 0x65] \<lparr>bd_offset = 0, bd_length = 10\<rparr>
    = Some \<lparr>bd_offset = off', bd_length = 10 - off'\<rparr>"
  using nal_search_exact [of 1 "\<lparr>bd_offset = 0, bd_length = 10\<rparr>" "[0, 0, 1, 0x67, 9, 0, 0, 0, 1, 0x65]"]
  by (auto simp: VIDEO_FORMAT_MASK_H264_def VIDEO_FORMAT_MASK_H265_def)

section \<open>Payloads made of NAL units\<close>

text \<open>A NAL unit at \<open>p\<close>: a start sequence, a header byte, and no further start sequence.\<close>

definition nal_at :: "u8 list \<Rightarrow> nat \<Rightarrow> nat \<Rightarrow> u8 list \<Rightarrow> bool" where
  "nal_at m n p w \<longleftrightarrow> start_len m n p \<noteq> 0 \<and> start_len m n p < length w \<and> take (length w) (drop p m) = w
     \<and> (\<forall>i \<in> set [p + start_len m n p..<p + length w]. start_len m n i = 0)"

lemma nal_atD:
  assumes "nal_at m n p w"
  shows "start_len m n p \<noteq> 0" "start_len m n p < length w" "take (length w) (drop p m) = w"
  using assms unfolding nal_at_def by blast+

text \<open>The NAL units \<open>ws\<close> follow one another from \<open>p\<close> to \<open>n\<close>.\<close>

fun nal_chain :: "u8 list \<Rightarrow> nat \<Rightarrow> nat \<Rightarrow> u8 list list \<Rightarrow> bool" where
  "nal_chain m n p [] \<longleftrightarrow> p = n"
| "nal_chain m n p (w # ws) \<longleftrightarrow> nal_at m n p w \<and> nal_chain m n (p + length w) ws"

lemma nal_chain_end: "nal_chain m n p ws \<Longrightarrow> p + length (concat ws) = n"
proof (induction ws arbitrary: p)
  case (Cons w ws)
  then have "p + length w + length (concat ws) = n" by (metis nal_chain.simps(2))
  then show ?case by simp
qed simp

lemma nal_chain_next:
  assumes "nal_chain m n p (w # ws)"
  shows "next_start m n (p + start_len m n p) (p + length w)"
proof -
  have w: "nal_at m n p w" and ws: "nal_chain m n (p + length w) ws" using assms by simp_all
  have "p + length w \<le> n" using nal_chain_end [OF ws] by linarith
  moreover have "start_len m n (p + length w) \<noteq> 0" if "p + length w < n"
  proof (cases ws)
    case Nil
    then show ?thesis using ws that by simp
  next
    case (Cons v vs)
    then show ?thesis using ws nal_atD(1) nal_chain.simps(2) by metis
  qed
  moreover have "p + start_len m n p \<le> p + length w" using nal_atD(2) [OF w] by simp
  moreover have "\<forall>i \<in> {p + start_len m n p..<p + length w}. start_len m n i = 0" using w unfolding nal_at_def set_upt by blast
  ultimately show ?thesis unfolding next_start_def by blast
qed

lemma nal_chain_concat:
  assumes "nal_chain m n p ws" "n \<le> length m"
  shows "take (n - p) (drop p m) = concat ws"
  using assms(1)
proof (induction ws arbitrary: p)
  case (Cons w ws)
  have e: "p + length w + length (concat ws) = n" using nal_chain_end [OF Cons.prems] by simp
  have k: "n - p = length w + (n - (p + length w))" using e by linarith
  have "take (n - p) (drop p m) = take (length w) (drop p m) @ take (n - (p + length w)) (drop (p + length w) m)"
    by (subst k) (simp only: take_add drop_drop add.commute)
  also have "take (n - (p + length w)) (drop (p + length w) m) = concat ws"
    by (rule Cons.IH) (use Cons.prems in simp)
  also have "take (length w) (drop p m) = w" using Cons.prems nal_atD(3) nal_chain.simps(2) by metis
  finally show ?case by simp
qed simp

lemma skip_in_chain:
  assumes "parsed_format fmt" "n \<le> length m" "nal_chain m n p (w # ws)"
  shows "skipToNextNalOrEnd fmt m \<lparr>bd_offset = p, bd_length = n - p\<rparr>
    = Some \<lparr>bd_offset = p + length w, bd_length = n - (p + length w)\<rparr>"
proof -
  have pn: "p \<le> n" using nal_chain_end [OF assms(3)] by simp
  then obtain off' where o: "skipToNextNalOrEnd fmt m \<lparr>bd_offset = p, bd_length = n - p\<rparr>
      = Some \<lparr>bd_offset = off', bd_length = n - off'\<rparr>" "next_start m n (p + start_len m n p) off'"
    using skipToNextNalOrEnd_exact [OF assms(1), of p "n - p" m] assms(2) by auto
  then show ?thesis using next_start_unique [OF o(2) nal_chain_next [OF assms(3)]] by simp
qed

text \<open>The header byte of a NAL unit and the tests on it.\<close>

definition nal_header :: "u8 list \<Rightarrow> u8" where
  "nal_header w = w ! start_len w (length w) 0"

definition nal_kind :: "(u8 \<Rightarrow> bool) \<Rightarrow> (u8 \<Rightarrow> bool) \<Rightarrow> u32 \<Rightarrow> u8 list \<Rightarrow> bool" where
  "nal_kind h264 hevc fmt w \<longleftrightarrow>
     (if fmt AND VIDEO_FORMAT_MASK_H264 \<noteq> 0 then h264 (H264_NAL_TYPE (nal_header w)) else hevc (HEVC_NAL_TYPE (nal_header w)))"

lemma nth_in_chunk:
  assumes "take (length w) (drop p m) = w" "i < length w"
  shows "m ! (p + i) = w ! i" "p + i < length m"
proof -
  have len: "length (take (length w) (drop p m)) = length w" using assms(1) by simp
  then show lt: "p + i < length m" using assms(2) by simp
  have "w ! i = take (length w) (drop p m) ! i" using assms(1) by simp
  also have "\<dots> = m ! (p + i)" using assms(2) lt by simp
  finally show "m ! (p + i) = w ! i" ..
qed

lemma start_len_chunk:
  assumes "take (length w) (drop p m) = w" "start_len m n p < length w" "start_len m n p \<noteq> 0"
  shows "start_len w (length w) 0 = start_len m n p"
proof -
  have c: "m ! (p + i) = w ! i" if "i < length w" for i by (rule nth_in_chunk(1) [OF assms(1) that])
  have "3 < length w" using assms(2,3) start_len_bounds [of m n p] by linarith
  then have "0 < length w" by linarith
  then have b: "m ! p = w ! 0" "m ! (p + 1) = w ! 1" "m ! (p + 2) = w ! 2" "m ! (p + 3) = w ! 3"
    using c [of 0] c [of 1] c [of 2] c [of 3] \<open>3 < length w\<close> by simp_all
  show ?thesis using assms(2,3) \<open>3 < length w\<close> unfolding start_len_def b by (auto simp: numeral_2_eq_2 split: if_splits)
qed

text \<open>A fragment that starts with a NAL unit starts with its start sequence and header.\<close>

lemma start_len_append:
  assumes "start_len w (length w) 0 \<noteq> 0"
  shows "start_len (w @ v) (length (w @ v)) 0 = start_len w (length w) 0"
proof -
  have "0 < length w" "3 < length w" using start_len_bounds [OF assms] by linarith+
  then have b: "(w @ v) ! 0 = w ! 0" "(w @ v) ! (0 + 1) = w ! (0 + 1)" "(w @ v) ! (0 + 2) = w ! (0 + 2)" "(w @ v) ! (0 + 3) = w ! (0 + 3)"
    by (simp_all add: nth_append)
  show ?thesis using assms unfolding start_len_def b by (auto simp: numeral_2_eq_2 split: if_splits)
qed

lemma nal_test_chain:
  assumes "parsed_format fmt" "n \<le> length m" "nal_chain m n p (w # ws)"
  shows "nal_test h264 hevc fmt m \<lparr>bd_offset = p, bd_length = n - p\<rparr> = Some (nal_kind h264 hevc fmt w)"
proof -
  have c: "start_len m n p \<noteq> 0" "start_len m n p < length w" "take (length w) (drop p m) = w"
    using assms(3) nal_atD [of m n p w] by simp_all
  have pn: "p \<le> n" using nal_chain_end [OF assms(3)] by simp
  have g: "getAnnexBStartSequence fmt m \<lparr>bd_offset = p, bd_length = n - p\<rparr> = Some (start_len m n p)"
    using getAnnexB_eq [OF assms(1), of p "n - p" m] pn assms(2) by simp
  have t: "nth_opt m (p + start_len m n p) = Some (nal_header w)"
    using nth_in_chunk [OF c(3,2)] start_len_chunk [OF c(3,2,1)] by (simp add: nal_header_def)
  have f: "fmt AND VIDEO_FORMAT_MASK_H264 \<noteq> 0 \<or> fmt AND VIDEO_FORMAT_MASK_H265 \<noteq> 0"
    using assms(1) by (metis bit.conj_disj_distrib or.right_neutral)
  show ?thesis using g t c(1) f by (auto simp: nal_test_def nal_kind_def)
qed

section \<open>The slow path\<close>

definition is_aud_or_sei :: "u32 \<Rightarrow> u8 list \<Rightarrow> bool" where
  "is_aud_or_sei fmt w \<longleftrightarrow> nal_kind (\<lambda>t. t = H264_NAL_TYPE_AUD) (\<lambda>t. t = HEVC_NAL_TYPE_AUD) fmt w
     \<or> nal_kind (\<lambda>t. t = H264_NAL_TYPE_SEI) (\<lambda>t. t = HEVC_NAL_TYPE_SEI) fmt w"

definition is_idr_slice :: "u32 \<Rightarrow> u8 list \<Rightarrow> bool" where
  "is_idr_slice fmt w \<longleftrightarrow> nal_kind (\<lambda>t. t = 5) (\<lambda>t. t \<in> {16, 17, 18, 19, 20, 21}) fmt w"

text \<open>What the payload becomes; a payload must not end with a delimiter or SEI.\<close>

fun slow_fragments :: "u32 \<Rightarrow> u8 list list \<Rightarrow> u8 list list option" where
  "slow_fragments fmt [] = Some []"
| "slow_fragments fmt (w # ws) =
     (if is_aud_or_sei fmt w then (if ws = [] then None else slow_fragments fmt ws)
      else if is_idr_slice fmt w then Some [concat (w # ws)]
      else map_option ((#) w) (slow_fragments fmt ws))"

lemma skip_prefix_chain:
  assumes "parsed_format fmt" "n \<le> length m" "nal_chain m n p ws" "ws \<noteq> []" "slow_fragments fmt ws = Some fs"
  shows "\<exists>q w vs. skip_prefix True fmt m \<lparr>bd_offset = p, bd_length = n - p\<rparr> = Some \<lparr>bd_offset = q, bd_length = n - q\<rparr>
    \<and> nal_chain m n q (w # vs) \<and> \<not> is_aud_or_sei fmt w \<and> slow_fragments fmt (w # vs) = Some fs \<and> length (w # vs) \<le> length ws"
  using assms(3-5)
proof (induction ws arbitrary: p)
  case (Cons w ws)
  note t = nal_test_chain [OF assms(1,2) Cons.prems(1)]
  show ?case
  proof (cases "is_aud_or_sei fmt w")
    case True
    then have ws: "ws \<noteq> []" "slow_fragments fmt ws = Some fs" using Cons.prems(3) by (auto split: if_splits)
    have ch: "nal_chain m n (p + length w) ws" using Cons.prems(1) by simp
    have "start_len m n (p + length w) \<noteq> 0" using ch ws(1) nal_atD(1) nal_chain.simps(2) by (metis list.exhaust)
    then have "0 < n - (p + length w)" using start_len_bounds [of m n "p + length w"] by linarith
    then have "skipToNextNal fmt m \<lparr>bd_offset = p, bd_length = n - p\<rparr>
        = Some \<lparr>bd_offset = p + length w, bd_length = n - (p + length w)\<rparr>"
      using skip_in_chain [OF assms(1,2) Cons.prems(1)] by (simp add: skipToNextNal_def)
    then have "skip_prefix True fmt m \<lparr>bd_offset = p, bd_length = n - p\<rparr>
        = skip_prefix True fmt m \<lparr>bd_offset = p + length w, bd_length = n - (p + length w)\<rparr>"
      using True t by (subst skip_prefix.simps) (auto simp: isAccessUnitDelimiter_def isSeiNal_def is_aud_or_sei_def)
    moreover obtain q v vs where "skip_prefix True fmt m \<lparr>bd_offset = p + length w, bd_length = n - (p + length w)\<rparr>
        = Some \<lparr>bd_offset = q, bd_length = n - q\<rparr>" "nal_chain m n q (v # vs)" "\<not> is_aud_or_sei fmt v"
      "slow_fragments fmt (v # vs) = Some fs" "length (v # vs) \<le> length ws" using Cons.IH [OF ch ws] by blast
    moreover from this(5) have "length (v # vs) \<le> length (w # ws)" by simp
    ultimately show ?thesis by (intro exI [of _ q] exI [of _ v] exI [of _ vs] conjI) simp_all
  next
    case False
    then have "skip_prefix True fmt m \<lparr>bd_offset = p, bd_length = n - p\<rparr> = Some \<lparr>bd_offset = p, bd_length = n - p\<rparr>"
      using t by (subst skip_prefix.simps) (auto simp: isAccessUnitDelimiter_def isSeiNal_def is_aud_or_sei_def)
    then show ?thesis using Cons.prems False by blast
  qed
qed simp

text \<open>Skipping to the end always ends there.\<close>

lemma skip_to_end_total:
  assumes "parsed_format fmt" "p + k \<le> length m"
  shows "skip_to_end fmt m \<lparr>bd_offset = p, bd_length = k\<rparr> = Some \<lparr>bd_offset = p + k, bd_length = 0\<rparr>"
  using assms(2)
proof (induction k arbitrary: p rule: less_induct)
  case (less k)
  show ?case
  proof (cases "k = 0")
    case True
    then show ?thesis by (subst skip_to_end.simps) simp
  next
    case False
    obtain q where q: "skipToNextNalOrEnd fmt m \<lparr>bd_offset = p, bd_length = k\<rparr> = Some \<lparr>bd_offset = q, bd_length = p + k - q\<rparr>"
      "next_start m (p + k) (p + start_len m (p + k) p) q" using skipToNextNalOrEnd_exact [OF assms(1) less.prems] by blast
    have "p < q"
    proof (cases "start_len m (p + k) p = 0")
      case True
      then show ?thesis using q(2) False by (cases "p = q") (auto simp: next_start_def)
    next
      case False
      then have "0 < start_len m (p + k) p" by simp
      moreover have "p + start_len m (p + k) p \<le> q" using q(2) unfolding next_start_def by blast
      ultimately show ?thesis by linarith
    qed
    moreover have "q \<le> p + k" using q(2) unfolding next_start_def by blast
    ultimately have "skip_to_end fmt m \<lparr>bd_offset = q, bd_length = p + k - q\<rparr> = Some \<lparr>bd_offset = q + (p + k - q), bd_length = 0\<rparr>"
      using less.IH [of "p + k - q" q] less.prems by simp
    then show ?thesis using q(1) False \<open>q \<le> p + k\<close> by (subst skip_to_end.simps) simp
  qed
qed

section \<open>The buffers of a payload\<close>

text \<open>The type a buffer gets: that of the NAL unit it starts with.\<close>

definition fragment_type :: "u32 \<Rightarrow> u8 list \<Rightarrow> int" where
  "fragment_type fmt w =
     (if nal_kind (\<lambda>t. t = H264_NAL_TYPE_SPS) (\<lambda>t. t = HEVC_NAL_TYPE_SPS) fmt w then BUFFER_TYPE_SPS
      else if nal_kind (\<lambda>t. t = H264_NAL_TYPE_PPS) (\<lambda>t. t = HEVC_NAL_TYPE_PPS) fmt w then BUFFER_TYPE_PPS
      else if nal_kind (\<lambda>t. False) (\<lambda>t. t = HEVC_NAL_TYPE_VPS) fmt w then BUFFER_TYPE_VPS
      else BUFFER_TYPE_PICDATA)"

lemma getBufferFlags_eq:
  assumes "parsed_format fmt" "start_len w (length w) 0 \<noteq> 0"
  shows "getBufferFlags fmt w = Some (fragment_type fmt w)"
proof -
  have g: "getAnnexBStartSequence fmt w \<lparr>bd_offset = 0, bd_length = length w\<rparr> = Some (start_len w (length w) 0)"
    using getAnnexB_eq [OF assms(1), of 0 "length w" w] by simp
  have t: "nth_opt w (start_len w (length w) 0) = Some (nal_header w)"
    using start_len_bounds [OF assms(2)] by (simp add: nal_header_def)
  have f: "fmt AND VIDEO_FORMAT_MASK_H264 \<noteq> 0 \<or> fmt AND VIDEO_FORMAT_MASK_H265 \<noteq> 0"
    using assms(1) by (metis bit.conj_disj_distrib or.right_neutral)
  show ?thesis
  proof (cases "fmt AND VIDEO_FORMAT_MASK_H264 \<noteq> 0")
    case True
    then show ?thesis using assms g t by (simp add: getBufferFlags_def fragment_type_def nal_kind_def)
  next
    case False
    then show ?thesis using assms g t f by (simp add: getBufferFlags_def fragment_type_def nal_kind_def)
  qed
qed

definition buffer_of :: "u32 \<Rightarrow> u8 list \<Rightarrow> lentry" where
  "buffer_of fmt w = \<lparr>le_data = w, le_bufferType = fragment_type fmt w\<rparr>"

definition with_buffers :: "u32 \<Rightarrow> u8 list list \<Rightarrow> depacketizer \<Rightarrow> depacketizer" where
  "with_buffers fmt fs d = d\<lparr>nalChain := nalChain d @ map (buffer_of fmt) fs,
     nalChainDataLength := nalChainDataLength d + length (concat fs)\<rparr>"

lemma queue_chunk:
  assumes "parsed_format (NegotiatedVideoFormat e)" "dp_malloc e = (\<lambda>_. True)" "start_len w (length w) 0 \<noteq> 0"
    and "p + length w \<le> length m" "take (length w) (drop p m) = w"
  shows "queueFragment e ex m p (length w) d = Some (False, with_buffers (NegotiatedVideoFormat e) [w] d)"
  using assms getBufferFlags_eq [OF assms(1,3)]
  by (simp add: queueFragment_def mem_read_def with_buffers_def buffer_of_def)

lemma with_buffers_Cons: "with_buffers fmt fs (with_buffers fmt [w] d) = with_buffers fmt (w # fs) d"
  by (simp add: with_buffers_def)

lemma with_buffers_fields [simp]:
  "nalChain (with_buffers fmt fs d) = nalChain d @ map (buffer_of fmt) fs"
  "idr_slice_seen (with_buffers fmt fs d) = with_buffers fmt fs (idr_slice_seen d)"
  by (simp_all add: with_buffers_def idr_slice_seen_def)

lemma slow_round_chain:
  assumes fmt: "parsed_format (NegotiatedVideoFormat e)" and mem: "dp_malloc e = (\<lambda>_. True)" and n: "n \<le> length m"
    and ch: "nal_chain m n p ws" "ws \<noteq> []" "slow_fragments (NegotiatedVideoFormat e) ws = Some fs"
  shows "\<exists>q w vs. nal_chain m n q (w # vs) \<and> length (w # vs) \<le> length ws \<and> \<not> is_aud_or_sei (NegotiatedVideoFormat e) w
    \<and> slow_fragments (NegotiatedVideoFormat e) (w # vs) = Some fs
    \<and> slow_round e m (\<lparr>bd_offset = p, bd_length = n - p\<rparr>, ex, d)
      = (if is_idr_slice (NegotiatedVideoFormat e) w
         then Some (\<lparr>bd_offset = n, bd_length = 0\<rparr>, False, idr_slice_seen (with_buffers (NegotiatedVideoFormat e) fs d))
         else Some (\<lparr>bd_offset = q + length w, bd_length = n - (q + length w)\<rparr>, ex, with_buffers (NegotiatedVideoFormat e) [w] d))"
proof -
  let ?fmt = "NegotiatedVideoFormat e"
  obtain q w vs where q: "skip_prefix True ?fmt m \<lparr>bd_offset = p, bd_length = n - p\<rparr> = Some \<lparr>bd_offset = q, bd_length = n - q\<rparr>"
    "nal_chain m n q (w # vs)" "\<not> is_aud_or_sei ?fmt w" "slow_fragments ?fmt (w # vs) = Some fs" "length (w # vs) \<le> length ws"
    using skip_prefix_chain [OF fmt n ch] by blast
  have pn: "p \<le> n" using nal_chain_end [OF ch(1)] by linarith
  have "start_len m n p \<noteq> 0" using ch(1,2) nal_atD(1) nal_chain.simps(2) by (metis list.exhaust)
  then have g: "getAnnexBStartSequence ?fmt m \<lparr>bd_offset = p, bd_length = n - p\<rparr> = Some (start_len m n p)" "start_len m n p \<noteq> 0"
    using getAnnexB_eq [OF fmt, of p "n - p" m] pn n by simp_all
  have pic: "isSeqReferenceFrameStart ?fmt m \<lparr>bd_offset = q, bd_length = n - q\<rparr> = Some (is_idr_slice ?fmt w)"
    using nal_test_chain [OF fmt n q(2)] by (simp add: isSeqReferenceFrameStart_def is_idr_slice_def)
  have sk: "skipToNextNalOrEnd ?fmt m \<lparr>bd_offset = q, bd_length = n - q\<rparr>
      = Some \<lparr>bd_offset = q + length w, bd_length = n - (q + length w)\<rparr>"
    by (rule skip_in_chain [OF fmt n q(2)])
  have w: "nal_at m n q w" "nal_chain m n (q + length w) vs" using q(2) by simp_all
  note wd = nal_atD [OF w(1)]
  have sw: "start_len w (length w) 0 \<noteq> 0" using start_len_chunk [OF wd(3,2,1)] wd(1) by simp
  have e: "q + length w + length (concat vs) = n" by (rule nal_chain_end [OF w(2)])
  show ?thesis
  proof (cases "is_idr_slice ?fmt w")
    case True
    let ?c = "concat (w # vs)"
    have fs: "fs = [?c]" using q(3,4) True by simp
    have "q + length w + (n - (q + length w)) = n" using e by linarith
    then have te: "skip_to_end ?fmt m \<lparr>bd_offset = q + length w, bd_length = n - (q + length w)\<rparr> = Some \<lparr>bd_offset = n, bd_length = 0\<rparr>"
      using skip_to_end_total [OF fmt, of "q + length w" "n - (q + length w)" m] n by simp
    have len: "n - q = length ?c" using e by simp
    have "take (length ?c) (drop q m) = ?c" using nal_chain_concat [OF q(2) n] unfolding len .
    moreover have "q + length ?c \<le> length m" using e n by simp
    moreover have "start_len ?c (length ?c) 0 \<noteq> 0" using start_len_append [OF sw, of "concat vs"] sw by simp
    ultimately have qf: "queueFragment e ex m q (n - q) (idr_slice_seen d)
        = Some (False, with_buffers ?fmt [?c] (idr_slice_seen d))" for ex
      unfolding len by (intro queue_chunk [OF fmt mem]) simp_all
    have "slow_round e m (\<lparr>bd_offset = p, bd_length = n - p\<rparr>, ex, d)
        = Some (\<lparr>bd_offset = n, bd_length = 0\<rparr>, False, idr_slice_seen (with_buffers ?fmt fs d))"
      using g q(1) pic sk te True qf fs by (simp add: slow_round_def Let_def)
    then show ?thesis using q(2-5) True
      by (intro exI [of _ q] exI [of _ w] exI [of _ vs]) (simp del: slow_fragments.simps)
  next
    case False
    have "q + length w \<le> length m" using e n by linarith
    then have "queueFragment e False m q (length w) d = Some (False, with_buffers ?fmt [w] d)"
      by (rule queue_chunk [OF fmt mem sw _ wd(3)])
    then have "slow_round e m (\<lparr>bd_offset = p, bd_length = n - p\<rparr>, ex, d)
        = Some (\<lparr>bd_offset = q + length w, bd_length = n - (q + length w)\<rparr>, ex, with_buffers ?fmt [w] d)"
      using g q(1) pic sk False by (simp add: slow_round_def Let_def)
    then show ?thesis using q(2-5) False
      by (intro exI [of _ q] exI [of _ w] exI [of _ vs]) (simp del: slow_fragments.simps)
  qed
qed

lemma slow_loop_chain:
  assumes fmt: "parsed_format (NegotiatedVideoFormat e)" and mem: "dp_malloc e = (\<lambda>_. True)" and n: "n \<le> length m"
    and "nal_chain m n p ws" "slow_fragments (NegotiatedVideoFormat e) ws = Some fs"
  shows "\<exists>k d'. slow_loop e m (\<lparr>bd_offset = p, bd_length = n - p\<rparr>, ex, d) = Some (\<lparr>bd_offset = n, bd_length = 0\<rparr>, k, d')
    \<and> d' \<in> {with_buffers (NegotiatedVideoFormat e) fs d, idr_slice_seen (with_buffers (NegotiatedVideoFormat e) fs d)}"
  using assms(4,5)
proof (induction "length ws" arbitrary: ws p fs ex d rule: less_induct)
  case less
  let ?fmt = "NegotiatedVideoFormat e"
  show ?case
  proof (cases "ws = []")
    case True
    then show ?thesis using less.prems by (subst slow_loop.simps) (simp add: with_buffers_def)
  next
    case False
    have "start_len m n p \<noteq> 0" using less.prems(1) False nal_atD(1) nal_chain.simps(2) by (metis list.exhaust)
    then have pos: "0 < n - p" using start_len_bounds [of m n p] by linarith
    obtain q w vs where r: "nal_chain m n q (w # vs)" "length (w # vs) \<le> length ws" "\<not> is_aud_or_sei ?fmt w"
      "slow_fragments ?fmt (w # vs) = Some fs"
      "slow_round e m (\<lparr>bd_offset = p, bd_length = n - p\<rparr>, ex, d)
        = (if is_idr_slice ?fmt w
           then Some (\<lparr>bd_offset = n, bd_length = 0\<rparr>, False, idr_slice_seen (with_buffers ?fmt fs d))
           else Some (\<lparr>bd_offset = q + length w, bd_length = n - (q + length w)\<rparr>, ex, with_buffers ?fmt [w] d))"
      using slow_round_chain [OF fmt mem n less.prems(1) False less.prems(2), of ex d]
      by (elim exE conjE) (rule that)
    show ?thesis
    proof (cases "is_idr_slice ?fmt w")
      case True
      have "slow_loop e m (\<lparr>bd_offset = n, bd_length = 0\<rparr>, False, idr_slice_seen (with_buffers ?fmt fs d))
          = Some (\<lparr>bd_offset = n, bd_length = 0\<rparr>, False, idr_slice_seen (with_buffers ?fmt fs d))"
        by (subst slow_loop.simps) simp
      then have "slow_loop e m (\<lparr>bd_offset = p, bd_length = n - p\<rparr>, ex, d)
          = Some (\<lparr>bd_offset = n, bd_length = 0\<rparr>, False, idr_slice_seen (with_buffers ?fmt fs d))"
        using r(5) pos True by (subst slow_loop.simps) simp
      then show ?thesis by blast
    next
      case no: False
      then obtain gs where gs: "slow_fragments ?fmt vs = Some gs" "fs = w # gs" using r(3,4) by auto
      have ch: "nal_chain m n (q + length w) vs" "length vs < length ws" using r(1,2) by simp_all
      obtain k d' where d': "slow_loop e m (\<lparr>bd_offset = q + length w, bd_length = n - (q + length w)\<rparr>, ex, with_buffers ?fmt [w] d)
          = Some (\<lparr>bd_offset = n, bd_length = 0\<rparr>, k, d')"
        "d' \<in> {with_buffers ?fmt gs (with_buffers ?fmt [w] d), idr_slice_seen (with_buffers ?fmt gs (with_buffers ?fmt [w] d))}"
        using less.hyps [OF ch(2,1) gs(1)] by blast
      have "slow_loop e m (\<lparr>bd_offset = p, bd_length = n - p\<rparr>, ex, d) = Some (\<lparr>bd_offset = n, bd_length = 0\<rparr>, k, d')"
        using r(5) pos no d'(1) by (subst slow_loop.simps) simp
      then show ?thesis using d'(2) gs(2) unfolding with_buffers_Cons by blast
    qed
  qed
qed

text \<open>
  Property C11.  The slow path splits the payload: when the payload of an IDR frame's first packet consists of NAL units,
  \<open>processAvcHevcRtpPayloadSlow\<close> ends and queues one buffer, of the right type and with the right bytes, for every unit
  before the first slice that is not a delimiter or SEI, and one buffer with everything from the first slice on.
\<close>

theorem slow_path_splits:
  assumes "parsed_format (NegotiatedVideoFormat e)" "dp_malloc e = (\<lambda>_. True)" "nalChain d = []"
    and "nal_chain m (length m) p ws" "slow_fragments (NegotiatedVideoFormat e) ws = Some fs"
  shows "\<exists>k d'. processAvcHevcRtpPayloadSlow e m \<lparr>bd_offset = p, bd_length = length m - p\<rparr> ex d = Some (k, d')
    \<and> map le_data (nalChain d') = fs \<and> map le_bufferType (nalChain d') = map (fragment_type (NegotiatedVideoFormat e)) fs"
proof -
  let ?fmt = "NegotiatedVideoFormat e"
  obtain k d' where d': "slow_loop e m (\<lparr>bd_offset = p, bd_length = length m - p\<rparr>, ex, d) = Some (\<lparr>bd_offset = length m, bd_length = 0\<rparr>, k, d')"
    "d' \<in> {with_buffers ?fmt fs d, idr_slice_seen (with_buffers ?fmt fs d)}"
    using slow_loop_chain [OF assms(1,2) order_refl assms(4,5)] by blast
  have "nalChain d' = map (buffer_of ?fmt) fs" using d'(2) assms(3) by (auto simp: idr_slice_seen_def with_buffers_def)
  then show ?thesis using d'(1) assms(3) by (simp add: processAvcHevcRtpPayloadSlow_def comp_def buffer_of_def)
qed

text \<open>An access unit delimiter, SPS, PPS and two slices of an H.264 frame.\<close>

definition demo_nals :: "u8 list list" where
  "demo_nals = [[0, 0, 0, 1, 0x09, 0xF0], [0, 0, 0, 1, 0x67, 0x42, 0], [0, 0, 0, 1, 0x68, 0xCE], [0, 0, 1, 0x65, 0x88, 7], [0, 0, 1, 0x65, 0x99]]"

definition h264_env :: dp_env where
  "h264_env = \<lparr>NegotiatedVideoFormat = 1, dp_version = \<lparr>vq0 = 7, vq1 = 1, vq2 = 450, vq3 = - 1\<rparr>,
     direct_submit = False, submitDecodeUnit = (\<lambda>_. 0), dp_malloc = (\<lambda>_. True), dp_malloc_unit = True,
     dp_now = 7, hostHdrMode = False, streamColorSpace = 1\<rparr>"

theorem slow_path_splits_witness:
  "\<exists>k d'. processAvcHevcRtpPayloadSlow h264_env (concat demo_nals) \<lparr>bd_offset = 0, bd_length = length (concat demo_nals) - 0\<rparr> True static_depacketizer
      = Some (k, d')
    \<and> map le_data (nalChain d') = [[0, 0, 0, 1, 0x67, 0x42, 0], [0, 0, 0, 1, 0x68, 0xCE], [0, 0, 1, 0x65, 0x88, 7, 0, 0, 1, 0x65, 0x99]]"
proof -
  have c: "nal_chain (concat demo_nals) (length (concat demo_nals)) 0 demo_nals"
    "slow_fragments (NegotiatedVideoFormat h264_env) demo_nals
      = Some [[0, 0, 0, 1, 0x67, 0x42, 0], [0, 0, 0, 1, 0x68, 0xCE], [0, 0, 1, 0x65, 0x88, 7, 0, 0, 1, 0x65, 0x99]]"
    by code_simp+
  have e: "parsed_format (NegotiatedVideoFormat h264_env)" "dp_malloc h264_env = (\<lambda>_. True)" "nalChain static_depacketizer = []"
    by (simp_all add: h264_env_def static_depacketizer_def VIDEO_FORMAT_MASK_H264_def VIDEO_FORMAT_MASK_H265_def)
  show ?thesis using slow_path_splits [OF e c, of True] by (elim exE conjE) (intro exI conjI)
qed

end
