(* ===== verification/NetworkAddress.thy ===== *)
theory NetworkAddress
  imports Prelude
begin

text \<open>
  The decisions PlatformSockets.c takes on addresses: private IPv4 ranges, IPv6 prefixes, NAT64
  detection, the choice among the addresses a name resolves to, and the segmentation of
  \<open>sendMtuSafe\<close>.  The system's resolver and sockets are the arguments: the list \<open>getaddrinfo\<close>
  returned, whether a test connection succeeded, what each \<open>send\<close> returned.  An address is its family and
  the bytes of its address field in network order.
\<close>

section \<open>Addresses and prefixes\<close>

datatype sockaddr = AF_INET (sin_addr: "u8 list") | AF_INET6 (s6_addr: "u8 list") | AF_OTHER

text \<open>\<open>isPrivateNetworkAddressV4\<close>: the four bytes are loaded as an integer of the host and swapped.\<close>

definition isPrivateNetworkAddressV4 :: "u8 list \<Rightarrow> bool \<Rightarrow> bool" where
  "isPrivateNetworkAddressV4 address matchCGN =
     (let addr = BE32 (of_le_bytes address) in
      if addr AND 0xFF000000 = 0x0A000000 then True
      else if addr AND 0xFFF00000 = 0xAC100000 then True
      else if addr AND 0xFFFF0000 = 0xC0A80000 then True
      else if addr AND 0xFFFF0000 = 0xA9FE0000 then True
      else if matchCGN \<and> addr AND 0xFFC00000 = 0x64400000 then True
      else False)"

definition isInSubnetV6 :: "u8 list \<Rightarrow> u8 list \<Rightarrow> nat \<Rightarrow> bool" where
  "isInSubnetV6 addr subnet prefixLength =
     list_all (\<lambda>i. let mask = push_bit (i mod 8) 1 in
       addr ! (i div 8) AND mask = subnet ! (i div 8) AND mask) [0..<prefixLength]"

definition linkLocalPrefix :: "u8 list" where "linkLocalPrefix = [0xfe, 0x80]"
definition siteLocalPrefix :: "u8 list" where "siteLocalPrefix = [0xfe, 0xc0]"
definition uniqueLocalPrefix :: "u8 list" where "uniqueLocalPrefix = [0xfc, 0x00]"

definition isPrivateNetworkAddress :: "sockaddr \<Rightarrow> bool" where
  "isPrivateNetworkAddress address = (case address of
     AF_INET a \<Rightarrow> isPrivateNetworkAddressV4 a False
   | AF_INET6 a \<Rightarrow>
       if isInSubnetV6 a linkLocalPrefix 10 then True
       else if isInSubnetV6 a siteLocalPrefix 10 then True
       else if isInSubnetV6 a uniqueLocalPrefix 7 then True
       else False
   | AF_OTHER \<Rightarrow> False)"

section \<open>NAT64\<close>

definition memcmp_eq :: "u8 list \<Rightarrow> nat \<Rightarrow> u8 list \<Rightarrow> nat \<Rightarrow> nat \<Rightarrow> bool" where
  "memcmp_eq xs i ys j n \<longleftrightarrow> take n (drop i xs) = take n (drop j ys)"

definition wellKnownAddresses :: "u8 list list" where
  "wellKnownAddresses = [[0xC0, 0x00, 0x00, 0xAA], [0xC0, 0x00, 0x00, 0xAB]]"

text \<open>The six places of RFC 6052; the state is \<open>foundCount\<close>, \<open>prefixLen\<close> and \<open>suffixStart\<close>.\<close>

definition nat64_probe :: "u8 list \<Rightarrow> u8 list \<Rightarrow> nat \<times> nat \<times> nat" where
  "nat64_probe c w =
     (let r = (0, 0, 0);
          r = (if memcmp_eq c 4 w 0 4 then (fst r + 1, 4, 9) else r);
          r = (if memcmp_eq c 5 w 0 3 \<and> memcmp_eq c 9 w 3 1 then (fst r + 1, 5, 10) else r);
          r = (if memcmp_eq c 6 w 0 2 \<and> memcmp_eq c 9 w 2 2 then (fst r + 1, 6, 11) else r);
          r = (if memcmp_eq c 7 w 0 1 \<and> memcmp_eq c 9 w 1 3 then (fst r + 1, 7, 12) else r);
          r = (if memcmp_eq c 9 w 0 4 then (fst r + 1, 8, 13) else r);
          r = (if memcmp_eq c 12 w 0 4 then (fst r + 1, 12, 16) else r)
      in r)"

text \<open>The inner loop over the well-known addresses: \<open>True\<close> returns, \<open>False\<close> goes to the next record.\<close>

fun nat64_candidate :: "u8 list \<Rightarrow> u8 list \<Rightarrow> u8 list list \<Rightarrow> bool" where
  "nat64_candidate a c [] = False"
| "nat64_candidate a c (w # ws) = (case nat64_probe c w of (foundCount, prefixLen, suffixStart) \<Rightarrow>
     if foundCount \<noteq> 1 then nat64_candidate a c ws
     else memcmp_eq a 0 c 0 prefixLen \<and>
       (suffixStart = 16 \<or> memcmp_eq a suffixStart c suffixStart (16 - suffixStart)))"

fun nat64_records :: "u8 list \<Rightarrow> sockaddr list \<Rightarrow> bool" where
  "nat64_records a [] = False"
| "nat64_records a (AF_INET6 c # rs) =
     (if nat64_candidate a c wellKnownAddresses then True else nat64_records a rs)"
| "nat64_records a (_ # rs) = nat64_records a rs"

definition isNat64SynthesizedAddress :: "int \<times> sockaddr list \<Rightarrow> sockaddr \<Rightarrow> bool" where
  "isNat64SynthesizedAddress ipv4only address = (case address of
     AF_INET6 a \<Rightarrow> (case ipv4only of (err, res) \<Rightarrow>
       if err \<noteq> 0 then False else if res = [] then False else nat64_records a res)
   | _ \<Rightarrow> False)"

section \<open>Name resolution\<close>

definition TCP_PORT_MASK :: u32 where "TCP_PORT_MASK = 0xFFFF"
definition TCP_PORT_FLAG_ALWAYS_TEST :: u32 where "TCP_PORT_FLAG_ALWAYS_TEST = 0x10000"

datatype ai_family = AF_UNSPEC | FAMILY_INET

text \<open>
  The network as the function sees it: \<open>getaddrinfo\<close>'s answer per family, the IPv4 literal the host string
  stands for, if it is one, and whether a TCP connection to an address and port succeeds.
\<close>

record net_env =
  gai :: "ai_family \<Rightarrow> int \<times> sockaddr list"
  host_v4 :: "u8 list option"
  tcp_connects :: "sockaddr \<Rightarrow> u32 \<Rightarrow> bool"

fun first_working :: "net_env \<Rightarrow> u32 \<Rightarrow> bool \<Rightarrow> sockaddr list \<Rightarrow> sockaddr option" where
  "first_working e port testing [] = None"
| "first_working e port testing (a # as) =
     (if port \<noteq> 0 \<and> testing \<and> \<not> tcp_connects e a (port AND TCP_PORT_MASK)
      then first_working e port testing as else Some a)"

definition needs_fallback_v4 :: "net_env \<Rightarrow> ai_family \<Rightarrow> sockaddr list \<Rightarrow> bool" where
  "needs_fallback_v4 e family res \<longleftrightarrow> family = AF_UNSPEC \<and>
     (case res of [AF_INET6 _] \<Rightarrow> (case host_v4 e of Some v4 \<Rightarrow> isPrivateNetworkAddressV4 v4 True | None \<Rightarrow> False)
      | _ \<Rightarrow> False)"

text \<open>One call of \<open>resolveHostName\<close> up to the fallback: the result, or \<open>None\<close> for the recursive call.\<close>

definition resolve_family :: "net_env \<Rightarrow> ai_family \<Rightarrow> u32 \<Rightarrow> (int + sockaddr) option" where
  "resolve_family e family tcpTestPort = (case gai e family of (err, res) \<Rightarrow>
     if err \<noteq> 0 then Some (Inl err)
     else if res = [] then Some (Inl (- 1))
     else let fallback = needs_fallback_v4 e family res;
              testing = (length res > 1 \<or> tcpTestPort AND TCP_PORT_FLAG_ALWAYS_TEST \<noteq> 0 \<or> fallback)
          in case first_working e tcpTestPort testing res of
               Some a \<Rightarrow> Some (Inr a)
             | None \<Rightarrow> if fallback then None else Some (Inl (- 1)))"

definition resolveHostName :: "net_env \<Rightarrow> ai_family \<Rightarrow> u32 \<Rightarrow> (int + sockaddr) option" where
  "resolveHostName e family tcpTestPort = (case resolve_family e family tcpTestPort of
     Some r \<Rightarrow> Some r
   | None \<Rightarrow> resolve_family e FAMILY_INET tcpTestPort)"

lemma resolveHostName_returns: "\<exists>r. resolveHostName e family port = Some r"
  by (auto simp: resolveHostName_def resolve_family_def needs_fallback_v4_def Let_def
      split: option.split prod.split)

section \<open>Sending in segments\<close>

definition TCPv4_MSS :: nat where "TCPv4_MSS = 536"

text \<open>
  \<open>sendMtuSafe\<close>: the state is \<open>bytesSent\<close> and the segments handed to \<open>send\<close>; \<open>sent_ok\<close> tells
  whether the call with that number succeeded.
\<close>

function sendMtuSafe_loop :: "(nat \<Rightarrow> bool) \<Rightarrow> u8 list \<Rightarrow> nat \<Rightarrow> u8 list list \<Rightarrow> int \<times> u8 list list" where
  "sendMtuSafe_loop sent_ok buffer bytesSent segs =
     (if bytesSent < length buffer then
        let bytesToSend = (if length buffer - bytesSent > TCPv4_MSS then TCPv4_MSS else length buffer - bytesSent);
            segs' = segs @ [take bytesToSend (drop bytesSent buffer)]
        in if \<not> sent_ok (length segs) then (- 1, segs')
           else sendMtuSafe_loop sent_ok buffer (bytesSent + bytesToSend) segs'
      else (int bytesSent, segs))"
  by pat_completeness auto
termination by (relation "measure (\<lambda>(ok, buffer, n, segs). length buffer - n)") (auto simp: TCPv4_MSS_def)

declare sendMtuSafe_loop.simps [simp del]

definition sendMtuSafe :: "(nat \<Rightarrow> bool) \<Rightarrow> u8 list \<Rightarrow> int \<times> u8 list list" where
  "sendMtuSafe sent_ok buffer = sendMtuSafe_loop sent_ok buffer 0 []"

text \<open>The steps of \<open>bindUdpSocket\<close> towards a receive buffer the system accepts.\<close>

definition RCV_BUFFER_SIZE_MIN :: int where "RCV_BUFFER_SIZE_MIN = 32767"
definition RCV_BUFFER_SIZE_STEP :: int where "RCV_BUFFER_SIZE_STEP = 16384"

function rcv_buffer_size :: "(int \<Rightarrow> bool) \<Rightarrow> int \<Rightarrow> int option" where
  "rcv_buffer_size accepts bufferSize =
     (if accepts bufferSize then Some bufferSize
      else if bufferSize \<le> RCV_BUFFER_SIZE_MIN then None
      else if bufferSize - RCV_BUFFER_SIZE_STEP \<le> RCV_BUFFER_SIZE_MIN
        then rcv_buffer_size accepts RCV_BUFFER_SIZE_MIN
      else rcv_buffer_size accepts (bufferSize - RCV_BUFFER_SIZE_STEP))"
  by pat_completeness auto
termination
  by (relation "measure (\<lambda>(accepts, n). nat (n - RCV_BUFFER_SIZE_MIN))")
    (auto simp: RCV_BUFFER_SIZE_MIN_def RCV_BUFFER_SIZE_STEP_def)

declare rcv_buffer_size.simps [simp del]

section \<open>What the address tests decide\<close>

lemma BE32_bytes:
  "BE32 (of_le_bytes [a, b, c, d])
     = push_bit 24 (ucast a) OR push_bit 16 (ucast b) OR push_bit 8 (ucast c) OR ucast d"
proof -
  have len: "length [a, b, c, d] = 4" by simp
  have "le_bytes (length [a, b, c, d]) (of_le_bytes [a, b, c, d] :: u32) = [a, b, c, d]"
    by (rule le_bytes_of_le_bytes) simp
  then have "BE32 (of_le_bytes [a, b, c, d]) = of_le_bytes (rev [a, b, c, d])"
    unfolding BE32_def BSWAP32_def len by (simp only:)
  then have "BE32 (of_le_bytes [a, b, c, d]) = of_le_bytes [d, c, b, a]" by simp
  also have "\<dots> = push_bit 24 (ucast a) OR push_bit 16 (ucast b) OR push_bit 8 (ucast c) OR ucast d"
    by (rule bit_word_eqI) (auto simp: bit_simps)
  finally show ?thesis .
qed

text \<open>A mask of leading ones compares the leading bits.\<close>

lemma mask_test_iff_drop_bit:
  fixes x v :: u32
  assumes "n \<le> 32"
  shows "x AND push_bit n (mask (32 - n)) = push_bit n v \<longleftrightarrow> drop_bit n x = take_bit (32 - n) v"
proof
  assume e: "x AND push_bit n (mask (32 - n)) = push_bit n v"
  show "drop_bit n x = take_bit (32 - n) v"
  proof (rule bit_word_eqI)
    fix i assume "i < LENGTH(32)"
    then show "bit (drop_bit n x) i = bit (take_bit (32 - n) v) i"
      using arg_cong [OF e, of "\<lambda>w. bit w (n + i)"] by (auto simp: bit_simps dest: bit_imp_le_length)
  qed
next
  assume e: "drop_bit n x = take_bit (32 - n) v"
  show "x AND push_bit n (mask (32 - n)) = push_bit n v"
  proof (rule bit_word_eqI)
    fix i assume i: "i < LENGTH(32)"
    show "bit (x AND push_bit n (mask (32 - n))) i = bit (push_bit n v) i"
      using arg_cong [OF e, of "\<lambda>w. bit w (i - n)"] i by (auto simp: bit_simps)
  qed
qed

lemma drop_bit_quad:
  fixes a b c d :: u8
  shows "drop_bit 24 (push_bit 24 (ucast a) OR push_bit 16 (ucast b) OR push_bit 8 (ucast c) OR ucast d :: u32) = ucast a"
    and "drop_bit 16 (push_bit 24 (ucast a) OR push_bit 16 (ucast b) OR push_bit 8 (ucast c) OR ucast d :: u32)
           = push_bit 8 (ucast a) OR ucast b"
    and "drop_bit 20 (push_bit 24 (ucast a) OR push_bit 16 (ucast b) OR push_bit 8 (ucast c) OR ucast d :: u32)
           = push_bit 4 (ucast a) OR ucast (drop_bit 4 b)"
    and "drop_bit 22 (push_bit 24 (ucast a) OR push_bit 16 (ucast b) OR push_bit 8 (ucast c) OR ucast d :: u32)
           = push_bit 2 (ucast a) OR ucast (drop_bit 6 b)"
  by (rule bit_word_eqI; auto simp: bit_simps dest: bit_imp_le_length)+

lemma isPrivateNetworkAddressV4_drops:
  "isPrivateNetworkAddressV4 bs cgn \<longleftrightarrow> (let x = BE32 (of_le_bytes bs) in
     drop_bit 24 x = 10 \<or> drop_bit 20 x = 0xAC1 \<or> drop_bit 16 x = 0xC0A8 \<or> drop_bit 16 x = 0xA9FE
     \<or> cgn \<and> drop_bit 22 x = 0x191)"
  using mask_test_iff_drop_bit [of 24 "BE32 (of_le_bytes bs)" 10]
    mask_test_iff_drop_bit [of 20 "BE32 (of_le_bytes bs)" "0xAC1"]
    mask_test_iff_drop_bit [of 16 "BE32 (of_le_bytes bs)" "0xC0A8"]
    mask_test_iff_drop_bit [of 16 "BE32 (of_le_bytes bs)" "0xA9FE"]
    mask_test_iff_drop_bit [of 22 "BE32 (of_le_bytes bs)" "0x191"]
  by (simp add: isPrivateNetworkAddressV4_def Let_def mask_eq_exp_minus_1 take_bit_eq_mask)

lemma two_part_word:
  fixes a b k v :: u8
  assumes "n \<le> 8"
  shows "(push_bit n (ucast a) OR ucast (drop_bit (8 - n) b) :: u32) = push_bit n (ucast k) OR ucast (drop_bit (8 - n) v)
    \<longleftrightarrow> a = k \<and> drop_bit (8 - n) b = drop_bit (8 - n) v" (is "?pair a b = ?pair k v \<longleftrightarrow> _")
proof
  have hi: "ucast (drop_bit n (?pair x y)) = x" for x y :: u8
    using assms by (intro bit_word_eqI) (auto simp: bit_simps dest: bit_imp_le_length)
  have lo: "ucast (take_bit n (?pair x y)) = drop_bit (8 - n) y" for x y :: u8
    using assms by (intro bit_word_eqI) (auto simp: bit_simps dest: bit_imp_le_length)
  assume e: "?pair a b = ?pair k v"
  have "a = k" using hi [of a b] hi [of k v] e by simp
  moreover have "drop_bit (8 - n) b = drop_bit (8 - n) v" using lo [of a b] lo [of k v] e by simp
  ultimately show "a = k \<and> drop_bit (8 - n) b = drop_bit (8 - n) v" by simp
qed simp

lemma byte_div_iff: "drop_bit n b = (v :: u8) \<longleftrightarrow> unat b div 2 ^ n = unat v"
  unfolding word_unat_eq_iff unat_drop_bit_eq by (simp add: drop_bit_eq_div)

text \<open>
  The IPv4 test accepts exactly the private ranges, written as dotted quads: 10.x.x.x,
  172.16.x.x to 172.31.x.x, 192.168.x.x, 169.254.x.x and, when asked for, the carrier range
  100.64.x.x to 100.127.x.x.
\<close>

theorem private_v4_ranges:
  fixes a b c d :: u8
  shows "isPrivateNetworkAddressV4 [a, b, c, d] cgn \<longleftrightarrow>
     a = 10 \<or> (a = 172 \<and> 16 \<le> unat b \<and> unat b \<le> 31) \<or> (a = 192 \<and> b = 168) \<or> (a = 169 \<and> b = 254)
     \<or> (cgn \<and> a = 100 \<and> 64 \<le> unat b \<and> unat b \<le> 127)"
proof -
  have r1: "unat b div 16 = Suc 0 \<longleftrightarrow> 16 \<le> unat b \<and> unat b \<le> 31" for b :: u8 by linarith
  have r2: "unat b div 64 = Suc 0 \<longleftrightarrow> 64 \<le> unat b \<and> unat b \<le> 127" for b :: u8 by linarith
  have p0: "(ucast a :: u32) = 10 \<longleftrightarrow> a = 10"
    using two_part_word [of 0 a b 10 b] by simp
  have p1: "(push_bit 4 (ucast a) OR ucast (drop_bit 4 b) :: u32) = 0xAC1 \<longleftrightarrow> a = 172 \<and> 16 \<le> unat b \<and> unat b \<le> 31"
    using two_part_word [of 4 a b 172 16] by (simp add: byte_div_iff r1)
  have p2: "(push_bit 8 (ucast a) OR ucast b :: u32) = 0xC0A8 \<longleftrightarrow> a = 192 \<and> b = 168"
    using two_part_word [of 8 a b 192 168] by simp
  have p3: "(push_bit 8 (ucast a) OR ucast b :: u32) = 0xA9FE \<longleftrightarrow> a = 169 \<and> b = 254"
    using two_part_word [of 8 a b 169 254] by simp
  have p4: "(push_bit 2 (ucast a) OR ucast (drop_bit 6 b) :: u32) = 0x191 \<longleftrightarrow> a = 100 \<and> 64 \<le> unat b \<and> unat b \<le> 127"
    using two_part_word [of 2 a b 100 64] by (simp add: byte_div_iff r2)
  show ?thesis
    unfolding isPrivateNetworkAddressV4_drops Let_def BE32_bytes drop_bit_quad p0 p1 p2 p3 p4 by (rule refl)
qed

text \<open>
  What \<open>isInSubnetV6\<close> compares of a partial byte are its low bits, where a prefix length counts from the
  high ones.  For the prefixes of \<open>isPrivateNetworkAddress\<close>:
\<close>

lemma low_bits_compare:
  fixes x y :: u8
  shows "list_all (\<lambda>i. x AND push_bit i 1 = y AND push_bit i 1) [0..<n] \<longleftrightarrow> take_bit n x = take_bit n y"
proof (induction n)
  case 0
  show ?case by simp
next
  case (Suc n)
  have "x AND push_bit n 1 = y AND push_bit n 1 \<longleftrightarrow> (n < 8 \<longrightarrow> bit x n = bit y n)" (is "?l = ?r \<longleftrightarrow> _")
  proof
    assume "?l = ?r"
    then have "bit ?l n = bit ?r n" by simp
    then show "n < 8 \<longrightarrow> bit x n = bit y n" by (auto simp: bit_simps)
  next
    assume "n < 8 \<longrightarrow> bit x n = bit y n"
    then show "?l = ?r" by (intro bit_word_eqI) (auto simp: bit_simps)
  qed
  moreover have "take_bit (Suc n) x = take_bit (Suc n) y \<longleftrightarrow>
      take_bit n x = take_bit n y \<and> (n < 8 \<longrightarrow> bit x n = bit y n)"
    by (auto simp: bit_eq_iff [where 'a = "8 word"] bit_take_bit_iff less_Suc_eq)
  ultimately show ?case using Suc.IH by simp
qed

lemma list_all_upt_shift: "list_all P [8..<8 + n] \<longleftrightarrow> list_all (\<lambda>i. P (8 + i)) [0..<n]"
  by (auto simp: list_all_iff) (metis add_diff_cancel_left' atLeastLessThan_iff le_add_diff_inverse nat_add_left_cancel_less le0)

lemma isInSubnetV6_short: "n \<le> 8 \<Longrightarrow> isInSubnetV6 a s n \<longleftrightarrow> take_bit n (a ! 0) = take_bit n (s ! 0)"
  unfolding isInSubnetV6_def Let_def low_bits_compare [symmetric] by (auto simp: list_all_iff)

lemma isInSubnetV6_two:
  "n \<le> 8 \<Longrightarrow> isInSubnetV6 a s (8 + n) \<longleftrightarrow> a ! 0 = s ! 0 \<and> take_bit n (a ! 1) = take_bit n (s ! 1)"
proof -
  assume n: "n \<le> 8"
  have second: "(8 + i) div 8 = Suc 0" if "i < n" for i using n that by simp
  have "isInSubnetV6 a s (8 + n) \<longleftrightarrow> isInSubnetV6 a s 8 \<and>
      list_all (\<lambda>i. a ! 1 AND push_bit i 1 = s ! 1 AND push_bit i 1) [0..<n]"
    using n unfolding isInSubnetV6_def Let_def upt_add_eq_append [OF le0, of 8 n] list_all_append list_all_upt_shift
    by (auto simp: list_all_iff second)
  then show ?thesis
    unfolding low_bits_compare by (simp add: isInSubnetV6_short take_bit_word_eq_self)
qed

definition in_prefix_v6 :: "u8 list \<Rightarrow> u8 list \<Rightarrow> nat \<Rightarrow> bool" where
  "in_prefix_v6 a s n = list_all (\<lambda>i. bit (a ! (i div 8)) (7 - i mod 8) = bit (s ! (i div 8)) (7 - i mod 8)) [0..<n]"

text \<open>
  What the IPv6 test decides: it accepts a first byte fe with the low two bits of the second
  clear, or a first byte whose low seven bits are 7c.  So the test of \<open>fc00::/7\<close> misses every address of
  fd00::/8, the half of that prefix that is assigned, and accepts 7c00::/8, outside all three prefixes.
\<close>

theorem private_v6_decided:
  fixes a b :: u8
  shows "isPrivateNetworkAddress (AF_INET6 (a # b # rest)) \<longleftrightarrow>
      (a = 0xFE \<and> take_bit 2 b = 0) \<or> take_bit 7 a = 0x7C"
    and "\<not> isPrivateNetworkAddress (AF_INET6 (0xFD # b # rest))" and "in_prefix_v6 (0xFD # b # rest) uniqueLocalPrefix 7"
    and "isPrivateNetworkAddress (AF_INET6 (0x7C # b # rest))" and "\<not> in_prefix_v6 (0x7C # b # rest) uniqueLocalPrefix 7"
proof -
  have all: "isPrivateNetworkAddress (AF_INET6 (a # b # rest)) \<longleftrightarrow>
      (a = 0xFE \<and> take_bit 2 b = 0) \<or> take_bit 7 a = 0x7C" for a b rest
    using isInSubnetV6_two [of 2 "a # b # rest" linkLocalPrefix] isInSubnetV6_two [of 2 "a # b # rest" siteLocalPrefix]
      isInSubnetV6_short [of 7 "a # b # rest" uniqueLocalPrefix]
    by (simp add: isPrivateNetworkAddress_def linkLocalPrefix_def siteLocalPrefix_def uniqueLocalPrefix_def)
  show "isPrivateNetworkAddress (AF_INET6 (a # b # rest)) \<longleftrightarrow>
      (a = 0xFE \<and> take_bit 2 b = 0) \<or> take_bit 7 a = 0x7C" by (rule all)
  show "\<not> isPrivateNetworkAddress (AF_INET6 (0xFD # b # rest))" "isPrivateNetworkAddress (AF_INET6 (0x7C # b # rest))"
    by (simp_all add: all)
  show "in_prefix_v6 (0xFD # b # rest) uniqueLocalPrefix 7" "\<not> in_prefix_v6 (0x7C # b # rest) uniqueLocalPrefix 7"
    by (simp_all add: in_prefix_v6_def uniqueLocalPrefix_def upt_rec)
qed

section \<open>What resolution and segmentation return\<close>

text \<open>The address chosen is one the resolver returned, and it answered on the test port when it was tested.\<close>

lemma first_working_tested:
  "first_working e port testing as = Some a \<Longrightarrow>
     a \<in> set as \<and> (port \<noteq> 0 \<and> testing \<longrightarrow> tcp_connects e a (port AND TCP_PORT_MASK))"
  by (induction as) (auto split: if_splits)

lemma first_working_None:
  "first_working e port testing as = None \<longleftrightarrow>
     as = [] \<or> (port \<noteq> 0 \<and> testing \<and> (\<forall>a \<in> set as. \<not> tcp_connects e a (port AND TCP_PORT_MASK)))"
  by (induction as) auto

lemma resolve_family_Some:
  assumes "resolve_family e family port = Some (Inr a)"
  shows "fst (gai e family) = 0" and "a \<in> set (snd (gai e family))"
    and "port \<noteq> 0 \<Longrightarrow> length (snd (gai e family)) > 1 \<Longrightarrow> tcp_connects e a (port AND TCP_PORT_MASK)"
  using assms first_working_tested
  by (auto simp: resolve_family_def Let_def split: prod.splits if_splits option.splits dest: first_working_tested)

lemma resolveHostName_from_resolver:
  assumes "resolveHostName e family port = Some (Inr a)"
  shows "a \<in> set (snd (gai e family)) \<union> set (snd (gai e FAMILY_INET))"
  using assms by (auto simp: resolveHostName_def split: option.splits dest: resolve_family_Some(2))

lemma sendMtuSafe_loop_all:
  assumes "\<forall>i. sent_ok i" "n \<le> length buffer" "concat segs = take n buffer" "\<forall>s \<in> set segs. length s \<le> TCPv4_MSS"
  shows "\<exists>segs'. sendMtuSafe_loop sent_ok buffer n segs = (int (length buffer), segs')
    \<and> concat segs' = buffer \<and> (\<forall>s \<in> set segs'. length s \<le> TCPv4_MSS)"
  using assms
proof (induction sent_ok buffer n segs rule: sendMtuSafe_loop.induct)
  case (1 ok buffer n segs)
  let ?k = "if length buffer - n > TCPv4_MSS then TCPv4_MSS else length buffer - n"
  have piece: "take n buffer @ take ?k (drop n buffer) = take (n + ?k) buffer"
    by (simp only: take_add)
  show ?case
  proof (cases "n < length buffer")
    case True
    have "\<exists>segs'. sendMtuSafe_loop ok buffer (n + ?k) (segs @ [take ?k (drop n buffer)]) = (int (length buffer), segs')
      \<and> concat segs' = buffer \<and> (\<forall>s \<in> set segs'. length s \<le> TCPv4_MSS)"
      by (rule "1.IH" [OF True refl refl]) (use "1.prems" piece in auto)
    then show ?thesis
      using True "1.prems" by (subst sendMtuSafe_loop.simps) (simp add: Let_def)
  next
    case False
    then show ?thesis using "1.prems" by (subst sendMtuSafe_loop.simps) simp
  qed
qed

lemma sendMtuSafe_all:
  assumes "\<forall>i. sent_ok i"
  shows "\<exists>segs. sendMtuSafe sent_ok buffer = (int (length buffer), segs)
    \<and> concat segs = buffer \<and> (\<forall>s \<in> set segs. length s \<le> TCPv4_MSS)"
  using sendMtuSafe_loop_all [of sent_ok 0 buffer "[]"] assms by (simp add: sendMtuSafe_def)

lemma rcv_buffer_size_accepted:
  "rcv_buffer_size accepts n = Some k \<Longrightarrow> accepts k \<and> k \<le> n \<and> (k = n \<or> RCV_BUFFER_SIZE_MIN \<le> k)"
proof (induction accepts n rule: rcv_buffer_size.induct)
  case (1 accepts n)
  then show ?case
    by (subst (asm) rcv_buffer_size.simps)
      (auto simp: RCV_BUFFER_SIZE_STEP_def split: if_splits)
qed

end
