(* ===== verification/Connection.thy ===== *)
theory Connection
  imports Version CString NetworkAddress
begin

text \<open>
  Connection.c: the stages of a connection, their undoing, and the termination callback; from Misc.c
  the parsing of the host's version.  The functions of the other components that a stage calls,
  and the client's callbacks, are calls answered by the environment.  While a call runs, other threads may
  interrupt the connection or report its termination: an answer is the function's result with what the
  other threads did meanwhile.  The list \<open>trace\<close> records the calls in the order they were made.
\<close>

section \<open>State\<close>

definition STAGE_NONE :: nat where "STAGE_NONE = 0"
definition STAGE_PLATFORM_INIT :: nat where "STAGE_PLATFORM_INIT = 1"
definition STAGE_NAME_RESOLUTION :: nat where "STAGE_NAME_RESOLUTION = 2"
definition STAGE_AUDIO_STREAM_INIT :: nat where "STAGE_AUDIO_STREAM_INIT = 3"
definition STAGE_RTSP_HANDSHAKE :: nat where "STAGE_RTSP_HANDSHAKE = 4"
definition STAGE_CONTROL_STREAM_INIT :: nat where "STAGE_CONTROL_STREAM_INIT = 5"
definition STAGE_VIDEO_STREAM_INIT :: nat where "STAGE_VIDEO_STREAM_INIT = 6"
definition STAGE_INPUT_STREAM_INIT :: nat where "STAGE_INPUT_STREAM_INIT = 7"
definition STAGE_CONTROL_STREAM_START :: nat where "STAGE_CONTROL_STREAM_START = 8"
definition STAGE_VIDEO_STREAM_START :: nat where "STAGE_VIDEO_STREAM_START = 9"
definition STAGE_AUDIO_STREAM_START :: nat where "STAGE_AUDIO_STREAM_START = 10"
definition STAGE_INPUT_STREAM_START :: nat where "STAGE_INPUT_STREAM_START = 11"

lemmas stage_defs = STAGE_NONE_def STAGE_PLATFORM_INIT_def STAGE_NAME_RESOLUTION_def STAGE_AUDIO_STREAM_INIT_def
  STAGE_RTSP_HANDSHAKE_def STAGE_CONTROL_STREAM_INIT_def STAGE_VIDEO_STREAM_INIT_def STAGE_INPUT_STREAM_INIT_def
  STAGE_CONTROL_STREAM_START_def STAGE_VIDEO_STREAM_START_def STAGE_AUDIO_STREAM_START_def STAGE_INPUT_STREAM_START_def

definition stageNames :: "string list" where
  "stageNames = [''none'', ''platform initialization'', ''name resolution'', ''audio stream initialization'',
     ''RTSP handshake'', ''control stream initialization'', ''video stream initialization'',
     ''input stream initialization'', ''control stream establishment'', ''video stream establishment'',
     ''audio stream establishment'', ''input stream establishment'']"

definition LiGetStageName :: "nat \<Rightarrow> string option" where
  "LiGetStageName s = nth_opt stageNames s"

datatype conn_call =
  InitializePlatform | CleanupPlatform | ResolveHostName u32 int | InitializeAudioStream | DestroyAudioStream
| PerformRtspHandshake | InitializeControlStream | DestroyControlStream | InitializeVideoStream | DestroyVideoStream
| InitializeInputStream | DestroyInputStream | StartControlStream | StopControlStream | StartVideoStream
| StopVideoStream | StartAudioStream | StopAudioStream | StartInputStream | StopInputStream
| StageStarting nat | StageComplete nat | StageFailed nat int | ConnectionStarted
| SendMouseMove int int | SleepMs nat

datatype conn_event = Called conn_call int | CallbackThread int

text \<open>The parts of \<open>STREAM_CONFIGURATION\<close>, \<open>SERVER_INFORMATION\<close> and the decoder callbacks that are used here.\<close>

definition STREAM_CFG_LOCAL :: int where "STREAM_CFG_LOCAL = 0"
definition STREAM_CFG_REMOTE :: int where "STREAM_CFG_REMOTE = 1"
definition STREAM_CFG_AUTO :: int where "STREAM_CFG_AUTO = 2"

record stream_config =
  cfg_width :: int
  cfg_height :: int
  packetSize :: int
  streamingRemotely :: int
  audioConfiguration :: u32

record server_information =
  address :: string
  serverInfoAppVersion :: string
  rtspSessionUrl :: "string option"
  serverCodecModeSupport :: int

record dr_callbacks =
  dr_capabilities :: u32
  has_submitDecodeUnit :: bool

record connection =
  conn_stage :: nat
  alreadyTerminated :: bool
  ConnectionInterrupted :: bool
  terminationCallbackErrorCode :: int
  RemoteAddrString :: "string option"
  RemoteAddr :: sockaddr
  AppVersionQuad :: version
  NegotiatedVideoFormat :: u32
  StreamConfig :: stream_config
  videoCapabilities :: u32
  RtspPortNumber :: u16
  VideoPortNumber :: u16
  ControlPortNumber :: u16
  AudioPortNumber :: u16
  trace :: "conn_event list"

text \<open>What other threads do while a call runs; the flag tells whether the callback thread could be created.\<close>

datatype async = Interrupt | Terminate int bool

record conn_env =
  answer :: "conn_event list \<Rightarrow> conn_call \<Rightarrow> int \<times> async list"
  hosts :: "conn_event list \<Rightarrow> net_env"
  ipv4only :: "conn_event list \<Rightarrow> int \<times> sockaddr list"
  strdup_ok :: bool

section \<open>Interruption, termination, calls\<close>

definition LiInterruptConnection :: "connection \<Rightarrow> connection" where
  "LiInterruptConnection c = c\<lparr>ConnectionInterrupted := True\<rparr>"

definition ClInternalConnectionTerminated :: "bool \<Rightarrow> int \<Rightarrow> connection \<Rightarrow> connection option" where
  "ClInternalConnectionTerminated created errorCode c =
     (if alreadyTerminated c \<or> ConnectionInterrupted c then Some c
      else let c = c\<lparr>terminationCallbackErrorCode := errorCode, alreadyTerminated := True\<rparr>
        in if created then Some (c\<lparr>trace := trace c @ [CallbackThread errorCode]\<rparr>) else None)"

fun run_async :: "async \<Rightarrow> connection \<Rightarrow> connection option" where
  "run_async Interrupt c = Some (LiInterruptConnection c)"
| "run_async (Terminate code created) c = ClInternalConnectionTerminated created code c"

fun run_asyncs :: "async list \<Rightarrow> connection \<Rightarrow> connection option" where
  "run_asyncs [] c = Some c"
| "run_asyncs (a # as) c = do { c \<leftarrow> run_async a c; run_asyncs as c }"

definition call :: "conn_env \<Rightarrow> conn_call \<Rightarrow> connection \<Rightarrow> (int \<times> connection) option" where
  "call e x c = (case answer e (trace c) x of (r, others) \<Rightarrow>
     map_option (Pair r) (run_asyncs others (c\<lparr>trace := trace c @ [Called x r]\<rparr>)))"

section \<open>Stopping\<close>

text \<open>One of the blocks of \<open>LiStopConnection\<close>; two stages have nothing to undo.\<close>

definition undo_stage :: "conn_env \<Rightarrow> nat \<Rightarrow> conn_call option \<Rightarrow> connection \<Rightarrow> connection option" where
  "undo_stage e s undo c =
     (if conn_stage c = s then (case undo of
        None \<Rightarrow> Some (c\<lparr>conn_stage := conn_stage c - 1\<rparr>)
      | Some x \<Rightarrow> do { (_, c) \<leftarrow> call e x c; Some (c\<lparr>conn_stage := conn_stage c - 1\<rparr>) })
      else Some c)"

definition LiStopConnection :: "conn_env \<Rightarrow> connection \<Rightarrow> connection option" where
  "LiStopConnection e c = do {
     let c = LiInterruptConnection (c\<lparr>alreadyTerminated := True\<rparr>);
     c \<leftarrow> undo_stage e STAGE_INPUT_STREAM_START (Some StopInputStream) c;
     c \<leftarrow> undo_stage e STAGE_AUDIO_STREAM_START (Some StopAudioStream) c;
     c \<leftarrow> undo_stage e STAGE_VIDEO_STREAM_START (Some StopVideoStream) c;
     c \<leftarrow> undo_stage e STAGE_CONTROL_STREAM_START (Some StopControlStream) c;
     c \<leftarrow> undo_stage e STAGE_INPUT_STREAM_INIT (Some DestroyInputStream) c;
     c \<leftarrow> undo_stage e STAGE_VIDEO_STREAM_INIT (Some DestroyVideoStream) c;
     c \<leftarrow> undo_stage e STAGE_CONTROL_STREAM_INIT (Some DestroyControlStream) c;
     c \<leftarrow> undo_stage e STAGE_RTSP_HANDSHAKE None c;
     c \<leftarrow> undo_stage e STAGE_AUDIO_STREAM_INIT (Some DestroyAudioStream) c;
     c \<leftarrow> undo_stage e STAGE_NAME_RESOLUTION None c;
     c \<leftarrow> undo_stage e STAGE_PLATFORM_INIT (Some CleanupPlatform) c;
     LC_ASSERT (conn_stage c = STAGE_NONE);
     Some (if RemoteAddrString c \<noteq> None then c\<lparr>RemoteAddrString := None\<rparr> else c) }"

section \<open>Parsing the version and the port\<close>

fun version_numbers :: "nat \<Rightarrow> string \<Rightarrow> int list" where
  "version_numbers 0 s = []"
| "version_numbers (Suc n) s = (case strtol10 s of (v, nextNumber) \<Rightarrow>
     to_int32 v # version_numbers n (if nextNumber \<noteq> [] then tl nextNumber else nextNumber))"

definition extractVersionQuadFromString :: "string \<Rightarrow> int \<times> version" where
  "extractVersionQuadFromString s = (let q = version_numbers 4 s in
     (0, \<lparr>vq0 = q ! 0, vq1 = q ! 1, vq2 = q ! 2, vq3 = q ! 3\<rparr>))"

definition parseRtspPortNumberFromUrl :: "string option \<Rightarrow> u16 option" where
  "parseRtspPortNumberFromUrl url = (case url of None \<Rightarrow> None | Some u \<Rightarrow>
     (case after_last (CHR '':'') u of None \<Rightarrow> None | Some portNumberStart \<Rightarrow>
       let rawPort = fst (strtol10 portNumberStart)
       in if rawPort \<le> 0 \<or> rawPort > 65535 then None else Some (word_of_int rawPort)))"

section \<open>Starting\<close>

text \<open>The first part of \<open>LiStartConnection\<close>: arguments that end the call before any state is set up.\<close>

definition CAPABILITY_DIRECT_SUBMIT :: u32 where "CAPABILITY_DIRECT_SUBMIT = 0x1"
definition CAPABILITY_REFERENCE_FRAME_INVALIDATION_AVC :: u32 where "CAPABILITY_REFERENCE_FRAME_INVALIDATION_AVC = 0x2"
definition CAPABILITY_PULL_RENDERER :: u32 where "CAPABILITY_PULL_RENDERER = 0x20"

definition check_arguments :: "server_information \<Rightarrow> dr_callbacks option \<Rightarrow> bool" where
  "check_arguments si dr \<longleftrightarrow>
     (case dr of None \<Rightarrow> True | Some d \<Rightarrow>
        \<not> (dr_capabilities d AND CAPABILITY_PULL_RENDERER \<noteq> 0 \<and> has_submitDecodeUnit d)
      \<and> \<not> (dr_capabilities d AND CAPABILITY_PULL_RENDERER \<noteq> 0 \<and> dr_capabilities d AND CAPABILITY_DIRECT_SUBMIT \<noteq> 0))
     \<and> serverCodecModeSupport si \<noteq> 0"

definition install_arguments ::
  "conn_env \<Rightarrow> server_information \<Rightarrow> stream_config \<Rightarrow> dr_callbacks option \<Rightarrow> connection \<Rightarrow> connection" where
  "install_arguments e si cfg dr c = c\<lparr>
     AppVersionQuad := snd (extractVersionQuadFromString (serverInfoAppVersion si)),
     videoCapabilities := (case dr of None \<Rightarrow> 0 | Some d \<Rightarrow> dr_capabilities d),
     NegotiatedVideoFormat := 0, StreamConfig := cfg,
     RemoteAddrString := (if strdup_ok e then Some (address si) else None),
     VideoPortNumber := 0, ControlPortNumber := 0, AudioPortNumber := 0,
     RtspPortNumber := (case parseRtspPortNumberFromUrl (rtspSessionUrl si) of Some p \<Rightarrow> p | None \<Rightarrow> 48010),
     alreadyTerminated := False, ConnectionInterrupted := False\<rparr>"

definition MAGIC_BYTE_FROM_AUDIO_CONFIG :: "u32 \<Rightarrow> u32" where
  "MAGIC_BYTE_FROM_AUDIO_CONFIG x = x AND 0xFF"
definition CHANNEL_COUNT_FROM_AUDIO_CONFIGURATION :: "u32 \<Rightarrow> u32" where
  "CHANNEL_COUNT_FROM_AUDIO_CONFIGURATION x = drop_bit 8 x AND 0xFF"
definition AUDIO_CONFIGURATION_MAX_CHANNEL_COUNT :: u32 where "AUDIO_CONFIGURATION_MAX_CHANNEL_COUNT = 8"

text \<open>
  The checks and adjustments of the stream configuration.  \<open>None\<close> is the error exit.
\<close>

definition adjust_config :: "stream_config \<Rightarrow> stream_config option" where
  "adjust_config cfg =
     (if MAGIC_BYTE_FROM_AUDIO_CONFIG (audioConfiguration cfg) \<noteq> 0xCA
         \<or> CHANNEL_COUNT_FROM_AUDIO_CONFIGURATION (audioConfiguration cfg) > AUDIO_CONFIGURATION_MAX_CHANNEL_COUNT
      then None
      else let cfg = cfg\<lparr>packetSize := packetSize cfg - c_mod (packetSize cfg) 16\<rparr> in
      if packetSize cfg = 0 then None
      else Some (if odd (cfg_height cfg) then cfg\<lparr>cfg_height := cfg_height cfg AND NOT 1\<rparr> else cfg))"

definition disable_rfi :: "connection \<Rightarrow> connection" where
  "disable_rfi c =
     (if cfg_width (StreamConfig c) = 3840 \<and> cfg_height (StreamConfig c) = 2160
         \<and> videoCapabilities c AND CAPABILITY_REFERENCE_FRAME_INVALIDATION_AVC \<noteq> 0 \<and> \<not> IS_SUNSHINE (AppVersionQuad c)
      then c\<lparr>videoCapabilities := videoCapabilities c AND NOT CAPABILITY_REFERENCE_FRAME_INVALIDATION_AVC\<rparr> else c)"

text \<open>A failing step jumps to \<open>Cleanup\<close> with its error; otherwise the next step runs.\<close>

type_synonym outcome = "(int \<times> connection) option"

definition and_then :: "outcome \<Rightarrow> (connection \<Rightarrow> outcome) \<Rightarrow> outcome" where
  "and_then x f = do { (err, c) \<leftarrow> x; if err \<noteq> 0 then Some (err, c) else f c }"

text \<open>The block of one stage, around the function of the component.\<close>

definition run_stage :: "conn_env \<Rightarrow> nat \<Rightarrow> (connection \<Rightarrow> outcome) \<Rightarrow> connection \<Rightarrow> outcome" where
  "run_stage e n x c = do {
     (_, c) \<leftarrow> call e (StageStarting n) c;
     (err, c) \<leftarrow> x c;
     if err \<noteq> 0 then do { (_, c) \<leftarrow> call e (StageFailed n err) c; Some (err, c) }
     else do {
       let c = c\<lparr>conn_stage := conn_stage c + 1\<rparr>;
       LC_ASSERT (conn_stage c = n);
       (_, c) \<leftarrow> call e (StageComplete n) c;
       Some (0, c) } }"

text \<open>The result of \<open>initializeVideoStream\<close> and \<open>initializeInputStream\<close> is not looked at.\<close>

definition call_unchecked :: "conn_env \<Rightarrow> conn_call \<Rightarrow> connection \<Rightarrow> outcome" where
  "call_unchecked e x c = do { (_, c) \<leftarrow> call e x c; Some (0, c) }"

definition resolve_at :: "conn_env \<Rightarrow> u32 \<Rightarrow> connection \<Rightarrow> outcome" where
  "resolve_at e port c = do {
     r \<leftarrow> resolveHostName (hosts e (trace c)) AF_UNSPEC port;
     let err = (case r of Inl x \<Rightarrow> x | Inr _ \<Rightarrow> 0);
     let c = (case r of Inl _ \<Rightarrow> c | Inr a \<Rightarrow> c\<lparr>RemoteAddr := a\<rparr>);
     (_, c) \<leftarrow> call e (ResolveHostName port err) c;
     Some (err, c) }"

definition or_else :: "outcome \<Rightarrow> (connection \<Rightarrow> outcome) \<Rightarrow> outcome" where
  "or_else x f = do { (err, c) \<leftarrow> x; if err \<noteq> 0 then f c else Some (err, c) }"

definition resolve_name :: "conn_env \<Rightarrow> connection \<Rightarrow> outcome" where
  "resolve_name e c = do {
     LC_ASSERT (RtspPortNumber c \<noteq> 0);
     if RtspPortNumber c \<noteq> 48010 then
       or_else (resolve_at e (ucast (RtspPortNumber c)) c) (\<lambda>c. do {
         (_, c) \<leftarrow> call e (SleepMs 1000) c;
         resolve_at e (ucast (RtspPortNumber c)) c })
     else or_else (or_else (resolve_at e 47984 c) (resolve_at e 47989)) (resolve_at e 48010) }"

definition decide_remote :: "conn_env \<Rightarrow> connection \<Rightarrow> connection" where
  "decide_remote e c =
     (if streamingRemotely (StreamConfig c) = STREAM_CFG_AUTO then
        let isNat64 = isNat64SynthesizedAddress (ipv4only e (trace c)) (RemoteAddr c) in
        if \<not> isNat64 \<and> isPrivateNetworkAddress (RemoteAddr c)
        then c\<lparr>StreamConfig := (StreamConfig c)\<lparr>streamingRemotely := STREAM_CFG_LOCAL\<rparr>\<rparr>
        else if (case RemoteAddr c of AF_INET _ \<Rightarrow> True | _ \<Rightarrow> False) \<or> isNat64
        then c\<lparr>StreamConfig := (StreamConfig c)\<lparr>streamingRemotely := STREAM_CFG_REMOTE, packetSize := 1024\<rparr>\<rparr>
        else c\<lparr>StreamConfig := (StreamConfig c)\<lparr>streamingRemotely := STREAM_CFG_REMOTE, packetSize := 1184\<rparr>\<rparr>
      else c)"

definition start_stages :: "conn_env \<Rightarrow> connection \<Rightarrow> outcome" where
  "start_stages e c = foldl and_then (Some (0, c))
    [run_stage e STAGE_PLATFORM_INIT (call e InitializePlatform),
     run_stage e STAGE_NAME_RESOLUTION (resolve_name e),
     \<lambda>c. Some (0, decide_remote e c),
     run_stage e STAGE_AUDIO_STREAM_INIT (call e InitializeAudioStream),
     run_stage e STAGE_RTSP_HANDSHAKE (call e PerformRtspHandshake),
     run_stage e STAGE_CONTROL_STREAM_INIT (call e InitializeControlStream),
     run_stage e STAGE_VIDEO_STREAM_INIT (call_unchecked e InitializeVideoStream),
     run_stage e STAGE_INPUT_STREAM_INIT (call_unchecked e InitializeInputStream),
     run_stage e STAGE_CONTROL_STREAM_START (call e StartControlStream),
     run_stage e STAGE_VIDEO_STREAM_START (call e StartVideoStream),
     run_stage e STAGE_AUDIO_STREAM_START (call e StartAudioStream),
     run_stage e STAGE_INPUT_STREAM_START (call e StartInputStream),
     call_unchecked e (SendMouseMove 1 1), call_unchecked e (SleepMs 10),
     call_unchecked e (SendMouseMove (- 1) (- 1)), call_unchecked e (SleepMs 10),
     call_unchecked e ConnectionStarted]"

definition start_session :: "conn_env \<Rightarrow> server_information \<Rightarrow> stream_config \<Rightarrow> dr_callbacks option \<Rightarrow> connection \<Rightarrow> outcome" where
  "start_session e si cfg dr c =
     (let err = fst (extractVersionQuadFromString (serverInfoAppVersion si)) in
      if err < 0 then Some (- 1, c)
      else let c = install_arguments e si cfg dr c in
        case adjust_config (StreamConfig c) of None \<Rightarrow> Some (- 1, c)
        | Some cfg \<Rightarrow> start_stages e (disable_rfi (c\<lparr>StreamConfig := cfg\<rparr>)))"

definition LiStartConnection ::
  "conn_env \<Rightarrow> server_information \<Rightarrow> stream_config \<Rightarrow> dr_callbacks option \<Rightarrow> connection \<Rightarrow> outcome" where
  "LiStartConnection e si cfg dr c = do {
     LC_ASSERT (check_arguments si dr);
     (err, c) \<leftarrow> start_session e si cfg dr c;
     if err \<noteq> 0 then do { c \<leftarrow> LiStopConnection e c; Some (err, c) } else Some (err, c) }"

section \<open>What the calls acquire and release\<close>

text \<open>
  Replaying the trace on a stack: a successful initialisation or start pushes what it set up, a stop or
  cleanup must find it on the top.
\<close>

datatype held = Platform | AudioInit | ControlInit | VideoInit | InputInit
  | ControlRunning | VideoRunning | AudioRunning | InputRunning

fun acquires :: "conn_event \<Rightarrow> held option" where
  "acquires (Called InitializePlatform r) = (if r = 0 then Some Platform else None)"
| "acquires (Called InitializeAudioStream r) = (if r = 0 then Some AudioInit else None)"
| "acquires (Called InitializeControlStream r) = (if r = 0 then Some ControlInit else None)"
| "acquires (Called InitializeVideoStream r) = Some VideoInit"
| "acquires (Called InitializeInputStream r) = Some InputInit"
| "acquires (Called StartControlStream r) = (if r = 0 then Some ControlRunning else None)"
| "acquires (Called StartVideoStream r) = (if r = 0 then Some VideoRunning else None)"
| "acquires (Called StartAudioStream r) = (if r = 0 then Some AudioRunning else None)"
| "acquires (Called StartInputStream r) = (if r = 0 then Some InputRunning else None)"
| "acquires _ = None"

fun releases :: "conn_event \<Rightarrow> held option" where
  "releases (Called CleanupPlatform r) = Some Platform"
| "releases (Called DestroyAudioStream r) = Some AudioInit"
| "releases (Called DestroyControlStream r) = Some ControlInit"
| "releases (Called DestroyVideoStream r) = Some VideoInit"
| "releases (Called DestroyInputStream r) = Some InputInit"
| "releases (Called StopControlStream r) = Some ControlRunning"
| "releases (Called StopVideoStream r) = Some VideoRunning"
| "releases (Called StopAudioStream r) = Some AudioRunning"
| "releases (Called StopInputStream r) = Some InputRunning"
| "releases _ = None"

fun replay_step :: "held list option \<Rightarrow> conn_event \<Rightarrow> held list option" where
  "replay_step None ev = None"
| "replay_step (Some st) ev = (case releases ev of
     Some x \<Rightarrow> (case st of y # rest \<Rightarrow> if x = y then Some rest else None | [] \<Rightarrow> None)
   | None \<Rightarrow> (case acquires ev of Some x \<Rightarrow> Some (x # st) | None \<Rightarrow> Some st))"

definition replay :: "conn_event list \<Rightarrow> held list option" where
  "replay evs = foldl replay_step (Some []) evs"

text \<open>What is held at each stage.\<close>

definition stage_holds :: "nat \<Rightarrow> held list" where
  "stage_holds s = concat (map (\<lambda>(n, x). if n \<le> s then [x] else [])
     [(11, InputRunning), (10, AudioRunning), (9, VideoRunning), (8, ControlRunning), (7, InputInit), (6, VideoInit),
      (5, ControlInit), (3, AudioInit), (1, Platform)])"

definition balanced :: "connection \<Rightarrow> bool" where
  "balanced c \<longleftrightarrow> replay (trace c) = Some (stage_holds (conn_stage c))"

section \<open>Callbacks\<close>

definition callbacks :: "connection \<Rightarrow> nat" where
  "callbacks c = length (filter (\<lambda>ev. case ev of CallbackThread _ \<Rightarrow> True | _ \<Rightarrow> False) (trace c))"

text \<open>How many more callbacks the current session can issue.\<close>

definition room :: "connection \<Rightarrow> nat" where
  "room c = (if alreadyTerminated c \<or> ConnectionInterrupted c then 0 else 1)"

section \<open>Calls\<close>

definition kept :: "connection \<Rightarrow> connection \<Rightarrow> bool" where
  "kept c c' \<longleftrightarrow> conn_stage c' = conn_stage c \<and> StreamConfig c' = StreamConfig c \<and> RtspPortNumber c' = RtspPortNumber c
     \<and> RemoteAddrString c' = RemoteAddrString c
     \<and> callbacks c' + room c' \<le> callbacks c + room c \<and> room c' \<le> room c"

lemma kept_refl [intro, simp]: "kept c c"
  by (simp add: kept_def)

lemma kept_trans: "kept a b \<Longrightarrow> kept b c \<Longrightarrow> kept a c"
  by (auto simp: kept_def)

lemma replay_snoc: "replay (evs @ [ev]) = replay_step (replay evs) ev"
  by (simp add: replay_def)

lemma run_async_kept:
  assumes "run_async a c = Some c'"
  shows "kept c c' \<and> replay (trace c') = replay (trace c)"
proof (cases a)
  case Interrupt
  then show ?thesis using assms by (auto simp: LiInterruptConnection_def kept_def callbacks_def room_def)
next
  case (Terminate code created)
  then show ?thesis
    using assms
    by (auto simp: ClInternalConnectionTerminated_def kept_def callbacks_def room_def Let_def replay_snoc split: if_splits)
      (cases "replay (trace c)"; simp)
qed

lemma run_asyncs_kept:
  "run_asyncs as c = Some c' \<Longrightarrow> kept c c' \<and> replay (trace c') = replay (trace c)"
proof (induction as arbitrary: c)
  case Nil
  then show ?case by simp
next
  case (Cons a as)
  then obtain d where d: "run_async a c = Some d" "run_asyncs as d = Some c'" by (auto simp: bind_eq_Some_conv)
  then show ?case using Cons.IH [OF d(2)] run_async_kept [OF d(1)] kept_trans by metis
qed

lemma call_kept:
  assumes "call e x c = Some (r, c')"
  shows "kept c c'" and "replay (trace c') = replay_step (replay (trace c)) (Called x r)"
proof -
  obtain others where a: "run_asyncs others (c\<lparr>trace := trace c @ [Called x r]\<rparr>) = Some c'"
    using assms by (auto simp: call_def split: prod.splits)
  have "kept c (c\<lparr>trace := trace c @ [Called x r]\<rparr>)" by (simp add: kept_def callbacks_def room_def)
  then show "kept c c'" using run_asyncs_kept [OF a] kept_trans by blast
  show "replay (trace c') = replay_step (replay (trace c)) (Called x r)"
    using run_asyncs_kept [OF a] by (simp add: replay_snoc)
qed

text \<open>The environments in which the callback thread can always be created.\<close>

definition creates_threads :: "conn_env \<Rightarrow> bool" where
  "creates_threads e \<longleftrightarrow> (\<forall>tr x. \<forall>a \<in> set (snd (answer e tr x)). case a of Interrupt \<Rightarrow> True | Terminate _ created \<Rightarrow> created)"

lemma run_asyncs_returns:
  "\<forall>a \<in> set as. case a of Interrupt \<Rightarrow> True | Terminate _ created \<Rightarrow> created \<Longrightarrow> \<exists>c'. run_asyncs as c = Some c'"
proof (induction as arbitrary: c)
  case Nil
  show ?case by simp
next
  case (Cons a as)
  have "\<exists>d. run_async a c = Some d"
    using Cons.prems by (cases a) (auto simp: ClInternalConnectionTerminated_def Let_def)
  then show ?case using Cons by auto
qed

lemma call_returns: "creates_threads e \<Longrightarrow> \<exists>r c'. call e x c = Some (r, c')"
  using run_asyncs_returns [of "snd (answer e (trace c) x)" "c\<lparr>trace := trace c @ [Called x (fst (answer e (trace c) x))]\<rparr>"]
  by (auto simp: call_def creates_threads_def split: prod.split)

section \<open>Stopping undoes what was done\<close>

text \<open>
  The state between two steps: balanced, at a stage, within a budget \<open>B\<close> of callbacks, with a usable
  port.
\<close>

definition settled :: "nat \<Rightarrow> connection \<Rightarrow> bool" where
  "settled B c \<longleftrightarrow> balanced c \<and> conn_stage c \<le> 11 \<and> callbacks c + room c \<le> B"

definition undoes :: "nat \<Rightarrow> conn_call option \<Rightarrow> bool" where
  "undoes s u \<longleftrightarrow> (case u of None \<Rightarrow> stage_holds s = stage_holds (s - 1)
     | Some x \<Rightarrow> (\<forall>r. \<exists>h. releases (Called x r) = Some h \<and> stage_holds s = h # stage_holds (s - 1)))"

lemma undoes_facts:
  "undoes 11 (Some StopInputStream)" "undoes 10 (Some StopAudioStream)" "undoes 9 (Some StopVideoStream)"
  "undoes 8 (Some StopControlStream)" "undoes 7 (Some DestroyInputStream)" "undoes 6 (Some DestroyVideoStream)"
  "undoes 5 (Some DestroyControlStream)" "undoes 4 None" "undoes 3 (Some DestroyAudioStream)" "undoes 2 None"
  "undoes 1 (Some CleanupPlatform)"
  by (simp_all add: undoes_def stage_holds_def)

lemma undo_stage_settled:
  assumes run: "undo_stage e s u c = Some c'" and inv: "settled B c" "conn_stage c \<le> s" "0 < s" and u: "undoes s u"
  shows "settled B c' \<and> conn_stage c' \<le> s - 1 \<and> RemoteAddrString c' = RemoteAddrString c \<and> room c' \<le> room c"
proof (cases "conn_stage c = s")
  case False
  then show ?thesis using run inv by (simp add: undo_stage_def)
next
  case at: True
  show ?thesis
  proof (cases u)
    case None
    then show ?thesis
      using run inv u at by (auto simp: undo_stage_def settled_def balanced_def undoes_def callbacks_def room_def)
  next
    case (Some x)
    then obtain r d where d: "call e x c = Some (r, d)" "c' = d\<lparr>conn_stage := conn_stage d - 1\<rparr>"
      using run at by (auto simp: undo_stage_def bind_eq_Some_conv)
    obtain h where h: "releases (Called x r) = Some h" "stage_holds s = h # stage_holds (s - 1)"
      using u Some by (auto simp: undoes_def)
    have "replay (trace d) = Some (stage_holds (s - 1))"
      using call_kept(2) [OF d(1)] inv h at by (simp add: settled_def balanced_def)
    then show ?thesis
      using call_kept(1) [OF d(1)] d(2) inv at by (auto simp: settled_def balanced_def kept_def callbacks_def room_def)
  qed
qed

lemma undo_stage_returns: "creates_threads e \<Longrightarrow> \<exists>c'. undo_stage e s u c = Some c'"
  using call_returns [of e] by (auto simp: undo_stage_def bind_eq_Some_conv split: option.split)

lemma LiStopConnection_settled:
  assumes run: "LiStopConnection e c = Some c'" and inv: "settled B c"
  shows "settled B c' \<and> conn_stage c' = 0 \<and> RemoteAddrString c' = None \<and> room c' = 0"
proof -
  let ?c = "LiInterruptConnection (c\<lparr>alreadyTerminated := True\<rparr>)"
  have c0: "settled B ?c \<and> conn_stage ?c \<le> 11 \<and> room ?c = 0"
    using inv by (auto simp: settled_def balanced_def LiInterruptConnection_def callbacks_def room_def)
  obtain c1 c2 c3 c4 c5 c6 c7 c8 c9 ca cb where
    steps: "undo_stage e 11 (Some StopInputStream) ?c = Some c1" "undo_stage e 10 (Some StopAudioStream) c1 = Some c2"
      "undo_stage e 9 (Some StopVideoStream) c2 = Some c3" "undo_stage e 8 (Some StopControlStream) c3 = Some c4"
      "undo_stage e 7 (Some DestroyInputStream) c4 = Some c5" "undo_stage e 6 (Some DestroyVideoStream) c5 = Some c6"
      "undo_stage e 5 (Some DestroyControlStream) c6 = Some c7" "undo_stage e 4 None c7 = Some c8"
      "undo_stage e 3 (Some DestroyAudioStream) c8 = Some c9" "undo_stage e 2 None c9 = Some ca"
      "undo_stage e 1 (Some CleanupPlatform) ca = Some cb"
    and last: "c' = (if RemoteAddrString cb \<noteq> None then cb\<lparr>RemoteAddrString := None\<rparr> else cb)"
    using run unfolding LiStopConnection_def stage_defs Let_def
    by (elim bind_eq_Some_conv [THEN iffD1, elim_format] exE conjE) (rule that, assumption+, simp only: option.inject)
  have step: "settled B y \<and> conn_stage y \<le> s - 1 \<and> room y = 0"
    if "undo_stage e s u x = Some y" "undoes s u" "0 < s" "settled B x \<and> conn_stage x \<le> s \<and> room x = 0" for s u x y
    using undo_stage_settled [OF that(1)] that(2-4) by fastforce
  note c1 = step [OF steps(1) undoes_facts(1) _ c0, simplified]
  note c2 = step [OF steps(2) undoes_facts(2) _ c1, simplified]
  note c3 = step [OF steps(3) undoes_facts(3) _ c2, simplified]
  note c4 = step [OF steps(4) undoes_facts(4) _ c3, simplified]
  note c5 = step [OF steps(5) undoes_facts(5) _ c4, simplified]
  note c6 = step [OF steps(6) undoes_facts(6) _ c5, simplified]
  note c7 = step [OF steps(7) undoes_facts(7) _ c6, simplified]
  note c8 = step [OF steps(8) undoes_facts(8) _ c7, simplified]
  note c9 = step [OF steps(9) undoes_facts(9) _ c8, simplified]
  note ca = step [OF steps(10) undoes_facts(10) _ c9, simplified]
  note cb = step [OF steps(11) [unfolded One_nat_def] undoes_facts(11) [unfolded One_nat_def] _ ca, simplified]
  show ?thesis using cb by (auto simp: last settled_def balanced_def callbacks_def room_def)
qed

lemma LiStopConnection_returns:
  assumes "creates_threads e" "settled B c"
  shows "\<exists>c'. LiStopConnection e c = Some c'"
proof -
  have undo: "\<exists>y. undo_stage e s u x = Some y \<and> settled B y \<and> conn_stage y \<le> s - 1"
    if "undoes s u" "0 < s" "settled B x \<and> conn_stage x \<le> s" for s u x
    using undo_stage_returns [OF assms(1), of s u x] undo_stage_settled [of e s u x _ B] that by blast
  let ?c = "LiInterruptConnection (c\<lparr>alreadyTerminated := True\<rparr>)"
  have c0: "settled B ?c \<and> conn_stage ?c \<le> 11"
    using assms(2) by (auto simp: settled_def balanced_def LiInterruptConnection_def callbacks_def room_def)
  obtain c1 where c1: "undo_stage e 11 (Some StopInputStream) ?c = Some c1" "settled B c1 \<and> conn_stage c1 \<le> 10"
    using undo [OF undoes_facts(1) _ c0] by auto
  obtain c2 where c2: "undo_stage e 10 (Some StopAudioStream) c1 = Some c2" "settled B c2 \<and> conn_stage c2 \<le> 9"
    using undo [OF undoes_facts(2) _ c1(2)] by auto
  obtain c3 where c3: "undo_stage e 9 (Some StopVideoStream) c2 = Some c3" "settled B c3 \<and> conn_stage c3 \<le> 8"
    using undo [OF undoes_facts(3) _ c2(2)] by auto
  obtain c4 where c4: "undo_stage e 8 (Some StopControlStream) c3 = Some c4" "settled B c4 \<and> conn_stage c4 \<le> 7"
    using undo [OF undoes_facts(4) _ c3(2)] by auto
  obtain c5 where c5: "undo_stage e 7 (Some DestroyInputStream) c4 = Some c5" "settled B c5 \<and> conn_stage c5 \<le> 6"
    using undo [OF undoes_facts(5) _ c4(2)] by auto
  obtain c6 where c6: "undo_stage e 6 (Some DestroyVideoStream) c5 = Some c6" "settled B c6 \<and> conn_stage c6 \<le> 5"
    using undo [OF undoes_facts(6) _ c5(2)] by auto
  obtain c7 where c7: "undo_stage e 5 (Some DestroyControlStream) c6 = Some c7" "settled B c7 \<and> conn_stage c7 \<le> 4"
    using undo [OF undoes_facts(7) _ c6(2)] by auto
  obtain c8 where c8: "undo_stage e 4 None c7 = Some c8" "settled B c8 \<and> conn_stage c8 \<le> 3"
    using undo [OF undoes_facts(8) _ c7(2)] by auto
  obtain c9 where c9: "undo_stage e 3 (Some DestroyAudioStream) c8 = Some c9" "settled B c9 \<and> conn_stage c9 \<le> 2"
    using undo [OF undoes_facts(9) _ c8(2)] by auto
  obtain ca where ca: "undo_stage e 2 None c9 = Some ca" "settled B ca \<and> conn_stage ca \<le> 1"
    using undo [OF undoes_facts(10) _ c9(2)] by auto
  obtain cb where cb: "undo_stage e 1 (Some CleanupPlatform) ca = Some cb" "settled B cb \<and> conn_stage cb \<le> 0"
    using undo [OF undoes_facts(11) _ ca(2)] by auto
  show ?thesis
    using cb(2) unfolding LiStopConnection_def stage_defs Let_def
    by (simp add: c1(1) c2(1) c3(1) c4(1) c5(1) c6(1) c7(1) c8(1) c9(1) ca(1) cb(1) [unfolded One_nat_def])
qed

section \<open>Starting\<close>

text \<open>What holds before stage \<open>n + 1\<close>, and the contract of a step that leads from stage \<open>n\<close> to stage \<open>m\<close>.\<close>

definition config_ok :: "stream_config \<Rightarrow> bool" where
  "config_ok cfg \<longleftrightarrow> 16 dvd packetSize cfg \<and> packetSize cfg \<noteq> 0 \<and> even (cfg_height cfg)"

definition at_stage :: "nat \<Rightarrow> nat \<Rightarrow> connection \<Rightarrow> bool" where
  "at_stage B n c \<longleftrightarrow> settled B c \<and> conn_stage c = n \<and> config_ok (StreamConfig c) \<and> RtspPortNumber c \<noteq> 0"

definition leads :: "nat \<Rightarrow> conn_env \<Rightarrow> nat \<Rightarrow> nat \<Rightarrow> (connection \<Rightarrow> outcome) \<Rightarrow> bool" where
  "leads B e n m f \<longleftrightarrow> (\<forall>c. at_stage B n c \<longrightarrow>
     (creates_threads e \<longrightarrow> f c \<noteq> None)
     \<and> (\<forall>err c'. f c = Some (err, c') \<longrightarrow> (if err = 0 then at_stage B m c' else settled B c')))"

definition led :: "nat \<Rightarrow> conn_env \<Rightarrow> nat \<Rightarrow> outcome \<Rightarrow> bool" where
  "led B e m x \<longleftrightarrow> (creates_threads e \<longrightarrow> x \<noteq> None)
     \<and> (\<forall>err c'. x = Some (err, c') \<longrightarrow> (if err = 0 then at_stage B m c' else settled B c'))"

lemma leads_led: "leads B e n m f \<Longrightarrow> at_stage B n c \<Longrightarrow> led B e m (f c)"
  by (simp add: leads_def led_def)

lemma and_then_led:
  assumes x: "led B e n x" and f: "leads B e n m f"
  shows "led B e m (and_then x f)"
proof (cases x)
  case None
  then show ?thesis using x by (simp add: led_def and_then_def)
next
  case (Some y)
  obtain err c where y: "y = (err, c)" by (cases y) auto
  show ?thesis
  proof (cases "err = 0")
    case True
    then have "at_stage B n c" using x Some y by (simp add: led_def)
    then have "led B e m (f c)" using leads_led [OF f] by blast
    then show ?thesis using Some y True by (simp add: and_then_def)
  next
    case False
    then show ?thesis using x Some y by (auto simp: led_def and_then_def)
  qed
qed

text \<open>A chain of steps with the stages between them.\<close>

fun leads_chain :: "nat \<Rightarrow> conn_env \<Rightarrow> nat \<Rightarrow> (nat \<times> (connection \<Rightarrow> outcome)) list \<Rightarrow> bool" where
  "leads_chain B e n [] = True"
| "leads_chain B e n ((m, f) # fs) = (leads B e n m f \<and> leads_chain B e m fs)"

lemma leads_chain_led:
  "leads_chain B e n fs \<Longrightarrow> led B e n x \<Longrightarrow> led B e (last (n # map fst fs)) (foldl and_then x (map snd fs))"
  by (induction fs arbitrary: n x) (auto simp: and_then_led)

lemma at_stage_kept:
  assumes "kept c c'" "at_stage B n c" "replay (trace c') = replay (trace c)"
  shows "at_stage B n c'"
  using assms by (auto simp: kept_def at_stage_def settled_def balanced_def)

lemma at_stage_call:
  assumes "call e x c = Some (r, c')" "at_stage B n c" "releases (Called x r) = None" "acquires (Called x r) = None"
  shows "at_stage B n c'"
proof (rule at_stage_kept [OF call_kept(1) [OF assms(1)] assms(2)])
  have "replay (trace c) = Some (stage_holds n)" using assms(2) by (simp add: at_stage_def settled_def balanced_def)
  then show "replay (trace c') = replay (trace c)"
    using call_kept(2) [OF assms(1)] assms(3,4) by simp
qed

lemma call_unchecked_leads:
  assumes "\<And>r. releases (Called x r) = None" "\<And>r. acquires (Called x r) = None"
  shows "leads B e n n (call_unchecked e x)"
  unfolding leads_def
proof (intro allI impI conjI)
  fix c assume c: "at_stage B n c"
  show "call_unchecked e x c \<noteq> None" if e: "creates_threads e"
    using call_returns [OF e, of x c] by (auto simp: call_unchecked_def)
  fix err c' assume "call_unchecked e x c = Some (err, c')"
  then obtain r where "call e x c = Some (r, c')" "err = 0"
    by (auto simp: call_unchecked_def bind_eq_Some_conv)
  then show "if err = 0 then at_stage B n c' else settled B c'"
    using at_stage_call [OF _ c assms] by simp
qed

text \<open>
  The function of a stage: on success it has acquired what the next stage holds, on failure nothing; it
  leaves the stage number to \<open>run_stage\<close>.
\<close>

definition stage_body :: "nat \<Rightarrow> conn_env \<Rightarrow> nat \<Rightarrow> (connection \<Rightarrow> outcome) \<Rightarrow> bool" where
  "stage_body B e n f \<longleftrightarrow> (\<forall>c. at_stage B n c \<longrightarrow>
     (creates_threads e \<longrightarrow> f c \<noteq> None)
     \<and> (\<forall>err c'. f c = Some (err, c') \<longrightarrow> kept c c'
          \<and> replay (trace c') = Some (stage_holds (if err = 0 then n + 1 else n))))"

lemma stage_bodyD:
  assumes "stage_body B e n f" "at_stage B n c"
  shows "creates_threads e \<Longrightarrow> \<exists>err c'. f c = Some (err, c')"
    and "f c = Some (err, c') \<Longrightarrow> kept c c' \<and> replay (trace c') = Some (stage_holds (if err = 0 then n + 1 else n))"
  using assms unfolding stage_body_def by (metis not_None_eq prod.exhaust_sel, blast)

lemma run_stage_eq:
  assumes "call e (StageStarting n) c = Some (r1, c1)" "f c1 = Some (err, c2)"
  shows "err = 0 \<Longrightarrow> conn_stage c2 + 1 = n \<Longrightarrow> run_stage e n f c
      = Option.bind (call e (StageComplete n) (c2\<lparr>conn_stage := n\<rparr>)) (\<lambda>(_, c). Some (0, c))"
    and "err \<noteq> 0 \<Longrightarrow> run_stage e n f c = Option.bind (call e (StageFailed n err) c2) (\<lambda>(_, c). Some (err, c))"
  using assms by (simp_all add: run_stage_def Let_def)

lemma bind_second_SomeE:
  assumes "Option.bind x (\<lambda>(_, c). Some (k, c)) = Some (err, c')"
  obtains r where "x = Some (r, c')" "err = k"
  using assms by (auto simp: bind_eq_Some_conv)

lemma run_stage_leads:
  assumes f: "stage_body B e n f" and n: "n < 11"
  shows "leads B e n (n + 1) (run_stage e (n + 1) f)"
  unfolding leads_def
proof (intro allI impI conjI)
  fix c assume c: "at_stage B n c"
  show "run_stage e (n + 1) f c \<noteq> None" if e: "creates_threads e"
  proof -
    obtain r1 c1 where c1: "call e (StageStarting (n + 1)) c = Some (r1, c1)" using call_returns [OF e] by blast
    have s1: "at_stage B n c1" using at_stage_call [OF c1 c] by simp
    obtain err c2 where c2: "f c1 = Some (err, c2)" using stage_bodyD(1) [OF f s1 e] by blast
    have "conn_stage c2 = n" using stage_bodyD(2) [OF f s1 c2] s1 by (simp add: kept_def at_stage_def)
    moreover obtain r3 c3 where "call e (StageFailed (n + 1) err) c2 = Some (r3, c3)" using call_returns [OF e] by blast
    moreover obtain r4 c4 where "call e (StageComplete (n + 1)) (c2\<lparr>conn_stage := Suc (conn_stage c2)\<rparr>) = Some (r4, c4)"
      using call_returns [OF e] by blast
    ultimately show ?thesis using c1 c2 by (simp add: run_stage_def Let_def)
  qed
  fix err c' assume run: "run_stage e (n + 1) f c = Some (err, c')"
  obtain r1 c1 where c1: "call e (StageStarting (n + 1)) c = Some (r1, c1)"
    using run by (cases "call e (StageStarting (n + 1)) c") (auto simp: run_stage_def)
  obtain err2 c2 where c2: "f c1 = Some (err2, c2)"
    using run c1 by (cases "f c1") (auto simp: run_stage_def)
  have s1: "at_stage B n c1" using at_stage_call [OF c1 c] by simp
  have k2: "kept c1 c2" and r2: "replay (trace c2) = Some (stage_holds (if err2 = 0 then n + 1 else n))"
    using stage_bodyD(2) [OF f s1 c2] by simp_all
  show "if err = 0 then at_stage B (n + 1) c' else settled B c'"
  proof (cases "err2 = 0")
    case True
    let ?c = "c2\<lparr>conn_stage := n + 1\<rparr>"
    have st: "conn_stage c2 = n" using k2 s1 by (simp add: kept_def at_stage_def)
    obtain r3 where c3: "call e (StageComplete (n + 1)) ?c = Some (r3, c')" and "err = 0"
      using trans [OF run_stage_eq(1) [of e "n + 1" c r1 c1 f err2 c2, OF c1 c2 True, symmetric] run] st
      by (auto elim!: bind_second_SomeE)
    have "at_stage B (n + 1) ?c"
      using k2 r2 s1 True n by (simp add: at_stage_def settled_def balanced_def kept_def callbacks_def room_def)
    then show ?thesis using at_stage_call [OF c3] \<open>err = 0\<close> by simp
  next
    case False
    obtain r3 where c3: "call e (StageFailed (n + 1) err2) c2 = Some (r3, c')" and "err \<noteq> 0"
      using trans [OF run_stage_eq(2) [of e "n + 1" c r1 c1 f err2 c2, OF c1 c2 False, symmetric] run] False by (auto elim!: bind_second_SomeE)
    have "at_stage B n c2"
      using k2 r2 s1 False by (simp add: at_stage_def settled_def balanced_def kept_def)
    then show ?thesis using at_stage_call [OF c3] \<open>err \<noteq> 0\<close> by (simp add: at_stage_def)
  qed
qed

text \<open>The functions of the stages.\<close>

lemma call_body:
  assumes "\<And>r. releases (Called x r) = None"
    and "\<And>r. stage_holds (if r = 0 then n + 1 else n) = (case acquires (Called x r) of Some h \<Rightarrow> h # stage_holds n | None \<Rightarrow> stage_holds n)"
  shows "stage_body B e n (call e x)"
  unfolding stage_body_def
proof (intro allI impI conjI)
  fix c assume c: "at_stage B n c"
  show "call e x c \<noteq> None" if "creates_threads e" using call_returns [OF that, of x c] by auto
  fix err c' assume run: "call e x c = Some (err, c')"
  show "kept c c'" by (rule call_kept(1) [OF run])
  have "replay (trace c) = Some (stage_holds n)" using c by (simp add: at_stage_def settled_def balanced_def)
  then show "replay (trace c') = Some (stage_holds (if err = 0 then n + 1 else n))"
    using call_kept(2) [OF run] assms by (simp split: option.splits)
qed

lemma call_unchecked_body:
  assumes "\<And>r. releases (Called x r) = None" "\<And>r. \<exists>h. acquires (Called x r) = Some h \<and> stage_holds (n + 1) = h # stage_holds n"
  shows "stage_body B e n (call_unchecked e x)"
  unfolding stage_body_def
proof (intro allI impI conjI)
  fix c assume c: "at_stage B n c"
  show "call_unchecked e x c \<noteq> None" if "creates_threads e"
    using call_returns [OF that, of x c] by (auto simp: call_unchecked_def)
  fix err c' assume "call_unchecked e x c = Some (err, c')"
  then obtain r where run: "call e x c = Some (r, c')" and "err = 0"
    unfolding call_unchecked_def by (auto elim!: bind_second_SomeE)
  show "kept c c'" by (rule call_kept(1) [OF run])
  obtain h where "acquires (Called x r) = Some h" "stage_holds (n + 1) = h # stage_holds n" using assms(2) by blast
  moreover have "replay (trace c) = Some (stage_holds n)" using c by (simp add: at_stage_def settled_def balanced_def)
  ultimately show "replay (trace c') = Some (stage_holds (if err = 0 then n + 1 else n))"
    using call_kept(2) [OF run] assms(1) \<open>err = 0\<close> by simp
qed

definition silent :: "conn_env \<Rightarrow> (connection \<Rightarrow> outcome) \<Rightarrow> bool" where
  "silent e f \<longleftrightarrow> (\<forall>c. (creates_threads e \<longrightarrow> f c \<noteq> None)
     \<and> (\<forall>err c'. f c = Some (err, c') \<longrightarrow> kept c c' \<and> replay (trace c') = replay (trace c)))"

lemma silent_call: 
  assumes "\<And>r. releases (Called x r) = None" "\<And>r. acquires (Called x r) = None"
  shows "silent e (call e x)"
  unfolding silent_def
proof (intro allI impI conjI)
  fix c :: connection
  show "call e x c \<noteq> None" if "creates_threads e" using call_returns [OF that, of x c] by auto
  fix err c' assume run: "call e x c = Some (err, c')"
  show "kept c c'" by (rule call_kept(1) [OF run])
  show "replay (trace c') = replay (trace c)"
    using call_kept(2) [OF run] assms by (cases "replay (trace c)") simp_all
qed

lemma silentD:
  assumes "silent e f"
  shows "creates_threads e \<Longrightarrow> \<exists>err c'. f c = Some (err, c')"
    and "f c = Some (err, c') \<Longrightarrow> kept c c'" and "f c = Some (err, c') \<Longrightarrow> replay (trace c') = replay (trace c)"
  using assms unfolding silent_def by (metis not_None_eq prod.exhaust_sel, blast, blast)

lemma silent_comp:
  assumes f: "silent e f" and g: "\<And>err. silent e (g err)"
  shows "silent e (\<lambda>c. Option.bind (f c) (\<lambda>(err, c). g err c))"
  unfolding silent_def
proof (intro allI impI conjI)
  fix c :: connection
  show "Option.bind (f c) (\<lambda>(err, c). g err c) \<noteq> None" if e: "creates_threads e"
  proof -
    obtain err d where d: "f c = Some (err, d)" using silentD(1) [OF f e] by blast
    obtain err' c' where "g err d = Some (err', c')" using silentD(1) [OF g e] by blast
    then show ?thesis by (simp add: d)
  qed
  fix err' c' assume run: "Option.bind (f c) (\<lambda>(err, c). g err c) = Some (err', c')"
  then obtain err d where d: "f c = Some (err, d)" by (cases "f c") auto
  with run have g1: "g err d = Some (err', c')" by simp
  show "kept c c'" by (rule kept_trans [OF silentD(2) [OF f d] silentD(2) [OF g g1]])
  show "replay (trace c') = replay (trace c)" using silentD(3) [OF f d] silentD(3) [OF g g1] by simp
qed

lemma silent_return: "silent e (\<lambda>c. Some (err, c))"
  by (simp add: silent_def)

lemma silent_resolve_at: "silent e (resolve_at e port)"
  unfolding silent_def
proof (intro allI impI conjI)
  fix c :: connection
  obtain r where r: "resolveHostName (hosts e (trace c)) AF_UNSPEC port = Some r" using resolveHostName_returns by blast
  define err where "err = (case r of Inl x \<Rightarrow> x | Inr _ \<Rightarrow> 0)"
  define d where "d = (case r of Inl _ \<Rightarrow> c | Inr a \<Rightarrow> c\<lparr>RemoteAddr := a\<rparr>)"
  have eq: "resolve_at e port c = Option.bind (call e (ResolveHostName port err) d) (\<lambda>(_, c). Some (err, c))"
    by (simp add: resolve_at_def r err_def d_def Let_def)
  have d: "kept c d" "trace d = trace c"
    by (auto simp: d_def kept_def callbacks_def room_def split: sum.splits)
  show "resolve_at e port c \<noteq> None" if "creates_threads e"
    using call_returns [OF that, of "ResolveHostName port err" d] by (auto simp: eq)
  fix err' c' assume "resolve_at e port c = Some (err', c')"
  then obtain r' where run: "call e (ResolveHostName port err) d = Some (r', c')"
    unfolding eq by (auto elim!: bind_second_SomeE)
  show "kept c c'" using call_kept(1) [OF run] d kept_trans by blast
  show "replay (trace c') = replay (trace c)"
    using call_kept(2) [OF run] d by (cases "replay (trace c)") simp_all
qed

lemma silent_if: "silent e f \<Longrightarrow> silent e g \<Longrightarrow> silent e (\<lambda>c. if P then f c else g c)"
  by (cases P) simp_all

lemma silent_or_else:
  assumes "silent e f" "silent e g"
  shows "silent e (\<lambda>c. or_else (f c) g)"
  unfolding or_else_def by (intro silent_comp silent_if assms silent_return)

lemma resolve_name_body: "stage_body B e 1 (resolve_name e)"
  unfolding stage_body_def
proof (intro allI impI conjI)
  fix c :: connection
  assume c: "at_stage B 1 c"
  let ?retry = "\<lambda>c. Option.bind (call e (SleepMs 1000) c) (\<lambda>(_, c). resolve_at e (ucast (RtspPortNumber c)) c)"
  have at: "silent e (\<lambda>c. resolve_at e (ucast (RtspPortNumber c)) c)"
    using silent_resolve_at [of e] unfolding silent_def by blast
  have "silent e ?retry"
    by (rule silent_comp [where g = "\<lambda>_ c. resolve_at e (ucast (RtspPortNumber c)) c", OF silent_call at]) simp_all
  then have s1: "silent e (\<lambda>c. or_else (resolve_at e (ucast (RtspPortNumber c)) c) ?retry)"
    by (rule silent_or_else [OF at])
  have s2: "silent e (\<lambda>c. or_else (or_else (resolve_at e 47984 c) (resolve_at e 47989)) (resolve_at e 48010))"
    by (intro silent_or_else silent_resolve_at)
  have eq: "resolve_name e c = (if RtspPortNumber c \<noteq> 48010 then or_else (resolve_at e (ucast (RtspPortNumber c)) c) ?retry
      else or_else (or_else (resolve_at e 47984 c) (resolve_at e 47989)) (resolve_at e 48010))"
    using c by (simp add: resolve_name_def at_stage_def)
  show "resolve_name e c \<noteq> None" if th: "creates_threads e"
    using silentD(1) [OF s1 th, of c] silentD(1) [OF s2 th, of c] unfolding eq by auto
  fix err c' assume run: "resolve_name e c = Some (err, c')"
  show "kept c c'"
    using run silentD(2) [OF s1, of c err c'] silentD(2) [OF s2, of c err c'] unfolding eq by (simp split: if_splits)
  have "replay (trace c') = replay (trace c)"
    using run silentD(3) [OF s1, of c err c'] silentD(3) [OF s2, of c err c'] unfolding eq by (simp split: if_splits)
  then show "replay (trace c') = Some (stage_holds (if err = 0 then 1 + 1 else 1))"
    using c by (simp add: at_stage_def settled_def balanced_def stage_holds_def)
qed

lemma decide_remote_at_stage: "at_stage B n c \<Longrightarrow> at_stage B n (decide_remote e c)"
  by (auto simp: decide_remote_def Let_def at_stage_def settled_def balanced_def callbacks_def room_def config_ok_def)

lemma decide_remote_leads: "leads B e n n (\<lambda>c. Some (0, decide_remote e c))"
  by (simp add: leads_def decide_remote_at_stage)

text \<open>The stages in their order, each with the number it leads to.\<close>

lemma start_stages_leads: "leads_chain B e 0
    [(1, run_stage e STAGE_PLATFORM_INIT (call e InitializePlatform)),
     (2, run_stage e STAGE_NAME_RESOLUTION (resolve_name e)),
     (2, \<lambda>c. Some (0, decide_remote e c)),
     (3, run_stage e STAGE_AUDIO_STREAM_INIT (call e InitializeAudioStream)),
     (4, run_stage e STAGE_RTSP_HANDSHAKE (call e PerformRtspHandshake)),
     (5, run_stage e STAGE_CONTROL_STREAM_INIT (call e InitializeControlStream)),
     (6, run_stage e STAGE_VIDEO_STREAM_INIT (call_unchecked e InitializeVideoStream)),
     (7, run_stage e STAGE_INPUT_STREAM_INIT (call_unchecked e InitializeInputStream)),
     (8, run_stage e STAGE_CONTROL_STREAM_START (call e StartControlStream)),
     (9, run_stage e STAGE_VIDEO_STREAM_START (call e StartVideoStream)),
     (10, run_stage e STAGE_AUDIO_STREAM_START (call e StartAudioStream)),
     (11, run_stage e STAGE_INPUT_STREAM_START (call e StartInputStream)),
     (11, call_unchecked e (SendMouseMove 1 1)), (11, call_unchecked e (SleepMs 10)),
     (11, call_unchecked e (SendMouseMove (- 1) (- 1))), (11, call_unchecked e (SleepMs 10)),
     (11, call_unchecked e ConnectionStarted)]"
proof -
  have st: "leads B e n m (run_stage e m f)" if "stage_body B e n f" "m = n + 1" "n < 11" for n m f
    using run_stage_leads [OF that(1,3)] that(2) by simp
  note hs = stage_holds_def
  have "leads B e 0 1 (run_stage e 1 (call e InitializePlatform))"
    by (rule st [OF call_body]) (simp_all add: hs)
  moreover have "leads B e 1 2 (run_stage e 2 (resolve_name e))"
    by (rule st [OF resolve_name_body]) simp_all
  moreover have "leads B e 2 3 (run_stage e 3 (call e InitializeAudioStream))"
    by (rule st [OF call_body]) (simp_all add: hs)
  moreover have "leads B e 3 4 (run_stage e 4 (call e PerformRtspHandshake))"
    by (rule st [OF call_body]) (simp_all add: hs)
  moreover have "leads B e 4 5 (run_stage e 5 (call e InitializeControlStream))"
    by (rule st [OF call_body]) (simp_all add: hs)
  moreover have "leads B e 5 6 (run_stage e 6 (call_unchecked e InitializeVideoStream))"
    by (rule st [OF call_unchecked_body]) (simp_all add: hs)
  moreover have "leads B e 6 7 (run_stage e 7 (call_unchecked e InitializeInputStream))"
    by (rule st [OF call_unchecked_body]) (simp_all add: hs)
  moreover have "leads B e 7 8 (run_stage e 8 (call e StartControlStream))"
    by (rule st [OF call_body]) (simp_all add: hs)
  moreover have "leads B e 8 9 (run_stage e 9 (call e StartVideoStream))"
    by (rule st [OF call_body]) (simp_all add: hs)
  moreover have "leads B e 9 10 (run_stage e 10 (call e StartAudioStream))"
    by (rule st [OF call_body]) (simp_all add: hs)
  moreover have "leads B e 10 11 (run_stage e 11 (call e StartInputStream))"
    by (rule st [OF call_body]) (simp_all add: hs)
  ultimately show ?thesis
    unfolding stage_defs leads_chain.simps by (intro conjI TrueI decide_remote_leads call_unchecked_leads) simp_all
qed

lemma start_stages_led:
  assumes "at_stage B 0 c"
  shows "led B e 11 (start_stages e c)"
proof -
  have "led B e 0 (Some (0, c))" using assms by (simp add: led_def)
  from leads_chain_led [OF start_stages_leads this]
  show ?thesis unfolding start_stages_def list.map prod.sel by simp
qed

lemma adjust_config_ok: "adjust_config cfg = Some cfg' \<Longrightarrow> config_ok cfg'"
proof -
  assume run: "adjust_config cfg = Some cfg'"
  have dvd: "16 dvd k - c_mod k 16" for k
  proof (cases "0 \<le> k")
    case True
    then show ?thesis by (cases "k = 0") (simp_all add: c_mod_def)
  next
    case False
    then have "k - c_mod k 16 = - (- k - (- k) mod 16)" by (simp add: c_mod_def)
    moreover have "16 dvd - k - (- k) mod 16" by simp
    ultimately show ?thesis by (metis dvd_minus_iff)
  qed
  have ev: "even (n AND NOT 1)" for n :: int
    by (simp add: even_and_iff)
  show ?thesis
    using run dvd [of "packetSize cfg"] ev [of "cfg_height cfg"]
    by (auto simp: adjust_config_def config_ok_def Let_def split: if_splits)
qed

lemma parsed_port_nonzero: "parseRtspPortNumberFromUrl u = Some p \<Longrightarrow> p \<noteq> 0"
proof -
  assume "parseRtspPortNumberFromUrl u = Some p"
  then obtain r where r: "p = word_of_int r" "0 < r" "r \<le> 65535"
    by (auto simp: parseRtspPortNumberFromUrl_def Let_def split: option.splits if_splits)
  then have "uint p = r" by (simp add: uint_word_of_int)
  then show ?thesis using r by auto
qed

lemma install_arguments_port: "RtspPortNumber (install_arguments e si cfg dr c) \<noteq> 0"
  by (auto simp: install_arguments_def parsed_port_nonzero split: option.split)

lemma start_session_led:
  assumes c: "settled B c" "conn_stage c = 0" "callbacks c + 1 \<le> B"
  shows "led B e 11 (start_session e si cfg dr c)"
proof -
  let ?c = "install_arguments e si cfg dr c"
  have s: "settled B ?c \<and> conn_stage ?c = 0"
    using c by (simp add: install_arguments_def settled_def balanced_def callbacks_def room_def)
  show ?thesis
  proof (cases "adjust_config (StreamConfig ?c)")
    case None
    then show ?thesis using s by (simp add: start_session_def led_def extractVersionQuadFromString_def Let_def)
  next
    case (Some cfg')
    have "at_stage B 0 (disable_rfi (?c\<lparr>StreamConfig := cfg'\<rparr>))"
      using s adjust_config_ok [OF Some] install_arguments_port [of e si cfg dr c]
      by (simp add: disable_rfi_def at_stage_def settled_def balanced_def callbacks_def room_def)
    then show ?thesis
      using Some start_stages_led by (simp add: start_session_def extractVersionQuadFromString_def Let_def)
  qed
qed

lemma LiStartConnection_outcome:
  assumes run: "LiStartConnection e si cfg dr c = Some (err, c')"
    and c: "settled B c" "conn_stage c = 0" "callbacks c + 1 \<le> B"
  shows "settled B c' \<and> (if err = 0 then conn_stage c' = 11 \<and> config_ok (StreamConfig c')
    else conn_stage c' = 0 \<and> RemoteAddrString c' = None \<and> room c' = 0)"
proof -
  obtain err1 c1 where c1: "start_session e si cfg dr c = Some (err1, c1)"
    using run by (cases "start_session e si cfg dr c") (auto simp: LiStartConnection_def bind_eq_Some_conv)
  have led: "if err1 = 0 then at_stage B 11 c1 else settled B c1"
    using start_session_led [OF c, of e si cfg dr] c1 by (simp add: led_def)
  show ?thesis
  proof (cases "err1 = 0")
    case True
    then have "err = 0 \<and> c' = c1" using run c1 by (auto simp: LiStartConnection_def bind_eq_Some_conv)
    then show ?thesis using led True by (simp add: at_stage_def)
  next
    case False
    then obtain "LiStopConnection e c1 = Some c'" "err = err1"
      using run c1 by (auto simp: LiStartConnection_def bind_eq_Some_conv)
    then show ?thesis using LiStopConnection_settled [of e c1 c' B] led False by simp
  qed
qed

lemma LiStartConnection_returns:
  assumes "creates_threads e" "check_arguments si dr" "settled B c" "conn_stage c = 0" "callbacks c + 1 \<le> B"
  shows "\<exists>err c'. LiStartConnection e si cfg dr c = Some (err, c')"
proof -
  have led: "led B e 11 (start_session e si cfg dr c)" by (rule start_session_led [OF assms(3-5)])
  then obtain err c1 where c1: "start_session e si cfg dr c = Some (err, c1)" using assms(1) by (auto simp: led_def)
  show ?thesis
  proof (cases "err = 0")
    case True
    then show ?thesis using c1 assms(2) by (simp add: LiStartConnection_def)
  next
    case False
    then have "settled B c1" using led c1 by (simp add: led_def)
    then show ?thesis
      using LiStopConnection_returns [OF assms(1)] c1 assms(2) False by (force simp: LiStartConnection_def)
  qed
qed

section \<open>Sessions\<close>

definition static_connection :: connection where
  "static_connection = \<lparr>conn_stage = STAGE_NONE, alreadyTerminated = False, ConnectionInterrupted = False,
     terminationCallbackErrorCode = 0, RemoteAddrString = None, RemoteAddr = AF_OTHER,
     AppVersionQuad = \<lparr>vq0 = 0, vq1 = 0, vq2 = 0, vq3 = 0\<rparr>, NegotiatedVideoFormat = 0,
     StreamConfig = \<lparr>cfg_width = 0, cfg_height = 0, packetSize = 0, streamingRemotely = 0, audioConfiguration = 0\<rparr>,
     videoCapabilities = 0, RtspPortNumber = 0, VideoPortNumber = 0, ControlPortNumber = 0, AudioPortNumber = 0,
     trace = []\<rparr>"

text \<open>What the client and the library's threads do between the calls of one another.\<close>

datatype conn_op = Start conn_env server_information stream_config "dr_callbacks option" | Stop conn_env | Meanwhile async

fun is_start :: "conn_op \<Rightarrow> bool" where
  "is_start (Start _ _ _ _) = True"
| "is_start _ = False"

fun conn_step :: "conn_op \<Rightarrow> connection \<Rightarrow> connection option" where
  "conn_step (Start e si cfg dr) c = map_option snd (LiStartConnection e si cfg dr c)"
| "conn_step (Stop e) c = LiStopConnection e c"
| "conn_step (Meanwhile a) c = run_async a c"

fun conn_run :: "conn_op list \<Rightarrow> connection \<Rightarrow> connection option" where
  "conn_run [] c = Some c"
| "conn_run (op # ops) c = do { c \<leftarrow> conn_step op c; conn_run ops c }"

text \<open>The client starts a session only when none is running.\<close>

fun starts_idle :: "conn_op list \<Rightarrow> connection \<Rightarrow> bool" where
  "starts_idle [] c = True"
| "starts_idle (op # ops) c = ((is_start op \<longrightarrow> conn_stage c = STAGE_NONE)
     \<and> (case conn_step op c of None \<Rightarrow> True | Some c' \<Rightarrow> starts_idle ops c'))"

text \<open>Between calls no session is half started.\<close>

definition at_rest :: "connection \<Rightarrow> bool" where
  "at_rest c \<longleftrightarrow> balanced c \<and> (conn_stage c = 0 \<or> conn_stage c = 11)"

lemma at_rest_settled: "at_rest c \<Longrightarrow> settled (callbacks c + 1) c"
  by (auto simp: at_rest_def settled_def room_def)

lemma conn_step_at_rest:
  assumes run: "conn_step op c = Some c'" and c: "at_rest c" and idle: "is_start op \<longrightarrow> conn_stage c = STAGE_NONE"
  shows "at_rest c' \<and> callbacks c' + room c' \<le> callbacks c + (if is_start op then 1 else room c)"
proof (cases op)
  case (Start e si cfg dr)
  then obtain err where "LiStartConnection e si cfg dr c = Some (err, c')" using run by auto
  from LiStartConnection_outcome [OF this at_rest_settled [OF c]] show ?thesis
    using Start idle by (auto simp: at_rest_def settled_def STAGE_NONE_def split: if_splits)
next
  case (Stop e)
  have "settled (callbacks c + room c) c" using c by (auto simp: at_rest_def settled_def)
  from LiStopConnection_settled [OF _ this, of e c'] show ?thesis
    using Stop run by (auto simp: at_rest_def settled_def)
next
  case (Meanwhile a)
  then show ?thesis
    using run_async_kept [of a c c'] run c by (auto simp: at_rest_def balanced_def kept_def)
qed

lemma conn_run_at_rest:
  "conn_run ops c = Some c' \<Longrightarrow> starts_idle ops c \<Longrightarrow> at_rest c \<Longrightarrow>
     at_rest c' \<and> callbacks c' + room c' \<le> callbacks c + room c + length (filter is_start ops)"
proof (induction ops arbitrary: c)
  case Nil
  then show ?case by simp
next
  case (Cons op ops)
  then obtain d where d: "conn_step op c = Some d" "conn_run ops d = Some c'" by (auto simp: bind_eq_Some_conv)
  have "at_rest d \<and> callbacks d + room d \<le> callbacks c + (if is_start op then 1 else room c)"
    by (rule conn_step_at_rest [OF d(1) Cons.prems(3)]) (use Cons.prems in simp)
  then show ?case using Cons.IH [OF d(2)] Cons.prems(2) d(1) by auto
qed

lemma starts_idle_no_start: "list_all (\<lambda>op. \<not> is_start op) ops \<Longrightarrow> starts_idle ops c"
  by (induction ops arbitrary: c) (auto split: option.split)

lemma conn_run_append: "conn_run (xs @ ys) c = Option.bind (conn_run xs c) (conn_run ys)"
  by (induction xs arbitrary: c) (auto simp: Option.bind_assoc intro!: Option.bind_cong)

section \<open>Properties\<close>

lemma static_connection_at_rest: "at_rest static_connection"
  by (simp add: at_rest_def balanced_def static_connection_def replay_def stage_holds_def STAGE_NONE_def)

text \<open>
  Property C7.  Over every history of sessions, with interruptions and terminations from other threads at any
  call, whatever is set up is taken down once and in the reverse order: the trace is a sequence of nested
  acquisitions and releases, nothing is held when no session runs, and all nine parts are when one does.
\<close>

theorem connection_history_balanced:
  assumes "conn_run ops static_connection = Some c" "starts_idle ops static_connection"
  shows "replay (trace c) = Some (if conn_stage c = STAGE_NONE then []
      else [InputRunning, AudioRunning, VideoRunning, ControlRunning, InputInit, VideoInit, ControlInit, AudioInit, Platform])
    \<and> conn_stage c \<in> {STAGE_NONE, STAGE_INPUT_STREAM_START}"
proof -
  have "at_rest c" using conn_run_at_rest [OF assms static_connection_at_rest] by simp
  then show ?thesis
    by (auto simp: at_rest_def balanced_def stage_holds_def stage_defs)
qed



text \<open>A session in which the video stream does not start, and one that runs until a thread reports its end.\<close>

definition demo_env :: "(conn_event list \<Rightarrow> conn_call \<Rightarrow> int \<times> async list) \<Rightarrow> conn_env" where
  "demo_env f = \<lparr>answer = f,
     hosts = (\<lambda>_. \<lparr>gai = (\<lambda>_. (0, [AF_INET [192, 168, 0, 10]])), host_v4 = None, tcp_connects = (\<lambda>_ _. True)\<rparr>),
     ipv4only = (\<lambda>_. (1, [])), strdup_ok = True\<rparr>"

definition demo_server :: server_information where
  "demo_server = \<lparr>address = ''host'', serverInfoAppVersion = ''7.1.431.-1'',
     rtspSessionUrl = Some ''rtsp://host:48010'', serverCodecModeSupport = 1\<rparr>"

definition demo_config :: stream_config where
  "demo_config = \<lparr>cfg_width = 1280, cfg_height = 721, packetSize = 1030, streamingRemotely = STREAM_CFG_AUTO,
     audioConfiguration = 0x302CA\<rparr>"

definition no_video :: conn_env where
  "no_video = demo_env (\<lambda>_ x. (if x = StartVideoStream then - 5 else 0, []))"

definition ending_session :: conn_env where
  "ending_session = demo_env (\<lambda>_ x. (0, if x = ConnectionStarted then [Terminate (- 7) True, Terminate (- 8) True] else []))"

definition summary :: "connection option \<Rightarrow> (nat \<times> nat \<times> held list option \<times> int \<times> int) option" where
  "summary x = map_option (\<lambda>c. (conn_stage c, callbacks c, replay (trace c), packetSize (StreamConfig c), cfg_height (StreamConfig c))) x"

lemma creates_threads_demo: "creates_threads no_video" "creates_threads ending_session"
  by (auto simp: creates_threads_def no_video_def ending_session_def demo_env_def)

lemma demo_start_run: "summary (conn_run [Start no_video demo_server demo_config None, Start ending_session demo_server demo_config None,
     Meanwhile (Terminate 3 True)] static_connection)
   = Some (11, 1, Some [InputRunning, AudioRunning, VideoRunning, ControlRunning, InputInit, VideoInit, ControlInit, AudioInit, Platform],
       1024, 720)"
  by code_simp

definition demo_ops :: "conn_op list" where
  "demo_ops = [Start no_video demo_server demo_config None, Start ending_session demo_server demo_config None,
     Meanwhile (Terminate 3 True)]"

lemma demo_ops_run: "\<exists>c. conn_run demo_ops static_connection = Some c \<and> conn_stage c = 11"
  using demo_start_run by (auto simp: summary_def demo_ops_def)

theorem connection_history_balanced_witness:
  "\<exists>c. conn_run demo_ops static_connection = Some c \<and> replay (trace c)
     = Some [InputRunning, AudioRunning, VideoRunning, ControlRunning, InputInit, VideoInit, ControlInit, AudioInit, Platform]"
proof -
  have "starts_idle demo_ops static_connection" by code_simp
  then show ?thesis
    using demo_ops_run connection_history_balanced [of demo_ops] by (force simp: STAGE_NONE_def)
qed



section \<open>The version and the port\<close>

lemma after_last_append: "c \<notin> set t \<Longrightarrow> after_last c (s @ c # t) = Some t"
proof -
  assume "c \<notin> set t"
  then have "takeWhile (\<lambda>x. x \<noteq> c) (rev t @ c # rev s) = rev t" by (subst takeWhile_append2) auto
  then show ?thesis by (simp add: after_last_def)
qed

text \<open>
  The port of a session URL is the number behind its last colon: written in decimal behind the host
  it is read back.  In a URL with an IPv6 literal and no port the last colon is one of the address, and a
  part of the address is taken for the port.
\<close>

theorem session_url_port:
  assumes "0 < n" "n \<le> 65535" "CHR '':'' \<notin> set rest" "rest = [] \<or> \<not> is_digit (hd rest)"
  shows "parseRtspPortNumberFromUrl (Some (url @ CHR '':'' # show_nat n @ rest)) = Some (of_nat n)"
    and "parseRtspPortNumberFromUrl (Some ''rtsp://[2001:db8::5]'') = Some 5"
proof -
  have "CHR '':'' \<notin> set (show_nat n)" using show_nat_digits [of n] by (auto simp: is_digit_def)
  then have "after_last (CHR '':'') (url @ CHR '':'' # show_nat n @ rest) = Some (show_nat n @ rest)"
    using assms(3) by (intro after_last_append) simp
  moreover have "strtol10 (show_nat n @ rest) = (int n, rest)"
    using assms(2,4) by (intro strtol10_show_nat) simp_all
  ultimately show "parseRtspPortNumberFromUrl (Some (url @ CHR '':'' # show_nat n @ rest)) = Some (of_nat n)"
    using assms(1,2) by (simp add: parseRtspPortNumberFromUrl_def Let_def)
  show "parseRtspPortNumberFromUrl (Some ''rtsp://[2001:db8::5]'') = Some 5" by code_simp
qed

theorem session_url_port_witness:
  "parseRtspPortNumberFromUrl (Some (''rtsp://host'' @ CHR '':'' # show_nat 48010 @ ''/'')) = Some (of_nat 48010)"
  by (rule session_url_port(1)) (simp_all add: is_digit_def)

lemma version_examples:
  "extractVersionQuadFromString ''7.1.431.-1'' = (0, \<lparr>vq0 = 7, vq1 = 1, vq2 = 431, vq3 = - 1\<rparr>)"
  "extractVersionQuadFromString ''3.23'' = (0, \<lparr>vq0 = 3, vq1 = 23, vq2 = 0, vq3 = 0\<rparr>)"
  by code_simp+

text \<open>The remote packet size is not a cap: a smaller size the client asked for is raised.\<close>

lemma remote_packet_size_raised:
  "packetSize (StreamConfig (decide_remote no_video (static_connection\<lparr>RemoteAddr := AF_INET [8, 8, 8, 8],
     StreamConfig := demo_config\<lparr>packetSize := 512\<rparr>\<rparr>))) = 1024"
  by code_simp

end
