(* ===== verification/InputPackets.thy ===== *)
theory InputPackets
  imports Prelude
begin

text \<open>
  Input.h: the packets of the input stream.  A packet is its header and the rest of its structure; the
  structures are packed, so their memory image is the concatenation of their fields, least
  significant byte first.  A field that the code stores in network order holds the swapped value.  A
  \<open>float\<close> is the word of its bits.
\<close>

section \<open>Structures\<close>

record multi_controller =
  mc_headerB :: u16
  mc_controllerNumber :: u16
  mc_activeGamepadMask :: u16
  mc_midB :: u16
  mc_buttonFlags :: u16
  mc_leftTrigger :: u8
  mc_rightTrigger :: u8
  mc_leftStickX :: u16
  mc_leftStickY :: u16
  mc_rightStickX :: u16
  mc_rightStickY :: u16
  mc_tailA :: u16
  mc_buttonFlags2 :: u16
  mc_tailB :: u16

record legacy_controller =
  lc_headerB :: u16
  lc_buttonFlags :: u16
  lc_leftTrigger :: u8
  lc_rightTrigger :: u8
  lc_leftStickX :: u16
  lc_leftStickY :: u16
  lc_rightStickX :: u16
  lc_rightStickY :: u16
  lc_tailA :: u32
  lc_tailB :: u16

record touch_packet =
  touch_eventType :: u8
  touch_rotation :: u16
  touch_pointerId :: u32
  touch_x :: u32
  touch_y :: u32
  touch_pressureOrDistance :: u32
  touch_contactAreaMajor :: u32
  touch_contactAreaMinor :: u32

record pen_packet =
  pen_eventType :: u8
  pen_toolType :: u8
  penButtons :: u8
  pen_x :: u32
  pen_y :: u32
  pen_pressureOrDistance :: u32
  pen_rotation :: u16
  pen_tilt :: u8
  pen_contactAreaMajor :: u32
  pen_contactAreaMinor :: u32

record motion_packet =
  motion_controllerNumber :: u8
  motionType :: u8
  motion_x :: u32
  motion_y :: u32
  motion_z :: u32

text \<open>The union of \<open>PACKET_HOLDER\<close>, by the member that was written.\<close>

datatype input_body =
  Haptics u16
| Keyboard u8 u16 u8 u16
| Unicode "u8 list"
| MouseMoveRel u16 u16
| MouseMoveAbs u16 u16 u16 u16 u16
| MouseButton u8
| Controller legacy_controller
| MultiController multi_controller
| Scroll u16 u16 u16
| HScroll u16
| Touch touch_packet
| Pen pen_packet
| ControllerArrival u8 u8 u16 u32
| ControllerTouch u8 u8 u32 u32 u32 u32
| ControllerMotion motion_packet
| ControllerBattery u8 u8 u8

record input_packet =
  hdr_size :: u32
  hdr_magic :: u32
  body :: input_body

fun body_bytes :: "input_body \<Rightarrow> u8 list" where
  "body_bytes (Haptics enable) = le_bytes 2 enable"
| "body_bytes (Keyboard flags keyCode modifiers zero2) = [flags] @ le_bytes 2 keyCode @ [modifiers] @ le_bytes 2 zero2"
| "body_bytes (Unicode text) = text"
| "body_bytes (MouseMoveRel dx dy) = le_bytes 2 dx @ le_bytes 2 dy"
| "body_bytes (MouseMoveAbs x y unused w h) =
     le_bytes 2 x @ le_bytes 2 y @ le_bytes 2 unused @ le_bytes 2 w @ le_bytes 2 h"
| "body_bytes (MouseButton b) = [b]"
| "body_bytes (Controller c) = le_bytes 2 (lc_headerB c) @ le_bytes 2 (lc_buttonFlags c)
     @ [lc_leftTrigger c, lc_rightTrigger c] @ le_bytes 2 (lc_leftStickX c) @ le_bytes 2 (lc_leftStickY c)
     @ le_bytes 2 (lc_rightStickX c) @ le_bytes 2 (lc_rightStickY c) @ le_bytes 4 (lc_tailA c) @ le_bytes 2 (lc_tailB c)"
| "body_bytes (MultiController c) = le_bytes 2 (mc_headerB c) @ le_bytes 2 (mc_controllerNumber c)
     @ le_bytes 2 (mc_activeGamepadMask c) @ le_bytes 2 (mc_midB c) @ le_bytes 2 (mc_buttonFlags c)
     @ [mc_leftTrigger c, mc_rightTrigger c] @ le_bytes 2 (mc_leftStickX c) @ le_bytes 2 (mc_leftStickY c)
     @ le_bytes 2 (mc_rightStickX c) @ le_bytes 2 (mc_rightStickY c) @ le_bytes 2 (mc_tailA c)
     @ le_bytes 2 (mc_buttonFlags2 c) @ le_bytes 2 (mc_tailB c)"
| "body_bytes (Scroll a1 a2 zero3) = le_bytes 2 a1 @ le_bytes 2 a2 @ le_bytes 2 zero3"
| "body_bytes (HScroll a) = le_bytes 2 a"
| "body_bytes (Touch t) = [touch_eventType t, 0] @ le_bytes 2 (touch_rotation t) @ le_bytes 4 (touch_pointerId t)
     @ le_bytes 4 (touch_x t) @ le_bytes 4 (touch_y t) @ le_bytes 4 (touch_pressureOrDistance t)
     @ le_bytes 4 (touch_contactAreaMajor t) @ le_bytes 4 (touch_contactAreaMinor t)"
| "body_bytes (Pen p) = [pen_eventType p, pen_toolType p, penButtons p, 0] @ le_bytes 4 (pen_x p) @ le_bytes 4 (pen_y p)
     @ le_bytes 4 (pen_pressureOrDistance p) @ le_bytes 2 (pen_rotation p) @ [pen_tilt p, 0]
     @ le_bytes 4 (pen_contactAreaMajor p) @ le_bytes 4 (pen_contactAreaMinor p)"
| "body_bytes (ControllerArrival n type capabilities supportedButtonFlags) =
     [n, type] @ le_bytes 2 capabilities @ le_bytes 4 supportedButtonFlags"
| "body_bytes (ControllerTouch n eventType pointerId x y pressure) =
     [n, eventType, 0, 0] @ le_bytes 4 pointerId @ le_bytes 4 x @ le_bytes 4 y @ le_bytes 4 pressure"
| "body_bytes (ControllerMotion m) = [motion_controllerNumber m, motionType m, 0, 0]
     @ le_bytes 4 (motion_x m) @ le_bytes 4 (motion_y m) @ le_bytes 4 (motion_z m)"
| "body_bytes (ControllerBattery n batteryState batteryPercentage) = [n, batteryState, batteryPercentage, 0]"

definition packet_image :: "input_packet \<Rightarrow> u8 list" where
  "packet_image p = le_bytes 4 (hdr_size p) @ le_bytes 4 (hdr_magic p) @ body_bytes (body p)"

text \<open>\<open>sizeof\<close> of the structure of a packet; the text field of \<open>NV_UNICODE_PACKET\<close> has 32 bytes.\<close>

definition UTF8_TEXT_EVENT_MAX_COUNT :: nat where "UTF8_TEXT_EVENT_MAX_COUNT = 32"

definition sizeof_packet :: "input_body \<Rightarrow> nat" where
  "sizeof_packet b = 8 + (case b of Unicode _ \<Rightarrow> UTF8_TEXT_EVENT_MAX_COUNT | _ \<Rightarrow> length (body_bytes b))"

section \<open>Magic numbers\<close>

definition ENABLE_HAPTICS_MAGIC :: u32 where "ENABLE_HAPTICS_MAGIC = 0x0000000D"
definition UTF8_TEXT_EVENT_MAGIC :: u32 where "UTF8_TEXT_EVENT_MAGIC = 0x00000017"
definition MOUSE_MOVE_REL_MAGIC :: u32 where "MOUSE_MOVE_REL_MAGIC = 0x00000006"
definition MOUSE_MOVE_REL_MAGIC_GEN5 :: u32 where "MOUSE_MOVE_REL_MAGIC_GEN5 = 0x00000007"
definition MOUSE_MOVE_ABS_MAGIC :: u32 where "MOUSE_MOVE_ABS_MAGIC = 0x00000005"
definition CONTROLLER_MAGIC :: u32 where "CONTROLLER_MAGIC = 0x0000000A"
definition C_HEADER_B :: u16 where "C_HEADER_B = 0x1400"
definition C_TAIL_A :: u32 where "C_TAIL_A = 0x0000009C"
definition C_TAIL_B :: u16 where "C_TAIL_B = 0x0055"
definition MULTI_CONTROLLER_MAGIC :: u32 where "MULTI_CONTROLLER_MAGIC = 0x0000000D"
definition MULTI_CONTROLLER_MAGIC_GEN5 :: u32 where "MULTI_CONTROLLER_MAGIC_GEN5 = 0x0000000C"
definition MC_HEADER_B :: u16 where "MC_HEADER_B = 0x001A"
definition MC_MID_B :: u16 where "MC_MID_B = 0x0014"
definition MC_TAIL_A :: u16 where "MC_TAIL_A = 0x009C"
definition MC_TAIL_B :: u16 where "MC_TAIL_B = 0x0055"
definition SCROLL_MAGIC :: u32 where "SCROLL_MAGIC = 0x00000009"
definition SCROLL_MAGIC_GEN5 :: u32 where "SCROLL_MAGIC_GEN5 = 0x0000000A"
definition SS_HSCROLL_MAGIC :: u32 where "SS_HSCROLL_MAGIC = 0x55000001"
definition SS_TOUCH_MAGIC :: u32 where "SS_TOUCH_MAGIC = 0x55000002"
definition SS_PEN_MAGIC :: u32 where "SS_PEN_MAGIC = 0x55000003"
definition SS_CONTROLLER_ARRIVAL_MAGIC :: u32 where "SS_CONTROLLER_ARRIVAL_MAGIC = 0x55000004"
definition SS_CONTROLLER_TOUCH_MAGIC :: u32 where "SS_CONTROLLER_TOUCH_MAGIC = 0x55000005"
definition SS_CONTROLLER_MOTION_MAGIC :: u32 where "SS_CONTROLLER_MOTION_MAGIC = 0x55000006"
definition SS_CONTROLLER_BATTERY_MAGIC :: u32 where "SS_CONTROLLER_BATTERY_MAGIC = 0x55000007"

lemmas magic_defs = ENABLE_HAPTICS_MAGIC_def UTF8_TEXT_EVENT_MAGIC_def MOUSE_MOVE_REL_MAGIC_def
  MOUSE_MOVE_REL_MAGIC_GEN5_def MOUSE_MOVE_ABS_MAGIC_def CONTROLLER_MAGIC_def MULTI_CONTROLLER_MAGIC_def
  MULTI_CONTROLLER_MAGIC_GEN5_def SCROLL_MAGIC_def SCROLL_MAGIC_GEN5_def SS_HSCROLL_MAGIC_def SS_TOUCH_MAGIC_def
  SS_PEN_MAGIC_def SS_CONTROLLER_ARRIVAL_MAGIC_def SS_CONTROLLER_TOUCH_MAGIC_def SS_CONTROLLER_MOTION_MAGIC_def
  SS_CONTROLLER_BATTERY_MAGIC_def

section \<open>Holders\<close>

definition ENET_PACKET_FLAG_RELIABLE :: u32 where "ENET_PACKET_FLAG_RELIABLE = 1"

record packet_holder =
  enetPacketFlags :: u32
  channelId :: u8
  packet :: input_packet

text \<open>The size of a standard holder: three pointers, the flags, the channel and 40 bytes of union, padded to 72.\<close>

definition sizeof_holder :: nat where "sizeof_holder = 72"

definition PAYLOAD_SIZE :: "packet_holder \<Rightarrow> u32" where
  "PAYLOAD_SIZE h = BE32 (hdr_size (packet h))"

definition PACKET_SIZE :: "packet_holder \<Rightarrow> nat" where
  "PACKET_SIZE h = unat (PAYLOAD_SIZE h) + 4"

text \<open>The \<open>PACKET_SIZE\<close> bytes of the packet.\<close>

definition holder_bytes :: "packet_holder \<Rightarrow> u8 list option" where
  "holder_bytes h = mem_read (packet_image (packet h)) 0 (PACKET_SIZE h)"

text \<open>A packet of fixed size with its header, as the senders fill it in.\<close>

definition fixed_packet :: "u32 \<Rightarrow> input_body \<Rightarrow> input_packet" where
  "fixed_packet magic b = \<lparr>hdr_size = BE32 (of_nat (sizeof_packet b - 4)), hdr_magic = LE32 magic, body = b\<rparr>"

lemma length_body_bytes_fixed: "\<nexists>t. b = Unicode t \<Longrightarrow> 8 + length (body_bytes b) = sizeof_packet b \<and> sizeof_packet b \<le> 36 \<and> 9 \<le> sizeof_packet b"
  by (cases b) (simp_all add: sizeof_packet_def)

lemma fixed_packet_size:
  assumes "\<nexists>t. b = Unicode t"
  shows "PACKET_SIZE \<lparr>enetPacketFlags = f, channelId = c, packet = fixed_packet magic b\<rparr> = sizeof_packet b"
    and "length (packet_image (fixed_packet magic b)) = sizeof_packet b"
proof -
  have "sizeof_packet b - 4 < (4294967296 :: nat)" using length_body_bytes_fixed [OF assms] by linarith
  then have "unat (of_nat (sizeof_packet b - 4) :: u32) = sizeof_packet b - 4"
    by (simp add: unat_of_nat del: of_nat_diff)
  then show "PACKET_SIZE \<lparr>enetPacketFlags = f, channelId = c, packet = fixed_packet magic b\<rparr> = sizeof_packet b"
    using length_body_bytes_fixed [OF assms]
    by (simp add: PACKET_SIZE_def PAYLOAD_SIZE_def fixed_packet_def del: of_nat_diff)
  show "length (packet_image (fixed_packet magic b)) = sizeof_packet b"
    using length_body_bytes_fixed [OF assms] by (simp add: fixed_packet_def packet_image_def)
qed

text \<open>So a fixed packet is sent whole, and nothing else is.\<close>

lemma fixed_packet_bytes:
  assumes "\<nexists>t. b = Unicode t"
  shows "holder_bytes \<lparr>enetPacketFlags = f, channelId = c, packet = fixed_packet magic b\<rparr>
    = Some (packet_image (fixed_packet magic b))"
  unfolding holder_bytes_def fixed_packet_size(1) [OF assms] using fixed_packet_size(2) [OF assms, of magic]
  by (simp add: mem_read_def)

end
