(* ===== verification/InputStream.thy ===== *)
theory InputStream
  imports InputPackets LinkedBlockingQueue Version
begin

text \<open>
  InputStream.c: the client's input events, the queue of packet holders and the thread that batches and
  sends them.  The queues are the bounded FIFO of LinkedBlockingQueue.thy.  A client call takes the
  batching mutex, so it is one step; the send thread is a machine whose steps other threads can come
  between, where the code releases the mutex.  Encryption, the control stream, the clock, allocation and the
  floating point operations on the mouse position are the environment.  The trace records what is handed to the
  transport, the flushes and the waits.
\<close>

section \<open>State\<close>

definition MAX_GAMEPADS :: nat where "MAX_GAMEPADS = 16"
definition MAX_MOTION_EVENTS :: int where "MAX_MOTION_EVENTS = 2"
definition MAX_INPUT_PACKET_SIZE :: nat where "MAX_INPUT_PACKET_SIZE = 128"
definition MAX_QUEUED_INPUT_PACKETS :: nat where "MAX_QUEUED_INPUT_PACKETS = 150"
definition LI_WHEEL_DELTA :: int where "LI_WHEEL_DELTA = 120"
definition BATCHING_INTERVAL_MS :: u64 where "BATCHING_INTERVAL_MS = 1"

definition CTRL_CHANNEL_GENERIC :: u8 where "CTRL_CHANNEL_GENERIC = 0x00"
definition CTRL_CHANNEL_KEYBOARD :: u8 where "CTRL_CHANNEL_KEYBOARD = 0x02"
definition CTRL_CHANNEL_MOUSE :: u8 where "CTRL_CHANNEL_MOUSE = 0x03"
definition CTRL_CHANNEL_PEN :: u8 where "CTRL_CHANNEL_PEN = 0x04"
definition CTRL_CHANNEL_TOUCH :: u8 where "CTRL_CHANNEL_TOUCH = 0x05"
definition CTRL_CHANNEL_UTF8 :: u8 where "CTRL_CHANNEL_UTF8 = 0x06"
definition CTRL_CHANNEL_GAMEPAD_BASE :: u8 where "CTRL_CHANNEL_GAMEPAD_BASE = 0x10"
definition CTRL_CHANNEL_SENSOR_BASE :: u8 where "CTRL_CHANNEL_SENSOR_BASE = 0x20"
definition CTRL_CHANNEL_COUNT :: nat where "CTRL_CHANNEL_COUNT = 0x30"

definition LI_ERR_UNSUPPORTED :: int where "LI_ERR_UNSUPPORTED = - 5501"
definition LI_TOUCH_EVENT_HOVER :: u8 where "LI_TOUCH_EVENT_HOVER = 0x00"
definition LI_TOUCH_EVENT_MOVE :: u8 where "LI_TOUCH_EVENT_MOVE = 0x03"
definition LI_MOTION_TYPE_GYRO :: u8 where "LI_MOTION_TYPE_GYRO = 0x02"
definition LI_FF_PEN_TOUCH_EVENTS :: u32 where "LI_FF_PEN_TOUCH_EVENTS = 0x01"
definition LI_FF_CONTROLLER_TOUCH_EVENTS :: u32 where "LI_FF_CONTROLLER_TOUCH_EVENTS = 0x02"
definition MODIFIER_SHIFT :: u8 where "MODIFIER_SHIFT = 0x01"
definition MODIFIER_CTRL :: u8 where "MODIFIER_CTRL = 0x02"
definition MODIFIER_ALT :: u8 where "MODIFIER_ALT = 0x04"
definition MODIFIER_META :: u8 where "MODIFIER_META = 0x08"
definition SPECIAL_FLAG :: u32 where "SPECIAL_FLAG = 0x0400"
definition MISC_FLAG :: u32 where "MISC_FLAG = 0x200000"

definition TOUCH_EVENT_IS_BATCHABLE :: "u8 \<Rightarrow> bool" where
  "TOUCH_EVENT_IS_BATCHABLE x \<longleftrightarrow> x = LI_TOUCH_EVENT_HOVER \<or> x = LI_TOUCH_EVENT_MOVE"

record sensor_state =
  sensor_x :: u32
  sensor_y :: u32
  sensor_z :: u32
  sensor_dirty :: bool

record relative_mouse =
  deltaX :: int
  deltaY :: int
  rel_dirty :: bool

record absolute_mouse =
  abs_x :: u16
  abs_y :: u16
  abs_width :: u16
  abs_height :: u16
  abs_dirty :: bool

datatype input_event =
  HandedOver input_packet u8 u32 bool
| ControlSend "u8 list" u8 u32 bool
| SocketSend "u8 list"
| FlushControl
| Sleep int
| ConnectionTerminated int

text \<open>The send thread between its steps: waiting for a holder, splitting a mouse movement, or ended.\<close>

datatype send_phase = Waiting | SplittingMouse packet_holder u64 | Ended

record input_stream =
  initialized :: bool
  encryptedControlStream :: bool
  needsBatchedScroll :: bool
  batchedScrollDelta :: int
  currentAesIv :: "u8 list"
  packetQueue :: "packet_holder bqueue"
  packetHolderFreeList :: "packet_holder bqueue"
  packetQueue_lifetime :: nat
  freeList_lifetime :: nat
  absCurrentPosX :: u32
  absCurrentPosY :: u32
  currentPenButtonState :: u8
  currentGamepadSensorState :: "sensor_state list list"
  currentRelativeMouseState :: relative_mouse
  currentAbsoluteMouseState :: absolute_mouse
  lastControllerPacketTime :: "u64 list"
  lastMousePacketTime :: u64
  lastPenPacketTime :: u64
  phase :: send_phase
  input_trace :: "input_event list"

text \<open>
  The environment of a step.  \<open>stale16\<close> and \<open>stale_text\<close> stand for the memory of a fresh or reused holder in
  the fields the sender leaves to the thread.
\<close>

record input_env =
  in_version :: version
  SunshineFeatureFlags :: u32
  malloc_ok :: bool
  stale16 :: u16
  stale32 :: u32
  stale_text :: "u8 list"
  encrypt_gcm :: "u8 list \<Rightarrow> u8 list \<Rightarrow> (u8 list \<times> u8 list) option"
  encrypt_cbc :: "u8 list \<Rightarrow> u8 list \<Rightarrow> u8 list option"
  send_result :: "input_event list \<Rightarrow> int"
  clock :: "input_event list \<Rightarrow> u64"
  thread_interrupted :: "input_event list \<Rightarrow> bool"
  control_drain_rounds :: nat
  fdiv :: "int \<Rightarrow> int \<Rightarrow> u32"
  fmul_short :: "u32 \<Rightarrow> int \<Rightarrow> u16"

definition initializeInputStream :: "version \<Rightarrow> u8 list \<Rightarrow> u32 \<Rightarrow> input_stream \<Rightarrow> input_stream" where
  "initializeInputStream v remoteInputAesIv half s = s\<lparr>
     currentAesIv := remoteInputAesIv,
     packetQueue := bq_start MAX_QUEUED_INPUT_PACKETS, packetHolderFreeList := bq_start MAX_QUEUED_INPUT_PACKETS,
     packetQueue_lifetime := 0, freeList_lifetime := 0,
     encryptedControlStream := APP_VERSION_AT_LEAST v 7 1 431,
     needsBatchedScroll := (APP_VERSION_AT_LEAST v 7 1 409 \<and> \<not> IS_SUNSHINE v),
     batchedScrollDelta := 0, currentPenButtonState := 0, absCurrentPosX := half, absCurrentPosY := half,
     currentGamepadSensorState := replicate MAX_GAMEPADS (replicate (nat MAX_MOTION_EVENTS)
       \<lparr>sensor_x = 0, sensor_y = 0, sensor_z = 0, sensor_dirty = False\<rparr>),
     currentRelativeMouseState := \<lparr>deltaX = 0, deltaY = 0, rel_dirty = False\<rparr>,
     currentAbsoluteMouseState := \<lparr>abs_x = 0, abs_y = 0, abs_width = 0, abs_height = 0, abs_dirty = False\<rparr>\<rparr>"

definition log :: "input_event \<Rightarrow> input_stream \<Rightarrow> input_stream" where
  "log ev s = s\<lparr>input_trace := input_trace s @ [ev]\<rparr>"

section \<open>Holders\<close>

fun lbq_code :: "lbq_status \<Rightarrow> int" where
  "lbq_code LBQ_SUCCESS = 0"
| "lbq_code LBQ_INTERRUPTED = 1"
| "lbq_code LBQ_BOUND_EXCEEDED = 2"
| "lbq_code LBQ_NO_ELEMENT = 3"
| "lbq_code LBQ_USER_WAKE = 4"

definition offer_to :: "packet_holder \<Rightarrow> packet_holder bqueue \<Rightarrow> lbq_status \<times> packet_holder bqueue" where
  "offer_to h q = (case bq_step (Offer h \<lparr>flink = None, blink = None, data = h\<rparr>) q of
     (Status st _, q') \<Rightarrow> (st, q') | (_, q') \<Rightarrow> (LBQ_SUCCESS, q'))"

definition take_from :: "packet_holder lbq_op \<Rightarrow> packet_holder bqueue \<Rightarrow> lbq_status \<times> packet_holder option \<times> packet_holder bqueue" where
  "take_from op q = (case bq_step op q of (Status st d, q') \<Rightarrow> (st, d, q') | (_, q') \<Rightarrow> (LBQ_NO_ELEMENT, None, q'))"

definition freePacketHolder :: "packet_holder \<Rightarrow> input_stream \<Rightarrow> input_stream option" where
  "freePacketHolder h s = do {
     LC_ASSERT (hdr_size (packet h) \<noteq> 0);
     Some (if PACKET_SIZE h > sizeof_holder then s
       else case offer_to h (packetHolderFreeList s) of (err, q) \<Rightarrow>
         s\<lparr>packetHolderFreeList := q, freeList_lifetime := freeList_lifetime s + (if err = LBQ_SUCCESS then 1 else 0)\<rparr>) }"

text \<open>Whether a holder was obtained.\<close>

definition allocatePacketHolder :: "input_env \<Rightarrow> nat \<Rightarrow> input_stream \<Rightarrow> (bool \<times> input_stream) option" where
  "allocatePacketHolder e extraLength s =
     (if extraLength > 0 then Some (malloc_ok e, s)
      else case take_from Poll (packetHolderFreeList s) of (err, _, q) \<Rightarrow>
        let s = s\<lparr>packetHolderFreeList := q\<rparr> in
        if err = LBQ_SUCCESS then Some (True, s)
        else if err = LBQ_INTERRUPTED then Some (False, s)
        else do { LC_ASSERT (err = LBQ_NO_ELEMENT); Some (malloc_ok e, s) })"

type_synonym input_result = "(int \<times> input_stream) option"

definition with_holder :: "input_env \<Rightarrow> nat \<Rightarrow> (input_stream \<Rightarrow> input_result) \<Rightarrow> input_stream \<Rightarrow> input_result" where
  "with_holder e extra f s = do {
     (ok, s) \<leftarrow> allocatePacketHolder e extra s;
     if \<not> ok then Some (- 1, s) else f s }"

text \<open>The end of the senders: a holder the queue does not take is freed.\<close>

definition enqueue :: "packet_holder \<Rightarrow> input_stream \<Rightarrow> input_result" where
  "enqueue h s = (case offer_to h (packetQueue s) of (err, q) \<Rightarrow>
     let s = s\<lparr>packetQueue := q\<rparr> in
     if err \<noteq> LBQ_SUCCESS then do {
       LC_ASSERT (err = LBQ_BOUND_EXCEEDED);
       s \<leftarrow> freePacketHolder h s;
       Some (lbq_code err, s) }
     else Some (lbq_code err, s\<lparr>packetQueue_lifetime := packetQueue_lifetime s + 1\<rparr>))"

definition holder :: "u8 \<Rightarrow> u32 \<Rightarrow> u32 \<Rightarrow> input_body \<Rightarrow> packet_holder" where
  "holder channel flags magic b = \<lparr>enetPacketFlags = flags, channelId = channel, packet = fixed_packet magic b\<rparr>"

section \<open>Client events\<close>

definition RELIABLE :: u32 where "RELIABLE = ENET_PACKET_FLAG_RELIABLE"

text \<open>Arithmetic of \<open>int\<close>: leaving its range is undefined.\<close>

definition checked_int :: "int \<Rightarrow> int option" where
  "checked_int n = (if - (2 ^ 31) \<le> n \<and> n < 2 ^ 31 then Some n else None)"

definition gen5 :: "input_env \<Rightarrow> bool" where "gen5 e \<longleftrightarrow> vq0 (in_version e) \<ge> 5"

definition relMouseMagic :: "input_env \<Rightarrow> u32" where
  "relMouseMagic e = (if gen5 e then MOUSE_MOVE_REL_MAGIC_GEN5 else MOUSE_MOVE_REL_MAGIC)"
definition multiControllerMagic :: "input_env \<Rightarrow> u32" where
  "multiControllerMagic e = (if gen5 e then MULTI_CONTROLLER_MAGIC_GEN5 else MULTI_CONTROLLER_MAGIC)"
definition scrollMagic :: "input_env \<Rightarrow> u32" where
  "scrollMagic e = (if gen5 e then SCROLL_MAGIC_GEN5 else SCROLL_MAGIC)"

definition sendEnableHaptics :: "input_env \<Rightarrow> input_stream \<Rightarrow> input_result" where
  "sendEnableHaptics e s =
     (if \<not> APP_VERSION_AT_LEAST (in_version e) 7 1 0 then Some (0, s)
      else with_holder e 0 (enqueue (holder CTRL_CHANNEL_GENERIC RELIABLE ENABLE_HAPTICS_MAGIC (Haptics (LE16 1)))) s)"

definition LiSendMouseMoveEvent :: "input_env \<Rightarrow> u16 \<Rightarrow> u16 \<Rightarrow> input_stream \<Rightarrow> input_result" where
  "LiSendMouseMoveEvent e dx dy s =
     (if \<not> initialized s then Some (- 2, s)
      else if dx = 0 \<and> dy = 0 then Some (0, s)
      else do {
        x \<leftarrow> checked_int (deltaX (currentRelativeMouseState s) + sint dx);
        y \<leftarrow> checked_int (deltaY (currentRelativeMouseState s) + sint dy);
        let s = s\<lparr>currentRelativeMouseState := (currentRelativeMouseState s)\<lparr>deltaX := x, deltaY := y\<rparr>\<rparr>;
        if \<not> rel_dirty (currentRelativeMouseState s) then
          with_holder e 0 (\<lambda>s. do {
            (err, s) \<leftarrow> enqueue (holder CTRL_CHANNEL_MOUSE RELIABLE (relMouseMagic e) (MouseMoveRel (stale16 e) (stale16 e))) s;
            Some (err, if err = 0 then s\<lparr>currentRelativeMouseState := (currentRelativeMouseState s)\<lparr>rel_dirty := True\<rparr>\<rparr> else s) }) s
        else Some (0, s) })"

definition CLAMP :: "int \<Rightarrow> int \<Rightarrow> int \<Rightarrow> int" where
  "CLAMP v lo hi = (if v < lo then lo else if v > hi then hi else v)"

text \<open>The tail of \<open>LiSendMousePositionEvent\<close>, outside the mutex.\<close>

definition remember_position :: "input_env \<Rightarrow> u16 \<Rightarrow> u16 \<Rightarrow> u16 \<Rightarrow> u16 \<Rightarrow> input_stream \<Rightarrow> input_stream" where
  "remember_position e x y w h s = s\<lparr>
     absCurrentPosX := fdiv e (CLAMP (sint x) 0 (sint w - 1)) (sint w - 1),
     absCurrentPosY := fdiv e (CLAMP (sint y) 0 (sint h - 1)) (sint h - 1)\<rparr>"

definition LiSendMousePositionEvent :: "input_env \<Rightarrow> u16 \<Rightarrow> u16 \<Rightarrow> u16 \<Rightarrow> u16 \<Rightarrow> input_stream \<Rightarrow> input_result" where
  "LiSendMousePositionEvent e x y referenceWidth referenceHeight s =
     (if \<not> initialized s then Some (- 2, s)
      else let s = s\<lparr>currentAbsoluteMouseState := (currentAbsoluteMouseState s)\<lparr>abs_x := x, abs_y := y,
                       abs_width := referenceWidth, abs_height := referenceHeight\<rparr>\<rparr> in
      if \<not> abs_dirty (currentAbsoluteMouseState s) then do {
        (ok, s) \<leftarrow> allocatePacketHolder e 0 s;
        if \<not> ok then Some (- 1, s)
        else do {
          (err, s) \<leftarrow> enqueue (holder CTRL_CHANNEL_MOUSE RELIABLE MOUSE_MOVE_ABS_MAGIC
             (MouseMoveAbs (stale16 e) (stale16 e) 0 (stale16 e) (stale16 e))) s;
          let s = (if err = 0 then s\<lparr>currentAbsoluteMouseState := (currentAbsoluteMouseState s)\<lparr>abs_dirty := True\<rparr>\<rparr> else s);
          Some (err, remember_position e x y referenceWidth referenceHeight s) } }
      else Some (0, remember_position e x y referenceWidth referenceHeight s))"

definition LiSendMouseMoveAsMousePositionEvent ::
  "input_env \<Rightarrow> u16 \<Rightarrow> u16 \<Rightarrow> u16 \<Rightarrow> u16 \<Rightarrow> input_stream \<Rightarrow> input_result" where
  "LiSendMouseMoveAsMousePositionEvent e dx dy referenceWidth referenceHeight s =
     (let oldPositionX = fmul_short e (absCurrentPosX s) (sint referenceWidth);
          oldPositionY = fmul_short e (absCurrentPosY s) (sint referenceHeight)
      in LiSendMousePositionEvent e
           (word_of_int (CLAMP (sint oldPositionX + sint dx) 0 (sint referenceWidth)))
           (word_of_int (CLAMP (sint oldPositionY + sint dy) 0 (sint referenceHeight)))
           referenceWidth referenceHeight s)"

definition LiSendMouseButtonEvent :: "input_env \<Rightarrow> u8 \<Rightarrow> i32 \<Rightarrow> input_stream \<Rightarrow> input_result" where
  "LiSendMouseButtonEvent e action button s =
     (if \<not> initialized s then Some (- 2, s)
      else with_holder e 0 (enqueue (holder CTRL_CHANNEL_MOUSE RELIABLE
        (LE32 (if gen5 e then ucast action + 1 else ucast action)) (MouseButton (ucast button)))) s)"

definition fix_modifiers :: "u16 \<Rightarrow> u8 \<Rightarrow> u8" where
  "fix_modifiers keyCode modifiers =
     (let k = keyCode AND 0xFF in
      if k = 0x5B \<or> k = 0x5C then modifiers AND NOT MODIFIER_META
      else if k = 0xA0 then modifiers OR MODIFIER_SHIFT
      else if k = 0xA1 then modifiers AND NOT MODIFIER_SHIFT
      else if k = 0xA2 then modifiers OR MODIFIER_CTRL
      else if k = 0xA3 then modifiers AND NOT MODIFIER_CTRL
      else if k = 0xA4 then modifiers OR MODIFIER_ALT
      else if k = 0xA5 then modifiers AND NOT MODIFIER_ALT
      else modifiers)"

definition LiSendKeyboardEvent2 :: "input_env \<Rightarrow> u16 \<Rightarrow> u8 \<Rightarrow> u8 \<Rightarrow> u8 \<Rightarrow> input_stream \<Rightarrow> input_result" where
  "LiSendKeyboardEvent2 e keyCode keyAction modifiers flags s =
     (if \<not> initialized s then Some (- 2, s)
      else with_holder e 0 (enqueue (holder CTRL_CHANNEL_KEYBOARD RELIABLE (LE32 (scast keyAction))
        (Keyboard (if IS_SUNSHINE (in_version e) then flags else 0) (LE16 keyCode)
          (if IS_SUNSHINE (in_version e) then modifiers else fix_modifiers keyCode modifiers) 0))) s)"

definition LiSendKeyboardEvent :: "input_env \<Rightarrow> u16 \<Rightarrow> u8 \<Rightarrow> u8 \<Rightarrow> input_stream \<Rightarrow> input_result" where
  "LiSendKeyboardEvent e keyCode keyAction modifiers s = LiSendKeyboardEvent2 e keyCode keyAction modifiers 0 s"

text \<open>The text lies at the start of the holder's memory behind it, whose rest is stale.\<close>

definition LiSendUtf8TextEvent :: "input_env \<Rightarrow> u8 list \<Rightarrow> input_stream \<Rightarrow> input_result" where
  "LiSendUtf8TextEvent e text s =
     (if \<not> initialized s then Some (- 2, s)
      else with_holder e (length text) (enqueue \<lparr>enetPacketFlags = RELIABLE, channelId = CTRL_CHANNEL_UTF8,
        packet = \<lparr>hdr_size = BE32 (4 + of_nat (length text)), hdr_magic = LE32 UTF8_TEXT_EVENT_MAGIC,
                  body = Unicode (text @ stale_text e)\<rparr>\<rparr>) s)"

section \<open>Controllers, scrolling, touch and pen\<close>

definition controller_buttons :: "input_env \<Rightarrow> i32 \<Rightarrow> i32" where
  "controller_buttons e buttonFlags =
     (let b = (if sint buttonFlags < 0 then buttonFlags AND 0xFFFF else buttonFlags) in
      if \<not> IS_SUNSHINE (in_version e) \<and> b AND MISC_FLAG \<noteq> 0 then b OR SPECIAL_FLAG else b)"

definition controller_number :: "input_env \<Rightarrow> u16 \<Rightarrow> u16" where
  "controller_number e n =
     word_of_int (c_mod (sint n) (if IS_SUNSHINE (in_version e) then int MAX_GAMEPADS else 4))"

definition sendControllerEventInternal ::
  "input_env \<Rightarrow> u16 \<Rightarrow> u16 \<Rightarrow> i32 \<Rightarrow> u8 \<Rightarrow> u8 \<Rightarrow> u16 \<Rightarrow> u16 \<Rightarrow> u16 \<Rightarrow> u16 \<Rightarrow> input_stream \<Rightarrow> input_result" where
  "sendControllerEventInternal e controllerNumber activeGamepadMask buttonFlags lt rt lx ly rx ry s =
     (if \<not> initialized s then Some (- 2, s)
      else
        let b = controller_buttons e buttonFlags;
            n = controller_number e controllerNumber;
            padMask = (if IS_SUNSHINE (in_version e) then activeGamepadMask else activeGamepadMask AND 0xF);
            channel = CTRL_CHANNEL_GAMEPAD_BASE + ucast n
        in with_holder e 0 (enqueue
          (if vq0 (in_version e) = 3 then
             holder channel RELIABLE CONTROLLER_MAGIC (Controller
               \<lparr>lc_headerB = LE16 C_HEADER_B, lc_buttonFlags = LE16 (ucast b), lc_leftTrigger = lt, lc_rightTrigger = rt,
                lc_leftStickX = LE16 lx, lc_leftStickY = LE16 ly, lc_rightStickX = LE16 rx, lc_rightStickY = LE16 ry,
                lc_tailA = LE32 C_TAIL_A, lc_tailB = LE16 C_TAIL_B\<rparr>)
           else
             holder channel RELIABLE (multiControllerMagic e) (MultiController
               \<lparr>mc_headerB = LE16 MC_HEADER_B, mc_controllerNumber = LE16 n, mc_activeGamepadMask = LE16 padMask,
                mc_midB = LE16 MC_MID_B, mc_buttonFlags = LE16 (ucast b), mc_leftTrigger = lt, mc_rightTrigger = rt,
                mc_leftStickX = LE16 lx, mc_leftStickY = LE16 ly, mc_rightStickX = LE16 rx, mc_rightStickY = LE16 ry,
                mc_tailA = LE16 MC_TAIL_A,
                mc_buttonFlags2 = (if IS_SUNSHINE (in_version e) then LE16 (ucast (drop_bit 16 b)) else 0),
                mc_tailB = LE16 MC_TAIL_B\<rparr>))) s)"

definition LiSendControllerEvent ::
  "input_env \<Rightarrow> i32 \<Rightarrow> u8 \<Rightarrow> u8 \<Rightarrow> u16 \<Rightarrow> u16 \<Rightarrow> u16 \<Rightarrow> u16 \<Rightarrow> input_stream \<Rightarrow> input_result" where
  "LiSendControllerEvent e buttonFlags lt rt lx ly rx ry s = sendControllerEventInternal e 0 1 buttonFlags lt rt lx ly rx ry s"

definition LiSendMultiControllerEvent ::
  "input_env \<Rightarrow> u16 \<Rightarrow> u16 \<Rightarrow> i32 \<Rightarrow> u8 \<Rightarrow> u8 \<Rightarrow> u16 \<Rightarrow> u16 \<Rightarrow> u16 \<Rightarrow> u16 \<Rightarrow> input_stream \<Rightarrow> input_result" where
  "LiSendMultiControllerEvent e n padMask buttonFlags lt rt lx ly rx ry s =
     sendControllerEventInternal e n padMask buttonFlags lt rt lx ly rx ry s"

definition scroll_holder :: "input_env \<Rightarrow> int \<Rightarrow> packet_holder" where
  "scroll_holder e amount = holder CTRL_CHANNEL_MOUSE RELIABLE (scrollMagic e)
     (let a = BE16 (word_of_int amount) in Scroll a a 0)"

text \<open>
  The loop that cuts the accumulated scroll into clicks.  The first argument bounds its rounds; \<open>None\<close> when it
  runs out.
\<close>

fun scroll_clicks :: "nat \<Rightarrow> input_env \<Rightarrow> input_stream \<Rightarrow> input_result" where
  "scroll_clicks 0 e s = None"
| "scroll_clicks (Suc n) e s =
     (if \<bar>batchedScrollDelta s\<bar> \<ge> LI_WHEEL_DELTA then
        let amount = (if batchedScrollDelta s > 0 then LI_WHEEL_DELTA else - LI_WHEEL_DELTA) in do {
        (ok, s) \<leftarrow> allocatePacketHolder e 0 s;
        if \<not> ok then Some (- 1, s)
        else do {
          (err, s) \<leftarrow> enqueue (scroll_holder e amount) s;
          if err \<noteq> 0 then Some (err, s)
          else scroll_clicks n e (s\<lparr>batchedScrollDelta := batchedScrollDelta s - amount\<rparr>) } }
      else Some (0, s))"

definition LiSendHighResScrollEvent :: "input_env \<Rightarrow> u16 \<Rightarrow> input_stream \<Rightarrow> input_result" where
  "LiSendHighResScrollEvent e scrollAmount s =
     (if \<not> initialized s then Some (- 2, s)
      else if scrollAmount = 0 then Some (0, s)
      else if needsBatchedScroll s then do {
        let b = (if (batchedScrollDelta s < 0 \<and> sint scrollAmount > 0) \<or> (batchedScrollDelta s > 0 \<and> sint scrollAmount < 0)
                 then 0 else batchedScrollDelta s);
        b \<leftarrow> checked_int (b + sint scrollAmount);
        scroll_clicks (Suc (nat \<bar>b\<bar>)) e (s\<lparr>batchedScrollDelta := b\<rparr>) }
      else with_holder e 0 (enqueue (scroll_holder e (sint scrollAmount))) s)"

definition LiSendScrollEvent :: "input_env \<Rightarrow> u8 \<Rightarrow> input_stream \<Rightarrow> input_result" where
  "LiSendScrollEvent e scrollClicks s = LiSendHighResScrollEvent e (word_of_int (sint scrollClicks * LI_WHEEL_DELTA)) s"

definition LiSendHighResHScrollEvent :: "input_env \<Rightarrow> u16 \<Rightarrow> input_stream \<Rightarrow> input_result" where
  "LiSendHighResHScrollEvent e scrollAmount s =
     (if \<not> initialized s then Some (- 2, s)
      else if \<not> IS_SUNSHINE (in_version e) then Some (LI_ERR_UNSUPPORTED, s)
      else if scrollAmount = 0 then Some (0, s)
      else with_holder e 0 (enqueue (holder CTRL_CHANNEL_MOUSE RELIABLE SS_HSCROLL_MAGIC (HScroll (BE16 scrollAmount)))) s)"

definition LiSendHScrollEvent :: "input_env \<Rightarrow> u8 \<Rightarrow> input_stream \<Rightarrow> input_result" where
  "LiSendHScrollEvent e scrollClicks s = LiSendHighResHScrollEvent e (word_of_int (sint scrollClicks * LI_WHEEL_DELTA)) s"

definition LiSendTouchEvent ::
  "input_env \<Rightarrow> u8 \<Rightarrow> u32 \<Rightarrow> u32 \<Rightarrow> u32 \<Rightarrow> u32 \<Rightarrow> u32 \<Rightarrow> u32 \<Rightarrow> u16 \<Rightarrow> input_stream \<Rightarrow> input_result" where
  "LiSendTouchEvent e eventType pointerId x y pressureOrDistance major minor rotation s =
     (if \<not> initialized s then Some (- 2, s)
      else if SunshineFeatureFlags e AND LI_FF_PEN_TOUCH_EVENTS = 0 then Some (LI_ERR_UNSUPPORTED, s)
      else with_holder e 0 (enqueue (holder CTRL_CHANNEL_TOUCH (if TOUCH_EVENT_IS_BATCHABLE eventType then 0 else RELIABLE)
        SS_TOUCH_MAGIC (Touch \<lparr>touch_eventType = eventType, touch_rotation = LE16 rotation, touch_pointerId = LE32 pointerId,
          touch_x = x, touch_y = y, touch_pressureOrDistance = pressureOrDistance,
          touch_contactAreaMajor = major, touch_contactAreaMinor = minor\<rparr>))) s)"

definition LiSendPenEvent ::
  "input_env \<Rightarrow> u8 \<Rightarrow> u8 \<Rightarrow> u8 \<Rightarrow> u32 \<Rightarrow> u32 \<Rightarrow> u32 \<Rightarrow> u32 \<Rightarrow> u32 \<Rightarrow> u16 \<Rightarrow> u8 \<Rightarrow> input_stream \<Rightarrow> input_result" where
  "LiSendPenEvent e eventType toolType buttons x y pressureOrDistance major minor rotation tilt s =
     (if \<not> initialized s then Some (- 2, s)
      else if SunshineFeatureFlags e AND LI_FF_PEN_TOUCH_EVENTS = 0 then Some (LI_ERR_UNSUPPORTED, s)
      else with_holder e 0 (\<lambda>s.
        let flags = (if TOUCH_EVENT_IS_BATCHABLE eventType \<and> buttons XOR currentPenButtonState s = 0 then 0 else RELIABLE)
        in enqueue (holder CTRL_CHANNEL_PEN flags SS_PEN_MAGIC (Pen \<lparr>pen_eventType = eventType, pen_toolType = toolType,
             penButtons = buttons, pen_x = x, pen_y = y, pen_pressureOrDistance = pressureOrDistance,
             pen_rotation = LE16 rotation, pen_tilt = tilt, pen_contactAreaMajor = major, pen_contactAreaMinor = minor\<rparr>))
           (s\<lparr>currentPenButtonState := buttons\<rparr>)) s)"

definition pad_index :: "u8 \<Rightarrow> u8" where "pad_index n = n mod 16"

definition LiSendControllerArrivalEvent ::
  "input_env \<Rightarrow> u8 \<Rightarrow> u16 \<Rightarrow> u8 \<Rightarrow> u32 \<Rightarrow> u16 \<Rightarrow> input_stream \<Rightarrow> input_result" where
  "LiSendControllerArrivalEvent e controllerNumber activeGamepadMask type supportedButtonFlags capabilities s =
     (if \<not> initialized s then Some (- 2, s)
      else let n = pad_index controllerNumber in
        if IS_SUNSHINE (in_version e) then do {
          (err, s) \<leftarrow> with_holder e 0 (enqueue (holder (CTRL_CHANNEL_GAMEPAD_BASE + n) RELIABLE SS_CONTROLLER_ARRIVAL_MAGIC
             (ControllerArrival n type (LE16 capabilities) (LE32 supportedButtonFlags)))) s;
          if err \<noteq> 0 then Some (err, s)
          else LiSendMultiControllerEvent e (ucast n) activeGamepadMask 0 0 0 0 0 0 0 s }
        else LiSendMultiControllerEvent e (ucast n) activeGamepadMask 0 0 0 0 0 0 0 s)"

definition LiSendControllerTouchEvent ::
  "input_env \<Rightarrow> u8 \<Rightarrow> u8 \<Rightarrow> u32 \<Rightarrow> u32 \<Rightarrow> u32 \<Rightarrow> u32 \<Rightarrow> input_stream \<Rightarrow> input_result" where
  "LiSendControllerTouchEvent e controllerNumber eventType pointerId x y pressure s =
     (if \<not> initialized s then Some (- 2, s)
      else if SunshineFeatureFlags e AND LI_FF_CONTROLLER_TOUCH_EVENTS = 0 then Some (LI_ERR_UNSUPPORTED, s)
      else let n = pad_index controllerNumber in
        with_holder e 0 (enqueue (holder (CTRL_CHANNEL_GAMEPAD_BASE + n)
          (if TOUCH_EVENT_IS_BATCHABLE eventType then 0 else RELIABLE) SS_CONTROLLER_TOUCH_MAGIC
          (ControllerTouch n eventType (LE32 pointerId) x y pressure))) s)"

text \<open>The sensor state of a controller; an index out of the array is \<open>None\<close>.\<close>

definition sensor_index :: "u8 \<Rightarrow> u8 \<Rightarrow> (nat \<times> nat) option" where
  "sensor_index n mt = (let i = uint mt - 1 in
     if unat n < MAX_GAMEPADS \<and> 0 \<le> i \<and> i < MAX_MOTION_EVENTS then Some (unat n, nat i) else None)"

definition get_sensor :: "nat \<times> nat \<Rightarrow> input_stream \<Rightarrow> sensor_state" where
  "get_sensor ix s = currentGamepadSensorState s ! fst ix ! snd ix"

definition set_sensor :: "nat \<times> nat \<Rightarrow> sensor_state \<Rightarrow> input_stream \<Rightarrow> input_stream" where
  "set_sensor ix v s = s\<lparr>currentGamepadSensorState := (currentGamepadSensorState s)
     [fst ix := (currentGamepadSensorState s ! fst ix)[snd ix := v]]\<rparr>"

definition LiSendControllerMotionEvent :: "input_env \<Rightarrow> u8 \<Rightarrow> u8 \<Rightarrow> u32 \<Rightarrow> u32 \<Rightarrow> u32 \<Rightarrow> input_stream \<Rightarrow> input_result" where
  "LiSendControllerMotionEvent e controllerNumber mt x y z s =
     (if \<not> initialized s then Some (- 2, s)
      else if uint mt - 1 \<ge> MAX_MOTION_EVENTS then do { LC_ASSERT (uint mt - 1 < MAX_MOTION_EVENTS); Some (- 3, s) }
      else if SunshineFeatureFlags e AND LI_FF_CONTROLLER_TOUCH_EVENTS = 0 then Some (LI_ERR_UNSUPPORTED, s)
      else do {
        let n = pad_index controllerNumber;
        ix \<leftarrow> sensor_index n mt;
        let s = set_sensor ix ((get_sensor ix s)\<lparr>sensor_x := x, sensor_y := y, sensor_z := z\<rparr>) s;
        if \<not> sensor_dirty (get_sensor ix s) then
          with_holder e 0 (\<lambda>s. do {
            (err, s) \<leftarrow> enqueue (holder (CTRL_CHANNEL_SENSOR_BASE + n) (stale32 e) SS_CONTROLLER_MOTION_MAGIC
               (ControllerMotion \<lparr>motion_controllerNumber = n, motionType = mt,
                  motion_x = stale32 e, motion_y = stale32 e, motion_z = stale32 e\<rparr>)) s;
            Some (err, if err = 0 then set_sensor ix ((get_sensor ix s)\<lparr>sensor_dirty := True\<rparr>) s else s) }) s
        else Some (0, s) })"

definition LiSendControllerBatteryEvent :: "input_env \<Rightarrow> u8 \<Rightarrow> u8 \<Rightarrow> u8 \<Rightarrow> input_stream \<Rightarrow> input_result" where
  "LiSendControllerBatteryEvent e controllerNumber batteryState batteryPercentage s =
     (if \<not> initialized s then Some (- 2, s)
      else if \<not> IS_SUNSHINE (in_version e) then Some (LI_ERR_UNSUPPORTED, s)
      else let n = pad_index controllerNumber in
        with_holder e 0 (enqueue (holder (CTRL_CHANNEL_GAMEPAD_BASE + n) RELIABLE SS_CONTROLLER_BATTERY_MAGIC
          (ControllerBattery n batteryState batteryPercentage))) s)"

section \<open>Sending\<close>

definition sizeof_IV :: nat where "sizeof_IV = 16"

text \<open>\<open>encryptData\<close> into the buffer behind the length prefix; GCM puts the tag in front.\<close>

definition encryptData :: "input_env \<Rightarrow> u8 list \<Rightarrow> u8 list \<Rightarrow> u8 list option" where
  "encryptData e iv plaintext =
     (if vq0 (in_version e) \<ge> 7 then map_option (\<lambda>(tag, ct). tag @ ct) (encrypt_gcm e iv plaintext)
      else encrypt_cbc e iv plaintext)"

definition terminate_input :: "int \<Rightarrow> input_stream \<Rightarrow> bool \<times> input_stream" where
  "terminate_input err s = (False, log (ConnectionTerminated err) s)"

text \<open>
  \<open>sendInputPacket\<close>: whether it succeeded.  The event \<open>HandedOver\<close> records the packet itself, before it
  may be encrypted.
\<close>

definition sendInputPacket :: "input_env \<Rightarrow> packet_holder \<Rightarrow> bool \<Rightarrow> input_stream \<Rightarrow> (bool \<times> input_stream) option" where
  "sendInputPacket e h moreData s = do {
     plain \<leftarrow> holder_bytes h;
     let s = log (HandedOver (packet h) (channelId h) (enetPacketFlags h) moreData) s;
     if encryptedControlStream s then
       let err = send_result e (input_trace s);
           s = log (ControlSend plain (channelId h) (enetPacketFlags h) moreData) s
       in Some (if err < 0 then terminate_input err s else (True, s))
     else case encryptData e (currentAesIv s) plain of
       None \<Rightarrow> Some (terminate_input (- 1) s)
     | Some ct \<Rightarrow> do {
         let buffer = rev (le_bytes 4 (of_nat (length ct) :: u32)) @ ct;
         LC_ASSERT (length buffer \<le> MAX_INPUT_PACKET_SIZE);
         let err = send_result e (input_trace s);
         if vq0 (in_version e) < 5 then
           let s = log (SocketSend buffer) s in
           Some (if err \<le> 0 then terminate_input err s else (True, s))
         else
           let s = (if vq0 (in_version e) \<ge> 7 \<and> length ct \<ge> 16 + sizeof_IV
                    then s\<lparr>currentAesIv := drop (length buffer - sizeof_IV) buffer\<rparr> else s);
               s = log (ControlSend buffer (channelId h) (enetPacketFlags h) moreData) s
           in Some (if err < 0 then terminate_input err s else (True, s)) } }"

section \<open>The send thread\<close>

text \<open>The wait before a batchable packet that follows another too closely: the time read at the end.\<close>

definition batching_wait :: "input_env \<Rightarrow> u64 \<Rightarrow> input_stream \<Rightarrow> u64 \<times> input_stream" where
  "batching_wait e lastTime s =
     (let now = clock e (input_trace s) in
      if now < lastTime + BATCHING_INTERVAL_MS then
        let s = log (Sleep (uint (lastTime + BATCHING_INTERVAL_MS - now))) (log FlushControl s)
        in (clock e (input_trace s), s)
      else (now, s))"

definition same_buttons :: "multi_controller \<Rightarrow> multi_controller \<Rightarrow> bool" where
  "same_buttons new orig \<longleftrightarrow> mc_buttonFlags new = mc_buttonFlags orig \<and> mc_buttonFlags2 new = mc_buttonFlags2 orig
     \<and> mc_controllerNumber new = mc_controllerNumber orig \<and> mc_activeGamepadMask new = mc_activeGamepadMask orig"

definition take_analog :: "multi_controller \<Rightarrow> multi_controller \<Rightarrow> multi_controller" where
  "take_analog new orig = orig\<lparr>mc_leftTrigger := mc_leftTrigger new, mc_rightTrigger := mc_rightTrigger new,
     mc_leftStickX := mc_leftStickX new, mc_leftStickY := mc_leftStickY new,
     mc_rightStickX := mc_rightStickX new, mc_rightStickY := mc_rightStickY new\<rparr>"

definition with_body :: "packet_holder \<Rightarrow> input_body \<Rightarrow> packet_holder" where
  "with_body h b = h\<lparr>packet := (packet h)\<lparr>body := b\<rparr>\<rparr>"

text \<open>
  The batching loops look at the front of the queue and take what can be merged.  The first argument bounds the
  rounds by the number of holders in the queue.  Reading a packet as a member of the union that was not
  written is \<open>None\<close>.
\<close>

fun batch_controllers ::
  "nat \<Rightarrow> u32 \<Rightarrow> packet_holder \<Rightarrow> multi_controller \<Rightarrow> input_stream \<Rightarrow> (multi_controller \<times> input_stream) option" where
  "batch_controllers 0 magic h orig s = Some (orig, s)"
| "batch_controllers (Suc n) magic h orig s = (case take_from Peek (packetQueue s) of
     (LBQ_SUCCESS, Some nextHolder, _) \<Rightarrow>
       if hdr_magic (packet nextHolder) \<noteq> magic then Some (orig, s)
       else (case body (packet nextHolder) of
         MultiController new \<Rightarrow>
           if \<not> same_buttons new orig then Some (orig, s)
           else (case take_from Poll (packetQueue s) of
             (LBQ_SUCCESS, Some polled, q) \<Rightarrow> do {
               s \<leftarrow> freePacketHolder polled (s\<lparr>packetQueue := q\<rparr>);
               batch_controllers n magic h (take_analog new orig) s }
           | _ \<Rightarrow> Some (orig, s))
       | _ \<Rightarrow> None)
   | _ \<Rightarrow> Some (orig, s))"

fun batch_pen :: "nat \<Rightarrow> packet_holder \<Rightarrow> pen_packet \<Rightarrow> input_stream \<Rightarrow> (packet_holder \<times> input_stream) option" where
  "batch_pen 0 h p s = Some (h, s)"
| "batch_pen (Suc n) h p s = (case take_from Peek (packetQueue s) of
     (LBQ_SUCCESS, Some nextHolder, _) \<Rightarrow>
       if hdr_magic (packet nextHolder) \<noteq> LE32 SS_PEN_MAGIC then Some (h, s)
       else (case body (packet nextHolder) of
         Pen new \<Rightarrow>
           if penButtons p \<noteq> penButtons new \<or> pen_eventType p \<noteq> pen_eventType new then Some (h, s)
           else (case take_from Poll (packetQueue s) of
             (LBQ_SUCCESS, Some polled, q) \<Rightarrow> do {
               s \<leftarrow> freePacketHolder h (s\<lparr>packetQueue := q\<rparr>);
               batch_pen n polled new s }
           | _ \<Rightarrow> Some (h, s))
       | _ \<Rightarrow> None)
   | _ \<Rightarrow> Some (h, s))"

text \<open>The end of an iteration: send, free, and wait for the next holder or end.\<close>

definition send_and_free :: "input_env \<Rightarrow> packet_holder \<Rightarrow> bool \<Rightarrow> input_stream \<Rightarrow> input_stream option" where
  "send_and_free e h moreData s = do {
     (ok, s) \<leftarrow> sendInputPacket e h moreData s;
     s \<leftarrow> freePacketHolder h s;
     Some (s\<lparr>phase := (if ok then Waiting else Ended)\<rparr>) }"

definition send_last :: "input_env \<Rightarrow> packet_holder \<Rightarrow> input_stream \<Rightarrow> input_stream option" where
  "send_last e h s = send_and_free e h (contents (packetQueue s) \<noteq> []) s"

definition handle_controller :: "input_env \<Rightarrow> packet_holder \<Rightarrow> input_stream \<Rightarrow> input_stream option" where
  "handle_controller e h s = (case body (packet h) of
     MultiController c \<Rightarrow> do {
       let n = sint (LE16 (mc_controllerNumber c));
       LC_ASSERT (n < int MAX_GAMEPADS);
       lastTime \<leftarrow> (if n < 0 then None else nth_opt (lastControllerPacketTime s) (nat n));
       let (now, s) = batching_wait e lastTime s;
       (c, s) \<leftarrow> batch_controllers (length (contents (packetQueue s))) (LE32 (multiControllerMagic e)) h c s;
       send_last e (with_body h (MultiController c))
         (s\<lparr>lastControllerPacketTime := (lastControllerPacketTime s)[nat n := now]\<rparr>) }
   | _ \<Rightarrow> None)"

definition handle_abs_mouse :: "input_env \<Rightarrow> packet_holder \<Rightarrow> input_stream \<Rightarrow> input_stream option" where
  "handle_abs_mouse e h s = (case body (packet h) of
     MouseMoveAbs _ _ unused _ _ \<Rightarrow>
       let (now, s) = batching_wait e (lastMousePacketTime s) s;
           m = currentAbsoluteMouseState s;
           b = MouseMoveAbs (BE16 (abs_x m)) (BE16 (abs_y m)) unused (BE16 (abs_width m - 1)) (BE16 (abs_height m - 1));
           s = s\<lparr>currentAbsoluteMouseState := m\<lparr>abs_dirty := False\<rparr>, lastMousePacketTime := now\<rparr>
       in send_last e (with_body h b) s
   | _ \<Rightarrow> None)"

definition handle_pen :: "input_env \<Rightarrow> packet_holder \<Rightarrow> pen_packet \<Rightarrow> input_stream \<Rightarrow> input_stream option" where
  "handle_pen e h p s = do {
     let (now, s) = batching_wait e (lastPenPacketTime s) s;
     (h, s) \<leftarrow> batch_pen (length (contents (packetQueue s))) h p s;
     send_last e h (s\<lparr>lastPenPacketTime := now\<rparr>) }"

text \<open>A \<open>float\<close> equals zero when all its bits but the sign are clear.\<close>

definition float_is_zero :: "u32 \<Rightarrow> bool" where "float_is_zero x \<longleftrightarrow> take_bit 31 x = 0"

definition handle_motion :: "input_env \<Rightarrow> packet_holder \<Rightarrow> input_stream \<Rightarrow> input_stream option" where
  "handle_motion e h s = (case body (packet h) of
     ControllerMotion m \<Rightarrow> do {
       ix \<leftarrow> sensor_index (motion_controllerNumber m) (motionType m);
       let v = get_sensor ix s;
       let still = (motionType m = LI_MOTION_TYPE_GYRO \<and> float_is_zero (sensor_x v) \<and> float_is_zero (sensor_y v) \<and> float_is_zero (sensor_z v));
       let h = with_body (h\<lparr>enetPacketFlags := (if still then RELIABLE else 0)\<rparr>)
         (ControllerMotion (m\<lparr>motion_x := sensor_x v, motion_y := sensor_y v, motion_z := sensor_z v\<rparr>));
       send_last e h (set_sensor ix (v\<lparr>sensor_dirty := False\<rparr>) s) }
   | _ \<Rightarrow> None)"

text \<open>UTF-8 text is sent one code point at a time.\<close>

definition codePointLength :: "u8 \<Rightarrow> nat option" where
  "codePointLength firstByte =
     (if firstByte AND 0x80 = 0x00 then Some 1
      else if firstByte AND 0xE0 = 0xC0 then Some 2
      else if firstByte AND 0xF0 = 0xE0 then Some 3
      else if firstByte AND 0xF8 = 0xF0 then Some 4
      else None)"

definition split_packet :: "packet_holder \<Rightarrow> u8 list \<Rightarrow> u8 list \<Rightarrow> packet_holder option" where
  "split_packet h text cp = do {
     t \<leftarrow> mem_write (take UTF8_TEXT_EVENT_MAX_COUNT text) 0 cp;
     Some (h\<lparr>packet := (packet h)\<lparr>hdr_size := BE32 (4 + of_nat (length cp)), body := Unicode t\<rparr>\<rparr>) }"

text \<open>The first argument bounds the rounds; \<open>None\<close> when it runs out.  The result is \<open>False\<close> when a send failed.\<close>

fun utf8_loop :: "nat \<Rightarrow> input_env \<Rightarrow> packet_holder \<Rightarrow> u8 list \<Rightarrow> nat \<Rightarrow> nat \<Rightarrow> input_stream \<Rightarrow> (bool \<times> input_stream) option" where
  "utf8_loop 0 e h text totalLength i s = None"
| "utf8_loop (Suc n) e h text totalLength i s =
     (if i < totalLength \<and> \<not> thread_interrupted e (input_trace s) then do {
        firstByte \<leftarrow> nth_opt text i;
        case codePointLength firstByte of
          None \<Rightarrow> Some (True, s)
        | Some k \<Rightarrow> do {
            cp \<leftarrow> mem_read text i k;
            splitPacket \<leftarrow> split_packet h text cp;
            (ok, s) \<leftarrow> sendInputPacket e splitPacket (i + 1 < totalLength) s;
            if \<not> ok then Some (False, s) else utf8_loop n e h text totalLength (i + k) s } }
      else Some (True, s))"

definition handle_text :: "input_env \<Rightarrow> packet_holder \<Rightarrow> input_stream \<Rightarrow> input_stream option" where
  "handle_text e h s = (case body (packet h) of
     Unicode text \<Rightarrow> do {
       let totalLength = unat (PAYLOAD_SIZE h - 4);
       let s = log (Sleep 50) (foldl (\<lambda>s _. log (Sleep 10) s) (log FlushControl s) [0..<control_drain_rounds e]);
       (ok, s) \<leftarrow> utf8_loop (Suc totalLength) e h text totalLength 0 s;
       s \<leftarrow> freePacketHolder h s;
       Some (s\<lparr>phase := (if ok then Waiting else Ended)\<rparr>) }
   | _ \<Rightarrow> None)"

text \<open>One round of the loop that splits a relative movement.\<close>

definition INT16_MIN :: int where "INT16_MIN = - 32768"
definition INT16_MAX :: int where "INT16_MAX = 32767"

definition split_delta :: "int \<Rightarrow> int \<times> int \<times> bool" where
  "split_delta d =
     (if d < INT16_MIN then (INT16_MIN, d - INT16_MIN, True)
      else if d > INT16_MAX then (INT16_MAX, d - INT16_MAX, True)
      else (d, 0, False))"

definition mouse_round :: "input_env \<Rightarrow> packet_holder \<Rightarrow> u64 \<Rightarrow> input_stream \<Rightarrow> input_stream option" where
  "mouse_round e h now s =
     (let m = currentRelativeMouseState s in
      if deltaX m \<noteq> 0 \<or> deltaY m \<noteq> 0 then
        let (x, restX, moreX) = split_delta (deltaX m);
            (y, restY, moreY) = split_delta (deltaY m);
            h = with_body h (MouseMoveRel (BE16 (word_of_int x)) (BE16 (word_of_int y)));
            s = s\<lparr>currentRelativeMouseState := m\<lparr>deltaX := restX, deltaY := restY\<rparr>\<rparr>
        in do {
          (ok, s) \<leftarrow> sendInputPacket e h (moreX \<or> moreY) s;
          if ok then Some (s\<lparr>phase := SplittingMouse h now\<rparr>)
          else map_option (\<lambda>s. s\<lparr>phase := Ended\<rparr>) (freePacketHolder h s) }
      else
        map_option (\<lambda>s. s\<lparr>phase := Waiting\<rparr>)
          (freePacketHolder h (s\<lparr>currentRelativeMouseState := m\<lparr>rel_dirty := False\<rparr>, lastMousePacketTime := now\<rparr>)))"

text \<open>A holder taken from the queue is handled by its magic number.\<close>

definition handle_holder :: "input_env \<Rightarrow> packet_holder \<Rightarrow> input_stream \<Rightarrow> input_stream option" where
  "handle_holder e h s =
     (let magic = hdr_magic (packet h) in
      if magic = LE32 (multiControllerMagic e) then handle_controller e h s
      else if magic = LE32 (relMouseMagic e) then
        let (now, s) = batching_wait e (lastMousePacketTime s) s in Some (s\<lparr>phase := SplittingMouse h now\<rparr>)
      else if magic = LE32 MOUSE_MOVE_ABS_MAGIC then handle_abs_mouse e h s
      else if magic = LE32 SS_PEN_MAGIC then
        (case body (packet h) of
           Pen p \<Rightarrow> if TOUCH_EVENT_IS_BATCHABLE (pen_eventType p) then handle_pen e h p s else send_last e h s
         | _ \<Rightarrow> None)
      else if magic = LE32 SS_CONTROLLER_MOTION_MAGIC then handle_motion e h s
      else if magic = LE32 UTF8_TEXT_EVENT_MAGIC then handle_text e h s
      else send_last e h s)"

definition thread_step :: "input_env \<Rightarrow> input_stream \<Rightarrow> input_stream option" where
  "thread_step e s = (case phase s of
     Ended \<Rightarrow> Some s
   | SplittingMouse h now \<Rightarrow> mouse_round e h now s
   | Waiting \<Rightarrow>
       if thread_interrupted e (input_trace s) then Some (s\<lparr>phase := Ended\<rparr>)
       else (case bq_step Wait (packetQueue s) of
         (Status LBQ_SUCCESS (Some h), q) \<Rightarrow> handle_holder e h (s\<lparr>packetQueue := q\<rparr>)
       | (Blocked, _) \<Rightarrow> Some s
       | (_, q) \<Rightarrow> Some (s\<lparr>packetQueue := q, phase := Ended\<rparr>)))"

section \<open>Starting and stopping\<close>

text \<open>The results of the connection of the socket and of the creation of the thread are arguments.\<close>

definition startInputStream :: "input_env \<Rightarrow> int \<Rightarrow> int \<Rightarrow> input_stream \<Rightarrow> input_result" where
  "startInputStream e connectErr threadErr s =
     (if vq0 (in_version e) < 5 \<and> connectErr \<noteq> 0 then Some (connectErr, s)
      else if threadErr \<noteq> 0 then Some (threadErr, s)
      else map_option (\<lambda>(_, s). (0, s)) (sendEnableHaptics e (s\<lparr>initialized := True, phase := Waiting,
        lastControllerPacketTime := replicate MAX_GAMEPADS 0, lastMousePacketTime := 0, lastPenPacketTime := 0\<rparr>)))"

text \<open>The part of \<open>stopInputStream\<close> before it waits for the thread to end.\<close>

definition stopInputStream :: "input_stream \<Rightarrow> input_stream" where
  "stopInputStream s = s\<lparr>initialized := False,
     packetHolderFreeList := snd (bq_step Shutdown (packetHolderFreeList s)),
     packetQueue := snd (bq_step Drain (packetQueue s))\<rparr>"

definition destroyInputStream :: "input_stream \<Rightarrow> input_stream option" where
  "destroyInputStream s = do {
     LC_ASSERT (closed (packetQueue s) \<or> ending (packetQueue s) \<or> packetQueue_lifetime s = 0);
     LC_ASSERT (closed (packetHolderFreeList s) \<or> ending (packetHolderFreeList s) \<or> freeList_lifetime s = 0);
     Some (s\<lparr>packetQueue := (packetQueue s)\<lparr>contents := []\<rparr>,
             packetHolderFreeList := (packetHolderFreeList s)\<lparr>contents := []\<rparr>\<rparr>) }"

end
