(* ===== verification/InputClient.thy ===== *)
theory InputClient
  imports InputStream
begin

text \<open>
  What the client's calls do to the input stream: in every state of the invariant they return, queue only
  well-formed holders, and change the accumulated movement by what they were given.
\<close>

section \<open>The queues\<close>

lemma offer_to_eq:
  "offer_to h q = (if closed q \<or> ending q then (LBQ_INTERRUPTED, q)
     else if length (contents q) = capacity q then (LBQ_BOUND_EXCEEDED, q)
     else (LBQ_SUCCESS, q\<lparr>contents := contents q @ [h]\<rparr>))"
  by (simp add: offer_to_def)

lemma take_from_Poll:
  "take_from Poll q = (if closed q then (LBQ_INTERRUPTED, None, q)
     else case contents q of [] \<Rightarrow> (if ending q then LBQ_INTERRUPTED else LBQ_NO_ELEMENT, None, q)
       | h # hs \<Rightarrow> (LBQ_SUCCESS, Some h, q\<lparr>contents := hs\<rparr>))"
  by (simp add: take_from_def bq_get_def split: list.split)

lemma take_from_Peek:
  "take_from Peek q = (if closed q then (LBQ_INTERRUPTED, None, q)
     else case contents q of [] \<Rightarrow> (if ending q then LBQ_INTERRUPTED else LBQ_NO_ELEMENT, None, q)
       | h # hs \<Rightarrow> (LBQ_SUCCESS, Some h, q))"
  by (simp add: take_from_def bq_get_def split: list.split)

section \<open>Well-formed holders\<close>

text \<open>The magic numbers a member of the union is sent with, for a host version.\<close>

definition v_gen5 :: "version \<Rightarrow> bool" where "v_gen5 v \<longleftrightarrow> vq0 v \<ge> 5"

fun body_magics :: "version \<Rightarrow> input_body \<Rightarrow> u32 set" where
  "body_magics v (Haptics _) = (if v_gen5 v then {ENABLE_HAPTICS_MAGIC} else {})"
| "body_magics v (Keyboard _ _ _ _) = {3, 4}"
| "body_magics v (Unicode _) = {UTF8_TEXT_EVENT_MAGIC}"
| "body_magics v (MouseMoveRel _ _) = {if v_gen5 v then MOUSE_MOVE_REL_MAGIC_GEN5 else MOUSE_MOVE_REL_MAGIC}"
| "body_magics v (MouseMoveAbs _ _ _ _ _) = {MOUSE_MOVE_ABS_MAGIC}"
| "body_magics v (MouseButton _) = (if v_gen5 v then {8, 9} else {7, 8})"
| "body_magics v (Controller _) = {CONTROLLER_MAGIC}"
| "body_magics v (MultiController _) = {if v_gen5 v then MULTI_CONTROLLER_MAGIC_GEN5 else MULTI_CONTROLLER_MAGIC}"
| "body_magics v (Scroll _ _ _) = {if v_gen5 v then SCROLL_MAGIC_GEN5 else SCROLL_MAGIC}"
| "body_magics v (HScroll _) = {SS_HSCROLL_MAGIC}"
| "body_magics v (Touch _) = {SS_TOUCH_MAGIC}"
| "body_magics v (Pen _) = {SS_PEN_MAGIC}"
| "body_magics v (ControllerArrival _ _ _ _) = {SS_CONTROLLER_ARRIVAL_MAGIC}"
| "body_magics v (ControllerTouch _ _ _ _ _ _) = {SS_CONTROLLER_TOUCH_MAGIC}"
| "body_magics v (ControllerMotion _) = {SS_CONTROLLER_MOTION_MAGIC}"
| "body_magics v (ControllerBattery _ _ _) = {SS_CONTROLLER_BATTERY_MAGIC}"

text \<open>The memory behind the text in a holder, from its place to the end of the holder.\<close>

definition TEXT_SLACK :: nat where "TEXT_SLACK = 35"

definition body_ok :: "u32 \<Rightarrow> input_body \<Rightarrow> bool" where
  "body_ok sz b \<longleftrightarrow> (case b of
     Unicode t \<Rightarrow> \<exists>n. length t = n + TEXT_SLACK \<and> sz = BE32 (4 + of_nat n) \<and> n < 2 ^ 31
   | MultiController c \<Rightarrow> sz = BE32 (of_nat (sizeof_packet b - 4)) \<and> uint (mc_controllerNumber c) < int MAX_GAMEPADS
       \<and> mc_headerB c = MC_HEADER_B \<and> mc_midB c = MC_MID_B \<and> mc_tailA c = MC_TAIL_A \<and> mc_tailB c = MC_TAIL_B
   | ControllerMotion m \<Rightarrow> sz = BE32 (of_nat (sizeof_packet b - 4)) \<and> sensor_index (motion_controllerNumber m) (motionType m) \<noteq> None
   | _ \<Rightarrow> sz = BE32 (of_nat (sizeof_packet b - 4)))"

definition holder_ok :: "version \<Rightarrow> packet_holder \<Rightarrow> bool" where
  "holder_ok v h \<longleftrightarrow> hdr_magic (packet h) \<in> body_magics v (body (packet h)) \<and> body_ok (hdr_size (packet h)) (body (packet h))
     \<and> unat (channelId h) < CTRL_CHANNEL_COUNT"

text \<open>The magic number tells the member of the union.\<close>

lemma dispatch_ok:
  assumes "hdr_magic (packet h) \<in> body_magics v (body (packet h))"
  shows "hdr_magic (packet h) = (if v_gen5 v then MULTI_CONTROLLER_MAGIC_GEN5 else MULTI_CONTROLLER_MAGIC)
      \<Longrightarrow> \<exists>c. body (packet h) = MultiController c"
    and "hdr_magic (packet h) = (if v_gen5 v then MOUSE_MOVE_REL_MAGIC_GEN5 else MOUSE_MOVE_REL_MAGIC)
      \<Longrightarrow> \<exists>x y. body (packet h) = MouseMoveRel x y"
    and "hdr_magic (packet h) = MOUSE_MOVE_ABS_MAGIC \<Longrightarrow> \<exists>x y u w z. body (packet h) = MouseMoveAbs x y u w z"
    and "hdr_magic (packet h) = SS_PEN_MAGIC \<Longrightarrow> \<exists>p. body (packet h) = Pen p"
    and "hdr_magic (packet h) = SS_CONTROLLER_MOTION_MAGIC \<Longrightarrow> \<exists>m. body (packet h) = ControllerMotion m"
    and "hdr_magic (packet h) = UTF8_TEXT_EVENT_MAGIC \<Longrightarrow> \<exists>t. body (packet h) = Unicode t"
  using assms by (cases "body (packet h)"; simp add: magic_defs split: if_splits; fail)+

lemma dispatch_rel_conv:
  assumes "hdr_magic (packet h) \<in> body_magics v (body (packet h))" "body (packet h) = MouseMoveRel x y"
  shows "hdr_magic (packet h) = (if v_gen5 v then MOUSE_MOVE_REL_MAGIC_GEN5 else MOUSE_MOVE_REL_MAGIC)"
  using assms by simp

lemma BE32_eq_0: "BE32 x = 0 \<longleftrightarrow> x = 0"
proof -
  have "BE32 0 = 0" by code_simp
  then show ?thesis by (metis BE_involution(2))
qed

lemma body_ok_bytes:
  assumes "body_ok (hdr_size (packet h)) (body (packet h))"
  shows "\<exists>bs. holder_bytes h = Some bs" and "hdr_size (packet h) \<noteq> 0"
proof -
  show "\<exists>bs. holder_bytes h = Some bs"
  proof (cases "\<exists>t. body (packet h) = Unicode t")
    case True
    then obtain t n where t: "body (packet h) = Unicode t" "length t = n + TEXT_SLACK" "n < 2 ^ 31"
      and sz: "hdr_size (packet h) = BE32 (4 + of_nat n)"
      using assms by (auto simp: body_ok_def)
    have "unat (4 + of_nat n :: u32) = 4 + n"
      using t(3) by (simp add: unat_word_ariths unat_of_nat)
    then show ?thesis
      using t sz by (simp add: holder_bytes_def PACKET_SIZE_def PAYLOAD_SIZE_def mem_read_def packet_image_def TEXT_SLACK_def)
  next
    case False
    then have "hdr_size (packet h) = BE32 (of_nat (sizeof_packet (body (packet h)) - 4))"
      using assms by (auto simp: body_ok_def split: input_body.splits)
    then have "packet h = fixed_packet (hdr_magic (packet h)) (body (packet h))"
      by (simp add: fixed_packet_def LE32_def)
    then show ?thesis
      using fixed_packet_bytes [of "body (packet h)" "enetPacketFlags h" "channelId h" "hdr_magic (packet h)"] False
      by (cases h) auto
  qed
  show "hdr_size (packet h) \<noteq> 0"
  proof (cases "\<exists>t. body (packet h) = Unicode t")
    case True
    then obtain n where n: "hdr_size (packet h) = BE32 (4 + of_nat n)" "n < 2 ^ 31"
      using assms by (auto simp: body_ok_def)
    then have "unat (4 + of_nat n :: u32) = 4 + n" by (simp add: unat_word_ariths unat_of_nat)
    then have "(4 + of_nat n :: u32) \<noteq> 0" by (metis add_is_0 unat_0 zero_neq_numeral)
    then show ?thesis using n(1) BE32_eq_0 by simp
  next
    case False
    then have sz: "hdr_size (packet h) = BE32 (of_nat (sizeof_packet (body (packet h)) - 4))"
      using assms by (auto simp: body_ok_def split: input_body.splits)
    have "sizeof_packet (body (packet h)) - 4 < (4294967296 :: nat)" "sizeof_packet (body (packet h)) - 4 \<noteq> 0"
      using length_body_bytes_fixed [OF False] by linarith+
    then have "unat (of_nat (sizeof_packet (body (packet h)) - 4) :: u32) \<noteq> 0"
      by (simp add: unat_of_nat del: of_nat_diff)
    then have "(of_nat (sizeof_packet (body (packet h)) - 4) :: u32) \<noteq> 0" by (metis unat_0)
    then show ?thesis using sz BE32_eq_0 by simp
  qed
qed

lemma holder_okI:
  assumes "LE32 magic \<in> body_magics v b" "body_ok (BE32 (of_nat (sizeof_packet b - 4))) b" "unat ch < CTRL_CHANNEL_COUNT"
  shows "holder_ok v (holder ch flags magic b)"
  using assms by (simp add: holder_ok_def holder_def fixed_packet_def)

section \<open>The invariant\<close>

definition in_inv :: "version \<Rightarrow> input_stream \<Rightarrow> bool" where
  "in_inv v s \<longleftrightarrow> (\<forall>h \<in> set (contents (packetQueue s)). holder_ok v h)
     \<and> (case phase s of SplittingMouse h _ \<Rightarrow> holder_ok v h \<and> (\<exists>x y. body (packet h) = MouseMoveRel x y) | _ \<Rightarrow> True)
     \<and> (initialized s \<longrightarrow> \<not> closed (packetQueue s) \<and> \<not> ending (packetQueue s))
     \<and> length (lastControllerPacketTime s) = MAX_GAMEPADS
     \<and> length (currentGamepadSensorState s) = MAX_GAMEPADS
     \<and> (\<forall>r \<in> set (currentGamepadSensorState s). length r = nat MAX_MOTION_EVENTS)
     \<and> \<not> closed (packetQueue s) \<and> \<not> wake (packetQueue s)"

text \<open>
  The environments: the version is the session's, the stale text fills its holder, and a ciphertext fits the
  buffer (GCM keeps the length and adds a tag of 16 bytes, CBC pads to whole blocks of 16).
\<close>

definition env_ok :: "version \<Rightarrow> input_env \<Rightarrow> bool" where
  "env_ok v e \<longleftrightarrow> in_version e = v \<and> length (stale_text e) = TEXT_SLACK
     \<and> (\<forall>iv pt ct. length pt \<le> 40 \<longrightarrow> encryptData e iv pt = Some ct \<longrightarrow> length ct \<le> MAX_INPUT_PACKET_SIZE - 4)"

text \<open>What a client call may change: it appends well-formed holders to the queue.\<close>

definition extends :: "version \<Rightarrow> input_stream \<Rightarrow> input_stream \<Rightarrow> bool" where
  "extends v s s' \<longleftrightarrow> (\<exists>new. contents (packetQueue s') = contents (packetQueue s) @ new \<and> (\<forall>h \<in> set new. holder_ok v h))
     \<and> phase s' = phase s \<and> initialized s' = initialized s \<and> encryptedControlStream s' = encryptedControlStream s
     \<and> closed (packetQueue s') = closed (packetQueue s) \<and> ending (packetQueue s') = ending (packetQueue s)
     \<and> wake (packetQueue s') = wake (packetQueue s) \<and> lastControllerPacketTime s' = lastControllerPacketTime s
     \<and> map length (currentGamepadSensorState s') = map length (currentGamepadSensorState s)
     \<and> input_trace s' = input_trace s"

definition same_motion :: "input_stream \<Rightarrow> input_stream \<Rightarrow> bool" where
  "same_motion s s' \<longleftrightarrow> deltaX (currentRelativeMouseState s') = deltaX (currentRelativeMouseState s)
     \<and> deltaY (currentRelativeMouseState s') = deltaY (currentRelativeMouseState s)
     \<and> batchedScrollDelta s' = batchedScrollDelta s"

lemma extends_refl [simp]: "extends v s s" and same_motion_refl [simp]: "same_motion s s"
  by (simp_all add: extends_def same_motion_def)

lemma extends_trans: "extends v s t \<Longrightarrow> extends v t u \<Longrightarrow> extends v s u"
  by (auto simp: extends_def)

lemma same_motion_trans: "same_motion s t \<Longrightarrow> same_motion t u \<Longrightarrow> same_motion s u"
  by (simp add: same_motion_def)

lemma map_length_shape: "map length xs = map length ys \<Longrightarrow> (\<forall>r \<in> set ys. length r = k) \<Longrightarrow> (\<forall>r \<in> set xs. length r = k)"
  by (metis in_set_conv_nth length_map nth_map)

lemma extends_in_inv:
  assumes e: "extends v s s'" and i: "in_inv v s"
  shows "in_inv v s'"
proof -
  obtain new where new: "contents (packetQueue s') = contents (packetQueue s) @ new" "\<forall>h \<in> set new. holder_ok v h"
    using e by (auto simp: extends_def)
  have same: "phase s' = phase s" "initialized s' = initialized s" "closed (packetQueue s') = closed (packetQueue s)"
    "ending (packetQueue s') = ending (packetQueue s)" "wake (packetQueue s') = wake (packetQueue s)" "lastControllerPacketTime s' = lastControllerPacketTime s"
    and shape: "map length (currentGamepadSensorState s') = map length (currentGamepadSensorState s)"
    using e by (simp_all add: extends_def)
  have "length (currentGamepadSensorState s') = MAX_GAMEPADS
      \<and> (\<forall>r \<in> set (currentGamepadSensorState s'). length r = nat MAX_MOTION_EVENTS)"
    using map_length_shape [OF shape] map_eq_imp_length_eq [OF shape] i by (simp add: in_inv_def)
  moreover have "\<forall>h \<in> set (contents (packetQueue s')). holder_ok v h" using new i by (auto simp: in_inv_def)
  ultimately show ?thesis using i same by (simp add: in_inv_def)
qed

definition r_ok :: "version \<Rightarrow> input_stream \<Rightarrow> input_result \<Rightarrow> bool" where
  "r_ok v s r \<longleftrightarrow> (\<exists>err s'. r = Some (err, s') \<and> extends v s s' \<and> same_motion s s')"

lemma r_ok_Some [simp]: "r_ok v s (Some (err, s)) "
  by (simp add: r_ok_def)

lemma ex_free_list: "\<exists>q. s = s\<lparr>packetHolderFreeList := q\<rparr>" "\<exists>q n. s = s\<lparr>packetHolderFreeList := q, freeList_lifetime := n\<rparr>"
  "\<exists>q' n. s\<lparr>packetHolderFreeList := q\<rparr> = s\<lparr>packetHolderFreeList := q', freeList_lifetime := n\<rparr>"
  by (rule exI [of _ "packetHolderFreeList s"], simp,
      rule exI [of _ "packetHolderFreeList s"], rule exI [of _ "freeList_lifetime s"], simp,
      rule exI [of _ q], rule exI [of _ "freeList_lifetime s"], simp)

lemma allocatePacketHolder_returns: "\<exists>ok q. allocatePacketHolder e n s = Some (ok, s\<lparr>packetHolderFreeList := q\<rparr>)"
proof (cases "n > 0")
  case True
  then show ?thesis using ex_free_list(1) [of s] by (simp add: allocatePacketHolder_def)
next
  case False
  obtain err d q where t: "take_from Poll (packetHolderFreeList s) = (err, d, q)"
    by (cases "take_from Poll (packetHolderFreeList s)") auto
  moreover have "err = LBQ_SUCCESS \<or> err = LBQ_INTERRUPTED \<or> err = LBQ_NO_ELEMENT"
    using t unfolding take_from_Poll by (auto split: if_splits list.splits)
  ultimately show ?thesis
    using False by (auto simp: allocatePacketHolder_def)
qed

lemma freePacketHolder_returns:
  "hdr_size (packet h) \<noteq> 0 \<Longrightarrow> \<exists>q n. freePacketHolder h s = Some (s\<lparr>packetHolderFreeList := q, freeList_lifetime := n\<rparr>)"
  by (cases "offer_to h (packetHolderFreeList s)") (auto simp: freePacketHolder_def ex_free_list)

lemma enqueue_ok:
  assumes h: "holder_ok v h" and q: "\<not> closed (packetQueue s)" "\<not> ending (packetQueue s)"
  shows "\<exists>err s'. enqueue h s = Some (err, s') \<and> extends v s s' \<and> same_motion s s'
    \<and> contents (packetQueue s') = contents (packetQueue s) @ (if err = 0 then [h] else [])"
proof (cases "length (contents (packetQueue s)) = capacity (packetQueue s)")
  case True
  have "hdr_size (packet h) \<noteq> 0" using h body_ok_bytes(2) by (simp add: holder_ok_def)
  then obtain q' n where "freePacketHolder h s = Some (s\<lparr>packetHolderFreeList := q', freeList_lifetime := n\<rparr>)"
    using freePacketHolder_returns by blast
  then show ?thesis using True q by (simp add: enqueue_def offer_to_eq extends_def same_motion_def)
next
  case False
  then show ?thesis using h q by (simp add: enqueue_def offer_to_eq extends_def same_motion_def)
qed

lemma enqueue_r_ok: "holder_ok v h \<Longrightarrow> \<not> closed (packetQueue s) \<Longrightarrow> \<not> ending (packetQueue s) \<Longrightarrow> r_ok v s (enqueue h s)"
  using enqueue_ok unfolding r_ok_def by blast

lemma with_holder_ok:
  assumes "\<And>q. r_ok v (s\<lparr>packetHolderFreeList := q\<rparr>) (f (s\<lparr>packetHolderFreeList := q\<rparr>))"
  shows "r_ok v s (with_holder e n f s)"
proof -
  obtain ok q where a: "allocatePacketHolder e n s = Some (ok, s\<lparr>packetHolderFreeList := q\<rparr>)"
    using allocatePacketHolder_returns by blast
  have same: "extends v s (s\<lparr>packetHolderFreeList := q\<rparr>)" "same_motion s (s\<lparr>packetHolderFreeList := q\<rparr>)"
    by (simp_all add: extends_def same_motion_def)
  show ?thesis
  proof (cases ok)
    case True
    obtain err s' where "f (s\<lparr>packetHolderFreeList := q\<rparr>) = Some (err, s')"
      "extends v (s\<lparr>packetHolderFreeList := q\<rparr>) s'" "same_motion (s\<lparr>packetHolderFreeList := q\<rparr>) s'"
      using assms [of q] by (auto simp: r_ok_def)
    then show ?thesis
      using a True same extends_trans same_motion_trans by (auto simp: r_ok_def with_holder_def)
  next
    case False
    then show ?thesis using a same by (auto simp: r_ok_def with_holder_def)
  qed
qed

lemma send_one_ok:
  assumes "in_inv v s" "initialized s" "holder_ok v h"
  shows "r_ok v s (with_holder e n (enqueue h) s)"
proof (rule with_holder_ok)
  fix q
  have "\<not> closed (packetQueue s)" "\<not> ending (packetQueue s)" using assms by (auto simp: in_inv_def)
  then show "r_ok v (s\<lparr>packetHolderFreeList := q\<rparr>) (enqueue h (s\<lparr>packetHolderFreeList := q\<rparr>))"
    using enqueue_ok [OF assms(3), of "s\<lparr>packetHolderFreeList := q\<rparr>"] by (auto simp: r_ok_def)
qed

section \<open>Client events\<close>

datatype client_event =
  EvMouseMove u16 u16
| EvMousePosition u16 u16 u16 u16
| EvMouseMoveAsPosition u16 u16 u16 u16
| EvMouseButton u8 i32
| EvKeyboard u16 u8 u8 u8
| EvUtf8Text "u8 list"
| EvController i32 u8 u8 u16 u16 u16 u16
| EvMultiController u16 u16 i32 u8 u8 u16 u16 u16 u16
| EvHighResScroll u16
| EvScroll u8
| EvHighResHScroll u16
| EvHScroll u8
| EvTouch u8 u32 u32 u32 u32 u32 u32 u16
| EvPen u8 u8 u8 u32 u32 u32 u32 u32 u16 u8
| EvControllerArrival u8 u16 u8 u32 u16
| EvControllerTouch u8 u8 u32 u32 u32 u32
| EvControllerMotion u8 u8 u32 u32 u32
| EvControllerBattery u8 u8 u8

fun client_step :: "input_env \<Rightarrow> client_event \<Rightarrow> input_stream \<Rightarrow> input_result" where
  "client_step e (EvMouseMove dx dy) s = LiSendMouseMoveEvent e dx dy s"
| "client_step e (EvMousePosition x y w h) s = LiSendMousePositionEvent e x y w h s"
| "client_step e (EvMouseMoveAsPosition dx dy w h) s = LiSendMouseMoveAsMousePositionEvent e dx dy w h s"
| "client_step e (EvMouseButton a b) s = LiSendMouseButtonEvent e a b s"
| "client_step e (EvKeyboard k a m f) s = LiSendKeyboardEvent2 e k a m f s"
| "client_step e (EvUtf8Text t) s = LiSendUtf8TextEvent e t s"
| "client_step e (EvController b lt rt lx ly rx ry) s = LiSendControllerEvent e b lt rt lx ly rx ry s"
| "client_step e (EvMultiController n m b lt rt lx ly rx ry) s = LiSendMultiControllerEvent e n m b lt rt lx ly rx ry s"
| "client_step e (EvHighResScroll a) s = LiSendHighResScrollEvent e a s"
| "client_step e (EvScroll c) s = LiSendScrollEvent e c s"
| "client_step e (EvHighResHScroll a) s = LiSendHighResHScrollEvent e a s"
| "client_step e (EvHScroll c) s = LiSendHScrollEvent e c s"
| "client_step e (EvTouch t i x y p mj mn r) s = LiSendTouchEvent e t i x y p mj mn r s"
| "client_step e (EvPen t tool b x y p mj mn r tilt) s = LiSendPenEvent e t tool b x y p mj mn r tilt s"
| "client_step e (EvControllerArrival n m t f c) s = LiSendControllerArrivalEvent e n m t f c s"
| "client_step e (EvControllerTouch n t i x y p) s = LiSendControllerTouchEvent e n t i x y p s"
| "client_step e (EvControllerMotion n t x y z) s = LiSendControllerMotionEvent e n t x y z s"
| "client_step e (EvControllerBattery n b p) s = LiSendControllerBatteryEvent e n b p s"

text \<open>
  The arguments the interface allows: the key and button actions of Limelight.h, a controller number that is
  not negative, a motion type other than 0, a text of less than 2 GiB.
\<close>

fun event_ok :: "client_event \<Rightarrow> bool" where
  "event_ok (EvMouseButton a b) = (a \<in> {7, 8})"
| "event_ok (EvKeyboard k a m f) = (a \<in> {3, 4})"
| "event_ok (EvUtf8Text t) = (length t < 2 ^ 31)"
| "event_ok (EvMultiController n m b lt rt lx ly rx ry) = (0 \<le> sint n)"
| "event_ok (EvControllerMotion n t x y z) = (0 < uint t \<and> uint t \<le> 2)"
| "event_ok _ = True"

lemma controller_number_range:
  assumes "0 \<le> sint n"
  shows "uint (controller_number e n) < int MAX_GAMEPADS"
proof -
  let ?k = "if IS_SUNSHINE (in_version e) then int MAX_GAMEPADS else 4"
  have "c_mod (sint n) ?k = sint n mod ?k" using assms by (cases "sint n = 0") (simp_all add: c_mod_def MAX_GAMEPADS_def)
  moreover have "0 \<le> sint n mod ?k" "sint n mod ?k < int MAX_GAMEPADS"
    using pos_mod_bound [of 4 "sint n"] by (auto simp: MAX_GAMEPADS_def)
  ultimately show ?thesis by (simp add: controller_number_def uint_word_of_int MAX_GAMEPADS_def)
qed

lemma pad_index_range: "unat (pad_index n) < MAX_GAMEPADS"
  by (simp add: pad_index_def MAX_GAMEPADS_def unat_mod)

lemma pad_channel:
  assumes "unat (n :: u8) < MAX_GAMEPADS"
  shows "unat (CTRL_CHANNEL_GAMEPAD_BASE + n) < CTRL_CHANNEL_COUNT" "unat (CTRL_CHANNEL_SENSOR_BASE + n) < CTRL_CHANNEL_COUNT"
  using assms by (simp_all add: CTRL_CHANNEL_GAMEPAD_BASE_def CTRL_CHANNEL_SENSOR_BASE_def CTRL_CHANNEL_COUNT_def
      MAX_GAMEPADS_def unat_word_ariths)

lemmas channel_defs = CTRL_CHANNEL_GENERIC_def CTRL_CHANNEL_KEYBOARD_def CTRL_CHANNEL_MOUSE_def CTRL_CHANNEL_PEN_def
  CTRL_CHANNEL_TOUCH_def CTRL_CHANNEL_UTF8_def CTRL_CHANNEL_COUNT_def

text \<open>The holders of the senders.\<close>

lemma simple_holders_ok:
  fixes a k :: u8
  assumes "in_version e = v"
  shows "holder_ok v (holder CTRL_CHANNEL_MOUSE f (relMouseMagic e) (MouseMoveRel x y))"
    and "holder_ok v (holder CTRL_CHANNEL_MOUSE f MOUSE_MOVE_ABS_MAGIC (MouseMoveAbs x y u w h))"
    and "a \<in> {7, 8} \<Longrightarrow> holder_ok v (holder CTRL_CHANNEL_MOUSE f (LE32 (if gen5 e then ucast a + 1 else ucast a)) (MouseButton b))"
    and "k \<in> {3, 4} \<Longrightarrow> holder_ok v (holder CTRL_CHANNEL_KEYBOARD f (LE32 (scast k)) (Keyboard fl c m z))"
    and "holder_ok v (scroll_holder e n)"
    and "holder_ok v (holder CTRL_CHANNEL_MOUSE f SS_HSCROLL_MAGIC (HScroll w))"
    and "holder_ok v (holder CTRL_CHANNEL_TOUCH f SS_TOUCH_MAGIC (Touch t))"
    and "holder_ok v (holder CTRL_CHANNEL_PEN f SS_PEN_MAGIC (Pen p))"
    and "APP_VERSION_AT_LEAST v 7 1 0 \<Longrightarrow> holder_ok v (holder CTRL_CHANNEL_GENERIC f ENABLE_HAPTICS_MAGIC (Haptics w))"
  using assms
  by (auto intro!: holder_okI simp: body_ok_def channel_defs LE32_def relMouseMagic_def scrollMagic_def gen5_def
      v_gen5_def scroll_holder_def Let_def APP_VERSION_AT_LEAST_def MOUSE_MOVE_REL_MAGIC_GEN5_def)

lemma pad_holders_ok:
  assumes "unat n < MAX_GAMEPADS"
  shows "holder_ok v (holder (CTRL_CHANNEL_GAMEPAD_BASE + n) f SS_CONTROLLER_ARRIVAL_MAGIC (ControllerArrival i t c b))"
    and "holder_ok v (holder (CTRL_CHANNEL_GAMEPAD_BASE + n) f SS_CONTROLLER_TOUCH_MAGIC (ControllerTouch i t k x y p))"
    and "holder_ok v (holder (CTRL_CHANNEL_GAMEPAD_BASE + n) f SS_CONTROLLER_BATTERY_MAGIC (ControllerBattery i s q))"
    and "sensor_index (motion_controllerNumber m) (motionType m) \<noteq> None \<Longrightarrow>
      holder_ok v (holder (CTRL_CHANNEL_SENSOR_BASE + n) f SS_CONTROLLER_MOTION_MAGIC (ControllerMotion m))"
  using pad_channel [OF assms] by (auto intro!: holder_okI simp: body_ok_def LE32_def)

lemma controller_holder_ok:
  assumes "0 \<le> sint n" "in_version e = v"
  shows "holder_ok v (holder (CTRL_CHANNEL_GAMEPAD_BASE + ucast (controller_number e n)) f (multiControllerMagic e) (MultiController
      \<lparr>mc_headerB = LE16 MC_HEADER_B, mc_controllerNumber = LE16 (controller_number e n), mc_activeGamepadMask = m,
       mc_midB = LE16 MC_MID_B, mc_buttonFlags = b, mc_leftTrigger = lt, mc_rightTrigger = rt,
       mc_leftStickX = lx, mc_leftStickY = ly, mc_rightStickX = rx, mc_rightStickY = ry,
       mc_tailA = LE16 MC_TAIL_A, mc_buttonFlags2 = b2, mc_tailB = LE16 MC_TAIL_B\<rparr>))"
    and "holder_ok v (holder (CTRL_CHANNEL_GAMEPAD_BASE + ucast (controller_number e n)) f CONTROLLER_MAGIC (Controller c))"
proof -
  have r: "uint (controller_number e n) < int MAX_GAMEPADS" by (rule controller_number_range [OF assms(1)])
  then have "unat (controller_number e n) < MAX_GAMEPADS" by (metis of_nat_less_iff of_nat_unat)
  then have "unat (ucast (controller_number e n) :: u8) < MAX_GAMEPADS"
    by (simp add: unsigned_ucast_eq take_bit_nat_eq_self MAX_GAMEPADS_def)
  then have ch: "unat (CTRL_CHANNEL_GAMEPAD_BASE + ucast (controller_number e n)) < CTRL_CHANNEL_COUNT"
    by (rule pad_channel)
  show "holder_ok v (holder (CTRL_CHANNEL_GAMEPAD_BASE + ucast (controller_number e n)) f (multiControllerMagic e) (MultiController
      \<lparr>mc_headerB = LE16 MC_HEADER_B, mc_controllerNumber = LE16 (controller_number e n), mc_activeGamepadMask = m,
       mc_midB = LE16 MC_MID_B, mc_buttonFlags = b, mc_leftTrigger = lt, mc_rightTrigger = rt,
       mc_leftStickX = lx, mc_leftStickY = ly, mc_rightStickX = rx, mc_rightStickY = ry,
       mc_tailA = LE16 MC_TAIL_A, mc_buttonFlags2 = b2, mc_tailB = LE16 MC_TAIL_B\<rparr>))"
    by (rule holder_okI) (use ch r assms(2) in \<open>simp_all add: body_ok_def LE16_def LE32_def multiControllerMagic_def gen5_def v_gen5_def\<close>)
  show "holder_ok v (holder (CTRL_CHANNEL_GAMEPAD_BASE + ucast (controller_number e n)) f CONTROLLER_MAGIC (Controller c))"
    by (rule holder_okI) (use ch in \<open>simp_all add: body_ok_def LE32_def\<close>)
qed

lemma sendControllerEventInternal_ok:
  assumes "in_inv v s" "env_ok v e" "0 \<le> sint n"
  shows "r_ok v s (sendControllerEventInternal e n m b lt rt lx ly rx ry s)"
proof (cases "initialized s")
  case True
  have v: "in_version e = v" using assms(2) by (simp add: env_ok_def)
  show ?thesis
    unfolding sendControllerEventInternal_def Let_def using True
    by (auto intro!: send_one_ok assms(1) controller_holder_ok [OF assms(3) v])
qed (simp add: sendControllerEventInternal_def)

lemma r_ok_from:
  assumes "extends v s t" "same_motion s t" "r_ok v t r"
  shows "r_ok v s r"
  using assms extends_trans same_motion_trans by (fastforce simp: r_ok_def)

lemma r_ok_then:
  assumes "r_ok v s r" "\<And>err t. extends v s t \<Longrightarrow> same_motion s t \<Longrightarrow> r_ok v t (f err t)"
  shows "r_ok v s (Option.bind r (\<lambda>(err, t). f err t))"
proof -
  obtain err t where t: "r = Some (err, t)" "extends v s t" "same_motion s t" using assms(1) by (auto simp: r_ok_def)
  show ?thesis using r_ok_from [OF t(2,3) assms(2) [OF t(2,3)]] t(1) by simp
qed

lemma scroll_clicks_ok:
  assumes "in_inv v s" "initialized s" "in_version e = v" "nat \<bar>batchedScrollDelta s\<bar> < n"
  shows "\<exists>err s'. scroll_clicks n e s = Some (err, s') \<and> extends v s s' \<and> deltaX (currentRelativeMouseState s') = deltaX (currentRelativeMouseState s)
    \<and> deltaY (currentRelativeMouseState s') = deltaY (currentRelativeMouseState s)
    \<and> \<bar>batchedScrollDelta s'\<bar> \<le> \<bar>batchedScrollDelta s\<bar> \<and> (err = 0 \<longrightarrow> \<bar>batchedScrollDelta s'\<bar> < LI_WHEEL_DELTA)"
  using assms
proof (induction n arbitrary: s)
  case 0
  then show ?case by simp
next
  case (Suc n)
  show ?case
  proof (cases "\<bar>batchedScrollDelta s\<bar> \<ge> LI_WHEEL_DELTA")
    case False
    then show ?thesis by simp
  next
    case big: True
    let ?a = "if batchedScrollDelta s > 0 then LI_WHEEL_DELTA else - LI_WHEEL_DELTA"
    obtain ok q where a: "allocatePacketHolder e 0 s = Some (ok, s\<lparr>packetHolderFreeList := q\<rparr>)"
      using allocatePacketHolder_returns by blast
    let ?s = "s\<lparr>packetHolderFreeList := q\<rparr>"
    have e0: "extends v s ?s" by (simp add: extends_def)
    have inv0: "in_inv v ?s" using extends_in_inv [OF e0] Suc.prems(1) by simp
    have open_q: "\<not> closed (packetQueue ?s)" "\<not> ending (packetQueue ?s)" using Suc.prems(1,2) by (auto simp: in_inv_def)
    obtain err t where t: "enqueue (scroll_holder e ?a) ?s = Some (err, t)" "extends v ?s t" "same_motion ?s t"
      using enqueue_ok [OF simple_holders_ok(5) [OF Suc.prems(3)] open_q] by blast
    let ?t = "t\<lparr>batchedScrollDelta := batchedScrollDelta t - ?a\<rparr>"
    have step: "scroll_clicks (Suc n) e s = (if \<not> ok then Some (- 1, ?s) else if err \<noteq> 0 then Some (err, t) else scroll_clicks n e ?t)"
      using big a t(1) by (simp add: Let_def)
    have b: "batchedScrollDelta t = batchedScrollDelta s" using t(3) by (simp add: same_motion_def)
    have e1: "extends v s ?t" using extends_trans [OF e0 t(2)] by (simp add: extends_def)
    have less: "\<bar>batchedScrollDelta ?t\<bar> < \<bar>batchedScrollDelta s\<bar>"
      using big b by (auto simp: LI_WHEEL_DELTA_def)
    then have less': "nat \<bar>batchedScrollDelta ?t\<bar> < n" using Suc.prems(4) by linarith
    have init: "initialized ?t" using e1 Suc.prems(2) by (simp add: extends_def)
    obtain err' s' where r: "scroll_clicks n e ?t = Some (err', s')" "extends v ?t s'"
      "deltaX (currentRelativeMouseState s') = deltaX (currentRelativeMouseState ?t)"
      "deltaY (currentRelativeMouseState s') = deltaY (currentRelativeMouseState ?t)"
      "\<bar>batchedScrollDelta s'\<bar> \<le> \<bar>batchedScrollDelta ?t\<bar>" "err' = 0 \<longrightarrow> \<bar>batchedScrollDelta s'\<bar> < LI_WHEEL_DELTA"
      using Suc.IH [OF extends_in_inv [OF e1 Suc.prems(1)] init Suc.prems(3) less'] by blast
    have d: "deltaX (currentRelativeMouseState t) = deltaX (currentRelativeMouseState s)"
      "deltaY (currentRelativeMouseState t) = deltaY (currentRelativeMouseState s)"
      using t(3) by (simp_all add: same_motion_def)
    consider "\<not> ok" | "ok" "err \<noteq> 0" | "ok" "err = 0" by blast
    then show ?thesis
    proof cases
      case 1
      then show ?thesis using step e0 by simp
    next
      case 2
      then show ?thesis using step extends_trans [OF e0 t(2)] d b by simp
    next
      case 3
      then show ?thesis using step r extends_trans [OF e1 r(2)] d less by simp
    qed
  qed
qed

text \<open>The movement an event adds, and how far the accumulators can be from their bounds.\<close>

fun moved :: "client_event \<Rightarrow> int \<times> int" where
  "moved (EvMouseMove dx dy) = (sint dx, sint dy)"
| "moved _ = (0, 0)"

definition headroom :: "int \<Rightarrow> input_stream \<Rightarrow> bool" where
  "headroom k s \<longleftrightarrow> \<bar>deltaX (currentRelativeMouseState s)\<bar> \<le> k \<and> \<bar>deltaY (currentRelativeMouseState s)\<bar> \<le> k
     \<and> \<bar>batchedScrollDelta s\<bar> \<le> k"

lemma short_range: "- 32768 \<le> sint (x :: u16)" "sint (x :: u16) \<le> 32767"
  using sint_ge [of x] sint_lt [of x] by simp_all

lemma checked_int_short:
  "\<bar>a\<bar> \<le> k \<Longrightarrow> k + 32768 < 2 ^ 31 \<Longrightarrow> checked_int (a + sint (x :: u16)) = Some (a + sint x)"
  using short_range [of x] by (auto simp: checked_int_def)

text \<open>What every client call does: it returns, queues well-formed holders and adds the movement, if any.\<close>

definition client_ok :: "version \<Rightarrow> int \<times> int \<Rightarrow> input_stream \<Rightarrow> input_result \<Rightarrow> bool" where
  "client_ok v d s r \<longleftrightarrow> (\<exists>err s'. r = Some (err, s') \<and> extends v s s'
     \<and> deltaX (currentRelativeMouseState s') = deltaX (currentRelativeMouseState s) + (if initialized s then fst d else 0)
     \<and> deltaY (currentRelativeMouseState s') = deltaY (currentRelativeMouseState s) + (if initialized s then snd d else 0)
     \<and> \<bar>batchedScrollDelta s'\<bar> \<le> \<bar>batchedScrollDelta s\<bar> + 32768)"

lemma r_ok_client: "r_ok v s r \<Longrightarrow> client_ok v (0, 0) s r"
  by (fastforce simp: r_ok_def client_ok_def same_motion_def)

lemma not_initialized_client: "\<not> initialized s \<Longrightarrow> r = Some (- 2, s) \<Longrightarrow> client_ok v d s r"
  by (simp add: client_ok_def)

lemma LiSendMouseMoveEvent_ok:
  assumes "in_inv v s" "env_ok v e" "headroom k s" "k + 32768 < 2 ^ 31"
  shows "client_ok v (sint dx, sint dy) s (LiSendMouseMoveEvent e dx dy s)"
proof (cases "initialized s \<and> \<not> (dx = 0 \<and> dy = 0)")
  case False
  then show ?thesis by (auto simp: LiSendMouseMoveEvent_def client_ok_def)
next
  case True
  have v: "in_version e = v" using assms(2) by (simp add: env_ok_def)
  let ?m = "currentRelativeMouseState s"
  let ?s = "s\<lparr>currentRelativeMouseState := ?m\<lparr>deltaX := deltaX ?m + sint dx, deltaY := deltaY ?m + sint dy\<rparr>\<rparr>"
  let ?h = "holder CTRL_CHANNEL_MOUSE RELIABLE (relMouseMagic e) (MouseMoveRel (stale16 e) (stale16 e))"
  let ?send = "with_holder e 0 (\<lambda>s. Option.bind (enqueue ?h s) (\<lambda>(err, s). Some (err, if err = 0
      then s\<lparr>currentRelativeMouseState := (currentRelativeMouseState s)\<lparr>rel_dirty := True\<rparr>\<rparr> else s))) ?s"
  have eq: "LiSendMouseMoveEvent e dx dy s = (if \<not> rel_dirty ?m then ?send else Some (0, ?s))"
    using True assms(3,4) checked_int_short [of "deltaX ?m" k dx] checked_int_short [of "deltaY ?m" k dy]
    by (auto simp: LiSendMouseMoveEvent_def headroom_def Let_def)
  have ext: "extends v s ?s" by (simp add: extends_def)
  have open_q: "\<not> closed (packetQueue s)" "\<not> ending (packetQueue s)" using assms(1) True by (auto simp: in_inv_def)
  have "r_ok v ?s ?send"
  proof (rule with_holder_ok, rule r_ok_then)
    fix q
    show "r_ok v (?s\<lparr>packetHolderFreeList := q\<rparr>) (enqueue ?h (?s\<lparr>packetHolderFreeList := q\<rparr>))"
      by (rule enqueue_r_ok [OF simple_holders_ok(1) [OF v]]) (use open_q in simp_all)
    show "r_ok v t (Some (err, if err = 0 then t\<lparr>currentRelativeMouseState := (currentRelativeMouseState t)\<lparr>rel_dirty := True\<rparr>\<rparr> else t))" for err t
      by (auto simp: r_ok_def extends_def same_motion_def)
  qed
  then have "r_ok v ?s (LiSendMouseMoveEvent e dx dy s)" unfolding eq by (cases "rel_dirty ?m") simp_all
  then obtain err s' where r: "LiSendMouseMoveEvent e dx dy s = Some (err, s')" "extends v ?s s'" "same_motion ?s s'"
    by (auto simp: r_ok_def)
  have "extends v s s'" by (rule extends_trans [OF ext r(2)])
  then show ?thesis using r(1,3) True by (simp add: client_ok_def same_motion_def)
qed

lemma LiSendMousePositionEvent_ok:
  assumes "in_inv v s" "env_ok v e"
  shows "r_ok v s (LiSendMousePositionEvent e x y w h s)"
proof (cases "initialized s")
  case True
  have v: "in_version e = v" using assms(2) by (simp add: env_ok_def)
  let ?s = "s\<lparr>currentAbsoluteMouseState := (currentAbsoluteMouseState s)\<lparr>abs_x := x, abs_y := y, abs_width := w, abs_height := h\<rparr>\<rparr>"
  obtain ok q where a: "allocatePacketHolder e 0 ?s = Some (ok, ?s\<lparr>packetHolderFreeList := q\<rparr>)"
    using allocatePacketHolder_returns by blast
  have open_q: "\<not> closed (packetQueue (?s\<lparr>packetHolderFreeList := q\<rparr>))" "\<not> ending (packetQueue (?s\<lparr>packetHolderFreeList := q\<rparr>))"
    using assms(1) True by (auto simp: in_inv_def)
  obtain err t where t: "enqueue (holder CTRL_CHANNEL_MOUSE RELIABLE MOUSE_MOVE_ABS_MAGIC
      (MouseMoveAbs (stale16 e) (stale16 e) 0 (stale16 e) (stale16 e))) (?s\<lparr>packetHolderFreeList := q\<rparr>) = Some (err, t)"
    "extends v (?s\<lparr>packetHolderFreeList := q\<rparr>) t" "same_motion (?s\<lparr>packetHolderFreeList := q\<rparr>) t"
    using enqueue_ok [OF simple_holders_ok(2) [OF v] open_q] by blast
  show ?thesis
    using True a t
    by (cases ok; cases "abs_dirty (currentAbsoluteMouseState s)")
      (simp_all add: LiSendMousePositionEvent_def Let_def r_ok_def remember_position_def extends_def same_motion_def)
qed (simp add: LiSendMousePositionEvent_def)

lemma LiSendUtf8TextEvent_ok:
  assumes "in_inv v s" "env_ok v e" "length text < 2 ^ 31"
  shows "r_ok v s (LiSendUtf8TextEvent e text s)"
proof (cases "initialized s")
  case True
  have "holder_ok v \<lparr>enetPacketFlags = RELIABLE, channelId = CTRL_CHANNEL_UTF8,
      packet = \<lparr>hdr_size = BE32 (4 + of_nat (length text)), hdr_magic = LE32 UTF8_TEXT_EVENT_MAGIC,
                body = Unicode (text @ stale_text e)\<rparr>\<rparr>"
    using assms(2,3) by (auto simp: holder_ok_def body_ok_def channel_defs LE32_def env_ok_def)
  then show ?thesis
    using True assms(1) by (auto simp: LiSendUtf8TextEvent_def intro!: send_one_ok)
qed (simp add: LiSendUtf8TextEvent_def)

lemma LiSendHighResScrollEvent_ok:
  assumes "in_inv v s" "env_ok v e" "headroom k s" "k + 32768 < 2 ^ 31"
  shows "client_ok v (0, 0) s (LiSendHighResScrollEvent e a s)"
proof (cases "initialized s \<and> a \<noteq> 0")
  case False
  then show ?thesis by (auto simp: LiSendHighResScrollEvent_def client_ok_def)
next
  case True
  have v: "in_version e = v" using assms(2) by (simp add: env_ok_def)
  show ?thesis
  proof (cases "needsBatchedScroll s")
    case False
    then have "LiSendHighResScrollEvent e a s = with_holder e 0 (enqueue (scroll_holder e (sint a))) s"
      using True by (simp add: LiSendHighResScrollEvent_def)
    then show ?thesis
      using r_ok_client [OF send_one_ok [OF assms(1) _ simple_holders_ok(5) [OF v]]] True by simp
  next
    case batched: True
    define b0 where "b0 = (if (batchedScrollDelta s < 0 \<and> sint a > 0) \<or> (batchedScrollDelta s > 0 \<and> sint a < 0) then 0
      else batchedScrollDelta s)"
    let ?b = "b0 + sint a"
    let ?s = "s\<lparr>batchedScrollDelta := ?b\<rparr>"
    have abs0: "\<bar>b0\<bar> \<le> \<bar>batchedScrollDelta s\<bar>" by (simp add: b0_def)
    then have "checked_int ?b = Some ?b"
      using assms(3,4) by (intro checked_int_short [of b0 k]) (auto simp: headroom_def)
    then have eq: "LiSendHighResScrollEvent e a s = scroll_clicks (Suc (nat \<bar>?b\<bar>)) e ?s"
      unfolding LiSendHighResScrollEvent_def b0_def using True batched by (simp add: Let_def)
    have e0: "extends v s ?s" by (simp add: extends_def)
    have init: "initialized ?s" using True by simp
    obtain err s' where r: "scroll_clicks (Suc (nat \<bar>?b\<bar>)) e ?s = Some (err, s')" "extends v ?s s'"
      "deltaX (currentRelativeMouseState s') = deltaX (currentRelativeMouseState ?s)"
      "deltaY (currentRelativeMouseState s') = deltaY (currentRelativeMouseState ?s)"
      "\<bar>batchedScrollDelta s'\<bar> \<le> \<bar>batchedScrollDelta ?s\<bar>"
      using scroll_clicks_ok [OF extends_in_inv [OF e0 assms(1)] init v, of "Suc (nat \<bar>?b\<bar>)"] by auto
    have "\<bar>?b\<bar> \<le> \<bar>batchedScrollDelta s\<bar> + 32768" using abs0 short_range [of a] by linarith
    then show ?thesis
      unfolding client_ok_def eq using r extends_trans [OF e0 r(2)] by simp
  qed
qed

lemma set_sensor_shape:
  "map length (currentGamepadSensorState (set_sensor ix x s)) = map length (currentGamepadSensorState s)"
  by (simp add: set_sensor_def map_update) (metis length_list_update list_update_id map_update)

lemma LiSendControllerMotionEvent_ok:
  assumes "in_inv v s" "env_ok v e" "0 < uint t" "uint t \<le> 2"
  shows "r_ok v s (LiSendControllerMotionEvent e n t x y z s)"
proof (cases "initialized s \<and> SunshineFeatureFlags e AND LI_FF_CONTROLLER_TOUCH_EVENTS \<noteq> 0")
  case False
  then show ?thesis using assms(4) by (auto simp: LiSendControllerMotionEvent_def MAX_MOTION_EVENTS_def)
next
  case True
  let ?n = "pad_index n"
  have ix: "sensor_index ?n t \<noteq> None" using assms(3,4) pad_index_range [of n] by (simp add: sensor_index_def MAX_MOTION_EVENTS_def Let_def)
  then obtain i where i: "sensor_index ?n t = Some i" by auto
  let ?s = "set_sensor i ((get_sensor i s)\<lparr>sensor_x := x, sensor_y := y, sensor_z := z\<rparr>) s"
  let ?h = "holder (CTRL_CHANNEL_SENSOR_BASE + ?n) (stale32 e) SS_CONTROLLER_MOTION_MAGIC (ControllerMotion
    \<lparr>motion_controllerNumber = ?n, motionType = t, motion_x = stale32 e, motion_y = stale32 e, motion_z = stale32 e\<rparr>)"
  let ?send = "with_holder e 0 (\<lambda>s. Option.bind (enqueue ?h s) (\<lambda>(err, s). Some (err, if err = 0
      then set_sensor i ((get_sensor i s)\<lparr>sensor_dirty := True\<rparr>) s else s))) ?s"
  have eq: "LiSendControllerMotionEvent e n t x y z s = (if \<not> sensor_dirty (get_sensor i ?s) then ?send else Some (0, ?s))"
    using True i assms(4) by (simp add: LiSendControllerMotionEvent_def Let_def MAX_MOTION_EVENTS_def)
  have set_ok: "extends v u (set_sensor j w u) \<and> same_motion u (set_sensor j w u)" for j w u
    using set_sensor_shape [of j w u] by (simp add: extends_def same_motion_def set_sensor_def)
  have open_q: "\<not> closed (packetQueue ?s)" "\<not> ending (packetQueue ?s)" using assms(1) True by (auto simp: in_inv_def set_sensor_def)
  have h: "holder_ok v ?h" by (rule pad_holders_ok(4) [OF pad_index_range]) (use ix in simp)
  have "r_ok v ?s ?send"
  proof (rule with_holder_ok, rule r_ok_then)
    fix q
    show "r_ok v (?s\<lparr>packetHolderFreeList := q\<rparr>) (enqueue ?h (?s\<lparr>packetHolderFreeList := q\<rparr>))"
      by (rule enqueue_r_ok [OF h]) (use open_q in simp_all)
    show "r_ok v u (Some (err, if err = 0 then set_sensor i ((get_sensor i u)\<lparr>sensor_dirty := True\<rparr>) u else u))" for err u
      using set_ok by (simp add: r_ok_def)
  qed
  then have "r_ok v ?s (LiSendControllerMotionEvent e n t x y z s)" unfolding eq by simp
  then show ?thesis using r_ok_from set_ok by blast
qed

text \<open>The remaining events queue at most two holders and change nothing else.\<close>

lemma simple_events_ok:
  assumes "in_inv v s" "env_ok v e"
  shows "a \<in> {7, 8} \<Longrightarrow> r_ok v s (LiSendMouseButtonEvent e a b s)"
    and "ka \<in> {3, 4} \<Longrightarrow> r_ok v s (LiSendKeyboardEvent2 e k ka m f s)"
    and "r_ok v s (LiSendHighResHScrollEvent e w s)"
    and "r_ok v s (LiSendTouchEvent e t i x y p mj mn ro s)"
    and "r_ok v s (LiSendControllerTouchEvent e n t i x y p s)"
    and "r_ok v s (LiSendControllerBatteryEvent e n bs bp s)"
    and "r_ok v s (sendEnableHaptics e s) \<or> \<not> initialized s"
proof -
  have v: "in_version e = v" using assms(2) by (simp add: env_ok_def)
  note one = send_one_ok [OF assms(1)]
  show "r_ok v s (LiSendMouseButtonEvent e a b s)" if "a \<in> {7, 8}"
    unfolding LiSendMouseButtonEvent_def using one [OF _ simple_holders_ok(3) [OF v that]] by simp
  show "r_ok v s (LiSendKeyboardEvent2 e k ka m f s)" if "ka \<in> {3, 4}"
    unfolding LiSendKeyboardEvent2_def using one [OF _ simple_holders_ok(4) [OF v that]] by simp
  show "r_ok v s (LiSendHighResHScrollEvent e w s)"
    unfolding LiSendHighResHScrollEvent_def using one [OF _ simple_holders_ok(6) [OF v]] by simp
  show "r_ok v s (LiSendTouchEvent e t i x y p mj mn ro s)"
    unfolding LiSendTouchEvent_def using one [OF _ simple_holders_ok(7) [OF v]] by simp
  show "r_ok v s (LiSendControllerTouchEvent e n t i x y p s)"
    unfolding LiSendControllerTouchEvent_def Let_def using one [OF _ pad_holders_ok(2) [OF pad_index_range]] by simp
  show "r_ok v s (LiSendControllerBatteryEvent e n bs bp s)"
    unfolding LiSendControllerBatteryEvent_def Let_def using one [OF _ pad_holders_ok(3) [OF pad_index_range]] by simp
  show "r_ok v s (sendEnableHaptics e s) \<or> \<not> initialized s"
    unfolding sendEnableHaptics_def using one [OF _ simple_holders_ok(9) [OF v]] v by auto
qed

lemma LiSendPenEvent_ok:
  assumes "in_inv v s" "env_ok v e"
  shows "r_ok v s (LiSendPenEvent e t tool b x y p mj mn r tilt s)"
proof (cases "initialized s \<and> SunshineFeatureFlags e AND LI_FF_PEN_TOUCH_EVENTS \<noteq> 0")
  case True
  have v: "in_version e = v" using assms(2) by (simp add: env_ok_def)
  have open_q: "\<not> closed (packetQueue s)" "\<not> ending (packetQueue s)" using assms(1) True by (auto simp: in_inv_def)
  have gen: "r_ok v (s\<lparr>packetHolderFreeList := q, currentPenButtonState := b\<rparr>)
      (enqueue (holder CTRL_CHANNEL_PEN f SS_PEN_MAGIC (Pen pk)) (s\<lparr>packetHolderFreeList := q, currentPenButtonState := b\<rparr>))" for q f pk
    by (rule enqueue_r_ok [OF simple_holders_ok(8) [OF v]]) (use open_q in simp_all)
  have "LiSendPenEvent e t tool b x y p mj mn r tilt s = with_holder e 0 (\<lambda>s.
      enqueue (holder CTRL_CHANNEL_PEN (if TOUCH_EVENT_IS_BATCHABLE t \<and> b XOR currentPenButtonState s = 0 then 0 else RELIABLE)
        SS_PEN_MAGIC (Pen \<lparr>pen_eventType = t, pen_toolType = tool, penButtons = b, pen_x = x, pen_y = y,
          pen_pressureOrDistance = p, pen_rotation = LE16 r, pen_tilt = tilt, pen_contactAreaMajor = mj, pen_contactAreaMinor = mn\<rparr>))
        (s\<lparr>currentPenButtonState := b\<rparr>)) s"
    using True by (simp add: LiSendPenEvent_def Let_def)
  also have "r_ok v s \<dots>"
    by (rule with_holder_ok) (rule r_ok_from [OF _ _ gen], simp_all add: extends_def same_motion_def)
  finally show ?thesis .
qed (auto simp: LiSendPenEvent_def)

lemma LiSendControllerArrivalEvent_ok:
  assumes "in_inv v s" "env_ok v e"
  shows "r_ok v s (LiSendControllerArrivalEvent e n m t f c s)"
proof (cases "initialized s")
  case True
  have nonneg: "0 \<le> sint (ucast (pad_index n) :: u16)"
  proof -
    have "unat (ucast (pad_index n) :: u16) < 16"
      using pad_index_range [of n] by (simp add: unsigned_ucast_eq take_bit_nat_eq_self MAX_GAMEPADS_def)
    then have less: "uint (ucast (pad_index n) :: u16) < 16" using unat_uint_less by force
    have "- (2 ^ 15) \<le> uint (ucast (pad_index n) :: u16)" by (rule order_trans [of _ 0]) simp_all
    moreover have "uint (ucast (pad_index n) :: u16) < 2 ^ 15" by (rule order_less_trans [OF less]) simp
    ultimately have "signed_take_bit 15 (uint (ucast (pad_index n) :: u16)) = uint (ucast (pad_index n) :: u16)"
      by (rule signed_take_bit_int_eq_self)
    then show ?thesis by (simp add: sint_uint)
  qed
  have event: "r_ok v u (LiSendMultiControllerEvent e (ucast (pad_index n)) m 0 0 0 0 0 0 0 u)" if "in_inv v u" for u
    unfolding LiSendMultiControllerEvent_def by (rule sendControllerEventInternal_ok [OF that assms(2) nonneg])
  have "r_ok v s (Option.bind (with_holder e 0 (enqueue (holder (CTRL_CHANNEL_GAMEPAD_BASE + pad_index n) RELIABLE
      SS_CONTROLLER_ARRIVAL_MAGIC (ControllerArrival (pad_index n) t (LE16 c) (LE32 f)))) s)
      (\<lambda>(err, s). if err \<noteq> 0 then Some (err, s) else LiSendMultiControllerEvent e (ucast (pad_index n)) m 0 0 0 0 0 0 0 s))"
    by (rule r_ok_then [OF send_one_ok [OF assms(1) True pad_holders_ok(1) [OF pad_index_range]]])
      (use event extends_in_inv assms(1) in auto)
  then show ?thesis
    unfolding LiSendControllerArrivalEvent_def Let_def using True event [OF assms(1)] by simp
qed (simp add: LiSendControllerArrivalEvent_def)

lemma client_step_ok:
  assumes "in_inv v s" "env_ok v e" "event_ok ev" "headroom k s" "k + 32768 < 2 ^ 31"
  shows "client_ok v (moved ev) s (client_step e ev s)"
proof -
  note simple = r_ok_client [OF simple_events_ok(1) [OF assms(1,2)]] r_ok_client [OF simple_events_ok(2) [OF assms(1,2)]]
    r_ok_client [OF simple_events_ok(3) [OF assms(1,2)]] r_ok_client [OF simple_events_ok(4) [OF assms(1,2)]]
    r_ok_client [OF simple_events_ok(5) [OF assms(1,2)]] r_ok_client [OF simple_events_ok(6) [OF assms(1,2)]]
  show ?thesis
    using assms(3)
    by (cases ev)
      (simp_all add: simple LiSendMouseMoveEvent_ok [OF assms(1,2,4,5)] r_ok_client [OF LiSendMousePositionEvent_ok [OF assms(1,2)]]
        LiSendMouseMoveAsMousePositionEvent_def Let_def r_ok_client [OF LiSendUtf8TextEvent_ok [OF assms(1,2)]]
        LiSendControllerEvent_def LiSendMultiControllerEvent_def r_ok_client [OF sendControllerEventInternal_ok [OF assms(1,2)]]
        LiSendHighResScrollEvent_ok [OF assms(1,2,4,5)] LiSendScrollEvent_def LiSendHScrollEvent_def
        r_ok_client [OF LiSendPenEvent_ok [OF assms(1,2)]] r_ok_client [OF LiSendControllerArrivalEvent_ok [OF assms(1,2)]]
        r_ok_client [OF LiSendControllerMotionEvent_ok [OF assms(1,2)]])
qed

end
