(* ===== verification/InputThread.thy ===== *)
theory InputThread
  imports InputClient
begin

text \<open>
  The accounts a step of the send thread keeps: what it hands to the transport and what it leaves queued or
  pending, against what it found.
\<close>

section \<open>What is handed to the transport\<close>

text \<open>The movement and the packets in the events of a trace.\<close>

fun handed_motion :: "input_event \<Rightarrow> int \<times> int" where
  "handed_motion (HandedOver p c f m) =
     (case body p of MouseMoveRel dx dy \<Rightarrow> (sint (BE16 dx), sint (BE16 dy)) | _ \<Rightarrow> (0, 0))"
| "handed_motion _ = (0, 0)"

definition handed_x :: "input_event list \<Rightarrow> int" where "handed_x evs = (\<Sum>ev \<leftarrow> evs. fst (handed_motion ev))"
definition handed_y :: "input_event list \<Rightarrow> int" where "handed_y evs = (\<Sum>ev \<leftarrow> evs. snd (handed_motion ev))"

fun handed_packet :: "input_event \<Rightarrow> input_packet option" where
  "handed_packet (HandedOver p c f m) = Some p"
| "handed_packet _ = None"

definition handed :: "input_event list \<Rightarrow> input_packet list" where
  "handed evs = List.map_filter handed_packet evs"

text \<open>
  The packets that are neither batched, filled in late nor split, and the button state a packet of a
  controller carries.
\<close>

fun is_plain :: "input_body \<Rightarrow> bool" where
  "is_plain (MouseMoveRel _ _) = False"
| "is_plain (MouseMoveAbs _ _ _ _ _) = False"
| "is_plain (MultiController _) = False"
| "is_plain (Pen _) = False"
| "is_plain (ControllerMotion _) = False"
| "is_plain (Unicode _) = False"
| "is_plain _ = True"

definition plain_packets :: "input_packet list \<Rightarrow> input_packet list" where
  "plain_packets ps = filter (\<lambda>p. is_plain (body p)) ps"

definition buttons_of :: "multi_controller \<Rightarrow> u16 \<times> u16 \<times> u16 \<times> u16" where
  "buttons_of c = (mc_controllerNumber c, mc_activeGamepadMask c, mc_buttonFlags c, mc_buttonFlags2 c)"

fun pad_buttons :: "input_packet \<Rightarrow> (u16 \<times> u16 \<times> u16 \<times> u16) option" where
  "pad_buttons p = (case body p of MultiController c \<Rightarrow> Some (buttons_of c) | _ \<Rightarrow> None)"

definition button_states :: "input_packet list \<Rightarrow> (u16 \<times> u16 \<times> u16 \<times> u16) list" where
  "button_states ps = List.map_filter pad_buttons ps"

definition in_queue :: "input_stream \<Rightarrow> input_packet list" where
  "in_queue s = map packet (contents (packetQueue s))"

lemma handed_simps [simp]:
  "handed [] = []" "handed (HandedOver p c f m # evs) = p # handed evs"
  "handed_packet ev = None \<Longrightarrow> handed (ev # evs) = handed evs" "handed (evs @ evs') = handed evs @ handed evs'"
  by (simp_all add: handed_def map_filter_simps map_filter_def)

lemma plain_simps [simp]:
  "plain_packets [] = []" "plain_packets (p # ps) = (if is_plain (body p) then p # plain_packets ps else plain_packets ps)"
  "plain_packets (ps @ qs) = plain_packets ps @ plain_packets qs"
  by (simp_all add: plain_packets_def)

lemma button_simps [simp]:
  "button_states [] = []" "body p = MultiController c \<Longrightarrow> button_states (p # ps) = buttons_of c # button_states ps"
  "\<nexists>c. body p = MultiController c \<Longrightarrow> button_states (p # ps) = button_states ps"
  "button_states (ps @ qs) = button_states ps @ button_states qs"
  by (auto simp: button_states_def map_filter_simps map_filter_def buttons_of_def split: input_body.splits)

lemma handed_motion_simps [simp]:
  "handed_x [] = 0" "handed_x (ev # evs) = fst (handed_motion ev) + handed_x evs" "handed_x (evs @ evs') = handed_x evs + handed_x evs'"
  "handed_y [] = 0" "handed_y (ev # evs) = snd (handed_motion ev) + handed_y evs" "handed_y (evs @ evs') = handed_y evs + handed_y evs'"
  by (simp_all add: handed_x_def handed_y_def)

definition quiet :: "input_event \<Rightarrow> bool" where "quiet ev \<longleftrightarrow> handed_packet ev = None"

lemma quiet_simps [simp]:
  "quiet FlushControl" "quiet (Sleep n)" "quiet (ControlSend b c f m)" "quiet (SocketSend b)" "quiet (ConnectionTerminated n)"
  "\<not> quiet (HandedOver p c f m)"
  by (simp_all add: quiet_def)

lemma quiet_list:
  assumes "list_all quiet evs"
  shows "handed evs = []" "handed_x evs = 0" "handed_y evs = 0"
proof -
  have "handed evs = [] \<and> handed_x evs = 0 \<and> handed_y evs = 0"
    using assms
  proof (induction evs)
    case (Cons ev evs)
    then show ?case by (cases ev) simp_all
  qed simp
  then show "handed evs = []" "handed_x evs = 0" "handed_y evs = 0" by simp_all
qed

text \<open>Squeezing repetitions depends on a prefix only through the squeezed prefix.\<close>

lemma remdups_adj_prefix:
  assumes "remdups_adj xs = remdups_adj ys"
  shows "remdups_adj (xs @ zs) = remdups_adj (ys @ zs)"
proof (cases zs)
  case (Cons z zs')
  have "remdups_adj (xs @ [z]) = remdups_adj (ys @ [z])"
  proof (cases "xs = [] \<or> ys = []")
    case True
    then have "xs = []" "ys = []" using assms by (metis remdups_adj_Nil_iff)+
    then show ?thesis by simp
  next
    case False
    then have "last xs = last ys" using assms last_remdups_adj [of xs] last_remdups_adj [of ys] by metis
    then show ?thesis using False assms by (simp add: remdups_adj_append'')
  qed
  then show ?thesis unfolding Cons remdups_adj_append [of xs z zs'] remdups_adj_append [of ys z zs'] by simp
qed (use assms in simp)

lemma remdups_adj_suffix:
  assumes "remdups_adj xs = remdups_adj ys"
  shows "remdups_adj (zs @ xs) = remdups_adj (zs @ ys)"
proof -
  have "remdups_adj (rev xs @ rev zs) = remdups_adj (rev ys @ rev zs)"
    using assms by (intro remdups_adj_prefix) simp
  then show ?thesis by (metis remdups_adj_rev rev_append rev_rev_ident)
qed

section \<open>Sending\<close>

text \<open>A packet the transport can be given: its bytes exist, fit the buffers, and its channel is one of the host's.\<close>

definition packet_ok :: "version \<Rightarrow> input_packet \<Rightarrow> u8 \<Rightarrow> bool" where
  "packet_ok v p c \<longleftrightarrow> hdr_magic p \<in> body_magics v (body p) \<and> unat c < CTRL_CHANNEL_COUNT
     \<and> unat (BE32 (hdr_size p)) + 4 \<le> length (packet_image p) \<and> unat (BE32 (hdr_size p)) + 4 \<le> 40"

fun handed_ok :: "version \<Rightarrow> input_event \<Rightarrow> bool" where
  "handed_ok v (HandedOver p c f m) = packet_ok v p c"
| "handed_ok v _ = True"

lemma quiet_handed_ok: "quiet ev \<Longrightarrow> handed_ok v ev"
  by (cases ev) simp_all

lemma holder_ok_packet_ok:
  assumes "holder_ok v h" "\<nexists>t. body (packet h) = Unicode t"
  shows "packet_ok v (packet h) (channelId h)"
proof -
  have sz: "hdr_size (packet h) = BE32 (of_nat (sizeof_packet (body (packet h)) - 4))"
    using assms by (auto simp: holder_ok_def body_ok_def split: input_body.splits)
  then have "packet h = fixed_packet (hdr_magic (packet h)) (body (packet h))"
    by (simp add: fixed_packet_def LE32_def)
  then have "unat (BE32 (hdr_size (packet h))) + 4 = sizeof_packet (body (packet h))"
    and "length (packet_image (packet h)) = sizeof_packet (body (packet h))"
    using fixed_packet_size(1) [OF assms(2), of "enetPacketFlags h" "channelId h" "hdr_magic (packet h)"]
      fixed_packet_size(2) [OF assms(2), of "hdr_magic (packet h)"]
    by (simp_all add: PACKET_SIZE_def PAYLOAD_SIZE_def)
  then show ?thesis
    using assms(1) length_body_bytes_fixed [OF assms(2)] by (simp add: packet_ok_def holder_ok_def)
qed

text \<open>Sending records the packet, then only the transport's own events, and may move the IV on.\<close>

lemma sendInputPacket_ok:
  assumes "packet_ok v (packet h) (channelId h)" "env_ok v e"
  shows "\<exists>ok iv evs. sendInputPacket e h m s = Some (ok, s\<lparr>currentAesIv := iv,
      input_trace := input_trace s @ HandedOver (packet h) (channelId h) (enetPacketFlags h) m # evs\<rparr>) \<and> list_all quiet evs"
proof -
  let ?p = "take (PACKET_SIZE h) (packet_image (packet h))"
  let ?s = "log (HandedOver (packet h) (channelId h) (enetPacketFlags h) m) s"
  have bytes: "holder_bytes h = Some ?p" and len: "length ?p \<le> 40"
    using assms(1) by (simp_all add: packet_ok_def holder_bytes_def mem_read_def PACKET_SIZE_def PAYLOAD_SIZE_def)
  have same: "s\<lparr>currentAesIv := currentAesIv s, input_trace := tr\<rparr> = s\<lparr>input_trace := tr\<rparr>" for tr by simp
  show ?thesis
  proof (cases "encryptedControlStream s")
    case True
    then show ?thesis
      using bytes by (auto simp: sendInputPacket_def log_def terminate_input_def Let_def
        intro!: exI [of _ "currentAesIv s"])
  next
    case False
    show ?thesis
    proof (cases "encryptData e (currentAesIv s) ?p")
      case None
      then show ?thesis
        using bytes False by (auto simp: sendInputPacket_def log_def terminate_input_def Let_def intro!: exI [of _ "currentAesIv s"])
    next
      case (Some ct)
      have "length ct \<le> MAX_INPUT_PACKET_SIZE - 4" using assms(2) len Some unfolding env_ok_def by blast
      then have a: "LC_ASSERT (length (rev (le_bytes 4 (of_nat (length ct) :: u32)) @ ct) \<le> MAX_INPUT_PACKET_SIZE) = Some ()"
        by (simp add: MAX_INPUT_PACKET_SIZE_def)
      define buffer where "buffer = rev (le_bytes 4 (of_nat (length ct) :: u32)) @ ct"
      define iv where "iv = (if vq0 (in_version e) \<ge> 7 \<and> length ct \<ge> 16 + sizeof_IV then drop (length buffer - sizeof_IV) buffer
        else currentAesIv s)"
      have eq: "sendInputPacket e h m s = (let err = send_result e (input_trace ?s) in
          if vq0 (in_version e) < 5 then
            (let t = log (SocketSend buffer) ?s in Some (if err \<le> 0 then terminate_input err t else (True, t)))
          else (let t = log (ControlSend buffer (channelId h) (enetPacketFlags h) m) (?s\<lparr>currentAesIv := iv\<rparr>)
            in Some (if err < 0 then terminate_input err t else (True, t))))"
        using bytes False Some a unfolding sendInputPacket_def buffer_def iv_def by (simp add: log_def Let_def)
      show ?thesis
        unfolding eq
        by (cases "vq0 (in_version e) < 5";
            auto simp: log_def terminate_input_def Let_def intro!: exI [of _ "if vq0 (in_version e) < 5 then currentAesIv s else iv"])
    qed
  qed
qed

section \<open>What a thread step changes\<close>

text \<open>
  The thread takes holders from the front of the queue and extends the trace; what it hands over and what it
  leaves pending account for the movement, the plain packets and the button states it found.
\<close>

definition works :: "version \<Rightarrow> input_stream \<Rightarrow> input_stream \<Rightarrow> bool" where
  "works v s t \<longleftrightarrow> (\<exists>evs. input_trace t = input_trace s @ evs \<and> list_all (handed_ok v) evs
       \<and> deltaX (currentRelativeMouseState t) + handed_x evs = deltaX (currentRelativeMouseState s)
       \<and> deltaY (currentRelativeMouseState t) + handed_y evs = deltaY (currentRelativeMouseState s)
       \<and> plain_packets (handed evs) @ plain_packets (in_queue t) = plain_packets (in_queue s)
       \<and> remdups_adj (button_states (handed evs) @ button_states (in_queue t)) = remdups_adj (button_states (in_queue s)))
     \<and> \<bar>deltaX (currentRelativeMouseState t)\<bar> \<le> \<bar>deltaX (currentRelativeMouseState s)\<bar>
     \<and> \<bar>deltaY (currentRelativeMouseState t)\<bar> \<le> \<bar>deltaY (currentRelativeMouseState s)\<bar>
     \<and> batchedScrollDelta t = batchedScrollDelta s \<and> initialized t = initialized s
     \<and> set (contents (packetQueue t)) \<subseteq> set (contents (packetQueue s))
     \<and> length (contents (packetQueue t)) \<le> length (contents (packetQueue s)) \<and> (wake (packetQueue t) \<longrightarrow> wake (packetQueue s))
     \<and> closed (packetQueue t) = closed (packetQueue s) \<and> ending (packetQueue t) = ending (packetQueue s)
     \<and> length (lastControllerPacketTime t) = length (lastControllerPacketTime s)
     \<and> map length (currentGamepadSensorState t) = map length (currentGamepadSensorState s)"

lemma works_refl: "works v s s"
  by (auto simp: works_def)

lemma works_trans:
  assumes "works v s t" "works v t u"
  shows "works v s u"
proof -
  obtain es where es: "input_trace t = input_trace s @ es" "list_all (handed_ok v) es"
    "deltaX (currentRelativeMouseState t) + handed_x es = deltaX (currentRelativeMouseState s)"
    "deltaY (currentRelativeMouseState t) + handed_y es = deltaY (currentRelativeMouseState s)"
    "plain_packets (handed es) @ plain_packets (in_queue t) = plain_packets (in_queue s)"
    "remdups_adj (button_states (handed es) @ button_states (in_queue t)) = remdups_adj (button_states (in_queue s))"
    using assms(1) by (auto simp: works_def)
  obtain fs where fs: "input_trace u = input_trace t @ fs" "list_all (handed_ok v) fs"
    "deltaX (currentRelativeMouseState u) + handed_x fs = deltaX (currentRelativeMouseState t)"
    "deltaY (currentRelativeMouseState u) + handed_y fs = deltaY (currentRelativeMouseState t)"
    "plain_packets (handed fs) @ plain_packets (in_queue u) = plain_packets (in_queue t)"
    "remdups_adj (button_states (handed fs) @ button_states (in_queue u)) = remdups_adj (button_states (in_queue t))"
    using assms(2) by (auto simp: works_def)
  have "plain_packets (handed (es @ fs)) @ plain_packets (in_queue u) = plain_packets (in_queue s)"
    using es(5) fs(5) by simp
  moreover have "remdups_adj (button_states (handed (es @ fs)) @ button_states (in_queue u)) = remdups_adj (button_states (in_queue s))"
    using remdups_adj_suffix [OF fs(6), of "button_states (handed es)"] es(6) by simp
  ultimately have "\<exists>evs. input_trace u = input_trace s @ evs \<and> list_all (handed_ok v) evs
       \<and> deltaX (currentRelativeMouseState u) + handed_x evs = deltaX (currentRelativeMouseState s)
       \<and> deltaY (currentRelativeMouseState u) + handed_y evs = deltaY (currentRelativeMouseState s)
       \<and> plain_packets (handed evs) @ plain_packets (in_queue u) = plain_packets (in_queue s)
       \<and> remdups_adj (button_states (handed evs) @ button_states (in_queue u)) = remdups_adj (button_states (in_queue s))"
    using es(1-4) fs(1-4) by (intro exI [of _ "es @ fs"]) simp
  then show ?thesis using assms unfolding works_def by auto
qed

text \<open>A step that only extends the trace by quiet events, or touches neither queue nor movement.\<close>

definition aside :: "input_stream \<Rightarrow> input_stream \<Rightarrow> bool" where
  "aside s t \<longleftrightarrow> (\<exists>evs. input_trace t = input_trace s @ evs \<and> list_all quiet evs)
     \<and> deltaX (currentRelativeMouseState t) = deltaX (currentRelativeMouseState s)
     \<and> deltaY (currentRelativeMouseState t) = deltaY (currentRelativeMouseState s)
     \<and> batchedScrollDelta t = batchedScrollDelta s \<and> initialized t = initialized s \<and> packetQueue t = packetQueue s
     \<and> length (lastControllerPacketTime t) = length (lastControllerPacketTime s)
     \<and> map length (currentGamepadSensorState t) = map length (currentGamepadSensorState s)"

lemma aside_works: "aside s t \<Longrightarrow> works v s t"
proof -
  assume a: "aside s t"
  then obtain evs where evs: "input_trace t = input_trace s @ evs" "list_all quiet evs" by (auto simp: aside_def)
  moreover have "list_all (handed_ok v) evs" using evs(2) quiet_handed_ok by (auto simp: list_all_iff)
  ultimately show "works v s t"
    using a quiet_list [OF evs(2)] by (auto simp: works_def aside_def in_queue_def)
qed

lemma works_in_inv:
  assumes "works v s t" "in_inv v s"
    "case phase t of SplittingMouse h _ \<Rightarrow> holder_ok v h \<and> (\<exists>x y. body (packet h) = MouseMoveRel x y) | _ \<Rightarrow> True"
  shows "in_inv v t"
proof -
  have w: "set (contents (packetQueue t)) \<subseteq> set (contents (packetQueue s))" "initialized t = initialized s"
    "closed (packetQueue t) = closed (packetQueue s)" "ending (packetQueue t) = ending (packetQueue s)"
    "length (lastControllerPacketTime t) = length (lastControllerPacketTime s)"
    and shape: "map length (currentGamepadSensorState t) = map length (currentGamepadSensorState s)"
    using assms(1) by (simp_all only: works_def)
  have "\<forall>h \<in> set (contents (packetQueue t)). holder_ok v h" using w(1) assms(2) unfolding in_inv_def by blast
  moreover have "length (currentGamepadSensorState t) = MAX_GAMEPADS
      \<and> (\<forall>r \<in> set (currentGamepadSensorState t). length r = nat MAX_MOTION_EVENTS)"
    using map_length_shape [OF shape] map_eq_imp_length_eq [OF shape] assms(2) unfolding in_inv_def by metis
  moreover have "initialized t \<longrightarrow> \<not> closed (packetQueue t) \<and> \<not> ending (packetQueue t)"
    "length (lastControllerPacketTime t) = MAX_GAMEPADS"
    unfolding w(2-5) using assms(2) unfolding in_inv_def by blast+
  moreover have "\<not> closed (packetQueue t)" "\<not> wake (packetQueue t)"
    using assms(1,2) unfolding works_def in_inv_def by blast+
  ultimately show ?thesis using assms(3) unfolding in_inv_def by blast
qed

text \<open>Taking the holder at the front and handing it over.\<close>

definition hands :: "version \<Rightarrow> packet_holder \<Rightarrow> input_stream \<Rightarrow> input_stream option \<Rightarrow> bool" where
  "hands v h s r \<longleftrightarrow> (\<exists>t. r = Some t \<and> works v (s\<lparr>packetQueue := (packetQueue s)\<lparr>contents := h # contents (packetQueue s)\<rparr>\<rparr>) t
     \<and> length (contents (packetQueue t)) \<le> length (contents (packetQueue s))
     \<and> (case phase t of SplittingMouse h _ \<Rightarrow> holder_ok v h \<and> (\<exists>x y. body (packet h) = MouseMoveRel x y) | _ \<Rightarrow> True))"

lemma send_and_free_hands:
  assumes "holder_ok v h'" "env_ok v e" "\<nexists>t. body (packet h') = Unicode t" "\<nexists>x y. body (packet h') = MouseMoveRel x y"
    and "plain_packets [packet h'] = plain_packets [packet h]" "button_states [packet h'] = button_states [packet h]"
  shows "hands v h s (send_and_free e h' m s)"
proof -
  let ?q = "s\<lparr>packetQueue := (packetQueue s)\<lparr>contents := h # contents (packetQueue s)\<rparr>\<rparr>"
  have p: "packet_ok v (packet h') (channelId h')" by (rule holder_ok_packet_ok [OF assms(1,3)])
  obtain ok iv evs where s: "sendInputPacket e h' m s = Some (ok, s\<lparr>currentAesIv := iv,
      input_trace := input_trace s @ HandedOver (packet h') (channelId h') (enetPacketFlags h') m # evs\<rparr>)" "list_all quiet evs"
    using sendInputPacket_ok [OF p assms(2)] by blast
  obtain q n where f: "freePacketHolder h' (s\<lparr>currentAesIv := iv,
      input_trace := input_trace s @ HandedOver (packet h') (channelId h') (enetPacketFlags h') m # evs\<rparr>)
    = Some (s\<lparr>currentAesIv := iv, input_trace := input_trace s @ HandedOver (packet h') (channelId h') (enetPacketFlags h') m # evs,
        packetHolderFreeList := q, freeList_lifetime := n\<rparr>)"
    using freePacketHolder_returns [OF body_ok_bytes(2)] assms(1) unfolding holder_ok_def by blast
  have "handed_motion (HandedOver (packet h') c f m) = (0, 0)" for c f
    using assms(4) by (simp split: input_body.split)
  moreover have "list_all (handed_ok v) evs" using s(2) quiet_handed_ok by (auto simp: list_all_iff)
  moreover have "plain_packets (packet h' # ps) = plain_packets (packet h # ps)"
    "button_states (packet h' # ps) = button_states (packet h # ps)" for ps
    using assms(5,6) plain_simps(3) [of "[packet h']" ps] plain_simps(3) [of "[packet h]" ps]
      button_simps(4) [of "[packet h']" ps] button_simps(4) [of "[packet h]" ps] by auto
  ultimately show ?thesis
    unfolding hands_def send_and_free_def using s(1) f quiet_list [OF s(2)] p
      button_simps(4) [of "[packet h]" "map packet (contents (packetQueue s))"]
    by (auto simp: works_def in_queue_def)
qed

end
