(* ===== verification/InputHistory.thy ===== *)
theory InputHistory
  imports InputThread
begin

text \<open>
  The steps of the send thread and the histories of client calls and thread steps: no step fails, mouse
  movement is conserved, key presses and clicks reach the transport once and in order, and batching keeps
  every change of a controller's buttons.
\<close>

section \<open>The holder in the thread's hands\<close>

definition front :: "packet_holder \<Rightarrow> input_stream \<Rightarrow> input_stream" where
  "front h s = s\<lparr>packetQueue := (packetQueue s)\<lparr>contents := h # contents (packetQueue s)\<rparr>\<rparr>"

definition phase_ok :: "version \<Rightarrow> input_stream \<Rightarrow> bool" where
  "phase_ok v t \<longleftrightarrow> (case phase t of SplittingMouse h _ \<Rightarrow> holder_ok v h \<and> (\<exists>x y. body (packet h) = MouseMoveRel x y) | _ \<Rightarrow> True)"

lemma hands_front: "hands v h s r \<longleftrightarrow> (\<exists>t. r = Some t \<and> works v (front h s) t
    \<and> length (contents (packetQueue t)) \<le> length (contents (packetQueue s)) \<and> phase_ok v t)"
  by (simp add: hands_def front_def phase_ok_def)

lemma works_shrinks: "works v s t \<Longrightarrow> length (contents (packetQueue t)) \<le> length (contents (packetQueue s))"
  unfolding works_def by blast

lemma works_hands: "works v (front h s) (front k t) \<Longrightarrow> hands v k t r \<Longrightarrow> hands v h s r"
proof -
  assume w: "works v (front h s) (front k t)" and "hands v k t r"
  then obtain u where u: "r = Some u" "works v (front k t) u" "length (contents (packetQueue u)) \<le> length (contents (packetQueue t))"
    "phase_ok v u" by (auto simp: hands_front)
  have "length (contents (packetQueue t)) \<le> length (contents (packetQueue s))"
    using works_shrinks [OF w] by (simp add: front_def)
  then show "hands v h s r" unfolding hands_front using works_trans [OF w u(2)] u(1,3,4) by auto
qed

lemma aside_front: "aside s t \<Longrightarrow> works v (front h s) (front h t)"
  by (rule aside_works) (simp add: aside_def front_def)

lemma aside_hands: "aside s t \<Longrightarrow> hands v h t r \<Longrightarrow> hands v h s r"
  by (rule works_hands [OF aside_front])

lemma batching_wait_aside: "batching_wait e l s = (now, t) \<Longrightarrow> aside s t"
  by (auto simp: batching_wait_def aside_def log_def Let_def split: if_splits)

lemma batching_wait_queue: "batching_wait e l s = (now, t) \<Longrightarrow> packetQueue t = packetQueue s"
  using batching_wait_aside by (simp add: aside_def)

lemma aside_trans: "aside s t \<Longrightarrow> aside t u \<Longrightarrow> aside s u"
  by (auto simp: aside_def)

text \<open>A holder that carries neither buttons nor a plain packet may be dropped.\<close>

lemma works_drop_front:
  assumes "\<not> is_plain (body (packet h))" "\<nexists>c. body (packet h) = MultiController c"
  shows "works v (front h s) s"
  using assms by (auto simp: works_def front_def in_queue_def intro!: exI [of _ "[]"])

text \<open>Two holders at the front may become one when they show the same plain packets and buttons.\<close>

lemma works_merge:
  assumes "packetQueue t = (packetQueue s)\<lparr>contents := q\<rparr>" "contents (packetQueue s) = h' # q" "k = h \<or> k = h'"
    and plain: "plain_packets [packet k] = plain_packets [packet h, packet h']"
    and buttons: "remdups_adj (button_states [packet k]) = remdups_adj (button_states [packet h, packet h'])"
    and same: "input_trace t = input_trace s" "currentRelativeMouseState t = currentRelativeMouseState s"
      "batchedScrollDelta t = batchedScrollDelta s" "initialized t = initialized s"
      "lastControllerPacketTime t = lastControllerPacketTime s" "currentGamepadSensorState t = currentGamepadSensorState s"
  shows "works v (front h s) (front k t)"
proof -
  let ?r = "map packet q"
  have "plain_packets (packet k # ?r) = plain_packets (packet h # packet h' # ?r)"
    using plain plain_simps(3) [of "[packet k]" ?r] plain_simps(3) [of "[packet h, packet h']" ?r] by auto
  moreover have "remdups_adj (button_states (packet k # ?r)) = remdups_adj (button_states (packet h # packet h' # ?r))"
    using remdups_adj_prefix [OF buttons, of "button_states ?r"] button_simps(4) [of "[packet k]" ?r]
      button_simps(4) [of "[packet h, packet h']" ?r] by simp
  ultimately have "plain_packets (handed []) @ plain_packets (in_queue (front k t)) = plain_packets (in_queue (front h s))"
    "remdups_adj (button_states (handed []) @ button_states (in_queue (front k t))) = remdups_adj (button_states (in_queue (front h s)))"
    using assms(1,2) by (simp_all add: in_queue_def front_def)
  then show ?thesis
    using assms(1-3) same unfolding works_def by (auto simp: front_def intro!: exI [of _ "[]"])
qed

section \<open>Batching\<close>

definition same_pad :: "multi_controller \<Rightarrow> multi_controller \<Rightarrow> bool" where
  "same_pad c d \<longleftrightarrow> buttons_of c = buttons_of d \<and> mc_headerB c = mc_headerB d \<and> mc_midB c = mc_midB d
     \<and> mc_tailA c = mc_tailA d \<and> mc_tailB c = mc_tailB d"

lemma same_pad_take_analog: "same_pad (take_analog new orig) orig"
  by (simp add: same_pad_def take_analog_def buttons_of_def)

lemma same_buttons_iff: "same_buttons new orig \<longleftrightarrow> buttons_of new = buttons_of orig"
  by (auto simp: same_buttons_def buttons_of_def)

definition queue_ok :: "version \<Rightarrow> input_stream \<Rightarrow> bool" where
  "queue_ok v s \<longleftrightarrow> (\<forall>h \<in> set (contents (packetQueue s)). holder_ok v h)"

lemma free_in_queue: "holder_ok v h \<Longrightarrow> \<exists>q n. freePacketHolder h s = Some (s\<lparr>packetHolderFreeList := q, freeList_lifetime := n\<rparr>)"
  using freePacketHolder_returns [OF body_ok_bytes(2)] by (auto simp: holder_ok_def)

lemma batch_controllers_ok:
  assumes "queue_ok v s" "magic = LE32 (if v_gen5 v then MULTI_CONTROLLER_MAGIC_GEN5 else MULTI_CONTROLLER_MAGIC)"
    "body (packet h) = MultiController d" "same_pad orig d"
  shows "\<exists>c t. batch_controllers n magic h orig s = Some (c, t) \<and> same_pad c d \<and> works v (front h s) (front h t) \<and> queue_ok v t
    \<and> lastControllerPacketTime t = lastControllerPacketTime s"
  using assms
proof (induction n arbitrary: orig s)
  case 0
  then show ?case using works_refl by auto
next
  case (Suc n)
  show ?case
  proof (cases "\<not> closed (packetQueue s) \<and> contents (packetQueue s) \<noteq> []
      \<and> hdr_magic (packet (hd (contents (packetQueue s)))) = magic")
    case False
    then show ?thesis
      using Suc.prems works_refl by (auto simp: take_from_Peek split: list.split)
  next
    case True
    then obtain h' q where q: "contents (packetQueue s) = h' # q" by (cases "contents (packetQueue s)") auto
    have ok: "holder_ok v h'" using Suc.prems(1) q by (simp add: queue_ok_def)
    then obtain new where new: "body (packet h') = MultiController new"
      using dispatch_ok(1) [of h' v] True q Suc.prems(2) by (auto simp: holder_ok_def LE32_def)
    let ?s = "s\<lparr>packetQueue := (packetQueue s)\<lparr>contents := q\<rparr>\<rparr>"
    obtain fl nl where f: "freePacketHolder h' ?s = Some (?s\<lparr>packetHolderFreeList := fl, freeList_lifetime := nl\<rparr>)"
      using free_in_queue [OF ok] by blast
    let ?t = "?s\<lparr>packetHolderFreeList := fl, freeList_lifetime := nl\<rparr>"
    have step: "batch_controllers (Suc n) magic h orig s = (if same_buttons new orig
        then batch_controllers n magic h (take_analog new orig) ?t else Some (orig, s))"
      using True q new f by (simp add: take_from_Peek take_from_Poll)
    show ?thesis
    proof (cases "same_buttons new orig")
      case False
      then show ?thesis using step Suc.prems works_refl by auto
    next
      case same: True
      have pad: "same_pad (take_analog new orig) d"
        using same_pad_take_analog [of new orig] Suc.prems(4) by (simp add: same_pad_def)
      have "queue_ok v ?t" using Suc.prems(1) q by (simp add: queue_ok_def)
      then obtain c t where r: "batch_controllers n magic h (take_analog new orig) ?t = Some (c, t)" "same_pad c d"
        "works v (front h ?t) (front h t)" "queue_ok v t" "lastControllerPacketTime t = lastControllerPacketTime ?t"
        using Suc.IH [OF _ Suc.prems(2,3) pad] by blast
      have eq: "buttons_of new = buttons_of d" using same Suc.prems(4) by (simp add: same_buttons_iff same_pad_def)
      have "works v (front h s) (front h ?t)"
        by (rule works_merge [OF _ q]) (simp_all add: new Suc.prems(3) eq)
      then show ?thesis using step same r works_trans by auto
    qed
  qed
qed

lemma batch_pen_ok:
  assumes "queue_ok v s" "holder_ok v h" "body (packet h) = Pen p"
  shows "\<exists>h' p' t. batch_pen n h p s = Some (h', t) \<and> holder_ok v h' \<and> body (packet h') = Pen p' \<and> works v (front h s) (front h' t)"
  using assms
proof (induction n arbitrary: h p s)
  case 0
  then show ?case using works_refl by auto
next
  case (Suc n)
  show ?case
  proof (cases "\<not> closed (packetQueue s) \<and> contents (packetQueue s) \<noteq> []
      \<and> hdr_magic (packet (hd (contents (packetQueue s)))) = LE32 SS_PEN_MAGIC")
    case False
    then show ?thesis
      using Suc.prems works_refl by (auto simp: take_from_Peek split: list.split)
  next
    case True
    then obtain h' q where q: "contents (packetQueue s) = h' # q" by (cases "contents (packetQueue s)") auto
    have ok: "holder_ok v h'" using Suc.prems(1) q by (simp add: queue_ok_def)
    then obtain new where new: "body (packet h') = Pen new"
      using dispatch_ok(4) [of h' v] True q by (auto simp: holder_ok_def LE32_def)
    let ?s = "s\<lparr>packetQueue := (packetQueue s)\<lparr>contents := q\<rparr>\<rparr>"
    obtain fl nl where f: "freePacketHolder h ?s = Some (?s\<lparr>packetHolderFreeList := fl, freeList_lifetime := nl\<rparr>)"
      using free_in_queue [OF Suc.prems(2)] by blast
    let ?t = "?s\<lparr>packetHolderFreeList := fl, freeList_lifetime := nl\<rparr>"
    have step: "batch_pen (Suc n) h p s = (if penButtons p \<noteq> penButtons new \<or> pen_eventType p \<noteq> pen_eventType new
        then Some (h, s) else batch_pen n h' new ?t)"
      using True q new f by (simp add: take_from_Peek take_from_Poll)
    show ?thesis
    proof (cases "penButtons p \<noteq> penButtons new \<or> pen_eventType p \<noteq> pen_eventType new")
      case True
      then show ?thesis using step Suc.prems works_refl by auto
    next
      case same: False
      have "queue_ok v ?t" using Suc.prems(1) q by (simp add: queue_ok_def)
      then obtain k p' t where r: "batch_pen n h' new ?t = Some (k, t)" "holder_ok v k" "body (packet k) = Pen p'"
        "works v (front h' ?t) (front k t)"
        using Suc.IH [OF _ ok new] by blast
      have "works v (front h s) (front h' ?t)"
        by (rule works_merge [OF _ q]) (simp_all add: new Suc.prems(3))
      then show ?thesis using step same r works_trans by auto
    qed
  qed
qed

section \<open>The handlers\<close>

text \<open>A holder whose body is filled in anew.\<close>

lemma with_body_simps [simp]:
  "body (packet (with_body h b)) = b" "hdr_magic (packet (with_body h b)) = hdr_magic (packet h)"
  "hdr_size (packet (with_body h b)) = hdr_size (packet h)" "channelId (with_body h b) = channelId h"
  "enetPacketFlags (with_body h b) = enetPacketFlags h"
  by (simp_all add: with_body_def)

lemma send_last_hands:
  assumes "holder_ok v h'" "env_ok v e" "\<nexists>t. body (packet h') = Unicode t" "\<nexists>x y. body (packet h') = MouseMoveRel x y"
    and "plain_packets [packet h'] = plain_packets [packet h]" "button_states [packet h'] = button_states [packet h]"
  shows "hands v h s (send_last e h' s)"
  unfolding send_last_def by (rule send_and_free_hands [OF assms])

lemma handle_controller_hands:
  assumes "queue_ok v s" "holder_ok v h" "env_ok v e" "body (packet h) = MultiController d"
    "length (lastControllerPacketTime s) = MAX_GAMEPADS"
  shows "hands v h s (handle_controller e h s)"
proof -
  have v: "in_version e = v" using assms(3) by (simp add: env_ok_def)
  have n: "uint (mc_controllerNumber d) < int MAX_GAMEPADS" using assms(2,4) by (simp add: holder_ok_def body_ok_def)
  have "- (2 ^ 15) \<le> uint (mc_controllerNumber d)" by (rule order_trans [of _ 0]) simp_all
  moreover have "uint (mc_controllerNumber d) < 2 ^ 15" by (rule order_less_trans [OF n]) (simp add: MAX_GAMEPADS_def)
  ultimately have "signed_take_bit 15 (uint (mc_controllerNumber d)) = uint (mc_controllerNumber d)"
    by (rule signed_take_bit_int_eq_self)
  then have sn: "sint (LE16 (mc_controllerNumber d)) = uint (mc_controllerNumber d)" by (simp add: LE16_def sint_uint)
  let ?n = "nat (uint (mc_controllerNumber d))"
  have less: "?n < length (lastControllerPacketTime s)" using n assms(5) by (metis nat_uint_eq of_nat_less_iff of_nat_unat)
  obtain now s1 where w: "batching_wait e (lastControllerPacketTime s ! ?n) s = (now, s1)" by (cases "batching_wait e (lastControllerPacketTime s ! ?n) s")
  have magic: "LE32 (multiControllerMagic e) = LE32 (if v_gen5 v then MULTI_CONTROLLER_MAGIC_GEN5 else MULTI_CONTROLLER_MAGIC)"
    using v by (simp add: multiControllerMagic_def gen5_def v_gen5_def)
  have q1: "queue_ok v s1" using assms(1) batching_wait_queue [OF w] by (simp add: queue_ok_def)
  obtain c t where b: "batch_controllers (length (contents (packetQueue s1))) (LE32 (multiControllerMagic e)) h d s1 = Some (c, t)"
    "same_pad c d" "works v (front h s1) (front h t)"
    using batch_controllers_ok [OF q1 magic assms(4), of d "length (contents (packetQueue s1))"] same_pad_def by blast
  let ?h = "with_body h (MultiController c)" and ?t = "t\<lparr>lastControllerPacketTime := (lastControllerPacketTime t)[?n := now]\<rparr>"
  have eq: "handle_controller e h s = send_last e ?h ?t"
    using assms(4) sn n less w b(1) by (simp add: handle_controller_def)
  have c: "mc_controllerNumber c = mc_controllerNumber d" using b(2) by (simp add: same_pad_def buttons_of_def)
  have ok: "holder_ok v ?h"
    using assms(2,4) b(2) c by (simp add: holder_ok_def body_ok_def same_pad_def sizeof_packet_def)
  have "hands v h t (send_last e ?h ?t)"
    by (rule aside_hands [of t ?t], simp add: aside_def)
      (rule send_last_hands [OF ok assms(3)], use b(2) assms(4) in \<open>simp_all add: same_pad_def\<close>)
  then show ?thesis
    unfolding eq by (rule aside_hands [OF batching_wait_aside [OF w] works_hands [OF b(3)]])
qed

lemma handle_abs_mouse_hands:
  assumes "holder_ok v h" "env_ok v e" "body (packet h) = MouseMoveAbs x y u w z"
  shows "hands v h s (handle_abs_mouse e h s)"
proof -
  obtain now s1 where w: "batching_wait e (lastMousePacketTime s) s = (now, s1)" by (cases "batching_wait e (lastMousePacketTime s) s")
  let ?m = "currentAbsoluteMouseState s1"
  let ?h = "with_body h (MouseMoveAbs (BE16 (abs_x ?m)) (BE16 (abs_y ?m)) u (BE16 (abs_width ?m - 1)) (BE16 (abs_height ?m - 1)))"
  let ?t = "s1\<lparr>currentAbsoluteMouseState := ?m\<lparr>abs_dirty := False\<rparr>, lastMousePacketTime := now\<rparr>"
  have eq: "handle_abs_mouse e h s = send_last e ?h ?t" using assms(3) w by (simp add: handle_abs_mouse_def Let_def)
  have ok: "holder_ok v ?h" using assms(1,3) by (simp add: holder_ok_def body_ok_def sizeof_packet_def)
  have "hands v h s1 (send_last e ?h ?t)"
    by (rule aside_hands [of s1 ?t], simp add: aside_def)
      (rule send_last_hands [OF ok assms(2)], use assms(3) in simp_all)
  then show ?thesis unfolding eq by (rule aside_hands [OF batching_wait_aside [OF w]])
qed

lemma handle_pen_hands:
  assumes "queue_ok v s" "holder_ok v h" "env_ok v e" "body (packet h) = Pen p"
  shows "hands v h s (handle_pen e h p s)"
proof -
  obtain now s1 where w: "batching_wait e (lastPenPacketTime s) s = (now, s1)" by (cases "batching_wait e (lastPenPacketTime s) s")
  have q1: "queue_ok v s1" using assms(1) batching_wait_queue [OF w] by (simp add: queue_ok_def)
  obtain k p' t where b: "batch_pen (length (contents (packetQueue s1))) h p s1 = Some (k, t)" "holder_ok v k"
    "body (packet k) = Pen p'" "works v (front h s1) (front k t)"
    using batch_pen_ok [OF q1 assms(2,4)] by blast
  have eq: "handle_pen e h p s = send_last e k (t\<lparr>lastPenPacketTime := now\<rparr>)"
    using w b(1) by (simp add: handle_pen_def)
  have "hands v k t (send_last e k (t\<lparr>lastPenPacketTime := now\<rparr>))"
    by (rule aside_hands [of t "t\<lparr>lastPenPacketTime := now\<rparr>"], simp add: aside_def)
      (rule send_last_hands [OF b(2) assms(3)], use b(3) in simp_all)
  then show ?thesis unfolding eq by (rule aside_hands [OF batching_wait_aside [OF w] works_hands [OF b(4)]])
qed

lemma set_sensor_aside: "aside s (set_sensor ix x s)"
  using set_sensor_shape [of ix x s] by (simp add: aside_def set_sensor_def)

lemma handle_motion_hands:
  assumes "holder_ok v h" "env_ok v e" "body (packet h) = ControllerMotion m"
  shows "hands v h s (handle_motion e h s)"
proof -
  obtain ix where ix: "sensor_index (motion_controllerNumber m) (motionType m) = Some ix"
    using assms(1,3) by (auto simp: holder_ok_def body_ok_def)
  have ok: "holder_ok v (with_body (h\<lparr>enetPacketFlags := f\<rparr>) (ControllerMotion (m\<lparr>motion_x := x, motion_y := y, motion_z := z\<rparr>)))"
    for f x y z using assms(1,3) by (simp add: holder_ok_def body_ok_def sizeof_packet_def)
  have "hands v h s (send_last e (with_body (h\<lparr>enetPacketFlags := f\<rparr>) (ControllerMotion (m\<lparr>motion_x := x, motion_y := y, motion_z := z\<rparr>)))
      (set_sensor ix d s))" for f x y z d
    by (rule aside_hands [OF set_sensor_aside send_last_hands [OF ok assms(2)]]) (simp_all add: assms(3))
  then show ?thesis unfolding handle_motion_def using assms(3) ix by (simp add: Let_def)
qed

section \<open>Text and relative movement\<close>

lemma foldl_log_aside: "aside s (foldl (\<lambda>s i. log (Sleep k) s) s xs)"
proof (induction xs rule: rev_induct)
  case (snoc x xs)
  then show ?case by (auto simp: aside_def log_def)
qed (simp add: aside_def)

lemma codePointLength_range: "codePointLength b = Some k \<Longrightarrow> 1 \<le> k \<and> k \<le> 4"
  by (auto simp: codePointLength_def split: if_splits)

lemma split_packet_ok:
  assumes "holder_ok v h" "body (packet h) = Unicode t" "length t = n + TEXT_SLACK" "1 \<le> length cp" "length cp \<le> 4"
  shows "\<exists>h'. split_packet h t cp = Some h' \<and> packet_ok v (packet h') (channelId h')
    \<and> (\<exists>t'. body (packet h') = Unicode t') \<and> channelId h' = channelId h \<and> enetPacketFlags h' = enetPacketFlags h
    \<and> holder_bytes h' = Some (rev (le_bytes 4 (4 + of_nat (length cp) :: u32)) @ le_bytes 4 (hdr_magic (packet h)) @ cp)"
proof -
  have m: "mem_write (take UTF8_TEXT_EVENT_MAX_COUNT t) 0 cp = Some (cp @ drop (length cp) (take 32 t))"
    using assms(3,5) by (simp add: mem_write_def UTF8_TEXT_EVENT_MAX_COUNT_def TEXT_SLACK_def)
  have sz: "unat (4 + of_nat (length cp) :: u32) = 4 + length cp"
    using assms(5) by (simp add: unat_word_ariths unat_of_nat)
  have lb: "le_bytes 4 (BE32 (4 + of_nat (length cp))) = rev (le_bytes 4 (4 + of_nat (length cp) :: u32))"
    by (rule le_bytes_BE)
  show ?thesis
    using assms m sz lb
    by (simp add: split_packet_def packet_ok_def holder_ok_def packet_image_def TEXT_SLACK_def holder_bytes_def mem_read_def
        PACKET_SIZE_def PAYLOAD_SIZE_def del: le_bytes.simps)
qed

lemma works_send_unicode:
  assumes "packet_ok v (packet h) (channelId h)" "env_ok v e" "body (packet h) = Unicode t"
  shows "\<exists>ok s'. sendInputPacket e h m s = Some (ok, s') \<and> works v s s' \<and> phase s' = phase s"
proof -
  obtain ok iv evs where s: "sendInputPacket e h m s = Some (ok, s\<lparr>currentAesIv := iv,
      input_trace := input_trace s @ HandedOver (packet h) (channelId h) (enetPacketFlags h) m # evs\<rparr>)" "list_all quiet evs"
    using sendInputPacket_ok [OF assms(1,2)] by blast
  moreover have "list_all (handed_ok v) evs" using s(2) quiet_handed_ok by (auto simp: list_all_iff)
  ultimately show ?thesis
    using assms(1,3) quiet_list [OF s(2)] by (simp add: works_def in_queue_def)
qed

lemma utf8_loop_ok:
  assumes "holder_ok v h" "env_ok v e" "body (packet h) = Unicode t" "length t = n + TEXT_SLACK" "n - i < fuel"
  shows "\<exists>ok s'. utf8_loop fuel e h t n i s = Some (ok, s') \<and> works v s s'"
  using assms(5)
proof (induction fuel arbitrary: i s)
  case 0
  then show ?case by simp
next
  case (Suc fuel)
  show ?case
  proof (cases "i < n \<and> \<not> thread_interrupted e (input_trace s) \<and> codePointLength (t ! i) \<noteq> None")
    case False
    then show ?thesis using assms(4) works_refl by (auto split: option.split)
  next
    case True
    then obtain k where k: "codePointLength (t ! i) = Some k" by auto
    have r: "1 \<le> k" "k \<le> 4" using codePointLength_range [OF k] by simp_all
    have i: "i < length t" "i + k \<le> length t" using True r(2) assms(4) by (simp_all add: TEXT_SLACK_def)
    let ?cp = "take k (drop i t)"
    have cp: "mem_read t i k = Some ?cp" "length ?cp = k" using i by (simp_all add: mem_read_def)
    obtain h' t' where h': "split_packet h t ?cp = Some h'" "packet_ok v (packet h') (channelId h')" "body (packet h') = Unicode t'"
      using split_packet_ok [OF assms(1,3,4), of ?cp] r unfolding cp(2) by blast
    obtain ok s' where s': "sendInputPacket e h' (i + 1 < n) s = Some (ok, s')" "works v s s'"
      using works_send_unicode [OF h'(2) assms(2) h'(3)] by blast
    obtain ok' s'' where s'': "utf8_loop fuel e h t n (i + k) s' = Some (ok', s'')" "works v s' s''"
      using Suc.IH [of "i + k" s'] Suc.prems r(1) True by fastforce
    have "utf8_loop (Suc fuel) e h t n i s = (if \<not> ok then Some (False, s') else utf8_loop fuel e h t n (i + k) s')"
      using True k i(1) cp(1) h'(1) s'(1) by simp
    then show ?thesis using s' s'' works_trans by (cases ok) auto
  qed
qed

lemma handle_text_hands:
  assumes "holder_ok v h" "env_ok v e" "body (packet h) = Unicode t"
  shows "hands v h s (handle_text e h s)"
proof -
  obtain n where n: "length t = n + TEXT_SLACK" "hdr_size (packet h) = BE32 (4 + of_nat n)" "n < 2 ^ 31"
    using assms(1,3) by (auto simp: holder_ok_def body_ok_def)
  then have total: "unat (PAYLOAD_SIZE h - 4) = n" by (simp add: PAYLOAD_SIZE_def unat_of_nat)
  let ?s = "log (Sleep 50) (foldl (\<lambda>s _. log (Sleep 10) s) (log FlushControl s) [0..<control_drain_rounds e])"
  have flush: "aside s (log FlushControl s)" by (simp add: aside_def log_def)
  have "aside u (log (Sleep 50) u)" for u by (simp add: aside_def log_def)
  then have waits: "aside s ?s" using aside_trans [OF aside_trans [OF flush foldl_log_aside]] by blast
  obtain ok u where u: "utf8_loop (Suc n) e h t n 0 ?s = Some (ok, u)" "works v ?s u"
    using utf8_loop_ok [OF assms n(1), of 0 "Suc n" ?s] by auto
  obtain q k where f: "freePacketHolder h u = Some (u\<lparr>packetHolderFreeList := q, freeList_lifetime := k\<rparr>)"
    using free_in_queue [OF assms(1)] by blast
  let ?w = "u\<lparr>packetHolderFreeList := q, freeList_lifetime := k, phase := (if ok then Waiting else Ended)\<rparr>"
  have run: "handle_text e h s = Some ?w"
    unfolding handle_text_def assms(3) input_body.case total Let_def u(1) by (simp add: f)
  have drop: "works v (front h s) s" by (rule works_drop_front) (simp_all add: assms(3))
  have last: "works v u ?w" by (rule aside_works) (simp add: aside_def)
  have w: "works v s ?w" by (rule works_trans [OF aside_works [OF waits] works_trans [OF u(2) last]])
  show ?thesis using run works_trans [OF drop w] works_shrinks [OF w] by (simp add: hands_front phase_ok_def)
qed

text \<open>The part of a movement that fits 16 bits, and the rest.\<close>

lemma split_delta_cases:
  assumes "split_delta d = (x, rest, left)"
  shows "x + rest = d" "- 32768 \<le> x" "x \<le> 32767" "\<bar>rest\<bar> \<le> \<bar>d\<bar>" "d \<noteq> 0 \<Longrightarrow> \<bar>rest\<bar> < \<bar>d\<bar>" "left \<longleftrightarrow> rest \<noteq> 0"
  using assms by (auto simp: split_delta_def INT16_MIN_def INT16_MAX_def split: if_splits)

lemma sint_short:
  assumes "- 32768 \<le> x" "x \<le> 32767"
  shows "sint (word_of_int x :: u16) = x"
  using assms by (simp add: signed_of_int signed_take_bit_int_eq_self)

text \<open>An environment in which the thread is not interrupted and every send succeeds; the movement still to be sent.\<close>

definition alive :: "input_env \<Rightarrow> bool" where
  "alive e \<longleftrightarrow> (\<forall>tr. \<not> thread_interrupted e tr \<and> send_result e tr > 0) \<and> (\<forall>iv pt. encryptData e iv pt \<noteq> None)"

definition distance :: "input_stream \<Rightarrow> nat" where
  "distance s = nat (\<bar>deltaX (currentRelativeMouseState s)\<bar> + \<bar>deltaY (currentRelativeMouseState s)\<bar>)"

lemma alive_sends: "alive e \<Longrightarrow> sendInputPacket e h m s = Some (ok, t) \<Longrightarrow> ok"
proof -
  assume "alive e"
  then have pos: "(send_result e tr < 0) = False" "(send_result e tr \<le> 0) = False" for tr
    unfolding alive_def by (metis not_less_iff_gr_or_eq) (metis \<open>alive e\<close> alive_def not_le)
  have enc: "encryptData e iv pt \<noteq> None" for iv pt using \<open>alive e\<close> by (simp add: alive_def)
  assume "sendInputPacket e h m s = Some (ok, t)"
  then show ok
    unfolding sendInputPacket_def Let_def pos if_False
    by (auto simp: bind_eq_Some_conv elim: enc [THEN notE] split: if_splits option.splits)
qed

lemma alive_sends_not: "alive e \<Longrightarrow> sendInputPacket e h m s \<noteq> Some (False, t)"
  using alive_sends by blast

lemma mouse_round_works:
  assumes "holder_ok v h" "env_ok v e" "body (packet h) = MouseMoveRel a b"
  shows "\<exists>t. mouse_round e h now s = Some t \<and> works v s t \<and> phase_ok v t
    \<and> (alive e \<longrightarrow> phase t = Waiting \<or> (\<exists>h' n. phase t = SplittingMouse h' n \<and> distance t < distance s))"
proof -
  let ?m = "currentRelativeMouseState s"
  show ?thesis
  proof (cases "deltaX ?m \<noteq> 0 \<or> deltaY ?m \<noteq> 0")
    case False
    let ?s = "s\<lparr>currentRelativeMouseState := ?m\<lparr>rel_dirty := False\<rparr>, lastMousePacketTime := now\<rparr>"
    obtain q n where f: "freePacketHolder h ?s = Some (?s\<lparr>packetHolderFreeList := q, freeList_lifetime := n\<rparr>)"
      using free_in_queue [OF assms(1)] by blast
    have "aside s (?s\<lparr>packetHolderFreeList := q, freeList_lifetime := n, phase := Waiting\<rparr>)" by (simp add: aside_def)
    then show ?thesis using False f aside_works by (simp add: mouse_round_def Let_def phase_ok_def)
  next
    case True
    obtain x restX moreX y restY moreY where sx: "split_delta (deltaX ?m) = (x, restX, moreX)"
      and sy: "split_delta (deltaY ?m) = (y, restY, moreY)" by (metis prod_cases3)
    let ?h = "with_body h (MouseMoveRel (BE16 (word_of_int x)) (BE16 (word_of_int y)))"
    let ?s = "s\<lparr>currentRelativeMouseState := ?m\<lparr>deltaX := restX, deltaY := restY\<rparr>\<rparr>"
    have ok: "holder_ok v ?h" using assms(1,3) by (simp add: holder_ok_def body_ok_def sizeof_packet_def)
    then have p: "packet_ok v (packet ?h) (channelId ?h)" by (rule holder_ok_packet_ok) simp
    obtain good iv evs where r: "sendInputPacket e ?h (moreX \<or> moreY) ?s = Some (good, ?s\<lparr>currentAesIv := iv,
        input_trace := input_trace ?s @ HandedOver (packet ?h) (channelId ?h) (enetPacketFlags ?h) (moreX \<or> moreY) # evs\<rparr>)"
      "list_all quiet evs"
      using sendInputPacket_ok [OF p assms(2)] by blast
    let ?t = "?s\<lparr>currentAesIv := iv,
        input_trace := input_trace ?s @ HandedOver (packet ?h) (channelId ?h) (enetPacketFlags ?h) (moreX \<or> moreY) # evs\<rparr>"
    have "list_all (handed_ok v) evs" using r(2) quiet_handed_ok by (auto simp: list_all_iff)
    then have w: "works v s ?t"
      using quiet_list [OF r(2)] p split_delta_cases [OF sx] split_delta_cases [OF sy]
      by (simp add: works_def in_queue_def sint_short)
    obtain q n where f: "freePacketHolder ?h ?t = Some (?t\<lparr>packetHolderFreeList := q, freeList_lifetime := n\<rparr>)"
      using free_in_queue [OF ok] by blast
    have go: "works v ?t (?t\<lparr>phase := SplittingMouse ?h now\<rparr>)"
      "works v ?t (?t\<lparr>packetHolderFreeList := q, freeList_lifetime := n, phase := Ended\<rparr>)"
      by (rule aside_works, simp add: aside_def)+
    have "mouse_round e h now s = (if good then Some (?t\<lparr>phase := SplittingMouse ?h now\<rparr>)
        else Some (?t\<lparr>packetHolderFreeList := q, freeList_lifetime := n, phase := Ended\<rparr>))"
      using True sx sy r(1) f by (simp add: mouse_round_def Let_def)
    moreover have "distance ?t < distance s"
      using True split_delta_cases [OF sx] split_delta_cases [OF sy] by (auto simp: distance_def)
    moreover have "alive e \<Longrightarrow> good" using alive_sends r(1) by blast
    ultimately show ?thesis
      using works_trans [OF w go(1)] works_trans [OF w go(2)] ok by (cases good) (auto simp: phase_ok_def distance_def)
  qed
qed

section \<open>Every step of the thread\<close>

lemma handle_holder_hands:
  assumes "queue_ok v s" "holder_ok v h" "env_ok v e" "length (lastControllerPacketTime s) = MAX_GAMEPADS"
  shows "hands v h s (handle_holder e h s)"
proof -
  have v: "in_version e = v" using assms(3) by (simp add: env_ok_def)
  have m: "hdr_magic (packet h) \<in> body_magics v (body (packet h))" using assms(2) by (simp add: holder_ok_def)
  note d = dispatch_ok [OF m]
  have multi: "LE32 (multiControllerMagic e) = (if v_gen5 v then MULTI_CONTROLLER_MAGIC_GEN5 else MULTI_CONTROLLER_MAGIC)"
    and rel: "LE32 (relMouseMagic e) = (if v_gen5 v then MOUSE_MOVE_REL_MAGIC_GEN5 else MOUSE_MOVE_REL_MAGIC)"
    using v by (simp_all add: multiControllerMagic_def relMouseMagic_def gen5_def v_gen5_def LE32_def)
  have last: "hands v h s (send_last e h s)"
    if "hdr_magic (packet h) \<noteq> LE32 (relMouseMagic e)" "hdr_magic (packet h) \<noteq> UTF8_TEXT_EVENT_MAGIC"
    by (rule send_last_hands [OF assms(2,3)]) (use that rel m dispatch_rel_conv in auto)
  let ?magic = "hdr_magic (packet h)"
  consider "?magic = LE32 (multiControllerMagic e)" | "?magic \<noteq> LE32 (multiControllerMagic e)" "?magic = LE32 (relMouseMagic e)"
    | "?magic \<noteq> LE32 (multiControllerMagic e)" "?magic \<noteq> LE32 (relMouseMagic e)" "?magic = MOUSE_MOVE_ABS_MAGIC"
    | "?magic \<noteq> LE32 (multiControllerMagic e)" "?magic \<noteq> LE32 (relMouseMagic e)" "?magic = SS_PEN_MAGIC"
    | "?magic \<noteq> LE32 (multiControllerMagic e)" "?magic \<noteq> LE32 (relMouseMagic e)" "?magic = SS_CONTROLLER_MOTION_MAGIC"
    | "?magic \<noteq> LE32 (multiControllerMagic e)" "?magic \<noteq> LE32 (relMouseMagic e)" "?magic = UTF8_TEXT_EVENT_MAGIC"
    | "?magic \<noteq> LE32 (multiControllerMagic e)" "?magic \<noteq> LE32 (relMouseMagic e)"
        "?magic \<notin> {MOUSE_MOVE_ABS_MAGIC, SS_PEN_MAGIC, SS_CONTROLLER_MOTION_MAGIC, UTF8_TEXT_EVENT_MAGIC}"
    by blast
  then show ?thesis
  proof cases
    case 1
    then obtain c where "body (packet h) = MultiController c" using d(1) \<open>LE32 (multiControllerMagic e) = _\<close> by auto
    then show ?thesis using 1 handle_controller_hands [OF assms(1-3) _ assms(4)] by (simp add: handle_holder_def)
  next
    case 2
    then obtain x y where b: "body (packet h) = MouseMoveRel x y" using d(2) rel by auto
    obtain now s1 where w: "batching_wait e (lastMousePacketTime s) s = (now, s1)" by (cases "batching_wait e (lastMousePacketTime s) s")
    have "works v (front h s) s" by (rule works_drop_front) (simp_all add: b)
    moreover have "works v s (s1\<lparr>phase := SplittingMouse h now\<rparr>)"
      by (rule aside_works) (use batching_wait_aside [OF w] in \<open>simp add: aside_def\<close>)
    ultimately have "works v (front h s) (s1\<lparr>phase := SplittingMouse h now\<rparr>)" by (rule works_trans)
    then show ?thesis using 2 w b batching_wait_queue [OF w] assms(2) by (simp add: handle_holder_def hands_front phase_ok_def)
  next
    case 3
    then obtain x y u w z where "body (packet h) = MouseMoveAbs x y u w z" using d(3) by auto
    then show ?thesis using 3 handle_abs_mouse_hands [OF assms(2,3)] by (simp add: handle_holder_def LE32_def)
  next
    case 4
    then obtain p where b: "body (packet h) = Pen p" using d(4) by auto
    have "SS_PEN_MAGIC \<noteq> UTF8_TEXT_EVENT_MAGIC" "SS_PEN_MAGIC \<noteq> MOUSE_MOVE_ABS_MAGIC" by (simp_all add: magic_defs)
    then show ?thesis
      using 4 b last handle_pen_hands [OF assms(1-3) b] by (auto simp: handle_holder_def LE32_def)
  next
    case 5
    then obtain m where b: "body (packet h) = ControllerMotion m" using d(5) by auto
    have "SS_CONTROLLER_MOTION_MAGIC \<noteq> SS_PEN_MAGIC" "SS_CONTROLLER_MOTION_MAGIC \<noteq> MOUSE_MOVE_ABS_MAGIC"
      by (simp_all add: magic_defs)
    then show ?thesis using 5 handle_motion_hands [OF assms(2,3) b] by (simp add: handle_holder_def LE32_def)
  next
    case 6
    then obtain t where b: "body (packet h) = Unicode t" using d(6) by auto
    have "UTF8_TEXT_EVENT_MAGIC \<noteq> SS_PEN_MAGIC" "UTF8_TEXT_EVENT_MAGIC \<noteq> MOUSE_MOVE_ABS_MAGIC"
      "UTF8_TEXT_EVENT_MAGIC \<noteq> SS_CONTROLLER_MOTION_MAGIC"
      by (simp_all add: magic_defs)
    then show ?thesis using 6 handle_text_hands [OF assms(2,3) b] by (simp add: handle_holder_def LE32_def)
  next
    case 7
    then show ?thesis using last by (simp add: handle_holder_def LE32_def)
  qed
qed

lemma thread_step_ok:
  assumes "in_inv v s" "env_ok v e"
  shows "\<exists>t. thread_step e s = Some t \<and> works v s t \<and> in_inv v t"
proof -
  have finish: "\<exists>t. r = Some t \<and> works v s t \<and> in_inv v t" if "r = Some t" "works v s t" "phase_ok v t" for r t
    using that works_in_inv [OF that(2) assms(1)] by (simp add: phase_ok_def)
  have still: "works v s (s\<lparr>packetQueue := q, phase := p\<rparr>)" if "contents q = contents (packetQueue s)"
    "closed q = closed (packetQueue s)" "ending q = ending (packetQueue s)" "wake q \<longrightarrow> wake (packetQueue s)" for q p
    using that by (auto simp: works_def in_queue_def intro!: exI [of _ "[]"])
  show ?thesis
  proof (cases "phase s")
    case Ended
    then show ?thesis using assms(1) works_refl by (simp add: thread_step_def)
  next
    case (SplittingMouse h now)
    then obtain a b where "holder_ok v h" "body (packet h) = MouseMoveRel a b" using assms(1) by (auto simp: in_inv_def)
    then show ?thesis using mouse_round_works [OF _ assms(2), of h a b now s] finish SplittingMouse by (auto simp: thread_step_def)
  next
    case Waiting
    show ?thesis
    proof (cases "thread_interrupted e (input_trace s)")
      case True
      have "works v s (s\<lparr>phase := Ended\<rparr>)" using still [of "packetQueue s" Ended] by simp
      then show ?thesis using Waiting True finish by (simp add: thread_step_def phase_ok_def)
    next
      case go: False
      show ?thesis
      proof (cases "\<not> closed (packetQueue s) \<and> \<not> wake (packetQueue s) \<and> contents (packetQueue s) \<noteq> []")
        case False
        then have "bq_step Wait (packetQueue s) = (Blocked, packetQueue s)
            \<or> (\<exists>st q. bq_step Wait (packetQueue s) = (Status st None, q) \<and> contents q = contents (packetQueue s)
                 \<and> closed q = closed (packetQueue s) \<and> ending q = ending (packetQueue s) \<and> (wake q \<longrightarrow> wake (packetQueue s)))"
          by (auto simp: bq_get_def split: list.split)
        then consider "bq_step Wait (packetQueue s) = (Blocked, packetQueue s)"
          | st q where "bq_step Wait (packetQueue s) = (Status st None, q)" "contents q = contents (packetQueue s)"
              "closed q = closed (packetQueue s)" "ending q = ending (packetQueue s)" "wake q \<longrightarrow> wake (packetQueue s)" by blast
        then show ?thesis
        proof cases
          case 1
          then have "thread_step e s = Some s" using Waiting go by (simp add: thread_step_def)
          then show ?thesis using assms(1) works_refl by blast
        next
          case (2 st q)
          have "thread_step e s = Some (s\<lparr>packetQueue := q, phase := Ended\<rparr>)"
            using Waiting go 2(1) by (cases st) (simp_all add: thread_step_def)
          then show ?thesis by (rule finish [OF _ still [OF 2(2-5)]]) (simp add: phase_ok_def)
        qed
      next
        case True
        then obtain h q where q: "contents (packetQueue s) = h # q" by (cases "contents (packetQueue s)") auto
        let ?s = "s\<lparr>packetQueue := (packetQueue s)\<lparr>contents := q\<rparr>\<rparr>"
        have step: "thread_step e s = handle_holder e h ?s"
          using Waiting go True q by (simp add: thread_step_def bq_get_def)
        have ok: "queue_ok v ?s" "holder_ok v h" "length (lastControllerPacketTime ?s) = MAX_GAMEPADS"
          using assms(1) q by (auto simp: in_inv_def queue_ok_def)
        have "front h ?s = s" using q by (simp add: front_def)
        then show ?thesis
          using handle_holder_hands [OF ok(1,2) assms(2) ok(3)] finish step by (auto simp: hands_front)
      qed
    qed
  qed
qed

section \<open>Histories\<close>

text \<open>The calls of clients and the steps of the thread in any order, each in its own environment, and the stop.\<close>

datatype input_op = Client input_env client_event | Thread input_env | Stop

fun input_step :: "input_op \<Rightarrow> input_stream \<Rightarrow> input_stream option" where
  "input_step (Client e ev) s = map_option snd (client_step e ev s)"
| "input_step (Thread e) s = thread_step e s"
| "input_step Stop s = Some (stopInputStream s)"

fun input_run :: "input_op list \<Rightarrow> input_stream \<Rightarrow> input_stream option" where
  "input_run [] s = Some s"
| "input_run (op # ops) s = Option.bind (input_step op s) (input_run ops)"

definition open_session :: "input_env \<Rightarrow> u8 list \<Rightarrow> u32 \<Rightarrow> input_stream \<Rightarrow> input_result" where
  "open_session e iv half s = startInputStream e 0 0 (initializeInputStream (in_version e) iv half (s\<lparr>input_trace := []\<rparr>))"

fun op_ok :: "version \<Rightarrow> input_op \<Rightarrow> bool" where
  "op_ok v (Client e ev) \<longleftrightarrow> env_ok v e \<and> event_ok ev"
| "op_ok v (Thread e) \<longleftrightarrow> env_ok v e"
| "op_ok v Stop \<longleftrightarrow> True"

text \<open>
  The accumulators of movement and scrolling are of type \<open>int\<close>: they must stay far enough from its ends for
  one more event.  It takes more than 65,000 of the largest events without the thread sending one.
\<close>

definition roomy :: "input_stream \<Rightarrow> bool" where
  "roomy s \<longleftrightarrow> headroom (2 ^ 31 - 32769) s"

fun within_bounds :: "input_op list \<Rightarrow> input_stream \<Rightarrow> bool" where
  "within_bounds [] s = True"
| "within_bounds (op # ops) s = (roomy s \<and> (case input_step op s of None \<Rightarrow> True | Some t \<Rightarrow> within_bounds ops t))"

text \<open>What the clients gave: the movement, and the packets they queued.\<close>

fun moved_total :: "input_op list \<Rightarrow> input_stream \<Rightarrow> int \<times> int" where
  "moved_total [] s = (0, 0)"
| "moved_total (op # ops) s = (let (x, y) = (case op of Client e ev \<Rightarrow> if initialized s then moved ev else (0, 0) | _ \<Rightarrow> (0, 0));
     (xs, ys) = (case input_step op s of None \<Rightarrow> (0, 0) | Some t \<Rightarrow> moved_total ops t) in (x + xs, y + ys))"

fun queued_packets :: "input_op list \<Rightarrow> input_stream \<Rightarrow> input_packet list" where
  "queued_packets [] s = []"
| "queued_packets (op # ops) s = (case input_step op s of None \<Rightarrow> [] | Some t \<Rightarrow>
     (case op of Client e ev \<Rightarrow> drop (length (in_queue s)) (in_queue t) | _ \<Rightarrow> []) @ queued_packets ops t)"

text \<open>The accounts of a history.\<close>

definition accounts :: "version \<Rightarrow> input_stream \<Rightarrow> input_stream \<Rightarrow> int \<times> int \<Rightarrow> input_packet list \<Rightarrow> bool" where
  "accounts v s t d ps \<longleftrightarrow> (\<exists>evs. input_trace t = input_trace s @ evs \<and> list_all (handed_ok v) evs
     \<and> deltaX (currentRelativeMouseState t) + handed_x evs = deltaX (currentRelativeMouseState s) + fst d
     \<and> deltaY (currentRelativeMouseState t) + handed_y evs = deltaY (currentRelativeMouseState s) + snd d
     \<and> plain_packets (handed evs) @ plain_packets (in_queue t) = plain_packets (in_queue s @ ps)
     \<and> remdups_adj (button_states (handed evs) @ button_states (in_queue t)) = remdups_adj (button_states (in_queue s @ ps)))"

lemma accounts_trans:
  assumes "accounts v s t d ps" "accounts v t u d' ps'"
  shows "accounts v s u (fst d + fst d', snd d + snd d') (ps @ ps')"
proof -
  obtain es where es: "input_trace t = input_trace s @ es" "list_all (handed_ok v) es"
    "deltaX (currentRelativeMouseState t) + handed_x es = deltaX (currentRelativeMouseState s) + fst d"
    "deltaY (currentRelativeMouseState t) + handed_y es = deltaY (currentRelativeMouseState s) + snd d"
    "plain_packets (handed es) @ plain_packets (in_queue t) = plain_packets (in_queue s @ ps)"
    "remdups_adj (button_states (handed es) @ button_states (in_queue t)) = remdups_adj (button_states (in_queue s @ ps))"
    using assms(1) unfolding accounts_def by blast
  obtain fs where fs: "input_trace u = input_trace t @ fs" "list_all (handed_ok v) fs"
    "deltaX (currentRelativeMouseState u) + handed_x fs = deltaX (currentRelativeMouseState t) + fst d'"
    "deltaY (currentRelativeMouseState u) + handed_y fs = deltaY (currentRelativeMouseState t) + snd d'"
    "plain_packets (handed fs) @ plain_packets (in_queue u) = plain_packets (in_queue t @ ps')"
    "remdups_adj (button_states (handed fs) @ button_states (in_queue u)) = remdups_adj (button_states (in_queue t @ ps'))"
    using assms(2) unfolding accounts_def by blast
  have "plain_packets (handed (es @ fs)) @ plain_packets (in_queue u) = plain_packets (in_queue s @ ps @ ps')"
    using es(5) fs(5) by simp
  moreover have "remdups_adj (button_states (handed (es @ fs)) @ button_states (in_queue u)) = remdups_adj (button_states (in_queue s @ ps @ ps'))"
    using remdups_adj_suffix [OF fs(6), of "button_states (handed es)"] remdups_adj_prefix [OF es(6), of "button_states ps'"] by simp
  ultimately show ?thesis
    unfolding accounts_def using es(1-4) fs(1-4) by (intro exI [of _ "es @ fs"]) simp
qed

lemma works_accounts: "works v s t \<Longrightarrow> accounts v s t (0, 0) []"
  unfolding works_def accounts_def by auto

lemma client_accounts:
  assumes "client_ok v (moved ev) s (client_step e ev s)"
  shows "\<exists>err t. client_step e ev s = Some (err, t) \<and> extends v s t
    \<and> accounts v s t (if initialized s then moved ev else (0, 0)) (drop (length (in_queue s)) (in_queue t))"
proof -
  obtain err t where t: "client_step e ev s = Some (err, t)" "extends v s t"
    "deltaX (currentRelativeMouseState t) = deltaX (currentRelativeMouseState s) + (if initialized s then fst (moved ev) else 0)"
    "deltaY (currentRelativeMouseState t) = deltaY (currentRelativeMouseState s) + (if initialized s then snd (moved ev) else 0)"
    using assms by (auto simp: client_ok_def)
  obtain new where new: "contents (packetQueue t) = contents (packetQueue s) @ new" "input_trace t = input_trace s"
    using t(2) by (auto simp: extends_def)
  then have "in_queue t = in_queue s @ map packet new" by (simp add: in_queue_def)
  then show ?thesis using t new by (auto simp: accounts_def intro!: exI [of _ "[]"])
qed

lemma stop_accounts:
  assumes "in_inv v s"
  shows "in_inv v (stopInputStream s)" "accounts v s (stopInputStream s) (0, 0) []"
proof -
  show "in_inv v (stopInputStream s)" using assms by (auto simp: in_inv_def stopInputStream_def)
  show "accounts v s (stopInputStream s) (0, 0) []"
    by (auto simp: accounts_def stopInputStream_def in_queue_def intro!: exI [of _ "[]"])
qed

lemma input_step_ok:
  assumes "in_inv v s" "op_ok v op" "roomy s"
  shows "\<exists>t. input_step op s = Some t \<and> in_inv v t
    \<and> accounts v s t (case op of Client e ev \<Rightarrow> if initialized s then moved ev else (0, 0) | _ \<Rightarrow> (0, 0))
        (case op of Client e ev \<Rightarrow> drop (length (in_queue s)) (in_queue t) | _ \<Rightarrow> [])"
proof (cases op)
  case (Client e ev)
  then have "client_ok v (moved ev) s (client_step e ev s)"
    using client_step_ok [of v s e ev "2 ^ 31 - 32769"] assms by (simp add: roomy_def)
  then obtain err t where t: "client_step e ev s = Some (err, t)" "extends v s t"
    "accounts v s t (if initialized s then moved ev else (0, 0)) (drop (length (in_queue s)) (in_queue t))"
    using client_accounts by blast
  then show ?thesis using Client extends_in_inv [OF t(2) assms(1)] by simp
next
  case (Thread e)
  then show ?thesis using thread_step_ok [OF assms(1)] assms(2) works_accounts by fastforce
next
  case Stop
  then show ?thesis using stop_accounts [OF assms(1)] by simp
qed

lemma input_run_ok:
  assumes "in_inv v s" "\<forall>op \<in> set ops. op_ok v op" "within_bounds ops s"
  shows "\<exists>t. input_run ops s = Some t \<and> in_inv v t \<and> accounts v s t (moved_total ops s) (queued_packets ops s)"
  using assms
proof (induction ops arbitrary: s)
  case Nil
  then show ?case using works_accounts [OF works_refl] by simp
next
  case (Cons op ops)
  then obtain u where u: "input_step op s = Some u" "in_inv v u"
    "accounts v s u (case op of Client e ev \<Rightarrow> if initialized s then moved ev else (0, 0) | _ \<Rightarrow> (0, 0))
        (case op of Client e ev \<Rightarrow> drop (length (in_queue s)) (in_queue u) | _ \<Rightarrow> [])"
    using input_step_ok [of v s op] by auto
  obtain t where t: "input_run ops u = Some t" "in_inv v t" "accounts v u t (moved_total ops u) (queued_packets ops u)"
    using Cons u(1,2) by auto
  show ?case using accounts_trans [OF u(3) t(3)] u(1) t(1,2) by (simp add: split_beta Let_def)
qed

lemma session_start:
  assumes "env_ok v e" "open_session e iv half s0 = Some (err, s)"
  shows "in_inv v s" "initialized s" "input_trace s = []" "deltaX (currentRelativeMouseState s) = 0"
    "deltaY (currentRelativeMouseState s) = 0" "batchedScrollDelta s = 0"
proof -
  let ?i = "initializeInputStream (in_version e) iv half (s0\<lparr>input_trace := []\<rparr>)\<lparr>initialized := True, phase := Waiting,
        lastControllerPacketTime := replicate MAX_GAMEPADS 0, lastMousePacketTime := 0, lastPenPacketTime := 0\<rparr>"
  have i: "in_inv v ?i" "initialized ?i" unfolding in_inv_def by (simp_all add: initializeInputStream_def bq_start_def)
  obtain r where r: "sendEnableHaptics e ?i = Some (r, s)"
    using assms(2) by (auto simp: open_session_def startInputStream_def)
  moreover have "r_ok v ?i (sendEnableHaptics e ?i)" using simple_events_ok(7) [OF i(1) assms(1)] i(2) by blast
  ultimately have k: "extends v ?i s" "same_motion ?i s" by (auto simp: r_ok_def)
  show "in_inv v s" by (rule extends_in_inv [OF k(1) i(1)])
  show "initialized s" "input_trace s = []" using k(1) by (simp_all add: extends_def initializeInputStream_def)
  show "deltaX (currentRelativeMouseState s) = 0" "deltaY (currentRelativeMouseState s) = 0" "batchedScrollDelta s = 0"
    using k(2) by (simp_all add: same_motion_def initializeInputStream_def)
qed

text \<open>The accounts of a history from the start of a session.\<close>

lemma session_accounts:
  assumes "env_ok v e" "open_session e iv half s0 = Some (err, s)" "\<forall>op \<in> set ops. op_ok v op" "within_bounds ops s"
  shows "\<exists>t. input_run ops s = Some t \<and> list_all (handed_ok v) (input_trace t)
    \<and> (handed_x (input_trace t) + deltaX (currentRelativeMouseState t), handed_y (input_trace t) + deltaY (currentRelativeMouseState t))
        = moved_total ops s
    \<and> plain_packets (handed (input_trace t) @ in_queue t) = plain_packets (in_queue s @ queued_packets ops s)
    \<and> remdups_adj (button_states (handed (input_trace t) @ in_queue t)) = remdups_adj (button_states (in_queue s @ queued_packets ops s))"
proof -
  note start = session_start [OF assms(1,2)]
  obtain t where t: "input_run ops s = Some t" "accounts v s t (moved_total ops s) (queued_packets ops s)"
    using input_run_ok [OF start(1) assms(3,4)] by blast
  show ?thesis using t start(3-5) by (auto simp: accounts_def prod_eq_iff)
qed

section \<open>The thread gets to the end of its queue\<close>

lemma alive_send_and_free: "alive e \<Longrightarrow> send_and_free e h m s = Some t \<Longrightarrow> phase t = Waiting"
  using alive_sends by (fastforce simp: send_and_free_def bind_eq_Some_conv)

lemma alive_utf8_loop: "alive e \<Longrightarrow> utf8_loop n e h text k i s = Some (ok, t) \<Longrightarrow> ok"
proof (induction n arbitrary: i s)
  case (Suc n)
  then show ?case
    by (auto simp: bind_eq_Some_conv alive_sends_not split: if_splits option.splits)
qed simp

lemma alive_utf8_loop_not: "alive e \<Longrightarrow> utf8_loop n e h text k i s \<noteq> Some (False, t)"
  using alive_utf8_loop by blast

lemma phase_update_eq: "s\<lparr>phase := p\<rparr> = s\<lparr>phase := q\<rparr> \<longleftrightarrow> p = q"
  by (auto dest: arg_cong [where f = phase])

lemma alive_handle_holder:
  assumes "alive e" "handle_holder e h s = Some t"
  shows "phase t \<noteq> Ended"
proof -
  have send: "phase t = Waiting" if "send_last e h' s' = Some t" for h' s'
    using alive_send_and_free [OF assms(1)] that by (simp add: send_last_def)
  have "phase t = Waiting" if "handle_controller e h s = Some t"
    using that send by (auto simp: handle_controller_def Let_def bind_eq_Some_conv split_beta split: input_body.splits if_splits)
  moreover have "phase t = Waiting" if "handle_abs_mouse e h s = Some t"
    using that send by (auto simp: handle_abs_mouse_def Let_def split_beta split: input_body.splits)
  moreover have "phase t = Waiting" if "handle_pen e h p s = Some t" for p
    using that send by (auto simp: handle_pen_def Let_def bind_eq_Some_conv split_beta)
  moreover have "phase t = Waiting" if "handle_motion e h s = Some t"
    using that send by (auto simp: handle_motion_def Let_def bind_eq_Some_conv split: input_body.splits)
  moreover have "phase t = Waiting" if "handle_text e h s = Some t"
    using that by (cases "body (packet h)")
      (auto simp: handle_text_def Let_def bind_eq_Some_conv alive_utf8_loop_not [OF assms(1)] phase_update_eq
        simp del: utf8_loop.simps split: if_splits)
  ultimately show ?thesis
    using assms(2) send
    by (auto simp: handle_holder_def Let_def split_beta split: if_splits input_body.splits)
qed

text \<open>Holders in the queue, then the movement in hand, decrease with every step.\<close>

definition splitting :: "input_stream \<Rightarrow> bool" where
  "splitting s \<longleftrightarrow> (case phase s of SplittingMouse _ _ \<Rightarrow> True | _ \<Rightarrow> False)"

definition work_left :: "input_stream \<Rightarrow> nat \<times> nat" where
  "work_left s = (length (contents (packetQueue s)), if splitting s then Suc (distance s) else 0)"

lemma thread_progress:
  assumes "in_inv v s" "env_ok v e" "alive e" "phase s \<noteq> Ended" "\<not> (phase s = Waiting \<and> contents (packetQueue s) = [])"
  shows "\<exists>t. thread_step e s = Some t \<and> in_inv v t \<and> works v s t \<and> phase t \<noteq> Ended
    \<and> (work_left t, work_left s) \<in> less_than <*lex*> less_than"
proof -
  obtain t where t: "thread_step e s = Some t" "works v s t" "in_inv v t" using thread_step_ok [OF assms(1,2)] by blast
  have open_q: "\<not> closed (packetQueue s)" "\<not> wake (packetQueue s)" using assms(1) unfolding in_inv_def by blast+
  have on: "\<not> thread_interrupted e (input_trace s)" using assms(3) by (simp add: alive_def)
  show ?thesis
  proof (cases "phase s")
    case Waiting
    then obtain h q where q: "contents (packetQueue s) = h # q" using assms(5) by (cases "contents (packetQueue s)") auto
    let ?s = "s\<lparr>packetQueue := (packetQueue s)\<lparr>contents := q\<rparr>\<rparr>"
    have step: "thread_step e s = handle_holder e h ?s"
      using Waiting on open_q q by (simp add: thread_step_def bq_get_def)
    have ok: "queue_ok v ?s" "holder_ok v h" "length (lastControllerPacketTime ?s) = MAX_GAMEPADS"
      using assms(1) q by (auto simp: in_inv_def queue_ok_def)
    have "length (contents (packetQueue t)) \<le> length q"
      using handle_holder_hands [OF ok(1,2) assms(2) ok(3)] t(1) step by (auto simp: hands_front)
    moreover have "phase t \<noteq> Ended" using alive_handle_holder [OF assms(3)] t(1) step by simp
    ultimately show ?thesis using t q by (simp add: work_left_def)
  next
    case (SplittingMouse h now)
    then obtain a b where "holder_ok v h" "body (packet h) = MouseMoveRel a b" using assms(1) by (auto simp: in_inv_def)
    then have "phase t = Waiting \<or> (\<exists>h' n. phase t = SplittingMouse h' n \<and> distance t < distance s)"
      using mouse_round_works [OF _ assms(2), of h a b now s] t(1) assms(3) SplittingMouse by (auto simp: thread_step_def)
    then show ?thesis
      using t works_shrinks [OF t(2)] SplittingMouse by (auto simp: work_left_def splitting_def)
  qed (use assms(4) in simp)
qed

lemma thread_drains:
  assumes "in_inv v s" "env_ok v e" "alive e" "phase s \<noteq> Ended"
  shows "\<exists>n t. input_run (replicate n (Thread e)) s = Some t \<and> works v s t \<and> phase t = Waiting \<and> contents (packetQueue t) = []"
  using assms(1,4)
proof (induction "work_left s" arbitrary: s rule: wf_induct_rule [OF wf_lex_prod [OF wf_less_than wf_less_than]])
  case 1
  show ?case
  proof (cases "phase s = Waiting \<and> contents (packetQueue s) = []")
    case True
    then show ?thesis using works_refl by (intro exI [of _ 0] exI [of _ s]) simp
  next
    case False
    then obtain u where u: "thread_step e s = Some u" "in_inv v u" "works v s u" "phase u \<noteq> Ended"
      "(work_left u, work_left s) \<in> less_than <*lex*> less_than"
      using thread_progress [OF 1(2) assms(2,3) 1(3)] by blast
    obtain n t where t: "input_run (replicate n (Thread e)) u = Some t" "works v u t" "phase t = Waiting" "contents (packetQueue t) = []"
      using 1(1) [OF u(5) u(2,4)] by blast
    then show ?thesis using u(1) works_trans [OF u(3) t(2)] by (intro exI [of _ "Suc n"] exI [of _ t]) simp
  qed
qed

end
