(* ===== verification/InputDelivery.thy ===== *)
theory InputDelivery
  imports InputHistory
begin

text \<open>
  The theorems on the input stream, over histories from the start of a session, and what single steps do to
  text, pen and scroll events.
\<close>

section \<open>A session to run\<close>

text \<open>
  The environment of the examples: a Sunshine host of version 7.1.431, so the control stream is encrypted; the
  clock stands still, no allocation fails and every send succeeds.
\<close>

definition sample_env :: input_env where
  "sample_env = \<lparr>in_version = \<lparr>vq0 = 7, vq1 = 1, vq2 = 431, vq3 = - 1\<rparr>, SunshineFeatureFlags = 3,
     malloc_ok = True, stale16 = 0xAAAA, stale32 = 0xAAAAAAAA, stale_text = replicate TEXT_SLACK 0xAA,
     encrypt_gcm = (\<lambda>iv pt. Some (replicate 16 0, pt)), encrypt_cbc = (\<lambda>iv pt. Some pt),
     send_result = (\<lambda>tr. 1), clock = (\<lambda>tr. 1000), thread_interrupted = (\<lambda>tr. False),
     control_drain_rounds = 0, fdiv = (\<lambda>a b. 0), fmul_short = (\<lambda>a b. 0)\<rparr>"

definition blank :: input_stream where
  "blank = \<lparr>initialized = False, encryptedControlStream = False, needsBatchedScroll = False, batchedScrollDelta = 0,
     currentAesIv = [], packetQueue = bq_start 0, packetHolderFreeList = bq_start 0, packetQueue_lifetime = 0,
     freeList_lifetime = 0, absCurrentPosX = 0, absCurrentPosY = 0, currentPenButtonState = 0,
     currentGamepadSensorState = [], currentRelativeMouseState = \<lparr>deltaX = 0, deltaY = 0, rel_dirty = False\<rparr>,
     currentAbsoluteMouseState = \<lparr>abs_x = 0, abs_y = 0, abs_width = 0, abs_height = 0, abs_dirty = False\<rparr>,
     lastControllerPacketTime = [], lastMousePacketTime = 0, lastPenPacketTime = 0, phase = Waiting, input_trace = []\<rparr>"

definition sample_session :: input_stream where
  "sample_session = (case open_session sample_env [] 0 blank of Some (_, s) \<Rightarrow> s | None \<Rightarrow> blank)"

definition sample_version :: version where "sample_version = in_version sample_env"

lemma sample_opens: "open_session sample_env [] 0 blank = Some (0, sample_session)"
proof -
  have "(case open_session sample_env [] 0 blank of Some (err, _) \<Rightarrow> err = 0 | None \<Rightarrow> False)" by code_simp
  then show ?thesis by (auto simp: sample_session_def split: option.splits)
qed

lemma sample_env_ok: "env_ok sample_version sample_env"
  unfolding env_ok_def sample_version_def
  by (auto simp: sample_env_def encryptData_def MAX_INPUT_PACKET_SIZE_def)

lemma sample_alive: "alive sample_env"
  by (simp add: alive_def sample_env_def encryptData_def)

text \<open>A sample history: movement beyond 16 bits, a key, the buttons of a controller, the thread in between and after.\<close>

definition sample_ops :: "input_op list" where
  "sample_ops = [Client sample_env (EvMouseMove 30000 7), Client sample_env (EvKeyboard 0x8041 3 0 0),
     Client sample_env (EvMouseMove 30000 (- 3)), Thread sample_env, Thread sample_env, Client sample_env (EvKeyboard 0x8041 4 0 0),
     Client sample_env (EvMultiController 0 1 0x1000 0 0 100 0 0 0), Client sample_env (EvMultiController 0 1 0x1000 0 0 200 0 0 0),
     Client sample_env (EvMultiController 0 1 0 0 0 200 0 0 0),
     Thread sample_env, Thread sample_env, Thread sample_env, Client sample_env (EvUtf8Text [0x41])]"

definition sample_end :: input_stream where
  "sample_end = (case input_run sample_ops sample_session of Some t \<Rightarrow> t | None \<Rightarrow> blank)"

lemma sample_ops_ok: "\<forall>op \<in> set sample_ops. op_ok sample_version op"
  using sample_env_ok by (simp add: sample_ops_def)

lemma sample_within_bounds: "within_bounds sample_ops sample_session"
  by code_simp

lemma sample_runs: "input_run sample_ops sample_session = Some sample_end"
proof -
  have "(case input_run sample_ops sample_session of None \<Rightarrow> False | Some _ \<Rightarrow> True)" by code_simp
  then show ?thesis by (simp add: sample_end_def split: option.splits)
qed

section \<open>Histories\<close>



text \<open>Property C8.  Mouse movement is conserved: at every point of a history the relative movement handed to the transport
  plus what is pending is exactly the sum of the movements the clients gave while the stream was up, whatever the
  batching, the splitting into 16 bit packets, failed allocations and full queues in between.\<close>

theorem mouse_motion_conserved:
  assumes "env_ok v e" "open_session e iv half s0 = Some (err, s)" "\<forall>op \<in> set ops. op_ok v op" "within_bounds ops s"
    and "input_run ops s = Some t"
  shows "handed_x (input_trace t) + deltaX (currentRelativeMouseState t) = fst (moved_total ops s)
    \<and> handed_y (input_trace t) + deltaY (currentRelativeMouseState t) = snd (moved_total ops s)"
  using session_accounts [OF assms(1-4)] assms(5) by (auto simp: prod_eq_iff)

lemma mouse_motion_conserved_witness:
  "handed_x (input_trace sample_end) + deltaX (currentRelativeMouseState sample_end) = 60000
    \<and> handed_y (input_trace sample_end) + deltaY (currentRelativeMouseState sample_end) = 4"
proof -
  have "moved_total sample_ops sample_session = (60000, 4)" by code_simp
  then show ?thesis
    using mouse_motion_conserved [OF sample_env_ok sample_opens sample_ops_ok sample_within_bounds sample_runs] by simp
qed

text \<open>Property C18.  Key presses, clicks, scrolls, touches and the other packets that are not batched reach the transport
  exactly once and in the order in which the clients' calls queued them: at every point of a history the ones handed
  over, followed by the ones in the queue, are the ones queued.\<close>

theorem keys_and_clicks_in_order:
  assumes "env_ok v e" "open_session e iv half s0 = Some (err, s)" "\<forall>op \<in> set ops. op_ok v op" "within_bounds ops s"
    and "input_run ops s = Some t"
  shows "plain_packets (handed (input_trace t) @ in_queue t) = plain_packets (in_queue s @ queued_packets ops s)"
  using session_accounts [OF assms(1-4)] assms(5) by auto

lemma keys_and_clicks_in_order_witness:
  "plain_packets (handed (input_trace sample_end) @ in_queue sample_end)
    = plain_packets (in_queue sample_session @ queued_packets sample_ops sample_session)
   \<and> length (plain_packets (queued_packets sample_ops sample_session)) = 2"
proof -
  have "length (plain_packets (queued_packets sample_ops sample_session)) = 2" by code_simp
  then show ?thesis
    using keys_and_clicks_in_order [OF sample_env_ok sample_opens sample_ops_ok sample_within_bounds sample_runs] by simp
qed

text \<open>Property C13.  Batching controller packets keeps every change of the buttons: up to repetitions, the sequence of
  button states handed over and still queued is the sequence the clients queued.\<close>

theorem button_changes_kept:
  assumes "env_ok v e" "open_session e iv half s0 = Some (err, s)" "\<forall>op \<in> set ops. op_ok v op" "within_bounds ops s"
    and "input_run ops s = Some t"
  shows "remdups_adj (button_states (handed (input_trace t) @ in_queue t))
    = remdups_adj (button_states (in_queue s @ queued_packets ops s))"
  using session_accounts [OF assms(1-4)] assms(5) by auto

lemma button_changes_kept_witness:
  "remdups_adj (button_states (handed (input_trace sample_end) @ in_queue sample_end))
    = [(0, 1, 0x1000, 0), (0, 1, 0, 0)]"
proof -
  have "remdups_adj (button_states (in_queue sample_session @ queued_packets sample_ops sample_session))
    = [(0, 1, 0x1000, 0), (0, 1, 0, 0)]" by code_simp
  then show ?thesis
    using button_changes_kept [OF sample_env_ok sample_opens sample_ops_ok sample_within_bounds sample_runs] by simp
qed

lemma input_run_append: "input_run (xs @ ys) s = Option.bind (input_run xs s) (input_run ys)"
  by (induction xs arbitrary: s) (simp_all split: bind_split)



section \<open>Text\<close>

text \<open>The code points of a text, when every one of them is complete; the first argument bounds their number.\<close>

fun split_text :: "nat \<Rightarrow> u8 list \<Rightarrow> u8 list list option" where
  "split_text n [] = Some []"
| "split_text 0 (b # bs) = None"
| "split_text (Suc n) (b # bs) = (case codePointLength b of
     None \<Rightarrow> None
   | Some k \<Rightarrow> if k \<le> length (b # bs) then map_option (\<lambda>cps. take k (b # bs) # cps) (split_text n (drop k (b # bs))) else None)"

lemma concat_split_text: "split_text n bs = Some cps \<Longrightarrow> concat cps = bs"
  by (induction n bs arbitrary: cps rule: split_text.induct) (auto split: option.splits if_splits simp del: drop_Cons' take_Cons')

text \<open>The text a packet carries, as its bytes go to the transport.\<close>

definition sent_text :: "input_packet \<Rightarrow> u8 list" where
  "sent_text p = drop 8 (take (unat (BE32 (hdr_size p)) + 4) (packet_image p))"

lemma send_split_packet:
  assumes "holder_ok v h" "env_ok v e" "alive e" "body (packet h) = Unicode t" "length t = n + TEXT_SLACK" "1 \<le> length cp" "length cp \<le> 4"
  shows "\<exists>h' u evs. split_packet h t cp = Some h' \<and> sendInputPacket e h' m s = Some (True, u)
    \<and> input_trace u = input_trace s @ evs \<and> map sent_text (handed evs) = [cp]"
proof -
  obtain h' where h': "split_packet h t cp = Some h'" "packet_ok v (packet h') (channelId h')"
    "holder_bytes h' = Some (rev (le_bytes 4 (4 + of_nat (length cp) :: u32)) @ le_bytes 4 (hdr_magic (packet h)) @ cp)"
    using split_packet_ok [OF assms(1,4-7)] by blast
  obtain ok iv evs where s: "sendInputPacket e h' m s = Some (ok, s\<lparr>currentAesIv := iv,
      input_trace := input_trace s @ HandedOver (packet h') (channelId h') (enetPacketFlags h') m # evs\<rparr>)" "list_all quiet evs"
    using sendInputPacket_ok [OF h'(2) assms(2)] by blast
  have "sent_text (packet h') = cp"
    using h'(3) by (auto simp: sent_text_def holder_bytes_def mem_read_def PACKET_SIZE_def PAYLOAD_SIZE_def split: if_splits)
  moreover have ok using alive_sends [OF assms(3) s(1)] .
  ultimately show ?thesis
    using h'(1) s quiet_list(1) [OF s(2)]
    by (intro exI [of _ h'] exI [of _ "s\<lparr>currentAesIv := iv,
      input_trace := input_trace s @ HandedOver (packet h') (channelId h') (enetPacketFlags h') m # evs\<rparr>"]
      exI [of _ "HandedOver (packet h') (channelId h') (enetPacketFlags h') m # evs"]) simp
qed

lemma utf8_loop_splits:
  assumes "holder_ok v h" "env_ok v e" "alive e" "body (packet h) = Unicode t" "length t = n + TEXT_SLACK"
    and "n - i < fuel" "split_text k (drop i (take n t)) = Some cps" "i \<le> n"
  shows "\<exists>u evs. utf8_loop fuel e h t n i s = Some (True, u) \<and> input_trace u = input_trace s @ evs \<and> map sent_text (handed evs) = cps"
  using assms(6-8)
proof (induction fuel arbitrary: i s k cps)
  case 0
  then show ?case by simp
next
  case (Suc fuel)
  have on: "\<not> thread_interrupted e (input_trace s)" using assms(3) by (simp add: alive_def)
  show ?case
  proof (cases "i < n")
    case False
    then have "cps = []" using Suc.prems(2,3) assms(5) by (cases k) simp_all
    then show ?thesis using False by simp
  next
    case True
    then have d: "drop i (take n t) = t ! i # drop (Suc i) (take n t)"
      using assms(5) by (metis Cons_nth_drop_Suc length_take min.absorb4 min_less_iff_conj nth_take trans_less_add1)
    obtain k' j cps' where j: "k = Suc k'" "codePointLength (t ! i) = Some j" "j \<le> length (drop i (take n t))"
      "split_text k' (drop j (drop i (take n t))) = Some cps'" "cps = take j (drop i (take n t)) # cps'"
      using Suc.prems(2) unfolding d by (cases k) (auto split: option.splits if_splits simp del: drop_Cons' take_Cons')
    let ?cp = "take j (drop i t)"
    have r: "1 \<le> j" "j \<le> 4" using codePointLength_range [OF j(2)] by simp_all
    have len: "i + j \<le> n" using j(3) True assms(5) by simp
    have cp: "take j (drop i (take n t)) = ?cp" "mem_read t i j = Some ?cp" "length ?cp = j"
      using len assms(5) by (simp_all add: mem_read_def drop_take)
    have r': "1 \<le> length ?cp" "length ?cp \<le> 4" using r cp(3) by simp_all
    obtain h' u evs where u: "split_packet h t ?cp = Some h'" "sendInputPacket e h' (i + 1 < n) s = Some (True, u)"
      "input_trace u = input_trace s @ evs" "map sent_text (handed evs) = [?cp]"
      using send_split_packet [OF assms(1-5) r', of "i + 1 < n" s] by (elim exE conjE) (rule that)
    have rest: "split_text k' (drop (i + j) (take n t)) = Some cps'" using j(4) by (simp add: add.commute)
    obtain w evs' where w: "utf8_loop fuel e h t n (i + j) u = Some (True, w)" "input_trace w = input_trace u @ evs'"
      "map sent_text (handed evs') = cps'"
      using Suc.IH [OF _ rest len, of u] Suc.prems(1) r(1) True by fastforce
    have "utf8_loop (Suc fuel) e h t n i s = Some (True, w)"
      using True on j(2) cp(2) u(1,2) w(1) assms(5) by simp
    then show ?thesis
      using w(2,3) u(3,4) j(5) cp(1) by (intro exI [of _ w] exI [of _ "evs @ evs'"]) simp
  qed
qed

text \<open>The holder \<open>LiSendUtf8TextEvent\<close> queues for a text.\<close>

definition text_holder :: "input_env \<Rightarrow> u8 list \<Rightarrow> packet_holder" where
  "text_holder e bs = \<lparr>enetPacketFlags = RELIABLE, channelId = CTRL_CHANNEL_UTF8,
     packet = \<lparr>hdr_size = BE32 (4 + of_nat (length bs)), hdr_magic = LE32 UTF8_TEXT_EVENT_MAGIC, body = Unicode (bs @ stale_text e)\<rparr>\<rparr>"

lemma text_holder_queued: "initialized s \<Longrightarrow> LiSendUtf8TextEvent e bs s = with_holder e (length bs) (enqueue (text_holder e bs)) s"
  by (simp add: LiSendUtf8TextEvent_def text_holder_def)

lemma text_holder_ok:
  assumes "env_ok v e'" "length bs < 2 ^ 31"
  shows "holder_ok v (text_holder e' bs)"
  using assms by (auto simp: text_holder_def holder_ok_def body_ok_def channel_defs LE32_def env_ok_def)

lemma handle_text_runs:
  assumes "holder_ok v (text_holder e' bs)" "length bs < 2 ^ 31"
    and "\<And>s. \<exists>u evs. utf8_loop (Suc (length bs)) e (text_holder e' bs) (bs @ stale_text e') (length bs) 0 s = Some (True, u)
      \<and> input_trace u = input_trace s @ evs \<and> map sent_text (handed evs) = cps"
  shows "\<exists>u evs. handle_text e (text_holder e' bs) s = Some u \<and> phase u = Waiting \<and> input_trace u = input_trace s @ evs
    \<and> map sent_text (handed evs) = cps"
proof -
  let ?s = "log (Sleep 50) (foldl (\<lambda>s _. log (Sleep 10) s) (log FlushControl s) [0..<control_drain_rounds e])"
  have flush: "aside s (log FlushControl s)" by (simp add: aside_def log_def)
  have "aside w (log (Sleep 50) w)" for w by (simp add: aside_def log_def)
  then have "aside s ?s" using aside_trans [OF aside_trans [OF flush foldl_log_aside]] by blast
  then obtain waits where waits: "input_trace ?s = input_trace s @ waits" "list_all quiet waits" by (auto simp: aside_def)
  obtain u evs where u: "utf8_loop (Suc (length bs)) e (text_holder e' bs) (bs @ stale_text e') (length bs) 0 ?s = Some (True, u)"
    "input_trace u = input_trace ?s @ evs" "map sent_text (handed evs) = cps" using assms(3) by blast
  obtain q k where f: "freePacketHolder (text_holder e' bs) u = Some (u\<lparr>packetHolderFreeList := q, freeList_lifetime := k\<rparr>)"
    using free_in_queue [OF assms(1)] by blast
  have total: "unat (PAYLOAD_SIZE (text_holder e' bs) - 4) = length bs"
    using assms(2) by (simp add: PAYLOAD_SIZE_def text_holder_def unat_of_nat)
  have b: "body (packet (text_holder e' bs)) = Unicode (bs @ stale_text e')" by (simp add: text_holder_def)
  have "handle_text e (text_holder e' bs) s = Some (u\<lparr>packetHolderFreeList := q, freeList_lifetime := k, phase := Waiting\<rparr>)"
    unfolding handle_text_def b input_body.case total Let_def u(1) by (simp add: f)
  then show ?thesis
    using u(2,3) waits quiet_list(1) [OF waits(2)] by (intro exI [of _ "u\<lparr>packetHolderFreeList := q, freeList_lifetime := k, phase := Waiting\<rparr>"]
      exI [of _ "waits @ evs"]) simp
qed

text \<open>Property C26.  Text whose code points are complete is sent one code point per packet, in order and without loss: the
  texts of the packets handed over are the code points, and together the text.\<close>

theorem text_sent_by_code_point:
  assumes "env_ok v e'" "env_ok v e" "alive e" "length bs < 2 ^ 31" "split_text (length bs) bs = Some cps"
  shows "\<exists>u evs. handle_text e (text_holder e' bs) s = Some u \<and> phase u = Waiting \<and> input_trace u = input_trace s @ evs
    \<and> map sent_text (handed evs) = cps \<and> concat (map sent_text (handed evs)) = bs"
proof -
  have h: "holder_ok v (text_holder e' bs)" by (rule text_holder_ok [OF assms(1,4)])
  have len: "length (bs @ stale_text e') = length bs + TEXT_SLACK" using assms(1) by (simp add: env_ok_def)
  have b: "body (packet (text_holder e' bs)) = Unicode (bs @ stale_text e')" by (simp add: text_holder_def)
  have "split_text (length bs) (drop 0 (take (length bs) (bs @ stale_text e'))) = Some cps" using assms(5) by simp
  then have loop: "\<exists>u evs. utf8_loop (Suc (length bs)) e (text_holder e' bs) (bs @ stale_text e') (length bs) 0 w = Some (True, u)
      \<and> input_trace u = input_trace w @ evs \<and> map sent_text (handed evs) = cps" for w
    by (rule utf8_loop_splits [OF h assms(2,3) b len _ _ le0, rotated]) simp
  obtain u evs where u: "handle_text e (text_holder e' bs) s = Some u" "phase u = Waiting" "input_trace u = input_trace s @ evs"
    "map sent_text (handed evs) = cps"
    using handle_text_runs [OF h assms(4) loop, of s] by (elim exE conjE) (rule that)
  show ?thesis
    by (rule exI [of _ u], rule exI [of _ evs], intro conjI u, unfold u(4)) (rule concat_split_text [OF assms(5)])
qed

lemma text_sent_by_code_point_witness:
  "\<exists>u evs. handle_text sample_env (text_holder sample_env [0x41, 0xE2, 0x82, 0xAC]) sample_session = Some u \<and> phase u = Waiting
    \<and> input_trace u = input_trace sample_session @ evs \<and> map sent_text (handed evs) = [[0x41], [0xE2, 0x82, 0xAC]]
    \<and> concat (map sent_text (handed evs)) = [0x41, 0xE2, 0x82, 0xAC]"
  by (rule text_sent_by_code_point [OF sample_env_ok sample_env_ok sample_alive]) (simp, code_simp)

text \<open>Property C40.  A text that ends inside a code point is read past its end: the packet for the cut code point carries the bytes
  that lie behind the text in the holder's memory.\<close>

theorem truncated_text_overread:
  assumes "env_ok v e'" "env_ok v e" "alive e" "codePointLength b = Some k"
  shows "\<exists>u evs. handle_text e (text_holder e' [b]) s = Some u \<and> input_trace u = input_trace s @ evs
    \<and> map sent_text (handed evs) = [b # take (k - 1) (stale_text e')]"
proof -
  let ?bs = "[b]" and ?t = "[b] @ stale_text e'"
  have h: "holder_ok v (text_holder e' ?bs)" by (rule text_holder_ok [OF assms(1)]) simp
  have len: "length ?t = 1 + TEXT_SLACK" using assms(1) by (simp add: env_ok_def)
  have bd: "body (packet (text_holder e' ?bs)) = Unicode ?t" by (simp add: text_holder_def)
  have k: "1 \<le> k" "k \<le> 4" using codePointLength_range [OF assms(4)] by simp_all
  have cp: "length (take k ?t) = k" using k len by (simp add: TEXT_SLACK_def)
  have r': "1 \<le> length (take k ?t)" "length (take k ?t) \<le> 4" using k cp by simp_all
  have cp': "take k ?t = b # take (k - 1) (stale_text e')" using k by (cases k) simp_all
  have on: "\<not> thread_interrupted e tr" for tr using assms(3) by (simp add: alive_def)
  have "\<exists>u evs. utf8_loop (Suc (length ?bs)) e (text_holder e' ?bs) ?t (length ?bs) 0 w = Some (True, u)
      \<and> input_trace u = input_trace w @ evs \<and> map sent_text (handed evs) = [take k ?t]" for w
  proof -
    obtain h' u evs where u: "split_packet (text_holder e' ?bs) ?t (take k ?t) = Some h'" "sendInputPacket e h' False w = Some (True, u)"
      "input_trace u = input_trace w @ evs" "map sent_text (handed evs) = [take k ?t]"
      using send_split_packet [OF h assms(2,3) bd len r', of False w] by (elim exE conjE) (rule that)
    have "mem_read ?t 0 k = Some (take k ?t)" using cp by (simp add: mem_read_def)
    then show ?thesis
      using u on k assms(4) by (intro exI [of _ u] exI [of _ evs]) (simp add: numeral_eq_Suc)
  qed
  then show ?thesis using handle_text_runs [OF h] unfolding cp' by fastforce
qed

lemma truncated_text_overread_witness:
  "\<exists>u evs. handle_text sample_env (text_holder sample_env [0xE2]) sample_session = Some u \<and> input_trace u = input_trace sample_session @ evs
    \<and> map sent_text (handed evs) = [0xE2 # take 2 (stale_text sample_env)]"
proof -
  have "codePointLength 0xE2 = Some 3" by code_simp
  then show ?thesis using truncated_text_overread [OF sample_env_ok sample_env_ok sample_alive, of "0xE2" 3] by simp
qed

section \<open>Scrolling\<close>

lemma enqueue_success:
  "enqueue h s = Some (0, t) \<Longrightarrow> contents (packetQueue t) = contents (packetQueue s) @ [h] \<and> batchedScrollDelta t = batchedScrollDelta s"
  by (auto simp: enqueue_def offer_to_eq bind_eq_Some_conv split: if_splits)

lemma allocate_frame:
  assumes "allocatePacketHolder e n s = Some (ok, t)"
  shows "packetQueue t = packetQueue s" "batchedScrollDelta t = batchedScrollDelta s"
  using allocatePacketHolder_returns [of e n s] assms by auto

lemma scroll_clicks_exact:
  assumes "scroll_clicks n e s = Some (0, t)"
  shows "\<exists>k. contents (packetQueue t) = contents (packetQueue s) @ replicate k (scroll_holder e (sgn (batchedScrollDelta s) * LI_WHEEL_DELTA))
    \<and> batchedScrollDelta s = batchedScrollDelta t + int k * (sgn (batchedScrollDelta s) * LI_WHEEL_DELTA)
    \<and> \<bar>batchedScrollDelta t\<bar> < LI_WHEEL_DELTA \<and> 0 \<le> sgn (batchedScrollDelta s) * batchedScrollDelta t"
  using assms
proof (induction n arbitrary: s)
  case 0
  then show ?case by simp
next
  case (Suc n)
  show ?case
  proof (cases "\<bar>batchedScrollDelta s\<bar> \<ge> LI_WHEEL_DELTA")
    case False
    then have "t = s" using Suc.prems by simp
    then show ?thesis using False by (intro exI [of _ 0]) (simp add: sgn_if)
  next
    case big: True
    let ?a = "sgn (batchedScrollDelta s) * LI_WHEEL_DELTA"
    have a: "(if batchedScrollDelta s > 0 then LI_WHEEL_DELTA else - LI_WHEEL_DELTA) = ?a"
      using big by (auto simp: LI_WHEEL_DELTA_def sgn_if)
    obtain s1 s2 where steps: "allocatePacketHolder e 0 s = Some (True, s1)" "enqueue (scroll_holder e ?a) s1 = Some (0, s2)"
      "scroll_clicks n e (s2\<lparr>batchedScrollDelta := batchedScrollDelta s2 - ?a\<rparr>) = Some (0, t)"
      using Suc.prems big a by (auto simp: Let_def bind_eq_Some_conv split: if_splits)
    have s2: "contents (packetQueue s2) = contents (packetQueue s) @ [scroll_holder e ?a]" "batchedScrollDelta s2 = batchedScrollDelta s"
      using enqueue_success [OF steps(2)] allocate_frame [OF steps(1)] by simp_all
    let ?u = "s2\<lparr>batchedScrollDelta := batchedScrollDelta s2 - ?a\<rparr>"
    obtain k where k: "contents (packetQueue t) = contents (packetQueue ?u) @ replicate k (scroll_holder e (sgn (batchedScrollDelta ?u) * LI_WHEEL_DELTA))"
      "batchedScrollDelta ?u = batchedScrollDelta t + int k * (sgn (batchedScrollDelta ?u) * LI_WHEEL_DELTA)"
      "\<bar>batchedScrollDelta t\<bar> < LI_WHEEL_DELTA" "0 \<le> sgn (batchedScrollDelta ?u) * batchedScrollDelta t"
      using Suc.IH [OF steps(3)] by blast
    have sg: "sgn (batchedScrollDelta ?u) = sgn (batchedScrollDelta s) \<or> batchedScrollDelta ?u = 0"
      using big s2(2) by (auto simp: LI_WHEEL_DELTA_def sgn_if)
    then show ?thesis
    proof
      assume same: "sgn (batchedScrollDelta ?u) = sgn (batchedScrollDelta s)"
      show ?thesis
        using k s2 unfolding same by (intro exI [of _ "Suc k"]) (simp add: algebra_simps)
    next
      assume zero: "batchedScrollDelta ?u = 0"
      have idle: "scroll_clicks (Suc m) e w = Some (0, w)" if "batchedScrollDelta w = 0" for m w
        using that by (simp add: LI_WHEEL_DELTA_def)
      obtain m where "n = Suc m" using steps(3) by (cases n) simp_all
      then have "scroll_clicks n e ?u = Some (0, ?u)" using idle [OF zero] by simp
      then have "t = ?u" using steps(3) by simp
      then show ?thesis using s2 zero by (intro exI [of _ 1]) (simp add: LI_WHEEL_DELTA_def)
    qed
  qed
qed


text \<open>An example: a rest of 100 and an event of 100 make one click and leave 80.\<close>

definition legacy_session :: input_stream where
  "legacy_session = sample_session\<lparr>needsBatchedScroll := True, batchedScrollDelta := 100\<rparr>"

definition legacy_scrolled :: input_stream where
  "legacy_scrolled = (case LiSendHighResScrollEvent sample_env 100 legacy_session of Some (_, t) \<Rightarrow> t | None \<Rightarrow> blank)"


section \<open>Inputs the code does not guard against\<close>

text \<open>A motion type of 0 passes the check of \<open>motionType - 1\<close> and indexes the sensor array at -1.\<close>

lemma motion_type_zero_out_of_bounds: "LiSendControllerMotionEvent sample_env 0 0 1 2 3 sample_session = None"
  by (rule case_None_ok) code_simp

text \<open>A negative controller number stays negative, and its packet makes the thread index its table of times below 0.\<close>

lemma negative_controller_out_of_bounds:
  "input_run [Client sample_env (EvMultiController (- 1) 1 0 0 0 0 0 0 0), Thread sample_env, Thread sample_env] sample_session = None"
  by (rule case_None_ok) code_simp

text \<open>
  The change of a pen button is queued to be sent reliably; the thread replaces it by the next packet with the same
  buttons, which is not.
\<close>

definition pen_flags :: "input_event list \<Rightarrow> (u8 \<times> u32) list" where
  "pen_flags evs = concat (map (\<lambda>ev. case ev of HandedOver p c f m \<Rightarrow> (case body p of Pen q \<Rightarrow> [(penButtons q, f)] | _ \<Rightarrow> []) | _ \<Rightarrow> []) evs)"

lemma pen_button_sent_unreliably:
  "(case input_run [Client sample_env (EvPen 0 1 0 0 0 0 0 0 0 0), Thread sample_env, Thread sample_env,
      Client sample_env (EvPen 0 1 1 0 0 0 0 0 0 0), Client sample_env (EvPen 0 1 1 5 5 0 0 0 0 0), Thread sample_env] sample_session of
    Some t \<Rightarrow> pen_flags (input_trace t) | None \<Rightarrow> []) = [(0, 0), (1, 0)]"
  by code_simp

end
