(* ===== verification/ControlStream.thy ===== *)
theory ControlStream
  imports Version ByteBuffer LinkedBlockingQueue
begin

text \<open>
  ControlStream.c: the reports and requests of the client on the control channel, the encryption of its
  messages, the messages of the host, the callbacks to the client and the threads behind them.  Every
  iteration of a thread and every call is one operation on the state.  ENet, sockets, the clock, allocation and
  the cipher are the environment; what goes out to them and to the client is recorded in a trace.  As in the other
  theories \<open>LC_ASSERT_VT\<close>, the assertions on what the host sends, is left out.
\<close>

section \<open>Tables\<close>

definition IDX_START_A :: nat where "IDX_START_A = 0"
definition IDX_REQUEST_IDR_FRAME :: nat where "IDX_REQUEST_IDR_FRAME = 0"
definition IDX_START_B :: nat where "IDX_START_B = 1"
definition IDX_INVALIDATE_REF_FRAMES :: nat where "IDX_INVALIDATE_REF_FRAMES = 2"
definition IDX_LOSS_STATS :: nat where "IDX_LOSS_STATS = 3"
definition IDX_INPUT_DATA :: nat where "IDX_INPUT_DATA = 5"
definition IDX_RUMBLE_DATA :: nat where "IDX_RUMBLE_DATA = 6"
definition IDX_TERMINATION :: nat where "IDX_TERMINATION = 7"
definition IDX_HDR_INFO :: nat where "IDX_HDR_INFO = 8"
definition IDX_RUMBLE_TRIGGER_DATA :: nat where "IDX_RUMBLE_TRIGGER_DATA = 9"
definition IDX_SET_MOTION_EVENT :: nat where "IDX_SET_MOTION_EVENT = 10"
definition IDX_SET_RGB_LED :: nat where "IDX_SET_RGB_LED = 11"
definition IDX_DS_ADAPTIVE_TRIGGERS :: nat where "IDX_DS_ADAPTIVE_TRIGGERS = 12"

lemmas idx_defs = IDX_START_A_def IDX_REQUEST_IDR_FRAME_def IDX_START_B_def IDX_INVALIDATE_REF_FRAMES_def IDX_LOSS_STATS_def
  IDX_INPUT_DATA_def IDX_RUMBLE_DATA_def IDX_TERMINATION_def IDX_HDR_INFO_def IDX_RUMBLE_TRIGGER_DATA_def
  IDX_SET_MOTION_EVENT_def IDX_SET_RGB_LED_def IDX_DS_ADAPTIVE_TRIGGERS_def

text \<open>The entries are of type \<open>short\<close>; they are compared as \<open>int\<close>.\<close>

definition packetTypesGen3 :: "int list" where
  "packetTypesGen3 = [0x1407, 0x1410, 0x1404, 0x140c, 0x1417, - 1, - 1, - 1, - 1, - 1, - 1, - 1]"
definition packetTypesGen4 :: "int list" where
  "packetTypesGen4 = [0x0606, 0x0609, 0x0604, 0x060a, 0x0611, - 1, - 1, - 1, - 1, - 1, - 1, - 1]"
definition packetTypesGen5 :: "int list" where
  "packetTypesGen5 = [0x0305, 0x0307, 0x0301, 0x0201, 0x0204, 0x0207, - 1, - 1, - 1, - 1, - 1, - 1]"
definition packetTypesGen7 :: "int list" where
  "packetTypesGen7 = [0x0305, 0x0307, 0x0301, 0x0201, 0x0204, 0x0206, 0x010b, 0x0100, 0x010e, - 1, - 1, - 1]"
definition packetTypesGen7Enc :: "int list" where
  "packetTypesGen7Enc = [0x0302, 0x0307, 0x0301, 0x0201, 0x0204, 0x0206, 0x010b, 0x0109, 0x010e, 0x5500, 0x5501, 0x5502, 0x5503]"

definition requestIdrFrameGen3 :: "u8 list" where "requestIdrFrameGen3 = [0, 0]"
definition requestIdrFrameGen4 :: "u8 list" where "requestIdrFrameGen4 = [0, 0]"
definition requestIdrFrameGen7Enc :: "u8 list" where "requestIdrFrameGen7Enc = [0, 0]"
definition startBGen3 :: "u8 list" where "startBGen3 = concat (map (le_bytes 4) [0, 0, 0, 0xa :: u32])"
definition startBGen4 :: "u8 list" where "startBGen4 = [0]"
definition startAGen5 :: "u8 list" where "startAGen5 = [0, 0]"
definition startBGen5 :: "u8 list" where "startBGen5 = [0]"

definition payloadLengthsGen3 :: "int list" where
  "payloadLengthsGen3 = [int (length requestIdrFrameGen3), int (length startBGen3), 24, 32, 64, - 1]"
definition payloadLengthsGen4 :: "int list" where
  "payloadLengthsGen4 = [int (length requestIdrFrameGen4), int (length startBGen4), 24, 32, 64, - 1]"
definition payloadLengthsGen5 :: "int list" where
  "payloadLengthsGen5 = [int (length startAGen5), int (length startBGen5), 24, 32, 80, - 1]"
definition payloadLengthsGen7 :: "int list" where
  "payloadLengthsGen7 = [int (length startAGen5), int (length startBGen5), 24, 32, 80, - 1]"
definition payloadLengthsGen7Enc :: "int list" where
  "payloadLengthsGen7Enc = [int (length requestIdrFrameGen7Enc), int (length startBGen5), 24, 32, 80, - 1]"

definition preconstructedPayloadsGen3 :: "u8 list list" where "preconstructedPayloadsGen3 = [requestIdrFrameGen3, startBGen3]"
definition preconstructedPayloadsGen4 :: "u8 list list" where "preconstructedPayloadsGen4 = [requestIdrFrameGen4, startBGen4]"
definition preconstructedPayloadsGen5 :: "u8 list list" where "preconstructedPayloadsGen5 = [startAGen5, startBGen5]"
definition preconstructedPayloadsGen7 :: "u8 list list" where "preconstructedPayloadsGen7 = [startAGen5, startBGen5]"
definition preconstructedPayloadsGen7Enc :: "u8 list list" where
  "preconstructedPayloadsGen7Enc = [requestIdrFrameGen7Enc, startBGen5]"

text \<open>The variant of the protocol that the host's version selects.\<close>

record protocol_variant =
  packetTypes :: "int list"
  payloadLengths :: "int list"
  preconstructedPayloads :: "u8 list list"
  supportsIdrFrameRequest :: bool

definition select_variant :: "version \<Rightarrow> protocol_variant" where
  "select_variant v =
     (if vq0 v = 3 then \<lparr>packetTypes = packetTypesGen3, payloadLengths = payloadLengthsGen3,
        preconstructedPayloads = preconstructedPayloadsGen3, supportsIdrFrameRequest = True\<rparr>
      else if vq0 v = 4 then \<lparr>packetTypes = packetTypesGen4, payloadLengths = payloadLengthsGen4,
        preconstructedPayloads = preconstructedPayloadsGen4, supportsIdrFrameRequest = True\<rparr>
      else if vq0 v = 5 then \<lparr>packetTypes = packetTypesGen5, payloadLengths = payloadLengthsGen5,
        preconstructedPayloads = preconstructedPayloadsGen5, supportsIdrFrameRequest = False\<rparr>
      else if APP_VERSION_AT_LEAST v 7 1 431 then \<lparr>packetTypes = packetTypesGen7Enc, payloadLengths = payloadLengthsGen7Enc,
        preconstructedPayloads = preconstructedPayloadsGen7Enc, supportsIdrFrameRequest = True\<rparr>
      else \<lparr>packetTypes = packetTypesGen7, payloadLengths = payloadLengthsGen7,
        preconstructedPayloads = preconstructedPayloadsGen7, supportsIdrFrameRequest = False\<rparr>)"

section \<open>State\<close>

definition CONN_STATUS_OKAY :: int where "CONN_STATUS_OKAY = 0"
definition CONN_STATUS_POOR :: int where "CONN_STATUS_POOR = 1"
definition CONN_IMMEDIATE_POOR_LOSS_RATE :: int where "CONN_IMMEDIATE_POOR_LOSS_RATE = 30"
definition CONN_CONSECUTIVE_POOR_LOSS_RATE :: int where "CONN_CONSECUTIVE_POOR_LOSS_RATE = 15"
definition CONN_OKAY_LOSS_RATE :: int where "CONN_OKAY_LOSS_RATE = 5"
definition CONN_STATUS_SAMPLE_PERIOD :: u64 where "CONN_STATUS_SAMPLE_PERIOD = 3000"

record fec_status =
  frameIndex :: u32
  highestReceivedSequenceNumber :: u16
  nextContiguousSequenceNumber :: u16
  missingPacketsBeforeHighestReceived :: u16
  totalDataPackets :: u16
  totalParityPackets :: u16
  receivedDataPackets :: u16
  receivedParityPackets :: u16
  fs_fecPercentage :: u8
  fs_multiFecBlockIndex :: u8
  fs_multiFecBlockCount :: u8

definition fec_status_bytes :: "fec_status \<Rightarrow> u8 list" where
  "fec_status_bytes f = le_bytes 4 (frameIndex f) @ le_bytes 2 (highestReceivedSequenceNumber f)
     @ le_bytes 2 (nextContiguousSequenceNumber f) @ le_bytes 2 (missingPacketsBeforeHighestReceived f)
     @ le_bytes 2 (totalDataPackets f) @ le_bytes 2 (totalParityPackets f) @ le_bytes 2 (receivedDataPackets f)
     @ le_bytes 2 (receivedParityPackets f) @ [fs_fecPercentage f, fs_multiFecBlockIndex f, fs_multiFecBlockCount f]"

datatype async_callback =
  RumbleData u16 u16 u16
| RumbleTriggers u16 u16 u16
| HdrInfo
| SetMotionEvent u16 u16 u8
| SetRgbLed u16 u8 u8 u8
| AdaptiveTriggers u16 u8 u8 u8 "u8 list" "u8 list"

record hdr_metadata =
  displayPrimaries :: "(u16 \<times> u16) list"
  whitePoint :: "u16 \<times> u16"
  maxDisplayLuminance :: u16
  minDisplayLuminance :: u16
  maxContentLightLevel :: u16
  maxFrameAverageLightLevel :: u16
  maxFullFrameLuminance :: u16

definition no_metadata :: hdr_metadata where
  "no_metadata = \<lparr>displayPrimaries = replicate 3 (0, 0), whitePoint = (0, 0), maxDisplayLuminance = 0, minDisplayLuminance = 0,
     maxContentLightLevel = 0, maxFrameAverageLightLevel = 0, maxFullFrameLuminance = 0\<rparr>"

datatype ctl_thread = ControlRecv | LossStats | ReqIdrFrame | CtrlAsyncCb | InvRefFrames

text \<open>
  What leaves the component.  \<open>Sealed\<close> records the initialization vector a message is encrypted with;
  \<open>InvalidateSent\<close> and \<open>IdrSent\<close> are the log messages after a successful request.
\<close>

datatype control_event =
  Sealed "u8 list"
| EnetQueued "u8 list" u8 u32
| EnetServiced
| TcpSent "u8 list"
| ReplyRead
| InvalidateSent u32 u32
| IdrSent
| StatusUpdate int
| Terminated int
| MadeCallback async_callback
| MadeHdrCallback bool
| SocketWait u32
| SleepMs nat
| PeerDisconnected
| PeerLingered

record control_stream =
  stopping :: bool
  disconnectPending :: bool
  interceptSet :: bool
  controlEncrypted :: bool
  usePeriodicPing :: bool
  hdrEnabled :: bool
  hdrMetadata :: hdr_metadata
  variant :: protocol_variant
  lastGoodFrame :: u32
  lastSeenFrame :: u32
  intervalGoodFrameCount :: int
  intervalTotalFrameCount :: i32
  intervalStartTimeMs :: u64
  lastIntervalLossPercentage :: int
  lastConnectionStatusUpdate :: int
  firstFrameTimeMs :: u64
  currentEnetSequenceNumber :: u32
  invalidReferenceFrameTuples :: "(u32 \<times> u32) bqueue"
  frameFecStatusQueue :: "fec_status bqueue"
  asyncCallbackQueue :: "async_callback bqueue"
  idrFrameRequired :: bool
  ctlSock :: bool
  sockShut :: bool
  enetClient :: bool
  enetPeer :: bool
  running :: "ctl_thread list"
  ctl_interrupted :: "ctl_thread list"
  connectionInterrupted :: bool
  ctl_trace :: "control_event list"

text \<open>
  The environment.  The results of calls may depend on everything that left the component before.
  \<open>gcm_seal\<close> and \<open>gcm_open\<close> are AES-GCM under the session key: from the initialization vector and the text to
  the tag and the ciphertext, and back.
\<close>

record control_env =
  ce_version :: version
  EncryptionFeaturesEnabled :: u32
  rfi_supported :: bool
  NegotiatedVideoFormat :: u32
  decoderCapabilities :: u32
  ce_malloc :: bool
  ce_now :: u64
  gcm_seal :: "u8 list \<Rightarrow> u8 list \<Rightarrow> (u8 list \<times> u8 list) option"
  gcm_open :: "u8 list \<Rightarrow> u8 list \<Rightarrow> u8 list \<Rightarrow> u8 list option"
  packet_create_ok :: bool
  channelCount :: nat
  peer_send :: "control_event list \<Rightarrow> int"
  host_service :: "control_event list \<Rightarrow> int"
  sent_or_gone :: "control_event list \<Rightarrow> bool"
  tcp_send :: "control_event list \<Rightarrow> int"
  tcp_reply :: "control_event list \<Rightarrow> u8 list"
  LastSocketError :: int
  create_thread :: "ctl_thread \<Rightarrow> int"

definition LastSocketFail :: "control_env \<Rightarrow> int" where
  "LastSocketFail e = (if LastSocketError e \<noteq> 0 then LastSocketError e else - 1)"

definition clog :: "control_event \<Rightarrow> control_stream \<Rightarrow> control_stream" where
  "clog ev s = s\<lparr>ctl_trace := ctl_trace s @ [ev]\<rparr>"

definition initializeControlStream :: "version \<Rightarrow> control_stream \<Rightarrow> control_stream" where
  "initializeControlStream v s = s\<lparr>stopping := False, idrFrameRequired := False,
     invalidReferenceFrameTuples := bq_start 20, frameFecStatusQueue := bq_start 8, asyncCallbackQueue := bq_start 30,
     controlEncrypted := APP_VERSION_AT_LEAST v 7 1 431, variant := select_variant v,
     lastGoodFrame := 0, lastSeenFrame := 0, disconnectPending := False, intervalGoodFrameCount := 0,
     intervalTotalFrameCount := 0, intervalStartTimeMs := 0, lastIntervalLossPercentage := 0,
     lastConnectionStatusUpdate := CONN_STATUS_OKAY, firstFrameTimeMs := 0, currentEnetSequenceNumber := 0,
     usePeriodicPing := APP_VERSION_AT_LEAST v 7 1 415, hdrEnabled := False, hdrMetadata := no_metadata\<rparr>"

definition destroyControlStream :: "control_stream \<Rightarrow> control_stream option" where
  "destroyControlStream s = do {
     LC_ASSERT (stopping s);
     Some (s\<lparr>invalidReferenceFrameTuples := (invalidReferenceFrameTuples s)\<lparr>contents := []\<rparr>,
       frameFecStatusQueue := (frameFecStatusQueue s)\<lparr>contents := []\<rparr>,
       asyncCallbackQueue := (asyncCallbackQueue s)\<lparr>contents := []\<rparr>\<rparr>) }"

text \<open>The queues, through the operations of the abstract queue.\<close>

definition q_offer :: "'a \<Rightarrow> 'a bqueue \<Rightarrow> lbq_status \<times> 'a bqueue" where
  "q_offer x q = (case bq_step (Offer x \<lparr>flink = None, blink = None, data = x\<rparr>) q of
     (Status st _, q') \<Rightarrow> (st, q') | (_, q') \<Rightarrow> (LBQ_SUCCESS, q'))"

definition q_take :: "'a lbq_op \<Rightarrow> 'a bqueue \<Rightarrow> lbq_status \<times> 'a option \<times> 'a bqueue" where
  "q_take op q = (case bq_step op q of (Status st d, q') \<Rightarrow> (st, d, q') | (_, q') \<Rightarrow> (LBQ_NO_ELEMENT, None, q'))"

section \<open>Reports of the receiver\<close>

definition CAPABILITY_RFI_AVC :: u32 where "CAPABILITY_RFI_AVC = 0x2"
definition CAPABILITY_RFI_HEVC :: u32 where "CAPABILITY_RFI_HEVC = 0x4"
definition CAPABILITY_RFI_AV1 :: u32 where "CAPABILITY_RFI_AV1 = 0x40"

definition isReferenceFrameInvalidationSupportedByDecoder :: "control_env \<Rightarrow> bool option" where
  "isReferenceFrameInvalidationSupportedByDecoder e = do {
     LC_ASSERT (NegotiatedVideoFormat e \<noteq> 0);
     Some ((NegotiatedVideoFormat e AND VIDEO_FORMAT_MASK_H264 \<noteq> 0 \<and> decoderCapabilities e AND CAPABILITY_RFI_AVC \<noteq> 0)
       \<or> (NegotiatedVideoFormat e AND VIDEO_FORMAT_MASK_H265 \<noteq> 0 \<and> decoderCapabilities e AND CAPABILITY_RFI_HEVC \<noteq> 0)
       \<or> (NegotiatedVideoFormat e AND VIDEO_FORMAT_MASK_AV1 \<noteq> 0 \<and> decoderCapabilities e AND CAPABILITY_RFI_AV1 \<noteq> 0)) }"

definition isReferenceFrameInvalidationEnabled :: "control_env \<Rightarrow> bool option" where
  "isReferenceFrameInvalidationEnabled e =
     (if rfi_supported e then isReferenceFrameInvalidationSupportedByDecoder e else Some False)"

definition LiRequestIdrFrame :: "control_stream \<Rightarrow> control_stream" where
  "LiRequestIdrFrame s = s\<lparr>invalidReferenceFrameTuples := snd (bq_step Flush (invalidReferenceFrameTuples s)),
     idrFrameRequired := True\<rparr>"

definition queueFrameInvalidationTuple :: "control_env \<Rightarrow> u32 \<Rightarrow> u32 \<Rightarrow> control_stream \<Rightarrow> control_stream option" where
  "queueFrameInvalidationTuple e startFrame endFrame s = do {
     LC_ASSERT (startFrame \<le> endFrame);
     rfi \<leftarrow> isReferenceFrameInvalidationEnabled e;
     Some (if rfi then
         if ce_malloc e then
           case q_offer (startFrame, endFrame) (invalidReferenceFrameTuples s) of (err, q) \<Rightarrow>
             let s = s\<lparr>invalidReferenceFrameTuples := q\<rparr> in
             if err = LBQ_BOUND_EXCEEDED then LiRequestIdrFrame s else s
         else LiRequestIdrFrame s
       else LiRequestIdrFrame s) }"

definition connectionDetectedFrameLoss :: "control_env \<Rightarrow> u32 \<Rightarrow> u32 \<Rightarrow> control_stream \<Rightarrow> control_stream option" where
  "connectionDetectedFrameLoss e startFrame endFrame s = queueFrameInvalidationTuple e startFrame endFrame s"

definition connectionReceivedCompleteFrame :: "u32 \<Rightarrow> control_stream \<Rightarrow> control_stream" where
  "connectionReceivedCompleteFrame f s = s\<lparr>lastGoodFrame := f, intervalGoodFrameCount := intervalGoodFrameCount s + 1\<rparr>"

definition connectionSendFrameFecStatus :: "control_env \<Rightarrow> fec_status \<Rightarrow> control_stream \<Rightarrow> control_stream" where
  "connectionSendFrameFecStatus e f s =
     (if \<not> IS_SUNSHINE (ce_version e) then s
      else if ce_malloc e then s\<lparr>frameFecStatusQueue := snd (q_offer f (frameFecStatusQueue s))\<rparr>
      else s)"

text \<open>C's division truncates towards zero.\<close>

definition c_div :: "int \<Rightarrow> int \<Rightarrow> int" where
  "c_div a b = sgn a * sgn b * (\<bar>a\<bar> div \<bar>b\<bar>)"

text \<open>The loss percentage of an interval; leaving the range of \<open>int\<close> is \<open>None\<close>.\<close>

definition loss_percent :: "int \<Rightarrow> i32 \<Rightarrow> int option" where
  "loss_percent good seen =
     (if good * 100 < 2 ^ 31 then Some (100 - c_div (good * 100) (sint seen)) else None)"

definition update_status :: "int \<Rightarrow> control_stream \<Rightarrow> control_stream" where
  "update_status frameLossPercent s =
     (if lastConnectionStatusUpdate s \<noteq> CONN_STATUS_POOR
         \<and> (frameLossPercent \<ge> CONN_IMMEDIATE_POOR_LOSS_RATE
            \<or> (frameLossPercent \<ge> CONN_CONSECUTIVE_POOR_LOSS_RATE \<and> lastIntervalLossPercentage s \<ge> CONN_CONSECUTIVE_POOR_LOSS_RATE))
      then (clog (StatusUpdate CONN_STATUS_POOR) s)\<lparr>lastConnectionStatusUpdate := CONN_STATUS_POOR\<rparr>
      else if frameLossPercent \<le> CONN_OKAY_LOSS_RATE \<and> lastConnectionStatusUpdate s \<noteq> CONN_STATUS_OKAY
      then (clog (StatusUpdate CONN_STATUS_OKAY) s)\<lparr>lastConnectionStatusUpdate := CONN_STATUS_OKAY\<rparr>
      else s)\<lparr>lastIntervalLossPercentage := frameLossPercent\<rparr>"

definition judge_interval :: "control_stream \<Rightarrow> control_stream option" where
  "judge_interval s =
     (if intervalTotalFrameCount s \<noteq> 0
      then map_option (\<lambda>p. update_status p s) (loss_percent (intervalGoodFrameCount s) (intervalTotalFrameCount s))
      else Some s)"

definition connectionSawFrame :: "control_env \<Rightarrow> u32 \<Rightarrow> control_stream \<Rightarrow> control_stream option" where
  "connectionSawFrame e f s =
     (if lastSeenFrame s = 0 then Some (s\<lparr>lastSeenFrame := f, firstFrameTimeMs := ce_now e\<rparr>)
      else if ce_now e - firstFrameTimeMs s < CONN_STATUS_SAMPLE_PERIOD then Some (s\<lparr>lastSeenFrame := f\<rparr>)
      else do {
        s \<leftarrow> (if ce_now e - intervalStartTimeMs s \<ge> CONN_STATUS_SAMPLE_PERIOD then do {
                s \<leftarrow> judge_interval s;
                Some (s\<lparr>intervalStartTimeMs := ce_now e, intervalGoodFrameCount := 0, intervalTotalFrameCount := 0\<rparr>) }
              else Some s);
        Some (s\<lparr>intervalTotalFrameCount := intervalTotalFrameCount s + (f - lastSeenFrame s), lastSeenFrame := f\<rparr>) })"

section \<open>Messages\<close>

definition CTRL_CHANNEL_URGENT :: u8 where "CTRL_CHANNEL_URGENT = 0x01"
definition CHANNEL_GENERIC :: u8 where "CHANNEL_GENERIC = 0x00"
definition SS_ENC_CONTROL_V2 :: u32 where "SS_ENC_CONTROL_V2 = 0x01"
definition AES_GCM_TAG_LENGTH :: nat where "AES_GCM_TAG_LENGTH = 16"
definition FLAG_RELIABLE :: u32 where "FLAG_RELIABLE = 1"
definition FLAG_UNSEQUENCED :: u32 where "FLAG_UNSEQUENCED = 2"

text \<open>
  The initialization vector of a message: the sequence number and the direction, or, in the old style, only the
  low byte of the sequence number.
\<close>

definition control_iv :: "control_env \<Rightarrow> u8 \<Rightarrow> u32 \<Rightarrow> u8 list" where
  "control_iv e direction seq =
     (if EncryptionFeaturesEnabled e AND SS_ENC_CONTROL_V2 \<noteq> 0
      then le_bytes 4 seq @ [0, 0, 0, 0, 0, 0, direction, 0x43]
      else ucast seq # replicate 15 0)"

definition CLIENT_ORIGIN :: u8 where "CLIENT_ORIGIN = 0x43"
definition HOST_ORIGIN :: u8 where "HOST_ORIGIN = 0x48"

text \<open>An encrypted message: the header with the length and the sequence number, the tag and the ciphertext.\<close>

definition encrypted_header :: "u16 \<Rightarrow> u32 \<Rightarrow> u8 list" where
  "encrypted_header len seq = le_bytes 2 (0x0001 :: u16) @ le_bytes 2 (LE16 len) @ le_bytes 4 (LE32 seq)"

definition v2_message :: "u16 \<Rightarrow> u8 list \<Rightarrow> u8 list" where
  "v2_message ptype payload = le_bytes 2 (LE16 ptype) @ le_bytes 2 (LE16 (of_nat (length payload))) @ payload"

definition encryptControlMessage :: "control_env \<Rightarrow> u16 \<Rightarrow> u32 \<Rightarrow> u8 list \<Rightarrow> u8 list option" where
  "encryptControlMessage e len seq plain =
     map_option (\<lambda>(tag, ct). encrypted_header len seq @ tag @ ct) (gcm_seal e (control_iv e CLIENT_ORIGIN seq) plain)"

text \<open>
  The wait for a reliable packet to leave, at most ten rounds of a millisecond.
\<close>

fun wait_until_sent :: "nat \<Rightarrow> control_env \<Rightarrow> int \<Rightarrow> control_stream \<Rightarrow> int \<times> control_stream" where
  "wait_until_sent 0 e err s = (err, s)"
| "wait_until_sent (Suc n) e err s =
     (if err < 0 \<or> sent_or_gone e (ctl_trace s) then (err, s)
      else let s = clog EnetServiced (clog (SleepMs 1) s) in wait_until_sent n e (host_service e (ctl_trace s)) s)"

definition hand_to_enet :: "control_env \<Rightarrow> u8 list \<Rightarrow> u8 \<Rightarrow> u32 \<Rightarrow> bool \<Rightarrow> control_stream \<Rightarrow> bool \<times> control_stream" where
  "hand_to_enet e bytes channelId flags moreData s =
     (let channel = (if \<not> IS_SUNSHINE (ce_version e) \<or> unat channelId \<ge> channelCount e then 0 else channelId);
          s = clog (EnetQueued bytes channel flags) s;
          err = peer_send e (ctl_trace s)
      in if \<not> moreData \<and> err = 0 then
           let s = clog EnetServiced s;
               err = host_service e (ctl_trace s);
               (err, s) = (if flags AND FLAG_RELIABLE \<noteq> 0 then wait_until_sent 10 e err s else (err, s))
           in (err \<ge> 0, s)
         else (err \<ge> 0, s))"

definition sendMessageEnet ::
  "control_env \<Rightarrow> u16 \<Rightarrow> nat \<Rightarrow> u8 list \<Rightarrow> u8 \<Rightarrow> u32 \<Rightarrow> bool \<Rightarrow> control_stream \<Rightarrow> (bool \<times> control_stream) option" where
  "sendMessageEnet e ptype paylen payload channelId flags moreData s = do {
     LC_ASSERT (vq0 (ce_version e) \<ge> 5);
     let flags = (if IS_SUNSHINE (ce_version e) then flags else FLAG_RELIABLE);
     if \<not> packet_create_ok e then Some (False, s)
     else if controlEncrypted s then do {
       LC_ASSERT (4 + paylen < 256);
       bytes \<leftarrow> mem_read payload 0 paylen;
       let seq = currentEnetSequenceNumber s;
       let s = clog (Sealed (control_iv e CLIENT_ORIGIN seq)) (s\<lparr>currentEnetSequenceNumber := seq + 1\<rparr>);
       case encryptControlMessage e (of_nat (4 + AES_GCM_TAG_LENGTH + 4 + paylen)) seq (v2_message ptype bytes) of
         None \<Rightarrow> Some (False, s)
       | Some msg \<Rightarrow> Some (hand_to_enet e msg channelId flags moreData s) }
     else do {
       bytes \<leftarrow> mem_read payload 0 paylen;
       Some (hand_to_enet e (le_bytes 2 (LE16 ptype) @ bytes) channelId flags moreData s) } }"

definition sendMessageTcp :: "control_env \<Rightarrow> u16 \<Rightarrow> nat \<Rightarrow> u8 list \<Rightarrow> control_stream \<Rightarrow> (bool \<times> control_stream) option" where
  "sendMessageTcp e ptype paylen payload s = do {
     LC_ASSERT (vq0 (ce_version e) < 5);
     if \<not> ce_malloc e then Some (False, s)
     else do {
       bytes \<leftarrow> mem_read payload 0 paylen;
       let msg = le_bytes 2 (LE16 ptype) @ le_bytes 2 (LE16 (of_nat paylen)) @ bytes;
       let s = clog (TcpSent msg) s;
       Some (tcp_send e (ctl_trace s) = int (4 + paylen), s) } }"

text \<open>What the socket gives, cut into the header and the payload it announces; \<open>None\<close> when it gives less.\<close>

definition readNvctlPacketTcp :: "control_env \<Rightarrow> control_stream \<Rightarrow> (u16 \<times> u8 list) option" where
  "readNvctlPacketTcp e s =
     (let r = tcp_reply e (ctl_trace s) in
      if length r < 4 then None
      else let len = unat (LE16 (of_le_bytes (take 2 (drop 2 r)) :: u16)) in
        if \<not> ce_malloc e then None
        else if length r < 4 + len then None
        else Some (LE16 (of_le_bytes (take 2 r)), take len (drop 4 r)))"

definition sendMessageAndForget ::
  "control_env \<Rightarrow> u16 \<Rightarrow> nat \<Rightarrow> u8 list \<Rightarrow> u8 \<Rightarrow> u32 \<Rightarrow> bool \<Rightarrow> control_stream \<Rightarrow> (bool \<times> control_stream) option" where
  "sendMessageAndForget e ptype paylen payload channelId flags moreData s =
     (if vq0 (ce_version e) \<ge> 5 then sendMessageEnet e ptype paylen payload channelId flags moreData s
      else sendMessageTcp e ptype paylen payload s)"

definition sendMessageAndDiscardReply ::
  "control_env \<Rightarrow> u16 \<Rightarrow> nat \<Rightarrow> u8 list \<Rightarrow> u8 \<Rightarrow> u32 \<Rightarrow> bool \<Rightarrow> control_stream \<Rightarrow> (bool \<times> control_stream) option" where
  "sendMessageAndDiscardReply e ptype paylen payload channelId flags moreData s =
     (if vq0 (ce_version e) \<ge> 5 then sendMessageEnet e ptype paylen payload channelId flags moreData s
      else do {
        (ok, s) \<leftarrow> sendMessageTcp e ptype paylen payload s;
        Some (if ok then (readNvctlPacketTcp e s \<noteq> None, clog ReplyRead s) else (False, s)) })"

text \<open>An entry of the table of types, converted to \<open>short\<close>, of the lengths, and of the payloads.\<close>

definition type_at :: "nat \<Rightarrow> control_stream \<Rightarrow> u16 option" where
  "type_at ix s = map_option word_of_int (nth_opt (packetTypes (variant s)) ix)"

definition length_at :: "nat \<Rightarrow> control_stream \<Rightarrow> nat option" where
  "length_at ix s = map_option nat (nth_opt (payloadLengths (variant s)) ix)"

definition payload_at :: "nat \<Rightarrow> control_stream \<Rightarrow> u8 list option" where
  "payload_at ix s = nth_opt (preconstructedPayloads (variant s)) ix"

definition sendInputPacketOnControlStream ::
  "control_env \<Rightarrow> u8 list \<Rightarrow> nat \<Rightarrow> u8 \<Rightarrow> u32 \<Rightarrow> bool \<Rightarrow> control_stream \<Rightarrow> (int \<times> control_stream) option" where
  "sendInputPacketOnControlStream e bytes len channelId flags moreData s = do {
     LC_ASSERT (vq0 (ce_version e) \<ge> 5);
     t \<leftarrow> type_at IDX_INPUT_DATA s;
     (ok, s) \<leftarrow> sendMessageAndForget e t len bytes channelId flags moreData s;
     Some (if ok then 0 else - 1, s) }"

text \<open>Small operations on the peer; \<open>None\<close> for the estimate is the result \<open>false\<close>.\<close>

definition flushInputOnControlStream :: "control_env \<Rightarrow> control_stream \<Rightarrow> control_stream" where
  "flushInputOnControlStream e s = (if vq0 (ce_version e) \<ge> 5 then clog EnetServiced s else s)"

record peer_info =
  peer_connected :: bool
  reliableDataInTransit :: u32
  roundTripTime :: u32
  roundTripTimeVariance :: u32

definition isControlDataInTransit :: "peer_info \<Rightarrow> control_stream \<Rightarrow> bool" where
  "isControlDataInTransit p s \<longleftrightarrow> enetPeer s \<and> peer_connected p \<and> reliableDataInTransit p \<noteq> 0"

definition LiGetEstimatedRttInfo :: "peer_info \<Rightarrow> control_stream \<Rightarrow> (u32 \<times> u32) option" where
  "LiGetEstimatedRttInfo p s =
     (if enetPeer s \<and> peer_connected p then Some (roundTripTime p, roundTripTimeVariance p) else None)"

section \<open>Requests for frames\<close>

definition report_failure :: "control_env \<Rightarrow> control_stream \<Rightarrow> control_stream" where
  "report_failure e s = clog (Terminated (LastSocketFail e)) s"

definition invalidate_payload :: "u64 \<Rightarrow> u64 \<Rightarrow> u8 list" where
  "invalidate_payload a b = le_bytes 8 (LE64 a) @ le_bytes 8 (LE64 b) @ le_bytes 8 (0 :: u64)"

definition send_idr_request :: "control_env \<Rightarrow> control_stream \<Rightarrow> (bool \<times> control_stream) option" where
  "send_idr_request e s =
     (if \<not> supportsIdrFrameRequest (variant s) then do {
        t \<leftarrow> type_at IDX_INVALIDATE_REF_FRAMES s;
        let first = (if lastSeenFrame s < 0x20 then 0 else ucast (lastSeenFrame s - 0x20));
        sendMessageAndDiscardReply e t 24 (invalidate_payload first (ucast (lastSeenFrame s))) CTRL_CHANNEL_URGENT FLAG_RELIABLE False s }
      else do {
        t \<leftarrow> type_at IDX_REQUEST_IDR_FRAME s;
        n \<leftarrow> length_at IDX_REQUEST_IDR_FRAME s;
        p \<leftarrow> payload_at IDX_REQUEST_IDR_FRAME s;
        sendMessageAndDiscardReply e t n p CTRL_CHANNEL_URGENT FLAG_RELIABLE False s })"

definition requestIdrFrame :: "control_env \<Rightarrow> control_stream \<Rightarrow> control_stream option" where
  "requestIdrFrame e s = do {
     (ok, s) \<leftarrow> send_idr_request e s;
     Some (if ok then clog IdrSent s else report_failure e s) }"

definition requestInvalidateReferenceFrames :: "control_env \<Rightarrow> u32 \<Rightarrow> u32 \<Rightarrow> control_stream \<Rightarrow> control_stream option" where
  "requestInvalidateReferenceFrames e startFrame endFrame s = do {
     LC_ASSERT (startFrame \<le> endFrame);
     rfi \<leftarrow> isReferenceFrameInvalidationEnabled e;
     LC_ASSERT rfi;
     t \<leftarrow> type_at IDX_INVALIDATE_REF_FRAMES s;
     (ok, s) \<leftarrow> sendMessageAndDiscardReply e t 24 (invalidate_payload (ucast startFrame) (ucast endFrame))
       CTRL_CHANNEL_URGENT FLAG_RELIABLE False s;
     Some (if ok then clog (InvalidateSent startFrame endFrame) s else report_failure e s) }"

text \<open>Whether a thread goes on with its loop.\<close>

definition interrupted :: "ctl_thread \<Rightarrow> control_stream \<Rightarrow> bool" where
  "interrupted t s \<longleftrightarrow> t \<in> set (ctl_interrupted s)"

text \<open>The queued ranges are joined into one; the first argument bounds the rounds by their number.\<close>

fun join_ranges :: "nat \<Rightarrow> u32 \<Rightarrow> control_stream \<Rightarrow> (u32 \<times> control_stream) option" where
  "join_ranges 0 endFrame s = Some (endFrame, s)"
| "join_ranges (Suc n) endFrame s = (case q_take Poll (invalidReferenceFrameTuples s) of
     (LBQ_SUCCESS, Some (_, e2), q) \<Rightarrow> do {
       LC_ASSERT (e2 \<ge> endFrame);
       join_ranges n e2 (s\<lparr>invalidReferenceFrameTuples := q\<rparr>) }
   | (_, _, q) \<Rightarrow> Some (endFrame, s\<lparr>invalidReferenceFrameTuples := q\<rparr>))"

definition invalidateRefFrames_round :: "control_env \<Rightarrow> control_stream \<Rightarrow> control_stream option" where
  "invalidateRefFrames_round e s =
     (if interrupted InvRefFrames s then Some s
      else case bq_step Wait (invalidReferenceFrameTuples s) of
        (Status LBQ_SUCCESS (Some (startFrame, endFrame)), q) \<Rightarrow> do {
          (endFrame, s) \<leftarrow> join_ranges (length (contents q)) endFrame (s\<lparr>invalidReferenceFrameTuples := q\<rparr>);
          requestInvalidateReferenceFrames e startFrame endFrame s }
      | (_, q) \<Rightarrow> Some (s\<lparr>invalidReferenceFrameTuples := q\<rparr>))"

definition requestIdrFrame_round :: "control_env \<Rightarrow> control_stream \<Rightarrow> control_stream option" where
  "requestIdrFrame_round e s =
     (if interrupted ReqIdrFrame s \<or> \<not> idrFrameRequired s then Some s
      else let s = s\<lparr>idrFrameRequired := False\<rparr> in
        if stopping s then Some s
        else requestIdrFrame e (s\<lparr>invalidReferenceFrameTuples := snd (bq_step Flush (invalidReferenceFrameTuples s))\<rparr>))"

section \<open>Loss statistics\<close>

definition SS_FRAME_FEC_PTYPE :: u16 where "SS_FRAME_FEC_PTYPE = 0x5502"
definition LOSS_REPORT_INTERVAL_MS :: nat where "LOSS_REPORT_INTERVAL_MS = 50"
definition PERIODIC_PING_INTERVAL_MS :: nat where "PERIODIC_PING_INTERVAL_MS = 100"

text \<open>The queued statuses are sent; \<open>False\<close> when a send failed.  The first argument bounds the rounds.\<close>

fun send_statuses :: "nat \<Rightarrow> control_env \<Rightarrow> control_stream \<Rightarrow> (bool \<times> control_stream) option" where
  "send_statuses 0 e s = Some (True, s)"
| "send_statuses (Suc n) e s = (case q_take Poll (frameFecStatusQueue s) of
     (LBQ_SUCCESS, Some f, q) \<Rightarrow> do {
       (ok, s) \<leftarrow> sendMessageEnet e SS_FRAME_FEC_PTYPE (length (fec_status_bytes f)) (fec_status_bytes f) CHANNEL_GENERIC
         FLAG_UNSEQUENCED (contents q \<noteq> []) (s\<lparr>frameFecStatusQueue := q\<rparr>);
       if ok then send_statuses n e s else Some (False, report_failure e s) }
   | (_, _, q) \<Rightarrow> Some (True, s\<lparr>frameFecStatusQueue := q\<rparr>))"

text \<open>Writing values one behind the other; the results of the writes are not looked at.\<close>

definition put16 :: "u16 \<Rightarrow> byte_buffer \<Rightarrow> byte_buffer option" where "put16 v bb = map_option snd (BbPut16 bb v)"
definition put32 :: "u32 \<Rightarrow> byte_buffer \<Rightarrow> byte_buffer option" where "put32 v bb = map_option snd (BbPut32 bb v)"
definition put64 :: "u64 \<Rightarrow> byte_buffer \<Rightarrow> byte_buffer option" where "put64 v bb = map_option snd (BbPut64 bb v)"

text \<open>The memory the payload is built in, with what it holds before.\<close>

definition periodic_ping_payload :: "u8 list \<Rightarrow> u8 list option" where
  "periodic_ping_payload memory = do {
     bb \<leftarrow> BbInitializeWrappedBuffer memory 0 8 BYTE_ORDER_LITTLE;
     bb \<leftarrow> put16 4 bb;
     bb \<leftarrow> put32 0 bb;
     Some (buffer bb) }"

definition loss_stats_payload :: "u8 list \<Rightarrow> control_stream \<Rightarrow> u8 list option" where
  "loss_stats_payload memory s = do {
     n \<leftarrow> length_at IDX_LOSS_STATS s;
     bb \<leftarrow> BbInitializeWrappedBuffer (take n memory) 0 (of_nat n) BYTE_ORDER_LITTLE;
     bb \<leftarrow> put32 0 bb;
     bb \<leftarrow> put32 (of_nat LOSS_REPORT_INTERVAL_MS) bb;
     bb \<leftarrow> put32 1000 bb;
     bb \<leftarrow> put64 (ucast (lastGoodFrame s)) bb;
     bb \<leftarrow> put32 0 bb;
     bb \<leftarrow> put32 0 bb;
     bb \<leftarrow> put32 0x14 bb;
     Some (buffer bb) }"

text \<open>The start of the thread and a round of it: whether it goes on.\<close>

definition lossStats_begin :: "control_env \<Rightarrow> control_stream \<Rightarrow> (bool \<times> control_stream) option" where
  "lossStats_begin e s =
     (if usePeriodicPing s then Some (True, s)
      else do {
        LC_ASSERT (\<not> IS_SUNSHINE (ce_version e));
        Some (if ce_malloc e then (True, s) else (False, clog (Terminated (- 1)) s)) })"

definition lossStats_round :: "control_env \<Rightarrow> u8 list \<Rightarrow> control_stream \<Rightarrow> (bool \<times> control_stream) option" where
  "lossStats_round e memory s =
     (if interrupted LossStats s then Some (False, s)
      else if usePeriodicPing s then do {
        p \<leftarrow> periodic_ping_payload (take 8 memory);
        (ok, s) \<leftarrow> (if IS_SUNSHINE (ce_version e) then do {
                      LC_ASSERT (enetPeer s);
                      send_statuses (length (contents (frameFecStatusQueue s))) e s }
                    else Some (True, s));
        if \<not> ok then Some (False, s)
        else do {
          (ok, s) \<leftarrow> sendMessageAndForget e 0x0200 8 p CHANNEL_GENERIC FLAG_RELIABLE False s;
          Some (if ok then (True, clog (SleepMs PERIODIC_PING_INTERVAL_MS) s) else (False, report_failure e s)) } }
      else do {
        p \<leftarrow> loss_stats_payload memory s;
        t \<leftarrow> type_at IDX_LOSS_STATS s;
        n \<leftarrow> length_at IDX_LOSS_STATS s;
        (ok, s) \<leftarrow> sendMessageAndForget e t n p CHANNEL_GENERIC 0 False s;
        Some (if ok then (True, clog (SleepMs LOSS_REPORT_INTERVAL_MS) s) else (False, report_failure e s)) })"

section \<open>Messages of the host\<close>

text \<open>
  Decryption, and the conversion of the header: the type and what follows the length.  The caller has read the
  length and the sequence number from the header.
\<close>

definition decryptControlMessageToV1 :: "control_env \<Rightarrow> u16 \<Rightarrow> u16 \<Rightarrow> u32 \<Rightarrow> u8 list \<Rightarrow> u8 list option option" where
  "decryptControlMessageToV1 e headerType len seq bytes = do {
     LC_ASSERT (headerType = 0x0001);
     LC_ASSERT (length bytes = unat len + 4);
     if length bytes < unat len + 4 then Some None
     else if unat len < 4 + AES_GCM_TAG_LENGTH + 4 then Some None
     else if \<not> ce_malloc e then Some None
     else do {
       let plaintextLength = unat len - 4 - AES_GCM_TAG_LENGTH;
       tag \<leftarrow> mem_read bytes 8 AES_GCM_TAG_LENGTH;
       ct \<leftarrow> mem_read bytes (8 + AES_GCM_TAG_LENGTH) plaintextLength;
       case gcm_open e (control_iv e HOST_ORIGIN seq) tag ct of
         None \<Rightarrow> Some None
       | Some plain \<Rightarrow> do {
           rest \<leftarrow> mem_read plain 4 (plaintextLength - 4);
           t \<leftarrow> mem_read plain 0 2;
           Some (Some (t @ rest)) } } }"

text \<open>The type of a message is an unsigned 16 bit number; the table holds \<open>short\<close>s; both are compared as \<open>int\<close>.\<close>

definition is_type :: "u16 \<Rightarrow> nat \<Rightarrow> control_stream \<Rightarrow> bool option" where
  "is_type t ix s = map_option (\<lambda>x. uint t = x) (nth_opt (packetTypes (variant s)) ix)"

text \<open>Disjunctions are evaluated from the left, and only as far as needed.\<close>

fun any_type :: "u16 \<Rightarrow> nat list \<Rightarrow> control_stream \<Rightarrow> bool option" where
  "any_type t [] s = Some False"
| "any_type t (ix # ixs) s = do { b \<leftarrow> is_type t ix s; if b then Some True else any_type t ixs s }"

definition needsAsyncCallback :: "u16 \<Rightarrow> control_stream \<Rightarrow> bool option" where
  "needsAsyncCallback t s = any_type t [IDX_RUMBLE_DATA, IDX_RUMBLE_TRIGGER_DATA, IDX_SET_MOTION_EVENT, IDX_SET_RGB_LED,
     IDX_HDR_INFO, IDX_DS_ADAPTIVE_TRIGGERS] s"

text \<open>Reading values; the results of the reads are not looked at.\<close>

definition get8 :: "byte_buffer \<Rightarrow> (u8 \<times> byte_buffer) option" where "get8 bb = map_option snd (BbGet8 bb)"
definition get16 :: "byte_buffer \<Rightarrow> (u16 \<times> byte_buffer) option" where "get16 bb = map_option snd (BbGet16 bb)"

definition DS_EFFECT_PAYLOAD_SIZE :: nat where "DS_EFFECT_PAYLOAD_SIZE = 10"

text \<open>The payload of a V1 message, wrapped.\<close>

definition wrap_payload :: "u8 list \<Rightarrow> u32 \<Rightarrow> byte_buffer option" where
  "wrap_payload msg order = BbInitializeWrappedBuffer msg 2 (of_nat (length msg) - 2) order"

definition parse_callback :: "u16 \<Rightarrow> byte_buffer \<Rightarrow> control_stream \<Rightarrow> async_callback option option" where
  "parse_callback t bb s = do {
     rumble \<leftarrow> is_type t IDX_RUMBLE_DATA s;
     triggers \<leftarrow> is_type t IDX_RUMBLE_TRIGGER_DATA s;
     motion \<leftarrow> is_type t IDX_SET_MOTION_EVENT s;
     led \<leftarrow> is_type t IDX_SET_RGB_LED s;
     hdr \<leftarrow> is_type t IDX_HDR_INFO s;
     if rumble then do {
       let bb = snd (BbAdvanceBuffer bb 4);
       (n, bb) \<leftarrow> get16 bb;
       (low, bb) \<leftarrow> get16 bb;
       (high, bb) \<leftarrow> get16 bb;
       Some (Some (RumbleData n low high)) }
     else if triggers then do {
       (n, bb) \<leftarrow> get16 bb;
       (l, bb) \<leftarrow> get16 bb;
       (r, bb) \<leftarrow> get16 bb;
       Some (Some (RumbleTriggers n l r)) }
     else if motion then do {
       (n, bb) \<leftarrow> get16 bb;
       (rate, bb) \<leftarrow> get16 bb;
       (mt, bb) \<leftarrow> get8 bb;
       Some (Some (SetMotionEvent n rate mt)) }
     else if led then do {
       (n, bb) \<leftarrow> get16 bb;
       (r, bb) \<leftarrow> get8 bb;
       (g, bb) \<leftarrow> get8 bb;
       (b, bb) \<leftarrow> get8 bb;
       Some (Some (SetRgbLed n r g b)) }
     else if hdr then Some (Some HdrInfo)
     else do {
       adaptive \<leftarrow> is_type t IDX_DS_ADAPTIVE_TRIGGERS s;
       if adaptive then do {
         (n, bb) \<leftarrow> get16 bb;
         (f, bb) \<leftarrow> get8 bb;
         (tl, bb) \<leftarrow> get8 bb;
         (tr, bb) \<leftarrow> get8 bb;
         (_, left, bb) \<leftarrow> BbGetBytes bb (of_nat DS_EFFECT_PAYLOAD_SIZE);
         (_, right, bb) \<leftarrow> BbGetBytes bb (of_nat DS_EFFECT_PAYLOAD_SIZE);
         Some (Some (AdaptiveTriggers n f tl tr left right)) }
       else do { LC_ASSERT False; Some None } } }"

definition queueAsyncCallback :: "control_env \<Rightarrow> u16 \<Rightarrow> u8 list \<Rightarrow> control_stream \<Rightarrow> control_stream option" where
  "queueAsyncCallback e t msg s = do {
     needed \<leftarrow> needsAsyncCallback t s;
     LC_ASSERT needed;
     if \<not> ce_malloc e then Some s
     else do {
       bb \<leftarrow> wrap_payload msg BYTE_ORDER_LITTLE;
       cb \<leftarrow> parse_callback t bb s;
       Some (case cb of None \<Rightarrow> s
         | Some c \<Rightarrow> s\<lparr>asyncCallbackQueue := snd (q_offer c (asyncCallbackQueue s))\<rparr>) } }"

definition get_pair :: "byte_buffer \<Rightarrow> ((u16 \<times> u16) \<times> byte_buffer) option" where
  "get_pair bb = do { (x, bb) \<leftarrow> get16 bb; (y, bb) \<leftarrow> get16 bb; Some ((x, y), bb) }"

definition parse_metadata :: "byte_buffer \<Rightarrow> hdr_metadata option" where
  "parse_metadata bb = do {
     (p0, bb) \<leftarrow> get_pair bb;
     (p1, bb) \<leftarrow> get_pair bb;
     (p2, bb) \<leftarrow> get_pair bb;
     (w, bb) \<leftarrow> get_pair bb;
     (a, bb) \<leftarrow> get16 bb;
     (b, bb) \<leftarrow> get16 bb;
     (c, bb) \<leftarrow> get16 bb;
     (d, bb) \<leftarrow> get16 bb;
     (f, bb) \<leftarrow> get16 bb;
     Some \<lparr>displayPrimaries = [p0, p1, p2], whitePoint = w, maxDisplayLuminance = a, minDisplayLuminance = b,
       maxContentLightLevel = c, maxFrameAverageLightLevel = d, maxFullFrameLuminance = f\<rparr> }"

definition process_hdr :: "control_env \<Rightarrow> u8 list \<Rightarrow> control_stream \<Rightarrow> control_stream option" where
  "process_hdr e msg s = do {
     bb \<leftarrow> wrap_payload msg BYTE_ORDER_LITTLE;
     (enableByte, bb) \<leftarrow> get8 bb;
     s \<leftarrow> (if IS_SUNSHINE (ce_version e) then map_option (\<lambda>m. s\<lparr>hdrMetadata := m\<rparr>) (parse_metadata bb) else Some s);
     Some (s\<lparr>hdrEnabled := (enableByte \<noteq> 0)\<rparr>) }"

definition ML_ERROR_GRACEFUL_TERMINATION :: int where "ML_ERROR_GRACEFUL_TERMINATION = 0"
definition ML_ERROR_UNEXPECTED_EARLY_TERMINATION :: int where "ML_ERROR_UNEXPECTED_EARLY_TERMINATION = - 102"
definition ML_ERROR_PROTECTED_CONTENT :: int where "ML_ERROR_PROTECTED_CONTENT = - 103"
definition ML_ERROR_FRAME_CONVERSION :: int where "ML_ERROR_FRAME_CONVERSION = - 104"

definition intended_termination :: "control_stream \<Rightarrow> int" where
  "intended_termination s = (if lastSeenFrame s \<noteq> 0 then ML_ERROR_GRACEFUL_TERMINATION else ML_ERROR_UNEXPECTED_EARLY_TERMINATION)"

definition termination_code :: "u8 list \<Rightarrow> control_stream \<Rightarrow> int option" where
  "termination_code msg s =
     (if length msg \<ge> 6 then do {
        bb \<leftarrow> wrap_payload msg BYTE_ORDER_BIG;
        (_, code, bb) \<leftarrow> BbGet32 bb;
        Some (if code = 0x800e9403 then ML_ERROR_FRAME_CONVERSION
          else if code = 0x800e9302 then ML_ERROR_PROTECTED_CONTENT
          else if code = 0x80030023 then intended_termination s
          else sint code) }
      else do {
        bb \<leftarrow> wrap_payload msg BYTE_ORDER_LITTLE;
        (reason, bb) \<leftarrow> get16 bb;
        Some (if reason = 0x0100 then intended_termination s else uint reason) })"

text \<open>A message whose header is in V1 form: whether the receive thread goes on.\<close>

definition process_message :: "control_env \<Rightarrow> u8 list \<Rightarrow> control_stream \<Rightarrow> (bool \<times> control_stream) option" where
  "process_message e msg s = do {
     bytes \<leftarrow> mem_read msg 0 2;
     let t = LE16 (of_le_bytes bytes);
     hdr \<leftarrow> is_type t IDX_HDR_INFO s;
     s \<leftarrow> (if hdr then process_hdr e msg s else Some s);
     needed \<leftarrow> needsAsyncCallback t s;
     if needed then map_option (\<lambda>s. (True, s)) (queueAsyncCallback e t msg s)
     else do {
       ending \<leftarrow> is_type t IDX_TERMINATION s;
       if ending then do {
         code \<leftarrow> termination_code msg s;
         Some (False, clog (Terminated code) (clog PeerDisconnected s)) }
       else Some (True, s) } }"

text \<open>The bytes of a received packet.\<close>

definition receive_packet :: "control_env \<Rightarrow> u8 list \<Rightarrow> control_stream \<Rightarrow> (bool \<times> control_stream) option" where
  "receive_packet e bytes s =
     (if length bytes < 2 then Some (True, s)
      else let t = LE16 (of_le_bytes (take 2 bytes)) in
        if controlEncrypted s then
          if t = 0x0001 then
            if length bytes < 8 then Some (True, s)
            else do {
              msg \<leftarrow> decryptControlMessageToV1 e t (LE16 (of_le_bytes (take 2 (drop 2 bytes))))
                (LE32 (of_le_bytes (take 4 (drop 4 bytes)))) bytes;
              case msg of None \<Rightarrow> Some (True, s) | Some m \<Rightarrow> process_message e m s }
          else Some (True, s)
        else process_message e bytes s)"

section \<open>Callbacks to the client\<close>

fun controller_of :: "async_callback \<Rightarrow> u16" where
  "controller_of (RumbleData n _ _) = n"
| "controller_of (RumbleTriggers n _ _) = n"
| "controller_of (SetMotionEvent n _ _) = n"
| "controller_of (SetRgbLed n _ _ _) = n"
| "controller_of (AdaptiveTriggers n _ _ _ _ _) = n"
| "controller_of HdrInfo = 0"

fun batches_with :: "async_callback \<Rightarrow> async_callback \<Rightarrow> bool" where
  "batches_with (RumbleData n _ _) (RumbleData m _ _) = (m = n)"
| "batches_with (RumbleTriggers n _ _) (RumbleTriggers m _ _) = (m = n)"
| "batches_with (SetRgbLed n _ _ _) (SetRgbLed m _ _ _) = (m = n)"
| "batches_with HdrInfo HdrInfo = True"
| "batches_with _ _ = False"

fun batch_callbacks :: "nat \<Rightarrow> async_callback \<Rightarrow> control_stream \<Rightarrow> async_callback \<times> control_stream" where
  "batch_callbacks 0 cb s = (cb, s)"
| "batch_callbacks (Suc n) cb s = (case q_take Peek (asyncCallbackQueue s) of
     (LBQ_SUCCESS, Some nextCb, _) \<Rightarrow>
       if \<not> batches_with cb nextCb then (cb, s)
       else (case q_take Poll (asyncCallbackQueue s) of
         (LBQ_SUCCESS, Some cb', q) \<Rightarrow> batch_callbacks n cb' (s\<lparr>asyncCallbackQueue := q\<rparr>)
       | _ \<Rightarrow> (cb, s))
   | _ \<Rightarrow> (cb, s))"

definition make_callback :: "async_callback \<Rightarrow> control_stream \<Rightarrow> control_stream" where
  "make_callback cb s = (case cb of HdrInfo \<Rightarrow> clog (MadeHdrCallback (hdrEnabled s)) s | _ \<Rightarrow> clog (MadeCallback cb) s)"

text \<open>A round of the thread: whether it goes on.\<close>

definition asyncCallback_round :: "control_stream \<Rightarrow> bool \<times> control_stream" where
  "asyncCallback_round s = (case bq_step Wait (asyncCallbackQueue s) of
     (Status LBQ_SUCCESS (Some cb), q) \<Rightarrow>
       let (cb, s) = batch_callbacks (length (contents q)) cb (s\<lparr>asyncCallbackQueue := q\<rparr>) in (True, make_callback cb s)
   | (Blocked, _) \<Rightarrow> (True, s)
   | (_, q) \<Rightarrow> (False, s\<lparr>asyncCallbackQueue := q\<rparr>))"

definition LiGetCurrentHostDisplayHdrMode :: "control_stream \<Rightarrow> bool" where
  "LiGetCurrentHostDisplayHdrMode s = hdrEnabled s"

definition LiGetHdrMetadata :: "control_env \<Rightarrow> control_stream \<Rightarrow> hdr_metadata option" where
  "LiGetHdrMetadata e s = (if \<not> IS_SUNSHINE (ce_version e) \<or> \<not> hdrEnabled s then None else Some (hdrMetadata s))"

section \<open>The receive thread\<close>

definition ENET_TIME_LESS :: "u32 \<Rightarrow> u32 \<Rightarrow> bool" where "ENET_TIME_LESS a b \<longleftrightarrow> a - b \<ge> 86400000"
definition ENET_TIME_DIFFERENCE :: "u32 \<Rightarrow> u32 \<Rightarrow> u32" where
  "ENET_TIME_DIFFERENCE a b = (if a - b \<ge> 86400000 then b - a else a - b)"

text \<open>The fields of the ENet peer and host that the thread reads.\<close>

record enet_times =
  nextTimeout :: u32
  serviceTime :: u32
  lastReceiveTime :: u32
  lastSendTime :: u32
  pingInterval :: u32

text \<open>How long the thread may sleep before a retransmission or a ping is due.\<close>

definition wait_time :: "enet_times \<Rightarrow> u32" where
  "wait_time p =
     (let w = (if ENET_TIME_LESS (nextTimeout p) (serviceTime p) then 10
               else ENET_TIME_DIFFERENCE (nextTimeout p) (serviceTime p) + 1)
      in if lastReceiveTime p \<noteq> 0 \<and> lastSendTime p \<noteq> 0 then
           let sinceRecv = ENET_TIME_DIFFERENCE (serviceTime p) (lastReceiveTime p);
               sinceSend = ENET_TIME_DIFFERENCE (serviceTime p) (lastSendTime p);
               sinceComm = min sinceSend sinceRecv
           in if sinceComm \<ge> pingInterval p then 0 else min w (pingInterval p - sinceComm)
         else min w (pingInterval p))"

text \<open>What servicing the host gives: nothing, an error, or an event.\<close>

datatype enet_event = NoEvent | Connected | Disconnected | Received "u8 list"
datatype serviced = Nothing_ready | Service_error | Service_event enet_event

text \<open>The interception of a disconnect: whether the packet is swallowed.\<close>

definition ignoreDisconnectIntercept :: "u8 list \<Rightarrow> control_stream \<Rightarrow> bool \<times> control_stream" where
  "ignoreDisconnectIntercept received s =
     (if length received = 12 \<and> (received ! 4) AND 0x0F = 4 then (True, s\<lparr>disconnectPending := True\<rparr>) else (False, s))"

text \<open>
  An iteration of the receive thread: whether it goes on.  The arguments are what ENet gives on the first
  and, when a disconnect is pending, on the second service of the host.
\<close>

definition handle_event :: "control_env \<Rightarrow> serviced \<Rightarrow> control_stream \<Rightarrow> (bool \<times> control_stream) option" where
  "handle_event e r s = (case r of
     Service_error \<Rightarrow> Some (False, report_failure e s)
   | Service_event (Received bytes) \<Rightarrow> receive_packet e bytes s
   | Service_event Disconnected \<Rightarrow> Some (False, clog (Terminated (- 1)) s)
   | _ \<Rightarrow> Some (True, s))"

definition controlReceive_round ::
  "control_env \<Rightarrow> enet_times \<Rightarrow> serviced \<Rightarrow> serviced \<Rightarrow> control_stream \<Rightarrow> (bool \<times> control_stream) option" where
  "controlReceive_round e p first second s =
     (if vq0 (ce_version e) < 5 \<or> interrupted ControlRecv s then Some (False, s)
      else if first = Nothing_ready then
        (if disconnectPending s then
           (if second = Nothing_ready then
              (if interceptSet s then Some (True, s\<lparr>interceptSet := False\<rparr>)
               else Some (False, clog (Terminated (- 1)) s))
            else handle_event e second s)
         else Some (True, clog (SocketWait (wait_time p)) s))
      else handle_event e first s)"

section \<open>Starting and stopping\<close>

text \<open>
  Joining a thread that cannot end blocks forever, which is \<open>None\<close>.  The calls of the transport return once
  the socket is shut down or the connection is marked as interrupted; then the receive and statistics
  threads end when they are interrupted, the others when what they wait for is signalled.
\<close>

definition transport_ends :: "control_stream \<Rightarrow> bool" where
  "transport_ends s = (if ctlSock s then sockShut s else connectionInterrupted s)"

definition can_end :: "ctl_thread \<Rightarrow> control_stream \<Rightarrow> bool" where
  "can_end t s = (case t of
     ControlRecv \<Rightarrow> interrupted ControlRecv s \<and> transport_ends s
   | LossStats \<Rightarrow> interrupted LossStats s \<and> transport_ends s
   | ReqIdrFrame \<Rightarrow> stopping s \<and> idrFrameRequired s \<and> transport_ends s
   | CtrlAsyncCb \<Rightarrow> closed (asyncCallbackQueue s) \<or> ending (asyncCallbackQueue s)
   | InvRefFrames \<Rightarrow> (closed (invalidReferenceFrameTuples s) \<or> ending (invalidReferenceFrameTuples s)) \<and> transport_ends s)"

definition interrupt_thread :: "ctl_thread \<Rightarrow> control_stream \<Rightarrow> control_stream" where
  "interrupt_thread t s = s\<lparr>ctl_interrupted := t # ctl_interrupted s\<rparr>"

definition join_thread :: "ctl_thread \<Rightarrow> control_stream \<Rightarrow> control_stream option" where
  "join_thread t s =
     (if t \<in> set (running s) \<and> can_end t s then Some (s\<lparr>running := removeAll t (running s)\<rparr>) else None)"

fun join_threads :: "ctl_thread list \<Rightarrow> control_stream \<Rightarrow> control_stream option" where
  "join_threads [] s = Some s"
| "join_threads (t # ts) s = do { s \<leftarrow> join_thread t s; join_threads ts s }"

definition stop_thread :: "ctl_thread \<Rightarrow> control_stream \<Rightarrow> control_stream option" where
  "stop_thread t s = join_thread t (interrupt_thread t s)"

fun stop_threads :: "ctl_thread list \<Rightarrow> control_stream \<Rightarrow> control_stream option" where
  "stop_threads [] s = Some s"
| "stop_threads (t # ts) s = do { s \<leftarrow> stop_thread t s; stop_threads ts s }"

text \<open>
  The end of every failure of the start: no more traffic, the threads created so far end, and the transport is
  given back.
\<close>

definition shut_transport :: "control_stream \<Rightarrow> control_stream" where
  "shut_transport s = (if ctlSock s then s\<lparr>sockShut := True\<rparr> else s\<lparr>connectionInterrupted := True\<rparr>)"

definition close_transport :: "control_stream \<Rightarrow> control_stream" where
  "close_transport s =
     (if ctlSock s then s\<lparr>ctlSock := False\<rparr>
      else (clog PeerDisconnected s)\<lparr>enetPeer := False, enetClient := False\<rparr>)"

definition fail_start :: "int \<Rightarrow> ctl_thread list \<Rightarrow> control_stream \<Rightarrow> (int \<times> control_stream) option" where
  "fail_start err threads s = do {
     s \<leftarrow> stop_threads threads (shut_transport s);
     Some (err, close_transport s) }"

definition spawn :: "ctl_thread \<Rightarrow> control_stream \<Rightarrow> control_stream" where
  "spawn t s = s\<lparr>running := t # running s, ctl_interrupted := removeAll t (ctl_interrupted s)\<rparr>"

text \<open>The connection of the transport: the error, or 0.\<close>

record start_env =
  ControlPortNumber :: u16
  host_create_ok :: bool
  host_connect_ok :: bool
  connect_result :: serviced
  tcp_connect_ok :: bool

definition ETIMEDOUT :: int where "ETIMEDOUT = 110"

fun event_type :: "enet_event \<Rightarrow> int" where
  "event_type NoEvent = 0"
| "event_type Connected = 1"
| "event_type Disconnected = 2"
| "event_type (Received _) = 3"

definition connect_error :: "control_env \<Rightarrow> start_env \<Rightarrow> int option" where
  "connect_error e b = (case connect_result b of
     Nothing_ready \<Rightarrow> Some ETIMEDOUT
   | Service_error \<Rightarrow> Some (LastSocketFail e)
   | Service_event ev \<Rightarrow>
       if LastSocketError e = 0 then do {
         LC_ASSERT (event_type ev \<noteq> 0);
         Some (if event_type ev \<noteq> 0 then event_type ev else LastSocketFail e) }
       else Some (LastSocketFail e))"

definition connect_transport :: "control_env \<Rightarrow> start_env \<Rightarrow> control_stream \<Rightarrow> (int \<times> control_stream) option" where
  "connect_transport e b s =
     (if vq0 (ce_version e) \<ge> 5 then do {
        LC_ASSERT (ControlPortNumber b \<noteq> 0);
        if \<not> host_create_ok b then Some (- 1, s\<lparr>stopping := True\<rparr>)
        else do {
          let s = s\<lparr>enetClient := True, interceptSet := True\<rparr>;
          if \<not> host_connect_ok b then Some (- 1, s\<lparr>stopping := True, enetClient := False\<rparr>)
          else if connect_result b \<noteq> Service_event Connected then do {
            err \<leftarrow> connect_error e b;
            Some (err, s\<lparr>stopping := True, enetPeer := False, enetClient := False\<rparr>) }
          else Some (0, clog EnetServiced (s\<lparr>enetPeer := True\<rparr>)) } }
      else do {
        LC_ASSERT (ControlPortNumber b = 0);
        if \<not> tcp_connect_ok b then Some (LastSocketFail e, s\<lparr>stopping := True\<rparr>)
        else Some (0, s\<lparr>ctlSock := True, sockShut := False\<rparr>) })"

text \<open>A start message.\<close>

definition send_start :: "control_env \<Rightarrow> nat \<Rightarrow> control_stream \<Rightarrow> (bool \<times> control_stream) option" where
  "send_start e ix s = do {
     t \<leftarrow> type_at ix s;
     n \<leftarrow> length_at ix s;
     p \<leftarrow> payload_at ix s;
     sendMessageAndDiscardReply e t n p CHANNEL_GENERIC FLAG_RELIABLE False s }"

definition stopping_now :: "control_stream \<Rightarrow> control_stream" where
  "stopping_now s = s\<lparr>stopping := True\<rparr>"

definition stopping_wake :: "control_stream \<Rightarrow> control_stream" where
  "stopping_wake s = s\<lparr>stopping := True, idrFrameRequired := True\<rparr>"

definition stopping_wake_all :: "control_stream \<Rightarrow> control_stream" where
  "stopping_wake_all s = (stopping_wake s)\<lparr>asyncCallbackQueue := snd (bq_step Shutdown (asyncCallbackQueue s))\<rparr>"

definition start_rfi_thread :: "control_env \<Rightarrow> control_stream \<Rightarrow> (int \<times> control_stream) option" where
  "start_rfi_thread e s = do {
     rfi \<leftarrow> isReferenceFrameInvalidationEnabled e;
     if \<not> rfi then Some (0, s)
     else if create_thread e InvRefFrames \<noteq> 0 then
       fail_start (create_thread e InvRefFrames) [LossStats, ControlRecv, ReqIdrFrame, CtrlAsyncCb] (stopping_wake_all s)
     else Some (0, spawn InvRefFrames s) }"

definition start_threads :: "control_env \<Rightarrow> control_stream \<Rightarrow> (int \<times> control_stream) option" where
  "start_threads e s =
     (if create_thread e LossStats \<noteq> 0 then fail_start (create_thread e LossStats) [ControlRecv] (stopping_now s)
      else let s = spawn LossStats s in
      if create_thread e ReqIdrFrame \<noteq> 0 then fail_start (create_thread e ReqIdrFrame) [LossStats, ControlRecv] (stopping_now s)
      else let s = spawn ReqIdrFrame s in
      if create_thread e CtrlAsyncCb \<noteq> 0
      then fail_start (create_thread e CtrlAsyncCb) [LossStats, ControlRecv, ReqIdrFrame] (stopping_wake s)
      else start_rfi_thread e (spawn CtrlAsyncCb s))"

definition start_messages :: "control_env \<Rightarrow> control_stream \<Rightarrow> (int \<times> control_stream) option" where
  "start_messages e s = do {
     (ok, s) \<leftarrow> send_start e IDX_START_A s;
     if \<not> ok then fail_start (LastSocketFail e) [ControlRecv] (stopping_now s)
     else do {
       (ok, s) \<leftarrow> send_start e IDX_START_B s;
       if \<not> ok then fail_start (LastSocketFail e) [ControlRecv] (stopping_now s)
       else start_threads e s } }"

definition startControlStream :: "control_env \<Rightarrow> start_env \<Rightarrow> control_stream \<Rightarrow> (int \<times> control_stream) option" where
  "startControlStream e b s = do {
     (err, s) \<leftarrow> connect_transport e b s;
     if err \<noteq> 0 then Some (err, s)
     else if create_thread e ControlRecv \<noteq> 0 then Some (create_thread e ControlRecv, close_transport (stopping_now s))
     else start_messages e (spawn ControlRecv s) }"

definition signal_stop :: "control_stream \<Rightarrow> control_stream" where
  "signal_stop s = s\<lparr>stopping := True, invalidReferenceFrameTuples := snd (bq_step Shutdown (invalidReferenceFrameTuples s)),
     frameFecStatusQueue := snd (bq_step Shutdown (frameFecStatusQueue s)),
     asyncCallbackQueue := snd (bq_step Drain (asyncCallbackQueue s)), idrFrameRequired := True\<rparr>"

definition shut_socket :: "control_stream \<Rightarrow> control_stream" where
  "shut_socket s = (if ctlSock s then s\<lparr>sockShut := True\<rparr> else s)"

definition stopControlStream :: "control_env \<Rightarrow> control_stream \<Rightarrow> control_stream option" where
  "stopControlStream e s = do {
     let s = signal_stop s;
     LC_ASSERT (connectionInterrupted s);
     let s = shut_socket s;
     let s = interrupt_thread CtrlAsyncCb (interrupt_thread ControlRecv (interrupt_thread ReqIdrFrame (interrupt_thread LossStats s)));
     s \<leftarrow> join_threads [LossStats, ReqIdrFrame, ControlRecv, CtrlAsyncCb] s;
     rfi \<leftarrow> isReferenceFrameInvalidationEnabled e;
     s \<leftarrow> (if rfi then stop_thread InvRefFrames s else Some s);
     let s = (if enetPeer s then (clog PeerLingered s)\<lparr>enetPeer := False\<rparr> else s);
     Some (s\<lparr>enetClient := False, ctlSock := False\<rparr>) }"

end
