(* ===== verification/ControlHistory.thy ===== *)
theory ControlHistory
  imports ControlStream "HOL-Library.Sublist"
begin

text \<open>
  Histories of the control stream: an operation is a call, a round of a thread or an event of the host, and
  takes the environment it meets.  The lemmas say what sending leaves alone, account for the initialization
  vectors that are used, and follow the frame losses from their report to the request that covers them.
\<close>

section \<open>Operations and histories\<close>

datatype control_op =
  ReportLoss u32 u32
| ReportComplete u32
| ReportFec fec_status
| SawFrame u32
| RequestIdr
| InvalidateRound
| IdrRound
| LossRound "u8 list"
| AsyncRound
| ReceiveRound enet_times serviced serviced
| SendInput "u8 list" nat u8 u32 bool
| FlushInput
| StartStream start_env
| StopStream

fun control_step :: "control_env \<Rightarrow> control_op \<Rightarrow> control_stream \<Rightarrow> control_stream option" where
  "control_step e (ReportLoss a b) s = connectionDetectedFrameLoss e a b s"
| "control_step e (ReportComplete f) s = Some (connectionReceivedCompleteFrame f s)"
| "control_step e (ReportFec f) s = Some (connectionSendFrameFecStatus e f s)"
| "control_step e (SawFrame f) s = connectionSawFrame e f s"
| "control_step e RequestIdr s = Some (LiRequestIdrFrame s)"
| "control_step e InvalidateRound s = invalidateRefFrames_round e s"
| "control_step e IdrRound s = requestIdrFrame_round e s"
| "control_step e (LossRound memory) s = map_option snd (lossStats_round e memory s)"
| "control_step e AsyncRound s = Some (snd (asyncCallback_round s))"
| "control_step e (ReceiveRound p first second) s = map_option snd (controlReceive_round e p first second s)"
| "control_step e (SendInput bytes len channel flags more_data) s =
     map_option snd (sendInputPacketOnControlStream e bytes len channel flags more_data s)"
| "control_step e FlushInput s = Some (flushInputOnControlStream e s)"
| "control_step e (StartStream b) s = map_option snd (startControlStream e b s)"
| "control_step e StopStream s = stopControlStream e s"

fun control_run :: "(control_env \<times> control_op) list \<Rightarrow> control_stream \<Rightarrow> control_stream option" where
  "control_run [] s = Some s"
| "control_run ((e, op) # ops) s = do { s \<leftarrow> control_step e op s; control_run ops s }"

lemma control_run_append: "control_run (xs @ ys) s = do { s \<leftarrow> control_run xs s; control_run ys s }"
  by (induction xs arbitrary: s) (auto split: Option.bind_split)

section \<open>What sending leaves alone\<close>

fun seal_of :: "control_event \<Rightarrow> u8 list list" where
  "seal_of (Sealed iv) = [iv]"
| "seal_of _ = []"

definition seals :: "control_event list \<Rightarrow> u8 list list" where
  "seals evs = concat (map seal_of evs)"

fun status_of :: "control_event \<Rightarrow> int list" where
  "status_of (StatusUpdate x) = [x]"
| "status_of _ = []"

definition status_updates :: "control_event list \<Rightarrow> int list" where
  "status_updates evs = concat (map status_of evs)"

lemma events_simps [simp]:
  "seals [] = []" "seals (ev # evs) = seal_of ev @ seals evs" "seals (xs @ ys) = seals xs @ seals ys"
  "status_updates [] = []" "status_updates (ev # evs) = status_of ev @ status_updates evs"
  "status_updates (xs @ ys) = status_updates xs @ status_updates ys"
  by (simp_all add: seals_def status_updates_def)

text \<open>The vectors of the next \<open>n\<close> messages.\<close>

definition ivs :: "control_env \<Rightarrow> u32 \<Rightarrow> nat \<Rightarrow> u8 list list" where
  "ivs e seq n = map (\<lambda>i. control_iv e CLIENT_ORIGIN (seq + of_nat i)) [0..<n]"

lemma ivs_0 [simp]: "ivs e seq 0 = []"
  by (simp add: ivs_def)

lemma ivs_1: "ivs e seq (Suc 0) = [control_iv e CLIENT_ORIGIN seq]"
  by (simp add: ivs_def)

lemma ivs_append: "ivs e seq m @ ivs e (seq + of_nat m) n = ivs e seq (m + n)"
proof -
  have "map (\<lambda>i. control_iv e CLIENT_ORIGIN (seq + of_nat i)) [m..<m + n]
      = map (\<lambda>i. control_iv e CLIENT_ORIGIN (seq + of_nat m + of_nat i)) [0..<n]"
    by (rule nth_equalityI) (simp_all add: add.assoc)
  moreover have "[0..<m + n] = [0..<m] @ [m..<m + n]" by (rule upt_add_eq_append) simp
  ultimately show ?thesis by (simp only: ivs_def map_append)
qed

text \<open>Whatever the component does, the trace only grows, and the vectors in it follow the sequence number.\<close>

definition moves :: "control_env \<Rightarrow> control_stream \<Rightarrow> control_stream \<Rightarrow> bool" where
  "moves e s s' \<longleftrightarrow> (\<exists>evs n. ctl_trace s' = ctl_trace s @ evs \<and> seals evs = ivs e (currentEnetSequenceNumber s) n
     \<and> currentEnetSequenceNumber s' = currentEnetSequenceNumber s + of_nat n)
     \<and> (stopping s \<longrightarrow> stopping s')"

text \<open>Nothing is told of the connection's status.\<close>

definition silent_status :: "control_stream \<Rightarrow> control_stream \<Rightarrow> bool" where
  "silent_status s s' \<longleftrightarrow> lastConnectionStatusUpdate s' = lastConnectionStatusUpdate s
     \<and> status_updates (ctl_trace s') = status_updates (ctl_trace s)"

text \<open>The requests that wait are the same, an IDR request apart that is added.\<close>

definition same_requests :: "control_stream \<Rightarrow> control_stream \<Rightarrow> bool" where
  "same_requests s s' \<longleftrightarrow> invalidReferenceFrameTuples s' = invalidReferenceFrameTuples s
     \<and> (idrFrameRequired s \<longrightarrow> idrFrameRequired s') \<and> variant s' = variant s"

definition goes :: "control_env \<Rightarrow> control_stream \<Rightarrow> control_stream \<Rightarrow> bool" where
  "goes e s s' \<longleftrightarrow> moves e s s' \<and> silent_status s s' \<and> same_requests s s'"

lemma moves_refl [simp]: "moves e s s"
  unfolding moves_def by (rule conjI, rule exI [of _ "[]"], rule exI [of _ 0]) simp_all

lemma moves_trans:
  assumes "moves e s t" "moves e t u"
  shows "moves e s u"
proof -
  obtain evs n where 1: "ctl_trace t = ctl_trace s @ evs" "seals evs = ivs e (currentEnetSequenceNumber s) n"
    "currentEnetSequenceNumber t = currentEnetSequenceNumber s + of_nat n" "stopping s \<longrightarrow> stopping t"
    using assms(1) by (auto simp: moves_def)
  obtain evs' n' where 2: "ctl_trace u = ctl_trace t @ evs'" "seals evs' = ivs e (currentEnetSequenceNumber t) n'"
    "currentEnetSequenceNumber u = currentEnetSequenceNumber t + of_nat n'" "stopping t \<longrightarrow> stopping u"
    using assms(2) by (auto simp: moves_def)
  have "seals (evs @ evs') = ivs e (currentEnetSequenceNumber s) (n + n')"
    using 1 2 by (simp add: ivs_append)
  then show ?thesis using 1 2 unfolding moves_def
    by (intro conjI exI [of _ "evs @ evs'"] exI [of _ "n + n'"]) simp_all
qed

lemma goes_refl [simp]: "goes e s s"
  by (simp add: goes_def silent_status_def same_requests_def)

lemma goes_trans: "goes e s t \<Longrightarrow> goes e t u \<Longrightarrow> goes e s u"
  using moves_trans by (auto simp: goes_def silent_status_def same_requests_def)

lemma goes_clog:
  assumes "seal_of ev = []" "status_of ev = []"
  shows "goes e s (clog ev s)"
proof -
  have "moves e s (clog ev s)" unfolding moves_def
    by (rule conjI, rule exI [of _ "[ev]"], rule exI [of _ 0]) (simp_all add: clog_def assms)
  then show ?thesis by (simp add: goes_def silent_status_def same_requests_def clog_def assms)
qed

lemma goes_clog_after: "goes e s t \<Longrightarrow> seal_of ev = [] \<Longrightarrow> status_of ev = [] \<Longrightarrow> goes e s (clog ev t)"
  by (rule goes_trans [OF _ goes_clog])

text \<open>The other fields play no part.\<close>

lemma goes_fields:
  assumes "ctl_trace s' = ctl_trace s" "currentEnetSequenceNumber s' = currentEnetSequenceNumber s"
    "lastConnectionStatusUpdate s' = lastConnectionStatusUpdate s" "invalidReferenceFrameTuples s' = invalidReferenceFrameTuples s"
    "idrFrameRequired s \<Longrightarrow> idrFrameRequired s'" "stopping s \<Longrightarrow> stopping s'" "variant s' = variant s"
  shows "goes e s s'"
proof -
  have "moves e s s'" unfolding moves_def
    by (rule conjI, rule exI [of _ "[]"], rule exI [of _ 0]) (use assms in simp_all)
  then show ?thesis using assms by (simp add: goes_def silent_status_def same_requests_def)
qed

lemma wait_until_sent_goes: "goes e s (snd (wait_until_sent n e err s))"
proof (induction n arbitrary: err s)
  case 0
  show ?case by simp
next
  case (Suc n)
  let ?t = "clog EnetServiced (clog (SleepMs 1) s)"
  have "goes e s ?t" by (intro goes_clog_after goes_refl) simp_all
  then show ?case
    using goes_trans [OF _ Suc [of ?t "host_service e (ctl_trace ?t)"]] by (auto simp: Let_def)
qed

lemma hand_to_enet_goes: "goes e s (snd (hand_to_enet e bytes channel flags more_data s))"
proof -
  have "goes e s (clog EnetServiced (clog (EnetQueued bytes c flags) s))" for c
    by (intro goes_clog_after goes_refl) simp_all
  moreover have "goes e s (clog (EnetQueued bytes c flags) s)" for c
    by (intro goes_clog_after goes_refl) simp_all
  ultimately show ?thesis
    using goes_trans wait_until_sent_goes
    by (fastforce simp: hand_to_enet_def Let_def split_beta)
qed

lemma seal_goes:
  "goes e s (clog (Sealed (control_iv e CLIENT_ORIGIN (currentEnetSequenceNumber s)))
     (s\<lparr>currentEnetSequenceNumber := currentEnetSequenceNumber s + 1\<rparr>))" (is "goes e s ?t")
proof -
  have "moves e s ?t" unfolding moves_def
    by (rule conjI, rule exI [of _ "[Sealed (control_iv e CLIENT_ORIGIN (currentEnetSequenceNumber s))]"],
      rule exI [of _ "Suc 0"]) (simp_all add: clog_def ivs_1)
  then show ?thesis by (simp add: goes_def silent_status_def same_requests_def clog_def)
qed

lemma sendMessageEnet_goes:
  assumes "sendMessageEnet e t n p channel flags more_data s = Some (ok, s')"
  shows "goes e s s'"
proof -
  have h: "goes e s r" if "Some (hand_to_enet e bytes c f m u) = Some (ok', r)" "goes e s u" for bytes c f m u ok' r
    using hand_to_enet_goes [of e u bytes c f m] goes_trans [OF that(2)] that(1) by simp
  show ?thesis
    using assms h seal_goes [of e s]
    by (auto simp: sendMessageEnet_def Let_def bind_eq_Some_conv split: if_splits option.splits)
qed

lemma sendMessageTcp_goes:
  assumes "sendMessageTcp e t n p s = Some (ok, s')"
  shows "goes e s s'"
  using assms by (auto simp: sendMessageTcp_def Let_def bind_eq_Some_conv intro!: goes_clog split: if_splits)

lemma sendMessageAndForget_goes: "sendMessageAndForget e t n p c f m s = Some (ok, s') \<Longrightarrow> goes e s s'"
  by (auto simp: sendMessageAndForget_def intro: sendMessageEnet_goes sendMessageTcp_goes split: if_splits)

lemma sendMessageAndDiscardReply_goes:
  assumes "sendMessageAndDiscardReply e t n p c f m s = Some (ok, s')"
  shows "goes e s s'"
  using assms sendMessageTcp_goes goes_clog_after
  by (auto simp: sendMessageAndDiscardReply_def bind_eq_Some_conv split: if_splits intro: sendMessageEnet_goes)

section \<open>Operations that leave the requests alone\<close>

lemma send_statuses_goes: "send_statuses n e s = Some (ok, s') \<Longrightarrow> goes e s s'"
proof (induction n arbitrary: s ok s')
  case 0
  then show ?case by simp
next
  case (Suc n)
  obtain st d q where q: "q_take Poll (frameFecStatusQueue s) = (st, d, q)" by (rule prod_cases3)
  let ?t = "s\<lparr>frameFecStatusQueue := q\<rparr>"
  have t: "goes e s ?t" by (rule goes_fields) simp_all
  show ?case
  proof (cases "st = LBQ_SUCCESS \<and> d \<noteq> None")
    case True
    then obtain f ok1 u where u: "sendMessageEnet e SS_FRAME_FEC_PTYPE (length (fec_status_bytes f)) (fec_status_bytes f)
        CHANNEL_GENERIC FLAG_UNSEQUENCED (contents q \<noteq> []) ?t = Some (ok1, u)"
      and rest: "(if ok1 then send_statuses n e u else Some (False, report_failure e u)) = Some (ok, s')"
      using Suc.prems q by (auto simp: bind_eq_Some_conv)
    have "goes e s u" by (rule goes_trans [OF t sendMessageEnet_goes [OF u]])
    then show ?thesis
      using rest Suc.IH goes_trans by (auto simp: report_failure_def intro!: goes_clog_after split: if_splits)
  next
    case False
    then have "s' = ?t" using Suc.prems q by (cases st; cases d) auto
    then show ?thesis using t by simp
  qed
qed

text \<open>A computation that gives a result and a state.\<close>

definition goes_with :: "control_env \<Rightarrow> control_stream \<Rightarrow> ('a \<times> control_stream) option \<Rightarrow> bool" where
  "goes_with e s m \<longleftrightarrow> (\<forall>a t. m = Some (a, t) \<longrightarrow> goes e s t)"

lemma goes_with_bind: "goes_with e s m \<Longrightarrow> (\<And>a t. goes_with e t (k a t)) \<Longrightarrow> goes_with e s (do { (a, t) \<leftarrow> m; k a t })"
  by (auto simp: goes_with_def bind_eq_Some_conv intro: goes_trans)

lemma goes_with_value: "(\<And>x. goes_with e s (k x)) \<Longrightarrow> goes_with e s (do { x \<leftarrow> m; k x })"
  by (auto simp: goes_with_def bind_eq_Some_conv)

lemma goes_with_Some: "goes e s t \<Longrightarrow> goes_with e s (Some (a, t))"
  by (simp add: goes_with_def)

lemma goes_with_None: "goes_with e s None"
  by (simp add: goes_with_def)

lemma goes_with_if: "(c \<Longrightarrow> goes_with e s x) \<Longrightarrow> (\<not> c \<Longrightarrow> goes_with e s y) \<Longrightarrow> goes_with e s (if c then x else y)"
  by simp

lemma goes_with_if_pair:
  "(c \<Longrightarrow> goes e s t) \<Longrightarrow> (\<not> c \<Longrightarrow> goes e s u) \<Longrightarrow> goes_with e s (Some (if c then (a, t) else (b, u)))"
  by (simp add: goes_with_def)

lemma goes_with_sends:
  "goes_with e s (sendMessageEnet e t n p c f m s)" "goes_with e s (sendMessageAndForget e t n p c f m s)"
  "goes_with e s (sendMessageAndDiscardReply e t n p c f m s)" "goes_with e s (send_statuses k e s)"
  using sendMessageEnet_goes sendMessageAndForget_goes sendMessageAndDiscardReply_goes send_statuses_goes
  by (auto simp: goes_with_def)

lemma terminated_goes: "goes e s (report_failure e s)"
  by (simp add: report_failure_def goes_clog)

lemmas goes_with_intros = goes_with_if_pair goes_with_Some goes_with_None goes_with_if goes_with_bind goes_with_value
  goes_with_sends terminated_goes goes_refl

lemma lossStats_round_goes: "goes_with e s (lossStats_round e memory s)"
  unfolding lossStats_round_def
  by (intro goes_with_intros goes_clog) simp_all

lemma batch_callbacks_goes: "goes e s (snd (batch_callbacks n cb s))"
proof (induction n arbitrary: cb s)
  case 0
  show ?case by simp
next
  case (Suc n)
  have "goes e s (s\<lparr>asyncCallbackQueue := q\<rparr>)" for q by (rule goes_fields) simp_all
  then show ?case using goes_trans [OF _ Suc]
    by (auto split: prod.split lbq_status.split option.split)
qed

lemma asyncCallback_round_goes: "goes e s (snd (asyncCallback_round s))"
proof -
  have q: "goes e s (s\<lparr>asyncCallbackQueue := q\<rparr>)" for q by (rule goes_fields) simp_all
  have m: "goes e t (make_callback cb t)" for cb t
    by (cases cb) (auto simp: make_callback_def intro!: goes_clog)
  show ?thesis
    using q m goes_trans [OF q goes_trans [OF batch_callbacks_goes m]]
    by (auto simp: asyncCallback_round_def Let_def split_beta split: lbq_out.split lbq_status.split option.split prod.split)
qed

lemma process_hdr_goes: "process_hdr e msg s = Some s' \<Longrightarrow> goes e s s'"
  by (auto simp: process_hdr_def bind_eq_Some_conv split: if_splits intro!: goes_fields)

lemma queueAsyncCallback_goes: "queueAsyncCallback e t msg s = Some s' \<Longrightarrow> goes e s s'"
  by (auto simp: queueAsyncCallback_def bind_eq_Some_conv split: if_splits option.splits intro!: goes_fields)

lemma goes_with_state: "(\<And>t. m = Some t \<Longrightarrow> goes e s t) \<Longrightarrow> (\<And>t. goes_with e t (k t)) \<Longrightarrow> goes_with e s (do { t \<leftarrow> m; k t })"
  by (auto simp: goes_with_def bind_eq_Some_conv intro: goes_trans)

lemma process_message_goes: "goes_with e s (process_message e msg s)"
proof -
  have q: "goes_with e s (map_option (\<lambda>s. (True, s)) (queueAsyncCallback e t msg s))" for t s
    by (auto simp: goes_with_def intro: queueAsyncCallback_goes)
  have h: "(if hdr then process_hdr e msg s else Some s) = Some t \<Longrightarrow> goes e s t" for hdr t s
    by (auto split: if_splits intro: process_hdr_goes)
  show ?thesis unfolding process_message_def Let_def
    by (rule goes_with_value, rule goes_with_value, rule goes_with_state, erule h)
      (intro goes_with_intros q goes_clog_after goes_clog; simp)
qed

lemma receive_packet_goes: "receive_packet e bytes s = Some (ok, s') \<Longrightarrow> goes e s s'"
  by (auto simp: receive_packet_def Let_def bind_eq_Some_conv split: if_splits option.splits intro: process_message_goes [unfolded goes_with_def, rule_format])

lemma handle_event_goes: "handle_event e r s = Some (ok, s') \<Longrightarrow> goes e s s'"
  by (auto simp: handle_event_def report_failure_def split: serviced.splits enet_event.splits
      intro: receive_packet_goes intro!: goes_clog)

lemma controlReceive_round_goes:
  assumes "controlReceive_round e p first second s = Some (ok, s')"
  shows "goes e s s'"
proof -
  have "goes e s (s\<lparr>interceptSet := False\<rparr>)" by (rule goes_fields) simp_all
  then show ?thesis
    using assms handle_event_goes
    by (auto simp: controlReceive_round_def split: if_splits intro!: goes_clog)
qed

section \<open>Starting and stopping\<close>

lemma interrupt_thread_goes: "goes e s (interrupt_thread t s)"
  by (rule goes_fields) (simp_all add: interrupt_thread_def)

lemma join_thread_goes: "join_thread t s = Some s' \<Longrightarrow> goes e s s'"
  by (auto simp: join_thread_def split: if_splits intro!: goes_fields)

lemma stop_thread_goes: "stop_thread t s = Some s' \<Longrightarrow> goes e s s'"
  unfolding stop_thread_def by (rule goes_trans [OF interrupt_thread_goes join_thread_goes])

lemma join_threads_goes: "join_threads ts s = Some s' \<Longrightarrow> goes e s s'"
  by (induction ts arbitrary: s) (auto simp: bind_eq_Some_conv intro: goes_trans join_thread_goes)

lemma stop_threads_goes: "stop_threads ts s = Some s' \<Longrightarrow> goes e s s'"
  by (induction ts arbitrary: s) (auto simp: bind_eq_Some_conv intro: goes_trans stop_thread_goes)

lemma transport_goes: "goes e s (shut_transport s)" "goes e s (close_transport s)" "goes e s (spawn t s)"
  "goes e s (stopping_now s)" "goes e s (stopping_wake s)" "goes e s (stopping_wake_all s)"
proof -
  show "goes e s (shut_transport s)" by (rule goes_fields) (simp_all add: shut_transport_def)
  show "goes e s (spawn t s)" by (rule goes_fields) (simp_all add: spawn_def)
  show "goes e s (stopping_now s)" by (rule goes_fields) (simp_all add: stopping_now_def)
  show "goes e s (stopping_wake s)" by (rule goes_fields) (simp_all add: stopping_wake_def)
  show "goes e s (stopping_wake_all s)" by (rule goes_fields) (simp_all add: stopping_wake_all_def stopping_wake_def)
  have "goes e s (clog PeerDisconnected s)" by (rule goes_clog) simp_all
  moreover have "goes e t (t\<lparr>enetPeer := False, enetClient := False\<rparr>)" for t by (rule goes_fields) simp_all
  ultimately have "goes e s ((clog PeerDisconnected s)\<lparr>enetPeer := False, enetClient := False\<rparr>)" by (rule goes_trans)
  moreover have "goes e s (s\<lparr>ctlSock := False\<rparr>)" by (rule goes_fields) simp_all
  ultimately show "goes e s (close_transport s)" by (simp add: close_transport_def)
qed

lemma fail_start_goes:
  assumes "goes e s t"
  shows "goes_with e s (fail_start err threads t)"
proof (unfold goes_with_def, intro allI impI)
  fix a u assume "fail_start err threads t = Some (a, u)"
  then obtain v where v: "stop_threads threads (shut_transport t) = Some v" "u = close_transport v"
    by (auto simp: fail_start_def)
  have "goes e s v" by (rule goes_trans [OF assms goes_trans [OF transport_goes(1) stop_threads_goes [OF v(1)]]])
  then show "goes e s u" unfolding v(2) by (rule goes_trans [OF _ transport_goes(2)])
qed

lemma connect_transport_goes: "goes_with e s (connect_transport e b s)"
proof -
  have f: "goes e s (s\<lparr>stopping := True\<rparr>)" "goes e s (s\<lparr>ctlSock := True, sockShut := False\<rparr>)"
    "goes e s (s\<lparr>enetClient := True, interceptSet := True, stopping := True, enetClient := False\<rparr>)"
    "goes e s (s\<lparr>enetClient := True, interceptSet := True, stopping := True, enetPeer := False, enetClient := False\<rparr>)"
    "goes e s (s\<lparr>enetClient := True, interceptSet := True, enetPeer := True\<rparr>)"
    by (rule goes_fields; simp)+
  then show ?thesis unfolding connect_transport_def Let_def
    by (intro goes_with_intros goes_clog_after; simp)
qed

lemma send_start_goes: "goes_with e s (send_start e ix s)"
  unfolding send_start_def by (intro goes_with_intros)

lemma start_rfi_thread_goes: "goes_with e s (start_rfi_thread e s)"
  unfolding start_rfi_thread_def by (intro goes_with_intros fail_start_goes transport_goes)

lemma goes_with_from: "goes e s t \<Longrightarrow> goes_with e t m \<Longrightarrow> goes_with e s m"
  by (auto simp: goes_with_def intro: goes_trans)

lemma start_threads_goes: "goes_with e s (start_threads e s)"
proof -
  let ?a = "spawn LossStats s"
  let ?b = "spawn ReqIdrFrame ?a"
  let ?c = "spawn CtrlAsyncCb ?b"
  have a: "goes e s ?a" by (rule transport_goes)
  have b: "goes e s ?b" by (rule goes_trans [OF a transport_goes(3)])
  have c: "goes e s ?c" by (rule goes_trans [OF b transport_goes(3)])
  show ?thesis unfolding start_threads_def Let_def
    by (intro goes_with_if)
      (rule fail_start_goes transport_goes(4) goes_trans [OF a transport_goes(4)] goes_trans [OF b transport_goes(5)]
        goes_with_from [OF c start_rfi_thread_goes])+
qed

lemma start_messages_goes: "goes_with e s (start_messages e s)"
  unfolding start_messages_def
  by (intro goes_with_bind goes_with_if send_start_goes fail_start_goes transport_goes start_threads_goes)

lemma startControlStream_goes: "goes_with e s (startControlStream e b s)"
  unfolding startControlStream_def
  by (intro goes_with_bind goes_with_if connect_transport_goes goes_with_Some goes_refl
      goes_trans [OF transport_goes(4) transport_goes(2)] goes_with_from [OF transport_goes(3) start_messages_goes])

lemma stopControlStream_moves:
  assumes "stopControlStream e s = Some s'"
  shows "moves e s s' \<and> silent_status s s' \<and> stopping s' \<and> variant s' = variant s
    \<and> contents (invalidReferenceFrameTuples s') = contents (invalidReferenceFrameTuples s)"
proof -
  let ?t = "signal_stop s"
  have "goes e s (s\<lparr>stopping := True, frameFecStatusQueue := f, asyncCallbackQueue := a, idrFrameRequired := True\<rparr>)" for f a
    by (rule goes_fields) simp_all
  then have t: "moves e s ?t" "silent_status s ?t" "stopping ?t" "variant ?t = variant s"
    "contents (invalidReferenceFrameTuples ?t) = contents (invalidReferenceFrameTuples s)"
    by (auto simp: goes_def moves_def silent_status_def signal_stop_def)
  have shut: "goes e t (shut_socket t)" for t by (rule goes_fields) (simp_all add: shut_socket_def)
  have join: "goes e t (t\<lparr>enetClient := False, ctlSock := False\<rparr>)" for t by (rule goes_fields) simp_all
  have linger: "goes e t ((clog PeerLingered t)\<lparr>enetPeer := False\<rparr>)" for t
    by (rule goes_trans [OF goes_clog [of PeerLingered]]) (auto intro!: goes_fields)
  let ?i = "interrupt_thread CtrlAsyncCb (interrupt_thread ControlRecv (interrupt_thread ReqIdrFrame
    (interrupt_thread LossStats (shut_socket ?t))))"
  obtain v w rfi where v: "join_threads [LossStats, ReqIdrFrame, ControlRecv, CtrlAsyncCb] ?i = Some v"
    and w: "(if rfi then stop_thread InvRefFrames v else Some v) = Some w"
    and s': "s' = (if enetPeer w then (clog PeerLingered w)\<lparr>enetPeer := False\<rparr> else w)\<lparr>enetClient := False, ctlSock := False\<rparr>"
    using assms unfolding stopControlStream_def Let_def
    by (elim bind_SomeE) (drule iffD1 [OF option.inject], rule that, assumption, assumption, erule sym)
  have "goes e ?t v"
    by (rule goes_trans [OF _ join_threads_goes [OF v]], (rule goes_trans [OF _ interrupt_thread_goes])+, rule shut)
  moreover have "goes e v w" using w by (auto split: if_splits intro: stop_thread_goes)
  moreover have "goes e w s'" unfolding s' by (rule goes_trans [OF _ join]) (simp add: linger)
  ultimately have "goes e ?t s'" using goes_trans by blast
  then show ?thesis using t moves_trans [OF t(1)]
    by (auto simp: goes_def moves_def silent_status_def same_requests_def)
qed

section \<open>Requests\<close>

text \<open>A request goes out, or the connection ends.\<close>

fun covers :: "control_event \<Rightarrow> u32 \<Rightarrow> u32 \<Rightarrow> bool" where
  "covers IdrSent a b = True"
| "covers (Terminated _) a b = True"
| "covers (InvalidateSent c d) a b = (c \<le> a \<and> b \<le> d)"
| "covers _ a b = False"

definition attended :: "control_stream \<Rightarrow> control_stream \<Rightarrow> u32 \<Rightarrow> u32 \<Rightarrow> bool" where
  "attended s s' a b \<longleftrightarrow> (\<exists>ev \<in> set (drop (length (ctl_trace s)) (ctl_trace s')). covers ev a b)"

definition waits :: "control_stream \<Rightarrow> u32 \<Rightarrow> u32 \<Rightarrow> bool" where
  "waits s a b \<longleftrightarrow> (a, b) \<in> set (contents (invalidReferenceFrameTuples s)) \<or> idrFrameRequired s \<or> stopping s"

lemma moves_trace: "moves e s s' \<Longrightarrow> \<exists>evs. ctl_trace s' = ctl_trace s @ evs"
  by (auto simp: moves_def)

lemma attended_trans:
  assumes "\<exists>evs. ctl_trace t = ctl_trace s @ evs" "\<exists>evs. ctl_trace u = ctl_trace t @ evs" "attended s t a b \<or> attended t u a b"
  shows "attended s u a b"
  using assms by (auto simp: attended_def)

lemma attended_clog:
  assumes "goes e s t" "covers ev a b"
  shows "attended s (clog ev t) a b"
  using moves_trace [of e s t] assms by (auto simp: attended_def goes_def clog_def)

lemma send_idr_request_goes: "goes_with e s (send_idr_request e s)"
  unfolding send_idr_request_def Let_def by (intro goes_with_if goes_with_value goes_with_sends)

lemma requestIdrFrame_sends:
  assumes "requestIdrFrame e s = Some s'"
  obtains u ev where "goes e s u" "s' = clog ev u" "ev = IdrSent \<or> (\<exists>code. ev = Terminated code)"
proof -
  obtain ok u where u: "send_idr_request e s = Some (ok, u)"
    and s': "s' = (if ok then clog IdrSent u else report_failure e u)"
    using assms unfolding requestIdrFrame_def by (elim bind_SomeE case_prod_SomeE) (rule that, auto)
  then show thesis
    using that [of u] send_idr_request_goes [of e s] by (auto simp: goes_with_def report_failure_def split: if_splits)
qed

lemma requestInvalidate_sends:
  assumes "requestInvalidateReferenceFrames e a b s = Some s'"
  obtains u ev where "goes e s u" "s' = clog ev u" "ev = InvalidateSent a b \<or> (\<exists>code. ev = Terminated code)"
proof -
  obtain t ok u where u: "sendMessageAndDiscardReply e t 24 (invalidate_payload (ucast a) (ucast b))
      CTRL_CHANNEL_URGENT FLAG_RELIABLE False s = Some (ok, u)"
    and s': "Some (if ok then clog (InvalidateSent a b) u else report_failure e u) = Some s'"
    using assms unfolding requestInvalidateReferenceFrames_def
    by (elim bind_SomeE case_prod_SomeE) (rule that, simp_all only:)
  then show thesis
    using that [OF sendMessageAndDiscardReply_goes [OF u]] by (auto simp: report_failure_def split: if_splits)
qed

lemma bq_Wait_cases:
  assumes "bq_step Wait q = (r, q')"
  shows "closed q' = closed q \<and> ending q' = ending q"
    and "r = Status LBQ_SUCCESS (Some x) \<Longrightarrow> \<not> closed q \<and> contents q = x # contents q'"
    and "(\<forall>x. r \<noteq> Status LBQ_SUCCESS (Some x)) \<Longrightarrow> contents q' = contents q"
  using assms by (auto simp: bq_get_def split: if_splits list.splits)

text \<open>The rounds of the thread take everything that is queued; the assertion holds the ends in order.\<close>

lemma join_ranges_all:
  assumes "join_ranges n d s = Some (d', s')" "length (contents (invalidReferenceFrameTuples s)) \<le> n"
    "\<not> closed (invalidReferenceFrameTuples s)"
  shows "d \<le> d' \<and> (\<forall>(a, b) \<in> set (contents (invalidReferenceFrameTuples s)). b \<le> d')
    \<and> s' = s\<lparr>invalidReferenceFrameTuples := (invalidReferenceFrameTuples s)\<lparr>contents := []\<rparr>\<rparr>"
  using assms
proof (induction n arbitrary: d s)
  case 0
  then have "invalidReferenceFrameTuples s = (invalidReferenceFrameTuples s)\<lparr>contents := []\<rparr>" by simp
  then show ?case using 0 by simp
next
  case (Suc n)
  let ?q = "invalidReferenceFrameTuples s"
  show ?case
  proof (cases "contents ?q")
    case Nil
    then have "?q = ?q\<lparr>contents := []\<rparr>" by simp
    then show ?thesis using Suc.prems Nil by (auto simp: q_take_def bq_get_def split: if_splits)
  next
    case (Cons x xs)
    obtain a b where x: "x = (a, b)" by (cases x)
    let ?t = "s\<lparr>invalidReferenceFrameTuples := ?q\<lparr>contents := xs\<rparr>\<rparr>"
    have "b \<ge> d" "join_ranges n b ?t = Some (d', s')"
      using Suc.prems Cons x by (auto simp: q_take_def bq_get_def bind_eq_Some_conv)
    then show ?thesis using Suc.IH [of b ?t] Suc.prems Cons x by auto
  qed
qed

text \<open>A round of the invalidation thread, by what it finds.\<close>

lemma invalidate_round_cases:
  assumes run: "invalidateRefFrames_round e s = Some s'"
  obtains (idle) q where "s' = s\<lparr>invalidReferenceFrameTuples := q\<rparr>" "contents q = contents (invalidReferenceFrameTuples s)"
      "closed q = closed (invalidReferenceFrameTuples s)" "ending q = ending (invalidReferenceFrameTuples s)"
  | (request) a b xs d q u ev where "contents (invalidReferenceFrameTuples s) = (a, b) # xs" "b \<le> d"
      "\<forall>(a, c) \<in> set xs. c \<le> d" "contents q = []"
      "closed q = closed (invalidReferenceFrameTuples s)" "ending q = ending (invalidReferenceFrameTuples s)"
      "goes e (s\<lparr>invalidReferenceFrameTuples := q\<rparr>) u" "s' = clog ev u"
      "ev = InvalidateSent a d \<or> (\<exists>code. ev = Terminated code)"
proof -
  let ?q = "invalidReferenceFrameTuples s"
  obtain r q where w: "bq_step Wait ?q = (r, q)" by (cases "bq_step Wait ?q")
  have same: "closed q = closed ?q" "ending q = ending ?q" using bq_Wait_cases(1) [OF w] by simp_all
  consider (kept) "interrupted InvRefFrames s" | (none) "\<not> interrupted InvRefFrames s" "\<forall>x. r \<noteq> Status LBQ_SUCCESS (Some x)"
    | (some) a b where "\<not> interrupted InvRefFrames s" "r = Status LBQ_SUCCESS (Some (a, b))"
    by (metis surj_pair)
  then show thesis
  proof cases
    case kept
    then show thesis using run idle [of ?q] by (simp add: invalidateRefFrames_round_def)
  next
    case none
    then have "s' = s\<lparr>invalidReferenceFrameTuples := q\<rparr>"
      using run w by (auto simp: invalidateRefFrames_round_def split: lbq_out.splits lbq_status.splits option.splits)
    then show thesis using idle [of q] same bq_Wait_cases(3) [OF w none(2)] by simp
  next
    case some
    have c: "\<not> closed ?q" "contents ?q = (a, b) # contents q" using bq_Wait_cases(2) [OF w some(2)] by simp_all
    let ?t = "s\<lparr>invalidReferenceFrameTuples := q\<rparr>"
    obtain d t where d: "join_ranges (length (contents q)) b ?t = Some (d, t)"
      and t: "requestInvalidateReferenceFrames e a d t = Some s'"
      using run some w by (auto simp: invalidateRefFrames_round_def bind_eq_Some_conv)
    have j: "b \<le> d \<and> (\<forall>(a, b) \<in> set (contents q). b \<le> d) \<and> t = s\<lparr>invalidReferenceFrameTuples := q\<lparr>contents := []\<rparr>\<rparr>"
      using join_ranges_all [OF d] c same by simp
    obtain u ev where u: "goes e t u" "s' = clog ev u" "ev = InvalidateSent a d \<or> (\<exists>code. ev = Terminated code)"
      by (rule requestInvalidate_sends [OF t])
    show thesis
      by (rule request [of a b "contents q" d "q\<lparr>contents := []\<rparr>" u ev]) (use c j u same in auto)
  qed
qed

lemma idr_round_cases:
  assumes run: "requestIdrFrame_round e s = Some s'"
  obtains (idle) "s' = s" | (stopped) "stopping s" "s' = s\<lparr>idrFrameRequired := False\<rparr>"
  | (request) u ev where "goes e (s\<lparr>idrFrameRequired := False,
        invalidReferenceFrameTuples := snd (bq_step Flush (invalidReferenceFrameTuples s))\<rparr>) u" "s' = clog ev u"
      "ev = IdrSent \<or> (\<exists>code. ev = Terminated code)"
proof (cases "interrupted ReqIdrFrame s \<or> \<not> idrFrameRequired s")
  case True
  then show thesis using run idle by (simp add: requestIdrFrame_round_def)
next
  case False
  let ?t = "s\<lparr>idrFrameRequired := False, invalidReferenceFrameTuples := snd (bq_step Flush (invalidReferenceFrameTuples s))\<rparr>"
  show thesis
  proof (cases "stopping s")
    case True
    then show thesis using run False stopped by (simp add: requestIdrFrame_round_def)
  next
    case run_on: False
    then have r: "requestIdrFrame e ?t = Some s'" using run False by (simp add: requestIdrFrame_round_def)
    show thesis by (rule requestIdrFrame_sends [OF r]) (rule request)
  qed
qed

section \<open>The account of the losses\<close>

fun losses_of :: "control_op \<Rightarrow> (u32 \<times> u32) list" where
  "losses_of (ReportLoss a b) = [(a, b)]"
| "losses_of _ = []"

definition losses :: "(control_env \<times> control_op) list \<Rightarrow> (u32 \<times> u32) list" where
  "losses ops = concat (map (losses_of \<circ> snd) ops)"

text \<open>The queue holds reported ranges in their order, and takes new ones until the stream stops.\<close>

definition ranges_ok :: "(u32 \<times> u32) list \<Rightarrow> control_stream \<Rightarrow> bool" where
  "ranges_ok ls s \<longleftrightarrow> subseq (contents (invalidReferenceFrameTuples s)) ls
     \<and> (closed (invalidReferenceFrameTuples s) \<or> ending (invalidReferenceFrameTuples s) \<longrightarrow> stopping s)"

lemma goes_queue_ok: "goes e s s' \<Longrightarrow> ranges_ok ls s \<Longrightarrow> ranges_ok ls s'"
  by (auto simp: goes_def moves_def same_requests_def ranges_ok_def)

lemma goes_waits: "goes e s s' \<Longrightarrow> waits s a b \<Longrightarrow> waits s' a b"
  by (auto simp: goes_def moves_def same_requests_def waits_def)

lemma goes_moves: "goes e s s' \<Longrightarrow> moves e s s'"
  by (simp add: goes_def)

text \<open>The operations that touch neither the requests nor the status.\<close>

fun plain_op :: "control_op \<Rightarrow> bool" where
  "plain_op (ReportLoss _ _) = False"
| "plain_op (SawFrame _) = False"
| "plain_op RequestIdr = False"
| "plain_op InvalidateRound = False"
| "plain_op IdrRound = False"
| "plain_op StopStream = False"
| "plain_op _ = True"

lemma sendInputPacketOnControlStream_goes: "goes_with e s (sendInputPacketOnControlStream e bytes len channel flags m s)"
  unfolding sendInputPacketOnControlStream_def by (intro goes_with_value goes_with_bind goes_with_sends goes_with_Some goes_refl)

lemma goes_with_snd: "goes_with e s m \<Longrightarrow> map_option snd m = Some s' \<Longrightarrow> goes e s s'"
  by (auto simp: goes_with_def)

lemma plain_step_goes:
  assumes "control_step e op s = Some s'" "plain_op op"
  shows "goes e s s'"
proof -
  have receive: "goes_with e s (controlReceive_round e p first second s)" for p first second
    by (simp add: goes_with_def controlReceive_round_goes)
  have "goes e s (connectionReceivedCompleteFrame f s)" "goes e s (connectionSendFrameFecStatus e g s)" for f g
    by (rule goes_fields; simp add: connectionReceivedCompleteFrame_def connectionSendFrameFecStatus_def)+
  moreover have "goes e s (flushInputOnControlStream e s)"
    by (simp add: flushInputOnControlStream_def goes_clog)
  ultimately show ?thesis
    using assms by (cases op) (simp_all add: asyncCallback_round_goes goes_with_snd [OF lossStats_round_goes]
        goes_with_snd [OF receive] goes_with_snd [OF sendInputPacketOnControlStream_goes] goes_with_snd [OF startControlStream_goes],
        auto simp: asyncCallback_round_goes)
qed

lemma moves_fields:
  assumes "ctl_trace s' = ctl_trace s" "currentEnetSequenceNumber s' = currentEnetSequenceNumber s" "stopping s \<Longrightarrow> stopping s'"
  shows "moves e s s'"
  unfolding moves_def by (rule conjI, rule exI [of _ "[]"], rule exI [of _ 0]) (use assms in simp_all)

lemma report_loss_cases:
  assumes "connectionDetectedFrameLoss e a b s = Some s'"
  obtains q r where "s' = s\<lparr>invalidReferenceFrameTuples := q, idrFrameRequired := r\<rparr>"
    "closed q = closed (invalidReferenceFrameTuples s)" "ending q = ending (invalidReferenceFrameTuples s)"
    "(contents q = [] \<and> r) \<or> (contents q = contents (invalidReferenceFrameTuples s) @ [(a, b)] \<and> r = idrFrameRequired s)
      \<or> (contents q = contents (invalidReferenceFrameTuples s) \<and> r = idrFrameRequired s \<and> (closed q \<or> ending q))"
proof -
  note result = that
  let ?q = "invalidReferenceFrameTuples s"
  have flush: thesis if "s' = LiRequestIdrFrame t" "t = s\<lparr>invalidReferenceFrameTuples := q\<rparr>" "closed q = closed ?q" "ending q = ending ?q" for t q
    by (rule result [where q = "q\<lparr>contents := []\<rparr>" and r = True]) (use that in \<open>simp_all add: LiRequestIdrFrame_def\<close>)
  obtain err q where q: "q_offer (a, b) ?q = (err, q)" by fastforce
  have same: "closed q = closed ?q" "ending q = ending ?q"
    "err = LBQ_BOUND_EXCEEDED \<or> contents q = contents ?q @ [(a, b)] \<or> (contents q = contents ?q \<and> (closed q \<or> ending q))"
    using q by (auto simp: q_offer_def split: if_splits)
  let ?t = "s\<lparr>invalidReferenceFrameTuples := q\<rparr>"
  consider "s' = LiRequestIdrFrame s" | "s' = (if err = LBQ_BOUND_EXCEEDED then LiRequestIdrFrame ?t else ?t)"
    using assms q by (auto simp: connectionDetectedFrameLoss_def queueFrameInvalidationTuple_def bind_eq_Some_conv Let_def split: if_splits)
  then show thesis
  proof cases
    case 1
    then show thesis using flush [of s ?q] by simp
  next
    case 2
    show thesis
    proof (cases "err = LBQ_BOUND_EXCEEDED")
      case True
      then show thesis using 2 flush [of ?t q] same by simp
    next
      case False
      then show thesis using 2 result [where q = q and r = "idrFrameRequired s"] same by simp
    qed
  qed
qed

text \<open>What a seen frame changes, the fields of the interval apart.\<close>

lemma saw_frame_cases:
  assumes "connectionSawFrame e f s = Some s'"
  obtains u where "u = s \<or> (\<exists>p. u = update_status p s)" "ctl_trace s' = ctl_trace u"
    "currentEnetSequenceNumber s' = currentEnetSequenceNumber u" "lastConnectionStatusUpdate s' = lastConnectionStatusUpdate u"
    "invalidReferenceFrameTuples s' = invalidReferenceFrameTuples u" "idrFrameRequired s' = idrFrameRequired u"
    "stopping s' = stopping u" "variant s' = variant u"
proof -
  note result = that
  have j: "u = s \<or> (\<exists>p. u = update_status p s)" if "judge_interval s = Some u" for u
    using that by (auto simp: judge_interval_def split: if_splits)
  show thesis
    using assms j result [of s] result unfolding connectionSawFrame_def
    by (auto simp: bind_eq_Some_conv split: if_splits)
qed

lemma update_status_simps [simp]:
  "currentEnetSequenceNumber (update_status p s) = currentEnetSequenceNumber s"
  "invalidReferenceFrameTuples (update_status p s) = invalidReferenceFrameTuples s"
  "idrFrameRequired (update_status p s) = idrFrameRequired s" "stopping (update_status p s) = stopping s"
  "variant (update_status p s) = variant s"
  by (simp_all add: update_status_def clog_def)

lemma update_status_trace:
  "ctl_trace (update_status p s) = ctl_trace s @ map StatusUpdate
     (if lastConnectionStatusUpdate (update_status p s) = lastConnectionStatusUpdate s then []
      else [lastConnectionStatusUpdate (update_status p s)])"
  by (simp add: update_status_def clog_def CONN_STATUS_OKAY_def CONN_STATUS_POOR_def)

lemma seals_statuses [simp]: "seals (map StatusUpdate xs) = []" "status_updates (map StatusUpdate xs) = xs"
  by (induction xs) simp_all

lemma saw_frame_moves:
  assumes "connectionSawFrame e f s = Some s'"
  shows "moves e s s' \<and> same_requests s s'"
proof -
  obtain u where u: "u = s \<or> (\<exists>p. u = update_status p s)" "ctl_trace s' = ctl_trace u"
    "currentEnetSequenceNumber s' = currentEnetSequenceNumber u"
    "invalidReferenceFrameTuples s' = invalidReferenceFrameTuples u" "idrFrameRequired s' = idrFrameRequired u"
    "stopping s' = stopping u" "variant s' = variant u"
    by (rule saw_frame_cases [OF assms])
  have "\<exists>xs. ctl_trace u = ctl_trace s @ map StatusUpdate xs" using u(1) update_status_trace by fastforce
  then obtain xs where xs: "ctl_trace u = ctl_trace s @ map StatusUpdate xs" by blast
  have "moves e s s'" unfolding moves_def
    by (rule conjI, rule exI [of _ "map StatusUpdate xs"], rule exI [of _ 0]) (use u xs in auto)
  then show ?thesis using u by (auto simp: same_requests_def)
qed

text \<open>
  What an operation does to the account: the vectors follow the sequence number, the queue holds reported
  ranges in order, and a loss that waits goes on waiting or is attended to.
\<close>

definition account :: "control_env \<Rightarrow> (u32 \<times> u32) list \<Rightarrow> (u32 \<times> u32) list \<Rightarrow> control_stream \<Rightarrow> control_stream \<Rightarrow> bool" where
  "account e ls ls' s s' \<longleftrightarrow> moves e s s' \<and> variant s' = variant s \<and> ranges_ok ls' s'
     \<and> (\<forall>a b. waits s a b \<longrightarrow> waits s' a b \<or> attended s s' a b)"

lemma subseq_starts:
  assumes "subseq ((a, b) # xs) ls" "sorted (map fst ls)" "(c, d) \<in> set ((a, b) # xs)"
  shows "a \<le> c"
proof -
  have "subseq (map fst ((a, b) # xs)) (map fst ls)" using assms(1) by (rule subseq_map)
  then obtain N where "map fst ((a, b) # xs) = nths (map fst ls) N" by (auto simp: subseq_conv_nths)
  then have "sorted (map fst ((a, b) # xs))" using sorted_nths [OF assms(2)] by metis
  then show ?thesis using assms(3) by force
qed

lemma goes_account:
  assumes "goes e s s'" "ranges_ok ls s"
  shows "account e ls ls s s'"
  using assms goes_waits [OF assms(1)] goes_queue_ok [OF assms] by (simp add: account_def goes_def same_requests_def)

lemma report_account:
  assumes "connectionDetectedFrameLoss e a b s = Some s'" "ranges_ok ls s"
  shows "account e ls (ls @ [(a, b)]) s s' \<and> waits s' a b"
proof -
  obtain q r where q: "s' = s\<lparr>invalidReferenceFrameTuples := q, idrFrameRequired := r\<rparr>"
    "closed q = closed (invalidReferenceFrameTuples s)" "ending q = ending (invalidReferenceFrameTuples s)"
    "(contents q = [] \<and> r) \<or> (contents q = contents (invalidReferenceFrameTuples s) @ [(a, b)] \<and> r = idrFrameRequired s)
      \<or> (contents q = contents (invalidReferenceFrameTuples s) \<and> r = idrFrameRequired s \<and> (closed q \<or> ending q))"
    by (rule report_loss_cases [OF assms(1)])
  have "moves e s s'" unfolding q(1) by (rule moves_fields) simp_all
  moreover have "ranges_ok (ls @ [(a, b)]) s'"
  proof -
    let ?c = "contents (invalidReferenceFrameTuples s)"
    have c: "subseq ?c ls" using assms(2) by (simp add: ranges_ok_def)
    have "subseq (?c @ [(a, b)]) (ls @ [(a, b)])" by (rule list_emb_append_mono [OF c]) simp
    moreover have "subseq (?c @ []) (ls @ [(a, b)])" by (rule list_emb_append_mono [OF c]) simp
    ultimately have "subseq (contents q) (ls @ [(a, b)])" using q(4) by auto
    then show ?thesis using assms(2) q(1-3) by (simp add: ranges_ok_def)
  qed
  moreover have "waits s c d \<Longrightarrow> waits s' c d" for c d
    using q(4) unfolding q(1) waits_def by auto
  moreover have "waits s' a b" using q assms(2) unfolding q(1) waits_def ranges_ok_def by auto
  ultimately show ?thesis using q(1) by (simp add: account_def)
qed

lemma flush_account:
  assumes "ranges_ok ls s"
  shows "account e ls ls s (LiRequestIdrFrame s)"
proof -
  have "moves e s (LiRequestIdrFrame s)" by (rule moves_fields) (simp_all add: LiRequestIdrFrame_def)
  then show ?thesis using assms by (auto simp: account_def LiRequestIdrFrame_def ranges_ok_def waits_def)
qed

lemma request_account:
  assumes "goes e t u" "moves e s t" "seal_of ev = []" "status_of ev = []" "variant t = variant s" "ranges_ok ls t"
    and "\<And>a b. waits s a b \<Longrightarrow> waits t a b \<or> covers ev a b"
  shows "account e ls ls s (clog ev u)"
proof -
  have g: "goes e t (clog ev u)" by (rule goes_clog_after [OF assms(1,3,4)])
  have "waits (clog ev u) a b \<or> attended s (clog ev u) a b" if "waits s a b" for a b
    using assms(7) [OF that]
  proof
    assume "waits t a b"
    then show ?thesis using goes_waits [OF g] by simp
  next
    assume "covers ev a b"
    then have "attended t (clog ev u) a b" by (rule attended_clog [OF assms(1)])
    then show ?thesis using attended_trans [OF moves_trace [OF assms(2)] moves_trace [OF goes_moves [OF g]]] by blast
  qed
  then show ?thesis
    using goes_queue_ok [OF g assms(6)] moves_trans [OF assms(2) goes_moves [OF g]] g assms(5)
    by (simp add: account_def goes_def same_requests_def)
qed

lemma invalidate_account:
  assumes run: "invalidateRefFrames_round e s = Some s'" and ok: "ranges_ok ls s" and sorted: "sorted (map fst ls)"
  shows "account e ls ls s s'"
  using run
proof (cases rule: invalidate_round_cases)
  case (idle q)
  have "moves e s s'" unfolding idle(1) by (rule moves_fields) simp_all
  then show ?thesis using idle ok by (auto simp: account_def ranges_ok_def waits_def)
next
  case (request a b xs d q u ev)
  have "covers ev c f" if "(c, f) \<in> set ((a, b) # xs)" for c f
  proof -
    have "a \<le> c" using subseq_starts [of a b xs ls c f] ok sorted that request(1) by (simp add: ranges_ok_def)
    moreover have "f \<le> d" using that request(2,3) by auto
    ultimately show ?thesis using request(9) by auto
  qed
  then have w: "waits s c f \<Longrightarrow> waits (s\<lparr>invalidReferenceFrameTuples := q\<rparr>) c f \<or> covers ev c f" for c f
    using request(1) by (auto simp: waits_def)
  show ?thesis unfolding request(8)
    by (rule request_account [OF request(7) _ _ _ _ _ w])
      (use request ok in \<open>auto simp: ranges_ok_def intro!: moves_fields\<close>)
qed

lemma idr_account:
  assumes run: "requestIdrFrame_round e s = Some s'" and ok: "ranges_ok ls s"
  shows "account e ls ls s s'"
  using run
proof (cases rule: idr_round_cases)
  case idle
  then show ?thesis using goes_account [OF goes_refl ok] by simp
next
  case stopped
  have "moves e s s'" unfolding stopped(2) by (rule moves_fields) simp_all
  then show ?thesis using stopped ok by (auto simp: account_def ranges_ok_def waits_def)
next
  case (request u ev)
  show ?thesis unfolding request(2)
    by (rule request_account [OF request(1)]) (use request(3) ok in \<open>auto simp: ranges_ok_def intro!: moves_fields\<close>)
qed

lemma stop_account:
  assumes "stopControlStream e s = Some s'" "ranges_ok ls s"
  shows "account e ls ls s s'"
  using stopControlStream_moves [OF assms(1)] assms(2) by (auto simp: account_def ranges_ok_def waits_def)

text \<open>Without any assumption on the order of the losses.\<close>

lemma event_plain: "ev = InvalidateSent a d \<or> ev = IdrSent \<or> (\<exists>code. ev = Terminated code) \<Longrightarrow> seal_of ev = [] \<and> status_of ev = []"
  by auto

lemma step_moves:
  assumes run: "control_step e op s = Some s'"
  shows "moves e s s' \<and> (silent_status s s' \<or> (\<exists>f. op = SawFrame f))"
proof (cases "plain_op op")
  case True
  then show ?thesis using plain_step_goes [OF run True] by (simp add: goes_def)
next
  case False
  have f: "moves e s t \<and> silent_status s t" if "ctl_trace t = ctl_trace s" "currentEnetSequenceNumber t = currentEnetSequenceNumber s"
    "stopping t = stopping s" "lastConnectionStatusUpdate t = lastConnectionStatusUpdate s" for t
    using that by (simp add: moves_fields silent_status_def)
  have r: "moves e s (clog ev u) \<and> silent_status s (clog ev u)"
    if "goes e t u" "seal_of ev = [] \<and> status_of ev = []" "moves e s t \<and> silent_status s t" for t u ev
    using goes_clog_after [OF that(1)] that moves_trans by (auto simp: goes_def silent_status_def)
  from False show ?thesis
  proof (cases op)
    case (ReportLoss a b)
    then have l: "connectionDetectedFrameLoss e a b s = Some s'" using run by simp
    show ?thesis by (rule report_loss_cases [OF l]) (simp add: f)
  next
    case InvalidateRound
    then have l: "invalidateRefFrames_round e s = Some s'" using run by simp
    show ?thesis
    proof (rule invalidate_round_cases [OF l], goal_cases)
      case (1 q)
      then show ?case by (simp add: f)
    next
      case (2 a b xs d q u ev)
      then show ?case using r [OF 2(7)] event_plain [of ev a d] f by auto
    qed
  next
    case IdrRound
    then have l: "requestIdrFrame_round e s = Some s'" using run by simp
    show ?thesis
    proof (rule idr_round_cases [OF l], goal_cases)
      case 1
      then show ?case by (simp add: f)
    next
      case 2
      then show ?case by (simp add: f)
    next
      case (3 u ev)
      then show ?case using r [OF 3(1)] event_plain [of ev] f by auto
    qed
  next
    case StopStream
    then show ?thesis using stopControlStream_moves run by auto
  next
    case RequestIdr
    then show ?thesis using run f [of s'] by (auto simp: LiRequestIdrFrame_def)
  qed (use run saw_frame_moves in auto)
qed

lemma step_account:
  assumes run: "control_step e op s = Some s'" and ok: "ranges_ok ls s" and sorted: "sorted (map fst ls)"
  shows "account e ls (ls @ losses_of op) s s' \<and> (\<forall>(a, b) \<in> set (losses_of op). waits s' a b)"
proof (cases "plain_op op")
  case True
  then have "losses_of op = []" by (cases op) simp_all
  then show ?thesis using goes_account [OF plain_step_goes [OF run True] ok] by simp
next
  case False
  then show ?thesis
  proof (cases op)
    case (SawFrame f)
    then have m: "moves e s s'" "same_requests s s'" using saw_frame_moves run by simp_all
    then show ?thesis using ok SawFrame
      by (auto simp: account_def same_requests_def ranges_ok_def waits_def moves_def)
  qed (use run ok sorted report_account flush_account invalidate_account idr_account stop_account in auto)
qed

end
