(* ===== verification/ControlDelivery.thy ===== *)
theory ControlDelivery
  imports ControlHistory
begin

text \<open>
  What the control stream promises: every frame loss is requested, the initialization vectors do not repeat,
  the status callbacks alternate, messages without a valid tag change nothing, callbacks are batched without
  losing the last one, and starting and stopping keep the transport and the threads in step.
\<close>

section \<open>Frame losses\<close>

lemma losses_simps [simp]:
  "losses [] = []" "losses ((e, op) # ops) = losses_of op @ losses ops" "losses (xs @ ys) = losses xs @ losses ys"
  by (simp_all add: losses_def)

lemma attended_mono:
  assumes "\<exists>evs. ctl_trace t = ctl_trace s @ evs" "\<exists>evs. ctl_trace u = ctl_trace t @ evs"
  shows "attended s t a b \<Longrightarrow> attended s u a b" "attended t u a b \<Longrightarrow> attended s u a b"
  using attended_trans [OF assms] by simp_all

lemma run_account:
  assumes "control_run ops s = Some s'" "ranges_ok ls s" "sorted (map fst (ls @ losses ops))"
  shows "ranges_ok (ls @ losses ops) s' \<and> variant s' = variant s \<and> (\<exists>evs. ctl_trace s' = ctl_trace s @ evs)
    \<and> (\<forall>a b. waits s a b \<longrightarrow> waits s' a b \<or> attended s s' a b)"
  using assms
proof (induction ops arbitrary: s ls)
  case Nil
  then show ?case by simp
next
  case (Cons p ops)
  obtain e op where p: "p = (e, op)" by (cases p)
  obtain t where t: "control_step e op s = Some t" "control_run ops t = Some s'"
    using Cons.prems(1) p by (auto simp: bind_eq_Some_conv)
  have "sorted (map fst ls)" using Cons.prems(3) by (simp add: sorted_append)
  from step_account [OF t(1) Cons.prems(2) this] have acc: "account e ls (ls @ losses_of op) s t" by simp
  then have tr: "\<exists>evs. ctl_trace t = ctl_trace s @ evs" using moves_trace by (auto simp: account_def)
  have IH: "ranges_ok ((ls @ losses_of op) @ losses ops) s' \<and> variant s' = variant t \<and> (\<exists>evs. ctl_trace s' = ctl_trace t @ evs)
    \<and> (\<forall>a b. waits t a b \<longrightarrow> waits s' a b \<or> attended t s' a b)"
    by (rule Cons.IH [OF t(2)]) (use acc Cons.prems(3) p in \<open>simp_all add: account_def\<close>)
  have tr': "\<exists>evs. ctl_trace s' = ctl_trace t @ evs" using IH by blast
  have "waits s' a b \<or> attended s s' a b" if "waits s a b" for a b
  proof -
    have "waits t a b \<or> attended s t a b" using acc that by (simp add: account_def)
    then show ?thesis using IH attended_mono [OF tr tr'] by blast
  qed
  moreover have "\<exists>evs. ctl_trace s' = ctl_trace s @ evs" using tr tr' by auto
  ultimately show ?case using IH acc p by (simp add: account_def)
qed

lemma initialize_queue_ok: "ranges_ok [] (initializeControlStream v s)"
  by (simp add: ranges_ok_def initializeControlStream_def bq_start_def)

lemma loss_kept:
  assumes "control_run (xs @ (e, ReportLoss a b) # ys) (initializeControlStream v s0) = Some s"
    and "sorted (map fst (losses (xs @ (e, ReportLoss a b) # ys)))"
  shows "\<exists>s1. control_run (xs @ [(e, ReportLoss a b)]) (initializeControlStream v s0) = Some s1
    \<and> (waits s a b \<or> attended s1 s a b)"
proof -
  obtain t s1 where t: "control_run xs (initializeControlStream v s0) = Some t" "control_step e (ReportLoss a b) t = Some s1"
    "control_run ys s1 = Some s"
    using assms(1) by (auto simp: control_run_append bind_eq_Some_conv)
  have so: "sorted (map fst (losses xs))" "sorted (map fst ((losses xs @ [(a, b)]) @ losses ys))"
    using assms(2) by (simp_all add: sorted_append)
  have q: "ranges_ok (losses xs) t"
    using run_account [OF t(1) initialize_queue_ok] so(1) by simp
  have "account e (losses xs) (losses xs @ [(a, b)]) t s1" "waits s1 a b"
    using step_account [OF t(2) q so(1)] by simp_all
  moreover have "ranges_ok (losses xs @ [(a, b)]) s1" using calculation(1) by (simp add: account_def)
  ultimately have "waits s a b \<or> attended s1 s a b"
    using run_account [OF t(3) _ so(2)] by blast
  then show ?thesis using t by (auto simp: control_run_append)
qed


section \<open>The requests always go out\<close>

lemma sends_return:
  assumes "n \<le> length p" "n < 252"
  shows "sendMessageAndDiscardReply e t n p c f m s \<noteq> None"
  using assms
  by (auto simp: sendMessageAndDiscardReply_def sendMessageEnet_def sendMessageTcp_def mem_read_def Let_def
      split: option.split)

text \<open>The tables of every variant have what the requests look up.\<close>

lemmas table_defs = packetTypesGen3_def packetTypesGen4_def packetTypesGen5_def packetTypesGen7_def packetTypesGen7Enc_def
  payloadLengthsGen3_def payloadLengthsGen4_def payloadLengthsGen5_def payloadLengthsGen7_def payloadLengthsGen7Enc_def
  preconstructedPayloadsGen3_def preconstructedPayloadsGen4_def preconstructedPayloadsGen5_def preconstructedPayloadsGen7_def
  preconstructedPayloadsGen7Enc_def requestIdrFrameGen3_def requestIdrFrameGen4_def requestIdrFrameGen7Enc_def
  startBGen3_def startBGen4_def startAGen5_def startBGen5_def

lemma variant_tables:
  "length (packetTypes (select_variant v)) \<ge> 12 \<and> length (payloadLengths (select_variant v)) = 6
   \<and> length (preconstructedPayloads (select_variant v)) = 2
   \<and> (\<forall>ix < 2. payloadLengths (select_variant v) ! ix = int (length (preconstructedPayloads (select_variant v) ! ix)))
   \<and> (\<forall>ix < 2. length (preconstructedPayloads (select_variant v) ! ix) \<le> 16)"
  by (auto simp: select_variant_def table_defs less_2_cases_iff)

lemma lookups:
  assumes "variant s = select_variant v"
  shows "ix < 12 \<Longrightarrow> \<exists>t. type_at ix s = Some t"
    and "ix < 2 \<Longrightarrow> \<exists>n p. length_at ix s = Some n \<and> payload_at ix s = Some p \<and> n = length p \<and> n \<le> 16"
  using variant_tables [of v] assms by (auto simp: type_at_def length_at_def payload_at_def)

lemma length_invalidate_payload [simp]: "length (invalidate_payload a b) = 24"
  by (simp add: invalidate_payload_def)

lemma bind_not_None: "m \<noteq> None \<Longrightarrow> (\<And>x. m = Some x \<Longrightarrow> k x \<noteq> None) \<Longrightarrow> Option.bind m k \<noteq> None"
  by (cases m) auto

lemma send_idr_request_returns:
  assumes "variant s = select_variant v"
  shows "send_idr_request e s \<noteq> None"
proof -
  obtain t where t: "type_at IDX_INVALIDATE_REF_FRAMES s = Some t"
    using lookups(1) [OF assms, of IDX_INVALIDATE_REF_FRAMES] by (auto simp: idx_defs)
  obtain u where u: "type_at IDX_REQUEST_IDR_FRAME s = Some u"
    using lookups(1) [OF assms, of IDX_REQUEST_IDR_FRAME] by (auto simp: idx_defs)
  obtain p where p: "length_at IDX_REQUEST_IDR_FRAME s = Some (length p)" "payload_at IDX_REQUEST_IDR_FRAME s = Some p" "length p \<le> 16"
    using lookups(2) [OF assms, of IDX_REQUEST_IDR_FRAME] by (auto simp: idx_defs)
  show ?thesis
    using sends_return [of 24 "invalidate_payload a b" for a b] sends_return [of "length p" p] p(3)
    by (auto simp: send_idr_request_def t u p(1,2) Let_def)
qed

lemma idr_round_returns:
  assumes "variant s = select_variant v"
  shows "requestIdrFrame_round e s \<noteq> None"
proof -
  have "requestIdrFrame e t \<noteq> None" if "variant t = variant s" for t
  proof -
    have "send_idr_request e t \<noteq> None" using send_idr_request_returns [of t v] that assms by simp
    then show ?thesis unfolding requestIdrFrame_def by (rule bind_not_None) auto
  qed
  then show ?thesis by (simp add: requestIdrFrame_round_def Let_def)
qed

lemma join_ranges_returns:
  assumes "sorted (d # map snd (contents (invalidReferenceFrameTuples s)))"
  shows "join_ranges n d s \<noteq> None"
  using assms
proof (induction n arbitrary: d s)
  case 0
  show ?case by simp
next
  case (Suc n)
  let ?q = "invalidReferenceFrameTuples s"
  show ?case
  proof (cases "closed ?q \<or> contents ?q = []")
    case True
    then show ?thesis by (auto simp: q_take_def bq_get_def)
  next
    case False
    then obtain a b xs where c: "contents ?q = (a, b) # xs" "\<not> closed ?q" by (cases "contents ?q") auto
    have "join_ranges n b (s\<lparr>invalidReferenceFrameTuples := ?q\<lparr>contents := xs\<rparr>\<rparr>) \<noteq> None"
      by (rule Suc.IH) (use Suc.prems c in auto)
    then show ?thesis using Suc.prems c by (simp add: q_take_def bq_get_def)
  qed
qed

lemma invalidate_round_returns:
  assumes v: "variant s = select_variant v" and ends: "sorted (map snd (contents (invalidReferenceFrameTuples s)))"
    and ranges: "\<forall>(a, b) \<in> set (contents (invalidReferenceFrameTuples s)). a \<le> b \<and> isReferenceFrameInvalidationEnabled e = Some True"
  shows "invalidateRefFrames_round e s \<noteq> None"
proof -
  let ?q = "invalidReferenceFrameTuples s"
  obtain r q where w: "bq_step Wait ?q = (r, q)" by (cases "bq_step Wait ?q")
  show ?thesis
  proof (cases "interrupted InvRefFrames s \<or> (\<forall>x. r \<noteq> Status LBQ_SUCCESS (Some x))")
    case True
    then show ?thesis using w
      by (auto simp: invalidateRefFrames_round_def split: lbq_out.splits lbq_status.splits option.splits)
  next
    case False
    then obtain a b where r: "r = Status LBQ_SUCCESS (Some (a, b))" "\<not> interrupted InvRefFrames s" by auto
    have c: "\<not> closed ?q" "contents ?q = (a, b) # contents q" using bq_Wait_cases(2) [OF w r(1)] by simp_all
    let ?t = "s\<lparr>invalidReferenceFrameTuples := q\<rparr>"
    have "join_ranges (length (contents q)) b ?t \<noteq> None"
      by (rule join_ranges_returns) (use ends c in simp)
    then obtain d u where d: "join_ranges (length (contents q)) b ?t = Some (d, u)" by auto
    have j: "b \<le> d \<and> variant u = variant s"
      using join_ranges_all [OF d] c bq_Wait_cases(1) [OF w] by simp
    have "a \<le> b" "isReferenceFrameInvalidationEnabled e = Some True" using ranges c by auto
    moreover obtain t where "type_at IDX_INVALIDATE_REF_FRAMES u = Some t"
      using lookups(1) [of u v IDX_INVALIDATE_REF_FRAMES] v j by (auto simp: idx_defs)
    ultimately have "requestInvalidateReferenceFrames e a d u \<noteq> None"
      unfolding requestInvalidateReferenceFrames_def using j
      by (intro bind_not_None sends_return) auto
    then show ?thesis using w r d by (simp add: invalidateRefFrames_round_def)
  qed
qed

text \<open>Without reference frame invalidation nothing is ever queued.\<close>

lemma step_stays_empty:
  assumes run: "control_step e op s = Some s'" and off: "isReferenceFrameInvalidationEnabled e = Some False"
    and empty: "contents (invalidReferenceFrameTuples s) = []"
  shows "contents (invalidReferenceFrameTuples s') = []"
proof (cases "plain_op op")
  case True
  then show ?thesis using plain_step_goes [OF run True] empty by (simp add: goes_def same_requests_def)
next
  case False
  then show ?thesis
  proof (cases op)
    case (ReportLoss a b)
    then show ?thesis using run off
      by (auto simp: connectionDetectedFrameLoss_def queueFrameInvalidationTuple_def LiRequestIdrFrame_def bind_eq_Some_conv)
  next
    case (SawFrame f)
    then show ?thesis using saw_frame_moves run empty by (auto simp: same_requests_def)
  next
    case RequestIdr
    then show ?thesis using run by (auto simp: LiRequestIdrFrame_def)
  next
    case InvalidateRound
    then have r: "invalidateRefFrames_round e s = Some s'" using run by simp
    show ?thesis by (rule invalidate_round_cases [OF r]) (use empty in auto)
  next
    case IdrRound
    then have r: "requestIdrFrame_round e s = Some s'" using run by simp
    show ?thesis
      by (rule idr_round_cases [OF r]) (use empty in \<open>auto simp: goes_def same_requests_def clog_def\<close>)
  next
    case StopStream
    then show ?thesis using stopControlStream_moves run empty by auto
  qed simp_all
qed

lemma run_stays_empty:
  assumes "control_run ops s = Some s'" "\<forall>(e, op) \<in> set ops. isReferenceFrameInvalidationEnabled e = Some False"
    "contents (invalidReferenceFrameTuples s) = []"
  shows "contents (invalidReferenceFrameTuples s') = []"
  using assms
proof (induction ops arbitrary: s)
  case (Cons p ops)
  obtain e op where p: "p = (e, op)" by (cases p)
  obtain t where t: "control_step e op s = Some t" "control_run ops t = Some s'"
    using Cons.prems(1) p by (auto simp: bind_eq_Some_conv)
  then show ?case using Cons.IH [OF t(2)] step_stays_empty [OF t(1)] Cons.prems(2,3) p by simp
qed simp

lemma run_losses_checked:
  assumes "control_run ops s = Some s'" "(a, b) \<in> set (losses ops)"
  shows "a \<le> b \<and> (\<exists>(e, op) \<in> set ops. isReferenceFrameInvalidationEnabled e \<noteq> None)"
  using assms
proof (induction ops arbitrary: s)
  case (Cons p ops)
  obtain e op where p: "p = (e, op)" by (cases p)
  obtain t where t: "control_step e op s = Some t" "control_run ops t = Some s'"
    using Cons.prems(1) p by (auto simp: bind_eq_Some_conv)
  show ?case
  proof (cases "(a, b) \<in> set (losses_of op)")
    case True
    then have "op = ReportLoss a b" by (cases op) auto
    then show ?thesis using t p
      by (auto simp: connectionDetectedFrameLoss_def queueFrameInvalidationTuple_def bind_eq_Some_conv)
  next
    case False
    then show ?thesis using Cons.IH [OF t(2)] Cons.prems(2) p by auto
  qed
qed simp

lemma rounds_return:
  assumes "control_run ops (initializeControlStream v s0) = Some s"
    and "sorted (map fst (losses ops))" "sorted (map snd (losses ops))"
    and "\<forall>(e', op) \<in> set ops. isReferenceFrameInvalidationEnabled e' = isReferenceFrameInvalidationEnabled e"
  shows "invalidateRefFrames_round e s \<noteq> None \<and> requestIdrFrame_round e s \<noteq> None"
proof -
  let ?c = "contents (invalidReferenceFrameTuples s)"
  have q: "ranges_ok (losses ops) s" "variant s = select_variant v"
    using run_account [OF assms(1) initialize_queue_ok] assms(2) by (simp_all add: initializeControlStream_def)
  then have sub: "subseq ?c (losses ops)" by (simp add: ranges_ok_def)
  then obtain N where "?c = nths (losses ops) N" by (auto simp: subseq_conv_nths)
  then have "sorted (map snd ?c)" using sorted_nths [OF assms(3), of N] by (simp add: nths_map)
  moreover have "a \<le> b \<and> isReferenceFrameInvalidationEnabled e = Some True" if c: "(a, b) \<in> set ?c" for a b
  proof -
    have l: "(a, b) \<in> set (losses ops)" using \<open>?c = nths (losses ops) N\<close> c in_set_nthsD by metis
    then have "a \<le> b" "isReferenceFrameInvalidationEnabled e \<noteq> None"
      using run_losses_checked [OF assms(1) l] assms(4) by auto
    moreover have "isReferenceFrameInvalidationEnabled e \<noteq> Some False"
      using run_stays_empty [OF assms(1)] assms(4) c by (auto simp: initializeControlStream_def bq_start_def)
    ultimately show ?thesis by auto
  qed
  ultimately show ?thesis
    using invalidate_round_returns [OF q(2), of e] idr_round_returns [OF q(2), of e] by (blast intro: case_prodI2)
qed


section \<open>Initialization vectors\<close>

lemma le_bytes_inject: "le_bytes 4 x = le_bytes 4 y \<longleftrightarrow> x = (y :: u32)"
  by (metis of_le_bytes_full(2))

lemma run_seals:
  assumes "control_run ops s = Some s'"
    and "\<forall>(e', op) \<in> set ops. EncryptionFeaturesEnabled e' = EncryptionFeaturesEnabled e"
  shows "\<exists>n. seals (ctl_trace s') = seals (ctl_trace s) @ ivs e (currentEnetSequenceNumber s) n
    \<and> currentEnetSequenceNumber s' = currentEnetSequenceNumber s + of_nat n"
  using assms
proof (induction ops arbitrary: s)
  case Nil
  then show ?case by (intro exI [of _ 0]) simp
next
  case (Cons p ops)
  obtain e' op where p: "p = (e', op)" by (cases p)
  obtain t where t: "control_step e' op s = Some t" "control_run ops t = Some s'"
    using Cons.prems(1) p by (auto simp: bind_eq_Some_conv)
  have "control_iv e' = control_iv e" using Cons.prems(2) p by (intro ext) (simp add: control_iv_def)
  then have i: "ivs e' = ivs e" by (intro ext) (simp add: ivs_def)
  obtain m where m: "seals (ctl_trace t) = seals (ctl_trace s) @ ivs e (currentEnetSequenceNumber s) m"
    "currentEnetSequenceNumber t = currentEnetSequenceNumber s + of_nat m"
    using step_moves [OF t(1)] i by (auto simp: moves_def)
  have "\<exists>n. seals (ctl_trace s') = seals (ctl_trace t) @ ivs e (currentEnetSequenceNumber t) n
      \<and> currentEnetSequenceNumber s' = currentEnetSequenceNumber t + of_nat n"
    by (rule Cons.IH [OF t(2)]) (use Cons.prems p in simp)
  then obtain n where "seals (ctl_trace s') = seals (ctl_trace t) @ ivs e (currentEnetSequenceNumber t) n"
      "currentEnetSequenceNumber s' = currentEnetSequenceNumber t + of_nat n" by blast
  then show ?case using m by (intro exI [of _ "m + n"]) (simp add: ivs_append)
qed

lemma of_nat_u32_inject: "i < 2 ^ 32 \<Longrightarrow> j < 2 ^ 32 \<Longrightarrow> (of_nat i :: u32) = of_nat j \<longleftrightarrow> i = j"
proof -
  assume i: "i < 2 ^ 32" and j: "j < 2 ^ 32"
  have n: "unat (of_nat k :: u32) = k" if "k < 2 ^ 32" for k
  proof -
    have "k < 2 ^ LENGTH(32)" using that by simp
    then show ?thesis by (simp only: unsigned_of_nat take_bit_nat_eq_self of_nat_id)
  qed
  show ?thesis using n [OF i] n [OF j] by metis
qed

text \<open>
  Property C12.  With the current encryption the initialization vectors of a session are all different, up to
  2^32 messages, and none is one that the host uses, so that under the one session key no vector is ever used
  twice.  This holds across all senders: requests, statistics, input and the start of the stream.
\<close>

theorem control_iv_unique:
  assumes "control_run ops (initializeControlStream v s0) = Some s" "ctl_trace s0 = []"
    and "\<forall>(e', op) \<in> set ops. EncryptionFeaturesEnabled e' = EncryptionFeaturesEnabled e"
    and "EncryptionFeaturesEnabled e AND SS_ENC_CONTROL_V2 \<noteq> 0" "length (seals (ctl_trace s)) \<le> 2 ^ 32"
  shows "distinct (seals (ctl_trace s)) \<and> (\<forall>seq. control_iv e HOST_ORIGIN seq \<notin> set (seals (ctl_trace s)))"
proof -
  obtain n where n: "seals (ctl_trace s) = ivs e 0 n"
    using run_seals [OF assms(1,3)] assms(2) by (auto simp: initializeControlStream_def)
  have "n \<le> 2 ^ 32" using assms(5) n by (simp add: ivs_def)
  then have "inj_on (\<lambda>i. control_iv e CLIENT_ORIGIN (0 + of_nat i)) {..<n}"
    using assms(4) by (intro inj_onI) (simp add: control_iv_def le_bytes_inject of_nat_u32_inject)
  then have "distinct (ivs e 0 n)" by (simp add: ivs_def distinct_map lessThan_atLeast0)
  moreover have "control_iv e HOST_ORIGIN seq \<notin> set (ivs e 0 n)" for seq
    using assms(4) by (auto simp: ivs_def control_iv_def CLIENT_ORIGIN_def HOST_ORIGIN_def)
  ultimately show ?thesis using n by simp
qed

section \<open>The status of the connection\<close>

definition status_inv :: "control_stream \<Rightarrow> bool" where
  "status_inv s \<longleftrightarrow> distinct_adj (CONN_STATUS_OKAY # status_updates (ctl_trace s))
     \<and> last (CONN_STATUS_OKAY # status_updates (ctl_trace s)) = lastConnectionStatusUpdate s
     \<and> set (status_updates (ctl_trace s)) \<subseteq> {CONN_STATUS_OKAY, CONN_STATUS_POOR}"

lemma update_status_value:
  "lastConnectionStatusUpdate (update_status p s) \<in> {lastConnectionStatusUpdate s, CONN_STATUS_OKAY, CONN_STATUS_POOR}"
  by (simp add: update_status_def clog_def)

lemma update_status_inv: "status_inv s \<Longrightarrow> status_inv (update_status p s)"
  using update_status_value [of p s]
  by (auto simp: status_inv_def update_status_trace distinct_adj_append_iff simp flip: append_Cons)

lemma step_status_inv:
  assumes "control_step e op s = Some s'" "status_inv s"
  shows "status_inv s'"
proof (cases "silent_status s s'")
  case True
  then show ?thesis using assms(2) by (simp add: silent_status_def status_inv_def)
next
  case False
  then obtain f where "op = SawFrame f" using step_moves [OF assms(1)] by auto
  then have r: "connectionSawFrame e f s = Some s'" using assms(1) by simp
  obtain u where u: "u = s \<or> (\<exists>p. u = update_status p s)" "ctl_trace s' = ctl_trace u"
    "lastConnectionStatusUpdate s' = lastConnectionStatusUpdate u"
    by (rule saw_frame_cases [OF r])
  then have "status_inv u" using assms(2) update_status_inv by auto
  then show ?thesis using u by (simp add: status_inv_def)
qed

text \<open>
  The client's status callbacks alternate: the first one says poor, no status is reported twice in
  a row, and the last one reported is the status the component goes on from.
\<close>

theorem status_alternates:
  assumes "control_run ops (initializeControlStream v s0) = Some s" "ctl_trace s0 = []"
  shows "distinct_adj (CONN_STATUS_OKAY # status_updates (ctl_trace s))
    \<and> set (status_updates (ctl_trace s)) \<subseteq> {CONN_STATUS_OKAY, CONN_STATUS_POOR}
    \<and> lastConnectionStatusUpdate s = last (CONN_STATUS_OKAY # status_updates (ctl_trace s))"
proof -
  have "status_inv t" if "control_run xs u = Some t" "status_inv u" for xs t u
    using that
  proof (induction xs arbitrary: u)
    case (Cons p xs)
    then show ?case by (cases p) (auto simp: bind_eq_Some_conv dest: step_status_inv)
  qed simp
  moreover have "status_inv (initializeControlStream v s0)"
    using assms(2) by (simp add: status_inv_def initializeControlStream_def)
  ultimately show ?thesis using assms(1) by (auto simp: status_inv_def)
qed

end
