(* ===== verification/ControlMessages.thy ===== *)
theory ControlMessages
  imports ControlDelivery
begin

text \<open>
  The messages of the host and the callbacks they cause: an encrypted message is processed as the host wrote
  it and only if its tag is valid; the callback thread leaves out callbacks only when a later one of the same
  kind takes their place; the types of messages before the encrypted protocol are looked up past a table.
\<close>

section \<open>Encrypted messages\<close>

text \<open>What AES-GCM promises to both sides.\<close>

definition gcm_law :: "control_env \<Rightarrow> bool" where
  "gcm_law e \<longleftrightarrow> (\<forall>iv p tag ct. gcm_seal e iv p = Some (tag, ct) \<longrightarrow>
     length tag = AES_GCM_TAG_LENGTH \<and> length ct = length p \<and> gcm_open e iv tag ct = Some p)"

text \<open>A message of the host: as the client's own, under the vectors of the host.\<close>

definition host_message :: "control_env \<Rightarrow> u32 \<Rightarrow> u16 \<Rightarrow> u8 list \<Rightarrow> u8 list option" where
  "host_message e seq ptype payload =
     map_option (\<lambda>(tag, ct). encrypted_header (of_nat (4 + AES_GCM_TAG_LENGTH + 4 + length payload)) seq @ tag @ ct)
       (gcm_seal e (control_iv e HOST_ORIGIN seq) (v2_message ptype payload))"

text \<open>
  Property C35.  An encrypted message of the host is processed exactly as the host wrote it: length, sequence
  number, tag and ciphertext are found where they are, the same vector is formed, and the header is
  converted, so that type and payload arrive unchanged.
\<close>

theorem host_message_processed:
  assumes "gcm_law e" "controlEncrypted s" "ce_malloc e" "host_message e seq ptype payload = Some bytes"
    and "length payload < 2 ^ 16 - 24"
  shows "receive_packet e bytes s = process_message e (le_bytes 2 ptype @ payload) s"
proof -
  obtain tag ct where seal: "gcm_seal e (control_iv e HOST_ORIGIN seq) (v2_message ptype payload) = Some (tag, ct)"
    and bytes: "bytes = encrypted_header (of_nat (24 + length payload)) seq @ tag @ ct"
    using assms(4) by (auto simp: host_message_def AES_GCM_TAG_LENGTH_def)
  have law: "length tag = 16" "length ct = 4 + length payload"
    "gcm_open e (control_iv e HOST_ORIGIN seq) tag ct = Some (v2_message ptype payload)"
    using assms(1) seal by (auto simp: gcm_law_def AES_GCM_TAG_LENGTH_def v2_message_def)
  let ?len = "of_nat (24 + length payload) :: u16"
  have len: "unat ?len = 24 + length payload"
  proof -
    have "24 + length payload < 2 ^ LENGTH(16)" using assms(5) by simp
    then show ?thesis by (simp only: unsigned_of_nat take_bit_nat_eq_self of_nat_id)
  qed
  have b: "bytes = le_bytes 2 (1 :: u16) @ le_bytes 2 ?len @ le_bytes 4 seq @ tag @ ct"
    by (simp add: bytes encrypted_header_def LE16_def LE32_def)
  have fields: "length bytes = 28 + length payload" "take 2 bytes = le_bytes 2 (1 :: u16)" "take 2 (drop 2 bytes) = le_bytes 2 ?len"
    "take 4 (drop 4 bytes) = le_bytes 4 seq" "mem_read bytes 8 16 = Some tag" "mem_read bytes 24 (4 + length payload) = Some ct"
    using law by (simp_all add: b mem_read_def)
  have dec: "decryptControlMessageToV1 e 1 ?len seq bytes = Some (Some (le_bytes 2 ptype @ payload))"
    using len law fields assms(3)
    by (simp add: decryptControlMessageToV1_def AES_GCM_TAG_LENGTH_def v2_message_def mem_read_def LE16_def)
  show ?thesis
    using fields(1) assms(2) dec
    by (simp only: receive_packet_def fields Let_def of_le_bytes_full LE16_def LE32_def) simp
qed

lemma mem_read_Some: "mem_read m i n = Some x \<longleftrightarrow> i + n \<le> length m \<and> x = take n (drop i m)"
  by (auto simp: mem_read_def)

lemma decrypt_Some:
  assumes "decryptControlMessageToV1 e t len seq bytes = Some (Some msg)"
  obtains plain where "gcm_open e (control_iv e HOST_ORIGIN seq) (take 16 (drop 8 bytes)) (drop 24 bytes) = Some plain"
    "msg = take 2 plain @ drop 4 (take (length bytes - 24) plain)"
proof -
  define n where "n = unat len"
  show thesis
  proof (cases "t = 1 \<and> length bytes = n + 4 \<and> \<not> n < 24 \<and> ce_malloc e")
    case True
    then have r: "mem_read bytes 8 16 = Some (take 16 (drop 8 bytes))"
      "mem_read bytes 24 (n - 20) = Some (drop 24 bytes)" by (simp_all add: mem_read_Some)
    have d: "take (n - 24) (drop 4 plain) = drop 4 (take (n - 20) plain)" for plain :: "u8 list"
      by (simp add: drop_take)
    show thesis
      using assms that True
      unfolding decryptControlMessageToV1_def Let_def AES_GCM_TAG_LENGTH_def n_def [symmetric]
      by (cases "gcm_open e (control_iv e HOST_ORIGIN seq) (take 16 (drop 8 bytes)) (drop 24 bytes)")
        (auto simp: r d bind_eq_Some_conv mem_read_Some)
  next
    case False
    then show thesis using assms
      unfolding decryptControlMessageToV1_def AES_GCM_TAG_LENGTH_def n_def [symmetric]
      by (auto simp: LC_ASSERT_def split: if_splits)
  qed
qed

text \<open>
  Property C17.  On an encrypted stream nothing but a message with a valid tag has an effect: whatever arrives,
  either the state stays as it is and the thread goes on, or the cipher accepted the tag under a vector of
  the host, and the message that is processed is the decrypted one.
\<close>

theorem only_authenticated_messages:
  assumes "controlEncrypted s" "receive_packet e bytes s = Some (go, s')"
  shows "(go \<and> s' = s) \<or> (\<exists>seq plain msg. gcm_open e (control_iv e HOST_ORIGIN seq) (take 16 (drop 8 bytes)) (drop 24 bytes) = Some plain
    \<and> msg = take 2 plain @ drop 4 (take (length bytes - 24) plain) \<and> process_message e msg s = Some (go, s'))"
proof (cases "length bytes < 8 \<or> of_le_bytes (take 2 bytes) \<noteq> (1 :: u16)")
  case True
  then show ?thesis using assms by (auto simp: receive_packet_def LE16_def Let_def split: if_splits)
next
  case False
  let ?len = "of_le_bytes (take 2 (drop 2 bytes)) :: u16"
  let ?seq = "of_le_bytes (take 4 (drop 4 bytes)) :: u32"
  obtain m where m: "decryptControlMessageToV1 e 1 ?len ?seq bytes = Some m"
    and r: "(case m of None \<Rightarrow> Some (True, s) | Some m \<Rightarrow> process_message e m s) = Some (go, s')"
    using assms False by (auto simp: receive_packet_def LE16_def LE32_def Let_def bind_eq_Some_conv)
  show ?thesis
  proof (cases m)
    case None
    then show ?thesis using r by simp
  next
    case (Some msg)
    obtain plain where "gcm_open e (control_iv e HOST_ORIGIN ?seq) (take 16 (drop 8 bytes)) (drop 24 bytes) = Some plain"
      "msg = take 2 plain @ drop 4 (take (length bytes - 24) plain)"
      by (rule decrypt_Some [OF m [unfolded Some]])
    then show ?thesis using r Some by auto
  qed
qed

section \<open>The tables of types\<close>

lemma any_type_step:
  assumes "ix < length (packetTypes (variant s))"
  shows "any_type t (ix # ixs) s = (if uint t = packetTypes (variant s) ! ix then Some True else any_type t ixs s)"
  using assms by (simp add: is_type_def)

lemma any_type_past: "length (packetTypes (variant s)) \<le> ix \<Longrightarrow> any_type t (ix # ixs) s = None"
  by (simp add: is_type_def nth_opt_def)

lemma needsAsyncCallback_eq:
  assumes "length (packetTypes (variant s)) \<ge> 12"
  shows "needsAsyncCallback t s = (if uint t \<in> {packetTypes (variant s) ! 6, packetTypes (variant s) ! 8,
      packetTypes (variant s) ! 9, packetTypes (variant s) ! 10, packetTypes (variant s) ! 11} then Some True else any_type t [12] s)"
proof -
  have "needsAsyncCallback t s = any_type t [6, 9, 10, 11, 8, 12] s" by (simp only: needsAsyncCallback_def idx_defs)
  also have "\<dots> = (if uint t = packetTypes (variant s) ! 6 then Some True else if uint t = packetTypes (variant s) ! 9 then Some True
      else if uint t = packetTypes (variant s) ! 10 then Some True else if uint t = packetTypes (variant s) ! 11 then Some True
      else if uint t = packetTypes (variant s) ! 8 then Some True else any_type t [12] s)"
    using assms by (simp add: any_type_step del: any_type.simps)
  finally show ?thesis by simp
qed

lemma uint_not_negative: "uint (t :: u16) \<noteq> - 1"
  using uint_ge_0 [of t] by linarith

text \<open>
  Property C39.  The test for callbacks reads past the table of types for every host before the encrypted
  protocol: the tables have twelve entries and the test looks up the thirteenth for each message that is not
  a rumble or HDR message, so the host's termination message is one of them.  With the encrypted protocol
  the test stays inside.
\<close>

theorem callback_test_overread:
  assumes "variant s = select_variant v"
  shows "(if vq0 v \<notin> {3, 4, 5} \<and> APP_VERSION_AT_LEAST v 7 1 431 then needsAsyncCallback t s \<noteq> None
    else t \<notin> {0x010b, 0x010e} \<longrightarrow> needsAsyncCallback t s = None)"
proof -
  let ?p = "packetTypes (variant s)"
  have l: "length ?p \<ge> 12" using variant_tables [of v] assms by simp
  show ?thesis
  proof (cases "vq0 v \<notin> {3, 4, 5} \<and> APP_VERSION_AT_LEAST v 7 1 431")
    case True
    then have "length ?p = 13" using assms by (simp add: select_variant_def packetTypesGen7Enc_def)
    then have "any_type t [12] s \<noteq> None" by (auto simp: any_type_step simp del: any_type.simps(2))
    then show ?thesis using True by (auto simp: needsAsyncCallback_eq [OF l] simp del: any_type.simps)
  next
    case False
    then have p: "length ?p = 12 \<and> ?p ! 6 \<in> {- 1, 0x010b} \<and> ?p ! 8 \<in> {- 1, 0x010e} \<and> ?p ! 9 = - 1 \<and> ?p ! 10 = - 1 \<and> ?p ! 11 = - 1"
      using assms by (auto simp: select_variant_def packetTypesGen3_def packetTypesGen4_def packetTypesGen5_def packetTypesGen7_def)
    have "needsAsyncCallback t s = None" if "t \<notin> {0x010b, 0x010e}"
    proof -
      have "uint t \<noteq> 0x010b" "uint t \<noteq> 0x010e"
        using that by (auto simp: word_uint_eq_iff)
      then have "uint t \<notin> {?p ! 6, ?p ! 8, ?p ! 9, ?p ! 10, ?p ! 11}"
        using p uint_not_negative [of t] by (elim conjE) auto
      moreover have "any_type t [12] s = None" by (rule any_type_past) (use p in simp)
      ultimately show ?thesis by (simp only: needsAsyncCallback_eq [OF l] if_False)
    qed
    then show ?thesis by (simp only: False if_False) blast
  qed
qed

section \<open>Callbacks\<close>

text \<open>What a callback sets: the rumble, triggers or light of a controller, or the HDR mode.  The other kinds are never combined.\<close>

fun target :: "async_callback \<Rightarrow> (nat \<times> u16) option" where
  "target (RumbleData n _ _) = Some (0, n)"
| "target (RumbleTriggers n _ _) = Some (1, n)"
| "target (SetRgbLed n _ _ _) = Some (2, n)"
| "target HdrInfo = Some (3, 0)"
| "target _ = None"

fun made_of :: "control_event \<Rightarrow> async_callback list" where
  "made_of (MadeCallback cb) = [cb]"
| "made_of (MadeHdrCallback _) = [HdrInfo]"
| "made_of _ = []"

definition made :: "control_event list \<Rightarrow> async_callback list" where
  "made evs = concat (map made_of evs)"

lemma made_simps [simp]: "made [] = []" "made (ev # evs) = made_of ev @ made evs" "made (xs @ ys) = made xs @ made ys"
  by (simp_all add: made_def)

lemma batches_with_target: "batches_with cb cb' \<longleftrightarrow> target cb \<noteq> None \<and> target cb' = target cb"
  by (cases cb; cases cb') auto

text \<open>What the callbacks leave each target set to, and the callbacks that are never combined.\<close>

definition latest :: "(nat \<times> u16) \<Rightarrow> async_callback list \<Rightarrow> async_callback option" where
  "latest k cbs = (if filter (\<lambda>cb. target cb = Some k) cbs = [] then None else Some (last (filter (\<lambda>cb. target cb = Some k) cbs)))"

lemma latest_append: "latest k (xs @ ys) = (case latest k ys of None \<Rightarrow> latest k xs | Some cb \<Rightarrow> Some cb)"
  by (simp add: latest_def)

lemma batch_callbacks_spec:
  assumes "\<not> closed (asyncCallbackQueue s)" "contents (asyncCallbackQueue s) = cbs" "length cbs \<le> n"
  shows "\<exists>k \<le> length cbs. batch_callbacks n cb s
      = (last (cb # take k cbs), s\<lparr>asyncCallbackQueue := (asyncCallbackQueue s)\<lparr>contents := drop k cbs\<rparr>\<rparr>)
    \<and> (0 < k \<longrightarrow> target cb \<noteq> None) \<and> (\<forall>c \<in> set (take k cbs). target c = target cb)"
  using assms
proof (induction n arbitrary: cb cbs s)
  case 0
  then have "asyncCallbackQueue s = (asyncCallbackQueue s)\<lparr>contents := []\<rparr>" by simp
  then show ?case using 0 by simp
next
  case (Suc n)
  let ?q = "asyncCallbackQueue s"
  have same: "s = s\<lparr>asyncCallbackQueue := ?q\<lparr>contents := cbs\<rparr>\<rparr>" using Suc.prems(2) by simp
  show ?case
  proof (cases cbs)
    case Nil
    then show ?thesis using Suc.prems same by (auto simp: q_take_def bq_get_def)
  next
    case (Cons c cs)
    show ?thesis
    proof (cases "batches_with cb c")
      case False
      then show ?thesis using Suc.prems same Cons
        by (intro exI [of _ 0]) (simp add: q_take_def bq_get_def)
    next
      case True
      let ?t = "s\<lparr>asyncCallbackQueue := ?q\<lparr>contents := cs\<rparr>\<rparr>"
      obtain k where k: "k \<le> length cs" "batch_callbacks n c ?t
          = (last (c # take k cs), ?t\<lparr>asyncCallbackQueue := (asyncCallbackQueue ?t)\<lparr>contents := drop k cs\<rparr>\<rparr>)"
        "\<forall>d \<in> set (take k cs). target d = target c"
        using Suc.IH [of ?t cs c] Suc.prems Cons by auto
      have "batch_callbacks (Suc n) cb s = batch_callbacks n c ?t"
        using True Suc.prems Cons by (simp add: q_take_def bq_get_def)
      then show ?thesis using k True Cons
        by (intro exI [of _ "Suc k"]) (auto simp: batches_with_target)
    qed
  qed
qed

lemma asyncCallback_round_spec:
  assumes "\<not> closed (asyncCallbackQueue s)" "\<not> wake (asyncCallbackQueue s)" "contents (asyncCallbackQueue s) = cb # cbs"
  shows "\<exists>k s'. k \<le> length cbs \<and> asyncCallback_round s = (True, s')
    \<and> asyncCallbackQueue s' = (asyncCallbackQueue s)\<lparr>contents := drop k cbs\<rparr>
    \<and> (\<exists>ev. ctl_trace s' = ctl_trace s @ [ev] \<and> made_of ev = [last (cb # take k cbs)])
    \<and> (0 < k \<longrightarrow> target cb \<noteq> None) \<and> (\<forall>c \<in> set (take k cbs). target c = target cb)"
proof -
  let ?q = "asyncCallbackQueue s"
  let ?t = "s\<lparr>asyncCallbackQueue := ?q\<lparr>contents := cbs\<rparr>\<rparr>"
  obtain k where k: "k \<le> length cbs" "batch_callbacks (length cbs) cb ?t
      = (last (cb # take k cbs), ?t\<lparr>asyncCallbackQueue := (asyncCallbackQueue ?t)\<lparr>contents := drop k cbs\<rparr>\<rparr>)"
    "0 < k \<longrightarrow> target cb \<noteq> None" "\<forall>c \<in> set (take k cbs). target c = target cb"
    using batch_callbacks_spec [of ?t cbs "length cbs" cb] assms by auto
  have w: "bq_step Wait ?q = (Status LBQ_SUCCESS (Some cb), ?q\<lparr>contents := cbs\<rparr>)"
    using assms by (simp add: bq_get_def)
  have m: "asyncCallbackQueue (make_callback c u) = asyncCallbackQueue u"
    "\<exists>ev. ctl_trace (make_callback c u) = ctl_trace u @ [ev] \<and> made_of ev = [c]" for c u
    by (cases c; simp add: make_callback_def clog_def)+
  have r: "asyncCallback_round s = (True, make_callback (last (cb # take k cbs))
      (?t\<lparr>asyncCallbackQueue := (asyncCallbackQueue ?t)\<lparr>contents := drop k cbs\<rparr>\<rparr>))"
    using w k(2) by (simp add: asyncCallback_round_def)
  show ?thesis
    using k(1,3,4) m(1) m(2) [of "last (cb # take k cbs)" "?t\<lparr>asyncCallbackQueue := (asyncCallbackQueue ?t)\<lparr>contents := drop k cbs\<rparr>\<rparr>"]
    unfolding r by (intro exI [of _ k]) simp
qed

fun callback_rounds :: "nat \<Rightarrow> control_stream \<Rightarrow> control_stream" where
  "callback_rounds 0 s = s"
| "callback_rounds (Suc n) s = callback_rounds n (snd (asyncCallback_round s))"

lemma latest_batch:
  assumes "0 < length xs \<longrightarrow> target cb \<noteq> None" "\<forall>c \<in> set xs. target c = target cb"
  shows "latest k [last (cb # xs)] = latest k (cb # xs)"
    and "filter (\<lambda>c. target c = None) [last (cb # xs)] = filter (\<lambda>c. target c = None) (cb # xs)"
proof -
  have t: "target (last (cb # xs)) = target cb" using assms(2) by (cases "xs = []") simp_all
  have f: "filter (\<lambda>c. target c = k) (cb # xs) = (if target cb = k then cb # xs else [])" for k
    using assms(2) by (simp add: filter_empty_conv filter_id_conv)
  show "latest k [last (cb # xs)] = latest k (cb # xs)" unfolding latest_def f using t by (simp del: last.simps(1)) simp
  show "filter (\<lambda>c. target c = None) [last (cb # xs)] = filter (\<lambda>c. target c = None) (cb # xs)"
  proof (cases "target cb")
    case None
    then show ?thesis using assms(1) by simp
  next
    case (Some k)
    then show ?thesis using f [of None] t by (simp del: last.simps)
  qed
qed

text \<open>
  Property C23.  Combining callbacks loses nothing: once the thread has emptied the queue, every controller's
  rumble, triggers and light and the HDR mode are set by the last callback that was queued for them, and
  the callbacks of the other kinds were all made, in their order.
\<close>

theorem callbacks_latest:
  assumes "\<not> closed (asyncCallbackQueue s)" "\<not> wake (asyncCallbackQueue s)" "length (contents (asyncCallbackQueue s)) \<le> n"
  shows "\<exists>evs. ctl_trace (callback_rounds n s) = ctl_trace s @ evs \<and> contents (asyncCallbackQueue (callback_rounds n s)) = []
    \<and> (\<forall>k. latest k (made evs) = latest k (contents (asyncCallbackQueue s)))
    \<and> filter (\<lambda>cb. target cb = None) (made evs) = filter (\<lambda>cb. target cb = None) (contents (asyncCallbackQueue s))"
  using assms
proof (induction n arbitrary: s)
  case 0
  then show ?case by simp
next
  case (Suc n)
  let ?q = "asyncCallbackQueue s"
  show ?case
  proof (cases "contents ?q")
    case Nil
    then have "snd (asyncCallback_round s) = s" using Suc.prems by (simp add: asyncCallback_round_def bq_get_def)
    then show ?thesis using Suc.IH [of s] Suc.prems Nil by simp
  next
    case (Cons cb cbs)
    obtain k t ev where t: "k \<le> length cbs" "asyncCallback_round s = (True, t)"
      "asyncCallbackQueue t = ?q\<lparr>contents := drop k cbs\<rparr>" "ctl_trace t = ctl_trace s @ [ev]" "made_of ev = [last (cb # take k cbs)]"
      "0 < k \<longrightarrow> target cb \<noteq> None" "\<forall>c \<in> set (take k cbs). target c = target cb"
      using asyncCallback_round_spec [OF Suc.prems(1,2) Cons] by blast
    obtain evs where e: "ctl_trace (callback_rounds n t) = ctl_trace t @ evs" "contents (asyncCallbackQueue (callback_rounds n t)) = []"
      "\<forall>j. latest j (made evs) = latest j (drop k cbs)"
      "filter (\<lambda>cb. target cb = None) (made evs) = filter (\<lambda>cb. target cb = None) (drop k cbs)"
    proof -
      have "length cbs - k \<le> n" using Suc.prems(3) Cons by simp
      then have "\<exists>evs. ctl_trace (callback_rounds n t) = ctl_trace t @ evs \<and> contents (asyncCallbackQueue (callback_rounds n t)) = []
          \<and> (\<forall>j. latest j (made evs) = latest j (drop k cbs))
          \<and> filter (\<lambda>cb. target cb = None) (made evs) = filter (\<lambda>cb. target cb = None) (drop k cbs)"
        using Suc.IH [of t] Suc.prems(1,2) t(3) by simp
      then show thesis by (elim exE conjE) (rule that)
    qed
    have split: "contents ?q = (cb # take k cbs) @ drop k cbs" using Cons by simp
    have p: "0 < length (take k cbs) \<longrightarrow> target cb \<noteq> None" using t(6) by simp
    have "latest j (made (ev # evs)) = latest j (contents ?q)" for j
      unfolding split made_simps t(5) latest_append latest_batch(1) [OF p t(7)] by (simp only: e(3) [rule_format])
    moreover have "filter (\<lambda>cb. target cb = None) (made (ev # evs)) = filter (\<lambda>cb. target cb = None) (contents ?q)"
      unfolding split made_simps t(5) filter_append latest_batch(2) [OF p t(7)] e(4) by (rule refl)
    ultimately show ?thesis using t(2,4) e(1,2) by (intro exI [of _ "ev # evs"]) simp
  qed
qed

end
