(* ===== verification/ControlSession.thy ===== *)
theory ControlSession
  imports ControlDelivery
begin

text \<open>
  Starting and stopping the control stream: a start that fails leaves no thread, no socket and no ENet host
  behind and never waits for a thread that does not end; a stop gives back what a successful start made.
\<close>

definition ctl_at_rest :: "control_stream \<Rightarrow> bool" where
  "ctl_at_rest s \<longleftrightarrow> running s = [] \<and> \<not> ctlSock s \<and> \<not> enetClient s \<and> \<not> enetPeer s"

text \<open>The stream runs with these threads.\<close>

definition runs_with :: "control_env \<Rightarrow> ctl_thread list \<Rightarrow> control_stream \<Rightarrow> bool" where
  "runs_with e ts s \<longleftrightarrow> running s = ts \<and> (ctlSock s \<longleftrightarrow> vq0 (ce_version e) < 5)
     \<and> (enetClient s \<longleftrightarrow> vq0 (ce_version e) \<ge> 5) \<and> (enetPeer s \<longleftrightarrow> vq0 (ce_version e) \<ge> 5)"

definition all_threads :: "control_env \<Rightarrow> ctl_thread list" where
  "all_threads e = (if isReferenceFrameInvalidationEnabled e = Some True then [InvRefFrames] else [])
     @ [CtrlAsyncCb, ReqIdrFrame, LossStats, ControlRecv]"

section \<open>Sending changes nothing but the trace and the sequence number\<close>

definition same_rest :: "control_stream \<Rightarrow> control_stream \<Rightarrow> bool" where
  "same_rest s s' \<longleftrightarrow> s'\<lparr>currentEnetSequenceNumber := 0, ctl_trace := []\<rparr> = s\<lparr>currentEnetSequenceNumber := 0, ctl_trace := []\<rparr>"

lemma same_rest_refl [simp]: "same_rest s s"
  by (simp add: same_rest_def)

lemma same_rest_trans: "same_rest s t \<Longrightarrow> same_rest t u \<Longrightarrow> same_rest s u"
  by (simp add: same_rest_def)

lemma same_rest_clog: "same_rest s t \<Longrightarrow> same_rest s (clog ev t)"
  by (simp add: same_rest_def clog_def)

lemma same_rest_fields:
  assumes "same_rest s s'"
  shows "running s' = running s" "ctlSock s' = ctlSock s" "enetClient s' = enetClient s" "enetPeer s' = enetPeer s"
    "variant s' = variant s"
  using arg_cong [OF assms [unfolded same_rest_def], of running] arg_cong [OF assms [unfolded same_rest_def], of ctlSock]
    arg_cong [OF assms [unfolded same_rest_def], of enetClient] arg_cong [OF assms [unfolded same_rest_def], of enetPeer]
    arg_cong [OF assms [unfolded same_rest_def], of variant]
  by simp_all

lemma wait_until_sent_same: "same_rest s (snd (wait_until_sent n e err s))"
proof (induction n arbitrary: err s)
  case (Suc n)
  let ?t = "clog EnetServiced (clog (SleepMs 1) s)"
  have "same_rest s ?t" by (intro same_rest_clog same_rest_refl)
  then show ?case using same_rest_trans [OF _ Suc [of ?t "host_service e (ctl_trace ?t)"]] by (auto simp: Let_def)
qed simp

lemma hand_to_enet_same: "same_rest s (snd (hand_to_enet e bytes channel flags m s))"
proof -
  have "same_rest s (clog EnetServiced (clog (EnetQueued bytes c flags) s))"
    "same_rest s (clog (EnetQueued bytes c flags) s)" for c
    by (intro same_rest_clog same_rest_refl)+
  then show ?thesis
    using same_rest_trans wait_until_sent_same by (fastforce simp: hand_to_enet_def Let_def split_beta)
qed

lemma sendMessageEnet_same:
  assumes "sendMessageEnet e t n p channel flags m s = Some (ok, s')"
  shows "same_rest s s'"
proof -
  let ?u = "clog (Sealed (control_iv e CLIENT_ORIGIN (currentEnetSequenceNumber s)))
     (s\<lparr>currentEnetSequenceNumber := currentEnetSequenceNumber s + 1\<rparr>)"
  have u: "same_rest s ?u" by (simp add: same_rest_def clog_def)
  have h: "same_rest s r" if "Some (hand_to_enet e bytes c f m u) = Some (ok', r)" "same_rest s u" for bytes c f m u ok' r
    using hand_to_enet_same [of u e bytes c f m] same_rest_trans [OF that(2)] that(1) by simp
  show ?thesis
    using assms h u by (auto simp: sendMessageEnet_def Let_def bind_eq_Some_conv split: if_splits option.splits)
qed

lemma sendMessageTcp_same: "sendMessageTcp e t n p s = Some (ok, s') \<Longrightarrow> same_rest s s'"
  by (auto simp: sendMessageTcp_def Let_def bind_eq_Some_conv intro!: same_rest_clog split: if_splits)

lemma send_start_same:
  assumes "send_start e ix s = Some (ok, s')"
  shows "same_rest s s'"
proof -
  obtain t n p where "sendMessageAndDiscardReply e t n p CHANNEL_GENERIC FLAG_RELIABLE False s = Some (ok, s')"
    using assms by (auto simp: send_start_def bind_eq_Some_conv)
  then show ?thesis
    using sendMessageEnet_same sendMessageTcp_same same_rest_clog
    by (auto simp: sendMessageAndDiscardReply_def bind_eq_Some_conv split: if_splits)
qed

lemma send_start_returns:
  assumes "variant s = select_variant v" "ix < 2"
  shows "send_start e ix s \<noteq> None"
proof -
  obtain t where t: "type_at ix s = Some t" using lookups(1) [OF assms(1), of ix] assms(2) by auto
  obtain p where p: "length_at ix s = Some (length p)" "payload_at ix s = Some p" "length p \<le> 16"
    using lookups(2) [OF assms] by auto
  show ?thesis using sends_return [of "length p" p] p by (auto simp: send_start_def t)
qed

section \<open>Joining\<close>

text \<open>A thread is asked to end.\<close>

definition asked :: "ctl_thread \<Rightarrow> control_stream \<Rightarrow> bool" where
  "asked t s \<longleftrightarrow> can_end t (interrupt_thread t s)"

lemma asked_interrupt [simp]: "asked t (interrupt_thread u s) \<longleftrightarrow> asked t s"
  by (cases t) (auto simp: asked_def can_end_def interrupt_thread_def interrupted_def transport_ends_def)

lemma asked_running [simp]: "asked t (s\<lparr>running := ts\<rparr>) \<longleftrightarrow> asked t s"
  by (cases t) (auto simp: asked_def can_end_def interrupt_thread_def interrupted_def transport_ends_def)

lemma stop_thread_ok:
  assumes "t \<in> set (running s)" "asked t s"
  shows "stop_thread t s = Some ((interrupt_thread t s)\<lparr>running := removeAll t (running s)\<rparr>)"
  using assms by (simp add: stop_thread_def join_thread_def asked_def interrupt_thread_def)

lemma stop_threads_ok:
  assumes "distinct ts" "set ts \<subseteq> set (running s)" "\<forall>t \<in> set ts. asked t s"
  shows "\<exists>i. stop_threads ts s = Some (s\<lparr>running := filter (\<lambda>t. t \<notin> set ts) (running s), ctl_interrupted := i\<rparr>)"
  using assms
proof (induction ts arbitrary: s)
  case Nil
  show ?case by (intro exI [of _ "ctl_interrupted s"]) simp
next
  case (Cons t ts)
  let ?u = "(interrupt_thread t s)\<lparr>running := removeAll t (running s)\<rparr>"
  have u: "stop_thread t s = Some ?u" by (rule stop_thread_ok) (use Cons.prems in auto)
  obtain i where "stop_threads ts ?u = Some (?u\<lparr>running := filter (\<lambda>t. t \<notin> set ts) (running ?u), ctl_interrupted := i\<rparr>)"
    using Cons.IH [of ?u] Cons.prems by auto
  moreover have "filter (\<lambda>t. t \<notin> set ts) (removeAll t (running s)) = filter (\<lambda>r. r \<notin> set (t # ts)) (running s)"
    by (simp add: removeAll_filter_not_eq conj_commute) (metis (no_types, lifting))
  ultimately show ?case using u by (auto simp: interrupt_thread_def)
qed

lemma fail_start_ok:
  assumes "runs_with e ts s" "set threads = set ts" "distinct threads" "\<forall>t \<in> set threads. asked t (shut_transport s)"
  shows "\<exists>s'. fail_start err threads s = Some (err, s') \<and> ctl_at_rest s' \<and> (stopping s \<longrightarrow> stopping s')"
proof -
  let ?t = "shut_transport s"
  have r: "running ?t = running s" by (simp add: shut_transport_def)
  obtain i where i: "stop_threads threads ?t = Some (?t\<lparr>running := filter (\<lambda>t. t \<notin> set threads) (running ?t), ctl_interrupted := i\<rparr>)"
    using stop_threads_ok [of threads ?t] assms r by (auto simp: runs_with_def)
  show ?thesis using assms(1,2) i
    by (auto simp: fail_start_def close_transport_def shut_transport_def ctl_at_rest_def runs_with_def clog_def)
qed

section \<open>The outcome of a start\<close>

lemma runs_with_rest: "same_rest s s' \<Longrightarrow> runs_with e ts s \<Longrightarrow> runs_with e ts s'"
  by (auto simp: runs_with_def same_rest_fields)

lemma runs_with_spawn: "runs_with e ts s \<Longrightarrow> runs_with e (t # ts) (spawn t s)"
  by (simp add: runs_with_def spawn_def)

lemma LastSocketFail_nonzero [simp]: "LastSocketFail e \<noteq> 0"
  by (simp add: LastSocketFail_def)

text \<open>What a step of the start gives: all threads and the transport, or an error and nothing.\<close>

definition outcome :: "control_env \<Rightarrow> (int \<times> control_stream) option \<Rightarrow> bool" where
  "outcome e m \<longleftrightarrow> (\<exists>err s. m = Some (err, s)
     \<and> (if err = 0 then runs_with e (all_threads e) s else ctl_at_rest s \<and> stopping s))"

lemma asked_simps:
  "asked ControlRecv (shut_transport s)" "asked LossStats (shut_transport s)"
  "asked ReqIdrFrame (shut_transport s) \<longleftrightarrow> stopping s \<and> idrFrameRequired s"
  "asked CtrlAsyncCb (shut_transport s) \<longleftrightarrow> closed (asyncCallbackQueue s) \<or> ending (asyncCallbackQueue s)"
  by (simp_all add: asked_def can_end_def interrupt_thread_def interrupted_def transport_ends_def shut_transport_def)

lemma failure_outcome:
  assumes "runs_with e ts s" "set threads = set ts" "distinct threads" "\<forall>t \<in> set threads. asked t (shut_transport s)"
    and "err \<noteq> 0" "stopping s"
  shows "outcome e (fail_start err threads s)"
  using fail_start_ok [OF assms(1-4), of err] assms(5,6) by (auto simp: outcome_def)

lemma stopping_runs:
  "runs_with e ts (stopping_now s) = runs_with e ts s" "runs_with e ts (stopping_wake s) = runs_with e ts s"
  "runs_with e ts (stopping_wake_all s) = runs_with e ts s"
  "stopping (stopping_now s)" "stopping (stopping_wake s)" "stopping (stopping_wake_all s)"
  "idrFrameRequired (stopping_wake s)" "idrFrameRequired (stopping_wake_all s)" "closed (asyncCallbackQueue (stopping_wake_all s))"
  by (simp_all add: runs_with_def stopping_now_def stopping_wake_def stopping_wake_all_def)

lemma start_rfi_outcome:
  assumes "runs_with e [CtrlAsyncCb, ReqIdrFrame, LossStats, ControlRecv] s" "isReferenceFrameInvalidationEnabled e \<noteq> None"
  shows "outcome e (start_rfi_thread e s)"
proof -
  have "outcome e (fail_start (create_thread e InvRefFrames) [LossStats, ControlRecv, ReqIdrFrame, CtrlAsyncCb] (stopping_wake_all s))"
    if "create_thread e InvRefFrames \<noteq> 0"
    by (rule failure_outcome [of e "[CtrlAsyncCb, ReqIdrFrame, LossStats, ControlRecv]"])
      (use assms that in \<open>auto simp: stopping_runs asked_simps\<close>)
  then show ?thesis
    using assms runs_with_spawn [OF assms(1), of InvRefFrames]
    by (cases "isReferenceFrameInvalidationEnabled e") (auto simp: start_rfi_thread_def outcome_def all_threads_def)
qed

lemma start_threads_outcome:
  assumes r: "runs_with e [ControlRecv] s" and rfi: "isReferenceFrameInvalidationEnabled e \<noteq> None"
  shows "outcome e (start_threads e s)"
proof -
  let ?a = "spawn LossStats s"
  let ?b = "spawn ReqIdrFrame ?a"
  have a: "runs_with e [LossStats, ControlRecv] ?a" by (rule runs_with_spawn [OF r])
  have b: "runs_with e [ReqIdrFrame, LossStats, ControlRecv] ?b" by (rule runs_with_spawn [OF a])
  have 1: "outcome e (fail_start (create_thread e LossStats) [ControlRecv] (stopping_now s))" if "create_thread e LossStats \<noteq> 0"
    by (rule failure_outcome [of e "[ControlRecv]"]) (use r that in \<open>simp_all add: stopping_runs asked_simps\<close>)
  have 2: "outcome e (fail_start (create_thread e ReqIdrFrame) [LossStats, ControlRecv] (stopping_now ?a))" if "create_thread e ReqIdrFrame \<noteq> 0"
    by (rule failure_outcome [OF _ _ _ _ that]) (use a in \<open>auto simp: stopping_runs asked_simps\<close>)
  have 3: "outcome e (fail_start (create_thread e CtrlAsyncCb) [LossStats, ControlRecv, ReqIdrFrame] (stopping_wake ?b))" if "create_thread e CtrlAsyncCb \<noteq> 0"
    by (rule failure_outcome [of e "[ReqIdrFrame, LossStats, ControlRecv]"]) (use b that in \<open>auto simp: stopping_runs asked_simps\<close>)
  show ?thesis unfolding start_threads_def Let_def
    using 1 2 3 start_rfi_outcome [OF runs_with_spawn [OF b] rfi] by simp
qed

lemma start_messages_outcome:
  assumes r: "runs_with e [ControlRecv] s" and rfi: "isReferenceFrameInvalidationEnabled e \<noteq> None"
    and v: "variant s = select_variant v"
  shows "outcome e (start_messages e s)"
proof -
  have f: "outcome e (fail_start (LastSocketFail e) [ControlRecv] (stopping_now t))" if "runs_with e [ControlRecv] t" for t
    by (rule failure_outcome [of e "[ControlRecv]"]) (use that in \<open>simp_all add: stopping_runs asked_simps\<close>)
  obtain ok t where t: "send_start e IDX_START_A s = Some (ok, t)" using send_start_returns [OF v, of IDX_START_A e] by (auto simp: idx_defs)
  have t1: "runs_with e [ControlRecv] t" "variant t = select_variant v"
    using send_start_same [OF t] runs_with_rest r v same_rest_fields(5) by auto
  obtain ok' u where u: "send_start e IDX_START_B t = Some (ok', u)" using send_start_returns [OF t1(2), of IDX_START_B e] by (auto simp: idx_defs)
  have u1: "runs_with e [ControlRecv] u" using send_start_same [OF u] runs_with_rest t1(1) by blast
  show ?thesis using f [OF t1(1)] f [OF u1] start_threads_outcome [OF u1 rfi] by (simp add: start_messages_def t u)
qed

text \<open>
  Property C15.  Starting from rest returns whatever fails: the creation of the ENet host, the connection, the
  creation of any thread, or a start message.  Success means that every thread runs and the
  transport of the host's version is open.  After an error no thread, socket, peer or ENet host is left, and
  the component is marked as stopping; no failure path waits for a thread that was not asked to end.
\<close>

theorem control_start_outcome:
  assumes "ctl_at_rest s" "variant s = select_variant (ce_version e)" "isReferenceFrameInvalidationEnabled e \<noteq> None"
    and "(ControlPortNumber b \<noteq> 0) = (vq0 (ce_version e) \<ge> 5)" "connect_result b \<noteq> Service_event NoEvent"
  shows "\<exists>err s'. startControlStream e b s = Some (err, s')
    \<and> (if err = 0 then runs_with e (all_threads e) s' else ctl_at_rest s' \<and> stopping s')"
proof -
  have conn: "\<exists>err t. connect_transport e b s = Some (err, t) \<and> variant t = variant s
      \<and> (if err = 0 then runs_with e [] t else ctl_at_rest t \<and> stopping t)"
  proof (cases "vq0 (ce_version e) \<ge> 5")
    case True
    have err: "\<exists>err. connect_error e b = Some err \<and> err \<noteq> 0" if "connect_result b \<noteq> Service_event Connected"
      using assms(5) that
      by (cases "connect_result b") (auto simp: connect_error_def ETIMEDOUT_def split: enet_event.split elim: event_type.elims)
    have p: "ControlPortNumber b \<noteq> 0" using True assms(4) by simp
    consider "\<not> host_create_ok b" | "host_create_ok b" "\<not> host_connect_ok b"
      | "host_create_ok b" "host_connect_ok b" "connect_result b \<noteq> Service_event Connected"
      | "host_create_ok b" "host_connect_ok b" "connect_result b = Service_event Connected" by blast
    then show ?thesis
    proof cases
      case 3
      then show ?thesis using True assms(1) p err by (auto simp: connect_transport_def ctl_at_rest_def Let_def)
    qed (use True assms(1) p in \<open>simp_all add: connect_transport_def ctl_at_rest_def runs_with_def clog_def Let_def\<close>)
  next
    case False
    then show ?thesis using assms(1,4) by (auto simp: connect_transport_def ctl_at_rest_def runs_with_def)
  qed
  then obtain err t where t: "connect_transport e b s = Some (err, t)" "variant t = variant s"
      "if err = 0 then runs_with e [] t else ctl_at_rest t \<and> stopping t" by blast
  have r: "runs_with e [ControlRecv] (spawn ControlRecv t)" "variant (spawn ControlRecv t) = select_variant (ce_version e)" if "err = 0"
    using runs_with_spawn [of e "[]" t] t that assms(2) by (simp_all add: spawn_def)
  have "ctl_at_rest (close_transport (stopping_now t)) \<and> stopping (close_transport (stopping_now t))" if "err = 0"
    using t(3) that by (auto simp: close_transport_def stopping_now_def ctl_at_rest_def runs_with_def clog_def)
  then have "outcome e (startControlStream e b s)"
    using t start_messages_outcome [OF r(1) assms(3) r(2)] by (auto simp: startControlStream_def outcome_def)
  then show ?thesis by (simp add: outcome_def)
qed

section \<open>Stopping\<close>

lemma join_threads_ok:
  assumes "distinct ts" "set ts \<subseteq> set (running s)" "\<forall>t \<in> set ts. can_end t s"
  shows "join_threads ts s = Some (s\<lparr>running := filter (\<lambda>t. t \<notin> set ts) (running s)\<rparr>)"
  using assms
proof (induction ts arbitrary: s)
  case Nil
  show ?case by simp
next
  case (Cons t ts)
  let ?u = "s\<lparr>running := removeAll t (running s)\<rparr>"
  have "can_end r ?u = can_end r s" for r by (cases r) (simp_all add: can_end_def interrupted_def transport_ends_def)
  then have "join_threads ts ?u = Some (?u\<lparr>running := filter (\<lambda>t. t \<notin> set ts) (running ?u)\<rparr>)"
    using Cons.IH [of ?u] Cons.prems by auto
  moreover have "filter (\<lambda>t. t \<notin> set ts) (removeAll t (running s)) = filter (\<lambda>r. r \<notin> set (t # ts)) (running s)"
    by (simp add: removeAll_filter_not_eq conj_commute) (metis (no_types, lifting))
  ultimately show ?case using Cons.prems by (simp add: join_thread_def)
qed

text \<open>
  Property C28.  Stopping a stream that runs returns once the connection is marked as interrupted: every thread
  is joined after it was asked to end, and the peer, the ENet host and the socket are given back.
\<close>

theorem control_stop_releases:
  assumes "runs_with e (all_threads e) s" "connectionInterrupted s" "isReferenceFrameInvalidationEnabled e \<noteq> None"
  shows "\<exists>s'. stopControlStream e s = Some s' \<and> ctl_at_rest s' \<and> stopping s'"
proof -
  let ?i = "interrupt_thread CtrlAsyncCb (interrupt_thread ControlRecv (interrupt_thread ReqIdrFrame
    (interrupt_thread LossStats (shut_socket (signal_stop s)))))"
  let ?ts = "[LossStats, ReqIdrFrame, ControlRecv, CtrlAsyncCb]"
  have run: "running ?i = all_threads e" "connectionInterrupted ?i"
    using assms(1,2) by (simp_all add: interrupt_thread_def shut_socket_def signal_stop_def runs_with_def)
  have "can_end t ?i" if "t \<in> set ?ts" for t
    using that assms(2) by (auto simp: can_end_def interrupt_thread_def interrupted_def shut_socket_def signal_stop_def transport_ends_def)
  then have j: "join_threads ?ts ?i = Some (?i\<lparr>running := filter (\<lambda>t. t \<notin> set ?ts) (all_threads e)\<rparr>)" (is "_ = Some ?j")
    using join_threads_ok [of ?ts ?i] run by (auto simp: all_threads_def)
  have inv: "asked InvRefFrames ?j"
    using assms(2) by (simp add: asked_def can_end_def interrupt_thread_def interrupted_def shut_socket_def signal_stop_def transport_ends_def)
  obtain rfi where rfi: "isReferenceFrameInvalidationEnabled e = Some rfi" using assms(3) by auto
  let ?k = "if rfi then (interrupt_thread InvRefFrames ?j)\<lparr>running := removeAll InvRefFrames (running ?j)\<rparr> else ?j"
  have k: "(if rfi then stop_thread InvRefFrames ?j else Some ?j) = Some ?k"
    using stop_thread_ok [OF _ inv] rfi by (simp add: all_threads_def)
  have z: "running ?k = []" "stopping ?k" using rfi
    by (auto simp: all_threads_def interrupt_thread_def shut_socket_def signal_stop_def)
  have ci: "connectionInterrupted (signal_stop s)" using assms(2) by (simp add: signal_stop_def)
  have "stopControlStream e s = Some ((if enetPeer ?k then (clog PeerLingered ?k)\<lparr>enetPeer := False\<rparr> else ?k)
      \<lparr>enetClient := False, ctlSock := False\<rparr>)"
    by (simp only: stopControlStream_def Let_def LC_ASSERT_True(2) [OF ci] j rfi k Option.bind.bind_lunit)
  then show ?thesis using z by (simp add: ctl_at_rest_def clog_def)
qed

end
