(* ===== verification/ControlExamples.thy ===== *)
theory ControlExamples
  imports ControlMessages ControlSession
begin

text \<open>
  The properties of the control stream at concrete inputs: a Sunshine host with the encrypted protocol, a
  cipher that leaves the text as it is under a fixed tag, and a network that accepts everything.
\<close>

definition ctl_env :: control_env where
  "ctl_env = \<lparr>ce_version = \<lparr>vq0 = 7, vq1 = 1, vq2 = 431, vq3 = - 1\<rparr>, EncryptionFeaturesEnabled = 1, rfi_supported = True,
     NegotiatedVideoFormat = 0x0100, decoderCapabilities = 4, ce_malloc = True, ce_now = 5000,
     gcm_seal = (\<lambda>iv p. Some (replicate 16 7, p)), gcm_open = (\<lambda>iv tag ct. if tag = replicate 16 7 then Some ct else None),
     packet_create_ok = True, channelCount = 48, peer_send = (\<lambda>_. 0), host_service = (\<lambda>_. 0), sent_or_gone = (\<lambda>_. True),
     tcp_send = (\<lambda>_. 0), tcp_reply = (\<lambda>_. []), LastSocketError = 0, create_thread = (\<lambda>_. 0)\<rparr>"

definition sample_stream :: control_stream where
  "sample_stream = \<lparr>stopping = False, disconnectPending = False, interceptSet = False, controlEncrypted = True,
     usePeriodicPing = True, hdrEnabled = False, hdrMetadata = no_metadata, variant = select_variant (ce_version ctl_env),
     lastGoodFrame = 0, lastSeenFrame = 0, intervalGoodFrameCount = 0, intervalTotalFrameCount = 0, intervalStartTimeMs = 0,
     lastIntervalLossPercentage = 0, lastConnectionStatusUpdate = 0, firstFrameTimeMs = 0, currentEnetSequenceNumber = 0,
     invalidReferenceFrameTuples = bq_start 20, frameFecStatusQueue = bq_start 8, asyncCallbackQueue = bq_start 30,
     idrFrameRequired = False, ctlSock = False, sockShut = False, enetClient = False, enetPeer = False, running = [],
     ctl_interrupted = [], connectionInterrupted = False, ctl_trace = []\<rparr>"

definition loss_ops :: "(control_env \<times> control_op) list" where
  "loss_ops = [(ctl_env, SawFrame 9), (ctl_env, LossRound (replicate 32 0))]"

definition loss_tail :: "(control_env \<times> control_op) list" where
  "loss_tail = [(ctl_env, ReportLoss 7 12), (ctl_env, InvalidateRound), (ctl_env, RequestIdr), (ctl_env, IdrRound)]"

definition ctl_session :: "(control_env \<times> control_op) list" where
  "ctl_session = loss_ops @ (ctl_env, ReportLoss 5 6) # loss_tail"

definition sample_live :: control_stream where
  "sample_live = sample_stream\<lparr>enetClient := True, enetPeer := True\<rparr>"

definition sample_start :: control_stream where
  "sample_start = initializeControlStream (ce_version ctl_env) sample_live"

lemma sample_run:
  "\<exists>s. control_run ctl_session sample_start = Some s \<and> length (seals (ctl_trace s)) \<le> 2 ^ 32"
proof -
  have "(case control_run ctl_session sample_start of None \<Rightarrow> False | Some s \<Rightarrow> length (seals (ctl_trace s)) \<le> 10)"
    by code_simp
  then show ?thesis by (auto split: option.splits)
qed

lemma sample_losses: "losses ctl_session = [(5, 6), (7, 12)]"
  by (simp add: ctl_session_def loss_ops_def loss_tail_def)

lemma sample_envs: "(e, op) \<in> set ctl_session \<Longrightarrow> e = ctl_env"
  by (auto simp: ctl_session_def loss_ops_def loss_tail_def)



theorem control_iv_unique_witness:
  "\<exists>s. control_run ctl_session sample_start = Some s \<and> distinct (seals (ctl_trace s))
     \<and> (\<forall>seq. control_iv ctl_env HOST_ORIGIN seq \<notin> set (seals (ctl_trace s)))"
proof -
  obtain s where s: "control_run ctl_session sample_start = Some s" "length (seals (ctl_trace s)) \<le> 2 ^ 32"
    using sample_run by blast
  moreover have "ctl_trace sample_live = []" by (simp add: sample_live_def sample_stream_def)
  moreover have "EncryptionFeaturesEnabled ctl_env AND SS_ENC_CONTROL_V2 \<noteq> 0" by (simp add: ctl_env_def SS_ENC_CONTROL_V2_def)
  ultimately show ?thesis
    using control_iv_unique [of ctl_session "ce_version ctl_env" sample_live s ctl_env] sample_envs
    by (auto simp: sample_start_def)
qed

theorem status_alternates_witness:
  "\<exists>s. control_run ctl_session sample_start = Some s \<and> distinct_adj (CONN_STATUS_OKAY # status_updates (ctl_trace s))"
proof -
  obtain s where s: "control_run ctl_session sample_start = Some s" using sample_run by blast
  moreover have "ctl_trace sample_live = []" by (simp add: sample_live_def sample_stream_def)
  ultimately show ?thesis
    using status_alternates [of ctl_session "ce_version ctl_env" sample_live s] by (auto simp: sample_start_def)
qed

theorem host_message_processed_witness:
  "\<exists>bytes. host_message ctl_env 1 0x0109 [1, 2, 3, 4] = Some bytes
     \<and> receive_packet ctl_env bytes sample_stream = process_message ctl_env (le_bytes 2 (0x0109 :: u16) @ [1, 2, 3, 4]) sample_stream"
proof -
  obtain bytes where b: "host_message ctl_env 1 0x0109 [1, 2, 3, 4] = Some bytes"
    by (simp add: host_message_def ctl_env_def)
  have "gcm_law ctl_env" by (simp add: gcm_law_def ctl_env_def AES_GCM_TAG_LENGTH_def)
  moreover have "controlEncrypted sample_stream" by (simp add: sample_stream_def)
  moreover have "ce_malloc ctl_env" by (simp add: ctl_env_def)
  ultimately have "receive_packet ctl_env bytes sample_stream
      = process_message ctl_env (le_bytes 2 (0x0109 :: u16) @ [1, 2, 3, 4]) sample_stream"
    using b by (rule host_message_processed) simp
  then show ?thesis using b by blast
qed

text \<open>An encrypted message with a wrong tag.\<close>

definition forged :: "u8 list" where
  "forged = encrypted_header 34 5 @ replicate 16 8 @ [9, 1, 2, 0, 0, 0, 0, 0, 0, 0, 0, 0, 0, 0]"

theorem only_authenticated_messages_witness:
  "receive_packet ctl_env forged sample_stream = Some (True, sample_stream)"
proof -
  have enc: "controlEncrypted sample_stream" by (simp add: sample_stream_def)
  have tag: "take 16 (drop 8 forged) = replicate 16 8"
    by (simp add: forged_def encrypted_header_def)
  have "gcm_open ctl_env iv (take 16 (drop 8 forged)) ct = None" for iv ct
    by (simp add: tag ctl_env_def)
  moreover have "receive_packet ctl_env forged sample_stream \<noteq> None"
    by (rule case_Some_ok) code_simp
  ultimately show ?thesis
    using only_authenticated_messages [OF enc, of ctl_env forged] by fastforce
qed

theorem callback_test_overread_witness:
  "needsAsyncCallback 0x0100 (sample_stream\<lparr>variant := select_variant \<lparr>vq0 = 7, vq1 = 1, vq2 = 400, vq3 = 0\<rparr>\<rparr>) = None"
  using callback_test_overread [where v = "\<lparr>vq0 = 7, vq1 = 1, vq2 = 400, vq3 = 0\<rparr>" and t = "0x0100"
      and s = "sample_stream\<lparr>variant := select_variant \<lparr>vq0 = 7, vq1 = 1, vq2 = 400, vq3 = 0\<rparr>\<rparr>"]
  by (simp add: APP_VERSION_AT_LEAST_def)

theorem callbacks_latest_witness:
  "\<exists>evs. latest (0, 1) (made evs) = Some (RumbleData 1 0 0) \<and> filter (\<lambda>cb. target cb = None) (made evs) = [SetMotionEvent 1 100 1]
     \<and> ctl_trace (callback_rounds 4 (sample_stream\<lparr>asyncCallbackQueue := (bq_start 30)\<lparr>contents :=
         [RumbleData 1 5 5, RumbleData 1 0 0, SetMotionEvent 1 100 1, SetRgbLed 1 0 0 0]\<rparr>\<rparr>)) = evs"
  using callbacks_latest [of "sample_stream\<lparr>asyncCallbackQueue := (bq_start 30)\<lparr>contents :=
      [RumbleData 1 5 5, RumbleData 1 0 0, SetMotionEvent 1 100 1, SetRgbLed 1 0 0 0]\<rparr>\<rparr>" 4]
  by (auto simp: bq_start_def sample_stream_def latest_def)

definition sample_transport :: start_env where
  "sample_transport = \<lparr>ControlPortNumber = 47999, host_create_ok = True, host_connect_ok = True,
     connect_result = Service_event Connected, tcp_connect_ok = False\<rparr>"

lemma sample_rest: "ctl_at_rest sample_stream" "variant sample_stream = select_variant (ce_version ctl_env)"
  "isReferenceFrameInvalidationEnabled ctl_env = Some True"
  by (simp_all add: ctl_at_rest_def sample_stream_def)
    (simp add: isReferenceFrameInvalidationEnabled_def isReferenceFrameInvalidationSupportedByDecoder_def ctl_env_def
      VIDEO_FORMAT_MASK_H265_def CAPABILITY_RFI_HEVC_def)

theorem control_start_outcome_witness:
  "\<exists>err s. startControlStream ctl_env sample_transport sample_stream = Some (err, s)
     \<and> (if err = 0 then runs_with ctl_env (all_threads ctl_env) s else ctl_at_rest s \<and> stopping s)"
  by (rule control_start_outcome [OF sample_rest(1,2)])
    (simp_all add: sample_rest, simp_all add: sample_transport_def ctl_env_def)

theorem control_stop_releases_witness:
  "\<exists>s. stopControlStream ctl_env (sample_stream\<lparr>running := all_threads ctl_env, enetClient := True, enetPeer := True,
     connectionInterrupted := True\<rparr>) = Some s \<and> ctl_at_rest s \<and> stopping s"
  by (rule control_stop_releases) (simp_all add: runs_with_def sample_rest, simp add: sample_stream_def ctl_env_def)

end
