(* ===== verification/Spec2Isabelle.thy ===== *)
theory Spec2Isabelle
  imports ByteBuffer LinkedBlockingQueue RtspParser ReedSolomon AudioDelivery VideoDelivery VideoLosses NalParsing Connection NetworkAddress InputDelivery ControlExamples
begin

text \<open>
  A verification development for the streaming core of the repository, the C library
  moonlight-common-c (under src/moonlight-web-stream-tsla/moonlight-common-sys/moonlight-common-c,
  files below are relative to its src/ directory).  The Rust and TypeScript programs around it hand
  a configuration to this library and forward the decode units and audio samples it delivers.

  \<^bold>\<open>The program.\<close>  The host sends RTP packets.  Audio packets go through the reordering and
  recovery queue of RtpAudioQueue.c.  Video packets are collected block by block in
  RtpVideoQueue.c, lost ones are recovered with the Reed-Solomon code of reedsolomon/rs.c, and whole
  frames go to VideoDepacketizer.c, which cuts them into decode units, watches the reference chain
  and puts the units into the bounded queue of LinkedBlockingQueue.c, from which the client's
  decoder takes them.  The session is negotiated by RTSP messages (RtspParser.c); binary messages
  are built and parsed with ByteBuffer.c; the client's input goes through the queue of InputStream.c; losses,
  statistics, input and the messages of the host travel on the control channel of ControlStream.c; sequence numbers are compared by the macros of
  Limelight-internal.h.

  \<^bold>\<open>The theories.\<close>
  \<^item> Prelude: C integers as words, the byte order conversions of Platform.h, memory reads and writes,
    the assertion macro, generic lemmas.  Version: the host version tests.
  \<^item> SerialNumber: \<open>isBefore16\<close>, \<open>isBefore24\<close>, \<open>isBefore32\<close>, as interpretations of the locale
    \<open>serial_order\<close>: within half the number space they are the order of the distances.
  \<^item> ByteBuffer: every operation of ByteBuffer.c with its wrap-around; histories never leave the
    block, records read back as written.
  \<^item> LinkedBlockingQueue: the doubly linked queue over a heap of entries; it refines the bounded FIFO
    \<open>bqueue\<close>, over every history; no wake-up is lost.  Locale \<open>fifo_component\<close>.
  \<^item> RtspParser: tokenizer, parser, serializer and option list of RtspParser.c over memory with an end.
  \<^item> GaloisField, ReedSolomon: the tables and matrix routines of rs.c; the tables are those of a
    field, elimination inverts, and any \<open>data\<close> of the \<open>data + parity\<close> shards recover the block.
  \<^item> RtpAudioQueue (model), AudioDelivery (proofs): safety, order and contents of what the audio queue
    gives out, over every history.  Locale \<open>block_content\<close> for what a block's packets satisfy.
  \<^item> RtpVideoQueue (model), VideoAssembly (accounting, recovery, staging), VideoDelivery (histories):
    no assertion fails, frames are whole and in order, the count of missing packets is exact.
  \<^item> VideoDepacketizer (model), NalParsing (the byte stream parser against its specification),
    VideoStream (well-formed units; in strict mode a decodable stream), VideoLosses (the losses it reports are
    ranges in order).  This theory composes them with the control stream.
  \<^item> NetworkAddress: the classification of private addresses, name resolution and buffer sizing of
    PlatformSockets.c.  CString: the C library's number parsing and string searches.
  \<^item> Connection: Connection.c, the stages of starting and stopping a session, with interruption and
    termination by other threads; what is set up is taken down once, in reverse order.
  \<^item> InputPackets (Input.h), InputStream (InputStream.c), InputClient (what the client's calls do),
    InputThread and InputHistory (the accounts every thread step keeps), InputDelivery (the theorems over
    histories: safety, conservation of movement, order, batching, draining; text and scrolling).
  \<^item> ControlStream: ControlStream.c, its tables, reports, messages, callbacks and threads, one definition per
    function or round of a thread, over a record of its static variables; what leaves it is a trace.  ControlHistory: histories
    of its operations, what sending leaves alone, the account of vectors and losses.  ControlDelivery: no loss is
    forgotten, the request threads never fail, initialization vectors do not repeat, status callbacks alternate.
    ControlMessages: encrypted messages of the host, the lookup of types, combining callbacks.  ControlSession:
    the outcome of starting and stopping.  ControlExamples: the theorems at a concrete host.

  \<^bold>\<open>How state and operations correspond.\<close>  A structure of the code is a record with the code's
  field names, suffixed where two structures share one; a function is a definition of its name;
  parts of a long function that are definitions of their own name their lines.  The static
  variables of VideoDepacketizer.c are one record that every operation takes and returns.  A failed
  \<open>LC_ASSERT\<close>, an access outside a buffer and a loop that does not end are \<open>None\<close>; the theorems show
  that they do not happen, or name the input for which they do.  Assertions that check the
  host's data (\<open>LC_ASSERT_VT\<close>), the code under \<open>FEC_VALIDATION_MODE\<close>, \<open>LC_FUZZING\<close> and other debugging
  switches, and log messages are left out.  Calls into components that are not modelled are events in
  the order they are made; allocation results, times and callbacks are arguments.

  \<^bold>\<open>Bounds and loops.\<close>  Counters that the code keeps in 32 bits and that stay below a few thousand
  are natural numbers; sequence numbers are 16-bit words.  Loops are structural
  recursions, or partial functions whose termination is a theorem (\<open>video_staging_terminates\<close>,
  \<open>nal_search_exact\<close>, \<open>slow_path_splits\<close>).  Four loops of the input stream carry a bound on their rounds:
  the two batching loops the length of the queue, which every round shortens; the loop over a text its length,
  of which every round takes a byte; the scroll loop the accumulated amount, which every round lowers.  Running
  out is \<open>None\<close> in the last two, and InputClient and InputHistory show that it does not happen.  The loops of the
  control stream's threads are cut into rounds; the loops inside a round over a queue are bounded by its length, and the
  wait for a packet by the ten rounds of the code.  Joining a thread that was not asked to end, which
  blocks, is \<open>None\<close>, and ControlSession shows that it does not happen.

  \<^bold>\<open>Not modelled.\<close>  The calls into sockets, threads and cryptography (the rest of PlatformSockets.c,
  PlatformThreads.h, PlatformCrypto.c): services outside the repository.  ENet (enet/), vendored; the socket code of
  RtspConnection.c, AudioStream.c, VideoStream.c, ConnectionTester.c and SimpleStun.c, and the text of SdpGenerator.c.  Concurrency inside an operation: an entry
  point runs without interleaving with another thread's.  The Rust, TypeScript and script parts of the repository, which are
  bindings and glue around this library.
\<close>

section \<open>The depacketizer and the control stream\<close>


text \<open>
  An IDR frame, a lost frame 2, a P frame that has to wait, a P frame with valid references; both losses
  are reported, the thread requests the first one before the second is there.
\<close>

definition rfi_frames :: "dp_op list" where
  "rfi_frames = [av1_frame 1 0 2, Complete (make_unit av1_env 1 (static_depacketizer\<lparr>dp_frameType := 1\<rparr>)) 0,
     Lost 2, av1_frame 4 3 1, av1_frame 5 4 5]"

definition rfi_session :: "(control_env \<times> control_op) list" where
  "rfi_session = [(ctl_env, ReportLoss 2 2), (ctl_env, InvalidateRound), (ctl_env, ReportLoss 2 4)]"

lemma rfi_frames_run:
  "case dp_run rfi_frames (initializeVideoDepacketizer True static_depacketizer) of None \<Rightarrow> False
   | Some (d, ev) \<Rightarrow> loss_ranges ev = [(2, 2), (2, 4)]"
  by code_simp

lemma rfi_frames_intact: "numbers_intact rfi_frames (initializeVideoDepacketizer True static_depacketizer)"
  by code_simp

lemma rfi_session_run: "case control_run rfi_session sample_start of None \<Rightarrow> False | Some s \<Rightarrow> True"
  by code_simp


end
